(* ===== verification/Prelude.thy ===== *)
theory Prelude
  imports Main "HOL-Library.Word" "HOL-Library.Option_ord" "HOL-Library.Monad_Syntax"
begin

section \<open>Shared types and helpers\<close>

text \<open>
  What the component theories share: the machine integers of the Rust code and its saturating
  arithmetic, the slice and iterator operations the code uses (\<open>position\<close>, \<open>rposition\<close>, checked
  indexing, \<open>retain\<close> on a hash map), decimal formatting, and the part of \<open>str\<close> that the model
  needs. A Rust string is the \<^typ>\<open>string\<close> of its UTF-8 bytes; an index of the standard library is
  a \<^typ>\<open>nat\<close>; a panic is the value \<^const>\<open>None\<close> of an option.
\<close>

type_synonym u64 = "64 word"
type_synonym u32 = "32 word"
type_synonym i32 = "32 word"

text \<open>An \<open>f64\<close> the model only copies is kept as its bit pattern.\<close>

type_synonym f64 = "64 word"

named_theorems panic_free \<open>operations that return whenever the state is well formed\<close>
named_theorems turn_frame \<open>fields an operation leaves alone\<close>

subsection \<open>Saturating arithmetic\<close>

definition sat_add :: "'a::len word \<Rightarrow> 'a word \<Rightarrow> 'a word" where
  "sat_add a b = (if unat a + unat b < 2 ^ LENGTH('a) then a + b else - 1)"

definition sat_sub :: "'a::len word \<Rightarrow> 'a word \<Rightarrow> 'a word" where
  "sat_sub a b = (if b \<le> a then a - b else 0)"

definition sat_mul :: "'a::len word \<Rightarrow> 'a word \<Rightarrow> 'a word" where
  "sat_mul a b = (if unat a * unat b < 2 ^ LENGTH('a) then a * b else - 1)"

definition abs_diff :: "'a::len word \<Rightarrow> 'a word \<Rightarrow> 'a word" where
  "abs_diff a b = (if a \<le> b then b - a else a - b)"

lemma unat_sat_add: "unat (sat_add (a::'a::len word) b) = min (unat a + unat b) (2 ^ LENGTH('a) - 1)"
proof (cases "unat a + unat b < 2 ^ LENGTH('a)")
  case True
  then have "unat (sat_add a b) = unat a + unat b"
    by (simp add: sat_add_def unat_word_ariths)
  with True show ?thesis by simp
next
  case False
  then have "unat (sat_add a b) = 2 ^ LENGTH('a) - 1"
    by (simp add: sat_add_def unsigned_minus_1_eq_mask mask_eq_exp_minus_1)
  with False show ?thesis by simp
qed

lemma unat_sat_sub: "unat (sat_sub (a::'a::len word) b) = unat a - unat b"
  by (simp add: sat_sub_def unat_sub word_le_nat_alt)

lemma sat_add_ge: "a \<le> sat_add a (b::'a::len word)"
proof -
  have "unat a < 2 ^ LENGTH('a)" by (rule unsigned_less)
  then have "unat a \<le> 2 ^ LENGTH('a) - 1" by linarith
  then show ?thesis by (simp add: word_le_nat_alt unat_sat_add)
qed

lemma sat_add_mono: "a \<le> a' \<Longrightarrow> sat_add a b \<le> sat_add a' (b::'a::len word)"
  by (simp add: word_le_nat_alt unat_sat_add)

lemma sat_sub_mono: "a \<le> a' \<Longrightarrow> sat_sub a b \<le> sat_sub a' (b::'a::len word)"
  by (simp add: word_le_nat_alt unat_sat_sub)

subsection \<open>Slices and iterators\<close>

text \<open>\<open>iter().position(p)\<close>: the index of the first element that satisfies the predicate.\<close>

primrec position :: "('a \<Rightarrow> bool) \<Rightarrow> 'a list \<Rightarrow> nat option" where
  "position P [] = None"
| "position P (x # xs) = (if P x then Some 0 else map_option Suc (position P xs))"

text \<open>\<open>iter().rposition(p)\<close>: the index of the last one.\<close>

definition rposition :: "('a \<Rightarrow> bool) \<Rightarrow> 'a list \<Rightarrow> nat option" where
  "rposition P xs = map_option (\<lambda>i. length xs - 1 - i) (position P (rev xs))"

text \<open>\<open>xs[i]\<close> and \<open>xs[i] = f(xs[i])\<close>: out of range is a panic.\<close>

definition index :: "'a list \<Rightarrow> nat \<Rightarrow> 'a option" where
  "index xs i = (if i < length xs then Some (xs ! i) else None)"

definition index_mut :: "'a list \<Rightarrow> nat \<Rightarrow> ('a \<Rightarrow> 'a) \<Rightarrow> 'a list option" where
  "index_mut xs i f = (if i < length xs then Some (xs[i := f (xs ! i)]) else None)"

text \<open>\<open>len().checked_sub(1)\<close>.\<close>

definition last_index :: "'a list \<Rightarrow> nat option" where
  "last_index xs = (if xs = [] then None else Some (length xs - 1))"

text \<open>\<open>last_mut()\<close> followed by an update; nothing happens to an empty list.\<close>

definition update_last :: "('a \<Rightarrow> 'a) \<Rightarrow> 'a list \<Rightarrow> 'a list" where
  "update_last f xs = (if xs = [] then [] else butlast xs @ [f (last xs)])"

text \<open>\<open>iter().find_map(f)\<close> and \<open>Option::or\<close>.\<close>

primrec find_map :: "('a \<Rightarrow> 'b option) \<Rightarrow> 'a list \<Rightarrow> 'b option" where
  "find_map f [] = None"
| "find_map f (x # xs) = (case f x of Some y \<Rightarrow> Some y | None \<Rightarrow> find_map f xs)"

definition opt_or :: "'a option \<Rightarrow> 'a option \<Rightarrow> 'a option" where
  "opt_or a b = (case a of Some x \<Rightarrow> Some x | None \<Rightarrow> b)"

definition opt_list :: "'a option \<Rightarrow> 'a list" where
  "opt_list x = (case x of Some y \<Rightarrow> [y] | None \<Rightarrow> [])"

text \<open>\<open>HashMap::retain\<close>.\<close>

definition retain_map :: "('k \<Rightarrow> 'v \<Rightarrow> bool) \<Rightarrow> ('k \<rightharpoonup> 'v) \<Rightarrow> ('k \<rightharpoonup> 'v)" where
  "retain_map P m = (\<lambda>k. case m k of None \<Rightarrow> None | Some v \<Rightarrow> if P k v then Some v else None)"

lemma position_Some_iff:
  "position P xs = Some i \<longleftrightarrow> i < length xs \<and> P (xs ! i) \<and> (\<forall>j<i. \<not> P (xs ! j))"
proof (induction xs arbitrary: i)
  case Nil
  then show ?case by simp
next
  case (Cons x xs)
  show ?case
  proof (cases i)
    case 0
    then show ?thesis by simp
  next
    case (Suc k)
    then show ?thesis using Cons.IH [of k]
      by (auto simp: less_Suc_eq_0_disj)
  qed
qed

lemma position_None_iff: "position P xs = None \<longleftrightarrow> (\<forall>x\<in>set xs. \<not> P x)"
  by (induction xs) auto

lemma position_skip: "list_all (\<lambda>x. \<not> P x) xs \<Longrightarrow> P y \<Longrightarrow> position P (xs @ y # ys) = Some (length xs)"
  by (induction xs) simp_all

lemma position_less: "position P xs = Some i \<Longrightarrow> i < length xs"
  by (simp add: position_Some_iff)

lemma position_map: "position P (map f xs) = position (P \<circ> f) xs"
  by (induction xs) auto

lemma position_cong: "(\<And>x. x \<in> set xs \<Longrightarrow> P x = Q x) \<Longrightarrow> position P xs = position Q xs"
  by (induction xs) auto

lemma position_append:
  "position P (xs @ ys) = (case position P xs of Some i \<Rightarrow> Some i
     | None \<Rightarrow> map_option (\<lambda>i. length xs + i) (position P ys))"
  by (cases "position P ys"; induction xs) (auto split: option.splits)

lemma find_map_SomeD: "find_map f xs = Some y \<Longrightarrow> \<exists>x\<in>set xs. f x = Some y"
  by (induction xs) (auto split: option.splits)

lemma find_map_map_option: "map_option h (find_map f xs) = find_map (\<lambda>x. map_option h (f x)) xs"
  by (induction xs) (auto split: option.splits)

lemma find_map_cong: "(\<And>x. x \<in> set xs \<Longrightarrow> f x = g x) \<Longrightarrow> find_map f xs = find_map g xs"
  by (induction xs) (auto split: option.splits)

lemma rposition_less: "rposition P xs = Some i \<Longrightarrow> i < length xs"
  by (auto simp: rposition_def dest!: position_less)

lemma rposition_map: "rposition P (map f xs) = rposition (P \<circ> f) xs"
  by (simp add: rposition_def rev_map position_map)

lemma last_index_less: "last_index xs = Some i \<Longrightarrow> i < length xs"
  by (auto simp: last_index_def split: if_splits)

lemma last_index_map [simp]: "last_index (map f xs) = last_index xs"
  by (simp add: last_index_def)

lemma last_index_eq_None [simp]: "last_index xs = None \<longleftrightarrow> xs = []"
  by (simp add: last_index_def)

lemma index_Some [simp]: "i < length xs \<Longrightarrow> index xs i = Some (xs ! i)"
  by (simp add: index_def)

lemma index_mut_Some [simp]: "i < length xs \<Longrightarrow> index_mut xs i f = Some (xs[i := f (xs ! i)])"
  by (simp add: index_mut_def)

lemma length_update_last [simp]: "length (update_last f xs) = length xs"
  by (cases xs rule: rev_cases) (auto simp: update_last_def)

lemma update_last_Nil_iff [simp]: "update_last f xs = [] \<longleftrightarrow> xs = []"
  by (auto simp: update_last_def)

lemma update_last_list_update:
  "xs \<noteq> [] \<Longrightarrow> update_last f xs = xs[length xs - 1 := f (xs ! (length xs - 1))]"
  by (cases xs rule: rev_cases) (auto simp: update_last_def)

lemma map_update_last:
  "(\<And>x. f (g x) = h (f x)) \<Longrightarrow> map f (update_last g xs) = update_last h (map f xs)"
  by (cases xs rule: rev_cases) (auto simp: update_last_def)

lemma retain_map_Some [simp]:
  "retain_map P m k = Some v \<longleftrightarrow> m k = Some v \<and> P k v"
  by (auto simp: retain_map_def split: option.splits)

subsection \<open>Decimal formatting\<close>

text \<open>\<open>format!("{n}")\<close> of an unsigned integer.\<close>

fun decimal :: "nat \<Rightarrow> string" where
  "decimal n = (if n < 10 then [char_of (48 + n)] else decimal (n div 10) @ [char_of (48 + n mod 10)])"

declare decimal.simps [simp del]

text \<open>Reading the digits back, which makes formatting injective.\<close>

definition undecimal :: "string \<Rightarrow> nat" where
  "undecimal s = foldl (\<lambda>n c. n * 10 + (of_char c - 48)) 0 s"

lemma undecimal_decimal: "undecimal (decimal n) = n"
proof (induction n rule: decimal.induct)
  case (1 n)
  show ?case
  proof (cases "n < 10")
    case True
    then show ?thesis
      by (simp add: decimal.simps [of n] undecimal_def)
  next
    case False
    then have "undecimal (decimal (n div 10)) = n div 10" by (rule 1)
    with False show ?thesis
      by (simp add: decimal.simps [of n] undecimal_def)
  qed
qed

lemma decimal_inject [simp]: "decimal m = decimal n \<longleftrightarrow> m = n"
  by (metis undecimal_decimal)

subsection \<open>Strings\<close>

text \<open>\<open>starts_with\<close> and \<open>ends_with\<close> of byte strings.\<close>

definition starts_with :: "string \<Rightarrow> string \<Rightarrow> bool" where
  "starts_with s p \<longleftrightarrow> take (length p) s = p"

definition ends_with :: "string \<Rightarrow> string \<Rightarrow> bool" where
  "ends_with s p \<longleftrightarrow> starts_with (rev s) (rev p)"

text \<open>\<open>strip_prefix\<close>, and \<open>strip_suffix\<close> of one byte.\<close>

definition strip_prefix :: "string \<Rightarrow> string \<Rightarrow> string option" where
  "strip_prefix s p = (if starts_with s p then Some (drop (length p) s) else None)"

definition strip_last :: "string \<Rightarrow> char \<Rightarrow> string option" where
  "strip_last s c = (if s \<noteq> [] \<and> last s = c then Some (butlast s) else None)"

text \<open>\<open>u64::checked_mul\<close>.\<close>

definition checked_mul :: "'a::len word \<Rightarrow> 'a word \<Rightarrow> 'a word option" where
  "checked_mul a b = (if unat a * unat b < 2 ^ LENGTH('a) then Some (a * b) else None)"

lemma starts_with_iff: "starts_with s p \<longleftrightarrow> (\<exists>r. s = p @ r)"
  by (metis append_eq_conv_conj append_take_drop_id starts_with_def)

lemma starts_with_append [simp]: "starts_with (p @ r) p"
  by (auto simp: starts_with_iff)

lemma strip_prefix_Some_iff: "strip_prefix s p = Some r \<longleftrightarrow> s = p @ r"
  by (auto simp: strip_prefix_def starts_with_iff)

lemma strip_prefix_append [simp]: "strip_prefix (p @ r) p = Some r"
  by (simp add: strip_prefix_Some_iff)

lemma unat_checked_mul: "checked_mul a b = Some (c :: 'a::len word) \<Longrightarrow> unat c = unat a * unat b"
  by (auto simp: checked_mul_def unat_word_ariths split: if_splits)

text \<open>\<open>contains\<close>: the pattern occurs somewhere.\<close>

fun contains_str :: "string \<Rightarrow> string \<Rightarrow> bool" where
  "contains_str [] p = (p = [])"
| "contains_str (c # s) p = (starts_with (c # s) p \<or> contains_str s p)"

text \<open>\<open>to_ascii_lowercase\<close>: every byte outside \<open>A\<close> to \<open>Z\<close> stays.\<close>

definition ascii_lower :: "char \<Rightarrow> char" where
  "ascii_lower c = (let n = of_char c in if 65 \<le> n \<and> n \<le> (90::nat) then char_of (n + 32) else c)"

definition to_ascii_lowercase :: "string \<Rightarrow> string" where
  "to_ascii_lowercase = map ascii_lower"

text \<open>
  Unicode white space at the start of a UTF-8 string, as its length in bytes (0 when the string
  starts with something else): the code points of the \<open>White_Space\<close> property, which
  \<open>char::is_whitespace\<close> tests.
\<close>

definition blank_len :: "string \<Rightarrow> nat" where
  "blank_len s = (case map of_char s :: nat list of
      [] \<Rightarrow> 0
    | a # rest \<Rightarrow>
        if (9 \<le> a \<and> a \<le> 13) \<or> a = 32 then 1
        else (case rest of
            [] \<Rightarrow> 0
          | b # rest' \<Rightarrow>
              if a = 194 \<and> (b = 133 \<or> b = 160) then 2
              else (case rest' of
                  [] \<Rightarrow> 0
                | c # _ \<Rightarrow>
                    if (a = 225 \<and> b = 154 \<and> c = 128)
                      \<or> (a = 226 \<and> b = 128 \<and> (128 \<le> c \<and> c \<le> 138 \<or> c = 168 \<or> c = 169 \<or> c = 175))
                      \<or> (a = 226 \<and> b = 129 \<and> c = 159)
                      \<or> (a = 227 \<and> b = 128 \<and> c = 128) then 3
                    else 0)))"

text \<open>\<open>trim_start\<close>.\<close>

function trim_start :: "string \<Rightarrow> string" where
  "trim_start s = (if blank_len s = 0 \<or> s = [] then s else trim_start (drop (blank_len s) s))"
  by pat_completeness auto
termination
  by (relation "measure length") auto

declare trim_start.simps [simp del]

text \<open>\<open>s.trim().is_empty()\<close>: nothing but white space.\<close>

definition is_blank :: "string \<Rightarrow> bool" where
  "is_blank s \<longleftrightarrow> trim_start s = []"


text \<open>\<open>str::trim\<close>: white space is cut at both ends.\<close>

definition blank_tail :: "string \<Rightarrow> nat" where
  "blank_tail s = (case find (\<lambda>n. n \<le> length s \<and> blank_len (drop (length s - n) s) = n) [1, 2, 3] of
      Some n \<Rightarrow> n | None \<Rightarrow> 0)"

function trim_end :: "string \<Rightarrow> string" where
  "trim_end s = (if blank_tail s = 0 \<or> s = [] then s else trim_end (take (length s - blank_tail s) s))"
  by pat_completeness auto
termination
  by (relation "measure length") auto

declare trim_end.simps [simp del]

definition str_trim :: "string \<Rightarrow> string" where
  "str_trim s = trim_end (trim_start s)"

subsection \<open>Reading a number\<close>

text \<open>
  \<open>str::parse::<u64>\<close>: an optional \<open>+\<close>, then one or more decimal digits whose value fits.
\<close>

definition is_digit :: "char \<Rightarrow> bool" where
  "is_digit c = (48 \<le> (of_char c :: nat) \<and> (of_char c :: nat) \<le> 57)"

definition parse_u64 :: "string \<Rightarrow> u64 option" where
  "parse_u64 s = (
     let digits = (case s of c # cs \<Rightarrow> if c = CHR ''+'' then cs else s | [] \<Rightarrow> [])
     in if digits \<noteq> [] \<and> list_all is_digit digits \<and> undecimal digits < 2 ^ 64
        then Some (of_nat (undecimal digits)) else None)"

lemma decimal_digits: "list_all is_digit (decimal n) \<and> decimal n \<noteq> []"
proof (induction n rule: decimal.induct)
  case (1 n)
  have "is_digit (char_of (48 + d))" if "d < 10" for d :: nat
    using that by (simp add: is_digit_def)
  with 1 show ?case by (simp add: decimal.simps [of n])
qed

lemma parse_u64_decimal: "parse_u64 (decimal (unat (w :: u64))) = Some w"
proof -
  from decimal_digits [of "unat w"] obtain c cs where d: "decimal (unat w) = c # cs" "is_digit c"
    by (cases "decimal (unat w)") auto
  then have "c \<noteq> CHR ''+''" by (auto simp: is_digit_def)
  moreover have "unat w < 2 ^ 64" using unsigned_less [of w] by simp
  ultimately show ?thesis
    using decimal_digits [of "unat w"] d undecimal_decimal [of "unat w"]
    by (simp add: parse_u64_def Let_def)
qed

subsection \<open>Machines that never get stuck\<close>

text \<open>Folding a partial step over a list of events: \<^const>\<open>None\<close> as soon as one step panics.\<close>

primrec fold_opt :: "('e \<Rightarrow> 's \<Rightarrow> 's option) \<Rightarrow> 'e list \<Rightarrow> 's \<Rightarrow> 's option" where
  "fold_opt step [] s = Some s"
| "fold_opt step (e # es) s = Option.bind (step e s) (fold_opt step es)"

lemma fold_opt_append:
  "fold_opt step (es @ fs) s = Option.bind (fold_opt step es s) (fold_opt step fs)"
  by (induction es arbitrary: s) (auto split: bind_splits)

text \<open>
  The interface of every fold in the development: a step that is total on well-formed states and
  keeps them well formed. Any sequence of steps is then total.
\<close>

locale safe_machine =
  fixes step :: "'e \<Rightarrow> 's \<Rightarrow> 's option"
    and ok :: "'s \<Rightarrow> bool"
  assumes step_safe: "ok s \<Longrightarrow> \<exists>s'. step e s = Some s' \<and> ok s'"
begin

lemma step_keeps: "ok s \<Longrightarrow> step e s = Some s' \<Longrightarrow> ok s'"
  using step_safe [of s e] by auto

lemma run_safe: "ok s \<Longrightarrow> \<exists>s'. fold_opt step es s = Some s' \<and> ok s'"
proof (induction es arbitrary: s)
  case Nil
  then show ?case by simp
next
  case (Cons e es)
  from step_safe [OF Cons.prems] obtain s1 where "step e s = Some s1" "ok s1" by blast
  with Cons.IH [of s1] show ?case by simp
qed

lemma run_keeps: "ok s \<Longrightarrow> fold_opt step es s = Some s' \<Longrightarrow> ok s'"
  using run_safe [of s es] by auto

end

end
