(* ===== verification/Agent_Events.thy ===== *)
theory Agent_Events
  imports Prelude
begin

section \<open>The canonical agent events\<close>

text \<open>
  The provider-agnostic event model of \<^verbatim>\<open>crates/agent/src/lib.rs\<close>: what every provider adapter
  normalises its wire protocol into, and what the session log stores. The type variable \<open>'j\<close>
  stands for \<open>serde_json::Value\<close>, which the model never inspects. Fields carry a prefix because
  record fields share one name space.
\<close>

subsection \<open>Providers and options\<close>

datatype provider_kind = Codex | ClaudeCode | Pi | OpenCode | Cursor | Grok | Acp

datatype option_role = ModelRole | PermissionRole

datatype apply_timing = Live | NextTurn | Restart

record select_option =
  so_value :: string
  so_label :: string
  so_description :: "string option"
  so_unavailable :: "string option"

datatype option_descriptor =
    SelectOption string string "select_option list" "string option" option_role apply_timing
      "string option" "string option"
  | BooleanOption string string bool option_role apply_timing "bool option" "bool option"

record 'j option_selection =
  os_id :: string
  os_value :: 'j

datatype 'j resume_cursor = ResumeCursor 'j

subsection \<open>User input\<close>

datatype user_input_delivery = Blocking | Async

definition is_blocking :: "user_input_delivery \<Rightarrow> bool" where
  "is_blocking d \<longleftrightarrow> d = Blocking"

record user_input_option =
  uo_label :: string
  uo_description :: string

record user_input_question =
  uq_id :: string
  uq_header :: string
  uq_question :: string
  uq_options :: "user_input_option list"
  uq_multi_select :: bool
  uq_prefill :: "string option"

record attachment =
  at_media_type :: string
  at_data_base64 :: string
  at_source_path :: "string option"

datatype provider_command_kind = CommandKind | SkillKind

record provider_command =
  pc_name :: string
  pc_description :: "string option"
  pc_kind :: provider_command_kind

subsection \<open>Turns, plans and goals\<close>

datatype plan_resolution = Implemented | HandedOff string | DismissedPlan

datatype classifier_category = Cyber | Bio | OtherCategory string

record turn_retry =
  tr_turn_id :: string
  tr_retry_at :: "u64 option"

datatype plan_step_status = StepPending | StepInProgress | StepCompleted

record plan_step =
  ps_step :: string
  ps_status :: plan_step_status

datatype goal_status = GoalActive | GoalPaused | GoalBlocked | GoalUsageLimited | GoalBudgetLimited | GoalComplete

record goal =
  go_objective :: string
  go_status :: goal_status
  go_tokens_used :: "u64 option"
  go_token_budget :: "u64 option"
  go_time_used_secs :: "u64 option"
  go_checks :: "u32 option"
  go_last_check :: "string option"

datatype turn_status = TurnStatusCompleted | TurnStatusFailed | TurnStatusInterrupted

datatype rewind_mode = RewindFiles | RewindConversation | FilesAndConversation

definition includes_files :: "rewind_mode \<Rightarrow> bool" where
  "includes_files m \<longleftrightarrow> m = RewindFiles \<or> m = FilesAndConversation"

definition includes_conversation :: "rewind_mode \<Rightarrow> bool" where
  "includes_conversation m \<longleftrightarrow> m = RewindConversation \<or> m = FilesAndConversation"

datatype change_completeness = Exact | Partial

datatype delta_kind = AssistantText | ReasoningText | CommandOutput

subsection \<open>Thread items\<close>

datatype item_status = InProgress | Completed | Failed | Interrupted | Declined

datatype file_change_kind = CreateFile | ModifyFile | DeleteFile | RenameFile

record file_change =
  fc_path :: string
  fc_kind :: file_change_kind
  fc_diff :: "string option"

datatype 'j item_content =
    UserMessage string "nat option" "string list"
  | AssistantMessage string bool
  | Reasoning string
  | CommandExecution string string "i32 option" item_status
  | FileChange "file_change list" item_status
  | ToolCall "attachment list" string 'j "string option" item_status
  | Subagent string string item_status "string option" "string option" "string option"
  | ImageRead string "attachment option"
  | WebSearch string
  | OtherItem string string

record 'j thread_item =
  ti_id :: string
  ti_parent_item_id :: "string option"
  ti_content :: "'j item_content"

definition is_user_message :: "'j item_content \<Rightarrow> bool" where
  "is_user_message c \<longleftrightarrow> (case c of UserMessage _ _ _ \<Rightarrow> True | _ \<Rightarrow> False)"

subsection \<open>Approvals\<close>

datatype approval_option_kind = AllowOnce | AllowAlways | RejectOnce | RejectAlways

record approval_option =
  ao_id :: string
  ao_label :: string
  ao_kind :: approval_option_kind

datatype 'j approval_kind =
    ExecCommand string "string option" "string option"
  | FileRead string
  | FileChangeApproval "file_change list" "string option"
  | ToolUse string 'j string

record 'j approval_request =
  ar_id :: string
  ar_turn_id :: "string option"
  ar_parent_item_id :: "string option"
  ar_kind :: "'j approval_kind"
  ar_options :: "approval_option list"

datatype approval_decision = Cancel | OptionDecision string

subsection \<open>Token usage and compaction\<close>

datatype context_freshness = UnknownFreshness | Current | LastKnown | Compacting | AwaitingObservation

record control_action =
  ca_actor_thread_id :: string
  ca_actor_title :: string
  ca_action :: string
  ca_detail :: "string option"

record compaction =
  cp_in_progress :: bool
  cp_trigger :: "string option"
  cp_pre_tokens :: "u64 option"
  cp_post_tokens :: "u64 option"
  cp_dropped_tokens :: "u64 option"
  cp_duration_ms :: "u64 option"

record token_usage =
  tu_freshness :: context_freshness
  tu_turn_processed_tokens :: "u64 option"
  tu_input_tokens :: "u64 option"
  tu_cached_input_tokens :: "u64 option"
  tu_output_tokens :: "u64 option"
  tu_used_tokens :: "u64 option"
  tu_context_window :: "u64 option"
  tu_total_processed_tokens :: "u64 option"
  tu_cost_usd :: "f64 option"
  tu_duration_ms :: "u64 option"

definition token_usage_default :: token_usage where
  "token_usage_default = \<lparr>tu_freshness = UnknownFreshness, tu_turn_processed_tokens = None,
     tu_input_tokens = None, tu_cached_input_tokens = None, tu_output_tokens = None,
     tu_used_tokens = None, tu_context_window = None, tu_total_processed_tokens = None,
     tu_cost_usd = None, tu_duration_ms = None\<rparr>"

subsection \<open>Events\<close>

datatype (plugins only: code) 'j agent_event =
    TurnRetry "turn_retry option"
  | ProviderRelay provider_kind "string option" provider_kind "string option" "string option" "string option"
  | PlanResolved string plan_resolution
  | ProviderOptions "option_descriptor list" "'j option_selection list"
  | SessionStarted string "'j resume_cursor" "string option"
  | ServedModel string "string option"
  | ModelFallbackDetected string string "classifier_category option" "string option" "string option"
  | TurnBlocked "classifier_category option" "string option" string
  | TurnStarted string
  | TurnAccepted u64
  | McpServersNotAttached
  | BackgroundTasksChanged nat
  | TurnChangesUpdated string "file_change list" change_completeness
  | TurnCheckpoint string string
  | RewindCompleted string rewind_mode "string option"
  | RewindFailed string rewind_mode string
  | TurnCompleted string turn_status "token_usage option"
  | ItemStarted "'j thread_item"
  | ItemUpdated "'j thread_item"
  | ItemCompleted "'j thread_item"
  | SteerRequested string string "string list"
  | SteerAccepted string
  | SteerRejected string
  | Delta string delta_kind string
  | ApprovalRequested "'j approval_request"
  | ApprovalResolved string approval_decision
  | UserInputRequested string "user_input_question list" user_input_delivery
  | UserInputResolved string "(string \<times> 'j) list"
  | TokenUsage token_usage
  | ProviderCommands "provider_command list"
  | ContextCompacted compaction
  | ContextWindowChanged u64
  | ControlAction control_action
  | PlanUpdated "string option" "string option" "plan_step list"
  | GoalUpdated "goal option"
  | ProposedPlanDelta string string
  | ProposedPlan string string
  | Warning string
  | ProviderStartFailed string
  | Error string bool
  | UsageLimitReached u64
  | SessionClosed "string option"

text \<open>Classifiers the folds match on.\<close>

fun is_turn_completed :: "'j agent_event \<Rightarrow> bool" where
  "is_turn_completed (TurnCompleted _ _ _) = True"
| "is_turn_completed _ = False"

fun is_turn_changes :: "'j agent_event \<Rightarrow> bool" where
  "is_turn_changes (TurnChangesUpdated _ _ _) = True"
| "is_turn_changes _ = False"

end
