(* ===== verification/Tool_Clock.thy ===== *)
theory Tool_Clock
  imports Agent_Events
begin

section \<open>Tool-time accounting of one turn\<close>

text \<open>
  \<open>ToolClock\<close>, \<open>TurnTiming\<close> and \<open>finish_timing\<close> of \<^verbatim>\<open>crates/core/src/session.rs\<close>: how a finished
  turn's wall clock divides between waiting on tools and the rest. The clock is one accumulator
  that charges the union of the intervals in which some tool-like item is in progress. The lemmas
  relate it to a reference that collects the active milliseconds as a set, so parallel tools
  cannot be counted twice.
\<close>

subsection \<open>State\<close>

record turn_timing =
  tt_total_ms :: u64
  tt_tool_ms :: u64

definition turn_timing_new :: "u64 \<Rightarrow> u64 \<Rightarrow> turn_timing" where
  "turn_timing_new total_ms tool_ms = \<lparr>tt_total_ms = total_ms, tt_tool_ms = min tool_ms total_ms\<rparr>"

record tool_clock =
  tc_open :: "string set"
  tc_union_start :: "u64 option"
  tc_tool_ms :: u64
  tc_clock :: "u64 option"
  tc_turn_start :: "u64 option"
  tc_untimed :: bool

definition tool_clock_default :: tool_clock where
  "tool_clock_default = \<lparr>tc_open = {}, tc_union_start = None, tc_tool_ms = 0, tc_clock = None,
     tc_turn_start = None, tc_untimed = False\<rparr>"

subsection \<open>Operations\<close>

text \<open>\<open>advance\<close>: accept a timestamp without moving the clock backwards.\<close>

definition tc_advance :: "u64 \<Rightarrow> tool_clock \<Rightarrow> u64 \<times> tool_clock" where
  "tc_advance ts c =
     (let clamped = (case tc_clock c of None \<Rightarrow> ts | Some k \<Rightarrow> max ts k)
      in (clamped, c\<lparr>tc_clock := Some clamped\<rparr>))"

definition tc_begin_turn :: "u64 \<Rightarrow> tool_clock \<Rightarrow> tool_clock" where
  "tc_begin_turn ts c =
     (let c1 = snd (tc_advance ts c)
      in c1\<lparr>tc_turn_start := Some ts, tc_tool_ms := 0,
            tc_union_start := map_option (\<lambda>start. max start ts) (tc_union_start c1)\<rparr>)"

definition tc_observe :: "u64 option \<Rightarrow> tool_clock \<Rightarrow> tool_clock" where
  "tc_observe ts c = (case ts of None \<Rightarrow> c | Some t \<Rightarrow> snd (tc_advance t c))"

text \<open>\<open>close\<close>: charge the open interval up to \<open>ts\<close>, intersected with the turn start.\<close>

definition tc_close :: "u64 \<Rightarrow> tool_clock \<Rightarrow> tool_clock" where
  "tc_close ts c =
     (case tc_union_start c of
        None \<Rightarrow> c
      | Some start \<Rightarrow>
          (let start' = (case tc_turn_start c of None \<Rightarrow> start | Some bound \<Rightarrow> max start bound)
           in c\<lparr>tc_union_start := None, tc_tool_ms := sat_add (tc_tool_ms c) (sat_sub ts start')\<rparr>))"

definition tc_mark :: "u64 option \<Rightarrow> string \<Rightarrow> bool \<Rightarrow> tool_clock \<Rightarrow> tool_clock" where
  "tc_mark ts item_id active c =
     (case ts of
        None \<Rightarrow> c\<lparr>tc_untimed := True\<rparr>
      | Some t \<Rightarrow>
          (let (t', c1) = tc_advance t c
           in if active then
                (let c2 = c1\<lparr>tc_open := insert item_id (tc_open c1)\<rparr>
                 in if item_id \<notin> tc_open c1 \<and> card (tc_open c2) = 1
                    then c2\<lparr>tc_union_start := Some t'\<rparr> else c2)
              else
                (let c2 = c1\<lparr>tc_open := tc_open c1 - {item_id}\<rparr>
                 in if item_id \<in> tc_open c1 \<and> tc_open c2 = {} then tc_close t' c2 else c2)))"

definition tc_finish :: "u64 \<Rightarrow> tool_clock \<Rightarrow> u64" where
  "tc_finish end_ts c = tc_tool_ms (tc_close end_ts c)"

definition finish_timing :: "tool_clock \<Rightarrow> u64 option \<Rightarrow> turn_timing option" where
  "finish_timing c end_opt =
     (case tc_turn_start c of None \<Rightarrow> None | Some start \<Rightarrow>
      (case end_opt of None \<Rightarrow> None | Some end_ts \<Rightarrow>
        if tc_untimed c \<or> end_ts < start
           \<or> (case tc_clock c of None \<Rightarrow> False | Some latest \<Rightarrow> end_ts < latest)
        then None
        else Some (turn_timing_new (end_ts - start) (tc_finish end_ts c))))"

subsection \<open>Classifying items\<close>

datatype tool_lifecycle = LifecycleStarted | LifecycleUpdated | LifecycleCompleted

datatype tool_state = ToolActive | ToolFinished | ToolUnknown

definition status_tool_state :: "item_status \<Rightarrow> tool_state" where
  "status_tool_state s = (case s of
      InProgress \<Rightarrow> ToolActive
    | Completed \<Rightarrow> ToolFinished | Failed \<Rightarrow> ToolFinished
    | Interrupted \<Rightarrow> ToolFinished | Declined \<Rightarrow> ToolFinished)"

fun tool_item_state :: "'j item_content \<Rightarrow> tool_state option" where
  "tool_item_state (CommandExecution _ _ _ status) = Some (status_tool_state status)"
| "tool_item_state (FileChange _ status) = Some (status_tool_state status)"
| "tool_item_state (ToolCall _ _ _ _ status) = Some (status_tool_state status)"
| "tool_item_state (Subagent _ _ status _ _ _) = Some (status_tool_state status)"
| "tool_item_state (ImageRead _ _) = Some ToolUnknown"
| "tool_item_state (WebSearch _) = Some ToolUnknown"
| "tool_item_state (OtherItem _ _) = Some ToolUnknown"
| "tool_item_state (UserMessage _ _ _) = None"
| "tool_item_state (AssistantMessage _ _) = None"
| "tool_item_state (Reasoning _) = None"

fun tool_is_active :: "tool_lifecycle \<Rightarrow> tool_state \<Rightarrow> bool" where
  "tool_is_active LifecycleStarted _ = True"
| "tool_is_active LifecycleCompleted _ = False"
| "tool_is_active LifecycleUpdated state = (state \<noteq> ToolFinished)"

subsection \<open>The reference: active milliseconds as a set\<close>

text \<open>
  What happens to the clock while a turn is open: its start is reported, perhaps after work was seen,
  timestamps are observed, tools begin and end. The reference keeps the latest time, the open items,
  since when some item has been open, the start of the turn, and the set of milliseconds of the turn
  in which some item was open. Time only moves forward. A start forgets what was counted before it,
  except for the part from the start on of an interval that is still open.
\<close>

datatype clock_op = BeginOp "u64 option" | ObserveOp "u64 option" | MarkOp "u64 option" string bool

fun run_clock :: "tool_clock \<Rightarrow> clock_op list \<Rightarrow> tool_clock" where
  "run_clock c [] = c"
| "run_clock c (BeginOp ts # ops) = run_clock (case ts of Some t \<Rightarrow> tc_begin_turn t c | None \<Rightarrow> c) ops"
| "run_clock c (ObserveOp ts # ops) = run_clock (tc_observe ts c) ops"
| "run_clock c (MarkOp ts item active # ops) = run_clock (tc_mark ts item active c) ops"

record turn_ref =
  rf_now :: nat
  rf_open :: "string set"
  rf_since :: nat
  rf_start :: "u64 option"
  rf_active :: "nat set"

definition ref_new :: turn_ref where
  "ref_new = \<lparr>rf_now = 0, rf_open = {}, rf_since = 0, rf_start = None, rf_active = {}\<rparr>"

definition elapse :: "u64 \<Rightarrow> turn_ref \<Rightarrow> turn_ref" where
  "elapse t r = r\<lparr>rf_now := max (rf_now r) (unat t),
     rf_active := rf_active r \<union> (if rf_open r = {} then {} else {rf_now r ..< max (rf_now r) (unat t)})\<rparr>"

definition ref_start :: "u64 \<Rightarrow> turn_ref \<Rightarrow> turn_ref" where
  "ref_start t r = (let since = max (rf_since r) (unat t) in
     r\<lparr>rf_start := Some t, rf_since := since, rf_active := (if rf_open r = {} then {} else {since ..< rf_now r})\<rparr>)"

definition ref_mark :: "string \<Rightarrow> bool \<Rightarrow> turn_ref \<Rightarrow> turn_ref" where
  "ref_mark item active r = r\<lparr>rf_open := (if active then insert item (rf_open r) else rf_open r - {item}),
     rf_since := (if active \<and> rf_open r = {} then rf_now r else rf_since r)\<rparr>"

fun ref_step :: "turn_ref \<Rightarrow> clock_op \<Rightarrow> turn_ref" where
  "ref_step r (BeginOp (Some t)) = ref_start t (elapse t r)"
| "ref_step r (ObserveOp (Some t)) = elapse t r"
| "ref_step r (MarkOp (Some t) item active) = ref_mark item active (elapse t r)"
| "ref_step r _ = r"

definition ref_run :: "clock_op list \<Rightarrow> turn_ref" where
  "ref_run ops = foldl ref_step ref_new ops"

definition untimed_op :: "clock_op \<Rightarrow> bool" where
  "untimed_op op = (case op of MarkOp None _ _ \<Rightarrow> True | _ \<Rightarrow> False)"

subsection \<open>The clock computes the size of the reference set\<close>

text \<open>
  The relation: the charged time is the closed part \<open>act0\<close> of the active set, which lies before
  the start of the interval that is still open.
\<close>

definition bound_of :: "u64 option \<Rightarrow> nat" where
  "bound_of start = (case start of None \<Rightarrow> 0 | Some s \<Rightarrow> unat s)"

definition charges :: "tool_clock \<Rightarrow> turn_ref \<Rightarrow> bool" where
  "charges c r \<longleftrightarrow> (if rf_open r = {}
     then tc_union_start c = None \<and> unat (tc_tool_ms c) = card (rf_active r) \<and> rf_active r \<subseteq> {bound_of (rf_start r) ..< rf_now r}
     else (\<exists>u act0. tc_union_start c = Some u \<and> rf_since r = unat u \<and> bound_of (rf_start r) \<le> unat u \<and> unat u \<le> rf_now r
       \<and> act0 \<subseteq> {bound_of (rf_start r) ..< unat u} \<and> rf_active r = act0 \<union> {unat u ..< rf_now r}
       \<and> unat (tc_tool_ms c) = card act0))"

definition clock_rel :: "tool_clock \<Rightarrow> turn_ref \<Rightarrow> bool" where
  "clock_rel c r \<longleftrightarrow> rf_now r = (case tc_clock c of None \<Rightarrow> 0 | Some k \<Rightarrow> unat k)
     \<and> (tc_turn_start c \<noteq> None \<longrightarrow> tc_clock c \<noteq> None)
     \<and> tc_open c = rf_open r \<and> finite (rf_open r) \<and> tc_turn_start c = rf_start r \<and> bound_of (rf_start r) \<le> rf_now r \<and> charges c r"

lemma clock_rel_new: "clock_rel tool_clock_default ref_new"
  by (simp add: clock_rel_def charges_def ref_new_def tool_clock_default_def bound_of_def)

lemma unat_max: "unat (max (a::'a::len word) b) = max (unat a) (unat b)"
  by (simp add: max_def word_le_nat_alt)

lemma tc_advance_frame [simp]:
  "tc_open (snd (tc_advance t c)) = tc_open c"
  "tc_union_start (snd (tc_advance t c)) = tc_union_start c"
  "tc_tool_ms (snd (tc_advance t c)) = tc_tool_ms c"
  "tc_turn_start (snd (tc_advance t c)) = tc_turn_start c"
  "tc_untimed (snd (tc_advance t c)) = tc_untimed c"
  "tc_clock (snd (tc_advance t c)) = Some (fst (tc_advance t c))"
  by (simp_all add: tc_advance_def Let_def)

lemma elapse_frame [simp]:
  "rf_open (elapse t r) = rf_open r" "rf_since (elapse t r) = rf_since r" "rf_start (elapse t r) = rf_start r"
  "rf_now (elapse t r) = max (rf_now r) (unat t)"
  by (simp_all add: elapse_def)

lemma advance_now:
  assumes "clock_rel c r"
  shows "unat (fst (tc_advance t c)) = max (rf_now r) (unat t)"
  using assms by (auto simp: clock_rel_def tc_advance_def Let_def unat_max max.commute split: option.splits)

lemma charges_elapse:
  assumes "charges c r"
  shows "charges (snd (tc_advance t c)) (elapse t r)"
proof (cases "rf_open r = {}")
  case True
  then show ?thesis using assms by (fastforce simp: charges_def elapse_def)
next
  case False
  with assms obtain u act0 where u: "tc_union_start c = Some u" "rf_since r = unat u" "bound_of (rf_start r) \<le> unat u"
    "unat u \<le> rf_now r" "act0 \<subseteq> {bound_of (rf_start r) ..< unat u}" "rf_active r = act0 \<union> {unat u ..< rf_now r}"
    "unat (tc_tool_ms c) = card act0"
    by (auto simp: charges_def)
  have "rf_active r \<union> {rf_now r ..< max (rf_now r) (unat t)} = act0 \<union> {unat u ..< max (rf_now r) (unat t)}"
    using u(4,6) by auto
  with False u show ?thesis by (auto simp: charges_def elapse_def)
qed

lemma clock_rel_advance:
  assumes "clock_rel c r"
  shows "clock_rel (snd (tc_advance t c)) (elapse t r)"
  using assms charges_elapse [of c r t] advance_now [OF assms, of t] by (auto simp: clock_rel_def le_max_iff_disj)

lemma clock_rel_observe: "clock_rel c r \<Longrightarrow> clock_rel (tc_observe ts c) (ref_step r (ObserveOp ts))"
  by (cases ts) (simp_all add: tc_observe_def clock_rel_advance)

lemma clock_rel_begin:
  assumes "clock_rel c r"
  shows "clock_rel (tc_begin_turn t c) (ref_start t (elapse t r))"
proof -
  have rel: "clock_rel (snd (tc_advance t c)) (elapse t r)" by (rule clock_rel_advance [OF assms])
  have now: "unat t \<le> unat (fst (tc_advance t c))" by (simp add: advance_now [OF assms])
  show ?thesis
  proof (cases "rf_open r = {}")
    case True
    with rel now show ?thesis by (simp add: clock_rel_def charges_def tc_begin_turn_def ref_start_def bound_of_def)
  next
    case False
    with rel obtain u where "tc_union_start c = Some u" "rf_since r = unat u" "unat u \<le> max (rf_now r) (unat t)"
      by (auto simp: clock_rel_def charges_def)
    with False rel now show ?thesis
      by (auto simp: clock_rel_def charges_def tc_begin_turn_def ref_start_def bound_of_def unat_max Let_def intro!: exI [of _ "{}"])
  qed
qed

lemma card_closed:
  assumes "act0 \<subseteq> {s ..< u}" "u \<le> (now::nat)"
  shows "card (act0 \<union> {u ..< now}) = card act0 + (now - u)"
proof -
  have "finite act0" using assms(1) by (rule finite_subset) simp
  moreover have "act0 \<inter> {u ..< now} = {}" using assms(1) by auto
  ultimately show ?thesis by (simp add: card_Un_disjoint)
qed

text \<open>Closing the open interval charges it in full.\<close>

lemma close_charges:
  assumes "clock_rel c r" "rf_open r \<noteq> {}" "rf_now r \<le> unat t"
  shows "unat (tc_tool_ms (tc_close t c)) = card (rf_active (elapse t r))" "tc_union_start (tc_close t c) = None"
    "rf_active (elapse t r) \<subseteq> {bound_of (rf_start r) ..< unat t}"
proof -
  have "charges c r" and start: "tc_turn_start c = rf_start r" using assms(1) by (simp_all add: clock_rel_def)
  then obtain u act0 where u: "tc_union_start c = Some u" "bound_of (rf_start r) \<le> unat u" "unat u \<le> rf_now r"
    "act0 \<subseteq> {bound_of (rf_start r) ..< unat u}" "rf_active r = act0 \<union> {unat u ..< rf_now r}"
    "unat (tc_tool_ms c) = card act0"
    using assms(2) by (auto simp: charges_def)
  have active: "rf_active (elapse t r) = act0 \<union> {unat u ..< unat t}"
    using u(3,5) assms(2,3) by (auto simp: elapse_def)
  have from_u: "(case rf_start r of None \<Rightarrow> u | Some bound \<Rightarrow> max u bound) = u"
    using u(2) by (auto simp: bound_of_def word_le_nat_alt [symmetric] max.absorb1 split: option.splits)
  have "card act0 \<le> unat u" using card_mono [OF _ u(4)] by simp
  moreover have "unat t < 2 ^ 64" using unsigned_less [of t] by simp
  ultimately have "card act0 + (unat t - unat u) \<le> 2 ^ 64 - 1" using u(3) assms(3) by linarith
  then show "unat (tc_tool_ms (tc_close t c)) = card (rf_active (elapse t r))"
    using u(1,6) start from_u card_closed [OF u(4), of "unat t"] u(3) assms(3)
    by (simp add: tc_close_def active unat_sat_add unat_sat_sub)
  show "tc_union_start (tc_close t c) = None" using u(1) by (simp add: tc_close_def)
  show "rf_active (elapse t r) \<subseteq> {bound_of (rf_start r) ..< unat t}" using active u(2,4) u(3) assms(3) by auto
qed

lemma tc_close_frame [simp]:
  "tc_open (tc_close t c) = tc_open c" "tc_clock (tc_close t c) = tc_clock c" "tc_turn_start (tc_close t c) = tc_turn_start c"
  by (simp_all add: tc_close_def split: option.split)

lemma charges_open:
  assumes "rf_open r = {} \<longleftrightarrow> items = {}"
  shows "charges (c\<lparr>tc_open := items\<rparr>) (r\<lparr>rf_open := items\<rparr>) = charges c r"
  using assms by (simp add: charges_def)

lemma clock_rel_mark:
  assumes "clock_rel c r"
  shows "clock_rel (tc_mark (Some t) item active c) (ref_mark item active (elapse t r))"
proof -
  obtain k c1 where adv: "tc_advance t c = (k, c1)" by fastforce
  define r1 where "r1 = elapse t r"
  from clock_rel_advance [OF assms, of t] adv have rel: "clock_rel c1 r1" by (simp add: r1_def)
  have clock: "tc_clock c1 = Some k" using tc_advance_frame(6) [of t c] adv by simp
  then have now: "rf_now r1 = unat k" using rel by (simp add: clock_rel_def)
  have opn: "tc_open c1 = rf_open r1" "finite (rf_open r1)" and ch: "charges c1 r1" using rel by (simp_all add: clock_rel_def)
  have kept: ?thesis if "tc_mark (Some t) item active c = c1\<lparr>tc_open := items\<rparr>" "ref_mark item active r1 = r1\<lparr>rf_open := items\<rparr>"
    "rf_open r1 = {} \<longleftrightarrow> items = {}" "finite items" for items
    using rel that ch charges_open [OF that(3)] by (simp add: clock_rel_def r1_def)
  consider (first) active "rf_open r1 = {}" | (more) active "rf_open r1 \<noteq> {}"
    | (last) "\<not> active" "item \<in> rf_open r1" "rf_open r1 - {item} = {}" | (fewer) "\<not> active" "\<not> (item \<in> rf_open r1 \<and> rf_open r1 - {item} = {})"
    by blast
  then show ?thesis
  proof cases
    case first
    have "rf_active r1 \<subseteq> {bound_of (rf_start r1) ..< unat k}" "unat (tc_tool_ms c1) = card (rf_active r1)"
      "bound_of (rf_start r1) \<le> unat k"
      using ch first(2) rel now by (simp_all add: charges_def clock_rel_def)
    then have "charges (c1\<lparr>tc_open := {item}, tc_union_start := Some k\<rparr>) (r1\<lparr>rf_open := {item}, rf_since := unat k\<rparr>)"
      using now by (auto simp: charges_def intro!: exI [of _ "rf_active r1"])
    then show ?thesis using first rel now opn(1) unfolding r1_def [symmetric]
      by (simp add: tc_mark_def adv ref_mark_def clock_rel_def Let_def)
  next
    case more
    then have "item \<in> rf_open r1 \<or> card (insert item (rf_open r1)) \<noteq> 1" using opn(2) by auto
    then have "tc_mark (Some t) item active c = c1\<lparr>tc_open := insert item (rf_open r1)\<rparr>"
      using more(1) opn(1) by (auto simp: tc_mark_def adv Let_def)
    then show ?thesis using more opn
      by (intro kept [of "insert item (rf_open r1)"]) (simp_all add: ref_mark_def)
  next
    case last
    then have single: "rf_open r1 = {item}" by auto
    then have "rf_open r1 \<noteq> {}" by simp
    from close_charges [OF rel this, of k] have closed: "unat (tc_tool_ms (tc_close k c1)) = card (rf_active r1)"
      "tc_union_start (tc_close k c1) = None" "rf_active r1 \<subseteq> {bound_of (rf_start r1) ..< unat k}"
      using now by (simp_all add: elapse_def)
    have "tc_close k (c1\<lparr>tc_open := {}\<rparr>) = (tc_close k c1)\<lparr>tc_open := {}\<rparr>" by (simp add: tc_close_def split: option.split)
    then have "tc_mark (Some t) item active c = (tc_close k c1)\<lparr>tc_open := {}\<rparr>"
      using last(1,2) opn(1) single by (simp add: tc_mark_def adv Let_def)
    moreover have "ref_mark item active r1 = r1\<lparr>rf_open := {}\<rparr>" using last by (simp add: ref_mark_def)
    ultimately show ?thesis using rel closed now unfolding r1_def [symmetric] by (simp add: clock_rel_def charges_def)
  next
    case fewer
    then have "rf_open r1 = {} \<longleftrightarrow> rf_open r1 - {item} = {}" by auto
    then show ?thesis using fewer opn
      by (intro kept [of "rf_open r1 - {item}"]) (auto simp: tc_mark_def adv ref_mark_def Let_def)
  qed
qed

lemma clock_rel_step: "clock_rel c r \<Longrightarrow> clock_rel (run_clock c [op]) (ref_step r op)"
proof (cases op)
  case (BeginOp ts)
  assume "clock_rel c r"
  then show ?thesis using BeginOp clock_rel_begin by (cases ts) simp_all
next
  case (ObserveOp ts)
  assume "clock_rel c r"
  then show ?thesis using ObserveOp clock_rel_observe by simp
next
  case (MarkOp ts item active)
  assume rel: "clock_rel c r"
  have "charges (c\<lparr>tc_untimed := True\<rparr>) r = charges c r" by (simp add: charges_def)
  then have "clock_rel (c\<lparr>tc_untimed := True\<rparr>) r" using rel by (simp add: clock_rel_def)
  then show ?thesis using rel MarkOp clock_rel_mark by (cases ts) (simp_all add: tc_mark_def)
qed

lemma run_clock_Cons: "run_clock c (op # ops) = run_clock (run_clock c [op]) ops"
  by (cases op) simp_all

lemma run_clock_rel: "clock_rel c r \<Longrightarrow> clock_rel (run_clock c ops) (foldl ref_step r ops)"
proof (induction ops arbitrary: c r)
  case (Cons op ops)
  show ?case unfolding run_clock_Cons [of c op ops] using Cons.IH [OF clock_rel_step [OF Cons.prems]] by simp
qed simp

text \<open>A lifecycle event without a timestamp spoils the turn, and nothing undoes that.\<close>

lemma untimed_frame [simp]:
  "tc_untimed (tc_observe ts c) = tc_untimed c" "tc_untimed (tc_close t c) = tc_untimed c"
  "tc_untimed (tc_begin_turn t c) = tc_untimed c" "tc_untimed (tc_mark (Some t) item active c) = tc_untimed c"
  "tc_untimed (tc_mark None item active c)"
  by (auto simp: tc_observe_def tc_close_def tc_begin_turn_def tc_mark_def Let_def split: option.splits prod.splits)
    (metis snd_conv tc_advance_frame(5))+

lemma run_clock_untimed: "tc_untimed (run_clock c ops) \<longleftrightarrow> tc_untimed c \<or> list_ex untimed_op ops"
proof (induction ops arbitrary: c)
  case (Cons op ops)
  have "tc_untimed (run_clock c [op]) \<longleftrightarrow> tc_untimed c \<or> untimed_op op"
    by (cases op) (auto simp: untimed_op_def split: option.split)
  then show ?case unfolding run_clock_Cons [of c op ops] using Cons.IH by simp
qed simp

subsection \<open>The breakdown of a finished turn\<close>

lemma charges_finish:
  assumes "clock_rel c r" "rf_now r \<le> unat t"
  shows "unat (tc_finish t c) = card (rf_active (elapse t r))"
    "rf_active (elapse t r) \<subseteq> {bound_of (rf_start r) ..< unat t}"
proof -
  have ch: "charges c r" using assms(1) by (simp add: clock_rel_def)
  have "unat (tc_finish t c) = card (rf_active (elapse t r)) \<and> rf_active (elapse t r) \<subseteq> {bound_of (rf_start r) ..< unat t}"
  proof (cases "rf_open r = {}")
    case True
    with ch have "tc_union_start c = None" "unat (tc_tool_ms c) = card (rf_active r)"
      "rf_active r \<subseteq> {bound_of (rf_start r) ..< rf_now r}"
      by (simp_all add: charges_def)
    then show ?thesis using True assms(2) by (auto simp: tc_finish_def tc_close_def elapse_def)
  next
    case False
    then show ?thesis using close_charges [OF assms(1) False assms(2)] by (simp add: tc_finish_def)
  qed
  then show "unat (tc_finish t c) = card (rf_active (elapse t r))"
    "rf_active (elapse t r) \<subseteq> {bound_of (rf_start r) ..< unat t}" by simp_all
qed

lemma charged_within_turn:
  assumes "clock_rel c r" "rf_start r = Some s" "rf_now r \<le> unat t"
  shows "tc_finish t c \<le> t - s"
proof -
  have "unat s \<le> rf_now r" using assms(1,2) by (simp add: clock_rel_def bound_of_def)
  then have "unat s \<le> unat t" using assms(3) by simp
  then have diff: "unat (t - s) = unat t - unat s" by (simp add: unat_sub word_le_nat_alt)
  have "card (rf_active (elapse t r)) \<le> unat t - unat s"
    using card_mono [OF _ charges_finish(2) [OF assms(1,3)]] assms(2) by (simp add: bound_of_def)
  then show ?thesis using charges_finish(1) [OF assms(1,3)] diff by (simp add: word_le_nat_alt)
qed


end
