(* ===== verification/Turn_Boundaries.thy ===== *)
theory Turn_Boundaries
  imports Agent_Events
begin

section \<open>Turn boundaries\<close>

text \<open>
  \<open>TurnBoundaries\<close> of \<^verbatim>\<open>crates/core/src/session/boundaries.rs\<close>: the part of a timeline that
  assigns records to turns. The rendered fold and the append transaction of the store both
  advance it, so its policy is stated once here, together with its well-formedness and with an
  interface (the locale \<open>turn_policy\<close>) that says what a client may rely on.
\<close>

subsection \<open>State\<close>

record boundary =
  bd_provider :: "string option"
  bd_checkpoint :: "string option"
  bd_closed :: bool
  bd_running :: bool

definition boundary_default :: boundary where
  "boundary_default = \<lparr>bd_provider = None, bd_checkpoint = None, bd_closed = False,
     bd_running = False\<rparr>"

record user =
  us_turn :: nat
  us_pending :: bool

record turn_boundaries =
  tb_turns :: "boundary list"
  tb_users :: "string \<rightharpoonup> user"
  tb_compacting :: bool

definition turn_boundaries_default :: turn_boundaries where
  "turn_boundaries_default = \<lparr>tb_turns = [], tb_users = Map.empty, tb_compacting = False\<rparr>"

record turn_boundary_change =
  bc_opened :: bool
  bc_changed :: bool
  bc_target :: "nat option"
  bc_rewind :: "nat option"

subsection \<open>Queries\<close>

definition tb_len :: "turn_boundaries \<Rightarrow> nat" where
  "tb_len b = length (tb_turns b)"

definition tb_is_empty :: "turn_boundaries \<Rightarrow> bool" where
  "tb_is_empty b \<longleftrightarrow> tb_turns b = []"

definition tb_current :: "turn_boundaries \<Rightarrow> nat option" where
  "tb_current b = last_index (tb_turns b)"

definition tb_is_open :: "turn_boundaries \<Rightarrow> bool" where
  "tb_is_open b \<longleftrightarrow> tb_turns b \<noteq> [] \<and> \<not> bd_closed (last (tb_turns b))"

text \<open>The turn a provider-addressed record lands on.\<close>

definition tb_provider_turn :: "turn_boundaries \<Rightarrow> string \<Rightarrow> nat option" where
  "tb_provider_turn b tid =
     (case position (\<lambda>t. bd_provider t = Some tid) (tb_turns b) of
        Some i \<Rightarrow> Some i
      | None \<Rightarrow> tb_current b)"

definition tb_settle_running :: "nat option \<Rightarrow> turn_boundaries \<Rightarrow> turn_boundaries" where
  "tb_settle_running running b =
     b\<lparr>tb_turns := map (\<lambda>(i, t). t\<lparr>bd_running := (running = Some i)\<rparr>) (enumerate 0 (tb_turns b))\<rparr>"

subsection \<open>Which events open a turn\<close>

definition item_opens_turn :: "turn_boundaries \<Rightarrow> 'j thread_item \<Rightarrow> bool" where
  "item_opens_turn b item \<longleftrightarrow>
     ti_parent_item_id item = None
     \<and> (if is_user_message (ti_content item)
        then tb_users b (ti_id item) = None \<and> \<not> tb_is_open b
        else tb_is_empty b)"

fun opens_turn :: "turn_boundaries \<Rightarrow> 'j agent_event \<Rightarrow> bool" where
  "opens_turn b (TurnStarted _) = (\<not> tb_is_open b)"
| "opens_turn b (ProviderRelay _ _ _ _ _ _) = (\<not> tb_is_open b)"
| "opens_turn b (ItemStarted item) = item_opens_turn b item"
| "opens_turn b (ItemUpdated item) = item_opens_turn b item"
| "opens_turn b (ItemCompleted item) = item_opens_turn b item"
| "opens_turn b (SteerRequested _ _ _) = tb_is_empty b"
| "opens_turn b (ServedModel _ _) = tb_is_empty b"
| "opens_turn b (TurnChangesUpdated _ _ _) = tb_is_empty b"
| "opens_turn b (TurnCheckpoint _ _) = tb_is_empty b"
| "opens_turn b (ProviderStartFailed _) = tb_is_empty b"
| "opens_turn b (Error _ _) = tb_is_empty b"
| "opens_turn b (SessionClosed (Some _)) = tb_is_empty b"
| "opens_turn b (Delta _ _ _) = tb_is_empty b"
| "opens_turn b (ProposedPlanDelta _ _) = tb_is_empty b"
| "opens_turn b (ProposedPlan _ _) = tb_is_empty b"
| "opens_turn b (ContextWindowChanged _) = tb_is_empty b"
| "opens_turn b (ControlAction _) = tb_is_empty b"
| "opens_turn b (ContextCompacted c) =
     (\<not> (cp_in_progress c \<and> tb_compacting b) \<and> tb_is_empty b)"
| "opens_turn b _ = False"

subsection \<open>The transition\<close>

fun moves_boundary :: "'j agent_event \<Rightarrow> bool" where
  "moves_boundary (TurnStarted _) = True"
| "moves_boundary (TurnCompleted _ _ _) = True"
| "moves_boundary (SessionClosed _) = True"
| "moves_boundary (TurnChangesUpdated _ _ _) = True"
| "moves_boundary (TurnCheckpoint _ _) = True"
| "moves_boundary (RewindCompleted _ _ _) = True"
| "moves_boundary (SteerRequested _ _ _) = True"
| "moves_boundary (SteerAccepted _) = True"
| "moves_boundary (SteerRejected _) = True"
| "moves_boundary (TokenUsage _) = True"
| "moves_boundary (ContextCompacted _) = True"
| "moves_boundary _ = False"

text \<open>An item event of the thread itself; a child item of a subagent changes nothing.\<close>

definition tb_item :: "'j thread_item \<Rightarrow> turn_boundaries \<times> turn_boundary_change \<Rightarrow>
    turn_boundaries \<times> turn_boundary_change" where
  "tb_item item bc = (case bc of (b, change) \<Rightarrow>
     if ti_parent_item_id item \<noteq> None then (b, change)
     else if is_user_message (ti_content item) then
       ((case tb_current b of
           None \<Rightarrow> b
         | Some turn \<Rightarrow>
             if tb_users b (ti_id item) = None
             then b\<lparr>tb_users := (tb_users b)(ti_id item \<mapsto> \<lparr>us_turn = turn, us_pending = False\<rparr>)\<rparr>
             else b),
        change\<lparr>bc_changed := True\<rparr>)
     else (case tb_users b (ti_id item) of
         None \<Rightarrow> (b, change)
       | Some user \<Rightarrow> (b\<lparr>tb_users := (tb_users b)(ti_id item \<mapsto> user\<lparr>us_pending := False\<rparr>)\<rparr>,
                       change\<lparr>bc_changed := True\<rparr>)))"

text \<open>A provider-addressed record: the snapshot or the checkpoint of one turn.\<close>

definition tb_addressed :: "string \<Rightarrow> string option \<Rightarrow> turn_boundaries \<times> turn_boundary_change \<Rightarrow>
    (turn_boundaries \<times> turn_boundary_change) option" where
  "tb_addressed tid checkpoint bc = (case bc of (b, change) \<Rightarrow>
     let target = tb_provider_turn b tid; change' = change\<lparr>bc_target := target\<rparr>
     in (case target of
           None \<Rightarrow> Some (b, change')
         | Some i \<Rightarrow> do {
             turns \<leftarrow> index_mut (tb_turns b) i (\<lambda>t.
               let t1 = (if tid \<noteq> [] \<or> checkpoint \<noteq> None then t\<lparr>bd_provider := Some tid\<rparr> else t)
               in (if checkpoint = None then t1 else t1\<lparr>bd_checkpoint := checkpoint\<rparr>));
             Some (b\<lparr>tb_turns := turns\<rparr>, change') }))"

fun tb_event :: "'j agent_event \<Rightarrow> turn_boundaries \<times> turn_boundary_change \<Rightarrow>
    (turn_boundaries \<times> turn_boundary_change) option" where
  "tb_event (TurnStarted tid) (b, change) =
     Some (b\<lparr>tb_turns := update_last (\<lambda>t. t\<lparr>bd_provider := Some tid, bd_running := True\<rparr>) (tb_turns b)\<rparr>,
           change)"
| "tb_event (TurnChangesUpdated tid _ _) (b, change) = tb_addressed tid None (b, change)"
| "tb_event (TurnCheckpoint tid checkpoint) (b, change) = tb_addressed tid (Some checkpoint) (b, change)"
| "tb_event (TurnCompleted _ _ usage) (b, change) =
     Some (b\<lparr>tb_compacting := (case usage of None \<Rightarrow> tb_compacting b
                                | Some u \<Rightarrow> tu_freshness u = Compacting),
             tb_turns := update_last (\<lambda>t. t\<lparr>bd_closed := True, bd_running := False\<rparr>) (tb_turns b)\<rparr>,
           change)"
| "tb_event (SessionClosed _) (b, change) =
     Some (b\<lparr>tb_turns := update_last (\<lambda>t. t\<lparr>bd_running := False\<rparr>) (tb_turns b)\<rparr>, change)"
| "tb_event (RewindCompleted checkpoint mode _) (b, change) =
     Some (case (if includes_conversation mode
                 then position (\<lambda>t. bd_checkpoint t = Some checkpoint) (tb_turns b) else None) of
             None \<Rightarrow> (b, change)
           | Some target \<Rightarrow>
               (let b' = b\<lparr>tb_turns := take target (tb_turns b),
                           tb_users := retain_map (\<lambda>_ u. us_turn u < target) (tb_users b),
                           tb_compacting := False\<rparr>
                in (b', change\<lparr>bc_rewind := Some target, bc_target := tb_current b'\<rparr>)))"
| "tb_event (ItemStarted item) (b, change) = Some (tb_item item (b, change))"
| "tb_event (ItemUpdated item) (b, change) = Some (tb_item item (b, change))"
| "tb_event (ItemCompleted item) (b, change) = Some (tb_item item (b, change))"
| "tb_event (SteerRequested rid _ _) (b, change) =
     Some (case tb_current b of
             None \<Rightarrow> (b, change)
           | Some turn \<Rightarrow>
               (if tb_users b rid = None
                then b\<lparr>tb_users := (tb_users b)(rid \<mapsto> \<lparr>us_turn = turn, us_pending = True\<rparr>)\<rparr>
                else b, change))"
| "tb_event (SteerAccepted rid) (b, change) =
     (let running = rposition bd_running (tb_turns b)
      in Some (case tb_users b rid of
           Some user \<Rightarrow>
             if us_pending user then
               (let user' = \<lparr>us_turn = (case running of Some turn \<Rightarrow> turn | None \<Rightarrow> us_turn user),
                             us_pending = False\<rparr>
                in (b\<lparr>tb_users := (tb_users b)(rid \<mapsto> user')\<rparr>,
                    change\<lparr>bc_target := Some (us_turn user')\<rparr>))
             else (b, change\<lparr>bc_target := None\<rparr>)
         | None \<Rightarrow> (b, change\<lparr>bc_target := None\<rparr>)))"
| "tb_event (SteerRejected rid) (b, change) =
     Some (case tb_users b rid of
             Some user \<Rightarrow> if us_pending user
                then (b\<lparr>tb_users := (tb_users b)(rid := None)\<rparr>, change) else (b, change)
           | None \<Rightarrow> (b, change))"
| "tb_event (ProposedPlan item_id _) (b, change) =
     Some (case tb_users b item_id of
             None \<Rightarrow> (b, change)
           | Some user \<Rightarrow> (b\<lparr>tb_users := (tb_users b)(item_id \<mapsto> user\<lparr>us_pending := False\<rparr>)\<rparr>,
                           change\<lparr>bc_changed := True\<rparr>))"
| "tb_event (TokenUsage u) (b, change) =
     Some (b\<lparr>tb_compacting := (tu_freshness u = Compacting)\<rparr>, change)"
| "tb_event (ContextCompacted c) (b, change) =
     Some (b\<lparr>tb_compacting := cp_in_progress c\<rparr>, change)"
| "tb_event _ (b, change) = Some (b, change)"

definition tb_apply :: "'j agent_event \<Rightarrow> turn_boundaries \<Rightarrow>
    (turn_boundaries \<times> turn_boundary_change) option" where
  "tb_apply e b =
     (let opened = opens_turn b e;
          b1 = (if opened then b\<lparr>tb_turns := tb_turns b @ [boundary_default]\<rparr> else b);
          change = \<lparr>bc_opened = opened, bc_changed = (opened \<or> moves_boundary e),
                    bc_target = tb_current b1, bc_rewind = None\<rparr>
      in tb_event e (b1, change))"


subsection \<open>Well-formedness\<close>

text \<open>Every recorded user message or steer belongs to a turn that exists.\<close>

definition tb_ok :: "turn_boundaries \<Rightarrow> bool" where
  "tb_ok b \<longleftrightarrow> (\<forall>rid u. tb_users b rid = Some u \<longrightarrow> us_turn u < length (tb_turns b))"

lemma tb_ok_default [simp]: "tb_ok turn_boundaries_default"
  by (simp add: tb_ok_def turn_boundaries_default_def)

lemma tb_okD: "tb_ok b \<Longrightarrow> tb_users b rid = Some u \<Longrightarrow> us_turn u < length (tb_turns b)"
  by (simp add: tb_ok_def)

lemma tb_provider_turn_less: "tb_provider_turn b tid = Some i \<Longrightarrow> i < length (tb_turns b)"
  by (auto simp: tb_provider_turn_def tb_current_def split: option.splits
      dest: position_less last_index_less)

lemma tb_provider_turn_None [simp]: "tb_provider_turn b tid = None \<longleftrightarrow> tb_turns b = []"
  by (auto simp: tb_provider_turn_def tb_current_def split: option.splits)

lemma tb_current_less: "tb_current b = Some i \<Longrightarrow> i < length (tb_turns b)"
  by (simp add: tb_current_def last_index_less)

lemma length_settle_running [simp]:
  "length (tb_turns (tb_settle_running r b)) = length (tb_turns b)"
  "tb_users (tb_settle_running r b) = tb_users b"
  "tb_compacting (tb_settle_running r b) = tb_compacting b"
  by (simp_all add: tb_settle_running_def)

text \<open>
  What one transition does to the state it starts from (after a new turn was opened): the facts
  every client of the policy needs, in one place.
\<close>

definition tb_step_spec :: "turn_boundaries \<Rightarrow> turn_boundary_change \<Rightarrow> turn_boundaries \<Rightarrow>
    turn_boundary_change \<Rightarrow> bool" where
  "tb_step_spec b change b' change' \<longleftrightarrow>
     tb_ok b'
     \<and> bc_opened change' = bc_opened change
     \<and> (case bc_rewind change' of
          None \<Rightarrow> length (tb_turns b') = length (tb_turns b)
        | Some r \<Rightarrow> length (tb_turns b') = r \<and> r < length (tb_turns b))
     \<and> (\<forall>t. bc_target change' = Some t \<longrightarrow> t < length (tb_turns b'))"

lemma tb_addressed_spec:
  assumes "tb_ok b" and "bc_rewind change = None"
  shows "\<exists>b' change'. tb_addressed tid cp (b, change) = Some (b', change')
    \<and> tb_step_spec b change b' change'"
  using assms tb_provider_turn_less [of b tid]
  by (auto simp: tb_addressed_def tb_step_spec_def tb_ok_def Let_def split: option.split)

lemma tb_item_spec:
  assumes "tb_ok b" and "bc_target change = tb_current b" and "bc_rewind change = None"
    and "tb_item item (b, change) = (b', change')"
  shows "tb_step_spec b change b' change'"
  using assms
  by (auto simp: tb_item_def tb_step_spec_def tb_ok_def tb_current_less
      split: option.splits if_splits)

lemma tb_event_spec:
  assumes "tb_ok b" and "bc_target change = tb_current b" and "bc_rewind change = None"
  shows "\<exists>b' change'. tb_event e (b, change) = Some (b', change') \<and> tb_step_spec b change b' change'"
proof (cases e)
  case (SteerAccepted rid)
  then show ?thesis using assms
    by (auto simp: tb_step_spec_def tb_ok_def Let_def dest: rposition_less
        split: option.splits if_splits)
next
  case (RewindCompleted cp mode p)
  then show ?thesis using assms
    by (auto simp: tb_step_spec_def tb_ok_def Let_def
        dest: position_less tb_current_less split: option.splits if_splits)
next
  case (ItemStarted item)
  then show ?thesis using assms tb_item_spec by (cases "tb_item item (b, change)") auto
next
  case (ItemUpdated item)
  then show ?thesis using assms tb_item_spec by (cases "tb_item item (b, change)") auto
next
  case (ItemCompleted item)
  then show ?thesis using assms tb_item_spec by (cases "tb_item item (b, change)") auto
qed (use assms tb_addressed_spec [OF assms(1,3)] in
     \<open>auto simp: tb_step_spec_def tb_ok_def split: option.splits dest: tb_current_less\<close>)


lemma tb_apply_spec:
  assumes "tb_ok b"
  shows "\<exists>b' c. tb_apply e b = Some (b', c) \<and> tb_ok b'
    \<and> bc_opened c = opens_turn b e
    \<and> (\<forall>t. bc_target c = Some t \<longrightarrow> t < tb_len b')
    \<and> (case bc_rewind c of
         None \<Rightarrow> tb_len b' = tb_len b + (if bc_opened c then 1 else 0)
       | Some r \<Rightarrow> tb_len b' = r \<and> r < tb_len b \<and> \<not> bc_opened c)"
proof -
  define b1 where "b1 = (if opens_turn b e then b\<lparr>tb_turns := tb_turns b @ [boundary_default]\<rparr> else b)"
  define change where "change = \<lparr>bc_opened = opens_turn b e,
    bc_changed = (opens_turn b e \<or> moves_boundary e), bc_target = tb_current b1, bc_rewind = None\<rparr>"
  have ok1: "tb_ok b1" using assms by (auto simp: b1_def tb_ok_def less_Suc_eq)
  from tb_event_spec [OF ok1, of change e]
  obtain b' c where ev: "tb_event e (b1, change) = Some (b', c)" and spec: "tb_step_spec b1 change b' c"
    by (auto simp: change_def)
  have rewind: "bc_rewind c \<noteq> None \<Longrightarrow> \<not> opens_turn b e"
    using ev by (cases e) (auto simp: change_def tb_addressed_def tb_item_def Let_def
        split: option.splits if_splits bind_splits)
  have apply_eq: "tb_apply e b = Some (b', c)"
    using ev by (simp add: tb_apply_def b1_def change_def Let_def)
  show ?thesis
    using spec rewind
    by (intro exI [of _ b'] exI [of _ c])
      (auto simp: apply_eq tb_step_spec_def tb_len_def change_def b1_def split: option.splits)
qed

lemma tb_apply_keeps_ok: "tb_apply e b = Some (b', c) \<Longrightarrow> tb_ok b \<Longrightarrow> tb_ok b'"
  using tb_apply_spec [of b e] by auto


subsection \<open>What a client of the policy relies on\<close>

text \<open>
  The interface: a machine whose state counts turns. A transition appends at most one turn, or
  rewinds to fewer, and whatever turn it names exists afterwards.
\<close>

locale turn_policy = safe_machine "\<lambda>e s. map_option fst (advance e s)" ok
  for advance :: "'e \<Rightarrow> 's \<Rightarrow> ('s \<times> 'c) option" and ok :: "'s \<Rightarrow> bool" +
  fixes turns :: "'s \<Rightarrow> nat"
    and opened :: "'c \<Rightarrow> bool"
    and target :: "'c \<Rightarrow> nat option"
    and rewind :: "'c \<Rightarrow> nat option"
  assumes target_exists:
      "ok s \<Longrightarrow> advance e s = Some (s', c) \<Longrightarrow> target c = Some t \<Longrightarrow> t < turns s'"
    and turns_rewound:
      "ok s \<Longrightarrow> advance e s = Some (s', c) \<Longrightarrow> rewind c = Some r \<Longrightarrow> turns s' = r \<and> r < turns s"
    and turns_kept:
      "ok s \<Longrightarrow> advance e s = Some (s', c) \<Longrightarrow> rewind c = None \<Longrightarrow>
         turns s' = turns s + (if opened c then 1 else 0)"
begin

lemma turns_grow_by_one:
  assumes "ok s" and "advance e s = Some (s', c)"
  shows "turns s' \<le> Suc (turns s)"
  using turns_kept [OF assms] turns_rewound [OF assms] by (cases "rewind c") auto

end

interpretation tb: turn_policy tb_apply tb_ok tb_len bc_opened bc_target bc_rewind
proof
  fix s :: turn_boundaries and e :: "'a agent_event"
  assume "tb_ok s"
  then show "\<exists>s'. map_option fst (tb_apply e s) = Some s' \<and> tb_ok s'"
    using tb_apply_spec [of s e] by auto
next
  fix s s' :: turn_boundaries and e :: "'a agent_event" and c t
  assume "tb_ok s" "tb_apply e s = Some (s', c)"
  note spec = tb_apply_spec [OF this(1), of e] this(2)
  show "t < tb_len s'" if "bc_target c = Some t" using spec that by auto
  show "tb_len s' = r \<and> r < tb_len s" if "bc_rewind c = Some r" for r using spec that by auto
  show "tb_len s' = tb_len s + (if bc_opened c then 1 else 0)" if "bc_rewind c = None"
    using spec that by auto
qed

end
