(* ===== verification/Git_Actions.thy ===== *)
theory Git_Actions
  imports Agent_Events
begin

section \<open>Git quick actions\<close>

text \<open>
  \<^verbatim>\<open>crates/core/src/git.rs\<close>: collapsing file-change fragments by path, the adaptive quick-action
  button, its dropdown, and the path-spec of a partial commit. The parsers and prompt builders of
  the same file are not modelled.
\<close>

subsection \<open>One change per path\<close>

definition newline :: char where
  "newline = CHR 0x0A"

definition join_fragment :: "string option \<Rightarrow> string \<Rightarrow> string" where
  "join_fragment old fragment =
     (let d = (case old of None \<Rightarrow> [] | Some d \<Rightarrow> d)
      in (if d \<noteq> [] \<and> last d \<noteq> newline then d @ [newline] else d) @ fragment)"

definition merge_file_change :: "file_change list \<Rightarrow> file_change \<Rightarrow> file_change list" where
  "merge_file_change merged change =
     (case position (\<lambda>item. fc_path item = fc_path change) merged of
        Some i \<Rightarrow>
          (let existing = merged ! i
           in merged[i := existing\<lparr>fc_kind := fc_kind change,
                fc_diff := (case fc_diff change of
                    None \<Rightarrow> fc_diff existing
                  | Some fragment \<Rightarrow> Some (join_fragment (fc_diff existing) fragment))\<rparr>])
      | None \<Rightarrow> merged @ [change])"

definition merge_file_changes_by_path :: "file_change list \<Rightarrow> file_change list" where
  "merge_file_changes_by_path changes = foldl merge_file_change [] changes"

lemma merge_file_change_paths:
  "map fc_path (merge_file_change merged change) =
     (if fc_path change \<in> fc_path ` set merged then map fc_path merged
      else map fc_path merged @ [fc_path change])"
proof (cases "position (\<lambda>item. fc_path item = fc_path change) merged")
  case None
  then have "fc_path change \<notin> fc_path ` set merged" by (auto simp: position_None_iff)
  with None show ?thesis by (simp add: merge_file_change_def)
next
  case (Some i)
  then have i: "i < length merged" "fc_path (merged ! i) = fc_path change"
    by (auto simp: position_Some_iff)
  then have "fc_path change \<in> fc_path ` set merged" by (metis image_eqI nth_mem)
  with Some i show ?thesis
    by (auto simp: merge_file_change_def Let_def map_update list_update_same_conv)
qed

lemma merge_keeps_distinct:
  "distinct (map fc_path merged) \<Longrightarrow> distinct (map fc_path (merge_file_change merged change))"
  unfolding merge_file_change_paths by auto

lemma foldl_merge_paths:
  "distinct (map fc_path merged) \<Longrightarrow>
     distinct (map fc_path (foldl merge_file_change merged changes))
     \<and> fc_path ` set (foldl merge_file_change merged changes)
       = fc_path ` set merged \<union> fc_path ` set changes"
proof (induction changes arbitrary: merged)
  case Nil
  then show ?case by simp
next
  case (Cons c cs)
  have "fc_path ` set (merge_file_change merged c) = set (map fc_path (merge_file_change merged c))"
    by simp
  also have "\<dots> = insert (fc_path c) (fc_path ` set merged)"
    unfolding merge_file_change_paths by auto
  finally show ?case
    using Cons.IH [OF merge_keeps_distinct [OF Cons.prems, of c]] by simp
qed

lemma merge_distinct_append:
  "distinct (map fc_path (merged @ changes)) \<Longrightarrow>
     foldl merge_file_change merged changes = merged @ changes"
proof (induction changes arbitrary: merged)
  case Nil
  then show ?case by simp
next
  case (Cons c cs)
  then have "fc_path c \<notin> fc_path ` set merged" by simp
  then have "position (\<lambda>item. fc_path item = fc_path c) merged = None"
    unfolding position_None_iff by (metis image_eqI)
  then have "merge_file_change merged c = merged @ [c]"
    by (simp add: merge_file_change_def)
  with Cons show ?case by simp
qed

text \<open>
  Collapsing file-change operations yields one change per path, mentions exactly the paths
  that were reported, and leaves a list alone that already has one change per path; so collapsing
  twice is collapsing once.
\<close>

theorem merge_file_changes_one_per_path:
  "distinct (map fc_path (merge_file_changes_by_path changes))
   \<and> fc_path ` set (merge_file_changes_by_path changes) = fc_path ` set changes
   \<and> merge_file_changes_by_path (merge_file_changes_by_path changes) = merge_file_changes_by_path changes"
proof -
  from foldl_merge_paths [of "[]" changes]
  have d: "distinct (map fc_path (merge_file_changes_by_path changes))"
    and p: "fc_path ` set (merge_file_changes_by_path changes) = fc_path ` set changes"
    by (simp_all add: merge_file_changes_by_path_def)
  with merge_distinct_append [of "[]" "merge_file_changes_by_path changes"]
  show ?thesis by (simp add: merge_file_changes_by_path_def)
qed

subsection \<open>Repository status and actions\<close>

record git_file_entry =
  gf_path :: string
  gf_insertions :: u32
  gf_deletions :: u32

record git_status =
  gs_is_repo :: bool
  gs_has_commits :: bool
  gs_detached :: bool
  gs_branch :: "string option"
  gs_is_default_branch :: bool
  gs_has_working_tree_changes :: bool
  gs_has_origin_remote :: bool
  gs_has_upstream :: bool
  gs_ahead :: u32
  gs_behind :: u32
  gs_changed_files :: "git_file_entry list"
  gs_github_repository :: "string option"

definition gs_diverged :: "git_status \<Rightarrow> bool" where
  "gs_diverged s \<longleftrightarrow> gs_ahead s > 0 \<and> gs_behind s > 0"

datatype git_action = Commit | CommitPush | Push | Pull | PublishBranch | InitializeGit

definition opens_commit_dialog :: "git_action \<Rightarrow> bool" where
  "opens_commit_dialog a \<longleftrightarrow> a = Commit \<or> a = CommitPush"

datatype git_hint = HintInProgress | HintDetached | HintNoCommits | HintNoRemote | HintDiverged
  | HintUpToDate | HintNoChanges | HintNoUpstream | HintBehind | HintNoAhead

record quick_action_result =
  qa_action :: "git_action option"
  qa_label :: git_action
  qa_hint :: "git_hint option"
  qa_disabled :: bool

definition qa_run :: "git_action \<Rightarrow> quick_action_result" where
  "qa_run action = \<lparr>qa_action = Some action, qa_label = action, qa_hint = None, qa_disabled = False\<rparr>"

definition qa_hinted :: "git_action \<Rightarrow> git_hint \<Rightarrow> quick_action_result" where
  "qa_hinted label hint = \<lparr>qa_action = None, qa_label = label, qa_hint = Some hint, qa_disabled = True\<rparr>"

text \<open>The primary quick action: the guards in the code's order, each an early return.\<close>

definition quick_action :: "git_status \<Rightarrow> bool \<Rightarrow> quick_action_result" where
  "quick_action s is_busy =
     (if is_busy then qa_hinted Commit HintInProgress
      else if \<not> gs_is_repo s then qa_run InitializeGit
      else if gs_detached s then qa_hinted Commit HintDetached
      else if \<not> gs_has_commits s then
        (if gs_has_working_tree_changes s then qa_run Commit else qa_hinted Commit HintNoCommits)
      else if gs_has_working_tree_changes s then
        (if gs_has_upstream s then qa_run CommitPush else qa_run Commit)
      else if \<not> gs_has_upstream s then
        (if gs_has_origin_remote s \<and> gs_branch s \<noteq> None then qa_run PublishBranch
         else qa_hinted Commit HintNoRemote)
      else if gs_diverged s then qa_hinted Pull HintDiverged
      else if gs_behind s > 0 then qa_run Pull
      else if gs_ahead s > 0 then qa_run Push
      else qa_hinted Commit HintUpToDate)"

record menu_item =
  mi_action :: git_action
  mi_disabled :: bool
  mi_hint :: "git_hint option"

definition commit_disabled_hint :: "git_status \<Rightarrow> git_hint" where
  "commit_disabled_hint s = (if gs_detached s then HintDetached else HintNoChanges)"

definition push_disabled_hint :: "git_status \<Rightarrow> git_hint" where
  "push_disabled_hint s =
     (if gs_detached s then HintDetached
      else if \<not> gs_has_upstream s then HintNoUpstream
      else if gs_diverged s then HintDiverged
      else if gs_behind s > 0 then HintBehind
      else HintNoAhead)"

definition pull_disabled_hint :: "git_status \<Rightarrow> git_hint" where
  "pull_disabled_hint s = (if gs_diverged s then HintDiverged else HintUpToDate)"

definition menu_items :: "git_status \<Rightarrow> bool \<Rightarrow> menu_item list" where
  "menu_items s is_busy =
     (if \<not> gs_is_repo s then
        [\<lparr>mi_action = InitializeGit, mi_disabled = is_busy, mi_hint = None\<rparr>]
      else
        (let can_commit = (\<not> is_busy \<and> gs_has_working_tree_changes s \<and> \<not> gs_detached s);
             can_push = (\<not> is_busy \<and> gs_has_upstream s \<and> gs_ahead s > 0 \<and> gs_behind s = 0
                         \<and> \<not> gs_detached s);
             can_pull = (\<not> is_busy \<and> gs_has_upstream s \<and> gs_behind s > 0 \<and> \<not> gs_diverged s);
             can_publish = (\<not> is_busy \<and> gs_branch s \<noteq> None)
         in [\<lparr>mi_action = Commit, mi_disabled = (\<not> can_commit),
              mi_hint = (if can_commit then None else Some (commit_disabled_hint s))\<rparr>,
             \<lparr>mi_action = Push, mi_disabled = (\<not> can_push),
              mi_hint = (if can_push then None else Some (push_disabled_hint s))\<rparr>]
            @ (if gs_has_upstream s then
                 [\<lparr>mi_action = Pull, mi_disabled = (\<not> can_pull),
                   mi_hint = (if can_pull then None else Some (pull_disabled_hint s))\<rparr>] else [])
            @ (if \<not> gs_has_upstream s \<and> gs_has_origin_remote s then
                 [\<lparr>mi_action = PublishBranch, mi_disabled = (\<not> can_publish),
                   mi_hint = (if can_publish then None else Some HintDetached)\<rparr>] else [])))"

definition included_paths :: "git_file_entry list \<Rightarrow> string set \<Rightarrow> string list option" where
  "included_paths all excluded =
     (if excluded = {} then None
      else Some (map gf_path (filter (\<lambda>f. gf_path f \<notin> excluded) all)))"

text \<open>The dropdown's entry for what the button does: committing is one entry, with or without a push.\<close>

definition menu_action_of :: "git_action \<Rightarrow> git_action" where
  "menu_action_of a = (if a = CommitPush then Commit else a)"

text \<open>
  The button and its dropdown agree: the button is a disabled hint, or it runs the action it
  is labelled with, and then the dropdown offers that action enabled, without a hint. In
  particular the button never offers a pull on a diverged branch or a push of a branch that is
  behind.
\<close>

theorem quick_action_offered:
  "(case qa_action (quick_action s is_busy) of
      None \<Rightarrow> qa_disabled (quick_action s is_busy) \<and> qa_hint (quick_action s is_busy) \<noteq> None
    | Some a \<Rightarrow> \<not> is_busy \<and> qa_label (quick_action s is_busy) = a
        \<and> \<not> qa_disabled (quick_action s is_busy) \<and> qa_hint (quick_action s is_busy) = None
        \<and> \<lparr>mi_action = menu_action_of a, mi_disabled = False, mi_hint = None\<rparr>
          \<in> set (menu_items s is_busy)
        \<and> \<not> (a = Pull \<and> gs_diverged s) \<and> \<not> (a = Push \<and> gs_behind s > 0))"
proof -
  have zero: "\<not> 0 < gs_behind s \<longleftrightarrow> gs_behind s = 0"
    by (simp add: word_gt_0)
  show ?thesis
    by (cases "gs_branch s")
      (simp_all add: quick_action_def qa_run_def qa_hinted_def menu_items_def menu_action_of_def
        Let_def zero)
qed

end
