(* ===== verification/Timeline.thy ===== *)
theory Timeline
  imports Tool_Clock Turn_Boundaries Git_Actions
begin

section \<open>The timeline fold\<close>

text \<open>
  \<^verbatim>\<open>crates/core/src/session.rs\<close>: the canonical events of a session folded into the renderable
  timeline. Every operation that can panic in the source (an index, an \<open>expect\<close>) returns an
  option here, so that the theorems of \<open>Timeline_Correct\<close> can say that none does. \<open>Arc\<close> and the
  clones around it are value copies; a logged warning changes nothing.
\<close>

subsection \<open>Records of the log\<close>

record author =
  au_device_id :: string
  au_name :: string

datatype message_origin = Human | Agent | Server

definition origin_legacy :: "bool \<Rightarrow> message_origin" where
  "origin_legacy has_parent = (if has_parent then Agent else Human)"

record 'j stored_event =
  se_origin :: "message_origin option"
  se_author :: "author option"
  se_ts :: "u64 option"
  se_event :: "'j agent_event"
  se_elided :: "u64 option"

fun se_item_id_of :: "'j agent_event \<Rightarrow> string option" where
  "se_item_id_of (ItemStarted item) = Some (ti_id item)"
| "se_item_id_of (ItemUpdated item) = Some (ti_id item)"
| "se_item_id_of (ItemCompleted item) = Some (ti_id item)"
| "se_item_id_of (Delta item_id _ _) = Some item_id"
| "se_item_id_of _ = None"

definition se_item_id :: "'j stored_event \<Rightarrow> string option" where
  "se_item_id e = se_item_id_of (se_event e)"

definition stored_event_from :: "'j agent_event \<Rightarrow> 'j stored_event" where
  "stored_event_from e = \<lparr>se_origin = None, se_author = None, se_ts = None, se_event = e,
     se_elided = None\<rparr>"

subsection \<open>State\<close>

datatype steering_status = SteerPending | SteerWasAccepted

datatype 'j entry_content =
    EntryItem "'j item_content"
  | EntrySteer string steering_status "nat option" "string list"
  | EntryError string "u64 option"
  | EntryProviderStartError string
  | EntryProviderRelay provider_kind "string option" provider_kind "string option" "string option"
      "string option"
  | EntryModelChanged "string option" string "string option"
  | EntryContextCompacted compaction
  | EntryContextWindowChanged u64
  | EntryControlAction control_action

record 'j timeline_entry =
  te_id :: string
  te_content :: "'j entry_content"
  te_ts :: "u64 option"
  te_turn :: nat

record turn_change_set =
  cs_changes :: "file_change list"
  cs_completeness :: change_completeness

record turn_meta =
  tm_provider_turn_id :: "string option"
  tm_provider_checkpoint_id :: "string option"
  tm_start_ts :: "u64 option"
  tm_end_ts :: "u64 option"
  tm_status :: "turn_status option"
  tm_running :: bool
  tm_changes :: "turn_change_set option"
  tm_timing :: "turn_timing option"
  tm_served_model :: "string option"
  tm_cost_usd :: "f64 option"
  tm_provider_duration_ms :: "u64 option"

record pending_user_input =
  pu_request_id :: string
  pu_questions :: "user_input_question list"
  pu_delivery :: user_input_delivery

record running_turn =
  rt_turn :: u64
  rt_started_at :: "u64 option"

record entry_index =
  ei_first :: "string \<rightharpoonup> nat"
  ei_covered :: nat

definition entry_index_default :: entry_index where
  "entry_index_default = \<lparr>ei_first = Map.empty, ei_covered = 0\<rparr>"

record 'j timeline =
  tl_entries :: "'j timeline_entry list"
  tl_turns :: "turn_meta list"
  tl_turn_running :: bool
  tl_turn_retry :: "turn_retry option"
  tl_pending_approvals :: "'j approval_request list"
  tl_plan_steps :: "plan_step list"
  tl_plan_explanation :: "string option"
  tl_goal :: "goal option"
  tl_pending_user_input :: "pending_user_input option"
  tl_usage :: "token_usage option"
  tl_resume :: "'j resume_cursor option"
  tl_provider_session_id :: "string option"
  tl_model :: "string option"
  tl_last_served_model :: "string option"
  tl_last_turn_status :: "turn_status option"
  tl_boundaries :: turn_boundaries
  tl_next_synthetic_id :: u64
  tl_committed :: "string set"
  tl_tool_clock :: tool_clock
  tl_elided_outputs :: "string \<rightharpoonup> u64"
  tl_entry_index :: entry_index

definition timeline_default :: "'j timeline" where
  "timeline_default = \<lparr>tl_entries = [], tl_turns = [], tl_turn_running = False,
     tl_turn_retry = None, tl_pending_approvals = [], tl_plan_steps = [],
     tl_plan_explanation = None, tl_goal = None, tl_pending_user_input = None, tl_usage = None,
     tl_resume = None, tl_provider_session_id = None, tl_model = None,
     tl_last_served_model = None, tl_last_turn_status = None,
     tl_boundaries = turn_boundaries_default, tl_next_synthetic_id = 0, tl_committed = {},
     tl_tool_clock = tool_clock_default, tl_elided_outputs = Map.empty,
     tl_entry_index = entry_index_default\<rparr>"

subsection \<open>The entry index\<close>

text \<open>
  \<open>first_entry\<close>: the cache covers a prefix of the entries; it is extended on every lookup, thrown
  away when it claims to cover more than there is, and a hit that does not check out restarts the
  lookup with an empty cache. That restart is why this is a partial function.
\<close>

definition ei_extend :: "string list \<Rightarrow> entry_index \<Rightarrow> entry_index" where
  "ei_extend ids idx =
     \<lparr>ei_first = foldl (\<lambda>m p. if m (ids ! p) = None then m(ids ! p \<mapsto> p) else m) (ei_first idx)
                  [ei_covered idx ..< length ids],
      ei_covered = length ids\<rparr>"

partial_function (option) first_entry_at ::
  "string list \<Rightarrow> entry_index \<Rightarrow> string \<Rightarrow> (nat option \<times> entry_index) option" where
  "first_entry_at ids idx key =
     (let idx0 = (if ei_covered idx > length ids then entry_index_default else idx);
          idx1 = ei_extend ids idx0
      in case ei_first idx1 key of
           None \<Rightarrow> Some (None, idx1)
         | Some p \<Rightarrow>
             (case index ids p of
                None \<Rightarrow> None
              | Some found \<Rightarrow>
                  if found = key then Some (Some p, idx1)
                  else first_entry_at ids entry_index_default key))"

declare first_entry_at.simps [code]

definition entry_ids :: "'j timeline \<Rightarrow> string list" where
  "entry_ids tml = map te_id (tl_entries tml)"

definition first_entry :: "'j timeline \<Rightarrow> string \<Rightarrow> (nat option \<times> 'j timeline) option" where
  "first_entry tml key =
     map_option (\<lambda>(p, idx). (p, tml\<lparr>tl_entry_index := idx\<rparr>))
       (first_entry_at (entry_ids tml) (tl_entry_index tml) key)"

definition reindex_entries :: "'j timeline \<Rightarrow> 'j timeline" where
  "reindex_entries tml = tml\<lparr>tl_entry_index := entry_index_default\<rparr>"

subsection \<open>Synthetic entry ids\<close>

text \<open>
  \<open>synthetic_entry_id\<close>: the caller's \<open>exists\<close> closure may update its own state (here the entry
  index). The search for an unused suffix is a loop, so it is a partial function too.
\<close>

partial_function (option) unused_id ::
  "('s \<Rightarrow> string \<Rightarrow> (bool \<times> 's) option) \<Rightarrow> string \<Rightarrow> nat \<Rightarrow> string \<Rightarrow> 's \<Rightarrow> (string \<times> 's) option" where
  "unused_id known base duplicate key s =
     Option.bind (known s key) (\<lambda>(found, s').
       if found then unused_id known base (duplicate + 1) (base @ ''-'' @ decimal duplicate) s'
       else Some (key, s'))"

declare unused_id.simps [code]

definition synthetic_entry_id ::
  "string \<Rightarrow> u64 option \<Rightarrow> u64 \<Rightarrow> ('s \<Rightarrow> string \<Rightarrow> (bool \<times> 's) option) \<Rightarrow> 's \<Rightarrow>
   (string \<times> u64 \<times> 's) option" where
  "synthetic_entry_id prefix ts next_id known s =
     (case ts of
        None \<Rightarrow> Some (prefix @ ''-'' @ decimal (unat (next_id + 1)), next_id + 1, s)
      | Some t \<Rightarrow>
          (let base = prefix @ ''-'' @ decimal (unat t)
           in map_option (\<lambda>(key, s'). (key, next_id, s')) (unused_id known base 1 base s)))"

definition entry_known :: "'j timeline \<Rightarrow> string \<Rightarrow> (bool \<times> 'j timeline) option" where
  "entry_known tml key = map_option (\<lambda>(p, tml'). (p \<noteq> None, tml')) (first_entry tml key)"

definition synthetic_id :: "string \<Rightarrow> u64 option \<Rightarrow> 'j timeline \<Rightarrow> (string \<times> 'j timeline) option" where
  "synthetic_id prefix ts tml =
     map_option (\<lambda>(key, next_id, tml'). (key, tml'\<lparr>tl_next_synthetic_id := next_id\<rparr>))
       (synthetic_entry_id prefix ts (tl_next_synthetic_id tml) entry_known tml)"

subsection \<open>Merging item snapshots\<close>

text \<open>Snapshots may lag the delta stream: an empty snapshot or a prefix never shortens the text.\<close>

definition merge_text :: "string \<Rightarrow> string \<Rightarrow> string" where
  "merge_text old new = (if new = [] \<or> starts_with old new then old else new)"

definition keep_diff :: "file_change list \<Rightarrow> file_change \<Rightarrow> file_change" where
  "keep_diff existing change =
     (if fc_diff change = None
      then (case List.find (\<lambda>e. fc_path e = fc_path change) existing of
              Some e \<Rightarrow> (case fc_diff e of Some d \<Rightarrow> change\<lparr>fc_diff := Some d\<rparr> | None \<Rightarrow> change)
            | None \<Rightarrow> change)
      else change)"

definition merge_item :: "'j item_content \<Rightarrow> 'j item_content \<Rightarrow> 'j item_content" where
  "merge_item existing incoming = (case incoming of
      AssistantMessage new summarized \<Rightarrow> (case existing of
        AssistantMessage old _ \<Rightarrow> AssistantMessage (merge_text old new) summarized | _ \<Rightarrow> incoming)
    | Reasoning new \<Rightarrow> (case existing of
        Reasoning old \<Rightarrow> Reasoning (merge_text old new) | _ \<Rightarrow> incoming)
    | CommandExecution command output exit_code status \<Rightarrow> (case existing of
        CommandExecution _ old_output _ _ \<Rightarrow>
          CommandExecution command (merge_text old_output output) exit_code status
      | _ \<Rightarrow> incoming)
    | FileChange changes status \<Rightarrow> (case existing of
        FileChange old _ \<Rightarrow> FileChange (map (keep_diff old) changes) status | _ \<Rightarrow> incoming)
    | Subagent agent_type description status summary model effort \<Rightarrow> (case existing of
        Subagent _ _ _ old_summary old_model old_effort \<Rightarrow>
          Subagent agent_type description status (opt_or summary old_summary)
            (opt_or model old_model) (opt_or effort old_effort)
      | _ \<Rightarrow> incoming)
    | _ \<Rightarrow> incoming)"

definition merge_content :: "'j entry_content \<Rightarrow> 'j entry_content \<Rightarrow> 'j entry_content" where
  "merge_content existing incoming = (case incoming of
      EntryItem inc \<Rightarrow> (case existing of
        EntrySteer _ status _ _ \<Rightarrow> (case inc of
          UserMessage steer_text context_len attachments \<Rightarrow>
            EntrySteer steer_text status context_len attachments
        | _ \<Rightarrow> incoming)
      | EntryItem old \<Rightarrow> EntryItem (merge_item old inc)
      | _ \<Rightarrow> incoming)
    | _ \<Rightarrow> incoming)"

subsection \<open>Turns\<close>

definition turn_is_open :: "'j timeline \<Rightarrow> bool" where
  "turn_is_open tml \<longleftrightarrow> tb_is_open (tl_boundaries tml)"

definition turn_meta_open :: "u64 option \<Rightarrow> turn_meta" where
  "turn_meta_open start_ts = \<lparr>tm_provider_turn_id = None, tm_provider_checkpoint_id = None,
     tm_start_ts = start_ts, tm_end_ts = None, tm_status = None, tm_running = False,
     tm_changes = None, tm_timing = None, tm_served_model = None, tm_cost_usd = None,
     tm_provider_duration_ms = None\<rparr>"

definition push_turn :: "u64 option \<Rightarrow> 'j timeline \<Rightarrow> 'j timeline" where
  "push_turn start_ts tml =
     tml\<lparr>tl_tool_clock := tool_clock_default, tl_turns := tl_turns tml @ [turn_meta_open start_ts]\<rparr>"

text \<open>\<open>ensure_turn\<close>: the \<open>expect\<close> on the turn-opening policy.\<close>

definition ensure_turn :: "'j timeline \<Rightarrow> nat option" where
  "ensure_turn tml = tb_current (tl_boundaries tml)"

definition begin_user_turn :: "'j timeline \<Rightarrow> (nat \<times> 'j timeline) option" where
  "begin_user_turn tml =
     (let tml' = tml\<lparr>tl_turn_retry := None\<rparr> in map_option (\<lambda>turn. (turn, tml')) (ensure_turn tml'))"

text \<open>\<open>self.turns[turn]\<close> updated in place.\<close>

definition update_turn :: "nat \<Rightarrow> (turn_meta \<Rightarrow> turn_meta) \<Rightarrow> 'j timeline \<Rightarrow> 'j timeline option" where
  "update_turn turn f tml =
     map_option (\<lambda>turns. tml\<lparr>tl_turns := turns\<rparr>) (index_mut (tl_turns tml) turn f)"

definition track_tool_item :: "u64 option \<Rightarrow> 'j thread_item \<Rightarrow> tool_lifecycle \<Rightarrow> 'j timeline \<Rightarrow>
    'j timeline" where
  "track_tool_item ts item lifecycle tml =
     (case tool_item_state (ti_content item) of
        None \<Rightarrow> tml
      | Some state \<Rightarrow>
          if turn_is_open tml
          then tml\<lparr>tl_tool_clock :=
                 tc_mark ts (ti_id item) (tool_is_active lifecycle state) (tl_tool_clock tml)\<rparr>
          else tml)"

text \<open>\<open>rewind_conversation\<close>: a provider-confirmed rewind forgets the turns from \<open>target\<close> on.\<close>

definition rewind_conversation :: "nat \<Rightarrow> 'j timeline \<Rightarrow> 'j timeline" where
  "rewind_conversation target tml =
     (let entries = filter (\<lambda>e. te_turn e < target) (tl_entries tml);
          turns = take target (tl_turns tml)
      in tml\<lparr>tl_entries := entries,
             tl_entry_index := entry_index_default,
             tl_turns := turns,
             tl_tool_clock := tool_clock_default,
             tl_turn_running := False,
             tl_pending_approvals := [],
             tl_pending_user_input := None,
             tl_plan_steps := [],
             tl_plan_explanation := None,
             tl_usage := None,
             tl_last_turn_status := (if turns = [] then None else tm_status (last turns)),
             tl_committed := {i \<in> tl_committed tml. i \<in> te_id ` set entries}\<rparr>)"

subsection \<open>Items\<close>

definition push_entry :: "string \<Rightarrow> 'j entry_content \<Rightarrow> u64 option \<Rightarrow> nat \<Rightarrow> 'j timeline \<Rightarrow> 'j timeline" where
  "push_entry key content ts turn tml =
     tml\<lparr>tl_entries := tl_entries tml @
           [\<lparr>te_id = key, te_content = content, te_ts = ts, te_turn = turn\<rparr>]\<rparr>"

text \<open>A system row of the current turn: \<open>ensure_turn\<close>, \<open>synthetic_id\<close>, push, as every such branch does.\<close>

definition push_system_row :: "string \<Rightarrow> 'j entry_content \<Rightarrow> u64 option \<Rightarrow> 'j timeline \<Rightarrow>
    'j timeline option" where
  "push_system_row prefix content ts tml = do {
     turn \<leftarrow> ensure_turn tml;
     (key, tml') \<leftarrow> synthetic_id prefix ts tml;
     Some (push_entry key content ts turn tml') }"

definition is_user_entry :: "'j entry_content \<Rightarrow> bool" where
  "is_user_entry c \<longleftrightarrow> (case c of EntryItem i \<Rightarrow> is_user_message i | EntrySteer _ _ _ _ \<Rightarrow> True | _ \<Rightarrow> False)"

text \<open>A second user message of a turn is the legacy form of a steer.\<close>

definition legacy_steer :: "'j item_content \<Rightarrow> 'j entry_content" where
  "legacy_steer c = (case c of
      UserMessage text' context_len attachments \<Rightarrow> EntrySteer text' SteerWasAccepted context_len attachments
    | _ \<Rightarrow> EntryItem c)"

definition upsert_item :: "u64 option \<Rightarrow> 'j thread_item \<Rightarrow> 'j timeline \<Rightarrow> 'j timeline option" where
  "upsert_item ts item tml =
     (if ti_parent_item_id item \<noteq> None then Some tml
      else do {
        (pos, tml1) \<leftarrow> first_entry tml (ti_id item);
        (case pos of
           Some p \<Rightarrow> do {
             entries \<leftarrow> index_mut (tl_entries tml1) p (\<lambda>e.
               e\<lparr>te_content := merge_content (te_content e) (EntryItem (ti_content item))\<rparr>);
             Some (tml1\<lparr>tl_entries := entries\<rparr>) }
         | None \<Rightarrow>
             if is_user_message (ti_content item) then do {
               (turn, tml2) \<leftarrow> begin_user_turn tml1;
               Some (push_entry (ti_id item)
                 (if list_ex (\<lambda>e. te_turn e = turn \<and> is_user_entry (te_content e)) (tl_entries tml2)
                  then legacy_steer (ti_content item) else EntryItem (ti_content item)) ts turn tml2) }
             else do {
               turn \<leftarrow> ensure_turn tml1;
               Some (push_entry (ti_id item) (EntryItem (ti_content item)) ts turn tml1) }) })"

definition item_turn :: "string \<Rightarrow> 'j timeline \<Rightarrow> (nat option \<times> 'j timeline) option" where
  "item_turn key tml = do {
     (pos, tml') \<leftarrow> first_entry tml key;
     (case pos of
        None \<Rightarrow> Some (None, tml')
      | Some p \<Rightarrow> map_option (\<lambda>e. (Some (te_turn e), tml')) (index (tl_entries tml') p)) }"

definition committed_fragments :: "nat \<Rightarrow> 'j timeline \<Rightarrow> file_change list" where
  "committed_fragments turn tml = concat (map (\<lambda>e.
     if te_turn e \<noteq> turn \<or> te_id e \<notin> tl_committed tml then []
     else (case te_content e of EntryItem (FileChange changes _) \<Rightarrow> changes | _ \<Rightarrow> [])) (tl_entries tml))"

definition refresh_partial_turn_changes :: "nat \<Rightarrow> 'j timeline \<Rightarrow> 'j timeline option" where
  "refresh_partial_turn_changes turn tml = do {
     meta \<leftarrow> index (tl_turns tml) turn;
     if (case tm_changes meta of Some c \<Rightarrow> cs_completeness c = Exact | None \<Rightarrow> False) then Some tml
     else update_turn turn (\<lambda>t. t\<lparr>tm_changes := Some
       \<lparr>cs_changes = merge_file_changes_by_path (committed_fragments turn tml),
        cs_completeness = Partial\<rparr>\<rparr>) tml }"

definition commit_file_change :: "'j thread_item \<Rightarrow> 'j timeline \<Rightarrow> 'j timeline option" where
  "commit_file_change item tml =
     (case ti_content item of
        FileChange _ Completed \<Rightarrow> do {
          (turn, tml') \<leftarrow> item_turn (ti_id item) (tml\<lparr>tl_committed := insert (ti_id item) (tl_committed tml)\<rparr>);
          (case turn of None \<Rightarrow> Some tml' | Some t \<Rightarrow> refresh_partial_turn_changes t tml') }
      | _ \<Rightarrow> Some tml)"

subsection \<open>Steers\<close>

definition request_steer :: "u64 option \<Rightarrow> string \<Rightarrow> string \<Rightarrow> string list \<Rightarrow> 'j timeline \<Rightarrow>
    'j timeline option" where
  "request_steer ts rid steer_text attachments tml = do {
     (pos, tml') \<leftarrow> first_entry tml rid;
     (if pos \<noteq> None then Some tml'
      else do {
        turn \<leftarrow> ensure_turn tml';
        Some (push_entry rid (EntrySteer steer_text SteerPending None attachments) ts turn tml') }) }"

definition is_pending_steer :: "'j entry_content \<Rightarrow> bool" where
  "is_pending_steer c \<longleftrightarrow> (case c of EntrySteer _ SteerPending _ _ \<Rightarrow> True | _ \<Rightarrow> False)"

definition accepted_content :: "'j entry_content \<Rightarrow> 'j entry_content" where
  "accepted_content c = (case c of
      EntrySteer t SteerPending n a \<Rightarrow> EntrySteer t SteerWasAccepted n a | _ \<Rightarrow> c)"

definition accept_steer :: "string \<Rightarrow> nat option \<Rightarrow> 'j timeline \<Rightarrow> 'j timeline option" where
  "accept_steer rid target tml = do {
     (pos, tml') \<leftarrow> first_entry tml rid;
     (case pos of
        None \<Rightarrow> Some tml'
      | Some p \<Rightarrow> do {
          entry \<leftarrow> index (tl_entries tml') p;
          (if \<not> is_pending_steer (te_content entry) then Some tml'
           else
             (let rest = take p (tl_entries tml') @ drop (Suc p) (tl_entries tml');
                  entry' = entry\<lparr>te_content := accepted_content (te_content entry),
                    te_turn := (case target of None \<Rightarrow> te_turn entry | Some turn \<Rightarrow> turn)\<rparr>
              in Some ((reindex_entries tml')\<lparr>tl_entries := rest @ [entry']\<rparr>))) }) }"

definition reject_steer :: "string \<Rightarrow> 'j timeline \<Rightarrow> 'j timeline" where
  "reject_steer rid tml =
     reindex_entries (tml\<lparr>tl_entries :=
       filter (\<lambda>e. te_id e \<noteq> rid \<or> \<not> is_pending_steer (te_content e)) (tl_entries tml)\<rparr>)"

subsection \<open>Deltas\<close>

definition delta_content :: "'j entry_content \<Rightarrow> delta_kind \<Rightarrow> string \<Rightarrow> 'j entry_content" where
  "delta_content c kind d = (case c of
      EntryItem (AssistantMessage existing summarized) \<Rightarrow>
        if kind = AssistantText then EntryItem (AssistantMessage (existing @ d) summarized) else c
    | EntryItem (Reasoning existing) \<Rightarrow>
        if kind = ReasoningText then EntryItem (Reasoning (existing @ d)) else c
    | EntryItem (CommandExecution command output exit_code status) \<Rightarrow>
        if kind = CommandOutput
        then EntryItem (CommandExecution command (output @ d) exit_code status) else c
    | _ \<Rightarrow> c)"

definition delta_item :: "delta_kind \<Rightarrow> string \<Rightarrow> 'j item_content" where
  "delta_item kind d = (case kind of
      AssistantText \<Rightarrow> AssistantMessage d False
    | ReasoningText \<Rightarrow> Reasoning d
    | CommandOutput \<Rightarrow> CommandExecution [] d None InProgress)"

text \<open>
  The entry a stream continues: the last one with the id among the trailing entries of the current
  turn. An earlier turn's entry with the same placeholder id is another item.
\<close>

definition streamed_entry :: "string \<Rightarrow> 'j timeline \<Rightarrow> nat option" where
  "streamed_entry key tml =
     map_option (\<lambda>k. length (tl_entries tml) - 1 - k)
       (position (\<lambda>e. te_id e = key)
         (takeWhile (\<lambda>e. Some (te_turn e) = tb_current (tl_boundaries tml)) (rev (tl_entries tml))))"

definition apply_delta :: "u64 option \<Rightarrow> string \<Rightarrow> delta_kind \<Rightarrow> string \<Rightarrow> 'j timeline \<Rightarrow>
    'j timeline option" where
  "apply_delta ts key kind d tml =
     (case streamed_entry key tml of
        Some p \<Rightarrow> do {
          entries \<leftarrow> index_mut (tl_entries tml) p (\<lambda>e.
            e\<lparr>te_content := delta_content (te_content e) kind d\<rparr>);
          Some (tml\<lparr>tl_entries := entries\<rparr>) }
      | None \<Rightarrow> do {
          turn \<leftarrow> ensure_turn tml;
          Some (push_entry key (EntryItem (delta_item kind d)) ts turn tml) })"


subsection \<open>Token usage\<close>

text \<open>
  A completed turn's usage keeps the last known context window, and adds its processed tokens to
  the running total once: a repeated completion adds nothing.
\<close>

definition completed_usage :: "bool \<Rightarrow> token_usage option \<Rightarrow> token_usage \<Rightarrow> token_usage" where
  "completed_usage newly_completed prev usage =
     (let usage1 = usage\<lparr>tu_context_window :=
            opt_or (tu_context_window usage) (Option.bind prev tu_context_window)\<rparr>
      in case tu_turn_processed_tokens usage1 of
           None \<Rightarrow> usage1
         | Some processed \<Rightarrow>
             (let previous = (case Option.bind prev tu_total_processed_tokens of None \<Rightarrow> 0 | Some n \<Rightarrow> n)
              in usage1\<lparr>tu_total_processed_tokens :=
                   Some (sat_add previous (if newly_completed then processed else 0))\<rparr>))"

definition observed_usage :: "token_usage option \<Rightarrow> token_usage \<Rightarrow> token_usage" where
  "observed_usage prev usage =
     (let usage1 = usage\<lparr>tu_context_window :=
            opt_or (tu_context_window usage) (Option.bind prev tu_context_window)\<rparr>
      in if tu_turn_processed_tokens usage1 \<noteq> None \<or> tu_total_processed_tokens usage1 = None
         then usage1\<lparr>tu_total_processed_tokens :=
                opt_or (Option.bind prev tu_total_processed_tokens) (tu_total_processed_tokens usage1)\<rparr>
         else usage1)"

definition stale_usage :: "token_usage \<Rightarrow> token_usage" where
  "stale_usage u = (if tu_freshness u = Current then u\<lparr>tu_freshness := LastKnown\<rparr> else u)"

definition compacted_usage :: "bool \<Rightarrow> token_usage \<Rightarrow> token_usage" where
  "compacted_usage in_progress u =
     (let u1 = u\<lparr>tu_freshness := (if in_progress then Compacting else AwaitingObservation)\<rparr>
      in if in_progress then u1
         else u1\<lparr>tu_used_tokens := None, tu_input_tokens := None, tu_cached_input_tokens := None,
                 tu_output_tokens := None\<rparr>)"

subsection \<open>Completing a turn\<close>

definition finished_turn :: "u64 option \<Rightarrow> turn_status \<Rightarrow> token_usage option \<Rightarrow> tool_clock \<Rightarrow>
    turn_meta \<Rightarrow> turn_meta" where
  "finished_turn ts status usage clock t =
     (let t1 = (if ts \<noteq> None then t\<lparr>tm_end_ts := ts\<rparr> else t);
          t2 = t1\<lparr>tm_status := Some status, tm_running := False\<rparr>;
          t3 = (case usage of None \<Rightarrow> t2
                | Some u \<Rightarrow> t2\<lparr>tm_cost_usd := tu_cost_usd u, tm_provider_duration_ms := tu_duration_ms u\<rparr>)
      in case finish_timing clock (tm_end_ts t3) of
           None \<Rightarrow> t3 | Some timing \<Rightarrow> t3\<lparr>tm_timing := Some timing\<rparr>)"

definition complete_turn :: "u64 option \<Rightarrow> turn_status \<Rightarrow> token_usage option \<Rightarrow> 'j timeline \<Rightarrow>
    'j timeline option" where
  "complete_turn ts status usage tml = do {
     newly_completed \<leftarrow> (case tb_current (tl_boundaries tml) of
         None \<Rightarrow> Some True
       | Some turn \<Rightarrow> map_option (\<lambda>t. tm_status t = None) (index (tl_turns tml) turn));
     let usage' = map_option (completed_usage newly_completed (tl_usage tml)) usage;
     let tml1 = tml\<lparr>tl_turn_running := False, tl_last_turn_status := Some status\<rparr>;
     tml2 \<leftarrow> (case tb_current (tl_boundaries tml1) of
         None \<Rightarrow> Some tml1
       | Some turn \<Rightarrow>
           map_option (\<lambda>t. t\<lparr>tl_tool_clock := tool_clock_default\<rparr>)
             (update_turn turn (finished_turn ts status usage' (tl_tool_clock tml1)) tml1));
     let tml3 = (if usage' \<noteq> None then tml2\<lparr>tl_usage := usage'\<rparr> else tml2);
     Some (tml3\<lparr>tl_pending_approvals :=
               filter (\<lambda>r. ar_parent_item_id r \<noteq> None) (tl_pending_approvals tml3),
             tl_pending_user_input := None\<rparr>) }"

subsection \<open>The transition\<close>

definition is_error_entry :: "'j entry_content \<Rightarrow> bool" where
  "is_error_entry c \<longleftrightarrow> (case c of EntryError _ _ \<Rightarrow> True | _ \<Rightarrow> False)"

definition limit_error :: "u64 \<Rightarrow> 'j entry_content \<Rightarrow> 'j entry_content" where
  "limit_error resets_at c = (case c of EntryError m _ \<Rightarrow> EntryError m (Some resets_at) | _ \<Rightarrow> c)"

definition start_turn :: "u64 option \<Rightarrow> string \<Rightarrow> 'j timeline \<Rightarrow> 'j timeline option" where
  "start_turn ts tid tml = do {
     let tml1 = tml\<lparr>tl_turn_retry := None, tl_usage := map_option stale_usage (tl_usage tml)\<rparr>;
     turn \<leftarrow> ensure_turn tml1;
     tml2 \<leftarrow> (case ts of
         None \<Rightarrow> Some tml1
       | Some t \<Rightarrow>
           map_option (\<lambda>m. m\<lparr>tl_tool_clock := tc_begin_turn t (tl_tool_clock m)\<rparr>)
             (update_turn turn (\<lambda>m. m\<lparr>tm_start_ts := Some t\<rparr>) tml1));
     tml3 \<leftarrow> update_turn turn (\<lambda>m. m\<lparr>tm_provider_turn_id := Some tid, tm_running := True\<rparr>) tml2;
     Some (tml3\<lparr>tl_turn_running := True, tl_last_turn_status := None\<rparr>) }"

definition same_model :: "(string \<Rightarrow> string) \<Rightarrow> string option \<Rightarrow> string \<Rightarrow> bool" where
  "same_model strip_suffix last_model model \<longleftrightarrow> map_option strip_suffix last_model = Some (strip_suffix model)"

text \<open>\<open>strip_context_window_suffix\<close> of \<^verbatim>\<open>crates/agent/src/claude_context.rs\<close>.\<close>

definition is_char_boundary :: "string \<Rightarrow> nat \<Rightarrow> bool" where
  "is_char_boundary s i \<longleftrightarrow>
     i = 0 \<or> i = length s
     \<or> (i < length s \<and> \<not> (128 \<le> (of_char (s ! i) :: nat) \<and> of_char (s ! i) < (192 :: nat)))"

definition context_window_suffixes :: "string list" where
  "context_window_suffixes = [''[1m]'', ''[2m]'']"

definition strip_context_window_suffix :: "string \<Rightarrow> string" where
  "strip_context_window_suffix model =
     (case find_map (\<lambda>suffix.
         if length suffix \<le> length model then
           (let base = length model - length suffix
            in if is_char_boundary model base
                 \<and> to_ascii_lowercase (drop base model) = to_ascii_lowercase suffix
               then Some (take base model) else None)
         else None) context_window_suffixes of
        Some head \<Rightarrow> head | None \<Rightarrow> model)"

definition serve_model :: "u64 option \<Rightarrow> string \<Rightarrow> string option \<Rightarrow> 'j timeline \<Rightarrow> 'j timeline option" where
  "serve_model ts model reason tml = do {
     turn \<leftarrow> ensure_turn tml;
     tml1 \<leftarrow> update_turn turn (\<lambda>m. m\<lparr>tm_served_model := Some model\<rparr>) tml;
     tml2 \<leftarrow> (if same_model strip_context_window_suffix (tl_last_served_model tml1) model then Some tml1
       else do {
         let moved_from = tl_last_served_model tml1;
         (key, tml') \<leftarrow> synthetic_id ''model'' ts tml1;
         Some (push_entry key (EntryModelChanged moved_from model reason) ts turn tml') });
     Some (tml2\<lparr>tl_last_served_model := Some model\<rparr>) }"

definition close_session :: "u64 option \<Rightarrow> string option \<Rightarrow> 'j timeline \<Rightarrow> 'j timeline option" where
  "close_session ts reason tml = do {
     let tml1 = tml\<lparr>tl_turn_retry := None\<rparr>;
     tml2 \<leftarrow> (case reason of None \<Rightarrow> Some tml1
       | Some message \<Rightarrow> push_system_row ''error'' (EntryError message None) ts tml1);
     let tml3 = tml2\<lparr>tl_turn_running := False, tl_pending_approvals := [],
                     tl_pending_user_input := None\<rparr>;
     (case tb_current (tl_boundaries tml3) of
        None \<Rightarrow> Some tml3
      | Some turn \<Rightarrow> update_turn turn (\<lambda>m. m\<lparr>tm_running := False\<rparr>) tml3) }"

definition compact_context :: "u64 option \<Rightarrow> compaction \<Rightarrow> 'j timeline \<Rightarrow> 'j timeline option" where
  "compact_context ts c tml =
     (let usage = (case tl_usage tml of None \<Rightarrow> token_usage_default | Some u \<Rightarrow> u);
          tml1 = tml\<lparr>tl_usage := Some usage\<rparr>
      in if cp_in_progress c \<and> tu_freshness usage = Compacting then Some tml1
         else push_system_row ''compacted'' (EntryContextCompacted c) ts
                (tml1\<lparr>tl_usage := Some (compacted_usage (cp_in_progress c) usage)\<rparr>))"

text \<open>The provider-addressed records: \<open>boundary.target.expect(...)\<close>, then the turn at that index.\<close>

definition update_target :: "nat option \<Rightarrow> (turn_meta \<Rightarrow> turn_meta) \<Rightarrow> 'j timeline \<Rightarrow> 'j timeline option" where
  "update_target target f tml = Option.bind target (\<lambda>turn. update_turn turn f tml)"


fun apply_event :: "'j agent_event \<Rightarrow> u64 option \<Rightarrow> turn_boundary_change \<Rightarrow> 'j timeline \<Rightarrow>
    'j timeline option" where
  "apply_event (TurnRetry retry) ts change tml = Some (tml\<lparr>tl_turn_retry := retry\<rparr>)"
| "apply_event (ProviderRelay from_p from_m to_p to_m prompt moved) ts change tml = do {
     (turn, tml1) \<leftarrow> begin_user_turn tml;
     (key, tml2) \<leftarrow> synthetic_id ''relay'' ts tml1;
     Some (push_entry key (EntryProviderRelay from_p from_m to_p to_m prompt moved) ts turn tml2) }"
| "apply_event (SessionStarted psid resume model) ts change tml =
     (let tml1 = tml\<lparr>tl_provider_session_id := Some psid, tl_resume := Some resume\<rparr>;
          tml2 = (if model \<noteq> None then tml1\<lparr>tl_model := model\<rparr> else tml1)
      in Some (tml2\<lparr>tl_last_served_model := tl_model tml2\<rparr>))"
| "apply_event (ServedModel model reason) ts change tml = serve_model ts model reason tml"
| "apply_event (TurnStarted tid) ts change tml = start_turn ts tid tml"
| "apply_event (TurnAccepted _) ts change tml = Some tml"
| "apply_event McpServersNotAttached ts change tml = Some tml"
| "apply_event (BackgroundTasksChanged _) ts change tml = Some tml"
| "apply_event (ModelFallbackDetected _ _ _ _ _) ts change tml = Some tml"
| "apply_event (TurnBlocked _ _ _) ts change tml = Some tml"
| "apply_event (TurnChangesUpdated tid changes completeness) ts change tml =
     update_target (bc_target change) (\<lambda>m.
       (if tid \<noteq> [] then m\<lparr>tm_provider_turn_id := Some tid\<rparr> else m)
         \<lparr>tm_changes := Some \<lparr>cs_changes = changes, cs_completeness = completeness\<rparr>\<rparr>) tml"
| "apply_event (TurnCheckpoint tid checkpoint) ts change tml =
     update_target (bc_target change) (\<lambda>m.
       m\<lparr>tm_provider_turn_id := Some tid, tm_provider_checkpoint_id := Some checkpoint\<rparr>) tml"
| "apply_event (RewindCompleted checkpoint mode _) ts change tml =
     Some (if includes_conversation mode
           then (case bc_rewind change of None \<Rightarrow> tml | Some target \<Rightarrow> rewind_conversation target tml)
           else tml)"
| "apply_event (RewindFailed _ _ _) ts change tml = Some tml"
| "apply_event (TurnCompleted _ status usage) ts change tml = complete_turn ts status usage tml"
| "apply_event (ItemStarted item) ts change tml = do {
     tml1 \<leftarrow> upsert_item ts item tml;
     Some (track_tool_item ts item LifecycleStarted tml1) }"
| "apply_event (ItemUpdated item) ts change tml = do {
     tml1 \<leftarrow> upsert_item ts item tml;
     Some (track_tool_item ts item LifecycleUpdated tml1) }"
| "apply_event (ItemCompleted item) ts change tml = do {
     tml1 \<leftarrow> upsert_item ts item tml;
     commit_file_change item (track_tool_item ts item LifecycleCompleted tml1) }"
| "apply_event (SteerRequested rid steer_text attachments) ts change tml =
     request_steer ts rid steer_text attachments tml"
| "apply_event (SteerAccepted rid) ts change tml = accept_steer rid (bc_target change) tml"
| "apply_event (SteerRejected rid) ts change tml = Some (reject_steer rid tml)"
| "apply_event (Delta item_id kind d) ts change tml = apply_delta ts item_id kind d tml"
| "apply_event (ApprovalRequested request) ts change tml =
     Some (if list_ex (\<lambda>r. ar_id r = ar_id request) (tl_pending_approvals tml) then tml
           else tml\<lparr>tl_pending_approvals := tl_pending_approvals tml @ [request]\<rparr>)"
| "apply_event (ApprovalResolved rid _) ts change tml =
     Some (tml\<lparr>tl_pending_approvals := filter (\<lambda>r. ar_id r \<noteq> rid) (tl_pending_approvals tml)\<rparr>)"
| "apply_event (UserInputRequested rid questions delivery) ts change tml =
     Some (tml\<lparr>tl_pending_user_input :=
       Some \<lparr>pu_request_id = rid, pu_questions = questions, pu_delivery = delivery\<rparr>\<rparr>)"
| "apply_event (UserInputResolved rid _) ts change tml =
     Some (case tl_pending_user_input tml of
             None \<Rightarrow> tml
           | Some p \<Rightarrow> if pu_request_id p = rid then tml\<lparr>tl_pending_user_input := None\<rparr> else tml)"
| "apply_event (TokenUsage usage) ts change tml =
     Some (tml\<lparr>tl_usage := Some (observed_usage (tl_usage tml) usage)\<rparr>)"
| "apply_event (Warning _) ts change tml = Some tml"
| "apply_event (PlanResolved _ _) ts change tml = Some tml"
| "apply_event (ProviderStartFailed err) ts change tml =
     push_system_row ''error'' (EntryProviderStartError err) ts tml"
| "apply_event (Error message _) ts change tml =
     push_system_row ''error'' (EntryError message None) ts tml"
| "apply_event (UsageLimitReached resets_at) ts change tml =
     Some (case rposition (\<lambda>e. is_error_entry (te_content e)) (tl_entries tml) of
             None \<Rightarrow> tml
           | Some i \<Rightarrow> tml\<lparr>tl_entries := (tl_entries tml)[i := (tl_entries tml ! i)
               \<lparr>te_content := limit_error resets_at (te_content (tl_entries tml ! i))\<rparr>]\<rparr>)"
| "apply_event (SessionClosed reason) ts change tml = close_session ts reason tml"
| "apply_event (PlanUpdated _ explanation steps) ts change tml =
     Some (tml\<lparr>tl_plan_steps := steps, tl_plan_explanation := explanation\<rparr>)"
| "apply_event (GoalUpdated g) ts change tml = Some (tml\<lparr>tl_goal := g\<rparr>)"
| "apply_event (ProposedPlanDelta item_id d) ts change tml =
     apply_delta ts item_id AssistantText d tml"
| "apply_event (ProposedPlan item_id markdown) ts change tml =
     upsert_item ts \<lparr>ti_id = item_id, ti_parent_item_id = None,
                     ti_content = AssistantMessage markdown False\<rparr> tml"
| "apply_event (ControlAction action) ts change tml =
     push_system_row ''control'' (EntryControlAction action) ts tml"
| "apply_event (ContextCompacted c) ts change tml = compact_context ts c tml"
| "apply_event (ContextWindowChanged window) ts change tml =
     push_system_row ''context-window'' (EntryContextWindowChanged window) ts tml"
| "apply_event (ProviderCommands _) ts change tml = Some tml"
| "apply_event (ProviderOptions _ _) ts change tml = Some tml"

text \<open>
  \<open>apply_at\<close>: raise the open turn's watermark (the completion itself excluded), let the policy
  decide, open the turn it opened, then apply the payload.
\<close>

definition apply_at :: "u64 option \<Rightarrow> 'j agent_event \<Rightarrow> 'j timeline \<Rightarrow> 'j timeline option" where
  "apply_at ts event tml =
     (let tml1 = (if turn_is_open tml \<and> \<not> is_turn_completed event
                  then tml\<lparr>tl_tool_clock := tc_observe ts (tl_tool_clock tml)\<rparr> else tml)
      in do {
        (b, change) \<leftarrow> tb_apply event (tl_boundaries tml1);
        let tml2 = tml1\<lparr>tl_boundaries := b\<rparr>;
        apply_event event ts change (if bc_opened change then push_turn ts tml2 else tml2) })"

definition apply_stored :: "'j stored_event \<Rightarrow> 'j timeline \<Rightarrow> 'j timeline option" where
  "apply_stored stored tml =
     (let tml1 = (case se_elided stored of
            None \<Rightarrow> tml
          | Some bytes \<Rightarrow> (case se_item_id stored of
              None \<Rightarrow> tml
            | Some item_id \<Rightarrow>
                tml\<lparr>tl_elided_outputs := (tl_elided_outputs tml)(item_id \<mapsto> bytes)\<rparr>))
      in apply_at (se_ts stored) (se_event stored) tml1)"

definition fold_stored :: "'j stored_event list \<Rightarrow> 'j timeline option" where
  "fold_stored records = fold_opt apply_stored records timeline_default"

subsection \<open>Liveness taken from the host\<close>

definition mark_idle :: "'j timeline \<Rightarrow> 'j timeline" where
  "mark_idle tml = tml\<lparr>tl_turn_retry := None,
     tl_boundaries := tb_settle_running None (tl_boundaries tml),
     tl_turn_running := False, tl_pending_approvals := [], tl_pending_user_input := None,
     tl_turns := map (\<lambda>t. t\<lparr>tm_running := False\<rparr>) (tl_turns tml)\<rparr>"

definition running_turn_of :: "'j timeline \<Rightarrow> running_turn option option" where
  "running_turn_of tml = (case last_index (tl_turns tml) of
      None \<Rightarrow> Some None
    | Some turn \<Rightarrow> map_option (\<lambda>t.
        if tl_turn_running tml \<and> tm_running t
        then Some \<lparr>rt_turn = of_nat turn, rt_started_at = tm_start_ts t\<rparr> else None)
        (index (tl_turns tml) turn))"

definition settle_running_turn :: "bool \<Rightarrow> nat option \<Rightarrow> u64 option \<Rightarrow> 'j timeline \<Rightarrow>
    'j timeline option" where
  "settle_running_turn turn_running running started_at tml =
     (let running' = (case running of
            None \<Rightarrow> None
          | Some turn \<Rightarrow> if turn_running \<and> turn < length (tl_turns tml) then Some turn else None);
          tml1 = tml\<lparr>tl_turn_running := turn_running,
            tl_boundaries := tb_settle_running running' (tl_boundaries tml),
            tl_turns := map (\<lambda>(i, t). t\<lparr>tm_running := (running' = Some i)\<rparr>)
              (enumerate 0 (tl_turns tml))\<rparr>
      in case running' of
           None \<Rightarrow> Some tml1
         | Some turn \<Rightarrow> (case started_at of
             None \<Rightarrow> Some tml1
           | Some t \<Rightarrow> update_turn turn (\<lambda>m. m\<lparr>tm_start_ts := Some t\<rparr>) tml1))"

text \<open>The first user message, which titles the session.\<close>

definition user_text :: "'j entry_content \<Rightarrow> string option" where
  "user_text c = (case c of
      EntryItem (UserMessage t _ _) \<Rightarrow> Some t | EntrySteer t _ _ _ \<Rightarrow> Some t | _ \<Rightarrow> None)"

definition first_user_message :: "'j timeline \<Rightarrow> string option" where
  "first_user_message tml = find_map (\<lambda>e. user_text (te_content e)) (tl_entries tml)"

end
