(* ===== verification/Entry_Index.thy ===== *)
theory Entry_Index
  imports Timeline
begin

section \<open>Entry lookup and fresh entry ids\<close>

text \<open>
  The cached lookup \<open>first_entry\<close> of \<^verbatim>\<open>crates/core/src/session.rs\<close> against the linear search it
  replaces, and the search for an unused entry id that relies on it. The interface between the two
  is the locale \<open>id_lookup\<close>: a lookup answers membership in the ids of a state and leaves them alone.
\<close>

subsection \<open>The cache is the linear search\<close>

lemma position_hit: "position (\<lambda>x. x = k) xs = Some p \<Longrightarrow> p < length xs \<and> xs ! p = k"
  by (simp add: position_Some_iff)

text \<open>A sound index: it covers a prefix, and maps exactly the ids of the prefix to their first place.\<close>

definition index_ok :: "string list \<Rightarrow> entry_index \<Rightarrow> bool" where
  "index_ok ids idx \<longleftrightarrow> ei_covered idx \<le> length ids
     \<and> ei_first idx = (\<lambda>k. position (\<lambda>x. x = k) (take (ei_covered idx) ids))"

definition full_index :: "string list \<Rightarrow> entry_index" where
  "full_index ids = \<lparr>ei_first = (\<lambda>k. position (\<lambda>x. x = k) ids), ei_covered = length ids\<rparr>"

lemma index_ok_default [simp]: "index_ok ids entry_index_default"
  by (auto simp: index_ok_def entry_index_default_def)

lemma index_ok_full [simp]: "index_ok ids (full_index ids)"
  by (simp add: index_ok_def full_index_def)

lemma index_ok_append: "index_ok ids idx \<Longrightarrow> index_ok (ids @ rest) idx"
  by (simp add: index_ok_def)

lemma extend_prefix:
  assumes "c \<le> n" and "n \<le> length ids"
  shows "foldl (\<lambda>m p. if m (ids ! p) = None then m(ids ! p \<mapsto> p) else m)
    (\<lambda>k. position (\<lambda>x. x = k) (take c ids)) [c..<n] = (\<lambda>k. position (\<lambda>x. x = k) (take n ids))"
  using assms
proof (induction n)
  case 0
  then show ?case by simp
next
  case (Suc n)
  show ?case
  proof (cases "c \<le> n")
    case True
    with Suc show ?thesis
      by (auto simp: take_Suc_conv_app_nth position_append fun_eq_iff split: option.split)
  next
    case False
    with Suc.prems have "c = Suc n" by simp
    then show ?thesis by simp
  qed
qed

lemma ei_extend_full: "index_ok ids idx \<Longrightarrow> ei_extend ids idx = full_index ids"
  using extend_prefix [of "ei_covered idx" "length ids" ids]
  by (simp add: ei_extend_def full_index_def index_ok_def)

lemma first_entry_at_linear:
  assumes "index_ok ids idx"
  shows "first_entry_at ids idx key = Some (position (\<lambda>x. x = key) ids, full_index ids)"
proof -
  have "\<not> length ids < ei_covered idx" using assms by (simp add: index_ok_def)
  with ei_extend_full [OF assms] show ?thesis
    by (subst first_entry_at.simps)
      (auto simp: full_index_def Let_def dest: position_hit split: option.split)
qed

text \<open>
  An index that is too long, as after entries were removed behind its back, is thrown away, and the
  answer is the linear search again.
\<close>

lemma first_entry_at_overlong:
  assumes "length ids < ei_covered idx"
  shows "first_entry_at ids idx key = Some (position (\<lambda>x. x = key) ids, full_index ids)"
proof -
  have "ei_extend ids entry_index_default = full_index ids"
    by (rule ei_extend_full) simp
  with assms show ?thesis
    by (subst first_entry_at.simps)
      (auto simp: full_index_def Let_def dest: position_hit split: option.split)
qed

text \<open>
  Whatever the index holds, as long as its positions are in range, a lookup returns after at most
  one restart, and a position it returns does hold the id.
\<close>

definition index_in_range :: "string list \<Rightarrow> entry_index \<Rightarrow> bool" where
  "index_in_range ids idx \<longleftrightarrow> (\<forall>k p. ei_first idx k = Some p \<longrightarrow> p < length ids)"

lemma extend_in_range:
  assumes "\<forall>k p. m k = Some p \<longrightarrow> p < length ids" and "\<forall>p \<in> set ps. p < length ids"
  shows "\<forall>k p. foldl (\<lambda>m p. if m (ids ! p) = None then m(ids ! p \<mapsto> p) else m) m ps k = Some p
    \<longrightarrow> p < length ids"
  using assms
proof (induction ps arbitrary: m)
  case Nil
  then show ?case by simp
next
  case (Cons a ps)
  let ?m = "if m (ids ! a) = None then m(ids ! a \<mapsto> a) else m"
  have "\<forall>k p. ?m k = Some p \<longrightarrow> p < length ids" using Cons.prems by auto
  from Cons.IH [OF this] Cons.prems(2) show ?case by simp
qed

lemma first_entry_at_returns:
  assumes "index_in_range ids idx"
  shows "\<exists>r idx'. first_entry_at ids idx key = Some (r, idx')
    \<and> (\<forall>p. r = Some p \<longrightarrow> p < length ids \<and> ids ! p = key)"
proof (cases "length ids < ei_covered idx")
  case True
  then show ?thesis by (auto simp: first_entry_at_overlong position_Some_iff)
next
  case False
  show ?thesis
  proof (cases "ei_first (ei_extend ids idx) key")
    case None
    with False show ?thesis by (subst first_entry_at.simps) (auto simp: Let_def)
  next
    case (Some p)
    have "p < length ids"
      using extend_in_range [of "ei_first idx" ids "[ei_covered idx..<length ids]"] assms Some
      by (auto simp: ei_extend_def index_in_range_def)
    moreover have "first_entry_at ids entry_index_default key
        = Some (position (\<lambda>x. x = key) ids, full_index ids)"
      by (rule first_entry_at_linear) simp
    ultimately show ?thesis using Some False
      by (subst first_entry_at.simps) (auto simp: position_Some_iff Let_def)
  qed
qed

subsection \<open>The lookup of a timeline\<close>

definition entries_indexed :: "'j timeline \<Rightarrow> bool" where
  "entries_indexed tml \<longleftrightarrow> index_ok (entry_ids tml) (tl_entry_index tml)"

text \<open>Two timelines that differ in the cache at most.\<close>

definition same_but_index :: "'j timeline \<Rightarrow> 'j timeline \<Rightarrow> bool" where
  "same_but_index tml tml' \<longleftrightarrow> (\<exists>idx. tml' = tml\<lparr>tl_entry_index := idx\<rparr>)"

lemma same_but_index_refl: "same_but_index tml tml"
  unfolding same_but_index_def by (rule exI [of _ "tl_entry_index tml"]) simp

lemma same_but_index_trans: "same_but_index a b \<Longrightarrow> same_but_index b c \<Longrightarrow> same_but_index a c"
  by (auto simp: same_but_index_def)

lemma first_entry_spec:
  assumes "entries_indexed tml"
  shows "first_entry tml key =
    Some (position (\<lambda>e. te_id e = key) (tl_entries tml), tml\<lparr>tl_entry_index := full_index (entry_ids tml)\<rparr>)"
  using first_entry_at_linear [of "entry_ids tml" "tl_entry_index tml" key] assms
  by (simp add: first_entry_def entries_indexed_def entry_ids_def position_map comp_def)

lemma entries_indexed_full [simp]:
  "entries_indexed (tml\<lparr>tl_entry_index := full_index (entry_ids tml)\<rparr>)"
  by (simp add: entries_indexed_def entry_ids_def)

subsection \<open>Searching an unused id\<close>

locale id_lookup =
  fixes known :: "'s \<Rightarrow> string \<Rightarrow> (bool \<times> 's) option"
    and ids :: "'s \<Rightarrow> string list"
    and ok :: "'s \<Rightarrow> bool"
    and same :: "'s \<Rightarrow> 's \<Rightarrow> bool"
  assumes known_answers: "ok s \<Longrightarrow> \<exists>s'. known s key = Some (key \<in> set (ids s), s') \<and> ok s' \<and> same s s'"
    and same_ids: "same s s' \<Longrightarrow> ids s' = ids s"
    and same_refl: "same s s"
    and same_trans: "same s s' \<Longrightarrow> same s' s'' \<Longrightarrow> same s s''"
begin

text \<open>The suffixes that are taken from \<open>d\<close> on: finitely many, since formatting is injective.\<close>

definition taken :: "string \<Rightarrow> 's \<Rightarrow> nat \<Rightarrow> nat set" where
  "taken base s d = {n. d \<le> n \<and> base @ ''-'' @ decimal n \<in> set (ids s)}"

lemma finite_taken [simp]: "finite (taken base s d)"
proof -
  have "taken base s d \<subseteq> (\<lambda>n. base @ ''-'' @ decimal n) -` set (ids s)"
    by (auto simp: taken_def)
  moreover have "finite ((\<lambda>n. base @ ''-'' @ decimal n) -` set (ids s))"
    by (rule finite_vimageI) (auto simp: inj_def)
  ultimately show ?thesis by (rule finite_subset)
qed

lemma unused_id_returns:
  assumes "ok s"
  shows "\<exists>key' s'. unused_id known base d key s = Some (key', s')
    \<and> key' \<notin> set (ids s) \<and> ok s' \<and> same s s'
    \<and> (key' = key \<or> (\<exists>n\<ge>d. key' = base @ ''-'' @ decimal n))"
  using assms
proof (induction "card (taken base s d) + (if key \<in> set (ids s) then 1 else 0)"
    arbitrary: d key s rule: less_induct)
  case less
  from known_answers [OF less.prems, of key] obtain s1 where
    s1: "known s key = Some (key \<in> set (ids s), s1)" "ok s1" "same s s1" by blast
  show ?case
  proof (cases "key \<in> set (ids s)")
    case False
    with s1 show ?thesis by (subst unused_id.simps) auto
  next
    case True
    let ?next = "base @ ''-'' @ decimal d"
    have ids1: "ids s1 = ids s" using s1(3) by (rule same_ids)
    have split: "taken base s d = taken base s1 (d + 1) \<union> (if ?next \<in> set (ids s) then {d} else {})"
      by (auto simp: taken_def ids1 Suc_le_eq le_eq_less_or_eq)
    have "d \<notin> taken base s1 (d + 1)" by (simp add: taken_def)
    with split have "card (taken base s d)
        = card (taken base s1 (d + 1)) + (if ?next \<in> set (ids s) then 1 else 0)"
      by auto
    with True ids1 have "card (taken base s1 (d + 1)) + (if ?next \<in> set (ids s1) then 1 else 0)
        < card (taken base s d) + (if key \<in> set (ids s) then 1 else 0)"
      by simp
    from less.hyps [OF this s1(2)] obtain key' s' where
      "unused_id known base (d + 1) ?next s1 = Some (key', s')" "key' \<notin> set (ids s)" "ok s'"
      "same s1 s'" "key' = ?next \<or> (\<exists>n\<ge>d + 1. key' = base @ ''-'' @ decimal n)"
      unfolding ids1 by blast
    moreover from this(5) have "\<exists>n\<ge>d. key' = base @ ''-'' @ decimal n"
      by (metis Suc_eq_plus1 Suc_leD le_refl)
    ultimately show ?thesis
      using s1 True same_trans [OF s1(3), of s'] by (subst unused_id.simps) auto
  qed
qed

lemma synthetic_entry_id_returns:
  assumes "ok s"
  shows "\<exists>key n s'. synthetic_entry_id prefix ts next_id known s = Some (key, n, s')
    \<and> ok s' \<and> same s s' \<and> (ts \<noteq> None \<longrightarrow> key \<notin> set (ids s) \<and> n = next_id)"
  using unused_id_returns [OF assms, of _ 1] assms same_refl [of s]
  by (cases ts) (auto simp: synthetic_entry_id_def Let_def, blast)

end

interpretation tl_ids: id_lookup entry_known entry_ids entries_indexed same_but_index
proof
  fix s :: "'a timeline" and key
  assume "entries_indexed s"
  then show "\<exists>s'. entry_known s key = Some (key \<in> set (entry_ids s), s') \<and> entries_indexed s'
      \<and> same_but_index s s'"
    using position_None_iff [of "\<lambda>e. te_id e = key" "tl_entries s"]
    by (auto simp: entry_known_def first_entry_spec same_but_index_def entries_indexed_def
        entry_ids_def)
next
  show "same_but_index s s" for s :: "'a timeline" by (rule same_but_index_refl)
qed (auto simp: same_but_index_def entry_ids_def)

lemma synthetic_id_spec:
  assumes "entries_indexed tml"
  shows "\<exists>key idx n. synthetic_id prefix ts tml
      = Some (key, tml\<lparr>tl_entry_index := idx, tl_next_synthetic_id := n\<rparr>)
    \<and> index_ok (entry_ids tml) idx \<and> (ts \<noteq> None \<longrightarrow> key \<notin> set (entry_ids tml))"
proof -
  from tl_ids.synthetic_entry_id_returns [OF assms, of prefix ts "tl_next_synthetic_id tml"]
  obtain key n tml' where "synthetic_entry_id prefix ts (tl_next_synthetic_id tml) entry_known tml
      = Some (key, n, tml')" "entries_indexed tml'" "same_but_index tml tml'"
    "ts \<noteq> None \<longrightarrow> key \<notin> set (entry_ids tml)" by blast
  then show ?thesis
    by (auto simp: synthetic_id_def same_but_index_def entries_indexed_def entry_ids_def)
qed

end
