(* ===== verification/Timeline_Correct.thy ===== *)
theory Timeline_Correct
  imports Entry_Index
begin

section \<open>The timeline fold never panics\<close>

text \<open>
  The invariant of \<open>Timeline\<close> (\<^verbatim>\<open>crates/core/src/session.rs\<close>): its boundaries are the projection
  of its turns, every entry belongs to a turn that exists, and the entry index is sound. Every
  event keeps it and none panics, so that folding any log returns a timeline.
\<close>

subsection \<open>The invariant\<close>

text \<open>What the policy sees of a turn.\<close>

definition turn_boundary :: "turn_meta \<Rightarrow> boundary" where
  "turn_boundary t = \<lparr>bd_provider = tm_provider_turn_id t, bd_checkpoint = tm_provider_checkpoint_id t,
     bd_closed = (tm_status t \<noteq> None), bd_running = tm_running t\<rparr>"

definition compacting :: "token_usage option \<Rightarrow> bool" where
  "compacting usage \<longleftrightarrow> (case usage of None \<Rightarrow> False | Some u \<Rightarrow> tu_freshness u = Compacting)"

definition entries_placed :: "'j timeline \<Rightarrow> bool" where
  "entries_placed tml \<longleftrightarrow> (\<forall>e \<in> set (tl_entries tml). te_turn e < length (tl_turns tml))"

definition tl_ok :: "'j timeline \<Rightarrow> bool" where
  "tl_ok tml \<longleftrightarrow> tb_ok (tl_boundaries tml)
     \<and> tb_turns (tl_boundaries tml) = map turn_boundary (tl_turns tml)
     \<and> tb_compacting (tl_boundaries tml) = compacting (tl_usage tml)
     \<and> entries_placed tml \<and> entries_indexed tml"

lemma turn_boundary_open [simp]: "turn_boundary (turn_meta_open ts) = boundary_default"
  by (simp add: turn_boundary_def turn_meta_open_def boundary_default_def)

lemma compacting_simps [simp]:
  "\<not> compacting None" "compacting (Some u) \<longleftrightarrow> tu_freshness u = Compacting"
  by (simp_all add: compacting_def)

lemma tl_ok_default [simp]: "tl_ok timeline_default"
  by (simp add: tl_ok_def timeline_default_def entries_placed_def entries_indexed_def
      entry_ids_def turn_boundaries_default_def tb_ok_def)

subsection \<open>Operations that only touch rows\<close>

text \<open>
  The half of the invariant that an operation on the rows has to restore, and the half it leaves
  alone: the boundaries, what they show of the turns, and the usage.
\<close>

definition rows_ok :: "'j timeline \<Rightarrow> bool" where
  "rows_ok tml \<longleftrightarrow> entries_placed tml \<and> entries_indexed tml
     \<and> length (tb_turns (tl_boundaries tml)) = length (tl_turns tml)"

definition same_turns :: "'j timeline \<Rightarrow> 'j timeline \<Rightarrow> bool" where
  "same_turns tml tml' \<longleftrightarrow> tl_boundaries tml' = tl_boundaries tml
     \<and> map turn_boundary (tl_turns tml') = map turn_boundary (tl_turns tml)
     \<and> tl_usage tml' = tl_usage tml"

text \<open>A step that returns, restores the one and keeps the other.\<close>

definition row_step :: "'j timeline \<Rightarrow> 'j timeline option \<Rightarrow> bool" where
  "row_step tml r \<longleftrightarrow> (\<exists>tml'. r = Some tml' \<and> rows_ok tml' \<and> same_turns tml tml')"

lemma row_stepI [intro?]:
  "r = Some tml' \<Longrightarrow> rows_ok tml' \<Longrightarrow> same_turns tml tml' \<Longrightarrow> row_step tml r"
  by (auto simp: row_step_def)

lemma row_stepE:
  assumes "row_step tml r"
  obtains tml' where "r = Some tml'" "rows_ok tml'" "same_turns tml tml'"
  using assms by (auto simp: row_step_def)

lemma same_turns_refl [simp]: "same_turns tml tml"
  by (simp add: same_turns_def)

lemma same_turns_trans: "same_turns a b \<Longrightarrow> same_turns b c \<Longrightarrow> same_turns a c"
  by (simp add: same_turns_def)

lemma same_turns_length: "same_turns a b \<Longrightarrow> length (tl_turns b) = length (tl_turns a)"
  by (metis length_map same_turns_def)

lemma same_turns_current: "same_turns a b \<Longrightarrow> tl_boundaries b = tl_boundaries a"
  by (simp add: same_turns_def)

lemma row_step_bind:
  assumes "row_step tml r" and "\<And>tml1. rows_ok tml1 \<Longrightarrow> same_turns tml tml1 \<Longrightarrow> row_step tml1 (f tml1)"
  shows "row_step tml (Option.bind r f)"
  using assms same_turns_trans by (fastforce simp: row_step_def)

lemma row_step_same: "same_turns tml tml1 \<Longrightarrow> row_step tml1 r \<Longrightarrow> row_step tml r"
  using same_turns_trans by (fastforce simp: row_step_def)

lemma rows_ok_placed: "rows_ok tml \<Longrightarrow> e \<in> set (tl_entries tml) \<Longrightarrow> te_turn e < length (tl_turns tml)"
  by (simp add: rows_ok_def entries_placed_def)

lemma rows_ok_placed_nth:
  "rows_ok tml \<Longrightarrow> p < length (tl_entries tml) \<Longrightarrow> te_turn (tl_entries tml ! p) < length (tl_turns tml)"
  by (simp add: rows_ok_placed)

lemma rows_ok_indexed: "rows_ok tml \<Longrightarrow> entries_indexed tml"
  by (simp add: rows_ok_def)

lemma ensure_turn_spec:
  assumes "rows_ok tml" and "tb_turns (tl_boundaries tml) \<noteq> []"
  obtains turn where "ensure_turn tml = Some turn" "turn < length (tl_turns tml)"
  using assms last_index_less [of "tb_turns (tl_boundaries tml)"]
  by (cases "tb_current (tl_boundaries tml)")
    (auto simp: ensure_turn_def tb_current_def rows_ok_def)

lemma rows_ok_simps [simp]:
  "rows_ok (tml\<lparr>tl_turn_retry := a\<rparr>) = rows_ok tml"
  "rows_ok (tml\<lparr>tl_tool_clock := b\<rparr>) = rows_ok tml"
  "rows_ok (tml\<lparr>tl_committed := c\<rparr>) = rows_ok tml"
  "rows_ok (tml\<lparr>tl_usage := d\<rparr>) = rows_ok tml"
  "rows_ok (tml\<lparr>tl_next_synthetic_id := n\<rparr>) = rows_ok tml"
  "rows_ok (tml\<lparr>tl_turn_running := e\<rparr>) = rows_ok tml"
  "rows_ok (tml\<lparr>tl_last_turn_status := f\<rparr>) = rows_ok tml"
  "rows_ok (tml\<lparr>tl_pending_approvals := g\<rparr>) = rows_ok tml"
  "rows_ok (tml\<lparr>tl_pending_user_input := h\<rparr>) = rows_ok tml"
  "rows_ok (tml\<lparr>tl_last_served_model := i\<rparr>) = rows_ok tml"
  by (simp_all add: rows_ok_def entries_placed_def entries_indexed_def entry_ids_def)

lemma rows_ok_index: "rows_ok tml \<Longrightarrow> index_ok (entry_ids tml) idx \<Longrightarrow> rows_ok (tml\<lparr>tl_entry_index := idx\<rparr>)"
  by (simp add: rows_ok_def entries_placed_def entries_indexed_def entry_ids_def)

lemma rows_ok_push [simp]:
  "rows_ok tml \<Longrightarrow> turn < length (tl_turns tml) \<Longrightarrow> rows_ok (push_entry key content ts turn tml)"
  by (auto simp: rows_ok_def entries_placed_def entries_indexed_def entry_ids_def push_entry_def
      index_ok_append)

text \<open>Rewriting the content of an entry, or dropping entries together with the index.\<close>

lemma rows_ok_content:
  assumes "rows_ok tml" and "p < length (tl_entries tml)"
  shows "rows_ok (tml\<lparr>tl_entries := (tl_entries tml)[p := (tl_entries tml ! p)\<lparr>te_content := c\<rparr>]\<rparr>)"
proof -
  have "map te_id ((tl_entries tml)[p := (tl_entries tml ! p)\<lparr>te_content := c\<rparr>])
      = map te_id (tl_entries tml)"
    using assms(2) by (simp add: map_update) (metis list_update_id nth_map)
  with assms show ?thesis
    by (auto simp: rows_ok_def entries_placed_def entries_indexed_def entry_ids_def
        dest!: set_update_subset_insert [THEN subsetD])
qed

lemma rows_ok_reindex:
  assumes "rows_ok tml" and "\<And>e. e \<in> set es \<Longrightarrow> te_turn e < length (tl_turns tml)"
  shows "rows_ok (tml\<lparr>tl_entries := es, tl_entry_index := entry_index_default\<rparr>)"
    and "rows_ok (tml\<lparr>tl_entry_index := entry_index_default, tl_entries := es\<rparr>)"
  using assms by (auto simp: rows_ok_def entries_placed_def entries_indexed_def)

lemma same_turns_simps [simp]:
  "same_turns tml (tml\<lparr>tl_turn_retry := a\<rparr>)"
  "same_turns tml (tml\<lparr>tl_tool_clock := b\<rparr>)"
  "same_turns tml (tml\<lparr>tl_committed := c\<rparr>)"
  "same_turns tml (tml\<lparr>tl_entry_index := d\<rparr>)"
  "same_turns tml (tml\<lparr>tl_entries := e\<rparr>)"
  "same_turns tml (tml\<lparr>tl_entries := e, tl_entry_index := d\<rparr>)"
  "same_turns tml (tml\<lparr>tl_entry_index := d, tl_entries := e\<rparr>)"
  "same_turns tml (tml\<lparr>tl_entry_index := d, tl_next_synthetic_id := n\<rparr>)"
  "same_turns tml (push_entry key content ts turn tml)"
  by (simp_all add: same_turns_def push_entry_def)

subsection \<open>Row operations\<close>

lemma synthetic_id_rows:
  assumes "rows_ok tml"
  obtains key tml' where "synthetic_id prefix ts tml = Some (key, tml')" "rows_ok tml'"
    "same_turns tml tml'" "tl_turns tml' = tl_turns tml"
  using synthetic_id_spec [OF rows_ok_indexed [OF assms], of prefix ts] assms
  by (auto simp: rows_ok_index)

lemma first_entry_rows:
  assumes "rows_ok tml"
  obtains pos tml' where "first_entry tml key = Some (pos, tml')" "rows_ok tml'"
    "same_turns tml tml'" "tl_entries tml' = tl_entries tml" "tl_turns tml' = tl_turns tml"
    "pos = position (\<lambda>e. te_id e = key) (tl_entries tml')"
  using first_entry_spec [OF rows_ok_indexed [OF assms], of key] assms
  by (auto simp: rows_ok_index)

lemma push_system_row_step [panic_free]:
  assumes "rows_ok tml" and "tb_turns (tl_boundaries tml) \<noteq> []"
  shows "row_step tml (push_system_row prefix content ts tml)"
proof -
  from ensure_turn_spec [OF assms] obtain turn where
    turn: "ensure_turn tml = Some turn" "turn < length (tl_turns tml)" .
  from synthetic_id_rows [OF assms(1), of prefix ts] obtain key tml' where
    "synthetic_id prefix ts tml = Some (key, tml')" "rows_ok tml'" "same_turns tml tml'"
    "tl_turns tml' = tl_turns tml" .
  with turn show ?thesis
    by (intro row_stepI [of _ "push_entry key content ts turn tml'"])
      (auto simp: push_system_row_def intro: same_turns_trans)
qed

lemma upsert_item_step [panic_free]:
  assumes "rows_ok tml" and "ti_parent_item_id item = None \<Longrightarrow> tb_turns (tl_boundaries tml) \<noteq> []"
  shows "row_step tml (upsert_item ts item tml)"
proof (cases "ti_parent_item_id item")
  case (Some a)
  with assms show ?thesis by (auto simp: upsert_item_def row_step_def)
next
  case None
  from first_entry_rows [OF assms(1), of "ti_id item"] obtain pos tml1 where
    f: "first_entry tml (ti_id item) = Some (pos, tml1)" "rows_ok tml1" "same_turns tml tml1"
      "pos = position (\<lambda>e. te_id e = ti_id item) (tl_entries tml1)" .
  have "tb_turns (tl_boundaries tml1) \<noteq> []"
    using assms(2) [OF None] same_turns_current [OF f(3)] by simp
  from ensure_turn_spec [OF f(2) this] obtain turn where
    turn: "ensure_turn tml1 = Some turn" "turn < length (tl_turns tml1)" .
  have b: "begin_user_turn tml1 = Some (turn, tml1\<lparr>tl_turn_retry := None\<rparr>)"
    using turn(1) by (simp add: begin_user_turn_def ensure_turn_def)
  have retry: "same_turns tml (push_entry k c ts turn (tml1\<lparr>tl_turn_retry := None\<rparr>))" for k c
    by (rule same_turns_trans [OF f(3) same_turns_trans]) (rule same_turns_simps(1) same_turns_simps(9))+
  show ?thesis
  proof (cases pos)
    case (Some p)
    then have "p < length (tl_entries tml1)" using f(4) by (simp add: position_less)
    then show ?thesis
      using f(1-3) None Some
      by (auto simp: upsert_item_def row_step_def rows_ok_content intro: same_turns_trans)
  next
    case pos: None
    show ?thesis
      using f(1-3) None pos turn b retry
      by (auto simp: upsert_item_def row_step_def intro: same_turns_trans)
  qed
qed

lemma item_turn_rows:
  assumes "rows_ok tml"
  obtains turn tml' where "item_turn key tml = Some (turn, tml')" "rows_ok tml'" "same_turns tml tml'"
    "\<And>t. turn = Some t \<Longrightarrow> t < length (tl_turns tml')"
proof -
  from first_entry_rows [OF assms, of key] obtain pos tml' where
    f: "first_entry tml key = Some (pos, tml')" "rows_ok tml'" "same_turns tml tml'"
      "pos = position (\<lambda>e. te_id e = key) (tl_entries tml')" .
  show ?thesis
  proof (cases pos)
    case None
    with f show ?thesis by (intro that [of None tml']) (auto simp: item_turn_def)
  next
    case (Some p)
    then have "p < length (tl_entries tml')" using f(4) by (simp add: position_less)
    with f(1-3) Some rows_ok_placed_nth [OF f(2)] show ?thesis
      by (intro that [of "Some (te_turn (tl_entries tml' ! p))" tml']) (auto simp: item_turn_def)
  qed
qed

lemma update_turn_changes:
  assumes "rows_ok tml" and "turn < length (tl_turns tml)" and "\<And>m. turn_boundary (f m) = turn_boundary m"
  shows "row_step tml (update_turn turn f tml)"
proof -
  have "map turn_boundary ((tl_turns tml)[turn := f (tl_turns tml ! turn)]) = map turn_boundary (tl_turns tml)"
    using assms(2,3) by (simp add: map_update) (metis list_update_id nth_map)
  with assms(1,2) show ?thesis
    by (auto simp: row_step_def update_turn_def same_turns_def rows_ok_def entries_placed_def
        entries_indexed_def entry_ids_def)
qed

lemma commit_file_change_step [panic_free]:
  assumes "rows_ok tml"
  shows "row_step tml (commit_file_change item tml)"
proof (cases "\<exists>changes. ti_content item = FileChange changes Completed")
  case False
  then have "commit_file_change item tml = Some tml"
    by (auto simp: commit_file_change_def split: item_content.split item_status.split)
  with assms show ?thesis by (simp add: row_step_def)
next
  case True
  let ?tml0 = "tml\<lparr>tl_committed := insert (ti_id item) (tl_committed tml)\<rparr>"
  from assms have "rows_ok ?tml0" by simp
  from item_turn_rows [OF this, of "ti_id item"] obtain turn tml' where
    t: "item_turn (ti_id item) ?tml0 = Some (turn, tml')" "rows_ok tml'" "same_turns ?tml0 tml'"
      "\<And>t. turn = Some t \<Longrightarrow> t < length (tl_turns tml')" by blast
  have same: "same_turns tml tml'" using same_turns_trans [OF same_turns_simps(3) t(3)] .
  have refresh: "row_step tml' (refresh_partial_turn_changes i tml')" if "i < length (tl_turns tml')" for i
    using that t(2) update_turn_changes [OF t(2) that]
    by (auto simp: refresh_partial_turn_changes_def turn_boundary_def row_step_def [of tml' "Some tml'"]
        split: option.split)
  show ?thesis
  proof (cases turn)
    case None
    with True t same show ?thesis by (auto simp: commit_file_change_def row_step_def)
  next
    case (Some i)
    with True t(1) have "commit_file_change item tml = refresh_partial_turn_changes i tml'"
      by (auto simp: commit_file_change_def)
    with refresh [OF t(4) [OF Some]] row_step_same [OF same] show ?thesis by simp
  qed
qed

lemma request_steer_step [panic_free]:
  assumes "rows_ok tml" and "tb_turns (tl_boundaries tml) \<noteq> []"
  shows "row_step tml (request_steer ts rid steer_text attachments tml)"
proof -
  from first_entry_rows [OF assms(1), of rid] obtain pos tml' where
    f: "first_entry tml rid = Some (pos, tml')" "rows_ok tml'" "same_turns tml tml'" .
  have "tb_turns (tl_boundaries tml') \<noteq> []"
    using assms(2) same_turns_current [OF f(3)] by simp
  from ensure_turn_spec [OF f(2) this] obtain turn where
    "ensure_turn tml' = Some turn" "turn < length (tl_turns tml')" .
  with f show ?thesis by (auto simp: request_steer_def row_step_def intro: same_turns_trans)
qed

lemma accept_steer_step [panic_free]:
  assumes "rows_ok tml" and "\<And>t. target = Some t \<Longrightarrow> t < length (tl_turns tml)"
  shows "row_step tml (accept_steer rid target tml)"
proof -
  from first_entry_rows [OF assms(1), of rid] obtain pos tml' where
    f: "first_entry tml rid = Some (pos, tml')" "rows_ok tml'" "same_turns tml tml'"
      "tl_turns tml' = tl_turns tml" "pos = position (\<lambda>e. te_id e = rid) (tl_entries tml')" .
  show ?thesis
  proof (cases pos)
    case None
    with f show ?thesis by (auto simp: accept_steer_def row_step_def)
  next
    case (Some p)
    then have p: "p < length (tl_entries tml')" using f(5) by (simp add: position_less)
    let ?entry = "tl_entries tml' ! p"
    let ?turn = "case target of None \<Rightarrow> te_turn ?entry | Some turn \<Rightarrow> turn"
    have turn: "?turn < length (tl_turns tml')"
      using assms(2) f(4) rows_ok_placed_nth [OF f(2) p] by (cases target) auto
    let ?es = "take p (tl_entries tml') @ drop (Suc p) (tl_entries tml')
      @ [?entry\<lparr>te_content := accepted_content (te_content ?entry), te_turn := ?turn\<rparr>]"
    have "rows_ok (tml'\<lparr>tl_entry_index := entry_index_default, tl_entries := ?es\<rparr>)"
      using turn by (intro rows_ok_reindex f(2))
        (auto intro: rows_ok_placed [OF f(2)] dest: in_set_takeD in_set_dropD)
    with f(1-3) p Some show ?thesis
      by (auto simp: accept_steer_def row_step_def reindex_entries_def Let_def intro: same_turns_trans)
  qed
qed

lemma reject_steer_step [panic_free]:
  assumes "rows_ok tml"
  shows "row_step tml (Some (reject_steer rid tml))"
  using rows_ok_reindex [OF assms, of "filter (\<lambda>e. te_id e \<noteq> rid \<or> \<not> is_pending_steer (te_content e)) (tl_entries tml)"]
    rows_ok_placed [OF assms]
  by (simp add: row_step_def reject_steer_def reindex_entries_def)

lemma streamed_entry_less: "streamed_entry key tml = Some p \<Longrightarrow> p < length (tl_entries tml)"
  by (auto simp: streamed_entry_def dest!: position_less)
    (metis diff_less length_rev length_takeWhile_le less_le_trans not_less_zero zero_less_diff
      diff_diff_left list.size(3) neq0_conv plus_1_eq_Suc zero_less_Suc less_nat_zero_code)

lemma apply_delta_step [panic_free]:
  assumes "rows_ok tml" and "tb_turns (tl_boundaries tml) \<noteq> []"
  shows "row_step tml (apply_delta ts key kind d tml)"
proof (cases "streamed_entry key tml")
  case (Some p)
  then have "p < length (tl_entries tml)" by (rule streamed_entry_less)
  with assms Some show ?thesis by (auto simp: apply_delta_def row_step_def rows_ok_content)
next
  case None
  from ensure_turn_spec [OF assms] obtain turn where
    "ensure_turn tml = Some turn" "turn < length (tl_turns tml)" .
  with assms None show ?thesis by (auto simp: apply_delta_def row_step_def)
qed


subsection \<open>The transition keeps the invariant\<close>

lemma tl_ok_iff:
  "tl_ok tml \<longleftrightarrow> tb_ok (tl_boundaries tml)
     \<and> tb_turns (tl_boundaries tml) = map turn_boundary (tl_turns tml)
     \<and> tb_compacting (tl_boundaries tml) = compacting (tl_usage tml) \<and> rows_ok tml"
  by (auto simp: tl_ok_def rows_ok_def)

lemma tl_ok_D:
  assumes "tl_ok tml"
  shows "tb_ok (tl_boundaries tml)" "tb_turns (tl_boundaries tml) = map turn_boundary (tl_turns tml)"
    "tb_compacting (tl_boundaries tml) = compacting (tl_usage tml)" "rows_ok tml"
  using assms by (simp_all add: tl_ok_iff)

definition returns_ok :: "turn_boundaries \<Rightarrow> 'j timeline option \<Rightarrow> bool" where
  "returns_ok b r \<longleftrightarrow> (\<exists>tml. r = Some tml \<and> tl_ok tml \<and> tl_boundaries tml = b)"

lemma returns_ok_Some [simp]: "returns_ok b (Some tml) \<longleftrightarrow> tl_ok tml \<and> tl_boundaries tml = b"
  by (simp add: returns_ok_def)

text \<open>Replacing the boundaries by ones with the same turns, and then a step on the rows.\<close>

lemma rows_ok_boundaries:
  "rows_ok tml \<Longrightarrow> length (tb_turns b) = length (tl_turns tml) \<Longrightarrow> rows_ok (tml\<lparr>tl_boundaries := b\<rparr>)"
  by (simp add: rows_ok_def entries_placed_def entries_indexed_def entry_ids_def)

lemma row_event:
  assumes "tl_ok tml" and "tb_ok b" and "tb_turns b = tb_turns (tl_boundaries tml)"
    and "tb_compacting b = tb_compacting (tl_boundaries tml)"
    and "rows_ok (tml\<lparr>tl_boundaries := b\<rparr>) \<Longrightarrow> row_step (tml\<lparr>tl_boundaries := b\<rparr>) r"
  shows "returns_ok b r"
proof -
  note ok = tl_ok_D [OF assms(1)]
  from ok(2,4) assms(3) have "rows_ok (tml\<lparr>tl_boundaries := b\<rparr>)"
    by (intro rows_ok_boundaries) auto
  from assms(5) [OF this] obtain tml' where r: "r = Some tml'" "rows_ok tml'"
    and same: "same_turns (tml\<lparr>tl_boundaries := b\<rparr>) tml'" by (rule row_stepE)
  have "map turn_boundary (tl_turns tml') = tb_turns b"
    using same ok(2) assms(3) by (simp add: same_turns_def)
  with r same ok(3) assms(2-4) show ?thesis
    by (simp add: tl_ok_iff same_turns_def)
qed

lemma row_event_same:
  assumes "tl_ok tml" and "rows_ok tml \<Longrightarrow> row_step tml r"
  shows "returns_ok (tl_boundaries tml) r"
  using row_event [OF assms(1) tl_ok_D(1) [OF assms(1)]] assms by simp

lemma row_event_users:
  assumes "tl_ok tml" and "tb_ok (tl_boundaries tml\<lparr>tb_users := u\<rparr>)"
    and "rows_ok (tml\<lparr>tl_boundaries := tl_boundaries tml\<lparr>tb_users := u\<rparr>\<rparr>) \<Longrightarrow>
      row_step (tml\<lparr>tl_boundaries := tl_boundaries tml\<lparr>tb_users := u\<rparr>\<rparr>) r"
  shows "returns_ok (tl_boundaries tml\<lparr>tb_users := u\<rparr>) r"
  using row_event [OF assms(1,2)] assms by simp

lemma opens_turn_empty:
  assumes "tb_ok b" and "tb_turns b = []"
  shows "item_opens_turn b item \<longleftrightarrow> ti_parent_item_id item = None" "\<not> tb_is_open b" "tb_is_empty b"
  using assms tb_okD [OF assms(1), of "ti_id item"]
  by (cases "tb_users b (ti_id item)"; auto simp: item_opens_turn_def tb_is_open_def tb_is_empty_def)+

lemma sync_last:
  assumes "last_index turns = Some n" and "\<And>m. turn_boundary (f m) = g (turn_boundary m)"
  shows "map turn_boundary (turns[n := f (turns ! n)]) = update_last g (map turn_boundary turns)"
  using assms by (auto simp: last_index_def update_last_list_update map_update split: if_splits)

lemma rows_ok_turns:
  "rows_ok tml \<Longrightarrow> length turns = length (tl_turns tml) \<Longrightarrow> rows_ok (tml\<lparr>tl_turns := turns\<rparr>)"
  by (simp add: rows_ok_def entries_placed_def entries_indexed_def entry_ids_def)

lemma update_turn_Some:
  "turn < length (tl_turns tml) \<Longrightarrow>
     update_turn turn f tml = Some (tml\<lparr>tl_turns := (tl_turns tml)[turn := f (tl_turns tml ! turn)]\<rparr>)"
  by (simp add: update_turn_def)

text \<open>The last turn, which both a handler and the policy update.\<close>

lemma current_turn:
  assumes "tl_ok tml" and "tb_turns b \<noteq> []" and "length (tb_turns b) = length (tl_turns tml)"
  obtains n where "tb_current b = Some n" "last_index (tl_turns tml) = Some n" "n < length (tl_turns tml)"
  using assms by (cases "tl_turns tml = []") (auto simp: tb_current_def last_index_def)

lemma start_turn_event:
  assumes "tl_ok tml" and "tb_turns (tl_boundaries tml) \<noteq> []"
    and "tb_event (TurnStarted tid) (tl_boundaries tml, change) = Some (b, c)" and "tb_ok b"
  shows "returns_ok b (start_turn ts tid (tml\<lparr>tl_boundaries := b\<rparr>))"
proof -
  note ok = tl_ok_D [OF assms(1)]
  have b: "tb_turns b = update_last (\<lambda>t. t\<lparr>bd_provider := Some tid, bd_running := True\<rparr>)
      (map turn_boundary (tl_turns tml))" "tb_compacting b = compacting (tl_usage tml)"
    using assms(3) ok by auto
  have len: "length (tb_turns b) = length (tl_turns tml)" by (simp add: b)
  have ne: "tb_turns b \<noteq> []" using assms(2) ok(2) by (simp add: b)
  from current_turn [OF assms(1) ne len] obtain n where n: "tb_current b = Some n"
    "last_index (tl_turns tml) = Some n" "n < length (tl_turns tml)" .
  have usage: "compacting (map_option stale_usage (tl_usage tml)) = compacting (tl_usage tml)"
    by (cases "tl_usage tml") (auto simp: stale_usage_def)
  have sync: "map turn_boundary ((tl_turns tml)[n := f (tl_turns tml ! n)]) = tb_turns b"
    if "\<And>m. turn_boundary (f m) = (turn_boundary m)\<lparr>bd_provider := Some tid, bd_running := True\<rparr>" for f
    unfolding b(1) by (rule sync_last [OF n(2)]) (rule that)
  show ?thesis
    using n(1,3) usage b(2) assms(4)
      sync [of "\<lambda>m. m\<lparr>tm_provider_turn_id := Some tid, tm_running := True\<rparr>"]
      sync [of "\<lambda>m. m\<lparr>tm_start_ts := ts, tm_provider_turn_id := Some tid, tm_running := True\<rparr>"]
      rows_ok_boundaries [OF ok(4) len]
    by (cases ts) (auto simp: start_turn_def ensure_turn_def update_turn_Some tl_ok_iff rows_ok_turns
        turn_boundary_def)
qed

lemma complete_turn_event:
  assumes "tl_ok tml"
    and "tb_event (TurnCompleted tid status usage) (tl_boundaries tml, change) = Some (b, c)" and "tb_ok b"
  shows "returns_ok b (complete_turn ts status usage (tml\<lparr>tl_boundaries := b\<rparr>))"
proof -
  note ok = tl_ok_D [OF assms(1)]
  have b: "tb_turns b = update_last (\<lambda>t. t\<lparr>bd_closed := True, bd_running := False\<rparr>)
      (map turn_boundary (tl_turns tml))"
    "tb_compacting b = (case usage of None \<Rightarrow> compacting (tl_usage tml)
       | Some u \<Rightarrow> tu_freshness u = Compacting)"
    using assms(2) ok by (auto split: option.split)
  have len: "length (tb_turns b) = length (tl_turns tml)" by (simp add: b)
  have fresh: "tu_freshness (completed_usage nc prev u) = tu_freshness u" for nc prev u
    by (simp add: completed_usage_def Let_def split: option.split)
  show ?thesis
  proof (cases "tl_turns tml = []")
    case True
    then have "tb_turns b = []" by (simp add: b update_last_def)
    with True b fresh ok assms(3) rows_ok_boundaries [OF ok(4) len] show ?thesis
      by (cases usage) (auto simp: complete_turn_def tb_current_def tl_ok_iff last_index_def Let_def)
  next
    case False
    then have "tb_turns b \<noteq> []" by (simp add: b)
    from current_turn [OF assms(1) this len] obtain n where n: "tb_current b = Some n"
      "last_index (tl_turns tml) = Some n" "n < length (tl_turns tml)" .
    have sync: "map turn_boundary ((tl_turns tml)[n := finished_turn ts status u clock (tl_turns tml ! n)])
        = tb_turns b" for u clock
      unfolding b(1) by (rule sync_last [OF n(2)])
        (simp add: turn_boundary_def finished_turn_def Let_def split: option.split)
    show ?thesis
      using n(1,3) b(2) fresh sync assms(3) rows_ok_boundaries [OF ok(4) len]
      by (cases usage) (auto simp: complete_turn_def update_turn_Some tl_ok_iff rows_ok_turns Let_def)
  qed
qed

lemma update_target_event:
  assumes "tl_ok tml" and "tb_turns (tl_boundaries tml) \<noteq> []"
    and "tb_addressed tid cp (tl_boundaries tml, change) = Some (b, c)" and "tb_ok b"
    and "\<And>t. turn_boundary (f t) = (let t1 = (if tid \<noteq> [] \<or> cp \<noteq> None
         then (turn_boundary t)\<lparr>bd_provider := Some tid\<rparr> else turn_boundary t)
       in (if cp = None then t1 else t1\<lparr>bd_checkpoint := cp\<rparr>))"
  shows "returns_ok b (update_target (bc_target c) f (tml\<lparr>tl_boundaries := b\<rparr>))"
proof -
  note ok = tl_ok_D [OF assms(1)]
  from assms(2) obtain i where i: "tb_provider_turn (tl_boundaries tml) tid = Some i"
    by (cases "tb_provider_turn (tl_boundaries tml) tid") auto
  then have less: "i < length (tl_turns tml)"
    using tb_provider_turn_less [of "tl_boundaries tml" tid i] ok(2) by simp
  have b: "tb_compacting b = compacting (tl_usage tml)" "bc_target c = Some i"
    "tb_turns b = map turn_boundary ((tl_turns tml)[i := f (tl_turns tml ! i)])"
    using assms(3) i less ok(2,3) by (auto simp: tb_addressed_def assms(5) map_update)
  have len: "length (tb_turns b) = length (tl_turns tml)" by (simp add: b)
  show ?thesis
    using b less assms(4) rows_ok_boundaries [OF ok(4) len]
    by (auto simp: update_target_def update_turn_Some tl_ok_iff rows_ok_turns)
qed

lemma rewind_event:
  assumes "tl_ok tml"
    and "tb_event (RewindCompleted checkpoint mode p) (tl_boundaries tml, change) = Some (b, c)"
    and "tb_ok b" and "bc_rewind change = None"
  shows "returns_ok b (apply_event (RewindCompleted checkpoint mode p) ts c (tml\<lparr>tl_boundaries := b\<rparr>))"
proof (cases "bc_rewind c")
  case None
  then have "b = tl_boundaries tml" using assms(2) by (auto simp: Let_def split: option.splits)
  with None assms(1) show ?thesis by (simp add: returns_ok_def)
next
  case (Some target)
  note ok = tl_ok_D [OF assms(1)]
  from assms(2,4) Some have "includes_conversation mode" "tb_turns b = take target (tb_turns (tl_boundaries tml))"
    "\<not> tb_compacting b" "target < length (tb_turns (tl_boundaries tml))"
    by (auto split: option.splits if_splits simp: position_less Let_def)
  with Some assms(3) ok show ?thesis
    by (auto simp: rewind_conversation_def tl_ok_def take_map entries_placed_def entries_indexed_def Let_def)
qed

lemma close_session_event:
  assumes "tl_ok tml" and "reason \<noteq> None \<Longrightarrow> tb_turns (tl_boundaries tml) \<noteq> []"
    and "tb_event (SessionClosed reason) (tl_boundaries tml, change) = Some (b, c)" and "tb_ok b"
  shows "returns_ok b (close_session ts reason (tml\<lparr>tl_boundaries := b\<rparr>))"
proof -
  note ok = tl_ok_D [OF assms(1)]
  have b: "tb_turns b = update_last (\<lambda>t. t\<lparr>bd_running := False\<rparr>) (map turn_boundary (tl_turns tml))"
    "tb_compacting b = compacting (tl_usage tml)"
    using assms(3) ok by auto
  have len: "length (tb_turns b) = length (tl_turns tml)" by (simp add: b)
  let ?tml1 = "tml\<lparr>tl_boundaries := b, tl_turn_retry := None\<rparr>"
  have rows: "rows_ok ?tml1" using rows_ok_boundaries [OF ok(4) len] by simp
  have "row_step ?tml1 (case reason of None \<Rightarrow> Some ?tml1
    | Some message \<Rightarrow> push_system_row ''error'' (EntryError message None) ts ?tml1)"
    using push_system_row_step [OF rows] rows assms(2) b ok(2)
    by (cases reason) (auto simp: row_step_def [of _ "Some _"])
  then obtain tml2 where tml2: "(case reason of None \<Rightarrow> Some ?tml1
    | Some message \<Rightarrow> push_system_row ''error'' (EntryError message None) ts ?tml1) = Some tml2"
    "rows_ok tml2" "same_turns ?tml1 tml2" by (rule row_stepE)
  have bnd: "tl_boundaries tml2 = b" "tl_usage tml2 = tl_usage tml"
    "map turn_boundary (tl_turns tml2) = map turn_boundary (tl_turns tml)"
    using tml2(3) by (simp_all add: same_turns_def)
  have len2: "length (tl_turns tml2) = length (tl_turns tml)"
    using bnd(3) by (metis length_map)
  show ?thesis
  proof (cases "last_index (tl_turns tml2)")
    case None
    then have "tl_turns tml2 = []" by simp
    with len2 len tml2(1,2) bnd b assms(4) show ?thesis
      by (auto simp: close_session_def tb_current_def last_index_def tl_ok_iff Let_def)
  next
    case (Some n)
    then have n: "n < length (tl_turns tml2)" by (rule last_index_less)
    have cur: "tb_current b = Some n"
      using Some len len2 by (auto simp: tb_current_def last_index_def split: if_splits)
    have "map turn_boundary ((tl_turns tml2)[n := (tl_turns tml2 ! n)\<lparr>tm_running := False\<rparr>]) = tb_turns b"
      unfolding b(1) bnd(3) [symmetric] by (rule sync_last [OF Some]) (simp add: turn_boundary_def)
    with n cur tml2(1,2) bnd b assms(4) show ?thesis
      by (auto simp: close_session_def update_turn_Some tl_ok_iff rows_ok_turns Let_def)
  qed
qed

lemma compact_context_event:
  assumes "tl_ok tml"
    and "\<not> (cp_in_progress cp \<and> tb_compacting (tl_boundaries tml)) \<Longrightarrow> tb_turns (tl_boundaries tml) \<noteq> []"
    and "tb_event (ContextCompacted cp) (tl_boundaries tml, change) = Some (b, c)" and "tb_ok b"
  shows "returns_ok b (compact_context ts cp (tml\<lparr>tl_boundaries := b\<rparr>))"
proof -
  note ok = tl_ok_D [OF assms(1)]
  define usage where "usage = (case tl_usage tml of None \<Rightarrow> token_usage_default | Some u \<Rightarrow> u)"
  have usage: "compacting (tl_usage tml) \<longleftrightarrow> tu_freshness usage = Compacting"
    by (auto simp: usage_def token_usage_default_def split: option.split)
  have b: "tb_turns b = map turn_boundary (tl_turns tml)" "tb_compacting b = cp_in_progress cp"
    using assms(3) ok by auto
  have len: "length (tb_turns b) = length (tl_turns tml)" by (simp add: b)
  show ?thesis
  proof (cases "cp_in_progress cp \<and> tu_freshness usage = Compacting")
    case True
    then show ?thesis
      using b assms(4) rows_ok_boundaries [OF ok(4) len]
      by (simp add: compact_context_def usage_def [symmetric] tl_ok_iff)
  next
    case False
    let ?tml1 = "tml\<lparr>tl_boundaries := b, tl_usage := Some (compacted_usage (cp_in_progress cp) usage)\<rparr>"
    have rows: "rows_ok ?tml1" using rows_ok_boundaries [OF ok(4) len] by simp
    have "tb_turns b \<noteq> []" using False assms(2) usage ok(2,3) b by auto
    then have "row_step ?tml1 (push_system_row ''compacted'' (EntryContextCompacted cp) ts ?tml1)"
      by (intro push_system_row_step rows) simp
    then obtain tml2 where tml2: "push_system_row ''compacted'' (EntryContextCompacted cp) ts ?tml1 = Some tml2"
      "rows_ok tml2" "same_turns ?tml1 tml2" by (rule row_stepE)
    have "compacting (Some (compacted_usage (cp_in_progress cp) usage)) = cp_in_progress cp"
      by (simp add: compacted_usage_def Let_def)
    with tml2 False b assms(4) show ?thesis
      by (auto simp: compact_context_def usage_def [symmetric] tl_ok_iff same_turns_def)
  qed
qed

lemma serve_model_step [panic_free]:
  assumes "rows_ok tml" and "tb_turns (tl_boundaries tml) \<noteq> []"
  shows "row_step tml (serve_model ts model reason tml)"
proof -
  from ensure_turn_spec [OF assms] obtain turn where
    turn: "ensure_turn tml = Some turn" "turn < length (tl_turns tml)" .
  let ?f = "\<lambda>m. m\<lparr>tm_served_model := Some model\<rparr>"
  have "row_step tml (update_turn turn ?f tml)"
    by (rule update_turn_changes [OF assms(1) turn(2)]) (simp add: turn_boundary_def)
  then obtain tml1 where tml1: "update_turn turn ?f tml = Some tml1" "rows_ok tml1" "same_turns tml tml1"
    by (rule row_stepE)
  have len: "turn < length (tl_turns tml1)" using turn(2) same_turns_length [OF tml1(3)] by simp
  have served: "same_turns tml tml' \<Longrightarrow> same_turns tml (tml'\<lparr>tl_last_served_model := m\<rparr>)" for tml' m
    by (simp add: same_turns_def)
  from synthetic_id_rows [OF tml1(2), of "''model''" ts] obtain key tml2 where
    tml2: "synthetic_id ''model'' ts tml1 = Some (key, tml2)" "rows_ok tml2" "same_turns tml1 tml2"
      "tl_turns tml2 = tl_turns tml1" .
  have same2: "same_turns tml (push_entry k content ts turn tml2)" for k content
    by (rule same_turns_trans [OF tml1(3) same_turns_trans [OF tml2(3)]]) simp
  show ?thesis
    using turn(1) tml1 tml2 len same2 served
    by (auto simp: serve_model_def row_step_def Let_def)
qed

lemma relay_step [panic_free]:
  assumes "rows_ok tml" and "tb_turns (tl_boundaries tml) \<noteq> []"
  shows "row_step tml (apply_event (ProviderRelay fp fm tp tm prompt moved) ts c tml)"
proof -
  let ?tml1 = "tml\<lparr>tl_turn_retry := None\<rparr>"
  have rows: "rows_ok ?tml1" "tb_turns (tl_boundaries ?tml1) \<noteq> []" using assms by simp_all
  from push_system_row_step [OF rows] have
    "row_step ?tml1 (push_system_row ''relay'' (EntryProviderRelay fp fm tp tm prompt moved) ts ?tml1)" .
  moreover have "apply_event (ProviderRelay fp fm tp tm prompt moved) ts c tml
      = push_system_row ''relay'' (EntryProviderRelay fp fm tp tm prompt moved) ts ?tml1"
    by (simp add: begin_user_turn_def push_system_row_def Let_def map_option_case bind_eq_Some_conv
        split: option.split)
  ultimately show ?thesis using row_step_same [of tml ?tml1] by simp
qed

text \<open>
  Every branch of the transition, from a state whose boundaries the policy has advanced: the policy
  opened a turn whenever the branch needs one.
\<close>

lemma limit_error_rows:
  assumes "rows_ok tml"
  shows "row_step tml (apply_event (UsageLimitReached resets_at) ts c tml)"
  using assms rposition_less [of "\<lambda>e. is_error_entry (te_content e)" "tl_entries tml"]
  by (auto simp: row_step_def rows_ok_content split: option.split)

lemma tl_ok_other:
  "tl_ok (tml\<lparr>tl_turn_retry := a\<rparr>) = tl_ok tml"
  "tl_ok (tml\<lparr>tl_plan_steps := p, tl_plan_explanation := q\<rparr>) = tl_ok tml"
  "tl_ok (tml\<lparr>tl_goal := g\<rparr>) = tl_ok tml"
  "tl_ok (tml\<lparr>tl_pending_approvals := ps\<rparr>) = tl_ok tml"
  "tl_ok (tml\<lparr>tl_pending_user_input := u\<rparr>) = tl_ok tml"
  "tl_ok (tml\<lparr>tl_provider_session_id := s, tl_resume := r\<rparr>) = tl_ok tml"
  "tl_ok (tml\<lparr>tl_model := m\<rparr>) = tl_ok tml"
  "tl_ok (tml\<lparr>tl_last_served_model := m\<rparr>) = tl_ok tml"
  "tl_ok (tml\<lparr>tl_elided_outputs := o'\<rparr>) = tl_ok tml"
  "tl_ok (tml\<lparr>tl_tool_clock := clock\<rparr>) = tl_ok tml"
  by (simp_all add: tl_ok_def entries_placed_def entries_indexed_def entry_ids_def)

lemma tl_ok_self: "tl_ok tml \<Longrightarrow> tl_ok (tml\<lparr>tl_boundaries := tl_boundaries tml\<rparr>)"
  by simp

lemma item_boundaries:
  assumes "tb_item item (b0, change) = (b, c)"
  shows "tb_turns b = tb_turns b0" "tb_compacting b = tb_compacting b0"
  using assms by (auto simp: tb_item_def split: option.splits if_splits)

lemma item_ready:
  assumes "tl_ok tml" and "tb_turns (tl_boundaries tml) = [] \<Longrightarrow> \<not> item_opens_turn (tl_boundaries tml) item"
    and "ti_parent_item_id item = None"
  shows "tb_turns (tl_boundaries tml) \<noteq> []"
  using assms opens_turn_empty(1) [OF tl_ok_D(1) [OF assms(1)]] by auto

lemma track_tool_rows:
  assumes "row_step tml (Some tml1)"
  shows "row_step tml (Some (track_tool_item ts item l tml1))"
  using assms same_turns_simps(2)
  by (auto simp: row_step_def track_tool_item_def split: option.split intro: same_turns_trans)

lemma item_event:
  assumes "tl_ok tml" and "tb_ok b" and "tb_item item (tl_boundaries tml, change) = (b, c)"
    and "tb_turns (tl_boundaries tml) = [] \<Longrightarrow> \<not> item_opens_turn (tl_boundaries tml) item"
  shows "returns_ok b (Option.bind (upsert_item ts item (tml\<lparr>tl_boundaries := b\<rparr>))
    (\<lambda>tml1. Some (track_tool_item ts item l tml1)))"
proof (rule row_event [OF assms(1,2) item_boundaries [OF assms(3)]])
  assume rows: "rows_ok (tml\<lparr>tl_boundaries := b\<rparr>)"
  have "row_step (tml\<lparr>tl_boundaries := b\<rparr>) (upsert_item ts item (tml\<lparr>tl_boundaries := b\<rparr>))"
    using item_ready [OF assms(1,4)] item_boundaries [OF assms(3)]
    by (intro upsert_item_step rows) simp
  then show "row_step (tml\<lparr>tl_boundaries := b\<rparr>)
      (Option.bind (upsert_item ts item (tml\<lparr>tl_boundaries := b\<rparr>)) (\<lambda>tml1. Some (track_tool_item ts item l tml1)))"
    by (rule row_step_bind) (rule track_tool_rows, simp add: row_step_def)
qed

lemma item_completed_event:
  assumes "tl_ok tml" and "tb_ok b" and "tb_item item (tl_boundaries tml, change) = (b, c)"
    and "tb_turns (tl_boundaries tml) = [] \<Longrightarrow> \<not> item_opens_turn (tl_boundaries tml) item"
  shows "returns_ok b (Option.bind (upsert_item ts item (tml\<lparr>tl_boundaries := b\<rparr>))
    (\<lambda>tml1. commit_file_change item (track_tool_item ts item l tml1)))"
proof (rule row_event [OF assms(1,2) item_boundaries [OF assms(3)]])
  assume rows: "rows_ok (tml\<lparr>tl_boundaries := b\<rparr>)"
  have "row_step (tml\<lparr>tl_boundaries := b\<rparr>) (upsert_item ts item (tml\<lparr>tl_boundaries := b\<rparr>))"
    using item_ready [OF assms(1,4)] item_boundaries [OF assms(3)]
    by (intro upsert_item_step rows) simp
  then show "row_step (tml\<lparr>tl_boundaries := b\<rparr>)
      (Option.bind (upsert_item ts item (tml\<lparr>tl_boundaries := b\<rparr>))
        (\<lambda>tml1. commit_file_change item (track_tool_item ts item l tml1)))"
  proof (rule row_step_bind)
    fix tml1 :: "'a timeline" assume "rows_ok tml1"
    then have "row_step tml1 (Some (track_tool_item ts item l tml1))"
      by (intro track_tool_rows) (simp add: row_step_def)
    then show "row_step tml1 (commit_file_change item (track_tool_item ts item l tml1))"
      using row_step_same commit_file_change_step by (fastforce simp: row_step_def)
  qed
qed

lemma apply_event_ok:
  assumes ok: "tl_ok tml" and ready: "tb_turns (tl_boundaries tml) = [] \<Longrightarrow> \<not> opens_turn (tl_boundaries tml) e"
    and ev: "tb_event e (tl_boundaries tml, change) = Some (b, c)"
    and target: "bc_target change = tb_current (tl_boundaries tml)" and rewind: "bc_rewind change = None"
  shows "returns_ok b (apply_event e ts c (tml\<lparr>tl_boundaries := b\<rparr>))"
proof -
  note parts = tl_ok_D [OF ok]
  from tb_event_spec [OF parts(1) target rewind, of e] ev
  have spec: "tb_step_spec (tl_boundaries tml) change b c" by auto
  then have b: "tb_ok b" by (simp add: tb_step_spec_def)
  note empty = opens_turn_empty [OF parts(1)]
  show ?thesis
  proof (cases e)
    case (TurnStarted x)
    then show ?thesis using start_turn_event [OF ok _ _ b] ev ready empty by auto
  next
    case (TurnCompleted x s u)
    then show ?thesis using complete_turn_event [OF ok _ b] ev by auto
  next
    case (SessionClosed r)
    then show ?thesis using close_session_event [OF ok _ _ b] ev ready empty by (cases r) auto
  next
    case (ContextCompacted cp)
    then show ?thesis using compact_context_event [OF ok _ _ b] ev ready empty by auto
  next
    case (RewindCompleted cp m p)
    then show ?thesis using rewind_event [OF ok _ b rewind] ev by auto
  next
    case (TurnChangesUpdated x changes completeness)
    then have ne: "tb_turns (tl_boundaries tml) \<noteq> []" using ready empty by auto
    from TurnChangesUpdated ev update_target_event [OF ok ne _ b, where cp = None] show ?thesis
      by (auto simp: turn_boundary_def Let_def)
  next
    case (TurnCheckpoint x checkpoint)
    then have ne: "tb_turns (tl_boundaries tml) \<noteq> []" using ready empty by auto
    from TurnCheckpoint ev update_target_event [OF ok ne _ b, where cp = "Some checkpoint"] show ?thesis
      by (auto simp: turn_boundary_def Let_def)
  next
    case (ItemStarted item)
    with ev ready show ?thesis by (auto intro: item_event [OF ok b])
  next
    case (ItemUpdated item)
    with ev ready show ?thesis by (auto intro: item_event [OF ok b])
  next
    case (ItemCompleted item)
    with ev ready show ?thesis by (auto intro: item_completed_event [OF ok b])
  next
    case (SteerAccepted rid)
    have "bc_target c = Some t \<Longrightarrow> t < length (tl_turns tml)" for t
      using spec SteerAccepted ev rewind parts(2)
      by (auto simp: tb_step_spec_def Let_def split: option.splits if_splits)
    moreover have "tb_turns b = tb_turns (tl_boundaries tml)" "tb_compacting b = tb_compacting (tl_boundaries tml)"
      using SteerAccepted ev by (auto simp: Let_def split: option.splits if_splits)
    ultimately have "returns_ok b (accept_steer rid (bc_target c) (tml\<lparr>tl_boundaries := b\<rparr>))"
      by (intro row_event [OF ok b] accept_steer_step) auto
    then show ?thesis by (simp add: SteerAccepted)
  next
    case (TokenUsage u)
    with ev b parts rows_ok_boundaries [OF parts(4)] show ?thesis
      by (auto simp: tl_ok_iff observed_usage_def Let_def)
  next
    case (SteerRejected rid)
    with ev have "tb_turns b = tb_turns (tl_boundaries tml)" "tb_compacting b = tb_compacting (tl_boundaries tml)"
      by (auto split: option.splits if_splits)
    from row_event [OF ok b this reject_steer_step] SteerRejected show ?thesis by simp
  next
    case (ProviderRelay fp fm tp tm prompt moved)
    have "b = tl_boundaries tml" using ev by (simp add: ProviderRelay)
    moreover have "tb_turns (tl_boundaries tml) \<noteq> []" using ready empty(2) by (auto simp: ProviderRelay)
    ultimately show ?thesis
      using row_event [OF ok b _ _ relay_step] unfolding ProviderRelay by simp
  next
    case (UsageLimitReached at)
    with ev have "tb_turns b = tb_turns (tl_boundaries tml)" "tb_compacting b = tb_compacting (tl_boundaries tml)"
      by auto
    from row_event [OF ok b this limit_error_rows] UsageLimitReached show ?thesis by blast
  qed (use ev ready empty ok b in
      \<open>auto intro!: row_event_same row_event_users panic_free simp: Let_def
         simp: tl_ok_other split: option.splits if_splits\<close>)
qed

lemma push_turn_boundaries:
  "push_turn ts (tml\<lparr>tl_boundaries := b\<rparr>) = (push_turn ts tml)\<lparr>tl_boundaries := b\<rparr>"
  by (cases tml) (simp add: push_turn_def)

lemma apply_at_ok [panic_free]:
  assumes "tl_ok tml"
  shows "\<exists>b c. tb_apply e (tl_boundaries tml) = Some (b, c) \<and> returns_ok b (apply_at ts e tml)"
proof -
  define tml1 where "tml1 = (if turn_is_open tml \<and> \<not> is_turn_completed e
    then tml\<lparr>tl_tool_clock := tc_observe ts (tl_tool_clock tml)\<rparr> else tml)"
  have ok1: "tl_ok tml1" using assms by (simp add: tml1_def tl_ok_other)
  let ?b0 = "tl_boundaries tml1"
  have b0: "?b0 = tl_boundaries tml" by (simp add: tml1_def)
  define opened where "opened = opens_turn ?b0 e"
  define b1 where "b1 = (if opened then ?b0\<lparr>tb_turns := tb_turns ?b0 @ [boundary_default]\<rparr> else ?b0)"
  define change where "change = \<lparr>bc_opened = opened, bc_changed = (opened \<or> moves_boundary e),
    bc_target = tb_current b1, bc_rewind = None\<rparr>"
  from tb_apply_spec [OF tl_ok_D(1) [OF ok1], of e] obtain b c where
    bc: "tb_apply e ?b0 = Some (b, c)" "bc_opened c = opened" by (auto simp: opened_def)
  then have ev: "tb_event e (b1, change) = Some (b, c)"
    by (simp add: tb_apply_def b1_def change_def opened_def Let_def)
  let ?tml2 = "(if opened then push_turn ts tml1 else tml1)\<lparr>tl_boundaries := b1\<rparr>"
  have ok2: "tl_ok ?tml2"
    using ok1 by (auto simp: b1_def tl_ok_def push_turn_def entries_placed_def entries_indexed_def
        entry_ids_def tb_ok_def less_Suc_eq)
  have ready: "tb_turns b1 = [] \<Longrightarrow> \<not> opens_turn b1 e"
    by (auto simp: b1_def opened_def split: if_splits)
  have "returns_ok b (apply_event e ts c (?tml2\<lparr>tl_boundaries := b\<rparr>))"
    using apply_event_ok [OF ok2, of e change b c ts] ready ev by (simp add: change_def)
  moreover have "apply_at ts e tml = apply_event e ts c (?tml2\<lparr>tl_boundaries := b\<rparr>)"
    using bc by (simp add: apply_at_def tml1_def [symmetric] push_turn_boundaries Let_def)
  ultimately show ?thesis using bc(1) by (simp add: b0)
qed

lemma apply_stored_ok [panic_free]:
  assumes "tl_ok tml"
  shows "\<exists>b c. tb_apply (se_event stored) (tl_boundaries tml) = Some (b, c)
    \<and> returns_ok b (apply_stored stored tml)"
proof -
  have "tl_ok (tml\<lparr>tl_elided_outputs := m\<rparr>)" for m using assms by (simp add: tl_ok_other)
  from apply_at_ok [OF this, of "se_event stored" _ "se_ts stored"]
    apply_at_ok [OF assms, of "se_event stored" "se_ts stored"]
  show ?thesis by (simp add: apply_stored_def Let_def split: option.split)
qed

interpretation fold: safe_machine apply_stored tl_ok
  using apply_stored_ok by unfold_locales (fastforce simp: returns_ok_def)

interpretation live: safe_machine "apply_at ts" tl_ok for ts
  using apply_at_ok by unfold_locales (fastforce simp: returns_ok_def)

subsection \<open>What the fold guarantees\<close>

lemma fold_boundaries:
  assumes "tl_ok tml"
  shows "map_option tl_boundaries (fold_opt apply_stored records tml)
    = fold_opt (\<lambda>r b. map_option fst (tb_apply (se_event r) b)) records (tl_boundaries tml)"
  using assms
proof (induction records arbitrary: tml)
  case Nil
  then show ?case by simp
next
  case (Cons r records)
  from apply_stored_ok [OF Cons.prems, of r] obtain b c tml' where
    "tb_apply (se_event r) (tl_boundaries tml) = Some (b, c)" "apply_stored r tml = Some tml'"
    "tl_ok tml'" "tl_boundaries tml' = b" by (auto simp: returns_ok_def)
  with Cons.IH [of tml'] show ?case by simp
qed

text \<open>C5: no log makes the fold panic, and the timeline it returns is well formed: its boundaries
  are the projection of its turns, every entry sits in a turn that exists, and the lookup cache is
  sound.\<close>

theorem fold_stored_returns: "\<exists>tml. fold_stored records = Some tml \<and> tl_ok tml"
  unfolding fold_stored_def by (rule fold.run_safe) simp

text \<open>C2: the policy run alone over the log, as the store's append transaction does, ends in the
  very boundaries the rendered timeline carries, so both assign records to the same turns.\<close>

theorem append_and_fold_agree:
  "map_option tl_boundaries (fold_stored records)
     = fold_opt (\<lambda>r b. map_option fst (tb_apply (se_event r) b)) records turn_boundaries_default"
  using fold_boundaries [OF tl_ok_default, of records]
  by (simp add: fold_stored_def timeline_default_def)

text \<open>A live event applied to the timeline of any log never panics either, with or without a
  timestamp, and keeps the timeline well formed.\<close>

theorem live_event_safe:
  "\<exists>tml tml'. fold_stored records = Some tml \<and> apply_at ts event tml = Some tml' \<and> tl_ok tml'"
proof -
  from fold.run_safe [OF tl_ok_default, of records] obtain tml where
    "fold_stored records = Some tml" "tl_ok tml" by (auto simp: fold_stored_def)
  with apply_at_ok [of tml event ts] show ?thesis by (auto simp: returns_ok_def)
qed

end
