(* ===== verification/Timeline_Laws.thy ===== *)
theory Timeline_Laws
  imports Timeline_Correct
begin

section \<open>Laws of the timeline\<close>

text \<open>
  What single operations of \<^verbatim>\<open>crates/core/src/session.rs\<close> promise beyond well-formedness: chunking
  of streams, redelivered snapshots, system rows, steers, rewinds, usage totals, and the liveness a
  host hands over.
\<close>

subsection \<open>Streams\<close>

lemma streamed_entry_pushed:
  assumes "tb_current (tl_boundaries tml) = Some turn"
  shows "streamed_entry key (push_entry key content ts turn tml) = Some (length (tl_entries tml))"
  using assms by (simp add: streamed_entry_def push_entry_def)

lemma streamed_entry_content:
  assumes "p < length (tl_entries tml)"
  shows "streamed_entry key (tml\<lparr>tl_entries := (tl_entries tml)[p := (tl_entries tml ! p)\<lparr>te_content := c\<rparr>]\<rparr>)
    = streamed_entry key tml"
proof -
  let ?es = "tl_entries tml" and ?es' = "(tl_entries tml)[p := (tl_entries tml ! p)\<lparr>te_content := c\<rparr>]"
  let ?strip = "map (\<lambda>e. (te_id e, te_turn e))"
  have "?strip ?es' = ?strip ?es"
    using assms by (simp add: map_update) (metis (no_types, lifting) list_update_id nth_map)
  then have rev: "?strip (rev ?es') = ?strip (rev ?es)" by (simp add: rev_map [symmetric])
  have "position (\<lambda>e. te_id e = key) (takeWhile (\<lambda>e. Some (te_turn e) = cur) es)
      = position (\<lambda>q. fst q = key) (takeWhile (\<lambda>q. Some (snd q) = cur) (?strip es))" for cur and es :: "'a timeline_entry list"
    by (simp add: takeWhile_map position_map comp_def)
  with rev show ?thesis by (simp add: streamed_entry_def)
qed

lemma delta_content_append:
  "delta_content (delta_content c kind d1) kind d2 = delta_content c kind (d1 @ d2)"
  by (cases c) (auto simp: delta_content_def split: item_content.split)

lemma delta_item_append:
  "delta_content (EntryItem (delta_item kind d1)) kind d2 = EntryItem (delta_item kind (d1 @ d2))"
  by (cases kind) (auto simp: delta_content_def delta_item_def)

text \<open>How a stream is cut into deltas does not matter: two deltas of one kind for one item give
  the timeline that their concatenation gives, whatever arrived before (and if no turn is open to
  take the first, neither is applied).\<close>

theorem delta_chunking:
  "apply_delta ts key kind (d1 @ d2) tml
     = Option.bind (apply_delta ts key kind d1 tml) (apply_delta ts' key kind d2)"
proof (cases "streamed_entry key tml")
  case (Some p)
  then have "p < length (tl_entries tml)" by (rule streamed_entry_less)
  with Some show ?thesis
    by (simp add: apply_delta_def streamed_entry_content delta_content_append)
next
  case None
  show ?thesis
  proof (cases "ensure_turn tml")
    case turn: None
    with None show ?thesis by (simp add: apply_delta_def)
  next
    case (Some turn)
    then have "tb_current (tl_boundaries tml) = Some turn" by (simp add: ensure_turn_def)
    from streamed_entry_pushed [OF this] None Some show ?thesis
      by (simp add: apply_delta_def delta_item_append push_entry_def nth_append)
  qed
qed

subsection \<open>Snapshots\<close>

lemma merge_text_idem: "merge_text (merge_text old new) new = merge_text old new"
  by (auto simp: merge_text_def starts_with_def)

lemma keep_diff_path [simp]: "fc_path (keep_diff old c) = fc_path c"
  by (auto simp: keep_diff_def split: option.split)

lemma keep_diff_idem:
  assumes "distinct (map fc_path changes)" and "c \<in> set changes"
  shows "keep_diff (map (keep_diff old) changes) c = keep_diff old c"
proof -
  have "List.find (\<lambda>e. fc_path e = fc_path c) (map (keep_diff old) changes) = Some (keep_diff old c)"
    using assms by (induction changes) (auto simp: image_iff)
  then show ?thesis by (auto simp: keep_diff_def split: option.split)
qed

definition distinct_paths :: "'j item_content \<Rightarrow> bool" where
  "distinct_paths c \<longleftrightarrow> (case c of FileChange changes _ \<Rightarrow> distinct (map fc_path changes) | _ \<Rightarrow> True)"

lemma merge_text_same [simp]: "merge_text s s = s"
  by (simp add: merge_text_def starts_with_def)

lemma keep_diff_self:
  assumes "distinct (map fc_path changes)" and "c \<in> set changes"
  shows "keep_diff changes c = c"
proof -
  have "List.find (\<lambda>e. fc_path e = fc_path c) changes = Some c"
    using assms by (induction changes) (auto simp: image_iff)
  then show ?thesis by (auto simp: keep_diff_def)
qed

lemma merge_item_same: "distinct_paths new \<Longrightarrow> merge_item new new = new"
  by (cases new)
    (auto simp: merge_item_def distinct_paths_def opt_or_def keep_diff_self intro!: map_idI
      split: option.split)

lemma merge_item_idem:
  assumes "distinct_paths new"
  shows "merge_item (merge_item old new) new = merge_item old new"
proof (cases "merge_item old new = new")
  case True
  with merge_item_same [OF assms] show ?thesis by simp
next
  case False
  with assms show ?thesis
    by (cases new; cases old)
      (auto simp: merge_item_def merge_text_idem keep_diff_idem distinct_paths_def opt_or_def
        split: option.splits)
qed

text \<open>a redelivered snapshot changes nothing. Merging the same item snapshot into an entry a
  second time gives what the first merge gave, for every kind of entry, provided the snapshot names
  each file at most once.\<close>

theorem redelivered_snapshot:
  assumes "distinct_paths new"
  shows "merge_content (merge_content old (EntryItem new)) (EntryItem new) = merge_content old (EntryItem new)"
  using merge_item_idem [OF assms] merge_item_same [OF assms]
  by (cases old; cases new) (auto simp: merge_content_def)

theorem redelivered_snapshot_witness:
  "merge_content (merge_content (EntryItem (Reasoning ''ab'' :: nat item_content)) (EntryItem (Reasoning ''abc'')))
     (EntryItem (Reasoning ''abc''))
   = EntryItem (Reasoning ''abc'')"
  using redelivered_snapshot [of "Reasoning ''abc'' :: nat item_content" "EntryItem (Reasoning ''ab'')"]
  by (simp add: distinct_paths_def merge_content_def merge_item_def merge_text_def starts_with_def)

text \<open>a snapshot that lags its stream never takes text away: a streamed text survives any
  snapshot that is empty or a prefix of it, and is replaced by any other.\<close>

theorem lagging_snapshot:
  "merge_item (AssistantMessage old s) (AssistantMessage new s' :: 'j item_content)
     = AssistantMessage (if \<exists>rest. old = new @ rest then old else new) s'"
proof -
  have "starts_with old new \<longleftrightarrow> (\<exists>rest. old = new @ rest)"
    by (metis append_eq_conv_conj append_take_drop_id starts_with_def)
  then show ?thesis by (auto simp: merge_item_def merge_text_def)
qed

subsection \<open>System rows\<close>

text \<open>A timestamped system row (an error, a control action, a compaction, a changed window) is
  appended under an id no entry has yet, in the current turn, and no entry is lost.\<close>

theorem system_row_fresh:
  assumes "tl_ok tml" and "push_system_row prefix content (Some t) tml = Some tml'"
  shows "\<exists>row. tl_entries tml' = tl_entries tml @ [row] \<and> te_id row \<notin> te_id ` set (tl_entries tml)
    \<and> te_content row = content \<and> te_turn row = length (tl_turns tml) - 1"
proof -
  from tl_ok_D(4) [OF assms(1)] have "entries_indexed tml" by (rule rows_ok_indexed)
  from synthetic_id_spec [OF this, of prefix "Some t"] obtain key idx n where
    "synthetic_id prefix (Some t) tml = Some (key, tml\<lparr>tl_entry_index := idx, tl_next_synthetic_id := n\<rparr>)"
    "key \<notin> set (entry_ids tml)" by auto
  with assms(2) tl_ok_D(2) [OF assms(1)] show ?thesis
    by (auto simp: push_system_row_def ensure_turn_def tb_current_def last_index_def push_entry_def
        entry_ids_def split: bind_splits if_splits)
qed

text \<open>In the timeline of any log, the cached lookup of an entry is the linear search for the
  first entry with that id.\<close>

theorem lookup_is_linear_search:
  "\<exists>tml. fold_stored records = Some tml
     \<and> (\<forall>key. \<exists>tml'. first_entry tml key = Some (position (\<lambda>e. te_id e = key) (tl_entries tml), tml')
          \<and> tl_entries tml' = tl_entries tml)"
proof -
  from fold.run_safe [OF tl_ok_default, of records] obtain tml where
    "fold_stored records = Some tml" "tl_ok tml" by (auto simp: fold_stored_def)
  with first_entry_spec [of tml] show ?thesis by (auto simp: tl_ok_def)
qed

subsection \<open>Steers\<close>

lemma apply_at_entries_before:
  "apply_at ts e tml = (let tml1 = (if turn_is_open tml \<and> \<not> is_turn_completed e
      then tml\<lparr>tl_tool_clock := tc_observe ts (tl_tool_clock tml)\<rparr> else tml)
    in case tb_apply e (tl_boundaries tml) of None \<Rightarrow> None
       | Some (b, c) \<Rightarrow> apply_event e ts c (if bc_opened c then push_turn ts (tml1\<lparr>tl_boundaries := b\<rparr>)
           else tml1\<lparr>tl_boundaries := b\<rparr>))"
  by (auto simp: apply_at_def Let_def split: option.split)

text \<open>The state the payload of an event is applied to: same rows, same usage, at most one more turn.\<close>

lemma apply_at_payload:
  assumes "apply_at ts e tml = Some tml'"
  obtains b c tml2 where "tb_apply e (tl_boundaries tml) = Some (b, c)"
    "apply_event e ts c tml2 = Some tml'" "tl_boundaries tml2 = b"
    "tl_entries tml2 = tl_entries tml" "tl_usage tml2 = tl_usage tml"
    "tl_entry_index tml2 = tl_entry_index tml"
    "tl_turns tml2 = tl_turns tml @ (if opens_turn (tl_boundaries tml) e then [turn_meta_open ts] else [])"
proof -
  from assms obtain b c where bc: "tb_apply e (tl_boundaries tml) = Some (b, c)"
    by (auto simp: apply_at_entries_before Let_def split: option.splits)
  have opened: "bc_opened c = opens_turn (tl_boundaries tml) e"
    using bc by (cases e) (auto simp: tb_apply_def tb_addressed_def tb_item_def Let_def
        split: option.splits if_splits bind_splits)
  let ?tml1 = "if turn_is_open tml \<and> \<not> is_turn_completed e
      then tml\<lparr>tl_tool_clock := tc_observe ts (tl_tool_clock tml)\<rparr> else tml"
  let ?tml2 = "if bc_opened c then push_turn ts (?tml1\<lparr>tl_boundaries := b\<rparr>) else ?tml1\<lparr>tl_boundaries := b\<rparr>"
  have "apply_event e ts c ?tml2 = Some tml'"
    using assms bc by (simp add: apply_at_entries_before Let_def)
  with bc show thesis
    by (rule that) (auto simp: push_turn_def opened)
qed

text \<open>a steer that the provider rejects leaves no row behind. After the request and its
  rejection the entries are those before the request.\<close>

theorem rejected_steer_leaves_no_row:
  assumes "tl_ok tml" and "position (\<lambda>e. te_id e = rid) (tl_entries tml) = None"
    and "apply_at ts (SteerRequested rid steer_text attachments) tml = Some tml1"
    and "apply_at ts' (SteerRejected rid) tml1 = Some tml2"
  shows "tl_entries tml2 = tl_entries tml"
proof -
  from assms(3) obtain c m where m: "request_steer ts rid steer_text attachments m = Some tml1"
    "tl_entries m = tl_entries tml" "tl_entry_index m = tl_entry_index tml"
    by (rule apply_at_payload) auto
  have idx: "entries_indexed m" using assms(1) m(2,3) by (simp add: tl_ok_def entries_indexed_def entry_ids_def)
  have "\<exists>row. tl_entries tml1 = tl_entries tml @ [row] \<and> te_id row = rid \<and> is_pending_steer (te_content row)"
    using m assms(2) first_entry_spec [OF idx, of rid]
    by (auto simp: request_steer_def push_entry_def is_pending_steer_def split: bind_splits if_splits)
  moreover from assms(4) obtain m' where "tl_entries m' = tl_entries tml1" "tml2 = reject_steer rid m'"
    by (rule apply_at_payload) auto
  moreover have "filter (\<lambda>e. te_id e \<noteq> rid \<or> \<not> is_pending_steer (te_content e)) (tl_entries tml) = tl_entries tml"
    using assms(2) by (auto simp: position_None_iff filter_id_conv)
  ultimately show ?thesis by (auto simp: reject_steer_def reindex_entries_def)
qed

subsection \<open>Rewinds\<close>

text \<open>C33: On a well-formed timeline a confirmed rewind of the conversation forgets exactly the turns from the first one that
  carries the checkpoint on, with their entries, and what waited in the thread: approvals, a question
  to the user, the plan, the usage, the running flag and the tool clock; the status is again that of
  the last turn left, no turn left carries the checkpoint, and the rest of the timeline (goal, retry,
  cursor, models, ids, elided outputs) stays as it was. A rewind of files only, or to a checkpoint no
  turn has, changes nothing at all, except that the clock of an open turn sees its timestamp as it
  sees that of any event.\<close>

theorem rewind_forgets:
  fixes tml tml' :: "'j timeline"
  assumes "tl_ok tml" and "apply_at ts (RewindCompleted checkpoint mode prompt) tml = Some tml'"
  shows "case (if includes_conversation mode
      then position (\<lambda>t. tm_provider_checkpoint_id t = Some checkpoint) (tl_turns tml) else None) of
    None \<Rightarrow> tml' = (if turn_is_open tml then tml\<lparr>tl_tool_clock := tc_observe ts (tl_tool_clock tml)\<rparr> else tml)
  | Some n \<Rightarrow> tl_turns tml' = take n (tl_turns tml) \<and> n < length (tl_turns tml)
      \<and> tm_provider_checkpoint_id (tl_turns tml ! n) = Some checkpoint
      \<and> (\<forall>t\<in>set (tl_turns tml'). tm_provider_checkpoint_id t \<noteq> Some checkpoint)
      \<and> tl_entries tml' = filter (\<lambda>e. te_turn e < n) (tl_entries tml)
      \<and> tl_pending_approvals tml' = [] \<and> tl_pending_user_input tml' = None
      \<and> tl_plan_steps tml' = [] \<and> tl_plan_explanation tml' = None
      \<and> tl_usage tml' = None \<and> \<not> tl_turn_running tml' \<and> tl_tool_clock tml' = tool_clock_default
      \<and> tl_last_turn_status tml' = (if n = 0 then None else tm_status (tl_turns tml ! (n - 1)))
      \<and> tl_committed tml' = {i \<in> tl_committed tml. \<exists>e\<in>set (tl_entries tml'). te_id e = i}
      \<and> (\<exists>b. tml' = tml\<lparr>tl_turns := tl_turns tml', tl_entries := tl_entries tml', tl_entry_index := entry_index_default,
          tl_tool_clock := tool_clock_default, tl_turn_running := False, tl_pending_approvals := [], tl_pending_user_input := None,
          tl_plan_steps := [], tl_plan_explanation := None, tl_usage := None, tl_last_turn_status := tl_last_turn_status tml',
          tl_committed := tl_committed tml', tl_boundaries := b\<rparr>
        \<and> tb_turns b = take n (tb_turns (tl_boundaries tml)) \<and> \<not> tb_compacting b)"
proof -
  let ?p = "\<lambda>t. tm_provider_checkpoint_id t = Some checkpoint"
  let ?seen = "if turn_is_open tml then tml\<lparr>tl_tool_clock := tc_observe ts (tl_tool_clock tml)\<rparr> else tml"
  define found where "found = (if includes_conversation mode then position ?p (tl_turns tml) else None)"
  have "position (\<lambda>t. bd_checkpoint t = Some checkpoint) (tb_turns (tl_boundaries tml)) = position ?p (tl_turns tml)"
    using tl_ok_D(2) [OF assms(1)] by (simp add: position_map comp_def turn_boundary_def)
  then have pos: "(if includes_conversation mode
      then position (\<lambda>t. bd_checkpoint t = Some checkpoint) (tb_turns (tl_boundaries tml)) else None) = found"
    by (simp add: found_def)
  show ?thesis
  proof (cases found)
    case None
    with assms(2) pos have "tml' = ?seen"
      by (auto simp: apply_at_def tb_apply_def Let_def split: if_splits)
    then show ?thesis using None by (simp add: found_def)
  next
    case (Some n)
    define b where "b = (tl_boundaries tml)\<lparr>tb_turns := take n (tb_turns (tl_boundaries tml)),
      tb_users := retain_map (\<lambda>_ u. us_turn u < n) (tb_users (tl_boundaries tml)), tb_compacting := False\<rparr>"
    have b: "tb_turns b = take n (tb_turns (tl_boundaries tml))" "\<not> tb_compacting b" by (simp_all add: b_def)
    have "includes_conversation mode" using Some by (simp add: found_def split: if_splits)
    then have tml': "tml' = rewind_conversation n (?seen\<lparr>tl_boundaries := b\<rparr>)"
      using assms(2) pos Some by (simp add: apply_at_def tb_apply_def Let_def b_def split: if_splits)
    from Some have at: "position ?p (tl_turns tml) = Some n" by (simp add: found_def split: if_splits)
    from position_less [OF this] have n: "n < length (tl_turns tml)" .
    have "\<forall>t\<in>set (take n (tl_turns tml)). \<not> ?p t" "?p (tl_turns tml ! n)"
      using at by (auto simp: position_Some_iff in_set_conv_nth)
    moreover have "take n (tl_turns tml) \<noteq> [] \<Longrightarrow> last (take n (tl_turns tml)) = tl_turns tml ! (n - 1)"
      using n by (simp add: last_conv_nth)
    moreover have "tl_turns tml' = take n (tl_turns tml)" "tl_entries tml' = filter (\<lambda>e. te_turn e < n) (tl_entries tml)"
      "tl_pending_approvals tml' = []" "tl_pending_user_input tml' = None" "tl_plan_steps tml' = []"
      "tl_plan_explanation tml' = None" "tl_usage tml' = None" "\<not> tl_turn_running tml'"
      "tl_tool_clock tml' = tool_clock_default"
      "tl_last_turn_status tml' = (if take n (tl_turns tml) = [] then None else tm_status (last (take n (tl_turns tml))))"
      "tl_committed tml' = {i \<in> tl_committed tml. i \<in> te_id ` set (tl_entries tml')}"
      unfolding tml' by (simp_all add: rewind_conversation_def Let_def)
    moreover have "tml' = tml\<lparr>tl_turns := tl_turns tml', tl_entries := tl_entries tml', tl_entry_index := entry_index_default,
          tl_tool_clock := tool_clock_default, tl_turn_running := False, tl_pending_approvals := [], tl_pending_user_input := None,
          tl_plan_steps := [], tl_plan_explanation := None, tl_usage := None, tl_last_turn_status := tl_last_turn_status tml',
          tl_committed := tl_committed tml', tl_boundaries := b\<rparr>"
      unfolding tml' by (simp add: rewind_conversation_def Let_def)
    moreover have "take n (tl_turns tml) = [] \<longleftrightarrow> n = 0" using n by auto
    moreover have "{i \<in> tl_committed tml. i \<in> te_id ` set (tl_entries tml')}
        = {i \<in> tl_committed tml. \<exists>e\<in>set (tl_entries tml'). te_id e = i}" by auto
    ultimately show ?thesis using n b Some unfolding found_def [symmetric]
      by (simp only: option.case simp_thms) (metis (no_types))
  qed
qed

subsection \<open>Usage\<close>

definition processed_total :: "'j timeline \<Rightarrow> u64 option" where
  "processed_total tml = Option.bind (tl_usage tml) tu_total_processed_tokens"

lemma complete_turn_usage:
  assumes "tb_current (tl_boundaries m) = Some i" and "i < length (tl_turns m)"
    and "complete_turn ts status (Some u) m = Some m'"
  shows "tl_usage m' = Some (completed_usage (tm_status (tl_turns m ! i) = None) (tl_usage m) u)"
    "length (tl_turns m') = length (tl_turns m)" "tm_status (tl_turns m' ! i) = Some status"
    "tl_boundaries m' = tl_boundaries m"
  using assms
  by (auto simp: complete_turn_def update_turn_Some Let_def finished_turn_def split: option.splits)

text \<open>A completion event, on the turn that is current.\<close>

lemma completion_usage:
  fixes tml tml' :: "'j timeline"
  assumes "tl_ok tml" and "tl_turns tml \<noteq> []"
    and "apply_at ts (TurnCompleted tid status (Some u)) tml = Some tml'"
  shows "tl_usage tml' = Some (completed_usage (tm_status (last (tl_turns tml)) = None) (tl_usage tml) u)"
    "tl_turns tml' \<noteq> []" "tm_status (last (tl_turns tml')) = Some status" "tl_ok tml'"
proof -
  from assms(3) obtain b c m where m: "tb_apply (TurnCompleted tid status (Some u) :: 'j agent_event) (tl_boundaries tml) = Some (b, c)"
    "apply_event (TurnCompleted tid status (Some u)) ts c m = Some tml'" "tl_boundaries m = b" "tl_usage m = tl_usage tml"
    "tl_turns m = tl_turns tml"
    by (rule apply_at_payload) (rule that, assumption+, simp_all)
  let ?i = "length (tl_turns tml) - 1"
  have cur: "tb_current (tl_boundaries m) = Some ?i"
    unfolding m(3) using m(1) tl_ok_D(2) [OF assms(1)] assms(2) by (auto simp: tb_apply_def tb_current_def last_index_def)
  have less: "?i < length (tl_turns m)" using assms(2) m(5) by simp
  note fin = complete_turn_usage [OF cur less m(2) [unfolded apply_event.simps]]
  show ne: "tl_turns tml' \<noteq> []" using fin(2) assms(2) m(5) by auto
  show "tl_usage tml' = Some (completed_usage (tm_status (last (tl_turns tml)) = None) (tl_usage tml) u)"
    using fin(1) m(4,5) assms(2) by (simp add: last_conv_nth)
  show "tm_status (last (tl_turns tml')) = Some status"
    using fin(2,3) m(5) ne by (simp add: last_conv_nth)
  show "tl_ok tml'" using apply_at_ok [OF assms(1), of "TurnCompleted tid status (Some u)" ts] assms(3)
    by (auto simp: returns_ok_def)
qed

lemma sat_add_0 [simp]: "sat_add a 0 = (a :: 'a::len word)"
  by (simp add: sat_add_def unsigned_less)

text \<open>The tokens of a turn are counted once. The first completion of a turn adds its processed
  tokens to the running total (saturating), and a second completion of the same turn adds none.\<close>

theorem processed_tokens_counted_once:
  assumes "tl_ok tml" and "tl_turns tml \<noteq> []" and "tm_status (last (tl_turns tml)) = None"
    and "tu_turn_processed_tokens u = Some n" and "tu_turn_processed_tokens u' = Some n'"
    and "apply_at ts (TurnCompleted tid status (Some u)) tml = Some tml1"
    and "apply_at ts' (TurnCompleted tid' status' (Some u')) tml1 = Some tml2"
  shows "processed_total tml1 = Some (sat_add (case processed_total tml of None \<Rightarrow> 0 | Some k \<Rightarrow> k) n)
    \<and> processed_total tml2 = processed_total tml1"
proof -
  note first = completion_usage [OF assms(1,2,6)]
  note second = completion_usage [OF first(4,2) assms(7)]
  show ?thesis
    using first(1,3) second(1) assms(3-5)
    by (simp add: processed_total_def completed_usage_def Let_def split: option.split)
qed

subsection \<open>Liveness handed over by the host\<close>

lemma settle_boundaries:
  "map (\<lambda>(i, t). t\<lparr>bd_running := P i\<rparr>) (enumerate k (map turn_boundary turns))
    = map turn_boundary (map (\<lambda>(i, t). t\<lparr>tm_running := P i\<rparr>) (enumerate k turns))"
  by (induction turns arbitrary: k) (auto simp: turn_boundary_def)

text \<open>settling a timeline with the liveness a host reports never panics, whatever turn the host
  names, and afterwards exactly that turn is running, and only if the host says so; the timeline
  stays well formed, so later events can be applied to it.\<close>

theorem settle_running_turn_safe:
  assumes "tl_ok tml"
  shows "\<exists>tml'. settle_running_turn alive running started tml = Some tml' \<and> tl_ok tml'
    \<and> length (tl_turns tml') = length (tl_turns tml) \<and> tl_entries tml' = tl_entries tml
    \<and> (\<forall>i < length (tl_turns tml). tm_running (tl_turns tml' ! i) \<longleftrightarrow> alive \<and> running = Some i)"
proof -
  note ok = tl_ok_D [OF assms]
  define r where "r = (case running of None \<Rightarrow> None
    | Some turn \<Rightarrow> if alive \<and> turn < length (tl_turns tml) then Some turn else None)"
  define turns where "turns = map (\<lambda>(i, t). t\<lparr>tm_running := (r = Some i)\<rparr>) (enumerate 0 (tl_turns tml))"
  define tml1 where "tml1 = tml\<lparr>tl_turn_running := alive,
    tl_boundaries := tb_settle_running r (tl_boundaries tml), tl_turns := turns\<rparr>"
  have len: "length turns = length (tl_turns tml)" by (simp add: turns_def)
  have sync: "tb_turns (tb_settle_running r (tl_boundaries tml)) = map turn_boundary turns"
    using ok(2) settle_boundaries [of "\<lambda>i. r = Some i" 0] by (simp add: tb_settle_running_def turns_def)
  have "tb_ok (tb_settle_running r (tl_boundaries tml))" using ok(1) by (simp add: tb_ok_def)
  with assms sync len have ok1: "tl_ok tml1"
    by (simp add: tml1_def tl_ok_def entries_placed_def entries_indexed_def entry_ids_def)
  have "i < length (tl_turns tml) \<Longrightarrow> tm_running (turns ! i) \<longleftrightarrow> alive \<and> running = Some i" for i
    by (auto simp: turns_def nth_enumerate_eq r_def split: option.splits)
  note run = this
  have eq: "settle_running_turn alive running started tml = (case r of None \<Rightarrow> Some tml1
      | Some turn \<Rightarrow> (case started of None \<Rightarrow> Some tml1
        | Some t \<Rightarrow> update_turn turn (\<lambda>m. m\<lparr>tm_start_ts := Some t\<rparr>) tml1))"
    unfolding settle_running_turn_def r_def [symmetric] Let_def turns_def [symmetric] tml1_def [symmetric] ..
  show ?thesis
  proof (cases "r = None \<or> started = None")
    case True
    then have "settle_running_turn alive running started tml = Some tml1" by (auto simp: eq split: option.split)
    with ok1 len run show ?thesis by (simp add: tml1_def)
  next
    case False
    then obtain turn t where rt: "r = Some turn" "started = Some t" by auto
    have less: "turn < length turns" using rt(1) len by (auto simp: r_def split: option.splits if_splits)
    let ?f = "\<lambda>m. m\<lparr>tm_start_ts := Some t\<rparr>"
    have "row_step tml1 (update_turn turn ?f tml1)"
      using less by (intro update_turn_changes tl_ok_D(4) [OF ok1]) (simp_all add: tml1_def turn_boundary_def)
    then have "tl_ok (tml1\<lparr>tl_turns := turns[turn := ?f (turns ! turn)]\<rparr>)"
      using less ok1 by (auto simp: row_step_def update_turn_def tml1_def tl_ok_iff same_turns_def)
    moreover have "settle_running_turn alive running started tml
        = Some (tml1\<lparr>tl_turns := turns[turn := ?f (turns ! turn)]\<rparr>)"
      using less by (simp add: eq [unfolded rt] rt update_turn_def tml1_def)
    ultimately show ?thesis
      using len run less by (auto simp: tml1_def nth_list_update)
  qed
qed

subsection \<open>Examples\<close>

text \<open>The timelines of short live runs, evaluated by the kernel.\<close>

definition run_events :: "nat agent_event list \<Rightarrow> nat timeline option" where
  "run_events events = fold_opt (apply_at (Some 5)) events timeline_default"

lemma run_events_ok: "run_events events = Some tml \<Longrightarrow> tl_ok tml"
  unfolding run_events_def by (rule live.run_keeps [OF tl_ok_default])

lemma run_events_snoc:
  "run_events (events @ [e]) = Option.bind (run_events events) (apply_at (Some 5) e)"
proof -
  have "fold_opt (apply_at (Some 5)) [] = (Some :: nat timeline \<Rightarrow> _)" by (rule ext) simp
  then have "fold_opt (apply_at (Some 5)) [e] = apply_at (Some 5) e"
    by (intro ext) (simp add: bind_runit)
  then show ?thesis by (simp only: run_events_def fold_opt_append)
qed

lemma evaluated: "map_option f x = Some y \<Longrightarrow> \<exists>z. x = Some z \<and> f z = y"
  by (cases x) auto

theorem system_row_fresh_witness:
  "\<exists>tml tml' row. run_events [TurnStarted ''t1'', Error ''first'' False] = Some tml
    \<and> push_system_row ''error'' (EntryError ''second'' None) (Some 5) tml = Some tml'
    \<and> tl_entries tml' = tl_entries tml @ [row] \<and> te_id row \<notin> te_id ` set (tl_entries tml)
    \<and> length (tl_entries tml) = 1"
proof -
  have "map_option (\<lambda>tml. (length (tl_entries tml),
      push_system_row ''error'' (EntryError ''second'' None) (Some 5) tml = None))
    (run_events [TurnStarted ''t1'', Error ''first'' False]) = Some (1, False)" by code_simp
  from evaluated [OF this] obtain tml tml' where
    run: "run_events [TurnStarted ''t1'', Error ''first'' False] = Some tml" "length (tl_entries tml) = 1"
    "push_system_row ''error'' (EntryError ''second'' None) (Some 5) tml = Some tml'" by auto
  from system_row_fresh [OF run_events_ok [OF run(1)] run(3)] run show ?thesis by blast
qed

theorem rejected_steer_leaves_no_row_witness:
  "\<exists>tml1 tml2. apply_at (Some 5) (SteerRequested ''r'' ''stop'' []) (timeline_default :: nat timeline) = Some tml1
    \<and> length (tl_entries tml1) = 1
    \<and> apply_at (Some 6) (SteerRejected ''r'') tml1 = Some tml2 \<and> tl_entries tml2 = []"
proof -
  have "map_option (\<lambda>tml. length (tl_entries tml)) (run_events [SteerRequested ''r'' ''stop'' []]) = Some 1"
    by code_simp
  from evaluated [OF this] obtain tml1 where
    one: "apply_at (Some 5) (SteerRequested ''r'' ''stop'' []) (timeline_default :: nat timeline) = Some tml1"
    "length (tl_entries tml1) = 1"
    by (auto simp: run_events_def split: bind_splits)
  note ok1 = live.step_keeps [OF tl_ok_default one(1)]
  obtain tml2 where two: "apply_at (Some 6) (SteerRejected ''r'') tml1 = Some tml2"
    using live.step_safe [OF ok1] by blast
  have "position (\<lambda>e. te_id e = ''r'') (tl_entries (timeline_default :: nat timeline)) = None"
    by (simp add: timeline_default_def)
  from rejected_steer_leaves_no_row [OF tl_ok_default this one(1) two] one two
  show ?thesis by (auto simp: timeline_default_def)
qed

theorem rewind_forgets_witness:
  "\<exists>tml tml'. run_events [TurnStarted ''t1'', TurnCheckpoint ''t1'' ''c1'', TurnCompleted ''t1'' TurnStatusCompleted None,
        TurnStarted ''t2'', TurnCheckpoint ''t2'' ''c2'', TurnCompleted ''t2'' TurnStatusCompleted None] = Some tml
    \<and> apply_at (Some 9) (RewindCompleted ''c2'' FilesAndConversation None) tml = Some tml'
    \<and> length (tl_turns tml) = 2 \<and> tl_turns tml' = take 1 (tl_turns tml)"
proof -
  let ?events = "[TurnStarted ''t1'', TurnCheckpoint ''t1'' ''c1'', TurnCompleted ''t1'' TurnStatusCompleted None,
        TurnStarted ''t2'', TurnCheckpoint ''t2'' ''c2'', TurnCompleted ''t2'' TurnStatusCompleted None]"
  have "map_option (\<lambda>tml. (length (tl_turns tml),
      position (\<lambda>t. tm_provider_checkpoint_id t = Some ''c2'') (tl_turns tml))) (run_events ?events)
    = Some (2, Some 1)" by code_simp
  from evaluated [OF this] obtain tml where
    run: "run_events ?events = Some tml" "length (tl_turns tml) = 2"
    "position (\<lambda>t. tm_provider_checkpoint_id t = Some ''c2'') (tl_turns tml) = Some 1" by auto
  note ok = run_events_ok [OF run(1)]
  obtain tml' where step: "apply_at (Some 9) (RewindCompleted ''c2'' FilesAndConversation None) tml = Some tml'"
    using live.step_safe [OF ok] by blast
  from rewind_forgets [OF ok step] run step show ?thesis
    by (auto simp: includes_conversation_def)
qed

definition example_usage :: "u64 \<Rightarrow> token_usage" where
  "example_usage n = token_usage_default\<lparr>tu_turn_processed_tokens := Some n\<rparr>"

theorem processed_tokens_counted_once_witness:
  "\<exists>tml1 tml2. run_events [TurnStarted ''t1'', TurnCompleted ''t1'' TurnStatusCompleted (Some (example_usage 7))] = Some tml1
    \<and> apply_at (Some 6) (TurnCompleted ''t1'' TurnStatusCompleted (Some (example_usage 8))) tml1 = Some tml2
    \<and> processed_total tml1 = Some 7 \<and> processed_total tml2 = Some 7"
proof -
  let ?done = "TurnCompleted ''t1'' TurnStatusCompleted (Some (example_usage 7)) :: nat agent_event"
  have "map_option (\<lambda>tml. (map tm_status (tl_turns tml), processed_total tml)) (run_events [TurnStarted ''t1''])
    = Some ([None], None)" by code_simp
  from evaluated [OF this] obtain tml where
    run: "run_events [TurnStarted ''t1''] = Some tml" "map tm_status (tl_turns tml) = [None]"
    "processed_total tml = None" by auto
  note ok = run_events_ok [OF run(1)]
  obtain tml1 where one: "apply_at (Some 5) ?done tml = Some tml1" "tl_ok tml1"
    using live.step_safe [OF ok] by blast
  obtain tml2 where two: "apply_at (Some 6) (TurnCompleted ''t1'' TurnStatusCompleted (Some (example_usage 8))) tml1 = Some tml2"
    using live.step_safe [OF one(2)] by blast
  have turns: "tl_turns tml \<noteq> []" "tm_status (last (tl_turns tml)) = None"
    using run(2) by auto
  have "run_events ([TurnStarted ''t1''] @ [?done]) = Some tml1"
    using run(1) one(1) by (simp only: run_events_snoc bind.bind_lunit)
  moreover have "processed_total tml1 = Some 7" "processed_total tml2 = processed_total tml1"
    using processed_tokens_counted_once [OF ok turns _ _ one(1) two, of 7 8] run(3)
    by (simp_all add: example_usage_def sat_add_def)
  ultimately show ?thesis using two by auto
qed

theorem settle_running_turn_safe_witness:
  "\<exists>tml tml'. run_events [TurnStarted ''t1'', TurnCompleted ''t1'' TurnStatusCompleted None, TurnStarted ''t2''] = Some tml
    \<and> settle_running_turn True (Some 1) (Some 8) tml = Some tml'
    \<and> map tm_running (tl_turns tml') = [False, True]"
proof -
  let ?events = "[TurnStarted ''t1'', TurnCompleted ''t1'' TurnStatusCompleted None, TurnStarted ''t2'']"
  have "map_option (\<lambda>tml. length (tl_turns tml)) (run_events ?events) = Some 2" by code_simp
  from evaluated [OF this] obtain tml where
    run: "run_events ?events = Some tml" "length (tl_turns tml) = 2" by auto
  from settle_running_turn_safe [OF run_events_ok [OF run(1)], of True "Some 1" "Some 8"] run(2)
  obtain tml' where settled: "settle_running_turn True (Some 1) (Some 8) tml = Some tml'"
    "length (tl_turns tml') = 2"
    "\<forall>i < 2. tm_running (tl_turns tml' ! i) \<longleftrightarrow> i = 1" by auto
  have "map tm_running (tl_turns tml') = [False, True]"
    using settled(2,3) by (intro nth_equalityI) (auto simp: less_2_cases_iff)
  with run(1) settled(1) show ?thesis by (intro exI conjI)
qed

end
