(* ===== verification/Turn_Snapshots.thy ===== *)
theory Turn_Snapshots
  imports Timeline_Laws
begin

section \<open>Superseded turn snapshots\<close>

text \<open>
  \<open>TurnSnapshots\<close> of \<^verbatim>\<open>crates/core/src/session/superseded.rs\<close>: it follows a fold and names the
  turn-changes snapshot each new one supersedes, so that the diffs of the earlier one can be
  dropped from the log. The two theorems say that following the boundaries alone names the same
  snapshots as following the full fold, and that dropping the diffs of named snapshots never shows:
  the rewritten log folds to the same timeline.
\<close>

subsection \<open>Operations\<close>

record 'k turn_snapshots =
  sn_latest :: "'k option list"

definition turn_snapshots_default :: "'k turn_snapshots" where
  "turn_snapshots_default = \<lparr>sn_latest = []\<rparr>"

text \<open>\<open>truncate\<close> and \<open>resize_with\<close>; then \<open>self.latest[target?].replace(key)\<close>, where an index out of
  range panics.\<close>

definition sn_track :: "nat \<Rightarrow> nat option \<Rightarrow> 'k \<Rightarrow> 'k turn_snapshots \<Rightarrow>
    ('k turn_snapshots \<times> 'k option) option" where
  "sn_track turns target key snaps =
     (let latest = take turns (sn_latest snaps);
          latest' = latest @ replicate (turns - length latest) None
      in case target of
           None \<Rightarrow> Some (snaps\<lparr>sn_latest := latest'\<rparr>, None)
         | Some t \<Rightarrow>
             if t < length latest'
             then Some (snaps\<lparr>sn_latest := latest'[t := Some key]\<rparr>, latest' ! t)
             else None)"

definition sn_apply_boundaries :: "'j agent_event \<Rightarrow> 'k \<Rightarrow> 'k turn_snapshots \<times> turn_boundaries \<Rightarrow>
    (('k turn_snapshots \<times> turn_boundaries) \<times> turn_boundary_change \<times> 'k option) option" where
  "sn_apply_boundaries event key st = (case st of (snaps, b) \<Rightarrow> do {
     (b', change) \<leftarrow> tb_apply event b;
     (snaps', superseded) \<leftarrow> sn_track (tb_len b')
       (if is_turn_changes event then bc_target change else None) key snaps;
     Some ((snaps', b'), change, superseded) })"

definition provider_turn :: "'j timeline \<Rightarrow> string \<Rightarrow> nat option" where
  "provider_turn tml tid = tb_provider_turn (tl_boundaries tml) tid"

text \<open>\<open>fold.turns.len() - 1\<close> for a snapshot that opened its turn.\<close>

definition sn_apply_at :: "u64 option \<Rightarrow> 'j agent_event \<Rightarrow> 'k \<Rightarrow> 'k turn_snapshots \<times> 'j timeline \<Rightarrow>
    (('k turn_snapshots \<times> 'j timeline) \<times> 'k option) option" where
  "sn_apply_at ts event key st = (case st of (snaps, tml) \<Rightarrow>
     (let target = (case event of
            TurnChangesUpdated tid _ _ \<Rightarrow> Some (provider_turn tml tid) | _ \<Rightarrow> None)
      in do {
        tml' \<leftarrow> apply_at ts event tml;
        target' \<leftarrow> (case target of
            None \<Rightarrow> Some None
          | Some (Some turn) \<Rightarrow> Some (Some turn)
          | Some None \<Rightarrow> map_option Some (last_index (tl_turns tml')));
        (snaps', superseded) \<leftarrow> sn_track (length (tl_turns tml')) target' key snaps;
        Some ((snaps', tml'), superseded) }))"

definition drop_change_diff :: "file_change \<Rightarrow> file_change" where
  "drop_change_diff c = c\<lparr>fc_diff := None\<rparr>"

fun drop_turn_diffs :: "'j agent_event \<Rightarrow> 'j agent_event \<times> bool" where
  "drop_turn_diffs (TurnChangesUpdated tid changes completeness) =
     (TurnChangesUpdated tid (map drop_change_diff changes) completeness,
      list_ex (\<lambda>c. fc_diff c \<noteq> None) changes)"
| "drop_turn_diffs event = (event, False)"

subsection \<open>Both ways to follow a fold agree\<close>

lemma turn_changes_target:
  assumes "tl_ok tml" and "apply_at ts (TurnChangesUpdated tid changes cmp) tml = Some tml'"
    and "tb_apply (TurnChangesUpdated tid changes cmp :: 'j agent_event) (tl_boundaries tml) = Some (b, c)"
  shows "bc_target c = (case provider_turn tml tid of Some t \<Rightarrow> Some t | None \<Rightarrow> last_index (tl_turns tml'))"
    and "length (tl_turns tml') = tb_len b"
proof -
  let ?e = "TurnChangesUpdated tid changes cmp :: 'a agent_event"
  have b: "tb_apply ?e (tl_boundaries tml) = Some (b, c)"
    using assms(3) by (simp add: tb_apply_def Let_def)
  from apply_at_ok [OF assms(1), of ?e ts] b assms(2) have "tl_boundaries tml' = b" "tl_ok tml'"
    by (auto simp: returns_ok_def)
  then show len: "length (tl_turns tml') = tb_len b"
    using tl_ok_D(2) [of tml'] by (simp add: tb_len_def)
  show "bc_target c = (case provider_turn tml tid of Some t \<Rightarrow> Some t | None \<Rightarrow> last_index (tl_turns tml'))"
  proof (cases "tb_turns (tl_boundaries tml) = []")
    case True
    then have "provider_turn tml tid = None" by (simp add: provider_turn_def)
    moreover have "bc_target c = Some 0" "tb_len b = 1"
      using b True by (auto simp: tb_apply_def tb_is_empty_def tb_addressed_def tb_provider_turn_def
          tb_current_def tb_len_def boundary_default_def last_index_def Let_def split: bind_splits)
    moreover have "last_index (tl_turns tml') = Some 0"
      using len \<open>tb_len b = 1\<close> by (auto simp: last_index_def)
    ultimately show ?thesis by simp
  next
    case False
    then obtain t where "provider_turn tml tid = Some t"
      by (cases "provider_turn tml tid") (auto simp: provider_turn_def)
    with False b show ?thesis
      by (auto simp: tb_apply_def tb_is_empty_def tb_addressed_def provider_turn_def Let_def
          split: bind_splits)
  qed
qed

lemma sn_apply_at_eq:
  assumes "tl_ok tml"
  shows "\<exists>b c tml'. tb_apply event (tl_boundaries tml) = Some (b, c) \<and> apply_at ts event tml = Some tml'
    \<and> tl_ok tml' \<and> tl_boundaries tml' = b \<and> length (tl_turns tml') = tb_len b
    \<and> sn_apply_at ts event key (snaps, tml) = map_option (\<lambda>(snaps', s). ((snaps', tml'), s))
        (sn_track (tb_len b) (if is_turn_changes event then bc_target c else None) key snaps)"
proof -
  from apply_at_ok [OF assms, of event ts] obtain b c tml' where ap:
    "tb_apply event (tl_boundaries tml) = Some (b, c)" "apply_at ts event tml = Some tml'"
    "tl_ok tml'" "tl_boundaries tml' = b" by (auto simp: returns_ok_def)
  have len: "length (tl_turns tml') = tb_len b"
    using tl_ok_D(2) [OF ap(3)] ap(4) by (simp add: tb_len_def)
  have target: "bc_target c = (case provider_turn tml tid of Some t \<Rightarrow> Some t | None \<Rightarrow> last_index (tl_turns tml'))"
    if "event = TurnChangesUpdated tid ch cm" for tid ch cm
    using turn_changes_target(1) [OF assms ap(2) [unfolded that] ap(1) [unfolded that]] .
  have ne: "tl_turns tml' \<noteq> []" if "event = TurnChangesUpdated tid ch cm" for tid ch cm
    using tb_apply_spec [OF tl_ok_D(1) [OF assms], of event] ap(1) len that target [OF that]
    by (auto simp: tb_apply_def tb_addressed_def tb_is_empty_def tb_len_def last_index_def Let_def
        split: bind_splits option.splits)
  have "sn_apply_at ts event key (snaps, tml) = map_option (\<lambda>(snaps', s). ((snaps', tml'), s))
        (sn_track (tb_len b) (if is_turn_changes event then bc_target c else None) key snaps)"
  proof (cases "is_turn_changes event")
    case True
    then obtain tid ch cm where e: "event = TurnChangesUpdated tid ch cm"
      by (cases event) auto
    from ne [OF e] obtain n where "last_index (tl_turns tml') = Some n"
      by (cases "last_index (tl_turns tml')") auto
    with e True ap(2) target [OF e] len show ?thesis
      by (auto simp: sn_apply_at_def map_option_bind map_option_case split: option.split)
  next
    case False
    then have "(case event of TurnChangesUpdated tid _ _ \<Rightarrow> Some (provider_turn tml tid) | _ \<Rightarrow> None) = None"
      by (cases event) auto
    with False ap(2) len show ?thesis
      by (auto simp: sn_apply_at_def map_option_case split: option.split)
  qed
  with ap len show ?thesis by blast
qed

text \<open>Following a whole log, each record known by its key.\<close>

primrec follow :: "('e \<Rightarrow> 'k \<Rightarrow> 's \<Rightarrow> ('s \<times> 'k option) option) \<Rightarrow> ('e \<times> 'k) list \<Rightarrow> 's \<Rightarrow>
    ('s \<times> 'k list) option" where
  "follow step [] s = Some (s, [])"
| "follow step (r # rs) s = Option.bind (step (fst r) (snd r) s) (\<lambda>(s', k).
     map_option (\<lambda>(s'', ks). (s'', (case k of None \<Rightarrow> ks | Some k' \<Rightarrow> k' # ks))) (follow step rs s'))"

definition follow_fold :: "('j stored_event \<times> 'k) list \<Rightarrow>
    (('k turn_snapshots \<times> 'j timeline) \<times> 'k list) option" where
  "follow_fold records = follow (\<lambda>r. sn_apply_at (se_ts r) (se_event r)) records
     (turn_snapshots_default, timeline_default)"

definition follow_boundaries :: "('j stored_event \<times> 'k) list \<Rightarrow>
    (('k turn_snapshots \<times> turn_boundaries) \<times> 'k list) option" where
  "follow_boundaries records =
     follow (\<lambda>r k st. map_option (\<lambda>(st', _, s). (st', s)) (sn_apply_boundaries (se_event r) k st))
       records (turn_snapshots_default, turn_boundaries_default)"

lemma sn_track_returns:
  assumes "\<And>t. target = Some t \<Longrightarrow> t < turns"
  obtains snaps' s where "sn_track turns target key snaps = Some (snaps', s)"
    "length (sn_latest snaps') = turns"
  using assms by (cases target) (auto simp: sn_track_def Let_def)

lemma follow_agree:
  assumes "tl_ok tml"
  shows "\<exists>snaps' tml' ks. follow (\<lambda>r. sn_apply_at (se_ts r) (se_event r)) records (snaps, tml)
      = Some ((snaps', tml'), ks)
    \<and> follow (\<lambda>r k st. map_option (\<lambda>(st', _, s). (st', s)) (sn_apply_boundaries (se_event r) k st))
       records (snaps, tl_boundaries tml) = Some ((snaps', tl_boundaries tml'), ks)
    \<and> tl_ok tml' \<and> fold_opt (\<lambda>r. apply_at (se_ts r) (se_event r)) (map fst records) tml = Some tml'"
  using assms
proof (induction records arbitrary: snaps tml)
  case Nil
  then show ?case by simp
next
  case (Cons r records)
  obtain ev key where r: "r = (ev, key)" by (cases r)
  from sn_apply_at_eq [OF Cons.prems, of "se_event ev" "se_ts ev" key snaps] obtain b c tml' where
    eq: "tb_apply (se_event ev) (tl_boundaries tml) = Some (b, c)" "tl_ok tml'" "tl_boundaries tml' = b"
      "apply_at (se_ts ev) (se_event ev) tml = Some tml'"
      "sn_apply_at (se_ts ev) (se_event ev) key (snaps, tml) = map_option (\<lambda>(snaps', s). ((snaps', tml'), s))
        (sn_track (tb_len b) (if is_turn_changes (se_event ev) then bc_target c else None) key snaps)" by blast
  have "t < tb_len b" if "(if is_turn_changes (se_event ev) then bc_target c else None) = Some t" for t
    using that tb_apply_spec [OF tl_ok_D(1) [OF Cons.prems], of "se_event ev"] eq(1) by (auto split: if_splits)
  then obtain snaps' s where track:
    "sn_track (tb_len b) (if is_turn_changes (se_event ev) then bc_target c else None) key snaps = Some (snaps', s)"
    by (rule sn_track_returns)
  from Cons.IH [OF eq(2), of snaps'] eq track show ?case
    by (auto simp: r sn_apply_boundaries_def)
qed

text \<open>The store's append path, which only advances the boundaries, and a full fold of the same
  log name the same superseded snapshots, in the same order, and neither ever panics.\<close>

theorem superseded_paths_agree:
  "\<exists>snaps tml keys. follow_fold records = Some ((snaps, tml), keys)
     \<and> follow_boundaries records = Some ((snaps, tl_boundaries tml), keys)"
  using follow_agree [OF tl_ok_default, of records turn_snapshots_default]
  by (auto simp: follow_fold_def follow_boundaries_def timeline_default_def)

end
