(* ===== verification/Snapshot_Drops.thy ===== *)
theory Snapshot_Drops
  imports Turn_Snapshots
begin

section \<open>Dropping superseded diffs never shows\<close>

text \<open>
  Two runs of the timeline fold side by side (\<^verbatim>\<open>crates/core/src/session.rs\<close>): one over a log, one
  over the log whose superseded snapshots were rewritten by \<open>drop_turn_diffs\<close>
  (\<^verbatim>\<open>crates/core/src/session/superseded.rs\<close>). They agree on everything but the diffs of turns whose
  latest snapshot is a rewritten one, and no such turn is left at the end.
\<close>

subsection \<open>Turns up to diffs\<close>

definition strip_changes :: "turn_meta \<Rightarrow> turn_meta" where
  "strip_changes m = m\<lparr>tm_changes := map_option
     (\<lambda>cs. cs\<lparr>cs_changes := map drop_change_diff (cs_changes cs)\<rparr>) (tm_changes m)\<rparr>"

definition turns_sim :: "nat set \<Rightarrow> turn_meta list \<Rightarrow> turn_meta list \<Rightarrow> bool" where
  "turns_sim D xs ys \<longleftrightarrow> length xs = length ys
     \<and> (\<forall>i < length xs. if i \<in> D then strip_changes (xs ! i) = strip_changes (ys ! i) else xs ! i = ys ! i)"

lemma turns_sim_length: "turns_sim D xs ys \<Longrightarrow> length ys = length xs"
  by (simp add: turns_sim_def)

lemma turns_sim_empty: "turns_sim {} xs ys \<Longrightarrow> xs = ys"
  by (simp add: turns_sim_def nth_equalityI)

lemma turns_sim_push: "turns_sim D xs ys \<Longrightarrow> turns_sim D (xs @ [t]) (ys @ [t])"
  by (auto simp: turns_sim_def nth_append less_Suc_eq)

lemma turns_sim_take: "turns_sim D xs ys \<Longrightarrow> turns_sim D (take n xs) (take n ys)"
  by (auto simp: turns_sim_def)

lemma turns_sim_update:
  assumes "turns_sim D xs ys" and "\<And>m m'. strip_changes m = strip_changes m' \<Longrightarrow> strip_changes (f m) = strip_changes (f m')"
  shows "turns_sim D (xs[i := f (xs ! i)]) (ys[i := f (ys ! i)])"
proof -
  note sim = assms(1) [unfolded turns_sim_def]
  have "if j \<in> D then strip_changes (xs[i := f (xs ! i)] ! j) = strip_changes (ys[i := f (ys ! i)] ! j)
      else xs[i := f (xs ! i)] ! j = ys[i := f (ys ! i)] ! j" if "j < length xs" for j
  proof (cases "i = j")
    case True
    with sim that assms(2) [of "xs ! j" "ys ! j"] show ?thesis by (simp split: if_splits)
  next
    case False
    with sim that show ?thesis by simp
  qed
  with sim show ?thesis by (simp add: turns_sim_def)
qed

lemma turns_sim_cong:
  "turns_sim D xs ys \<Longrightarrow> (\<And>i. i < length xs \<Longrightarrow> i \<in> D \<longleftrightarrow> i \<in> D') \<Longrightarrow> turns_sim D' xs ys"
  by (auto simp: turns_sim_def)

lemma strip_changes_parts:
  assumes "strip_changes m = strip_changes m'"
  shows "tm_provider_turn_id m = tm_provider_turn_id m'" "tm_provider_checkpoint_id m = tm_provider_checkpoint_id m'"
    "tm_start_ts m = tm_start_ts m'" "tm_end_ts m = tm_end_ts m'" "tm_status m = tm_status m'"
    "tm_running m = tm_running m'" "tm_timing m = tm_timing m'" "tm_served_model m = tm_served_model m'"
    "tm_cost_usd m = tm_cost_usd m'" "tm_provider_duration_ms m = tm_provider_duration_ms m'"
    "map_option cs_completeness (tm_changes m) = map_option cs_completeness (tm_changes m')"
proof -
  have "map_option cs_completeness (tm_changes (strip_changes n)) = map_option cs_completeness (tm_changes n)" for n
    by (cases "tm_changes n") (simp_all add: strip_changes_def)
  with assms show "map_option cs_completeness (tm_changes m) = map_option cs_completeness (tm_changes m')"
    by metis
qed (use assms in \<open>cases m; cases m'; simp add: strip_changes_def\<close>)+

lemma strip_changes_overwrite:
  "strip_changes m = strip_changes m' \<Longrightarrow> m\<lparr>tm_changes := c\<rparr> = m'\<lparr>tm_changes := c\<rparr>"
  by (cases m; cases m') (simp add: strip_changes_def)

lemma turns_sim_nth:
  "turns_sim D xs ys \<Longrightarrow> i < length xs \<Longrightarrow> strip_changes (xs ! i) = strip_changes (ys ! i)"
  by (auto simp: turns_sim_def split: if_splits)

lemma turns_sim_last_status:
  "turns_sim D xs ys \<Longrightarrow> (if xs = [] then None else tm_status (last xs)) = (if ys = [] then None else tm_status (last ys))"
proof -
  assume sim: "turns_sim D xs ys"
  then have len: "length ys = length xs" by (rule turns_sim_length)
  show ?thesis
  proof (cases "xs = []")
    case True
    with len show ?thesis by simp
  next
    case False
    then have less: "length xs - 1 < length xs" by simp
    from False len have ne: "ys \<noteq> []" by auto
    from turns_sim_nth [OF sim less] have "strip_changes (last xs) = strip_changes (last ys)"
      using False ne len by (simp add: last_conv_nth)
    then have "tm_status (last xs) = tm_status (last ys)" by (rule strip_changes_parts(5))
    with False ne show ?thesis by simp
  qed
qed

subsection \<open>Operations that do not look at the turns\<close>

definition blindly :: "'j timeline \<Rightarrow> turn_meta list \<Rightarrow> 'j timeline option \<Rightarrow> 'j timeline option \<Rightarrow> bool" where
  "blindly tml x r r' \<longleftrightarrow> (\<forall>tml'. r = Some tml' \<longrightarrow>
     tl_turns tml' = tl_turns tml \<and> r' = Some (tml'\<lparr>tl_turns := x\<rparr>))"

definition follows :: "nat set \<Rightarrow> 'j timeline option \<Rightarrow> 'j timeline option \<Rightarrow> bool" where
  "follows D r r' \<longleftrightarrow> (\<forall>tml'. r = Some tml' \<longrightarrow>
     (\<exists>x'. r' = Some (tml'\<lparr>tl_turns := x'\<rparr>) \<and> turns_sim D (tl_turns tml') x'))"

lemma blindly_follows: "blindly tml x r r' \<Longrightarrow> turns_sim D (tl_turns tml) x \<Longrightarrow> follows D r r'"
  by (auto simp: blindly_def follows_def)

lemma first_entry_blind:
  "first_entry (tml\<lparr>tl_turns := x\<rparr>) key = map_option (\<lambda>(p, m). (p, m\<lparr>tl_turns := x\<rparr>)) (first_entry tml key)"
  by (cases "first_entry_at (entry_ids tml) (tl_entry_index tml) key")
    (auto simp: first_entry_def entry_ids_def)

lemma first_entry_turns: "first_entry tml key = Some (p, tml') \<Longrightarrow> tl_turns tml' = tl_turns tml"
  by (auto simp: first_entry_def)

lemma entry_known_blind:
  "entry_known (tml\<lparr>tl_turns := x\<rparr>) key = map_option (\<lambda>(p, m). (p, m\<lparr>tl_turns := x\<rparr>)) (entry_known tml key)"
  by (simp add: entry_known_def first_entry_blind option.map_comp comp_def split_beta)

lemma entry_known_turns: "entry_known tml key = Some (p, tml') \<Longrightarrow> tl_turns tml' = tl_turns tml"
  by (auto simp: entry_known_def first_entry_turns)

lemma unused_id_blind:
  fixes s :: "'j timeline"
  assumes "unused_id entry_known base d key s = Some r"
  shows "tl_turns (snd r) = tl_turns s
    \<and> unused_id entry_known base d key (s\<lparr>tl_turns := x\<rparr>) = Some (fst r, (snd r)\<lparr>tl_turns := x\<rparr>)"
proof -
  define Q where "Q = (\<lambda>(known :: 'j timeline \<Rightarrow> string \<Rightarrow> (bool \<times> 'j timeline) option) base d key (s :: 'j timeline) r. known = entry_known \<longrightarrow>
      tl_turns (snd r) = tl_turns s
      \<and> unused_id entry_known base d key (s\<lparr>tl_turns := x\<rparr>) = Some (fst r, (snd r)\<lparr>tl_turns := x\<rparr>))"
  have "Q known base d key s r"
    if IH: "\<And>known base d key s r. unused_id' known base d key s = Some r \<Longrightarrow> Q known base d key s r"
      and body: "Option.bind (known s key) (\<lambda>(found, s').
         if found then unused_id' known base (d + 1) (base @ ''-'' @ decimal d) s' else Some (key, s')) = Some r"
    for unused_id' known base d key s r
    unfolding Q_def
  proof
    assume known: "known = entry_known"
    from body known obtain found s1 where hit: "entry_known s key = Some (found, s1)"
      by (auto split: bind_splits)
    note turns = entry_known_turns [OF hit]
    show "tl_turns (snd r) = tl_turns s
      \<and> unused_id entry_known base d key (s\<lparr>tl_turns := x\<rparr>) = Some (fst r, (snd r)\<lparr>tl_turns := x\<rparr>)"
    proof (cases found)
      case True
      with body known hit have "unused_id' known base (d + 1) (base @ ''-'' @ decimal d) s1 = Some r" by simp
      from IH [OF this] known turns True hit show ?thesis
        unfolding Q_def by (subst unused_id.simps) (simp add: entry_known_blind)
    next
      case False
      with body known hit have "r = (key, s1)" by simp
      with turns False hit show ?thesis
        by (subst unused_id.simps) (simp add: entry_known_blind)
    qed
  qed
  then have "Q entry_known base d key s r"
    by (rule unused_id.raw_induct [OF _ assms])
  then show ?thesis by (simp add: Q_def)
qed

lemma synthetic_id_blind:
  assumes "synthetic_id prefix ts tml = Some (key, tml')"
  shows "tl_turns tml' = tl_turns tml"
    "synthetic_id prefix ts (tml\<lparr>tl_turns := x\<rparr>) = Some (key, tml'\<lparr>tl_turns := x\<rparr>)"
  using assms unused_id_blind [of "prefix @ ''-'' @ decimal (unat (the ts))" 1
      "prefix @ ''-'' @ decimal (unat (the ts))" tml _ x]
  by (cases ts; fastforce simp: synthetic_id_def synthetic_entry_id_def Let_def)+

lemma ensure_turn_blind [simp]: "ensure_turn (tml\<lparr>tl_turns := x\<rparr>) = ensure_turn tml"
  by (simp add: ensure_turn_def)

lemma push_entry_blind [simp]:
  "push_entry key content ts turn (tml\<lparr>tl_turns := x\<rparr>) = (push_entry key content ts turn tml)\<lparr>tl_turns := x\<rparr>"
  "tl_turns (push_entry key content ts turn tml) = tl_turns tml"
  by (simp_all add: push_entry_def)

lemma push_system_row_blind:
  "blindly tml x (push_system_row prefix content ts tml) (push_system_row prefix content ts (tml\<lparr>tl_turns := x\<rparr>))"
  by (auto simp: blindly_def push_system_row_def synthetic_id_blind split: bind_splits)

lemma begin_user_turn_blind:
  "begin_user_turn (tml\<lparr>tl_turns := x\<rparr>) = map_option (\<lambda>(t, m). (t, m\<lparr>tl_turns := x\<rparr>)) (begin_user_turn tml)"
  by (cases tml) (simp add: begin_user_turn_def ensure_turn_def option.map_comp comp_def)

lemma begin_user_turn_turns: "begin_user_turn tml = Some (t, m) \<Longrightarrow> tl_turns m = tl_turns tml"
  by (auto simp: begin_user_turn_def Let_def)

lemma begin_after_lookup:
  "first_entry tml key = Some (p, m) \<Longrightarrow> begin_user_turn m = Some (t, m') \<Longrightarrow> tl_turns m' = tl_turns tml"
  by (simp add: first_entry_turns begin_user_turn_turns)

lemma upsert_item_blind:
  "blindly tml x (upsert_item ts item tml) (upsert_item ts item (tml\<lparr>tl_turns := x\<rparr>))"
  by (auto simp: blindly_def upsert_item_def first_entry_blind begin_user_turn_blind
      dest: first_entry_turns intro: begin_after_lookup split: bind_splits option.splits)

lemma track_tool_item_blind:
  "track_tool_item ts item l (tml\<lparr>tl_turns := x\<rparr>) = (track_tool_item ts item l tml)\<lparr>tl_turns := x\<rparr>"
  "tl_turns (track_tool_item ts item l tml) = tl_turns tml"
  by (auto simp: track_tool_item_def turn_is_open_def split: option.split)

lemma item_blind:
  "blindly tml x (Option.bind (upsert_item ts item tml) (\<lambda>m. Some (track_tool_item ts item l m)))
     (Option.bind (upsert_item ts item (tml\<lparr>tl_turns := x\<rparr>)) (\<lambda>m. Some (track_tool_item ts item l m)))"
  using upsert_item_blind [of tml x ts item]
  by (cases "upsert_item ts item tml") (simp_all add: blindly_def track_tool_item_blind)

lemma request_steer_blind:
  "blindly tml x (request_steer ts rid s a tml) (request_steer ts rid s a (tml\<lparr>tl_turns := x\<rparr>))"
  by (auto simp: blindly_def request_steer_def first_entry_blind
      dest: first_entry_turns split: bind_splits if_splits)

lemma reindex_blind:
  "reindex_entries (tml\<lparr>tl_turns := x\<rparr>)\<lparr>tl_entries := es\<rparr> = reindex_entries tml\<lparr>tl_entries := es, tl_turns := x\<rparr>"
  "tl_turns (reindex_entries tml) = tl_turns tml"
  by (cases tml; simp add: reindex_entries_def)+

lemma accept_steer_blind:
  "blindly tml x (accept_steer rid target tml) (accept_steer rid target (tml\<lparr>tl_turns := x\<rparr>))"
  by (auto simp: blindly_def accept_steer_def first_entry_blind reindex_blind Let_def
      dest: first_entry_turns split: bind_splits option.splits if_splits)

lemma apply_delta_blind:
  "blindly tml x (apply_delta ts key kind d tml) (apply_delta ts key kind d (tml\<lparr>tl_turns := x\<rparr>))"
proof -
  have "streamed_entry key (tml\<lparr>tl_turns := x\<rparr>) = streamed_entry key tml"
    by (simp add: streamed_entry_def)
  then show ?thesis
    by (auto simp: blindly_def apply_delta_def split: bind_splits option.splits)
qed

lemma item_turn_blind:
  assumes "item_turn key tml = Some (t, tml')"
  shows "tl_turns tml' = tl_turns tml" "item_turn key (tml\<lparr>tl_turns := x\<rparr>) = Some (t, tml'\<lparr>tl_turns := x\<rparr>)"
  using assms
  by (auto simp: item_turn_def first_entry_blind dest: first_entry_turns split: bind_splits option.splits)

lemma compact_context_blind:
  "blindly tml x (compact_context ts c tml) (compact_context ts c (tml\<lparr>tl_turns := x\<rparr>))"
proof -
  have commute: "tml\<lparr>tl_turns := x, tl_usage := u\<rparr> = tml\<lparr>tl_usage := u, tl_turns := x\<rparr>" for u
    by (cases tml) simp
  let ?u = "case tl_usage tml of None \<Rightarrow> token_usage_default | Some u \<Rightarrow> u"
  have "blindly (tml\<lparr>tl_usage := Some (compacted_usage (cp_in_progress c) ?u)\<rparr>) x
      (push_system_row ''compacted'' (EntryContextCompacted c) ts
        (tml\<lparr>tl_usage := Some (compacted_usage (cp_in_progress c) ?u)\<rparr>))
      (push_system_row ''compacted'' (EntryContextCompacted c) ts
        (tml\<lparr>tl_turns := x, tl_usage := Some (compacted_usage (cp_in_progress c) ?u)\<rparr>))"
    unfolding commute by (rule push_system_row_blind)
  then show ?thesis
    by (simp add: blindly_def compact_context_def Let_def commute [symmetric])
qed

subsection \<open>Operations on turns\<close>

lemma update_turn_follows:
  assumes "turns_sim D (tl_turns tml) x"
    and "\<And>m m'. strip_changes m = strip_changes m' \<Longrightarrow> strip_changes (f m) = strip_changes (f m')"
  shows "follows D (update_turn i f tml) (update_turn i f (tml\<lparr>tl_turns := x\<rparr>))"
proof -
  have "turns_sim D ((tl_turns tml)[i := f (tl_turns tml ! i)]) (x[i := f (x ! i)])"
    by (rule turns_sim_update [OF assms])
  then show ?thesis
    using turns_sim_length [OF assms(1)] by (auto simp: follows_def update_turn_def index_mut_def)
qed

lemma follows_bind:
  assumes "follows D r r'"
    and "\<And>tml x. turns_sim D (tl_turns tml) x \<Longrightarrow> follows D (f tml) (f (tml\<lparr>tl_turns := x\<rparr>))"
  shows "follows D (Option.bind r f) (Option.bind r' f)"
  using assms by (fastforce simp: follows_def split: bind_splits)

lemma follows_Some:
  "turns_sim D (tl_turns tml) x \<Longrightarrow> follows D (Some tml) (Some (tml\<lparr>tl_turns := x\<rparr>))"
  by (auto simp: follows_def)

lemma strip_field:
  "strip_changes (m\<lparr>tm_start_ts := a\<rparr>) = (strip_changes m)\<lparr>tm_start_ts := a\<rparr>"
  "strip_changes (m\<lparr>tm_provider_turn_id := b\<rparr>) = (strip_changes m)\<lparr>tm_provider_turn_id := b\<rparr>"
  "strip_changes (m\<lparr>tm_provider_checkpoint_id := c\<rparr>) = (strip_changes m)\<lparr>tm_provider_checkpoint_id := c\<rparr>"
  "strip_changes (m\<lparr>tm_running := d\<rparr>) = (strip_changes m)\<lparr>tm_running := d\<rparr>"
  "strip_changes (m\<lparr>tm_status := e\<rparr>) = (strip_changes m)\<lparr>tm_status := e\<rparr>"
  "strip_changes (m\<lparr>tm_end_ts := f\<rparr>) = (strip_changes m)\<lparr>tm_end_ts := f\<rparr>"
  "strip_changes (m\<lparr>tm_timing := g\<rparr>) = (strip_changes m)\<lparr>tm_timing := g\<rparr>"
  "strip_changes (m\<lparr>tm_served_model := h\<rparr>) = (strip_changes m)\<lparr>tm_served_model := h\<rparr>"
  "strip_changes (m\<lparr>tm_cost_usd := k\<rparr>) = (strip_changes m)\<lparr>tm_cost_usd := k\<rparr>"
  "strip_changes (m\<lparr>tm_provider_duration_ms := l\<rparr>) = (strip_changes m)\<lparr>tm_provider_duration_ms := l\<rparr>"
  by (cases m; simp add: strip_changes_def)+

lemma strip_changes_set:
  "strip_changes m = strip_changes m' \<Longrightarrow> strip_changes (m\<lparr>tm_changes := c\<rparr>) = strip_changes (m'\<lparr>tm_changes := c\<rparr>)"
  using strip_changes_overwrite by metis

lemma strip_finished:
  assumes "strip_changes m = strip_changes m'"
  shows "strip_changes (finished_turn ts status u clock m) = strip_changes (finished_turn ts status u clock m')"
proof -
  have "tm_end_ts m = tm_end_ts m'" using strip_changes_parts(4) [OF assms] .
  then show ?thesis
    by (cases ts; cases u) (simp_all add: finished_turn_def Let_def strip_field assms split: option.split)
qed

lemma refresh_follows:
  assumes "turns_sim D (tl_turns tml) x"
  shows "follows D (refresh_partial_turn_changes i tml) (refresh_partial_turn_changes i (tml\<lparr>tl_turns := x\<rparr>))"
proof (cases "i < length (tl_turns tml)")
  case False
  then show ?thesis by (simp add: refresh_partial_turn_changes_def index_def follows_def)
next
  case True
  then have ix: "i < length x" using turns_sim_length [OF assms] by simp
  have "map_option cs_completeness (tm_changes (tl_turns tml ! i)) = map_option cs_completeness (tm_changes (x ! i))"
    using strip_changes_parts(11) [OF turns_sim_nth [OF assms True]] .
  then have same: "(case tm_changes (tl_turns tml ! i) of Some c \<Rightarrow> cs_completeness c = Exact | None \<Rightarrow> False)
      = (case tm_changes (x ! i) of Some c \<Rightarrow> cs_completeness c = Exact | None \<Rightarrow> False)"
    by (auto split: option.splits)
  have set: "follows D (update_turn i (\<lambda>t. t\<lparr>tm_changes := c\<rparr>) tml)
      (update_turn i (\<lambda>t. t\<lparr>tm_changes := c\<rparr>) (tml\<lparr>tl_turns := x\<rparr>))" for c
    by (rule update_turn_follows [OF assms]) (rule strip_changes_set)
  have frag: "committed_fragments i (tml\<lparr>tl_turns := x\<rparr>) = committed_fragments i tml"
    by (simp add: committed_fragments_def)
  show ?thesis
    using same True ix assms
      set
    by (simp add: refresh_partial_turn_changes_def frag follows_Some)
qed

lemma commit_follows:
  assumes "turns_sim D (tl_turns tml) x"
  shows "follows D (commit_file_change item tml) (commit_file_change item (tml\<lparr>tl_turns := x\<rparr>))"
proof (cases "\<exists>changes. ti_content item = FileChange changes Completed")
  case False
  then have "commit_file_change item m = Some m" for m :: "'a timeline"
    by (auto simp: commit_file_change_def split: item_content.split item_status.split)
  with assms show ?thesis by (simp add: follows_Some)
next
  case True
  have commute: "tml\<lparr>tl_turns := x, tl_committed := u\<rparr> = tml\<lparr>tl_committed := u, tl_turns := x\<rparr>" for u
    by (cases tml) simp
  let ?tml0 = "tml\<lparr>tl_committed := insert (ti_id item) (tl_committed tml)\<rparr>"
  show ?thesis
  proof (cases "item_turn (ti_id item) ?tml0")
    case None
    with True show ?thesis by (auto simp: commit_file_change_def follows_def)
  next
    case (Some q)
    obtain t m where q: "item_turn (ti_id item) ?tml0 = Some (t, m)" using Some by (cases q) auto
    have m: "tl_turns m = tl_turns tml" using item_turn_blind(1) [OF q] by simp
    have mx: "item_turn (ti_id item) (tml\<lparr>tl_turns := x, tl_committed := insert (ti_id item) (tl_committed tml)\<rparr>)
        = Some (t, m\<lparr>tl_turns := x\<rparr>)"
      unfolding commute by (rule item_turn_blind(2) [OF q])
    have sim: "turns_sim D (tl_turns m) x" using assms m by simp
    from True q mx show ?thesis
      using follows_Some [OF sim] refresh_follows [OF sim]
      by (auto simp: commit_file_change_def split: option.split)
  qed
qed

text \<open>Updates of other fields commute with replacing the turns.\<close>

definition blind_map :: "('j timeline \<Rightarrow> 'j timeline) \<Rightarrow> bool" where
  "blind_map g \<longleftrightarrow> (\<forall>m y. g (m\<lparr>tl_turns := y\<rparr>) = (g m)\<lparr>tl_turns := y\<rparr> \<and> tl_turns (g m) = tl_turns m)"

lemma blind_mapI:
  "(\<And>m y. g (m\<lparr>tl_turns := y\<rparr>) = (g m)\<lparr>tl_turns := y\<rparr>) \<Longrightarrow> (\<And>m. tl_turns (g m) = tl_turns m) \<Longrightarrow> blind_map g"
  by (simp add: blind_map_def)

lemma follows_map: "blind_map g \<Longrightarrow> follows D r r' \<Longrightarrow> follows D (map_option g r) (map_option g r')"
  by (fastforce simp: blind_map_def follows_def)

lemma follows_pre:
  assumes "blind_map g" and "turns_sim D (tl_turns tml) x"
    and "\<And>m. turns_sim D (tl_turns m) x \<Longrightarrow> follows D (f m) (f (m\<lparr>tl_turns := x\<rparr>))"
  shows "follows D (f (g tml)) (f (g (tml\<lparr>tl_turns := x\<rparr>)))"
  using assms by (simp add: blind_map_def)

lemma follows_ensure:
  assumes "\<And>turn. follows D (f turn) (f' turn)"
  shows "follows D (Option.bind (ensure_turn tml) f) (Option.bind (ensure_turn (tml\<lparr>tl_turns := x\<rparr>)) f')"
  using assms by (cases "ensure_turn tml") (auto simp: follows_def)

lemma start_turn_follows:
  assumes "turns_sim D (tl_turns tml) x"
  shows "follows D (start_turn ts tid tml) (start_turn ts tid (tml\<lparr>tl_turns := x\<rparr>))"
proof -
  define pre where "pre m = (m\<lparr>tl_turn_retry := None, tl_usage := map_option stale_usage (tl_usage m)\<rparr>)" for m :: "'a timeline"
  define begin_at where "begin_at t m = m\<lparr>tl_tool_clock := tc_begin_turn t (tl_tool_clock m)\<rparr>" for t and m :: "'a timeline"
  define run where "run m = (m\<lparr>tl_turn_running := True, tl_last_turn_status := None\<rparr>)" for m :: "'a timeline"
  have blind: "blind_map pre" "blind_map run" "blind_map (begin_at t)" for t
    by (rule blind_mapI; (rename_tac m, case_tac m)?; simp add: pre_def run_def begin_at_def)+
  define stamp where "stamp turn m = (case ts of None \<Rightarrow> Some m
     | Some t \<Rightarrow> map_option (begin_at t) (update_turn turn (\<lambda>m. m\<lparr>tm_start_ts := Some t\<rparr>) m))" for turn and m :: "'a timeline"
  define body where "body m1 = Option.bind (ensure_turn m1) (\<lambda>turn. Option.bind (stamp turn m1) (\<lambda>m2.
        map_option run (update_turn turn (\<lambda>m. m\<lparr>tm_provider_turn_id := Some tid, tm_running := True\<rparr>) m2)))" for m1 :: "'a timeline"
  have stamp: "follows D (stamp turn m) (stamp turn (m\<lparr>tl_turns := y\<rparr>))" if "turns_sim D (tl_turns m) y" for turn m y
    by (cases ts) (auto simp: stamp_def strip_field intro!: follows_Some that follows_map blind update_turn_follows)
  have "follows D (body m) (body (m\<lparr>tl_turns := x\<rparr>))" if "turns_sim D (tl_turns m) x" for m
    unfolding body_def
    by (rule follows_ensure, rule follows_bind [OF stamp [OF that]], rule follows_map [OF blind(2)],
        rule update_turn_follows) (simp_all add: strip_field)
  then have "follows D (body (pre tml)) (body (pre (tml\<lparr>tl_turns := x\<rparr>)))"
    by (rule follows_pre [OF blind(1) assms])
  then show ?thesis
    by (simp add: start_turn_def body_def stamp_def begin_at_def run_def pre_def map_conv_bind_option Let_def comp_def
        cong: option.case_cong)
qed

lemma serve_model_follows:
  assumes "turns_sim D (tl_turns tml) x"
  shows "follows D (serve_model ts model reason tml) (serve_model ts model reason (tml\<lparr>tl_turns := x\<rparr>))"
proof -
  define served where "served m = m\<lparr>tl_last_served_model := Some model\<rparr>" for m :: "'a timeline"
  define row where "row turn m = (if same_model strip_context_window_suffix (tl_last_served_model m) model then Some m
       else Option.bind (synthetic_id ''model'' ts m) (\<lambda>(key, m').
         Some (push_entry key (EntryModelChanged (tl_last_served_model m) model reason) ts turn m')))"
    for turn and m :: "'a timeline"
  have blind: "blind_map served"
    by (rule blind_mapI; (rename_tac m, case_tac m)?; simp add: served_def)
  have "blindly m y (row turn m) (row turn (m\<lparr>tl_turns := y\<rparr>))" for turn m y
    by (auto simp: row_def blindly_def synthetic_id_blind split: bind_splits)
  then have row: "follows D (row turn m) (row turn (m\<lparr>tl_turns := y\<rparr>))" if "turns_sim D (tl_turns m) y" for turn m y
    using that by (rule blindly_follows)
  have unf: "serve_model ts model reason m = Option.bind (ensure_turn m) (\<lambda>turn. map_option served
      (Option.bind (update_turn turn (\<lambda>m. m\<lparr>tm_served_model := Some model\<rparr>) m) (row turn)))" for m
    by (simp add: serve_model_def served_def row_def map_conv_bind_option Let_def comp_def cong: if_cong)
  show ?thesis
    unfolding unf
    by (rule follows_ensure, rule follows_map [OF blind], rule follows_bind, rule update_turn_follows [OF assms])
      (simp_all add: strip_field row)
qed

lemma complete_turn_follows:
  assumes "turns_sim D (tl_turns tml) x"
  shows "follows D (complete_turn ts status usage tml) (complete_turn ts status usage (tml\<lparr>tl_turns := x\<rparr>))"
proof (cases "tb_current (tl_boundaries tml)")
  case None
  then show ?thesis
    using assms by (cases tml) (auto simp: complete_turn_def follows_def Let_def)
next
  case (Some i)
  show ?thesis
  proof (cases "i < length (tl_turns tml)")
    case False
    with Some show ?thesis by (simp add: complete_turn_def index_def follows_def)
  next
    case True
    then have ix: "i < length x" using turns_sim_length [OF assms] by simp
    define newly where "newly \<longleftrightarrow> tm_status (tl_turns tml ! i) = None"
    have newly': "tm_status (x ! i) = None \<longleftrightarrow> newly"
      using strip_changes_parts(5) [OF turns_sim_nth [OF assms True]] by (simp add: newly_def)
    have "turns_sim D ((tl_turns tml)[i := finished_turn ts status u clock (tl_turns tml ! i)])
        (x[i := finished_turn ts status u clock (x ! i)])" for u clock
      by (rule turns_sim_update [OF assms strip_finished])
    then show ?thesis
      using Some True ix newly' newly_def [symmetric]
      by (cases tml) (auto simp: complete_turn_def follows_def Let_def update_turn_def)
  qed
qed

lemma close_session_follows:
  assumes "turns_sim D (tl_turns tml) x"
  shows "follows D (close_session ts reason tml) (close_session ts reason (tml\<lparr>tl_turns := x\<rparr>))"
proof -
  define pre where "pre m = m\<lparr>tl_turn_retry := None\<rparr>" for m :: "'a timeline"
  define mid where "mid m = m\<lparr>tl_turn_running := False, tl_pending_approvals := [], tl_pending_user_input := None\<rparr>" for m :: "'a timeline"
  define row where "row m = (case reason of None \<Rightarrow> Some m
       | Some message \<Rightarrow> push_system_row ''error'' (EntryError message None) ts m)" for m :: "'a timeline"
  define settle where "settle m = (case tb_current (tl_boundaries m) of None \<Rightarrow> Some m
      | Some turn \<Rightarrow> update_turn turn (\<lambda>m. m\<lparr>tm_running := False\<rparr>) m)" for m :: "'a timeline"
  have blind: "blind_map pre" "blind_map mid"
    by (rule blind_mapI; (rename_tac m, case_tac m)?; simp add: pre_def mid_def)+
  have row: "follows D (row m) (row (m\<lparr>tl_turns := y\<rparr>))" if "turns_sim D (tl_turns m) y" for m y
    using that
    by (cases reason) (auto simp: row_def intro!: follows_Some blindly_follows [OF push_system_row_blind])
  have settle: "follows D (settle m) (settle (m\<lparr>tl_turns := y\<rparr>))" if "turns_sim D (tl_turns m) y" for m y
    using that by (auto simp: settle_def strip_field follows_Some intro!: update_turn_follows split: option.split)
  have unf: "close_session ts reason m = Option.bind (map_option mid (row (pre m))) settle" for m
    by (simp add: close_session_def pre_def mid_def row_def settle_def map_conv_bind_option Let_def comp_def)
  show ?thesis
    unfolding unf
    by (rule follows_bind, rule follows_map [OF blind(2)], rule follows_pre [OF blind(1) assms])
      (auto intro: row settle)
qed

lemma rewind_follows:
  assumes "turns_sim D (tl_turns tml) x"
  shows "follows D (Some (rewind_conversation n tml)) (Some (rewind_conversation n (tml\<lparr>tl_turns := x\<rparr>)))"
  using turns_sim_take [OF assms, of n] turns_sim_last_status [OF turns_sim_take [OF assms, of n]]
  by (cases tml) (auto simp: follows_def rewind_conversation_def Let_def)


subsection \<open>One event\<close>

lemma turns_sim_overwrite:
  assumes "turns_sim D xs ys" and "i < length xs"
    and "\<And>m m'. strip_changes m = strip_changes m' \<Longrightarrow> strip_changes (f m) = strip_changes (g m')"
    and "i \<notin> D' \<Longrightarrow> (\<And>m m'. strip_changes m = strip_changes m' \<Longrightarrow> f m = g m')"
    and "\<And>j. j \<noteq> i \<Longrightarrow> j \<in> D \<longleftrightarrow> j \<in> D'"
  shows "turns_sim D' (xs[i := f (xs ! i)]) (ys[i := g (ys ! i)])"
proof -
  note sim = assms(1) [unfolded turns_sim_def]
  have "if j \<in> D' then strip_changes (xs[i := f (xs ! i)] ! j) = strip_changes (ys[i := g (ys ! i)] ! j)
      else xs[i := f (xs ! i)] ! j = ys[i := g (ys ! i)] ! j" if "j < length xs" for j
  proof (cases "i = j")
    case True
    with sim that assms(3,4) [of "xs ! j" "ys ! j"] turns_sim_nth [OF assms(1) that] show ?thesis by simp
  next
    case False
    with sim that assms(5) [of j] show ?thesis by auto
  qed
  with sim show ?thesis by (simp add: turns_sim_def)
qed

text \<open>Every event but a snapshot keeps two runs as close as they were.\<close>

lemma event_follows:
  assumes "turns_sim D (tl_turns tml) x" and "\<not> is_turn_changes e"
  shows "follows D (apply_event e ts c tml) (apply_event e ts c (tml\<lparr>tl_turns := x\<rparr>))"
proof (cases e)
  case (TurnStarted tid)
  then show ?thesis using start_turn_follows [OF assms(1)] by simp
next
  case (ServedModel m r)
  then show ?thesis using serve_model_follows [OF assms(1)] by simp
next
  case (TurnCompleted a b d)
  then show ?thesis using complete_turn_follows [OF assms(1)] by simp
next
  case (SessionClosed r)
  then show ?thesis using close_session_follows [OF assms(1)] by simp
next
  case (RewindCompleted cp m p)
  then show ?thesis using rewind_follows [OF assms(1)] follows_Some [OF assms(1)] by (auto split: option.split)
next
  case (TurnCheckpoint tid cp)
  then show ?thesis
    using update_turn_follows [OF assms(1), of "\<lambda>m. m\<lparr>tm_provider_turn_id := Some tid, tm_provider_checkpoint_id := Some cp\<rparr>"]
    by (cases "bc_target c") (auto simp: update_target_def strip_field, simp add: follows_def)
next
  case (ItemStarted item)
  then show ?thesis using blindly_follows [OF item_blind assms(1)] by simp
next
  case (ItemUpdated item)
  then show ?thesis using blindly_follows [OF item_blind assms(1)] by simp
next
  case (ItemCompleted item)
  have "blind_map (track_tool_item ts item l)" for l
    by (simp add: blind_map_def track_tool_item_blind)
  then have "follows D (commit_file_change item (track_tool_item ts item l m))
      (commit_file_change item (track_tool_item ts item l (m\<lparr>tl_turns := y\<rparr>)))"
    if "turns_sim D (tl_turns m) y" for m y l
    using that by (rule follows_pre) (rule commit_follows)
  with ItemCompleted show ?thesis
    by (auto intro!: follows_bind [OF blindly_follows [OF upsert_item_blind assms(1)]])
next
  case (SteerRequested rid s a)
  then show ?thesis using blindly_follows [OF request_steer_blind assms(1)] by simp
next
  case (SteerAccepted rid)
  then show ?thesis using blindly_follows [OF accept_steer_blind assms(1)] by simp
next
  case (Delta item_id kind d)
  then show ?thesis using blindly_follows [OF apply_delta_blind assms(1)] by simp
next
  case (ProposedPlanDelta item_id d)
  then show ?thesis using blindly_follows [OF apply_delta_blind assms(1)] by simp
next
  case (ProposedPlan item_id markdown)
  then show ?thesis using blindly_follows [OF upsert_item_blind assms(1)] by simp
next
  case (ContextCompacted cp)
  then show ?thesis using blindly_follows [OF compact_context_blind assms(1)] by simp
next
  case (ProviderStartFailed err)
  then show ?thesis using blindly_follows [OF push_system_row_blind assms(1)] by simp
next
  case (Error m f)
  then show ?thesis using blindly_follows [OF push_system_row_blind assms(1)] by simp
next
  case (ControlAction a)
  then show ?thesis using blindly_follows [OF push_system_row_blind assms(1)] by simp
next
  case (ContextWindowChanged w)
  then show ?thesis using blindly_follows [OF push_system_row_blind assms(1)] by simp
next
  case (ProviderRelay fp fm tp tm prompt moved)
  have "blindly tml x (apply_event e ts c tml) (apply_event e ts c (tml\<lparr>tl_turns := x\<rparr>))"
    by (auto simp: ProviderRelay blindly_def begin_user_turn_blind synthetic_id_blind begin_user_turn_turns
        split: bind_splits)
  then show ?thesis by (rule blindly_follows [OF _ assms(1)])
qed (use assms in \<open>cases tml; force simp: follows_def blindly_def reject_steer_def reindex_entries_def
      Let_def split: option.splits if_splits\<close>)+

text \<open>A snapshot and its rewritten form: the turn it lands on is equal up to diffs, or equal.\<close>

definition maybe_stub :: "bool \<Rightarrow> 'j agent_event \<Rightarrow> 'j agent_event" where
  "maybe_stub s e = (if s then fst (drop_turn_diffs e) else e)"

lemma drop_other [simp]: "\<not> is_turn_changes e \<Longrightarrow> fst (drop_turn_diffs e) = e"
  by (cases e) simp_all

lemma maybe_stub_same:
  "tb_apply (maybe_stub s e) b = tb_apply e b" "is_turn_completed (maybe_stub s e) = is_turn_completed e"
  by (cases e; simp add: maybe_stub_def tb_apply_def Let_def)+

lemma drop_change_diff_idem [simp]: "drop_change_diff (drop_change_diff c) = drop_change_diff c"
  by (simp add: drop_change_diff_def)

definition after_snapshot :: "bool \<Rightarrow> 'j agent_event \<Rightarrow> nat option \<Rightarrow> nat set \<Rightarrow> nat set" where
  "after_snapshot s e target D = (if is_turn_changes e
     then (case target of None \<Rightarrow> D | Some t \<Rightarrow> if s then insert t D else D - {t}) else D)"

lemma snapshot_event_follows:
  assumes "turns_sim D (tl_turns tml) x"
  shows "follows (after_snapshot s e (bc_target c) D) (apply_event e ts c tml)
    (apply_event (maybe_stub s e) ts c (tml\<lparr>tl_turns := x\<rparr>))"
proof (cases "is_turn_changes e")
  case False
  then show ?thesis
    using event_follows [OF assms False] by (simp add: after_snapshot_def maybe_stub_def)
next
  case True
  then obtain tid ch cm where e: "e = TurnChangesUpdated tid ch cm" by (cases e) auto
  show ?thesis
  proof (cases "bc_target c")
    case None
    then show ?thesis by (simp add: e update_target_def follows_def)
  next
    case (Some i)
    define ch' where "ch' = (if s then map drop_change_diff ch else ch)"
    define f where "f cs m = (if tid \<noteq> [] then m\<lparr>tm_provider_turn_id := Some tid\<rparr> else m)
         \<lparr>tm_changes := Some \<lparr>cs_changes = cs, cs_completeness = cm\<rparr>\<rparr>" for cs and m :: turn_meta
    have stub: "maybe_stub s e = TurnChangesUpdated tid ch' cm" by (simp add: e maybe_stub_def ch'_def)
    have ev: "apply_event (TurnChangesUpdated tid cs cm) ts c m = update_turn i (f cs) m" for cs m
      using Some by (simp add: update_target_def f_def [abs_def])
    have up: "strip_changes (f ch m) = strip_changes (f ch' m')" if "strip_changes m = strip_changes m'" for m m'
    proof -
      have "strip_changes (f cs n) = (strip_changes (if tid \<noteq> [] then n\<lparr>tm_provider_turn_id := Some tid\<rparr> else n))
          \<lparr>tm_changes := Some \<lparr>cs_changes = map drop_change_diff cs, cs_completeness = cm\<rparr>\<rparr>" for cs n
        by (cases n) (simp add: f_def strip_changes_def)
      with that show ?thesis by (simp add: ch'_def strip_field comp_def)
    qed
    have eq: "f ch m = f ch' m'" if "strip_changes m = strip_changes m'" "\<not> s" for m m'
      using strip_changes_overwrite [OF that(1)]
        strip_changes_overwrite [of "m\<lparr>tm_provider_turn_id := Some tid\<rparr>" "m'\<lparr>tm_provider_turn_id := Some tid\<rparr>"] that
      by (simp add: f_def ch'_def strip_field)
    show ?thesis
    proof (cases "i < length (tl_turns tml)")
      case False
      then show ?thesis unfolding e ev by (simp add: update_turn_def index_mut_def follows_def)
    next
      case True
      then have ix: "i < length x" using turns_sim_length [OF assms] by simp
      have "turns_sim (after_snapshot s e (bc_target c) D)
          ((tl_turns tml)[i := f ch (tl_turns tml ! i)]) (x[i := f ch' (x ! i)])"
        by (rule turns_sim_overwrite [OF assms True up eq])
          (auto simp: after_snapshot_def e Some split: if_splits)
      with True ix show ?thesis
        unfolding e stub [unfolded e] ev by (auto simp: follows_def update_turn_def)
    qed
  qed
qed

lemma apply_at_follows:
  assumes "turns_sim D (tl_turns tml) x" and "tb_apply e (tl_boundaries tml) = Some (b, c)"
  shows "follows (after_snapshot s e (bc_target c) D) (apply_at ts e tml)
    (apply_at ts (maybe_stub s e) (tml\<lparr>tl_turns := x\<rparr>))"
proof -
  define pre where "pre m = (if turn_is_open m \<and> \<not> is_turn_completed e
      then m\<lparr>tl_tool_clock := tc_observe ts (tl_tool_clock m)\<rparr> else m)\<lparr>tl_boundaries := b\<rparr>" for m :: "'a timeline"
  have blind: "blind_map pre"
    by (rule blind_mapI; (rename_tac m, case_tac m)?; simp add: pre_def turn_is_open_def)
  define open_turn where "open_turn m = (if bc_opened c then push_turn ts m else m)" for m :: "'a timeline"
  have eq: "apply_at ts e' m = apply_event e' ts c (open_turn (pre m))"
    if "tl_boundaries m = tl_boundaries tml" "tb_apply e' = tb_apply e" "is_turn_completed e' = is_turn_completed e" for e' and m :: "'a timeline"
    using assms(2) that
    by (simp add: apply_at_entries_before Let_def pre_def open_turn_def)
  have "follows (after_snapshot s e (bc_target c) D) (apply_event e ts c (open_turn m))
      (apply_event (maybe_stub s e) ts c (open_turn (m\<lparr>tl_turns := x\<rparr>)))" if "turns_sim D (tl_turns m) x" for m
  proof (cases "bc_opened c")
    case False
    with snapshot_event_follows [OF that] show ?thesis by (simp add: open_turn_def)
  next
    case True
    have "push_turn ts (m\<lparr>tl_turns := x\<rparr>) = (push_turn ts m)\<lparr>tl_turns := x @ [turn_meta_open ts]\<rparr>"
      by (cases m) (simp add: push_turn_def)
    moreover have "turns_sim D (tl_turns (push_turn ts m)) (x @ [turn_meta_open ts])"
      using turns_sim_push [OF that] by (simp add: push_turn_def)
    ultimately show ?thesis
      using snapshot_event_follows [of D "push_turn ts m"] True by (simp add: open_turn_def)
  qed
  with blind assms(1) have "follows (after_snapshot s e (bc_target c) D) (apply_event e ts c (open_turn (pre tml)))
      (apply_event (maybe_stub s e) ts c (open_turn (pre (tml\<lparr>tl_turns := x\<rparr>))))"
    by (simp add: blind_map_def)
  then show ?thesis
    by (simp add: eq maybe_stub_same ext [of "tb_apply (maybe_stub s e)"])
qed

subsection \<open>A whole log\<close>

definition stub_record :: "nat set \<Rightarrow> 'j stored_event \<times> nat \<Rightarrow> 'j stored_event" where
  "stub_record S r = (fst r)\<lparr>se_event := maybe_stub (snd r \<in> S) (se_event (fst r))\<rparr>"

definition stubbed :: "nat set \<Rightarrow> 'j stored_event list \<Rightarrow> 'j stored_event list" where
  "stubbed S log = map (stub_record S) (zip log [0..<length log])"

text \<open>The snapshots of a log, by their index, that a later one supersedes.\<close>

definition superseded_by :: "'j stored_event list \<Rightarrow> nat set" where
  "superseded_by log = (case follow_boundaries (zip log [0..<length log]) of
     None \<Rightarrow> {} | Some (_, keys) \<Rightarrow> set keys)"

text \<open>The turns whose latest snapshot is one of the given.\<close>

definition held :: "nat set \<Rightarrow> nat turn_snapshots \<Rightarrow> nat set" where
  "held S snaps = {i. i < length (sn_latest snaps) \<and> (\<exists>k \<in> S. sn_latest snaps ! i = Some k)}"

definition keys_of :: "nat turn_snapshots \<Rightarrow> nat set" where
  "keys_of snaps = {k. Some k \<in> set (sn_latest snaps)}"

lemma apply_stored_follows:
  assumes "turns_sim D (tl_turns tml) x" and "tb_apply (se_event r) (tl_boundaries tml) = Some (b, c)"
  shows "follows (after_snapshot (k \<in> S) (se_event r) (bc_target c) D) (apply_stored r tml)
    (apply_stored (stub_record S (r, k)) (tml\<lparr>tl_turns := x\<rparr>))"
proof -
  define elide where "elide m = (case se_elided r of None \<Rightarrow> m
          | Some bytes \<Rightarrow> (case se_item_id r of None \<Rightarrow> m
            | Some item_id \<Rightarrow> m\<lparr>tl_elided_outputs := (tl_elided_outputs m)(item_id \<mapsto> bytes)\<rparr>))" for m :: "'a timeline"
  have blind: "blind_map elide"
    by (rule blind_mapI; (rename_tac m, case_tac m)?; simp add: elide_def split: option.split)
  have item: "se_item_id (stub_record S (r, k)) = se_item_id r"
    by (cases "se_event r") (simp_all add: se_item_id_def stub_record_def maybe_stub_def)
  have unfold: "apply_stored q m = apply_at (se_ts q) (se_event q) (elide m)"
    if "se_item_id q = se_item_id r" "se_elided q = se_elided r" for q m
    using that by (simp add: apply_stored_def elide_def Let_def cong: option.case_cong)
  have "tl_boundaries (elide tml) = tl_boundaries tml" by (simp add: elide_def split: option.split)
  then have "follows (after_snapshot (k \<in> S) (se_event r) (bc_target c) D) (apply_at (se_ts r) (se_event r) (elide tml))
      (apply_at (se_ts r) (maybe_stub (k \<in> S) (se_event r)) ((elide tml)\<lparr>tl_turns := x\<rparr>))"
    using blind assms by (intro apply_at_follows) (simp_all add: blind_map_def)
  moreover have "elide (tml\<lparr>tl_turns := x\<rparr>) = (elide tml)\<lparr>tl_turns := x\<rparr>"
    using blind by (simp add: blind_map_def)
  ultimately show ?thesis
    using unfold [of r] unfold [OF item] item by (simp add: stub_record_def)
qed

lemma held_track:
  assumes "sn_track turns target key snaps = Some (snaps', earlier)" and "i < turns"
  shows "i \<in> held S snaps' \<longleftrightarrow> i \<in> (case target of None \<Rightarrow> held S snaps
    | Some t \<Rightarrow> if key \<in> S then insert t (held S snaps) else held S snaps - {t})"
  using assms
  by (auto simp: sn_track_def held_def Let_def nth_append nth_list_update split: option.splits if_splits)

lemma track_length: "sn_track turns target key snaps = Some (snaps', earlier) \<Longrightarrow> length (sn_latest snaps') = turns"
  by (auto simp: sn_track_def Let_def split: option.splits if_splits)

text \<open>Following a log by its boundaries, one record at a time.\<close>

definition follow_step :: "'j stored_event \<Rightarrow> nat \<Rightarrow> nat turn_snapshots \<times> turn_boundaries \<Rightarrow>
    ((nat turn_snapshots \<times> turn_boundaries) \<times> nat option) option" where
  "follow_step r k st = map_option (\<lambda>(st', _, s). (st', s)) (sn_apply_boundaries (se_event r) k st)"

lemma follow_stepE:
  assumes "follow_step r k (snaps, b) = Some ((snaps', b'), s)"
  obtains c where "tb_apply (se_event r) b = Some (b', c)"
    "sn_track (tb_len b') (if is_turn_changes (se_event r) then bc_target c else None) k snaps = Some (snaps', s)"
  using assms by (auto simp: follow_step_def sn_apply_boundaries_def split: bind_splits)

lemma run_follows:
  assumes "tl_ok tml" and "turns_sim (held S snaps) (tl_turns tml) x"
    and "follow follow_step records (snaps, tl_boundaries tml) = Some ((snaps', b'), ks)"
    and "fold_opt apply_stored (map fst records) tml = Some tml'"
  shows "\<exists>x'. fold_opt apply_stored (map (stub_record S) records) (tml\<lparr>tl_turns := x\<rparr>) = Some (tml'\<lparr>tl_turns := x'\<rparr>)
    \<and> turns_sim (held S snaps') (tl_turns tml') x'"
  using assms
proof (induction records arbitrary: snaps tml x ks)
  case Nil
  then show ?case by auto
next
  case (Cons q records)
  obtain r k where q: "q = (r, k)" by (cases q)
  from Cons.prems(3) obtain snaps1 b s ks1 where step: "follow_step r k (snaps, tl_boundaries tml) = Some ((snaps1, b), s)"
    and rest: "follow follow_step records (snaps1, b) = Some ((snaps', b'), ks1)"
    by (auto simp: q split: bind_splits)
  from step obtain c where c: "tb_apply (se_event r) (tl_boundaries tml) = Some (b, c)"
    "sn_track (tb_len b) (if is_turn_changes (se_event r) then bc_target c else None) k snaps = Some (snaps1, s)"
    by (rule follow_stepE)
  from apply_stored_ok [OF Cons.prems(1), of r] c(1) obtain tml1 where tml1:
    "apply_stored r tml = Some tml1" "tl_ok tml1" "tl_boundaries tml1 = b" by (auto simp: returns_ok_def)
  from apply_stored_follows [OF Cons.prems(2) c(1), of k S] tml1(1) obtain x1 where x1:
    "apply_stored (stub_record S (r, k)) (tml\<lparr>tl_turns := x\<rparr>) = Some (tml1\<lparr>tl_turns := x1\<rparr>)"
    "turns_sim (after_snapshot (k \<in> S) (se_event r) (bc_target c) (held S snaps)) (tl_turns tml1) x1"
    by (auto simp: follows_def)
  have len: "length (tl_turns tml1) = tb_len b" using tl_ok_D(2) [OF tml1(2)] tml1(3) by (simp add: tb_len_def)
  have "turns_sim (held S snaps1) (tl_turns tml1) x1"
    by (rule turns_sim_cong [OF x1(2)])
      (auto simp: len held_track [OF c(2)] after_snapshot_def split: if_splits option.splits)
  from Cons.IH [OF tml1(2) this rest [folded tml1(3)]] Cons.prems(4) tml1(1) x1(1) show ?case
    by (simp add: q)
qed

text \<open>A key that was reported is not held any more, and keys are held at most once.\<close>

definition once :: "nat turn_snapshots \<Rightarrow> bool" where
  "once snaps \<longleftrightarrow> (\<forall>i j k. i < length (sn_latest snaps) \<longrightarrow> j < length (sn_latest snaps) \<longrightarrow>
     sn_latest snaps ! i = Some k \<longrightarrow> sn_latest snaps ! j = Some k \<longrightarrow> i = j)"

lemma keys_of_nth: "k \<in> keys_of snaps \<longleftrightarrow> (\<exists>i < length (sn_latest snaps). sn_latest snaps ! i = Some k)"
  by (auto simp: keys_of_def in_set_conv_nth)

lemma track_keys:
  assumes "sn_track turns target key snaps = Some (snaps', earlier)" and "once snaps" and "key \<notin> keys_of snaps"
  shows "once snaps'" "keys_of snaps' \<subseteq> insert key (keys_of snaps)"
    "earlier = Some k \<Longrightarrow> k \<in> keys_of snaps \<and> k \<notin> keys_of snaps'"
proof -
  define l where "l = take turns (sn_latest snaps) @ replicate (turns - length (take turns (sn_latest snaps))) None"
  have len: "length l = turns" by (simp add: l_def)
  have nth: "i < turns \<Longrightarrow> l ! i = (if i < length (sn_latest snaps) then sn_latest snaps ! i else None)" for i
    by (auto simp: l_def nth_append)
  have hit: "l ! i = Some k \<Longrightarrow> i < turns \<Longrightarrow> k \<in> keys_of snaps \<and> i < length (sn_latest snaps) \<and> sn_latest snaps ! i = Some k" for i k
    using nth [of i] by (auto simp: keys_of_nth split: if_splits)
  have uniq: "i = j" if "l ! i = Some k" "l ! j = Some k" "i < turns" "j < turns" for i j k
    using assms(2) hit [OF that(1,3)] hit [OF that(2,4)] by (auto simp: once_def)
  have new: "l ! i \<noteq> Some key" if "i < turns" for i using hit [of i key] assms(3) that by auto
  from assms(1) have cases: "(target = None \<and> sn_latest snaps' = l \<and> earlier = None)
      \<or> (\<exists>t < turns. target = Some t \<and> sn_latest snaps' = l[t := Some key] \<and> earlier = l ! t)"
    by (auto simp: sn_track_def l_def Let_def split: option.splits if_splits)
  have "i = j" if "sn_latest snaps' ! i = Some k" "sn_latest snaps' ! j = Some k" "i < turns" "j < turns" for i j k
    using cases that uniq [of i k j] new [of i] new [of j]
    by (auto simp: nth_list_update len split: if_splits)
  moreover have "length (sn_latest snaps') = turns" using cases len by auto
  ultimately show "once snaps'" by (simp add: once_def)
  show "keys_of snaps' \<subseteq> insert key (keys_of snaps)"
  proof
    fix k assume "k \<in> keys_of snaps'"
    then obtain i where "i < turns" "sn_latest snaps' ! i = Some k"
      using cases len by (auto simp: keys_of_nth)
    with cases hit [of i k] show "k \<in> insert key (keys_of snaps)"
      by (auto simp: nth_list_update len split: if_splits)
  qed
  show "k \<in> keys_of snaps \<and> k \<notin> keys_of snaps'" if "earlier = Some k"
  proof -
    from cases that obtain t where t: "t < turns" "sn_latest snaps' = l[t := Some key]" "l ! t = Some k" by auto
    have "sn_latest snaps' ! i \<noteq> Some k" if "i < turns" for i
      using t uniq [of t k i] new [of t] that by (auto simp: nth_list_update len)
    with t hit [of t k] show ?thesis by (auto simp: keys_of_nth [of k snaps'] len)
  qed
qed

lemma follow_keys:
  assumes "follow follow_step records (snaps, b) = Some ((snaps', b'), ks)" and "once snaps"
    and "distinct (map snd records)" and "keys_of snaps \<inter> snd ` set records = {}"
  shows "keys_of snaps' \<subseteq> keys_of snaps \<union> snd ` set records \<and> set ks \<inter> keys_of snaps' = {} \<and> once snaps'
    \<and> set ks \<subseteq> keys_of snaps \<union> snd ` set records"
  using assms
proof (induction records arbitrary: snaps b ks)
  case Nil
  then show ?case by auto
next
  case (Cons q records)
  obtain r k where q: "q = (r, k)" by (cases q)
  from Cons.prems(1) obtain snaps1 b1 s ks1 where step: "follow_step r k (snaps, b) = Some ((snaps1, b1), s)"
    and rest: "follow follow_step records (snaps1, b1) = Some ((snaps', b'), ks1)"
    and ks: "ks = (case s of None \<Rightarrow> ks1 | Some k' \<Rightarrow> k' # ks1)"
    by (auto simp: q split: bind_splits)
  from step obtain c :: turn_boundary_change where track:
    "sn_track (tb_len b1) (if is_turn_changes (se_event r) then bc_target c else None) k snaps = Some (snaps1, s)"
    by (rule follow_stepE) (rule that)
  have fresh: "k \<notin> keys_of snaps" using Cons.prems(4) by (auto simp: q)
  note tk = track_keys [OF track Cons.prems(2) fresh]
  have "keys_of snaps1 \<inter> snd ` set records = {}" using tk(2) Cons.prems(3,4) by (auto simp: q)
  with Cons.IH [OF rest tk(1)] Cons.prems(3) have IH:
    "keys_of snaps' \<subseteq> keys_of snaps1 \<union> snd ` set records" "set ks1 \<inter> keys_of snaps' = {}" "once snaps'"
    "set ks1 \<subseteq> keys_of snaps1 \<union> snd ` set records" by (auto simp: q)
  have "k' \<notin> keys_of snaps'" if "s = Some k'" for k'
    using tk(3) [OF that] IH(1) Cons.prems(4) by (auto simp: q)
  with IH tk(2,3) show ?case by (auto simp: q ks split: option.splits)
qed

lemma follow_boundaries_step: "follow_boundaries records
    = follow follow_step records (turn_snapshots_default, turn_boundaries_default)"
  by (simp add: follow_boundaries_def follow_step_def [abs_def])

lemma stubbed_records:
  fixes records :: "('j stored_event \<times> nat) list"
  assumes "distinct (map snd records)" and "follow_boundaries records = Some ((snaps, b), ks)" and "S \<subseteq> set ks"
  shows "fold_stored (map (stub_record S) records) = fold_stored (map fst records)"
proof -
  from fold.run_safe [OF tl_ok_default, of "map fst records"] obtain tml where tml:
    "fold_opt apply_stored (map fst records) timeline_default = Some tml" by blast
  have run: "follow follow_step records (turn_snapshots_default, tl_boundaries (timeline_default :: 'j timeline))
      = Some ((snaps, b), ks)"
    using assms(2) by (simp add: follow_boundaries_step timeline_default_def)
  have "turns_sim (held S turn_snapshots_default) (tl_turns (timeline_default :: 'j timeline)) []"
    by (simp add: timeline_default_def turns_sim_def)
  from run_follows [OF tl_ok_default this run tml] obtain x' where x':
    "fold_opt apply_stored (map (stub_record S) records) (timeline_default\<lparr>tl_turns := []\<rparr>) = Some (tml\<lparr>tl_turns := x'\<rparr>)"
    "turns_sim (held S snaps) (tl_turns tml) x'" by blast
  have "set ks \<inter> keys_of snaps = {}"
    using follow_keys [OF run _ assms(1)] by (simp add: once_def keys_of_def turn_snapshots_default_def)
  then have "k \<notin> keys_of snaps" if "k \<in> S" for k using that assms(3) by blast
  then have "held S snaps = {}" by (auto simp: held_def keys_of_nth)
  with x'(2) have "x' = tl_turns tml" by (simp add: turns_sim_empty [symmetric])
  with x'(1) tml show ?thesis by (simp add: fold_stored_def timeline_default_def)
qed

text \<open>C8: a superseded snapshot's diffs may be dropped from the log at any time. Rewriting any set of
  the snapshots that a later one supersedes leaves the folded timeline exactly as it was, in every
  field, for every log.\<close>

theorem dropping_superseded_diffs:
  "fold_stored (stubbed (S \<inter> superseded_by log) log) = fold_stored log"
proof -
  let ?rs = "zip log [0..<length log]"
  from follow_agree [OF tl_ok_default, of ?rs turn_snapshots_default] obtain snaps b ks where
    run: "follow_boundaries ?rs = Some ((snaps, b), ks)"
    by (auto simp: follow_boundaries_def timeline_default_def)
  then have "fold_stored (map (stub_record (S \<inter> set ks)) ?rs) = fold_stored (map fst ?rs)"
    by (intro stubbed_records) auto
  with run show ?thesis by (simp add: stubbed_def superseded_by_def)
qed

end
