(* ===== verification/Session_Log.thy ===== *)
theory Session_Log
  imports Snapshot_Drops
begin

section \<open>The resident session log\<close>

text \<open>
  \<open>SessionLog\<close> of \<^verbatim>\<open>crates/runtime/src/app/history.rs\<close>: the in-memory log of a resident session
  with its running fold, and how the start of a history window is aligned with a turn. The byte
  length of a record on the wire (\<open>wire_len\<close>, a JSON serialisation) is the parameter \<open>len\<close>; row
  numbers and byte counts are naturals.
\<close>

subsection \<open>State and operations\<close>

record 'j session_log =
  sl_records :: "'j stored_event list"
  sl_retained_bytes :: nat
  sl_rows :: "nat list"
  sl_turn_starts :: "nat list"
  sl_fold :: "'j timeline"
  sl_snapshots :: "nat turn_snapshots"
  sl_next_row :: nat
  sl_release_barrier :: "nat option"

definition session_log_empty :: "nat \<Rightarrow> 'j session_log" where
  "session_log_empty next_row = \<lparr>sl_records = [], sl_retained_bytes = 0, sl_rows = [],
     sl_turn_starts = [], sl_fold = timeline_default, sl_snapshots = turn_snapshots_default,
     sl_next_row = next_row, sl_release_barrier = None\<rparr>"

definition drop_record_diffs :: "'j stored_event \<Rightarrow> 'j stored_event" where
  "drop_record_diffs r = r\<lparr>se_event := fst (drop_turn_diffs (se_event r))\<rparr>"

text \<open>\<open>push_at\<close>: an index out of range and a negative byte count are panics.\<close>

definition sl_push_at :: "('j stored_event \<Rightarrow> nat) \<Rightarrow> 'j stored_event \<times> nat \<Rightarrow> 'j session_log \<Rightarrow>
    'j session_log option" where
  "sl_push_at len entry log = (case entry of (record, row) \<Rightarrow> do {
     let turns = length (tl_turns (sl_fold log));
     let at = length (sl_records log);
     ((snaps, tml), superseded) \<leftarrow>
       sn_apply_at (se_ts record) (se_event record) at (sl_snapshots log, sl_fold log);
     let log1 = log\<lparr>sl_snapshots := snaps, sl_fold := tml,
       sl_turn_starts := (if turns < length (tl_turns tml) then sl_turn_starts log @ [row]
                          else sl_turn_starts log),
       sl_retained_bytes := sl_retained_bytes log + len record + 1,
       sl_records := sl_records log @ [record],
       sl_rows := sl_rows log @ [row]\<rparr>;
     (case superseded of
        None \<Rightarrow> Some log1
      | Some earlier \<Rightarrow> do {
          old \<leftarrow> index (sl_records log1) earlier;
          kept \<leftarrow> (if len old \<le> sl_retained_bytes log1 then Some (sl_retained_bytes log1 - len old) else None);
          records \<leftarrow> index_mut (sl_records log1) earlier drop_record_diffs;
          new \<leftarrow> index records earlier;
          Some (log1\<lparr>sl_records := records, sl_retained_bytes := kept + len new\<rparr>) }) })"

definition sl_push :: "('j stored_event \<Rightarrow> nat) \<Rightarrow> 'j stored_event \<Rightarrow> 'j session_log \<Rightarrow>
    'j session_log option" where
  "sl_push len record log =
     sl_push_at len (record, sl_next_row log) (log\<lparr>sl_next_row := sl_next_row log + 1\<rparr>)"

definition sl_new :: "('j stored_event \<Rightarrow> nat) \<Rightarrow> 'j stored_event list \<Rightarrow> nat list \<Rightarrow> nat \<Rightarrow>
    'j session_log option" where
  "sl_new len records rows next_row =
     fold_opt (sl_push_at len) (zip records rows) (session_log_empty next_row)"

text \<open>
  \<open>partition_point\<close>: on a slice partitioned by the predicate, the length of its true prefix. The
  start of a window moves back to the row that opens its turn.
\<close>

definition partition_point :: "('a \<Rightarrow> bool) \<Rightarrow> 'a list \<Rightarrow> nat" where
  "partition_point P xs = length (takeWhile P xs)"

definition turn_aligned_start :: "nat list \<Rightarrow> nat \<Rightarrow> nat option" where
  "turn_aligned_start turn_starts start =
     (let opened_before = partition_point (\<lambda>row. row \<le> start) turn_starts
      in if opened_before = 0 then Some start else index turn_starts (opened_before - 1))"

definition row_index :: "nat list \<Rightarrow> nat \<Rightarrow> nat" where
  "row_index rows at = partition_point (\<lambda>row. row < at) rows"

definition records_from :: "nat \<Rightarrow> 'j session_log \<Rightarrow> 'j stored_event list" where
  "records_from at log = drop (row_index (sl_rows log) at) (sl_records log)"

definition session_history_records :: nat where
  "session_history_records = 200"

subsection \<open>The log is the fold of its records\<close>

definition log_inv :: "('j stored_event \<Rightarrow> nat) \<Rightarrow> 'j stored_event list \<Rightarrow> 'j session_log \<Rightarrow> bool" where
  "log_inv len rs log \<longleftrightarrow> (\<exists>ks.
     follow_fold (zip rs [0..<length rs]) = Some ((sl_snapshots log, sl_fold log), ks)
     \<and> sl_records log = stubbed (set ks) rs
     \<and> sl_retained_bytes log = sum_list (map (\<lambda>r. len r + 1) (sl_records log))
     \<and> length (sl_rows log) = length (sl_records log))"

lemma log_inv_empty [simp]: "log_inv len [] (session_log_empty n)"
  by (simp add: log_inv_def session_log_empty_def follow_fold_def stubbed_def)

lemma follow_snoc:
  "follow step (rs @ [q]) s = Option.bind (follow step rs s) (\<lambda>(s1, ks).
     map_option (\<lambda>(s2, k). (s2, ks @ (case k of None \<Rightarrow> [] | Some k' \<Rightarrow> [k']))) (step (fst q) (snd q) s1))"
proof (induction rs arbitrary: s)
  case Nil
  then show ?case
    by (cases "step (fst q) (snd q) s") (auto split: option.split)
next
  case (Cons p rs)
  show ?case
  proof (cases "step (fst p) (snd p) s")
    case None
    then show ?thesis by simp
  next
    case (Some r)
    obtain s1 k where r: "r = (s1, k)" by (cases r)
    show ?thesis
    proof (cases "follow step rs s1")
      case None
      with Some r Cons.IH [of s1] show ?thesis by simp
    next
      case (Some u)
      obtain s2 ks where u: "u = (s2, ks)" by (cases u)
      from Cons.IH [of s1] Some u \<open>step (fst p) (snd p) s = Some r\<close> r show ?thesis
        by (cases "step (fst q) (snd q) s2") (auto split: option.split)
    qed
  qed
qed

lemma zip_snoc_upt: "zip (rs @ [r]) [0..<length (rs @ [r])] = zip rs [0..<length rs] @ [(r, length rs)]"
  by simp

lemma stubbed_snoc: "stubbed S (rs @ [r]) = stubbed S rs @ [stub_record S (r, length rs)]"
  by (simp add: stubbed_def)

lemma length_stubbed [simp]: "length (stubbed S rs) = length rs"
  by (simp add: stubbed_def)

lemma nth_stubbed: "i < length rs \<Longrightarrow> stubbed S rs ! i = stub_record S (rs ! i, i)"
  by (simp add: stubbed_def)

lemma drop_twice: "fst (drop_turn_diffs (fst (drop_turn_diffs e))) = fst (drop_turn_diffs e)"
  by (cases e) (simp_all add: comp_def)

lemma drop_stub: "drop_record_diffs (stub_record S (r, k)) = stub_record (insert k S) (r, k)"
  by (cases r) (simp add: drop_record_diffs_def stub_record_def maybe_stub_def drop_twice)

lemma stubbed_insert:
  assumes "k < length rs"
  shows "(stubbed S rs)[k := drop_record_diffs (stubbed S rs ! k)] = stubbed (insert k S) rs"
proof (rule nth_equalityI)
  fix i assume "i < length ((stubbed S rs)[k := drop_record_diffs (stubbed S rs ! k)])"
  then have "i < length rs" by simp
  then show "(stubbed S rs)[k := drop_record_diffs (stubbed S rs ! k)] ! i = stubbed (insert k S) rs ! i"
    using drop_stub [of S "rs ! k" k]
    by (cases "i = k") (simp_all add: nth_stubbed stub_record_def)
qed simp

lemma sum_list_update_add:
  fixes f :: "'a \<Rightarrow> nat"
  assumes "k < length xs"
  shows "sum_list (map f (xs[k := y])) = sum_list (map f xs) - f (xs ! k) + f y"
    and "f (xs ! k) \<le> sum_list (map f xs)"
proof -
  have "map f xs = take k (map f xs) @ f (xs ! k) # drop (Suc k) (map f xs)"
    using assms by (metis Cons_nth_drop_Suc append_take_drop_id length_map nth_map)
  then have "sum_list (map f xs) = sum_list (take k (map f xs)) + f (xs ! k) + sum_list (drop (Suc k) (map f xs))"
    by (metis add.assoc sum_list.Cons sum_list_append)
  moreover have "xs[k := y] = take k xs @ y # drop (Suc k) xs"
    using assms by (rule upd_conv_take_nth_drop)
  ultimately show "sum_list (map f (xs[k := y])) = sum_list (map f xs) - f (xs ! k) + f y"
    and "f (xs ! k) \<le> sum_list (map f xs)"
    by (simp_all add: take_map drop_map)
qed

text \<open>The keys of a follower are indices of records it has seen.\<close>

lemma follow_fold_facts:
  assumes "follow_fold (zip rs [0..<length rs]) = Some ((snaps, tml), ks)"
  shows "tl_ok tml" "keys_of snaps \<subseteq> {..<length rs}" "set ks \<subseteq> {..<length rs}"
    "fold_opt (\<lambda>r. apply_at (se_ts r) (se_event r)) rs timeline_default = Some tml"
    "follow_boundaries (zip rs [0..<length rs]) = Some ((snaps, tl_boundaries tml), ks)"
proof -
  let ?rs = "zip rs [0..<length rs]"
  from follow_agree [OF tl_ok_default, of ?rs "turn_snapshots_default :: nat turn_snapshots"] assms
  show "tl_ok tml" "fold_opt (\<lambda>r. apply_at (se_ts r) (se_event r)) rs timeline_default = Some tml"
    and run: "follow_boundaries ?rs = Some ((snaps, tl_boundaries tml), ks)"
    by (auto simp: follow_fold_def follow_boundaries_def timeline_default_def)
  have "keys_of snaps \<subseteq> keys_of turn_snapshots_default \<union> snd ` set ?rs \<and> set ks \<subseteq> keys_of turn_snapshots_default \<union> snd ` set ?rs"
    using follow_keys [OF run [unfolded follow_boundaries_step]]
    by (simp add: once_def keys_of_def turn_snapshots_default_def)
  then show "keys_of snaps \<subseteq> {..<length rs}" "set ks \<subseteq> {..<length rs}"
    by (auto simp: keys_of_def turn_snapshots_default_def set_zip)
qed

lemma follow_fold_once:
  assumes "follow_fold (zip rs [0..<length rs]) = Some ((snaps, tml), ks)"
  shows "once snaps"
  using follow_keys [OF follow_fold_facts(5) [OF assms, unfolded follow_boundaries_step]]
  by (simp add: once_def keys_of_def turn_snapshots_default_def)

lemma push_at_inv:
  assumes "log_inv len rs log"
  shows "\<exists>log'. sl_push_at len (r, row) log = Some log' \<and> log_inv len (rs @ [r]) log'"
proof -
  let ?n = "length rs"
  from assms obtain ks where ks:
    "follow_fold (zip rs [0..<?n]) = Some ((sl_snapshots log, sl_fold log), ks)"
    "sl_records log = stubbed (set ks) rs"
    "sl_retained_bytes log = sum_list (map (\<lambda>r. len r + 1) (sl_records log))"
    "length (sl_rows log) = length (sl_records log)" by (auto simp: log_inv_def)
  note facts = follow_fold_facts [OF ks(1)]
  from sn_apply_at_eq [OF facts(1), of "se_event r" "se_ts r" ?n "sl_snapshots log"] obtain b c tml where ap:
    "tb_apply (se_event r) (tl_boundaries (sl_fold log)) = Some (b, c)"
    "sn_apply_at (se_ts r) (se_event r) ?n (sl_snapshots log, sl_fold log)
      = map_option (\<lambda>(snaps', s). ((snaps', tml), s))
        (sn_track (tb_len b) (if is_turn_changes (se_event r) then bc_target c else None) ?n (sl_snapshots log))" by blast
  have "t < tb_len b" if "(if is_turn_changes (se_event r) then bc_target c else None) = Some t" for t
    using that tb_apply_spec [OF tl_ok_D(1) [OF facts(1)], of "se_event r"] ap(1) by (auto split: if_splits)
  then obtain snaps' earlier where track:
    "sn_track (tb_len b) (if is_turn_changes (se_event r) then bc_target c else None) ?n (sl_snapshots log)
      = Some (snaps', earlier)" by (rule sn_track_returns)
  have step: "sn_apply_at (se_ts r) (se_event r) ?n (sl_snapshots log, sl_fold log) = Some ((snaps', tml), earlier)"
    using ap(2) track by simp
  define ks' where "ks' = ks @ (case earlier of None \<Rightarrow> [] | Some k \<Rightarrow> [k])"
  have follow': "follow_fold (zip (rs @ [r]) [0..<length (rs @ [r])]) = Some ((snaps', tml), ks')"
    using ks(1) step unfolding zip_snoc_upt follow_fold_def follow_snoc ks'_def by simp
  have "?n \<notin> set ks" using facts(3) by auto
  then have recs: "sl_records log @ [r] = stubbed (set ks) (rs @ [r])"
    using ks(2) by (simp add: stubbed_snoc stub_record_def maybe_stub_def)
  have len_records: "length (sl_records log) = ?n" using ks(2) by simp
  have bytes: "sl_retained_bytes log + len r + 1 = sum_list (map (\<lambda>r. len r + 1) (sl_records log @ [r]))"
    using ks(3) by simp
  show ?thesis
  proof (cases earlier)
    case None
    with step follow' recs bytes ks(4) len_records show ?thesis
      by (simp add: sl_push_at_def log_inv_def ks'_def Let_def)
  next
    case (Some e)
    have "e \<in> keys_of (sl_snapshots log)"
      using track_keys(3) [OF track _ _ Some] facts(2) follow_fold_once [OF ks(1)] by auto
    with facts(2) have e: "e < length (sl_records log @ [r])" using ks(2) by auto
    let ?rs' = "sl_records log @ [r]"
    note sums = sum_list_update_add [OF e, of "\<lambda>r. len r + 1"]
    have "e < length (rs @ [r])" using e ks(2) by simp
    then have upd: "?rs'[e := drop_record_diffs (?rs' ! e)] = stubbed (set ks') (rs @ [r])"
      unfolding recs using stubbed_insert [of e "rs @ [r]" "set ks"] by (simp add: ks'_def Some)
    then have nth: "stubbed (set ks') (rs @ [r]) ! e = drop_record_diffs (?rs' ! e)"
      using e by (metis nth_list_update_eq)
    have "len (?rs' ! e) \<le> sl_retained_bytes log + len r + 1"
      using sums(2) bytes by simp
    moreover have "sl_retained_bytes log + len r + 1 - len (?rs' ! e) + len (drop_record_diffs (?rs' ! e))
        = sum_list (map (\<lambda>r. len r + 1) (?rs'[e := drop_record_diffs (?rs' ! e)]))"
      using sums bytes by simp
    ultimately show ?thesis
      using step follow' upd nth ks(4) e Some len_records
      by (simp add: sl_push_at_def log_inv_def Let_def)
  qed
qed


lemma push_all_inv:
  assumes "log_inv len rs log" and "length rows = length more_rs"
  shows "\<exists>log'. fold_opt (sl_push_at len) (zip more_rs rows) log = Some log' \<and> log_inv len (rs @ more_rs) log'"
  using assms
proof (induction more_rs arbitrary: rs log rows)
  case Nil
  then show ?case by auto
next
  case (Cons r more_rs)
  then obtain row rows' where rows: "rows = row # rows'" by (cases rows) auto
  from push_at_inv [OF Cons.prems(1), of r row] obtain log1 where
    "sl_push_at len (r, row) log = Some log1" "log_inv len (rs @ [r]) log1" by blast
  with Cons.IH [of "rs @ [r]" log1 rows'] Cons.prems(2) rows show ?case by simp
qed

lemma fold_opt_cong:
  "(\<And>e s. e \<in> set es \<Longrightarrow> step e s = step' e s) \<Longrightarrow> fold_opt step es s = fold_opt step' es s"
  by (induction es arbitrary: s) (auto split: bind_splits intro!: Option.bind_cong)

text \<open>C27: loading a log into memory never panics, and afterwards the running fold is the fold of the
  records the log holds, although it was built from the records as they arrived and the log has
  dropped superseded diffs since; the byte count is exactly what the held records need.\<close>

theorem session_log_is_its_fold:
  assumes "length rows = length records" and "\<forall>r \<in> set records. se_elided r = None"
  shows "\<exists>log. sl_new len records rows next_row = Some log
    \<and> fold_stored (sl_records log) = Some (sl_fold log)
    \<and> sl_retained_bytes log = sum_list (map (\<lambda>r. len r + 1) (sl_records log))
    \<and> length (sl_records log) = length records"
proof -
  from push_all_inv [OF log_inv_empty assms(1), of len next_row] obtain log where log:
    "sl_new len records rows next_row = Some log" "log_inv len records log" by (auto simp: sl_new_def)
  then obtain ks where ks: "follow_fold (zip records [0..<length records]) = Some ((sl_snapshots log, sl_fold log), ks)"
    "sl_records log = stubbed (set ks) records"
    "sl_retained_bytes log = sum_list (map (\<lambda>r. len r + 1) (sl_records log))" by (auto simp: log_inv_def)
  note facts = follow_fold_facts [OF ks(1)]
  have "fold_stored (map (stub_record (set ks)) (zip records [0..<length records]))
      = fold_stored (map fst (zip records [0..<length records]))"
    by (rule stubbed_records [OF _ facts(5)]) auto
  then have "fold_stored (stubbed (set ks) records) = fold_stored records" by (simp add: stubbed_def)
  also have "fold_stored records = fold_opt (\<lambda>r. apply_at (se_ts r) (se_event r)) records timeline_default"
    unfolding fold_stored_def
    by (rule fold_opt_cong) (use assms(2) in \<open>simp add: apply_stored_def\<close>)
  finally show ?thesis using log(1) ks facts(4) by auto
qed

subsection \<open>Where a window starts\<close>

lemma partition_point_sorted:
  fixes xs :: "nat list"
  assumes "sorted xs" and "n = partition_point (\<lambda>x. x \<le> start) xs"
  shows "n \<le> length xs" "\<And>i. i < n \<Longrightarrow> xs ! i \<le> start" "\<And>i. n \<le> i \<Longrightarrow> i < length xs \<Longrightarrow> start < xs ! i"
proof -
  show "n \<le> length xs" by (simp add: assms(2) partition_point_def length_takeWhile_le)
  show "xs ! i \<le> start" if "i < n" for i
    using that takeWhile_nth [of i "\<lambda>x. x \<le> start" xs] set_takeWhileD [of "xs ! i" "\<lambda>x. x \<le> start" xs]
    by (metis assms(2) nth_mem partition_point_def)
  show "start < xs ! i" if "n \<le> i" "i < length xs" for i
  proof -
    have "n < length xs" using that by simp
    then have "start < xs ! n"
      using nth_length_takeWhile [of "\<lambda>x. x \<le> start" xs] by (simp add: assms(2) partition_point_def)
    also have "xs ! n \<le> xs ! i" using assms(1) that by (simp add: sorted_iff_nth_mono)
    finally show ?thesis .
  qed
qed

text \<open>aligning the start of a window never panics and never moves it forward: it returns the
  greatest turn start at or before the requested row, and the row itself when no turn starts
  there or before.\<close>

theorem turn_aligned_start_greatest:
  assumes "sorted turn_starts"
  shows "\<exists>s. turn_aligned_start turn_starts start = Some s \<and> s \<le> start
    \<and> (s \<in> set turn_starts \<or> s = start)
    \<and> (\<forall>t \<in> set turn_starts. t \<le> start \<longrightarrow> t \<le> s)"
proof -
  define n where "n = partition_point (\<lambda>row. row \<le> start) turn_starts"
  note pp = partition_point_sorted [OF assms n_def]
  show ?thesis
  proof (cases "n = 0")
    case True
    then show ?thesis by (auto simp: turn_aligned_start_def n_def [symmetric])
  next
    case False
    then have less: "n - 1 < length turn_starts" using pp(1) by simp
    have "t \<le> turn_starts ! (n - 1)" if t: "t \<in> set turn_starts" "t \<le> start" for t
    proof -
      obtain i where i: "i < length turn_starts" "t = turn_starts ! i" using t(1) by (metis in_set_conv_nth)
      have "i < n" using pp(3) [of i] i t(2) by (metis leI not_le)
      then show ?thesis using assms less i by (simp add: sorted_iff_nth_mono)
    qed
    with False less pp(2) [of "n - 1"] show ?thesis
      by (auto simp: turn_aligned_start_def n_def [symmetric] Let_def)
  qed
qed

theorem turn_aligned_start_greatest_witness:
  "\<exists>s. turn_aligned_start [1, 4, 9] 6 = Some s \<and> s = 4 \<and> s \<in> set [1, 4, 9] \<and> s \<le> 6"
  using turn_aligned_start_greatest [of "[1, 4, 9]" 6]
  by (auto simp: turn_aligned_start_def partition_point_def)

theorem session_log_is_its_fold_witness:
  "\<exists>log. sl_new (\<lambda>_. 10) (map stored_event_from [TurnStarted ''t1'', Warning ''w'' :: nat agent_event]) [0, 1] 2 = Some log
    \<and> fold_stored (sl_records log) = Some (sl_fold log) \<and> sl_retained_bytes log = 22"
  using session_log_is_its_fold [of "[0, 1]"
      "map stored_event_from [TurnStarted ''t1'', Warning ''w'' :: nat agent_event]" "\<lambda>_. 10" 2]
  by (auto simp: stored_event_from_def sum_list_triv)

end
