(* ===== verification/Pull_Requests.thy ===== *)
theory Pull_Requests
  imports Prelude "HOL-Library.Sublist"
begin

section \<open>Pull requests linked to a thread\<close>

text \<open>
  The part of \<^verbatim>\<open>crates/core/src/pull_request.rs\<close> that every client reads: the links of a thread to
  pull requests, the native stack a link carries, how a pull request of a stack is shown, merged
  and blocked, and how links are made and removed. The state is the thread's list of links; every
  operation is a function of that list. What a watch has reported
  (\<^verbatim>\<open>crates/core/src/pull_request_watch.rs\<close>) is a field of a link, so its types stand here as well.
\<close>

subsection \<open>Types\<close>

record pull_request_key =
  pk_host :: string
  pk_repository :: string
  pk_number :: u64

datatype pull_request_state = PR_Open | PR_Closed | PR_Merged

datatype pull_request_source = Src_Manual | Src_Opened | Src_Agent | Src_Stack | Src_Dismissed

record pull_request_author =
  pa_login :: string
  pa_avatar_url :: "string option"

datatype checks_state = Checks_Passing | Checks_Failing | Checks_Pending

datatype review_decision = Review_Approved | Review_Changes_Requested | Review_Required

datatype mergeability = Merge_Clean | Merge_Conflicting | Merge_Pending | Merge_Unknown

record pull_request_snapshot =
  ps_state :: pull_request_state
  ps_title :: string
  ps_head_branch :: string
  ps_base_branch :: string
  ps_is_draft :: bool
  ps_updated_at :: string
  ps_synced_at :: u64
  ps_closed_at :: "string option"
  ps_merged_at :: "string option"
  ps_author :: "pull_request_author option"
  ps_additions :: "u64 option"
  ps_deletions :: "u64 option"
  ps_changed_files :: "u64 option"
  ps_review_decision :: "review_decision option"
  ps_checks_state :: "checks_state option"
  ps_mergeability :: mergeability

definition same_observation :: "pull_request_snapshot \<Rightarrow> pull_request_snapshot \<Rightarrow> bool" where
  "same_observation a b = (a = b\<lparr>ps_synced_at := ps_synced_at a\<rparr>)"

record stack_layer =
  ly_url :: string
  ly_number :: u64
  ly_head_branch :: string
  ly_state :: pull_request_state

record pull_request_stack =
  st_id :: string
  st_number :: u64
  st_url :: string
  st_base :: string
  st_layers :: "stack_layer list"

datatype pull_request_stack_state = Stack_Unknown | Stack_None | Stack_Native pull_request_stack

datatype pull_request_sync_error =
  No_Credential | Host_Disabled | Rate_Limited u64 | Not_Found | Sync_Failed

record pending_wake =
  pw_id :: string
  pw_text :: string
  pw_last :: bool

record pull_request_watch =
  w_started_at :: string
  w_head_sha :: "string option"
  w_failed_checks :: "string list"
  w_passed :: bool
  w_passed_checks :: "string list"
  w_remarks_through :: string
  w_remark_ids :: "string list"
  w_conflicting :: bool
  w_wakes :: u32
  w_pending_wake :: "pending_wake option"

record pull_request_link =
  lk_key :: pull_request_key
  lk_source :: pull_request_source
  lk_url :: string
  lk_linked_at :: "u64 option"
  lk_snapshot :: "pull_request_snapshot option"
  lk_stack :: pull_request_stack_state
  lk_sync_error :: "pull_request_sync_error option"
  lk_watch :: "pull_request_watch option"

definition visible :: "pull_request_link \<Rightarrow> bool" where
  "visible link = (lk_source link \<noteq> Src_Dismissed)"

subsection \<open>The native stack of a pull request\<close>

text \<open>The guard the stack functions share: the link is of the same repository.\<close>

definition same_repo :: "pull_request_key \<Rightarrow> pull_request_key \<Rightarrow> bool" where
  "same_repo a b = (pk_host a = pk_host b \<and> pk_repository a = pk_repository b)"

definition has_layer :: "pull_request_stack \<Rightarrow> u64 \<Rightarrow> bool" where
  "has_layer stack number = (\<exists>layer\<in>set (st_layers stack). ly_number layer = number)"

definition carries_layer :: "pull_request_key \<Rightarrow> pull_request_link \<Rightarrow> bool" where
  "carries_layer key link = (case lk_stack link of
      Stack_Native stack \<Rightarrow> same_repo (lk_key link) key \<and> has_layer stack (pk_number key)
    | _ \<Rightarrow> False)"

definition shown :: "pull_request_link list \<Rightarrow> pull_request_key \<Rightarrow> bool" where
  "shown links key =
     (\<exists>link\<in>set (filter visible links). lk_key link = key \<or> carries_layer key link)"

datatype merge_route = Route_Single | Route_Layer u32 u32 | Route_Unknown

definition stack_route ::
  "pull_request_link list \<Rightarrow> pull_request_key \<Rightarrow> merge_route \<times> stack_layer option" where
  "stack_route links key = (
     let layer = find_map (\<lambda>link. case lk_stack link of
           Stack_Native stack \<Rightarrow>
             if same_repo (lk_key link) key then
               (case position (\<lambda>layer. ly_number layer = pk_number key) (st_layers stack) of
                  None \<Rightarrow> None
                | Some i \<Rightarrow> Some (Route_Layer (of_nat i + 1) (of_nat (length (st_layers stack))),
                                  st_layers stack ! i))
             else None
         | _ \<Rightarrow> None) (filter visible links)
     in case layer of
          Some (route, layer) \<Rightarrow> (route, Some layer)
        | None \<Rightarrow> (case find (\<lambda>link. lk_key link = key) (filter visible links) of
              Some link \<Rightarrow> if lk_stack link = Stack_None then (Route_Single, None) else (Route_Unknown, None)
            | None \<Rightarrow> (Route_Unknown, None)))"

definition native_stack :: "pull_request_link list \<Rightarrow> pull_request_key \<Rightarrow> pull_request_stack option" where
  "native_stack links key = find_map (\<lambda>link. case lk_stack link of
       Stack_Native stack \<Rightarrow>
         if same_repo (lk_key link) key \<and> has_layer stack (pk_number key) then Some stack else None
     | _ \<Rightarrow> None) (filter visible links)"

datatype stack_blocker = Blocker_Draft | Blocker_Closed

datatype stack_layer_condition = Cond_Linked | Cond_Dismissed | Cond_Not_Linked

datatype stack_layer_role =
  Role_Selected | Role_Below_Merged | Role_In_Scope | Role_Blocks stack_blocker | Role_Above

record stack_view_row =
  mr_layer :: stack_layer
  mr_link :: "pull_request_link option"
  mr_draft :: "bool option"
  mr_condition :: stack_layer_condition
  mr_role :: stack_layer_role

record stack_view =
  sm_stack :: pull_request_stack
  sm_rows :: "stack_view_row list"
  sm_selected :: nat

definition sm_selected_row :: "stack_view \<Rightarrow> stack_view_row option" where
  "sm_selected_row m = index (sm_rows m) (sm_selected m)"

text \<open>\<open>rows[..=selected]\<close>: a panic when the selected row does not exist.\<close>

definition sm_scope :: "stack_view \<Rightarrow> u64 list option" where
  "sm_scope m = (if sm_selected m < length (sm_rows m)
     then Some (map (ly_number \<circ> mr_layer)
       (filter (\<lambda>row. ly_state (mr_layer row) \<noteq> PR_Merged) (take (Suc (sm_selected m)) (sm_rows m))))
     else None)"

definition sm_blockers :: "stack_view \<Rightarrow> (u64 \<times> stack_blocker) list" where
  "sm_blockers m = List.map_filter (\<lambda>row. case mr_role row of
       Role_Blocks blocker \<Rightarrow> Some (ly_number (mr_layer row), blocker)
     | _ \<Rightarrow> None) (sm_rows m)"

definition sm_unmerged :: "stack_view \<Rightarrow> u64 list" where
  "sm_unmerged m = map (ly_number \<circ> mr_layer)
     (filter (\<lambda>row. ly_state (mr_layer row) \<noteq> PR_Merged) (sm_rows m))"

definition stack_map_row :: "pull_request_link list \<Rightarrow> pull_request_key \<Rightarrow> nat \<Rightarrow> nat \<Rightarrow> stack_layer \<Rightarrow>
    stack_view_row" where
  "stack_map_row links key selected i layer = (
     let held = find (\<lambda>link. same_repo (lk_key link) key \<and> pk_number (lk_key link) = ly_number layer) links;
         link = (case held of Some link \<Rightarrow> if visible link then Some link else None | None \<Rightarrow> None);
         condition = (case held of
             Some link \<Rightarrow> if visible link then Cond_Linked else Cond_Dismissed
           | None \<Rightarrow> Cond_Not_Linked);
         draft = map_option ps_is_draft (Option.bind link lk_snapshot);
         role = (if i = selected then Role_Selected
           else if i > selected then Role_Above
           else if ly_state layer = PR_Merged then Role_Below_Merged
           else if ly_state layer = PR_Closed then Role_Blocks Blocker_Closed
           else if draft = Some True then Role_Blocks Blocker_Draft
           else Role_In_Scope)
     in \<lparr>mr_layer = layer, mr_link = link, mr_draft = draft, mr_condition = condition, mr_role = role\<rparr>)"

definition stack_map :: "pull_request_link list \<Rightarrow> pull_request_key \<Rightarrow> stack_view option" where
  "stack_map links key = do {
     stack \<leftarrow> native_stack links key;
     selected \<leftarrow> position (\<lambda>layer. ly_number layer = pk_number key) (st_layers stack);
     Some \<lparr>sm_stack = stack,
           sm_rows = map (\<lambda>(i, layer). stack_map_row links key selected i layer)
             (enumerate 0 (st_layers stack)),
           sm_selected = selected\<rparr> }"

subsection \<open>Operations running on a native stack\<close>

datatype stack_rebase_git_step =
  Step_Preparing | Step_Fetching | Step_Fork_Point | Step_Checking_Out | Step_Rebasing | Step_Pushing

datatype stack_rebase_failure =
  Rebase_Conflict | Lease_Refused | Push_Unconfirmed | Rebase_Git stack_rebase_git_step string

datatype stack_rebase_step =
  Rebase_Waiting | Rebase_Rebasing | Rebase_Pushing
  | Rebase_Pushed string string \<comment> \<open>from, to\<close>
  | Rebase_Already_Current
  | Rebase_Failed stack_rebase_failure
  | Rebase_Not_Started

record stack_rebase_layer =
  rl_number :: u64
  rl_branch :: string
  rl_step :: stack_rebase_step

datatype stack_operation_kind =
  Op_Merging string u64 "u64 list" bool \<comment> \<open>id, target, layers, adopted\<close>
  | Op_Merge_Unconfirmed string u64 "u64 list" bool \<comment> \<open>id, target, layers, checked\<close>
  | Op_Rebasing "stack_rebase_layer list"
  | Op_Rebase_Ended "stack_rebase_layer list"

record stack_operation =
  so_host :: string
  so_repository :: string
  so_stack :: u64
  so_started_at :: u64
  so_kind :: stack_operation_kind

definition is_for :: "stack_operation \<Rightarrow> string \<Rightarrow> string \<Rightarrow> u64 \<Rightarrow> bool" where
  "is_for op host repository stack =
     (so_host op = host \<and> so_repository op = repository \<and> so_stack op = stack)"

definition covers :: "stack_operation \<Rightarrow> u64 \<Rightarrow> bool" where
  "covers op number = (case so_kind op of
      Op_Merging _ _ layers _ \<Rightarrow> number \<in> set layers
    | Op_Merge_Unconfirmed _ _ layers checked \<Rightarrow> \<not> checked \<and> number \<in> set layers
    | Op_Rebasing layers \<Rightarrow> (\<exists>layer\<in>set layers. rl_number layer = number)
    | Op_Rebase_Ended _ \<Rightarrow> False)"

definition stack_operation_of :: "stack_operation list \<Rightarrow> pull_request_link list \<Rightarrow> pull_request_key \<Rightarrow>
    stack_operation option" where
  "stack_operation_of operations links key = do {
     stack \<leftarrow> native_stack links key;
     find (\<lambda>op. is_for op (pk_host key) (pk_repository key) (st_number stack)) operations }"

subsection \<open>Making and removing links\<close>

definition watched :: "pull_request_link list \<Rightarrow> pull_request_link list" where
  "watched links = filter (\<lambda>link. visible link \<and> lk_watch link \<noteq> None) links"

definition new_link :: "pull_request_key \<Rightarrow> string \<Rightarrow> pull_request_source \<Rightarrow> u64 option \<Rightarrow> pull_request_link" where
  "new_link key url source linked_at = \<lparr>lk_key = key, lk_source = source, lk_url = url,
     lk_linked_at = linked_at, lk_snapshot = None, lk_stack = Stack_Unknown, lk_sync_error = None,
     lk_watch = None\<rparr>"

definition link_pull_request :: "pull_request_key \<Rightarrow> string \<Rightarrow> pull_request_source \<Rightarrow> u64 \<Rightarrow> bool \<Rightarrow>
    pull_request_link list \<Rightarrow> pull_request_link list \<times> bool" where
  "link_pull_request key url source now explicit links =
     (case position (\<lambda>link. lk_key link = key) links of
        Some i \<Rightarrow>
          if visible (links ! i) \<or> \<not> explicit then (links, False)
          else (links[i := new_link key url source (Some now)], True)
      | None \<Rightarrow> (links @ [new_link key url source (Some now)], True))"

definition unlink_pull_request :: "pull_request_key \<Rightarrow> pull_request_link list \<Rightarrow>
    pull_request_link list \<times> bool" where
  "unlink_pull_request key links =
     (case position (\<lambda>link. lk_key link = key \<and> visible link) links of
        None \<Rightarrow> (links, False)
      | Some i \<Rightarrow>
          let in_stack = lk_source (links ! i) = Src_Stack
            \<or> (case lk_stack (links ! i) of Stack_Native _ \<Rightarrow> True | _ \<Rightarrow> False)
            \<or> (\<exists>link\<in>set links. carries_layer key link)
          in if \<not> in_stack then (take i links @ drop (Suc i) links, True)
             else (links[i := new_link key [] Src_Dismissed None], True))"

subsection \<open>The views of a stack\<close>

lemma has_layer_position:
  "has_layer stack n \<longleftrightarrow> position (\<lambda>layer. ly_number layer = n) (st_layers stack) \<noteq> None"
  by (auto simp: has_layer_def position_None_iff)

lemma native_stack_carries:
  "native_stack links key = Some stack \<Longrightarrow>
     \<exists>link\<in>set (filter visible links). carries_layer key link \<and> lk_stack link = Stack_Native stack"
  unfolding native_stack_def
  by (drule find_map_SomeD)
    (auto simp: carries_layer_def split: pull_request_stack_state.splits if_splits)

lemma native_stack_layer:
  "native_stack links key = Some stack \<Longrightarrow>
     \<exists>i. position (\<lambda>layer. ly_number layer = pk_number key) (st_layers stack) = Some i"
  by (drule native_stack_carries) (auto simp: carries_layer_def has_layer_position)

text \<open>The route is the layer of the stack that \<open>native_stack\<close> finds.\<close>

lemma stack_route_layer:
  "find_map (\<lambda>link. case lk_stack link of
       Stack_Native stack \<Rightarrow>
         if same_repo (lk_key link) key then
           (case position (\<lambda>layer. ly_number layer = pk_number key) (st_layers stack) of
              None \<Rightarrow> None
            | Some i \<Rightarrow> Some (Route_Layer (of_nat i + 1) (of_nat (length (st_layers stack))),
                              st_layers stack ! i))
         else None
     | _ \<Rightarrow> None) links
   = map_option (\<lambda>stack. case position (\<lambda>layer. ly_number layer = pk_number key) (st_layers stack) of
        Some i \<Rightarrow> (Route_Layer (of_nat i + 1) (of_nat (length (st_layers stack))), st_layers stack ! i))
      (find_map (\<lambda>link. case lk_stack link of
         Stack_Native stack \<Rightarrow>
           if same_repo (lk_key link) key \<and> has_layer stack (pk_number key) then Some stack else None
       | _ \<Rightarrow> None) links)"
  unfolding find_map_map_option
  by (rule find_map_cong)
    (auto simp: has_layer_position split: pull_request_stack_state.splits option.splits)

lemma stack_route_Some:
  assumes "native_stack links key = Some stack"
    and "position (\<lambda>layer. ly_number layer = pk_number key) (st_layers stack) = Some i"
  shows "stack_route links key =
     (Route_Layer (of_nat i + 1) (of_nat (length (st_layers stack))), Some (st_layers stack ! i))"
  using assms unfolding stack_route_def native_stack_def stack_route_layer by simp

lemma stack_route_None:
  "native_stack links key = None \<Longrightarrow> snd (stack_route links key) = None"
  unfolding stack_route_def native_stack_def stack_route_layer by (auto split: option.splits)

text \<open>
  The four views of a pull request in a native stack agree. When \<open>native_stack\<close> finds a stack,
  the pull request is shown, \<open>stack_route\<close> names its first layer with that number (counted from
  one) and \<open>stack_map\<close> maps the same stack with that layer selected and one row per layer; when it
  finds none there is no map and no layer either.
\<close>

theorem stack_views_agree:
  "case native_stack links key of
     Some stack \<Rightarrow> shown links key \<and>
       (\<exists>i m. position (\<lambda>layer. ly_number layer = pk_number key) (st_layers stack) = Some i
        \<and> stack_route links key =
            (Route_Layer (of_nat i + 1) (of_nat (length (st_layers stack))), Some (st_layers stack ! i))
        \<and> stack_map links key = Some m \<and> sm_stack m = stack \<and> sm_selected m = i
        \<and> map mr_layer (sm_rows m) = st_layers stack)
   | None \<Rightarrow> stack_map links key = None \<and> snd (stack_route links key) = None"
proof (cases "native_stack links key")
  case None
  then show ?thesis by (simp add: stack_map_def stack_route_None)
next
  case (Some stack)
  from native_stack_layer [OF Some] obtain i
    where i: "position (\<lambda>layer. ly_number layer = pk_number key) (st_layers stack) = Some i" ..
  have shown: "shown links key"
    using native_stack_carries [OF Some] by (auto simp: shown_def)
  have rows: "map mr_layer (map (\<lambda>(i, layer). stack_map_row links key k i layer)
      (enumerate 0 (st_layers stack))) = st_layers stack" for k
    by (rule nth_equalityI) (simp_all add: nth_enumerate_eq stack_map_row_def Let_def)
  then show ?thesis
    using Some i shown stack_route_Some [OF Some i] by (simp add: stack_map_def)
qed

lemma stack_map_cases:
  assumes "stack_map links key = Some m"
  obtains stack i where "native_stack links key = Some stack"
    "position (\<lambda>layer. ly_number layer = pk_number key) (st_layers stack) = Some i"
    "sm_stack m = stack" "sm_selected m = i"
    "sm_rows m = map (\<lambda>(k, layer). stack_map_row links key i k layer) (enumerate 0 (st_layers stack))"
  using assms by (auto simp: stack_map_def split: bind_splits)

lemma stack_map_row_role:
  assumes "stack_map links key = Some m" and "k < length (sm_rows m)"
  shows "mr_role (sm_rows m ! k) =
     (if k = sm_selected m then Role_Selected
      else if k > sm_selected m then Role_Above
      else if ly_state (mr_layer (sm_rows m ! k)) = PR_Merged then Role_Below_Merged
      else if ly_state (mr_layer (sm_rows m ! k)) = PR_Closed then Role_Blocks Blocker_Closed
      else if mr_draft (sm_rows m ! k) = Some True then Role_Blocks Blocker_Draft
      else Role_In_Scope)"
  using assms
  by (elim stack_map_cases) (simp add: nth_enumerate_eq stack_map_row_def Let_def)

lemma stack_map_selected_less:
  "stack_map links key = Some m \<Longrightarrow> sm_selected m < length (sm_rows m)"
  by (elim stack_map_cases) (auto dest: position_less)

lemma stack_map_selected_number:
  "stack_map links key = Some m \<Longrightarrow>
     ly_number (mr_layer (sm_rows m ! sm_selected m)) = pk_number key"
  by (elim stack_map_cases)
    (auto simp: position_Some_iff nth_enumerate_eq stack_map_row_def Let_def)

text \<open>The layers that block are a part of those below the selected one.\<close>

definition blocks :: "stack_view_row \<Rightarrow> bool" where
  "blocks row = (case mr_role row of Role_Blocks _ \<Rightarrow> True | _ \<Rightarrow> False)"

lemma sm_blockers_filter:
  "map fst (sm_blockers m) = map (ly_number \<circ> mr_layer) (filter blocks (sm_rows m))"
proof -
  have "map fst (List.map_filter (\<lambda>row. case mr_role row of
       Role_Blocks blocker \<Rightarrow> Some (ly_number (mr_layer row), blocker) | _ \<Rightarrow> None) rows)
     = map (ly_number \<circ> mr_layer) (filter blocks rows)" for rows
    by (induction rows)
      (auto simp: List.map_filter_simps blocks_def split: stack_layer_role.splits)
  then show ?thesis by (simp add: sm_blockers_def)
qed

lemma stack_map_blocks:
  assumes "stack_map links key = Some m" and "k < length (sm_rows m)"
  shows "blocks (sm_rows m ! k) \<longleftrightarrow> k < sm_selected m
     \<and> ly_state (mr_layer (sm_rows m ! k)) \<noteq> PR_Merged
     \<and> (ly_state (mr_layer (sm_rows m ! k)) = PR_Closed \<or> mr_draft (sm_rows m ! k) = Some True)"
  using stack_map_row_role [OF assms] by (auto simp: blocks_def)

lemma filter_blocks_take:
  assumes "stack_map links key = Some m"
  shows "filter blocks (sm_rows m) = filter blocks (take (sm_selected m) (sm_rows m))"
proof -
  have "filter blocks (drop (sm_selected m) (sm_rows m)) = []"
    using stack_map_blocks [OF assms] by (auto simp: filter_empty_conv in_set_conv_nth)
  then show ?thesis
    by (metis append_Nil2 append_take_drop_id filter_append)
qed

lemma subseq_filter_imp:
  "(\<And>x. x \<in> set xs \<Longrightarrow> P x \<Longrightarrow> Q x) \<Longrightarrow> subseq (filter P xs) (filter Q xs)"
  by (induction xs) auto

lemma sm_scope_rows:
  assumes m: "stack_map links key = Some m"
  shows "sm_scope m = Some (map (ly_number \<circ> mr_layer)
      (filter (\<lambda>row. ly_state (mr_layer row) \<noteq> PR_Merged) (take (sm_selected m) (sm_rows m)))
    @ (if ly_state (mr_layer (sm_rows m ! sm_selected m)) = PR_Merged then [] else [pk_number key]))"
  using stack_map_selected_less [OF m] stack_map_selected_number [OF m]
  by (simp add: sm_scope_def take_Suc_conv_app_nth)

text \<open>
  What a merge of the selected layer of a native stack lands and what stands in its way. The
  scope never panics, is in stack order a part of the open layers, and ends with the selected layer
  unless that one is merged. Every blocker is a layer of the scope, in its order and below the
  selected one, and there is no blocker exactly when every layer below is merged, or open and not
  known to be a draft.
\<close>

theorem stack_scope_and_blockers:
  assumes "stack_map links key = Some m"
  shows "\<exists>scope. sm_scope m = Some scope
    \<and> subseq scope (sm_unmerged m)
    \<and> (ly_state (mr_layer (sm_rows m ! sm_selected m)) = PR_Merged
       \<or> (\<exists>below. scope = below @ [pk_number key] \<and> subseq (map fst (sm_blockers m)) below))
    \<and> subseq (map fst (sm_blockers m)) scope
    \<and> (sm_blockers m = [] \<longleftrightarrow>
        (\<forall>row\<in>set (take (sm_selected m) (sm_rows m)).
           ly_state (mr_layer row) = PR_Merged
           \<or> ly_state (mr_layer row) = PR_Open \<and> mr_draft row \<noteq> Some True))"
proof -
  let ?num = "ly_number \<circ> mr_layer"
  let ?un = "\<lambda>row. ly_state (mr_layer row) \<noteq> PR_Merged"
  let ?low = "take (sm_selected m) (sm_rows m)"
  let ?below = "map ?num (filter ?un ?low)"
  note blk = stack_map_blocks [OF assms]
  have low: "blocks row \<longleftrightarrow> \<not> (ly_state (mr_layer row) = PR_Merged
      \<or> ly_state (mr_layer row) = PR_Open \<and> mr_draft row \<noteq> Some True)" if row: "row \<in> set ?low" for row
    using row by (auto simp: in_set_conv_nth blk) (metis pull_request_state.exhaust)+
  have sub: "subseq (map fst (sm_blockers m)) ?below"
    unfolding sm_blockers_filter filter_blocks_take [OF assms]
    by (intro subseq_map subseq_filter_imp) (simp add: low)
  have un: "subseq (map ?num (filter ?un (take n (sm_rows m)))) (sm_unmerged m)" for n
    unfolding sm_unmerged_def
    by (intro subseq_map subseq_filter) (metis append_take_drop_id list_emb_append2 subseq_order.refl subseq_rev_drop_many)
  have none: "sm_blockers m = [] \<longleftrightarrow> (\<forall>row\<in>set ?low. \<not> blocks row)"
  proof -
    have "sm_blockers m = [] \<longleftrightarrow> map fst (sm_blockers m) = []" by simp
    then show ?thesis
      unfolding sm_blockers_filter filter_blocks_take [OF assms] by (simp add: filter_empty_conv)
  qed
  obtain scope where scope: "sm_scope m = Some scope" using sm_scope_rows [OF assms] by blast
  have "subseq scope (sm_unmerged m)"
    using scope un by (auto simp: sm_scope_def split: if_splits)
  moreover have "scope = ?below @ (if ly_state (mr_layer (sm_rows m ! sm_selected m)) = PR_Merged
      then [] else [pk_number key])"
    using scope sm_scope_rows [OF assms] by simp
  moreover have "(\<forall>row\<in>set ?low. \<not> blocks row) \<longleftrightarrow>
      (\<forall>row\<in>set ?low. ly_state (mr_layer row) = PR_Merged
         \<or> ly_state (mr_layer row) = PR_Open \<and> mr_draft row \<noteq> Some True)"
    using low by blast
  ultimately show ?thesis
    using scope sub none by (auto intro: subseq_rev_drop_many)
qed

subsection \<open>A finished sync\<close>

text \<open>
  What a finished read of a pull request does to the links of a thread that shows it
  (\<open>finish_pull_request_sync\<close> of \<^verbatim>\<open>crates/runtime/src/app/pull_requests.rs\<close>): the link takes the new
  observation, and in a thread that is not settled the layers of its native stack are linked, none of
  them explicitly. The web address of a pull request is an argument.
\<close>

definition update_first :: "('a \<Rightarrow> bool) \<Rightarrow> ('a \<Rightarrow> 'a) \<Rightarrow> 'a list \<Rightarrow> 'a list" where
  "update_first P f xs = (case position P xs of None \<Rightarrow> xs | Some i \<Rightarrow> xs[i := f (xs ! i)])"

definition pull_request_key_new :: "string \<Rightarrow> string \<Rightarrow> u64 \<Rightarrow> pull_request_key" where
  "pull_request_key_new host repository number = \<lparr>pk_host = to_ascii_lowercase (str_trim host),
     pk_repository = to_ascii_lowercase (str_trim repository), pk_number = number\<rparr>"

definition link_layer :: "(pull_request_key \<Rightarrow> string option) \<Rightarrow> pull_request_key \<Rightarrow>
    pull_request_stack_state \<Rightarrow> u64 \<Rightarrow> stack_layer \<Rightarrow> pull_request_link list \<Rightarrow> pull_request_link list" where
  "link_layer url_of key stack now layer links =
     (let sibling = pull_request_key_new (pk_host key) (pk_repository key) (ly_number layer)
      in case url_of sibling of
           None \<Rightarrow> links
         | Some url \<Rightarrow> (case link_pull_request sibling url Src_Stack now False links of
             (links', True) \<Rightarrow> update_first (\<lambda>link. lk_key link = sibling) (\<lambda>link. link\<lparr>lk_stack := stack\<rparr>) links'
           | (links', False) \<Rightarrow> links'))"

definition finish_sync :: "(pull_request_key \<Rightarrow> string option) \<Rightarrow> pull_request_key \<Rightarrow> pull_request_snapshot \<Rightarrow>
    pull_request_stack_state option \<Rightarrow> u64 \<Rightarrow> bool \<Rightarrow> pull_request_link list \<Rightarrow> pull_request_link list" where
  "finish_sync url_of key snapshot fetched now settled links =
     (case find (\<lambda>link. lk_key link = key \<and> visible link) links of
        None \<Rightarrow> links
      | Some link \<Rightarrow>
          (let stack = (case fetched of None \<Rightarrow> lk_stack link | Some s \<Rightarrow> s);
               observed = ((case lk_snapshot link of None \<Rightarrow> True | Some s \<Rightarrow> \<not> same_observation s snapshot)
                 \<or> lk_stack link \<noteq> stack);
               linked = (case stack of
                   Stack_Native topology \<Rightarrow>
                     (if settled then links else fold (link_layer url_of key stack now) (st_layers topology) links)
                 | _ \<Rightarrow> links)
           in if observed
              then update_first (\<lambda>link. lk_key link = key \<and> visible link)
                     (\<lambda>link. link\<lparr>lk_sync_error := None, lk_snapshot := Some snapshot, lk_stack := stack\<rparr>) linked
              else linked))"

definition fail_sync :: "pull_request_key \<Rightarrow> pull_request_sync_error \<Rightarrow> pull_request_link list \<Rightarrow> pull_request_link list" where
  "fail_sync key reason links =
     update_first (\<lambda>link. lk_key link = key \<and> visible link \<and> lk_snapshot link = None)
       (\<lambda>link. link\<lparr>lk_sync_error := Some reason\<rparr>) links"

subsection \<open>A thread's links over time\<close>

text \<open>What the host does to a thread's links: a link or unlink by the user, an agent or the sync, a sync
  that ends, and a watch that starts, reports or stops.\<close>

datatype link_op =
  Do_Link pull_request_key string pull_request_source u64 bool \<comment> \<open>key, url, source, now, explicit\<close>
  | Do_Unlink pull_request_key
  | Do_Sync "pull_request_key \<Rightarrow> string option" pull_request_key pull_request_snapshot
      "pull_request_stack_state option" u64 bool
  | Do_Fail pull_request_key pull_request_sync_error
  | Do_Watch pull_request_key "pull_request_watch option"

fun link_step :: "link_op \<Rightarrow> pull_request_link list \<Rightarrow> pull_request_link list" where
  "link_step (Do_Link key url source now explicit) links =
     fst (link_pull_request key url source now explicit links)"
| "link_step (Do_Unlink key) links = fst (unlink_pull_request key links)"
| "link_step (Do_Sync url_of key snapshot fetched now settled) links = finish_sync url_of key snapshot fetched now settled links"
| "link_step (Do_Fail key reason) links = fail_sync key reason links"
| "link_step (Do_Watch key watch) links =
     update_first (\<lambda>link. lk_key link = key \<and> (visible link \<or> lk_watch link \<noteq> None)) (\<lambda>link. link\<lparr>lk_watch := watch\<rparr>) links"

definition link_history :: "link_op list \<Rightarrow> pull_request_link list \<Rightarrow> pull_request_link list" where
  "link_history ops links = fold link_step ops links"

lemma new_link_fields [simp]:
  "lk_key (new_link key url source at) = key"
  "lk_source (new_link key url source at) = source"
  "lk_stack (new_link key url source at) = Stack_Unknown"
  by (simp_all add: new_link_def)

lemma link_keys:
  "map lk_key (fst (link_pull_request key url source now explicit links))
   = (if key \<in> lk_key ` set links then map lk_key links else map lk_key links @ [key])"
proof (cases "position (\<lambda>link. lk_key link = key) links")
  case None
  then have "key \<notin> lk_key ` set links" by (auto simp: position_None_iff)
  with None show ?thesis by (simp add: link_pull_request_def)
next
  case (Some i)
  then have "i < length links" "lk_key (links ! i) = key" by (simp_all add: position_Some_iff)
  then have "(map lk_key links)[i := key] = map lk_key links" "key \<in> lk_key ` set links"
    by (metis list_update_id nth_map, metis image_eqI nth_mem)
  with Some show ?thesis by (simp add: link_pull_request_def map_update)
qed

lemma unlink_keys:
  "map lk_key (fst (unlink_pull_request key links)) = map lk_key links
   \<or> (\<exists>i<length links. lk_key (links ! i) = key
        \<and> fst (unlink_pull_request key links) = take i links @ drop (Suc i) links)"
proof (cases "position (\<lambda>link. lk_key link = key \<and> visible link) links")
  case None
  then show ?thesis by (simp add: unlink_pull_request_def)
next
  case (Some i)
  then have i: "i < length links" "lk_key (links ! i) = key" by (simp_all add: position_Some_iff)
  then have "(map lk_key links)[i := key] = map lk_key links"
    by (metis list_update_id nth_map)
  with Some i show ?thesis by (auto simp: unlink_pull_request_def map_update Let_def)
qed

lemma update_first_keys:
  assumes "\<And>link. lk_key (f link) = lk_key link"
  shows "map lk_key (update_first P f links) = map lk_key links"
proof (cases "position P links")
  case (Some i)
  then have "i < length links" by (rule position_less)
  then have "(map lk_key links)[i := lk_key (links ! i)] = map lk_key links" by (metis list_update_id nth_map)
  with Some assms show ?thesis by (simp add: update_first_def map_update)
qed (simp add: update_first_def)

lemma link_distinct:
  "distinct (map lk_key links) \<Longrightarrow> link_pull_request key url source now explicit links = (links', b) \<Longrightarrow> distinct (map lk_key links')"
  using link_keys [of key url source now explicit links] by (auto split: if_splits)

lemma link_layer_distinct:
  "distinct (map lk_key links) \<Longrightarrow> distinct (map lk_key (link_layer url_of key stack now layer links))"
  by (auto simp: link_layer_def Let_def update_first_keys intro: link_distinct split: option.split prod.split bool.split)

lemma fold_layer_distinct:
  "distinct (map lk_key links) \<Longrightarrow> distinct (map lk_key (fold (link_layer url_of key stack now) layers links))"
  by (induction layers arbitrary: links) (simp_all add: link_layer_distinct)

lemma finish_sync_distinct:
  "distinct (map lk_key links) \<Longrightarrow> distinct (map lk_key (finish_sync url_of key snapshot fetched now settled links))"
  by (simp add: finish_sync_def Let_def update_first_keys fold_layer_distinct split: option.split pull_request_stack_state.split)

lemma link_step_distinct: "distinct (map lk_key links) \<Longrightarrow> distinct (map lk_key (link_step op links))"
proof (cases op)
  case (Do_Link key url source now explicit)
  moreover assume "distinct (map lk_key links)"
  ultimately show ?thesis by (simp add: link_keys)
next
  case (Do_Unlink key)
  assume d: "distinct (map lk_key links)"
  have "distinct (map lk_key (take i links @ drop (Suc i) links))" for i
    using d set_take_disj_set_drop_if_distinct [of "map lk_key links" i "Suc i"]
    by (simp add: take_map [symmetric] drop_map [symmetric] image_set)
  with d Do_Unlink unlink_keys [of key links] show ?thesis by (metis link_step.simps(2))
qed (simp_all add: finish_sync_distinct fail_sync_def update_first_keys)

lemma link_history_distinct:
  "distinct (map lk_key links) \<Longrightarrow> distinct (map lk_key (link_history ops links))"
  unfolding link_history_def
  by (induction ops arbitrary: links) (simp_all add: link_step_distinct)

text \<open>
  However links are made and removed, a thread never holds two links with one key, so a key
  names one link.
\<close>

theorem links_have_distinct_keys: "distinct (map lk_key (link_history ops []))"
  by (rule link_history_distinct) simp

text \<open>An operation that restores a dismissed layer.\<close>

definition explicit_link :: "pull_request_key \<Rightarrow> link_op \<Rightarrow> bool" where
  "explicit_link key op = (case op of Do_Link k _ _ _ explicit \<Rightarrow> k = key \<and> explicit | _ \<Rightarrow> False)"

definition tombstone :: "pull_request_key \<Rightarrow> pull_request_link" where
  "tombstone key = new_link key [] Src_Dismissed None"

lemma tombstone_simps [simp]: "lk_key (tombstone key) = key" "\<not> visible (tombstone key)" "lk_watch (tombstone key) = None"
  by (simp_all add: tombstone_def visible_def new_link_def)

lemma distinct_key_eq:
  "distinct (map lk_key links) \<Longrightarrow> a \<in> set links \<Longrightarrow> b \<in> set links \<Longrightarrow> lk_key a = lk_key b \<Longrightarrow> a = b"
  by (simp add: distinct_map inj_on_def)

lemma update_other:
  "a \<in> set xs \<Longrightarrow> i < length xs \<Longrightarrow> xs ! i \<noteq> a \<Longrightarrow> a \<in> set (xs[i := b])"
  by (metis in_set_conv_nth length_list_update nth_list_update_neq)

lemma remove_other:
  "a \<in> set xs \<Longrightarrow> i < length xs \<Longrightarrow> xs ! i \<noteq> a \<Longrightarrow> a \<in> set (take i xs @ drop (Suc i) xs)"
  by (metis Cons_nth_drop_Suc append_take_drop_id in_set_conv_decomp set_ConsD set_append Un_iff)

lemma tombstone_update:
  assumes "tombstone key \<in> set links" "\<not> P (tombstone key)"
  shows "tombstone key \<in> set (update_first P f links)"
proof (cases "position P links")
  case (Some i)
  then have i: "i < length links" "P (links ! i)" by (simp_all add: position_Some_iff)
  then have "links ! i \<noteq> tombstone key" using assms(2) by auto
  then show ?thesis using Some update_other [OF assms(1) i(1)] by (simp add: update_first_def)
qed (simp add: update_first_def assms)

text \<open>A link that is not explicit leaves whatever is there.\<close>

lemma tombstone_layer:
  assumes "tombstone key \<in> set links"
  shows "tombstone key \<in> set (link_layer url_of k stack now layer links)"
proof -
  define sibling where "sibling = pull_request_key_new (pk_host k) (pk_repository k) (ly_number layer)"
  have "tombstone key \<in> set (case link_pull_request sibling url Src_Stack now False links of
      (links', True) \<Rightarrow> update_first (\<lambda>link. lk_key link = sibling) (\<lambda>link. link\<lparr>lk_stack := stack\<rparr>) links'
    | (links', False) \<Rightarrow> links')" for url
  proof (cases "position (\<lambda>link. lk_key link = sibling) links")
    case None
    then have "sibling \<noteq> key" using assms by (auto simp: position_None_iff)
    then show ?thesis using None assms
      by (auto simp: link_pull_request_def intro!: tombstone_update)
  next
    case (Some i)
    then show ?thesis using assms by (simp add: link_pull_request_def)
  qed
  then show ?thesis using assms by (simp add: link_layer_def sibling_def [symmetric] Let_def split: option.split)
qed

lemma tombstone_layers:
  "tombstone key \<in> set links \<Longrightarrow> tombstone key \<in> set (fold (link_layer url_of k stack now) layers links)"
  by (induction layers arbitrary: links) (simp_all add: tombstone_layer)

lemma tombstone_sync:
  "tombstone key \<in> set links \<Longrightarrow> tombstone key \<in> set (finish_sync url_of k snapshot fetched now settled links)"
  by (auto simp: finish_sync_def Let_def tombstone_layers intro!: tombstone_update
      split: option.split pull_request_stack_state.split)

lemma tombstone_step:
  assumes d: "distinct (map lk_key links)" and t: "tombstone key \<in> set links"
    and op: "\<not> explicit_link key op"
  shows "tombstone key \<in> set (link_step op links)"
proof (cases op)
  case (Do_Link k url source now explicit)
  show ?thesis
  proof (cases "position (\<lambda>link. lk_key link = k) links")
    case None
    with t Do_Link show ?thesis by (simp add: link_pull_request_def)
  next
    case (Some i)
    then have i: "i < length links" "lk_key (links ! i) = k" by (simp_all add: position_Some_iff)
    show ?thesis
    proof (cases "k = key")
      case True
      with op Do_Link have "\<not> explicit" by (simp add: explicit_link_def)
      with t Do_Link Some show ?thesis by (simp add: link_pull_request_def)
    next
      case False
      with i have "links ! i \<noteq> tombstone key" by auto
      with t i Do_Link Some show ?thesis
        by (auto simp: link_pull_request_def intro: update_other)
    qed
  qed
next
  case (Do_Unlink k)
  show ?thesis
  proof (cases "position (\<lambda>link. lk_key link = k \<and> visible link) links")
    case None
    with t Do_Unlink show ?thesis by (simp add: unlink_pull_request_def)
  next
    case (Some i)
    then have i: "i < length links" "visible (links ! i)" by (simp_all add: position_Some_iff)
    then have "links ! i \<noteq> tombstone key" by auto
    from update_other [OF t i(1) this] remove_other [OF t i(1) this]
    show ?thesis using Do_Unlink Some by (simp add: unlink_pull_request_def Let_def)
  qed
qed (simp_all add: t tombstone_sync tombstone_update fail_sync_def)

lemma tombstone_history:
  assumes "distinct (map lk_key links)" and "tombstone key \<in> set links"
    and "\<forall>op\<in>set ops. \<not> explicit_link key op"
  shows "tombstone key \<in> set (link_history ops links)"
  using assms
proof (induction ops arbitrary: links)
  case Nil
  then show ?case by (simp add: link_history_def)
next
  case (Cons op ops)
  then have "tombstone key \<in> set (link_history ops (link_step op links))"
    by (intro Cons.IH) (simp_all add: link_step_distinct tombstone_step)
  then show ?case by (simp add: link_history_def)
qed

text \<open>What unlinking a layer of a native stack leaves.\<close>

lemma unlink_layer_tombstone:
  assumes "lk \<in> set links" "lk_key lk = key" "visible lk" "\<exists>link\<in>set links. carries_layer key link"
  shows "tombstone key \<in> set (fst (unlink_pull_request key links))"
proof -
  from assms obtain i where i: "position (\<lambda>link. lk_key link = key \<and> visible link) links = Some i"
    by (metis (mono_tags, lifting) not_None_eq position_None_iff)
  then have "i < length links" by (rule position_less)
  with i assms show ?thesis
    by (auto simp: unlink_pull_request_def tombstone_def Let_def intro: set_update_memI)
qed

text \<open>An explicit link replaces the tombstone.\<close>

lemma explicit_link_restores:
  assumes "distinct (map lk_key links)" "tombstone key \<in> set links" "source \<noteq> Src_Dismissed"
  shows "\<exists>link\<in>set (fst (link_pull_request key url source now True links)). lk_key link = key \<and> visible link"
proof -
  have "\<not> (\<forall>link\<in>set links. lk_key link \<noteq> key)" using assms(2) tombstone_simps(1) [of key] by blast
  then have "position (\<lambda>link. lk_key link = key) links \<noteq> None" unfolding position_None_iff .
  then obtain i where i: "position (\<lambda>link. lk_key link = key) links = Some i" by blast
  then have at: "i < length links" "lk_key (links ! i) = key" by (simp_all add: position_Some_iff)
  then have "links ! i = tombstone key" using distinct_key_eq [OF assms(1) nth_mem [OF at(1)] assms(2)] by simp
  then have "fst (link_pull_request key url source now True links) = links[i := new_link key url source (Some now)]"
    using i by (simp add: link_pull_request_def)
  moreover have "new_link key url source (Some now) \<in> set (links[i := new_link key url source (Some now)])"
    using at(1) by (rule set_update_memI)
  moreover have "visible (new_link key url source (Some now))" using assms(3) by (simp add: visible_def)
  ultimately show ?thesis by (metis new_link_fields(1))
qed

text \<open>
  C35: A layer that was unlinked from a native stack stays unlinked: however often a sync of the stack
  finishes and links its layers again, and among any links of other pull requests, unlinks, failed
  syncs and watches, the thread has no visible link to it until the user or an agent links it, which
  is the only explicit link; that link makes it visible again. (A thread holds
  one link per pull request, and an explicit link never has the source of a dismissed one.)
\<close>

theorem unlinked_layer_stays_unlinked:
  assumes links: "distinct (map lk_key links)"
    and held: "lk \<in> set links" "lk_key lk = key" "visible lk"
    and layer: "\<exists>link\<in>set links. carries_layer key link"
    and ops: "\<forall>op\<in>set ops. \<not> explicit_link key op"
    and source: "source \<noteq> Src_Dismissed"
  shows "filter (\<lambda>link. lk_key link = key \<and> visible link) (link_history (Do_Unlink key # ops) links) = []
    \<and> (\<exists>link\<in>set (link_history (Do_Unlink key # ops @ [Do_Link key url source now True]) links).
         lk_key link = key \<and> visible link)"
proof -
  let ?final = "link_history (Do_Unlink key # ops) links"
  have "tombstone key \<in> set (link_step (Do_Unlink key) links)"
    using unlink_layer_tombstone [OF held layer] by simp
  then have "tombstone key \<in> set (link_history ops (link_step (Do_Unlink key) links))"
    by (intro tombstone_history link_step_distinct links ops)
  then have t: "tombstone key \<in> set ?final" by (simp add: link_history_def)
  have d: "distinct (map lk_key ?final)" by (rule link_history_distinct [OF links])
  from distinct_key_eq [OF d _ t] have "\<not> visible link"
    if "link \<in> set ?final" "lk_key link = key" for link
    using that by (metis tombstone_simps(1,2))
  moreover have "link_history (Do_Unlink key # ops @ [Do_Link key url source now True]) links
      = fst (link_pull_request key url source now True ?final)"
    by (simp add: link_history_def)
  ultimately show ?thesis using explicit_link_restores [OF d t source] by (auto simp: filter_empty_conv)
qed

subsection \<open>Examples\<close>

text \<open>A link that carries a native stack of three layers: one merged, one closed, and itself.\<close>

definition example_key :: pull_request_key where
  "example_key = \<lparr>pk_host = ''github.com'', pk_repository = ''o/r'', pk_number = 7\<rparr>"

definition example_layer :: "u64 \<Rightarrow> pull_request_state \<Rightarrow> stack_layer" where
  "example_layer n state = \<lparr>ly_url = [], ly_number = n, ly_head_branch = decimal (unat n), ly_state = state\<rparr>"

definition example_stack :: pull_request_stack where
  "example_stack = \<lparr>st_id = ''s'', st_number = 1, st_url = [], st_base = ''main'',
     st_layers = [example_layer 5 PR_Merged, example_layer 6 PR_Closed, example_layer 7 PR_Open]\<rparr>"

definition example_link :: pull_request_link where
  "example_link = (new_link example_key [] Src_Manual (Some 1))\<lparr>lk_stack := Stack_Native example_stack\<rparr>"

definition example_map :: stack_view where
  "example_map = the (stack_map [example_link] example_key)"

lemma example_stack_map:
  "stack_map [example_link] example_key = Some example_map"
  "map mr_role (sm_rows example_map) = [Role_Below_Merged, Role_Blocks Blocker_Closed, Role_Selected]"
  "map (ly_number \<circ> mr_layer) (sm_rows example_map) = [5, 6, 7]"
  by (simp_all add: example_map_def stack_map_def native_stack_def example_link_def example_stack_def
      example_layer_def example_key_def new_link_def visible_def same_repo_def has_layer_def
      stack_map_row_def)

theorem stack_scope_and_blockers_witness:
  "stack_map [example_link] example_key = Some example_map
   \<and> (\<exists>scope. sm_scope example_map = Some scope \<and> subseq scope (sm_unmerged example_map)
        \<and> subseq (map fst (sm_blockers example_map)) scope)
   \<and> length (sm_rows example_map) = 3"
  using stack_scope_and_blockers [OF example_stack_map(1)] example_stack_map(1)
    arg_cong [OF example_stack_map(2), of length] by auto

definition example_snapshot :: pull_request_snapshot where
  "example_snapshot = \<lparr>ps_state = PR_Open, ps_title = ''t'', ps_head_branch = ''h'', ps_base_branch = ''main'',
     ps_is_draft = False, ps_updated_at = [], ps_synced_at = 9, ps_closed_at = None, ps_merged_at = None,
     ps_author = None, ps_additions = None, ps_deletions = None, ps_changed_files = None,
     ps_review_decision = None, ps_checks_state = None, ps_mergeability = Merge_Unknown\<rparr>"

text \<open>The top layer is unlinked while a layer below it is linked, whose sync then ends.\<close>

definition lower_link :: pull_request_link where
  "lower_link = (new_link (example_key\<lparr>pk_number := 5\<rparr>) [] Src_Stack (Some 1))\<lparr>lk_stack := Stack_Native example_stack\<rparr>"

theorem unlinked_layer_stays_unlinked_witness:
  "filter (\<lambda>link. lk_key link = example_key \<and> visible link)
     (link_history [Do_Unlink example_key,
        Do_Sync (\<lambda>_. Some ''u'') (example_key\<lparr>pk_number := 5\<rparr>) example_snapshot None 5 False] [example_link, lower_link]) = []
   \<and> (\<exists>link\<in>set (link_history ([Do_Unlink example_key,
        Do_Sync (\<lambda>_. Some ''u'') (example_key\<lparr>pk_number := 5\<rparr>) example_snapshot None 5 False]
          @ [Do_Link example_key ''u'' Src_Agent 6 True]) [example_link, lower_link]).
        lk_key link = example_key \<and> visible link)"
  using unlinked_layer_stays_unlinked [of "[example_link, lower_link]" example_link example_key
      "[Do_Sync (\<lambda>_. Some ''u'') (example_key\<lparr>pk_number := 5\<rparr>) example_snapshot None 5 False]" Src_Agent "''u''" 6]
  by (simp add: example_link_def lower_link_def example_stack_def example_layer_def example_key_def new_link_def
      visible_def carries_layer_def same_repo_def has_layer_def explicit_link_def)

end
