(* ===== verification/PR_Groups.thy ===== *)
theory PR_Groups
  imports Pull_Requests "HOL-Library.Multiset"
begin

section \<open>Grouping a thread's pull requests\<close>

text \<open>
  \<open>badge\<close> and \<open>groups\<close> of \<^verbatim>\<open>crates/core/src/pull_request.rs\<close>: the visible links of a thread put into
  native stacks, stacks derived from branch names, and single pull requests. A hash set of keys is
  a set, the hash map from a head branch to the link that has it a map, whose value \<open>Some None\<close>
  is a branch that several links share. The RFC 3339 parser (seconds since the epoch) is the
  parameter \<open>parse\<close>. The walk down a derived stack is a recursion that ends because every turn
  places a key that was not placed before.
\<close>

subsection \<open>The badge\<close>

datatype badge_state = Badge_Draft | Badge_Unknown | Badge_Open | Badge_Merged | Badge_Closed

definition badge_state_of :: "pull_request_snapshot option \<Rightarrow> badge_state" where
  "badge_state_of snapshot = (case map_option (\<lambda>s. (ps_state s, ps_is_draft s)) snapshot of
      Some (PR_Open, True) \<Rightarrow> Badge_Draft
    | Some (PR_Open, False) \<Rightarrow> Badge_Open
    | Some (PR_Merged, _) \<Rightarrow> Badge_Merged
    | Some (PR_Closed, _) \<Rightarrow> Badge_Closed
    | None \<Rightarrow> Badge_Unknown)"

subsection \<open>Groups\<close>

datatype group_kind = Group_Native | Group_Derived | Group_Single

record pull_request_group =
  gr_kind :: group_kind
  gr_stack :: "pull_request_stack option"
  gr_links :: "pull_request_link list"

type_synonym grouping = "pull_request_group list \<times> pull_request_key set"

text \<open>The first pass: a group per native stack that is not placed yet.\<close>

definition native_members :: "pull_request_link list \<Rightarrow> pull_request_stack \<Rightarrow> pull_request_link \<Rightarrow>
    pull_request_link list" where
  "native_members shown_links stack link = (
     let members = List.map_filter (\<lambda>layer. find (\<lambda>member.
           same_repo (lk_key member) (lk_key link) \<and> pk_number (lk_key member) = ly_number layer)
           shown_links) (st_layers stack)
     in if \<exists>member\<in>set members. lk_key member = lk_key link then members else members @ [link])"

definition native_step :: "pull_request_link list \<Rightarrow> pull_request_link \<Rightarrow> grouping \<Rightarrow> grouping" where
  "native_step shown_links link s = (case s of (gs, placed) \<Rightarrow> (case lk_stack link of
      Stack_Native stack \<Rightarrow>
        if lk_key link \<in> placed then (gs, placed)
        else let members = native_members shown_links stack link
          in (gs @ [\<lparr>gr_kind = Group_Native, gr_stack = Some stack, gr_links = members\<rparr>],
              placed \<union> lk_key ` set members)
    | _ \<Rightarrow> (gs, placed)))"

text \<open>The second pass: stacks told by their branches.\<close>

type_synonym heads = "string \<times> string \<times> string \<rightharpoonup> pull_request_link option"

definition head_step :: "pull_request_link \<Rightarrow> heads \<Rightarrow> heads" where
  "head_step link by_head = (case lk_snapshot link of
      None \<Rightarrow> by_head
    | Some snapshot \<Rightarrow>
        let key = (pk_host (lk_key link), pk_repository (lk_key link), ps_head_branch snapshot)
        in if by_head key = None then by_head(key \<mapsto> Some link) else by_head(key \<mapsto> None))"

definition by_head :: "pull_request_link list \<Rightarrow> heads" where
  "by_head remaining = fold head_step remaining Map.empty"

definition parent_of :: "pull_request_link list \<Rightarrow> pull_request_link \<Rightarrow> pull_request_link option" where
  "parent_of remaining link = do {
     snapshot \<leftarrow> lk_snapshot link;
     found \<leftarrow> by_head remaining
       (pk_host (lk_key link), pk_repository (lk_key link), ps_base_branch snapshot);
     parent \<leftarrow> found;
     (if lk_key parent \<noteq> lk_key link then Some parent else None) }"

lemma by_head_Some:
  assumes "by_head remaining (h, r, b) = Some (Some link)"
  shows "link \<in> set remaining \<and> pk_host (lk_key link) = h \<and> pk_repository (lk_key link) = r
     \<and> (\<exists>s. lk_snapshot link = Some s \<and> ps_head_branch s = b)"
proof -
  have "link \<in> set remaining \<and> pk_host (lk_key link) = h \<and> pk_repository (lk_key link) = r
     \<and> (\<exists>s. lk_snapshot link = Some s \<and> ps_head_branch s = b) \<or> m (h, r, b) = Some (Some link)"
    if "fold head_step remaining m (h, r, b) = Some (Some link)" for m
    using that
  proof (induction remaining arbitrary: m)
    case Nil
    then show ?case by simp
  next
    case (Cons l ls)
    from Cons.IH [of "head_step l m"] Cons.prems show ?case
      by (auto simp: head_step_def Let_def split: option.splits if_splits)
  qed
  from this [of Map.empty] assms show ?thesis by (simp add: by_head_def)
qed

lemma parent_of_in: "parent_of remaining link = Some p \<Longrightarrow> p \<in> set remaining"
  by (auto simp: parent_of_def split: bind_splits if_splits dest!: by_head_Some)

text \<open>
  The walk from the top of a derived stack down: the members so far with the lowest first, and the
  keys placed.
\<close>

function group_chain :: "pull_request_link list \<Rightarrow> pull_request_key set \<Rightarrow> pull_request_link list \<Rightarrow>
    pull_request_link option \<Rightarrow> pull_request_key set \<times> pull_request_link list" where
  "group_chain remaining placed members None = (placed, members)"
| "group_chain remaining placed members (Some link) =
     (if lk_key link \<in> placed then (placed, members)
      else group_chain remaining (insert (lk_key link) placed) (link # members)
        (parent_of remaining link))"
  by pat_completeness auto
termination
proof (relation "measure (\<lambda>(remaining, placed, _, cursor).
    2 * card (lk_key ` set remaining - placed)
    + (case cursor of None \<Rightarrow> 0 | Some l \<Rightarrow> if lk_key l \<in> lk_key ` set remaining then 0 else 1))")
  fix remaining :: "pull_request_link list" and placed :: "pull_request_key set"
    and members :: "pull_request_link list" and link :: pull_request_link
  assume new: "lk_key link \<notin> placed"
  let ?keys = "lk_key ` set remaining"
  have next_in: "(case parent_of remaining link of None \<Rightarrow> 0
      | Some l \<Rightarrow> if lk_key l \<in> ?keys then 0 else 1) = (0::nat)"
    by (auto split: option.split dest: parent_of_in)
  show "((remaining, insert (lk_key link) placed, link # members, parent_of remaining link),
      (remaining, placed, members, Some link)) \<in> measure (\<lambda>(remaining, placed, _, cursor).
    2 * card (lk_key ` set remaining - placed)
    + (case cursor of None \<Rightarrow> 0 | Some l \<Rightarrow> if lk_key l \<in> lk_key ` set remaining then 0 else 1))"
  proof (cases "lk_key link \<in> ?keys")
    case True
    with new have "?keys - insert (lk_key link) placed \<subset> ?keys - placed" by blast
    then have "card (?keys - insert (lk_key link) placed) < card (?keys - placed)"
      by (intro psubset_card_mono) simp_all
    with True next_in show ?thesis by simp
  next
    case False
    then have "?keys - insert (lk_key link) placed = ?keys - placed" by blast
    with False next_in show ?thesis by simp
  qed
qed simp

definition derived_step :: "pull_request_link list \<Rightarrow> pull_request_key set \<Rightarrow> pull_request_link \<Rightarrow>
    grouping \<Rightarrow> grouping" where
  "derived_step remaining parents link s = (case s of (gs, placed) \<Rightarrow>
     if lk_key link \<in> parents then (gs, placed)
     else (case group_chain remaining placed [] (Some link) of (placed', members) \<Rightarrow>
       if members \<noteq> [] then
         (gs @ [\<lparr>gr_kind = (if length members > 1 then Group_Derived else Group_Single),
                 gr_stack = None, gr_links = members\<rparr>], placed')
       else (gs, placed')))"

text \<open>The third pass: what a cycle of branches left over.\<close>

definition single_step :: "pull_request_link \<Rightarrow> grouping \<Rightarrow> grouping" where
  "single_step link s = (case s of (gs, placed) \<Rightarrow>
     if lk_key link \<in> placed then (gs, placed)
     else (gs @ [\<lparr>gr_kind = Group_Single, gr_stack = None, gr_links = [link]\<rparr>],
           insert (lk_key link) placed))"

text \<open>\<open>sort_by_key\<close> with \<open>Reverse\<close> of the latest update: stable, the newest first.\<close>

definition link_updated :: "(string \<Rightarrow> int option) \<Rightarrow> pull_request_link \<Rightarrow> nat" where
  "link_updated parse link =
     (case Option.bind (lk_snapshot link) (\<lambda>s. parse (ps_updated_at s)) of
        Some seconds \<Rightarrow> nat (max seconds 0)
      | None \<Rightarrow> (case lk_linked_at link of Some at \<Rightarrow> unat at | None \<Rightarrow> 0))"

definition reverse_updated :: "(string \<Rightarrow> int option) \<Rightarrow> pull_request_group \<Rightarrow> int" where
  "reverse_updated parse g = (case map (link_updated parse) (gr_links g) of
      [] \<Rightarrow> 1
    | u # us \<Rightarrow> - int (foldl max u us))"

definition group_passes :: "pull_request_link list \<Rightarrow> grouping" where
  "group_passes links = (
     let shown_links = filter visible links;
         (native, placed) = fold (native_step shown_links) shown_links ([], {});
         remaining = filter (\<lambda>link. lk_key link \<notin> placed) shown_links;
         parents = lk_key ` set (List.map_filter (parent_of remaining) remaining)
     in fold single_step remaining (fold (derived_step remaining parents) remaining (native, placed)))"

definition groups :: "(string \<Rightarrow> int option) \<Rightarrow> pull_request_link list \<Rightarrow> pull_request_group list" where
  "groups parse links = sort_key (reverse_updated parse) (fst (group_passes links))"

definition badge :: "(string \<Rightarrow> int option) \<Rightarrow> pull_request_link list \<Rightarrow>
    (badge_state \<times> nat \<times> bool) option" where
  "badge parse links = (
     let shown_links = filter visible links;
         state_is = (\<lambda>p link. case lk_snapshot link of Some s \<Rightarrow> p s | None \<Rightarrow> False);
         opened = filter (\<lambda>link. case lk_snapshot link of None \<Rightarrow> True | Some s \<Rightarrow> ps_state s = PR_Open)
           shown_links;
         state = (if list_all (\<lambda>link. lk_snapshot link = None) shown_links then Badge_Unknown
           else if opened \<noteq> [] then
             (if list_all (state_is (\<lambda>s. ps_state s = PR_Open \<and> ps_is_draft s)) shown_links
              then Badge_Draft else Badge_Open)
           else if list_all (state_is (\<lambda>s. ps_state s = PR_Merged)) shown_links then Badge_Merged
           else Badge_Closed);
         chains = groups parse links
     in if shown_links = [] then None
        else if length shown_links > 1 \<and> length chains = 1 then Some (state, length shown_links, True)
        else Some (state, length shown_links, False))"

subsection \<open>Nothing is lost\<close>

definition members_of :: "pull_request_group list \<Rightarrow> pull_request_link list" where
  "members_of gs = concat (map gr_links gs)"

lemma members_of_simps [simp]:
  "members_of [] = []" "members_of (gs @ hs) = members_of gs @ members_of hs"
  "members_of (g # gs) = gr_links g @ members_of gs"
  by (simp_all add: members_of_def)

text \<open>
  The invariant of the three passes over the visible links: the placed keys are those of the
  members, every member is a visible link, no group is empty, the groups told by branches or by
  nothing share no key with each other or with a native one, and a derived group is a chain.
\<close>

definition based_on :: "pull_request_link \<Rightarrow> pull_request_link \<Rightarrow> bool" where
  "based_on parent child = (same_repo (lk_key parent) (lk_key child)
     \<and> (case (lk_snapshot parent, lk_snapshot child) of
          (Some p, Some c) \<Rightarrow> ps_base_branch c = ps_head_branch p | _ \<Rightarrow> False))"

definition is_native :: "pull_request_group \<Rightarrow> bool" where
  "is_native g = (gr_kind g = Group_Native)"

definition separate :: "pull_request_group list \<Rightarrow> bool" where
  "separate gs = (distinct (map lk_key (members_of (filter (Not \<circ> is_native) gs)))
     \<and> lk_key ` set (members_of (filter (Not \<circ> is_native) gs))
         \<inter> lk_key ` set (members_of (filter is_native gs)) = {})"

definition chain_group :: "pull_request_group \<Rightarrow> bool" where
  "chain_group g = (case gr_kind g of
      Group_Native \<Rightarrow> gr_links g \<noteq> []
    | Group_Derived \<Rightarrow> 2 \<le> length (gr_links g) \<and> successively based_on (gr_links g)
    | Group_Single \<Rightarrow> length (gr_links g) = 1)"

definition grouping_ok :: "pull_request_link list \<Rightarrow> grouping \<Rightarrow> bool" where
  "grouping_ok sl s = (case s of (gs, placed) \<Rightarrow>
     placed = lk_key ` set (members_of gs) \<and> set (members_of gs) \<subseteq> set sl
     \<and> separate gs \<and> list_all chain_group gs)"

definition only_native :: "grouping \<Rightarrow> bool" where
  "only_native s = list_all is_native (fst s)"

lemma set_map_filter: "set (List.map_filter f xs) = {y. \<exists>x\<in>set xs. f x = Some y}"
  by (induction xs) (auto simp: List.map_filter_simps split: option.split)

lemma native_members_in:
  assumes "link \<in> set sl"
  shows "set (native_members sl stack link) \<subseteq> set sl"
    and "lk_key link \<in> lk_key ` set (native_members sl stack link)"
proof -
  have "set (List.map_filter (\<lambda>layer. find (\<lambda>member. same_repo (lk_key member) (lk_key link)
      \<and> pk_number (lk_key member) = ly_number layer) sl) layers) \<subseteq> set sl" for layers
    by (auto simp: set_map_filter find_Some_iff)
  with assms show "set (native_members sl stack link) \<subseteq> set sl"
    by (auto simp: native_members_def Let_def)
  show "lk_key link \<in> lk_key ` set (native_members sl stack link)"
    proof -
    have "lk_key link \<in> lk_key ` set (if \<exists>member\<in>set ms. lk_key member = lk_key link then ms else ms @ [link])" for ms
      by (simp add: image_iff) (metis (full_types))
    then show ?thesis by (simp only: native_members_def Let_def)
  qed
qed

lemma native_step_ok:
  assumes "grouping_ok sl s" and "only_native s" and link: "link \<in> set sl"
  shows "grouping_ok sl (native_step sl link s) \<and> only_native (native_step sl link s)"
proof -
  obtain gs placed where s: "s = (gs, placed)" by (cases s)
  have nn: "filter (Not \<circ> is_native) gs = []"
    using assms(2) by (auto simp: s only_native_def filter_empty_conv list_all_iff)
  have native: "is_native \<lparr>gr_kind = Group_Native, gr_stack = st, gr_links = ls\<rparr>" for st ls
    by (simp add: is_native_def)
  have "native_members sl stack link \<noteq> []" for stack
    using native_members_in(2) [OF link, of stack] by auto
  then show ?thesis
    using assms(1,2) native_members_in(1) [OF link]
    by (auto simp: s native_step_def grouping_ok_def only_native_def separate_def chain_group_def
        native Let_def nn split: pull_request_stack_state.split)
qed

lemma native_pass_ok:
  assumes "grouping_ok sl s" and "only_native s" and "set links \<subseteq> set sl"
  shows "grouping_ok sl (fold (native_step sl) links s) \<and> only_native (fold (native_step sl) links s)"
  using assms
  by (induction links arbitrary: s) (auto simp: native_step_ok)

text \<open>A group that is not native, of keys not placed before.\<close>

lemma add_group_ok:
  assumes ok: "grouping_ok sl (gs, placed)" and g: "chain_group g" "\<not> is_native g"
    and sub: "set (gr_links g) \<subseteq> set sl"
    and new: "distinct (map lk_key (gr_links g))" "lk_key ` set (gr_links g) \<inter> placed = {}"
  shows "grouping_ok sl (gs @ [g], placed \<union> lk_key ` set (gr_links g))"
proof -
  have placed: "placed = lk_key ` set (members_of gs)" and sep: "separate gs"
    using ok by (simp_all add: grouping_ok_def)
  have part: "set (members_of (filter P gs)) \<subseteq> set (members_of gs)" for P
    by (auto simp: members_of_def)
  have "lk_key ` set (gr_links g) \<inter> lk_key ` set (members_of (filter P gs)) = {}" for P
    using new(2) part [of P] unfolding placed by blast
  then have "separate (gs @ [g])"
    using sep g new unfolding separate_def by (auto simp: Int_Un_distrib2 Int_commute)
  with ok g sub show ?thesis by (auto simp: grouping_ok_def)
qed

lemma group_chain_new:
  assumes "group_chain remaining placed members cursor = (placed', members')"
  shows "\<exists>new. members' = new @ members \<and> distinct (map lk_key new) \<and> lk_key ` set new \<inter> placed = {}
     \<and> placed' = placed \<union> lk_key ` set new \<and> set new \<subseteq> set_option cursor \<union> set remaining"
  using assms
proof (induction remaining placed members cursor rule: group_chain.induct)
  case (1 remaining placed members)
  then show ?case by simp
next
  case (2 remaining placed members link)
  show ?case
  proof (cases "lk_key link \<in> placed")
    case True
    with 2 show ?thesis by simp
  next
    case False
    with 2 obtain new where new: "members' = new @ link # members" "distinct (map lk_key new)"
      "lk_key ` set new \<inter> insert (lk_key link) placed = {}"
      "placed' = insert (lk_key link) placed \<union> lk_key ` set new"
      "set new \<subseteq> set_option (parent_of remaining link) \<union> set remaining" by auto
    moreover have "set_option (parent_of remaining link) \<subseteq> set remaining"
      by (auto dest: parent_of_in)
    ultimately show ?thesis using False by (intro exI [of _ "new @ [link]"]) auto
  qed
qed

lemma parent_based_on: "parent_of remaining link = Some p \<Longrightarrow> based_on p link"
  by (auto simp: parent_of_def based_on_def same_repo_def split: bind_splits if_splits option.splits
      dest!: by_head_Some)

lemma group_chain_based:
  assumes "group_chain remaining placed members cursor = (placed', members')"
    and "successively based_on members"
    and "\<And>link m ms. cursor = Some link \<Longrightarrow> members = m # ms \<Longrightarrow> based_on link m"
  shows "successively based_on members'"
  using assms
proof (induction remaining placed members cursor rule: group_chain.induct)
  case (1 remaining placed members)
  then show ?case by simp
next
  case (2 remaining placed members link)
  show ?case
  proof (cases "lk_key link \<in> placed")
    case True
    with 2 show ?thesis by simp
  next
    case False
    have "successively based_on (link # members)"
      using "2.prems" by (cases members) (simp_all add: successively_Cons)
    with False 2 show ?thesis by (auto intro: parent_based_on)
  qed
qed

lemma derived_step_ok:
  assumes ok: "grouping_ok sl s" and rem: "set remaining \<subseteq> set sl" and link: "link \<in> set sl"
  shows "grouping_ok sl (derived_step remaining parents link s)"
proof (cases "lk_key link \<in> parents")
  case True
  with ok show ?thesis by (cases s) (simp add: derived_step_def)
next
  case False
  obtain gs placed where s: "s = (gs, placed)" by (cases s)
  obtain placed' members where chain: "group_chain remaining placed [] (Some link) = (placed', members)"
    by (cases "group_chain remaining placed [] (Some link)")
  let ?g = "\<lparr>gr_kind = (if length members > 1 then Group_Derived else Group_Single),
                 gr_stack = None, gr_links = members\<rparr>"
  from group_chain_new [OF chain] have new: "distinct (map lk_key members)"
    "lk_key ` set members \<inter> placed = {}" "placed' = placed \<union> lk_key ` set members"
    "set members \<subseteq> set sl" using rem link by auto
  show ?thesis
  proof (cases "members = []")
    case True
    with ok False s chain new show ?thesis by (simp add: derived_step_def)
  next
    case nonempty: False
    have "successively based_on members" by (rule group_chain_based [OF chain]) simp_all
    then have "chain_group ?g"
      using nonempty by (cases members) (auto simp: chain_group_def Suc_le_eq)
    with ok s new have "grouping_ok sl (gs @ [?g], placed \<union> lk_key ` set (gr_links ?g))"
      by (intro add_group_ok) (simp_all add: is_native_def)
    with False nonempty s chain new show ?thesis by (simp add: derived_step_def)
  qed
qed

lemma single_step_ok:
  assumes ok: "grouping_ok sl s" and link: "link \<in> set sl"
  shows "grouping_ok sl (single_step link s) \<and> lk_key link \<in> snd (single_step link s)
     \<and> snd s \<subseteq> snd (single_step link s)"
proof (cases s)
  case (Pair gs placed)
  show ?thesis
  proof (cases "lk_key link \<in> placed")
    case True
    with ok Pair show ?thesis by (simp add: single_step_def)
  next
    case False
    have "grouping_ok sl (gs @ [\<lparr>gr_kind = Group_Single, gr_stack = None, gr_links = [link]\<rparr>],
        placed \<union> lk_key ` set (gr_links \<lparr>gr_kind = Group_Single, gr_stack = None, gr_links = [link]\<rparr>))"
      using ok Pair link False
      by (intro add_group_ok) (simp_all add: is_native_def chain_group_def)
    with False Pair show ?thesis by (auto simp: single_step_def)
  qed
qed

lemma derived_pass_ok:
  assumes "grouping_ok sl s" and "set remaining \<subseteq> set sl" and "set links \<subseteq> set sl"
  shows "grouping_ok sl (fold (derived_step remaining parents) links s)"
  using assms by (induction links arbitrary: s) (auto simp: derived_step_ok)

lemma single_pass_ok:
  assumes "grouping_ok sl s" and "set links \<subseteq> set sl"
  shows "grouping_ok sl (fold single_step links s) \<and> lk_key ` set links \<subseteq> snd (fold single_step links s)
     \<and> snd s \<subseteq> snd (fold single_step links s)"
  using assms
proof (induction links arbitrary: s)
  case Nil
  then show ?case by simp
next
  case (Cons link links)
  from Cons.prems have "grouping_ok sl (single_step link s)" "lk_key link \<in> snd (single_step link s)"
    "snd s \<subseteq> snd (single_step link s)" by (simp_all add: single_step_ok)
  with Cons.IH [of "single_step link s"] Cons.prems show ?case by auto
qed

lemma derived_step_placed: "grouping_ok sl s \<Longrightarrow> set remaining \<subseteq> set sl \<Longrightarrow> link \<in> set sl \<Longrightarrow>
    snd s \<subseteq> snd (derived_step remaining parents link s)"
  by (cases s)
    (auto simp: derived_step_def split: prod.split dest!: group_chain_new)

lemma derived_pass_placed:
  assumes "grouping_ok sl s" and "set remaining \<subseteq> set sl" and "set links \<subseteq> set sl"
  shows "snd s \<subseteq> snd (fold (derived_step remaining parents) links s)"
  using assms
proof (induction links arbitrary: s)
  case (Cons link links)
  from Cons.prems have "grouping_ok sl (derived_step remaining parents link s)"
    "snd s \<subseteq> snd (derived_step remaining parents link s)"
    by (simp_all add: derived_step_ok derived_step_placed)
  with Cons.IH [of "derived_step remaining parents link s"] Cons.prems show ?case by auto
qed simp

lemma group_passes_ok:
  "grouping_ok (filter visible links) (group_passes links)
   \<and> lk_key ` set (filter visible links) \<subseteq> snd (group_passes links)"
proof -
  let ?sl = "filter visible links"
  obtain native placed where native: "fold (native_step ?sl) ?sl ([], {}) = (native, placed)"
    by (cases "fold (native_step ?sl) ?sl ([], {})")
  let ?rem = "filter (\<lambda>link. lk_key link \<notin> placed) ?sl"
  let ?derived = "fold (derived_step ?rem (lk_key ` set (List.map_filter (parent_of ?rem) ?rem)))
      ?rem (native, placed)"
  have "grouping_ok ?sl ([], {})" "only_native ([], {})"
    by (simp_all add: grouping_ok_def separate_def only_native_def)
  then have n: "grouping_ok ?sl (native, placed)"
    using native_pass_ok [of ?sl "([], {})" ?sl] by (simp add: native)
  have sub: "set ?rem \<subseteq> set ?sl" by auto
  have d: "grouping_ok ?sl ?derived" "placed \<subseteq> snd ?derived"
    using derived_pass_ok [OF n sub sub] derived_pass_placed [OF n sub sub] by auto
  have passes: "group_passes links = fold single_step ?rem ?derived"
    by (simp only: group_passes_def Let_def native prod.case)
  have "lk_key ` set ?sl \<subseteq> lk_key ` set ?rem \<union> placed" by auto
  with single_pass_ok [OF d(1) sub] d(2) show ?thesis unfolding passes by blast
qed

lemma members_of_sorted: "mset (members_of (sort_key f gs)) = mset (members_of gs)"
proof -
  have "mset (members_of hs) = sum_mset (image_mset (\<lambda>g. mset (gr_links g)) (mset hs))" for hs
    by (induction hs) simp_all
  then show ?thesis by simp
qed

text \<open>
  C22: Grouping loses no pull request and invents none: every member of a group is a visible link of
  the thread, the keys of the members are exactly the keys of the visible links, and no group is
  empty.
\<close>

theorem groups_cover_the_visible_links:
  "set (members_of (groups parse links)) \<subseteq> set (filter visible links)
   \<and> lk_key ` set (members_of (groups parse links)) = lk_key ` set (filter visible links)
   \<and> filter (\<lambda>g. gr_links g = []) (groups parse links) = []"
proof -
  obtain gs placed where gp: "group_passes links = (gs, placed)" by (cases "group_passes links")
  have ok: "lk_key ` set (filter visible links) \<subseteq> lk_key ` set (members_of gs)"
    "set (members_of gs) \<subseteq> set (filter visible links)" "list_all chain_group gs"
    using group_passes_ok [of links] unfolding gp grouping_ok_def by auto
  have sorted: "set (members_of (groups parse links)) = set (members_of gs)"
    using members_of_sorted [of "reverse_updated parse" gs] gp
    by (simp add: groups_def) (metis set_mset_mset)
  have "gr_links g \<noteq> []" if "g \<in> set gs" for g
    using ok(3) that by (cases "gr_kind g") (auto simp: list_all_iff chain_group_def)
  then have "filter (\<lambda>g. gr_links g = []) (groups parse links) = []"
    using gp by (simp add: groups_def filter_empty_conv)
  with ok sorted show ?thesis by auto
qed

text \<open>
  A pull request outside every native stack is placed once: the groups that are not native
  share no key with one another, inside a group, or with a native group. And a derived group is a
  stack: it has at least two pull requests of one repository, each based on the head branch of the
  one before it.
\<close>

theorem groups_place_once_in_chains:
  "separate (groups parse links) \<and> list_all chain_group (groups parse links)"
proof -
  obtain gs placed where gp: "group_passes links = (gs, placed)" by (cases "group_passes links")
  with group_passes_ok [of links] have ok: "separate gs" "list_all chain_group gs"
    by (simp_all add: grouping_ok_def)
  have sorted: "groups parse links = sort_key (reverse_updated parse) gs"
    by (simp add: groups_def gp)
  have part: "mset (members_of (filter P (groups parse links))) = mset (members_of (filter P gs))" for P
    unfolding sorted filter_sort by (rule members_of_sorted)
  then have keys: "mset (map lk_key (members_of (filter P (groups parse links))))
      = mset (map lk_key (members_of (filter P gs)))" for P by simp
  have "set (members_of (filter P (groups parse links))) = set (members_of (filter P gs))" for P
    using part by (metis set_mset_mset)
  with ok(1) mset_eq_imp_distinct_iff [OF keys] have "separate (groups parse links)"
    by (simp add: separate_def)
  with ok(2) show ?thesis by (simp add: sorted list_all_iff)
qed

end
