(* ===== verification/Review_Drafts.thy ===== *)
theory Review_Drafts
  imports Pull_Requests
begin

section \<open>Review drafts\<close>

text \<open>
  The drafts of pull request reviews that the host keeps (\<open>PullRequestReviewDraft\<close>,
  \<open>edit_review_draft\<close>, \<open>reanchor_review\<close> and \<open>submitted_review\<close> of
  \<^verbatim>\<open>crates/core/src/pull_request.rs\<close>). The state is the host's list of drafts; an operation
  returns the new list and whether it changed something. The ids of comments are 64-bit words and
  wrap as the release build's do. Whether the lines of a comment are unchanged at another head is
  read by the caller: it is the function \<open>moved\<close>, as in the code.
\<close>

subsection \<open>State\<close>

datatype review_side = Side_Old | Side_New

record draft_comment =
  dc_id :: u64
  dc_revision :: string
  dc_path :: string
  dc_side :: review_side
  dc_start_line :: u32
  dc_end_line :: u32
  dc_body :: string
  dc_placed :: bool

record pull_request_review_draft =
  rd_key :: pull_request_key
  rd_account :: string
  rd_head :: string
  rd_body :: string
  rd_comments :: "draft_comment list"
  rd_next_id :: u64
  rd_uncertain :: bool

datatype draft_edit =
  Add_Comment string string string review_side u32 u32 string
    \<comment> \<open>head, revision, path, side, start line, end line, body\<close>
  | Edit_Comment u64 string
  | Remove_Comment u64
  | Set_Body string
  | Move_To_Head
  | Discard

definition draft_for :: "pull_request_key \<Rightarrow> string \<Rightarrow> pull_request_review_draft \<Rightarrow> bool" where
  "draft_for key account draft = (rd_key draft = key \<and> rd_account draft = account)"

definition review_draft :: "pull_request_review_draft list \<Rightarrow> pull_request_key \<Rightarrow> string \<Rightarrow> pull_request_review_draft option" where
  "review_draft drafts key account = find (draft_for key account) drafts"

definition draft_index :: "pull_request_review_draft list \<Rightarrow> pull_request_key \<Rightarrow> string \<Rightarrow> nat option" where
  "draft_index drafts key account = position (draft_for key account) drafts"

subsection \<open>Operations\<close>

definition new_draft :: "pull_request_key \<Rightarrow> string \<Rightarrow> pull_request_review_draft" where
  "new_draft key account = \<lparr>rd_key = key, rd_account = account, rd_head = [], rd_body = [],
     rd_comments = [], rd_next_id = 1, rd_uncertain = False\<rparr>"

text \<open>The edits that start a draft.\<close>

definition starts_draft :: "draft_edit \<Rightarrow> bool" where
  "starts_draft edit = (case edit of
      Add_Comment _ _ _ _ _ _ _ \<Rightarrow> True
    | Set_Body body \<Rightarrow> body \<noteq> []
    | _ \<Rightarrow> False)"

definition add_comment :: "string \<Rightarrow> string \<Rightarrow> string \<Rightarrow> review_side \<Rightarrow> u32 \<Rightarrow> u32 \<Rightarrow> string \<Rightarrow>
    pull_request_review_draft \<Rightarrow> pull_request_review_draft \<times> bool" where
  "add_comment head revision path side start_line end_line body draft = (
     let anchored = rd_comments draft = [] \<or> rd_head draft = head
     in if \<not> anchored \<or> head = [] \<or> path = [] \<or> start_line = 0 \<or> start_line > end_line \<or> is_blank body
        then (draft, False)
        else (draft\<lparr>rd_head := head,
                rd_comments := rd_comments draft @ [\<lparr>dc_id = rd_next_id draft, dc_revision = revision,
                  dc_path = path, dc_side = side, dc_start_line = start_line, dc_end_line = end_line,
                  dc_body = body, dc_placed = True\<rparr>],
                rd_next_id := rd_next_id draft + 1\<rparr>, True))"

definition edit_comment :: "u64 \<Rightarrow> string \<Rightarrow> pull_request_review_draft \<Rightarrow> pull_request_review_draft \<times> bool" where
  "edit_comment n body draft =
     (case position (\<lambda>comment. dc_id comment = n) (rd_comments draft) of
        Some i \<Rightarrow>
          if \<not> is_blank body \<and> dc_body (rd_comments draft ! i) \<noteq> body
          then (draft\<lparr>rd_comments := (rd_comments draft)[i := (rd_comments draft ! i)\<lparr>dc_body := body\<rparr>]\<rparr>, True)
          else (draft, False)
      | None \<Rightarrow> (draft, False))"

definition remove_comment :: "u64 \<Rightarrow> pull_request_review_draft \<Rightarrow> pull_request_review_draft \<times> bool" where
  "remove_comment n draft = (
     let kept = filter (\<lambda>comment. dc_id comment \<noteq> n) (rd_comments draft)
     in (draft\<lparr>rd_comments := kept\<rparr>, length kept \<noteq> length (rd_comments draft)))"

text \<open>An emptied draft is removed.\<close>

definition remove_at :: "nat \<Rightarrow> 'a list \<Rightarrow> 'a list" where
  "remove_at i xs = take i xs @ drop (Suc i) xs"

definition drop_if_empty :: "nat \<Rightarrow> pull_request_review_draft list \<Rightarrow> pull_request_review_draft list" where
  "drop_if_empty i drafts =
     (if rd_body (drafts ! i) = [] \<and> rd_comments (drafts ! i) = [] then remove_at i drafts else drafts)"

definition edit_review_draft :: "pull_request_key \<Rightarrow> string \<Rightarrow> draft_edit \<Rightarrow> pull_request_review_draft list \<Rightarrow>
    pull_request_review_draft list \<times> bool" where
  "edit_review_draft key account edit drafts = (
     let place = (case draft_index drafts key account of
           Some i \<Rightarrow> Some (drafts, i)
         | None \<Rightarrow> if starts_draft edit then Some (drafts @ [new_draft key account], length drafts)
                   else None)
     in case place of
          None \<Rightarrow> (drafts, False)
        | Some (ds, i) \<Rightarrow>
            let apply = (\<lambda>r. (drop_if_empty i (ds[i := fst r]), snd r))
            in (case edit of
                  Add_Comment head revision path side start_line end_line body \<Rightarrow>
                    apply (add_comment head revision path side start_line end_line body (ds ! i))
                | Edit_Comment n body \<Rightarrow> apply (edit_comment n body (ds ! i))
                | Remove_Comment n \<Rightarrow> apply (remove_comment n (ds ! i))
                | Set_Body body \<Rightarrow> apply ((ds ! i)\<lparr>rd_body := body\<rparr>, body \<noteq> rd_body (ds ! i))
                | Move_To_Head \<Rightarrow> apply (ds ! i, False)
                | Discard \<Rightarrow> (remove_at i ds, True)))"

definition reanchor_comment :: "(draft_comment \<Rightarrow> string option) \<Rightarrow> draft_comment \<Rightarrow> draft_comment" where
  "reanchor_comment moved comment = (case moved comment of
      Some revision \<Rightarrow> if dc_placed comment then comment\<lparr>dc_revision := revision\<rparr>
                      else comment\<lparr>dc_placed := False\<rparr>
    | None \<Rightarrow> comment\<lparr>dc_placed := False\<rparr>)"

definition reanchor_review :: "pull_request_key \<Rightarrow> string \<Rightarrow> string \<Rightarrow> (draft_comment \<Rightarrow> string option) \<Rightarrow>
    pull_request_review_draft list \<Rightarrow> pull_request_review_draft list \<times> bool" where
  "reanchor_review key account head moved drafts = (case draft_index drafts key account of
      None \<Rightarrow> (drafts, False)
    | Some i \<Rightarrow>
        let draft = drafts ! i
        in if rd_head draft = head then (drafts, False)
           else (drafts[i := draft\<lparr>rd_head := head,
                   rd_comments := map (reanchor_comment moved) (rd_comments draft)\<rparr>], True))"

definition submitted_review :: "pull_request_key \<Rightarrow> string \<Rightarrow> (u64 list \<times> string) option \<Rightarrow>
    pull_request_review_draft list \<Rightarrow> pull_request_review_draft list \<times> bool" where
  "submitted_review key account sent drafts = (case draft_index drafts key account of
      None \<Rightarrow> (drafts, False)
    | Some i \<Rightarrow>
        let draft = drafts ! i
        in (case sent of
              None \<Rightarrow> (drafts[i := draft\<lparr>rd_uncertain := True\<rparr>], True)
            | Some (comments, body) \<Rightarrow>
                let draft' = draft\<lparr>
                      rd_comments := filter (\<lambda>comment. dc_id comment \<notin> set comments) (rd_comments draft),
                      rd_body := (if rd_body draft = body then [] else rd_body draft),
                      rd_uncertain := False\<rparr>
                in (drop_if_empty i (drafts[i := draft']), True)))"

subsection \<open>Well-formed drafts\<close>

definition draft_id :: "pull_request_review_draft \<Rightarrow> pull_request_key \<times> string" where
  "draft_id draft = (rd_key draft, rd_account draft)"

definition comments_ok :: "nat \<Rightarrow> pull_request_review_draft \<Rightarrow> bool" where
  "comments_ok n draft = (distinct (map dc_id (rd_comments draft))
     \<and> (\<forall>comment\<in>set (rd_comments draft). dc_id comment < rd_next_id draft)
     \<and> unat (rd_next_id draft) \<le> Suc n)"

definition has_work :: "pull_request_review_draft \<Rightarrow> bool" where
  "has_work draft = (rd_body draft \<noteq> [] \<or> rd_comments draft \<noteq> [])"

definition drafts_ok :: "nat \<Rightarrow> pull_request_review_draft list \<Rightarrow> bool" where
  "drafts_ok n drafts = (distinct (map draft_id drafts)
     \<and> (\<forall>draft\<in>set drafts. has_work draft \<and> comments_ok n draft))"

text \<open>What the host does to its drafts.\<close>

datatype draft_op =
  Op_Edit pull_request_key string draft_edit
  | Op_Reanchor pull_request_key string string "draft_comment \<Rightarrow> string option"
  | Op_Submitted pull_request_key string "(u64 list \<times> string) option"

fun draft_step :: "draft_op \<Rightarrow> pull_request_review_draft list \<Rightarrow> pull_request_review_draft list \<times> bool" where
  "draft_step (Op_Edit key account edit) drafts = edit_review_draft key account edit drafts"
| "draft_step (Op_Reanchor key account head moved) drafts = reanchor_review key account head moved drafts"
| "draft_step (Op_Submitted key account sent) drafts = submitted_review key account sent drafts"

definition draft_history :: "draft_op list \<Rightarrow> pull_request_review_draft list" where
  "draft_history ops = fold (\<lambda>op drafts. fst (draft_step op drafts)) ops []"

lemma draft_for_id: "draft_for key account draft \<longleftrightarrow> draft_id draft = (key, account)"
  by (simp add: draft_for_def draft_id_def)

lemma remove_at_ok: "drafts_ok n ds \<Longrightarrow> drafts_ok n (remove_at i ds)"
proof -
  assume ok: "drafts_ok n ds"
  have "distinct (map draft_id (take i ds @ drop (Suc i) ds))"
    using ok set_take_disj_set_drop_if_distinct [of "map draft_id ds" i "Suc i"]
    by (simp add: drafts_ok_def take_map [symmetric] drop_map [symmetric] image_set)
  moreover have "set (take i ds @ drop (Suc i) ds) \<subseteq> set ds"
    by (auto dest: in_set_takeD in_set_dropD)
  ultimately show ?thesis using ok by (auto simp: drafts_ok_def remove_at_def)
qed

lemma drafts_ok_mono: "drafts_ok m ds \<Longrightarrow> m \<le> n \<Longrightarrow> drafts_ok n ds"
  by (fastforce simp: drafts_ok_def comments_ok_def)

text \<open>Replacing a draft by another version of it keeps the drafts well formed.\<close>

lemma replace_draft_ok:
  assumes "drafts_ok n ds" and "i < length ds" and "draft_id d = draft_id (ds ! i)"
    and "comments_ok n d" and "has_work d"
  shows "drafts_ok n (ds[i := d])"
proof -
  have "map draft_id (ds[i := d]) = map draft_id ds"
    using assms(2,3) by (metis list_update_id map_update nth_map)
  moreover have "set (ds[i := d]) \<subseteq> insert d (set ds)" by (rule set_update_subset_insert)
  ultimately show ?thesis using assms by (auto simp: drafts_ok_def)
qed

lemma replace_or_drop_ok:
  assumes "drafts_ok n ds" and "i < length ds" and "draft_id d = draft_id (ds ! i)" and "comments_ok n d"
  shows "drafts_ok n (drop_if_empty i (ds[i := d]))"
proof (cases "has_work d")
  case True
  with assms show ?thesis by (auto simp: drop_if_empty_def has_work_def intro: replace_draft_ok)
next
  case False
  have "remove_at i (ds[i := d]) = remove_at i ds"
    by (simp add: remove_at_def)
  with False assms show ?thesis by (auto simp: drop_if_empty_def has_work_def intro: remove_at_ok)
qed

lemma draft_index_Some: "draft_index ds key account = Some i \<Longrightarrow> i < length ds"
  unfolding draft_index_def by (rule position_less)

lemma add_comment_ok:
  assumes "comments_ok n draft" and "Suc n < 2 ^ 64 - 1"
  shows "comments_ok (Suc n) (fst (add_comment head revision path side s e body draft))
     \<and> draft_id (fst (add_comment head revision path side s e body draft)) = draft_id draft"
proof -
  have small: "unat (rd_next_id draft) < 2 ^ 64 - 1" using assms by (simp add: comments_ok_def)
  then have next_id: "unat (rd_next_id draft + 1) = Suc (unat (rd_next_id draft))"
    by (simp add: unat_word_ariths)
  then have less: "x < rd_next_id draft + 1" if "x \<le> rd_next_id draft" for x
    using that by (simp add: word_less_nat_alt word_le_nat_alt)
  show ?thesis
    using assms next_id
    by (auto simp: add_comment_def comments_ok_def draft_id_def Let_def intro!: less)
qed

lemma edit_comment_ok:
  "comments_ok n draft \<Longrightarrow> comments_ok n (fst (edit_comment k body draft))
     \<and> draft_id (fst (edit_comment k body draft)) = draft_id draft"
proof -
  assume ok: "comments_ok n draft"
  have "map dc_id ((rd_comments draft)[i := (rd_comments draft ! i)\<lparr>dc_body := body\<rparr>])
      = map dc_id (rd_comments draft)" if "i < length (rd_comments draft)" for i
    using that by (metis (no_types, lifting) draft_comment.select_convs(1) draft_comment.surjective
        draft_comment.update_convs(7) list_update_id map_update nth_map)
  then show ?thesis
    using ok
    by (auto simp: edit_comment_def comments_ok_def draft_id_def split: option.splits dest!: position_less
        dest: set_update_subset_insert [THEN subsetD])
qed

lemma remove_comment_ok:
  "comments_ok n draft \<Longrightarrow> comments_ok n (fst (remove_comment k draft))
     \<and> draft_id (fst (remove_comment k draft)) = draft_id draft"
  by (auto simp: remove_comment_def comments_ok_def draft_id_def Let_def distinct_map_filter)

lemma fresh_draft_ok:
  assumes "drafts_ok n ds" and "draft_index ds key account = None"
    and "draft_id d = (key, account)" and "comments_ok n d"
  shows "drafts_ok n (drop_if_empty (length ds) ((ds @ [new_draft key account])[length ds := d]))"
proof (cases "has_work d")
  case True
  have "(key, account) \<notin> draft_id ` set ds"
    using assms(2) by (auto simp: draft_index_def position_None_iff draft_for_id)
  with assms True show ?thesis
    by (auto simp: drop_if_empty_def drafts_ok_def has_work_def nth_append)
next
  case False
  with assms show ?thesis
    by (auto simp: drop_if_empty_def has_work_def remove_at_def nth_append)
qed

lemma new_draft_ok: "comments_ok n (new_draft key account)" "draft_id (new_draft key account) = (key, account)"
  by (simp_all add: comments_ok_def new_draft_def draft_id_def)

text \<open>What an edit other than a discard does to the draft it finds.\<close>

definition edited :: "draft_edit \<Rightarrow> pull_request_review_draft \<Rightarrow> pull_request_review_draft \<times> bool" where
  "edited edit draft = (case edit of
      Add_Comment head revision path side start_line end_line body \<Rightarrow>
        add_comment head revision path side start_line end_line body draft
    | Edit_Comment n body \<Rightarrow> edit_comment n body draft
    | Remove_Comment n \<Rightarrow> remove_comment n draft
    | Set_Body body \<Rightarrow> (draft\<lparr>rd_body := body\<rparr>, body \<noteq> rd_body draft)
    | Move_To_Head \<Rightarrow> (draft, False)
    | Discard \<Rightarrow> (draft, True))"

lemma edit_review_draft_cases:
  "edit_review_draft key account edit drafts = (case draft_index drafts key account of
      Some i \<Rightarrow> if edit = Discard then (remove_at i drafts, True)
        else (drop_if_empty i (drafts[i := fst (edited edit (drafts ! i))]), snd (edited edit (drafts ! i)))
    | None \<Rightarrow> if starts_draft edit then
          (drop_if_empty (length drafts)
             ((drafts @ [new_draft key account])[length drafts := fst (edited edit (new_draft key account))]),
           snd (edited edit (new_draft key account)))
        else (drafts, False))"
  by (cases edit)
    (auto simp: edit_review_draft_def edited_def starts_draft_def Let_def split: option.split)

lemma edited_ok:
  assumes "comments_ok n draft" and "Suc n < 2 ^ 64 - 1"
  shows "comments_ok (Suc n) (fst (edited edit draft)) \<and> draft_id (fst (edited edit draft)) = draft_id draft"
proof -
  have "comments_ok (Suc n) draft" using assms(1) by (auto simp: comments_ok_def)
  then show ?thesis
    using assms add_comment_ok edit_comment_ok [of "Suc n" draft] remove_comment_ok [of "Suc n" draft]
    by (cases edit) (simp_all add: edited_def comments_ok_def draft_id_def)
qed

lemma draft_index_id:
  "draft_index ds key account = Some i \<Longrightarrow> i < length ds \<and> draft_id (ds ! i) = (key, account)"
  by (simp add: draft_index_def position_Some_iff draft_for_id)

lemma edit_review_draft_ok:
  assumes ok: "drafts_ok n ds" and n: "Suc n < 2 ^ 64 - 1"
  shows "drafts_ok (Suc n) (fst (edit_review_draft key account edit ds))"
proof -
  have ok': "drafts_ok (Suc n) ds" using ok by (rule drafts_ok_mono) simp
  show ?thesis
  proof (cases "draft_index ds key account")
    case None
    show ?thesis
      using fresh_draft_ok [OF ok' None] edited_ok [OF new_draft_ok(1) n] new_draft_ok(2) None ok'
      by (simp add: edit_review_draft_cases)
  next
    case (Some i)
    then have i: "i < length ds" by (rule draft_index_Some)
    then have "comments_ok n (ds ! i)" using ok by (simp add: drafts_ok_def)
    from edited_ok [OF this n] show ?thesis
      using Some i ok' by (simp add: edit_review_draft_cases remove_at_ok replace_or_drop_ok)
  qed
qed

lemma reanchor_ids: "dc_id (reanchor_comment moved c) = dc_id c" "dc_id \<circ> reanchor_comment moved = dc_id"
  by (simp_all add: reanchor_comment_def fun_eq_iff split: option.split)

lemma reanchor_review_ok:
  assumes ok: "drafts_ok n ds"
  shows "drafts_ok n (fst (reanchor_review key account head moved ds))"
proof (cases "draft_index ds key account")
  case None
  with ok show ?thesis by (simp add: reanchor_review_def)
next
  case (Some i)
  then have i: "i < length ds" by (rule draft_index_Some)
  let ?d = "(ds ! i)\<lparr>rd_head := head,
                   rd_comments := map (reanchor_comment moved) (rd_comments (ds ! i))\<rparr>"
  have "map dc_id (rd_comments ?d) = map dc_id (rd_comments (ds ! i))"
    by (simp add: reanchor_ids)
  moreover have "has_work (ds ! i)" "comments_ok n (ds ! i)"
    using ok i by (simp_all add: drafts_ok_def)
  ultimately have "drafts_ok n (ds[i := ?d])"
    using ok i
    by (intro replace_draft_ok) (auto simp: comments_ok_def has_work_def draft_id_def reanchor_ids)
  with Some ok show ?thesis by (simp add: reanchor_review_def Let_def)
qed

lemma submitted_review_ok:
  assumes ok: "drafts_ok n ds"
  shows "drafts_ok n (fst (submitted_review key account sent ds))"
proof (cases "draft_index ds key account")
  case None
  with ok show ?thesis by (simp add: submitted_review_def)
next
  case (Some i)
  then have i: "i < length ds" by (rule draft_index_Some)
  have d: "has_work (ds ! i)" "comments_ok n (ds ! i)"
    using ok i by (simp_all add: drafts_ok_def)
  show ?thesis
  proof (cases sent)
    case None
    have "drafts_ok n (ds[i := (ds ! i)\<lparr>rd_uncertain := True\<rparr>])"
      using ok i d by (intro replace_draft_ok) (auto simp: comments_ok_def has_work_def draft_id_def)
    with None Some show ?thesis by (simp add: submitted_review_def Let_def)
  next
    case (Some p)
    obtain comments body where p: "p = (comments, body)" by (cases p)
    have "drafts_ok n (drop_if_empty i (ds[i := (ds ! i)\<lparr>
        rd_comments := filter (\<lambda>comment. dc_id comment \<notin> set comments) (rd_comments (ds ! i)),
        rd_body := (if rd_body (ds ! i) = body then [] else rd_body (ds ! i)), rd_uncertain := False\<rparr>]))"
      using ok i d
      by (intro replace_or_drop_ok) (auto simp: comments_ok_def draft_id_def distinct_map_filter)
    with Some \<open>draft_index ds key account = Some i\<close> p show ?thesis
      by (simp add: submitted_review_def Let_def)
  qed
qed

lemma draft_step_ok:
  assumes "drafts_ok n ds" and "Suc n < 2 ^ 64 - 1"
  shows "drafts_ok (Suc n) (fst (draft_step op ds))"
  using assms edit_review_draft_ok reanchor_review_ok submitted_review_ok
  by (cases op) (auto intro: drafts_ok_mono [of n _ "Suc n"])

lemma draft_run_ok:
  assumes "drafts_ok n ds" and "n + length ops < 2 ^ 64 - 1"
  shows "drafts_ok (n + length ops) (fold (\<lambda>op drafts. fst (draft_step op drafts)) ops ds)"
  using assms
proof (induction ops arbitrary: n ds)
  case Nil
  then show ?case by simp
next
  case (Cons op ops)
  then have "drafts_ok (Suc n) (fst (draft_step op ds))" by (intro draft_step_ok) simp_all
  with Cons.IH [of "Suc n" "fst (draft_step op ds)"] Cons.prems(2) show ?case by simp
qed

lemma draft_history_ok:
  "length ops < 2 ^ 64 - 1 \<Longrightarrow> drafts_ok (length ops) (draft_history ops)"
  using draft_run_ok [of 0 "[]" ops] by (simp add: draft_history_def drafts_ok_def)

text \<open>
  C36: As long as the host has done fewer than \<open>2 ^ 64 - 1\<close> things to its drafts, an account has at
  most one draft per pull request, no draft is empty, and the comments of a draft have ids of their
  own, all below the next id: an edit by id reaches one comment.
\<close>

theorem drafts_stay_well_formed:
  assumes "length ops < 2 ^ 64 - 1"
  shows "distinct (map draft_id (draft_history ops))
     \<and> list_all (\<lambda>draft. has_work draft \<and> distinct (map dc_id (rd_comments draft))
          \<and> list_all (\<lambda>comment. dc_id comment < rd_next_id draft) (rd_comments draft)) (draft_history ops)"
  using draft_history_ok [OF assms] by (simp add: drafts_ok_def comments_ok_def list_all_iff)

lemma find_comment_split:
  "find P xs = Some x \<Longrightarrow> \<exists>pre post. xs = pre @ x # post \<and> (\<forall>y\<in>set pre. \<not> P y) \<and> P x"
proof (induction xs)
  case (Cons y ys)
  show ?case
  proof (cases "P y")
    case True
    with Cons.prems show ?thesis by (intro exI [of _ "[]"] exI [of _ ys]) simp
  next
    case False
    with Cons obtain pre post where "ys = pre @ x # post" "\<forall>z\<in>set pre. \<not> P z" "P x" by auto
    with False show ?thesis by (intro exI [of _ "y # pre"] exI [of _ post]) simp
  qed
qed simp

lemma remove_at_shorter: "i < length xs \<Longrightarrow> length (remove_at i xs) < length xs"
  by (simp add: remove_at_def)

lemma edited_changed:
  assumes "edit \<noteq> Discard"
  shows "snd (edited edit draft) \<longleftrightarrow> fst (edited edit draft) \<noteq> draft"
proof (cases edit)
  case (Add_Comment head revision path side start_line end_line body)
  show ?thesis by (cases draft) (auto simp: Add_Comment edited_def add_comment_def Let_def)
next
  case (Edit_Comment n body)
  have "(rd_comments draft)[i := (rd_comments draft ! i)\<lparr>dc_body := body\<rparr>] \<noteq> rd_comments draft"
    if "i < length (rd_comments draft)" "dc_body (rd_comments draft ! i) \<noteq> body" for i
  proof
    assume eq: "(rd_comments draft)[i := (rd_comments draft ! i)\<lparr>dc_body := body\<rparr>] = rd_comments draft"
    then have "(rd_comments draft)[i := (rd_comments draft ! i)\<lparr>dc_body := body\<rparr>] ! i = rd_comments draft ! i"
      by simp
    then have "dc_body ((rd_comments draft ! i)\<lparr>dc_body := body\<rparr>) = dc_body (rd_comments draft ! i)"
      using that(1) by (metis nth_list_update_eq)
    with that(2) show False by simp
  qed
  then show ?thesis
    by (cases draft) (auto simp: Edit_Comment edited_def edit_comment_def split: option.splits dest!: position_less)
next
  case (Remove_Comment n)
  have "length (filter P xs) = length xs \<longleftrightarrow> filter P xs = xs" for P and xs :: "draft_comment list"
    by (metis filter_True length_filter_less nat_neq_iff)
  then show ?thesis by (cases draft) (auto simp: Remove_Comment edited_def remove_comment_def Let_def)
next
  case (Set_Body body)
  then show ?thesis by (cases draft) (auto simp: edited_def)
qed (use assms in \<open>simp_all add: edited_def\<close>)

text \<open>
  \<open>edit_review_draft\<close> answers whether it changed something, and the answer is exact: on a list
  whose drafts have work, as every reachable list has, it is true exactly when the drafts differ
  afterwards. In particular a malformed or refused edit leaves no empty draft behind.
\<close>

theorem edit_reports_its_change:
  assumes work: "list_all has_work drafts"
  shows "snd (edit_review_draft key account edit drafts)
     \<longleftrightarrow> fst (edit_review_draft key account edit drafts) \<noteq> drafts"
proof (cases "draft_index drafts key account")
  case None
  show ?thesis
  proof (cases "starts_draft edit")
    case False
    with None show ?thesis by (simp add: edit_review_draft_cases)
  next
    case True
    let ?d = "edited edit (new_draft key account)"
    have d: "snd ?d \<longleftrightarrow> has_work (fst ?d)"
      using True by (cases edit)
        (auto simp: edited_def starts_draft_def add_comment_def new_draft_def has_work_def Let_def)
    have "drop_if_empty (length drafts) ((drafts @ [new_draft key account])[length drafts := fst ?d])
        = (if has_work (fst ?d) then drafts @ [fst ?d] else drafts)"
      by (simp add: drop_if_empty_def has_work_def remove_at_def nth_append)
    with None True d show ?thesis by (simp add: edit_review_draft_cases)
  qed
next
  case (Some i)
  then have i: "i < length drafts" by (rule draft_index_Some)
  show ?thesis
  proof (cases "edit = Discard")
    case True
    have "remove_at i drafts \<noteq> drafts" using remove_at_shorter [OF i] by auto
    with True Some show ?thesis by (simp add: edit_review_draft_cases)
  next
    case False
    let ?d = "edited edit (drafts ! i)"
    note d = edited_changed [OF False, of "drafts ! i"]
    have same: "drafts[i := fst ?d] = drafts \<longleftrightarrow> fst ?d = drafts ! i"
      using i by (metis list_update_id nth_list_update_eq)
    have work_i: "has_work (drafts ! i)" using work i by (simp add: list_all_length)
    have "drop_if_empty i (drafts[i := fst ?d]) = drafts \<longleftrightarrow> fst ?d = drafts ! i"
    proof (cases "has_work (fst ?d)")
      case True
      with same i show ?thesis by (auto simp: drop_if_empty_def has_work_def)
    next
      case empty: False
      then have "drop_if_empty i (drafts[i := fst ?d]) = remove_at i (drafts[i := fst ?d])"
        using i by (simp add: drop_if_empty_def has_work_def)
      moreover have "length (remove_at i (drafts[i := fst ?d])) < length drafts"
        using remove_at_shorter [of i "drafts[i := fst ?d]"] i by simp
      ultimately show ?thesis using empty work_i by auto
    qed
    with False Some d show ?thesis by (simp add: edit_review_draft_cases)
  qed
qed

text \<open>
  A submission takes no work that was not sent. After the host took a review, the account's draft
  has exactly the comments whose ids were not sent, keeps a body revised in the meantime and is no
  longer marked uncertain; it is gone only when nothing of it remains. No other draft changes.
\<close>

theorem submission_keeps_unsent_work:
  assumes "distinct (map draft_id drafts)" and "review_draft drafts key account = Some draft"
  shows "\<exists>comments' body'. comments' = filter (\<lambda>comment. dc_id comment \<notin> set sent) (rd_comments draft)
    \<and> body' = (if rd_body draft = body then [] else rd_body draft)
    \<and> review_draft (fst (submitted_review key account (Some (sent, body)) drafts)) key account
       = (if comments' = [] \<and> body' = [] then None
          else Some (draft\<lparr>rd_comments := comments', rd_body := body', rd_uncertain := False\<rparr>))
    \<and> filter (Not \<circ> draft_for key account) (fst (submitted_review key account (Some (sent, body)) drafts))
       = filter (Not \<circ> draft_for key account) drafts"
proof -
  from assms(2) obtain pre post where drafts: "drafts = pre @ draft # post"
    and pre: "\<forall>d\<in>set pre. \<not> draft_for key account d" and d: "draft_for key account draft"
    unfolding review_draft_def by (blast dest: find_comment_split)
  have post: "\<forall>d\<in>set post. \<not> draft_for key account d"
    using assms(1) d by (auto simp: drafts draft_for_id rev_image_eqI)
  let ?d = "draft\<lparr>rd_comments := filter (\<lambda>comment. dc_id comment \<notin> set sent) (rd_comments draft),
      rd_body := (if rd_body draft = body then [] else rd_body draft), rd_uncertain := False\<rparr>"
  have at: "draft_index drafts key account = Some (length pre)"
    using pre d by (simp add: draft_index_def drafts position_Some_iff nth_append)
  have upd: "drafts[length pre := x] = pre @ x # post" "drafts ! length pre = draft" for x
    by (simp_all add: drafts)
  have "fst (submitted_review key account (Some (sent, body)) drafts)
      = (if rd_comments ?d = [] \<and> rd_body ?d = [] then pre @ post else pre @ ?d # post)"
    by (simp add: submitted_review_def at upd Let_def drop_if_empty_def remove_at_def)
  moreover have "draft_for key account ?d" using d by (simp add: draft_for_def)
  moreover have find_pre: "find (draft_for key account) (pre @ xs) = find (draft_for key account) xs" for xs
    using pre by (induction pre) auto
  moreover have "find (draft_for key account) post = None"
    using post by (simp add: find_None_iff)
  ultimately show ?thesis
    using d by (auto simp: review_draft_def drafts)
qed

subsection \<open>Examples\<close>

definition example_drafts :: "draft_op list" where
  "example_drafts =
     [Op_Edit example_key ''ann'' (Add_Comment ''h1'' ''r1'' ''a.rs'' Side_New 3 4 ''why''),
      Op_Edit example_key ''ann'' (Add_Comment ''h1'' ''r1'' ''b.rs'' Side_New 9 9 ''how''),
      Op_Edit example_key ''bob'' (Set_Body ''fine''),
      Op_Edit example_key ''ann'' (Remove_Comment 1)]"

text \<open>After the four edits: Ann's draft with its second comment, and Bob's.\<close>

definition example_comment :: draft_comment where
  "example_comment = \<lparr>dc_id = 2, dc_revision = ''r1'', dc_path = ''b.rs'', dc_side = Side_New,
     dc_start_line = 9, dc_end_line = 9, dc_body = ''how'', dc_placed = True\<rparr>"

definition example_ann :: pull_request_review_draft where
  "example_ann = \<lparr>rd_key = example_key, rd_account = ''ann'', rd_head = ''h1'', rd_body = [],
     rd_comments = [example_comment], rd_next_id = 3, rd_uncertain = False\<rparr>"

definition example_bob :: pull_request_review_draft where
  "example_bob = (new_draft example_key ''bob'')\<lparr>rd_body := ''fine''\<rparr>"

lemma not_blank: "is_blank ''why'' = False" "is_blank ''how'' = False"
  by (simp_all add: is_blank_def blank_len_def trim_start.simps)

lemma example_draft_history: "draft_history example_drafts = [example_ann, example_bob]"
  by (simp add: draft_history_def example_drafts_def edit_review_draft_cases draft_index_def
      starts_draft_def edited_def add_comment_def remove_comment_def new_draft_def not_blank
      drop_if_empty_def draft_for_def example_ann_def example_bob_def example_comment_def)

theorem drafts_stay_well_formed_witness:
  "length example_drafts = 4 \<and> length (draft_history example_drafts) = 2
   \<and> distinct (map draft_id (draft_history example_drafts))
   \<and> list_all (\<lambda>draft. has_work draft \<and> distinct (map dc_id (rd_comments draft))
          \<and> list_all (\<lambda>comment. dc_id comment < rd_next_id draft) (rd_comments draft))
        (draft_history example_drafts)"
proof -
  have "length example_drafts = 4" by (simp add: example_drafts_def)
  then have "length example_drafts < 2 ^ 64 - 1" by simp
  from drafts_stay_well_formed [OF this] show ?thesis
    by (simp add: example_draft_history \<open>length example_drafts = 4\<close>)
qed

theorem edit_reports_its_change_witness:
  "snd (edit_review_draft example_key ''ann'' (Remove_Comment 2) [example_ann, example_bob])
   \<and> fst (edit_review_draft example_key ''ann'' (Remove_Comment 2) [example_ann, example_bob])
       \<noteq> [example_ann, example_bob]"
proof -
  have "list_all has_work [example_ann, example_bob]"
    by (simp add: has_work_def example_ann_def example_bob_def)
  from edit_reports_its_change [OF this, of example_key "''ann''" "Remove_Comment 2"] show ?thesis
    by (simp add: edit_review_draft_cases draft_index_def draft_for_def edited_def remove_comment_def
        example_ann_def example_comment_def)
qed

theorem submission_keeps_unsent_work_witness:
  "review_draft (fst (submitted_review example_key ''ann'' (Some ([2], [])) [example_ann, example_bob]))
      example_key ''ann'' = None"
proof -
  have "distinct (map draft_id [example_ann, example_bob])"
    "review_draft [example_ann, example_bob] example_key ''ann'' = Some example_ann"
    by (simp_all add: draft_id_def review_draft_def draft_for_def example_ann_def example_bob_def
        new_draft_def)
  from submission_keeps_unsent_work [OF this, of "[2]" "[]"] show ?thesis
    by (auto simp: example_ann_def example_comment_def)
qed

end
