(* ===== verification/PR_Watch.thy ===== *)
theory PR_Watch
  imports Pull_Requests
begin

section \<open>Watching a pull request\<close>

text \<open>
  \<^verbatim>\<open>crates/core/src/pull_request_watch.rs\<close> up to \<open>evaluate\<close>: what a fresh read of a pull request adds
  to what a watch has already told its agent. Two functions of other crates are parameters:
  \<open>millis\<close>, which reads an RFC 3339 time as milliseconds since the epoch (\<open>chrono\<close>), and \<open>lower\<close>,
  the Unicode lower case of a login (\<open>str::to_lowercase\<close>). Indexing the remarks at the latest time
  is a panic when there are none, so \<open>evaluate\<close> returns an option. The count of wakes is 32 bits
  wide and wraps as the release build's does.
\<close>

subsection \<open>Reads and reports\<close>

definition WAKE_LIMIT :: u32 where
  "WAKE_LIMIT = 10"

definition new_watch :: "(u64 \<Rightarrow> string) \<Rightarrow> u64 \<Rightarrow> pull_request_watch" where
  "new_watch stamp now_ms = \<lparr>w_started_at = stamp now_ms, w_head_sha = None, w_failed_checks = [],
     w_passed = False, w_passed_checks = [], w_remarks_through = stamp now_ms, w_remark_ids = [],
     w_conflicting = False, w_wakes = 0, w_pending_wake = None\<rparr>"

definition watch_active :: "pull_request_watch \<Rightarrow> bool" where
  "watch_active watch = (case w_pending_wake watch of None \<Rightarrow> True | Some wake \<Rightarrow> \<not> pw_last wake)"

datatype check_status =
  Check_Pending | Check_Action_Required | Check_Success | Check_Failure | Check_Skipped
  | Check_Neutral | Check_Cancelled

definition check_failed :: "check_status \<Rightarrow> bool" where
  "check_failed status = (status \<in> {Check_Failure, Check_Cancelled, Check_Action_Required})"

record pull_request_check =
  ck_name :: string
  ck_status :: check_status
  ck_url :: "string option"
  ck_required :: "bool option"

record pull_request_remark =
  rm_id :: string
  rm_author :: "string option"
  rm_body :: string
  rm_created_at :: string
  rm_edited_at :: "string option"
  rm_url :: "string option"
  rm_path :: "string option"
  rm_review_state :: "string option"

definition active_at :: "pull_request_remark \<Rightarrow> string" where
  "active_at remark = (case rm_edited_at remark of Some at \<Rightarrow> at | None \<Rightarrow> rm_created_at remark)"

record watch_read =
  wr_state :: pull_request_state
  wr_head_sha :: "string option"
  wr_base_branch :: string
  wr_checks :: "pull_request_check list"
  wr_mergeability :: mergeability
  wr_viewer :: "string option"
  wr_author :: "string option"

datatype watch_change =
  Change_Checks_Failed "pull_request_check list"
  | Change_Checks_Passed nat bool \<comment> \<open>count, required\<close>
  | Change_Remarks "pull_request_remark list"
  | Change_Conflicting

datatype watch_change_kind = Kind_Checks_Failed | Kind_Checks_Passed | Kind_New_Comments | Kind_Merge_Conflict

definition change_kind :: "watch_change \<Rightarrow> watch_change_kind" where
  "change_kind change = (case change of
      Change_Checks_Failed _ \<Rightarrow> Kind_Checks_Failed
    | Change_Checks_Passed _ _ \<Rightarrow> Kind_Checks_Passed
    | Change_Remarks _ \<Rightarrow> Kind_New_Comments
    | Change_Conflicting \<Rightarrow> Kind_Merge_Conflict)"

record watch_report =
  rep_changes :: "watch_change list"
  rep_next :: pull_request_watch
  rep_exhausted :: bool

subsection \<open>Checks\<close>

definition gate :: "pull_request_check list \<Rightarrow> pull_request_check list \<times> bool" where
  "gate checks = (
     let required = filter (\<lambda>check. ck_required check = Some True) checks
     in if required = [] then (checks, False) else (required, True))"

definition gate_passed :: "pull_request_check list \<Rightarrow> bool" where
  "gate_passed g = list_all (\<lambda>check. ck_status check \<noteq> Check_Pending \<and> \<not> check_failed (ck_status check)) g"

definition checks_pass :: "pull_request_check list \<Rightarrow> bool" where
  "checks_pass checks = (checks \<noteq> [] \<and> gate_passed (fst (gate checks)))"

text \<open>The part of \<open>evaluate\<close> on a non-empty list of checks: changes, and the next three fields.\<close>

definition evaluate_checks :: "pull_request_check list \<Rightarrow> string list \<times> bool \<times> string list \<Rightarrow>
    watch_change list \<times> string list \<times> bool \<times> string list" where
  "evaluate_checks checks told = (case told of (failed_checks, passed, passed_checks) \<Rightarrow>
     if checks = [] then ([], failed_checks, passed, passed_checks)
     else
       let failed = filter (\<lambda>check. check_failed (ck_status check)) checks;
           newly_failed = filter (\<lambda>check. ck_name check \<notin> set failed_checks) failed;
           (g, required) = gate checks;
           passed_now = gate_passed g;
           gate_names = map ck_name g;
           told = (if passed \<and> passed_checks = [] then gate_names else passed_checks);
           gate_grew = required \<and> list_ex (\<lambda>name. name \<notin> set told) gate_names
       in ((if newly_failed \<noteq> [] then [Change_Checks_Failed newly_failed] else [])
           @ (if passed_now \<and> (\<not> passed \<or> gate_grew) then [Change_Checks_Passed (length g) required] else []),
           map ck_name failed, passed_now, (if passed_now then gate_names else [])))"

subsection \<open>Remarks\<close>

definition is_fresh :: "(string \<Rightarrow> int option) \<Rightarrow> (string \<Rightarrow> string) \<Rightarrow> pull_request_watch \<Rightarrow> string option \<Rightarrow>
    pull_request_remark \<Rightarrow> bool" where
  "is_fresh millis lower watch own remark =
     (case (millis (active_at remark), millis (w_remarks_through watch)) of
        (Some at, Some through) \<Rightarrow>
          (at > through \<or> at = through \<and> rm_id remark \<notin> set (w_remark_ids watch))
          \<and> map_option lower (rm_author remark) \<noteq> own
      | _ \<Rightarrow> False)"

definition latest_time :: "int list \<Rightarrow> int option \<Rightarrow> int option" where
  "latest_time stamps through = (case stamps @ (case through of Some t \<Rightarrow> [t] | None \<Rightarrow> []) of
      [] \<Rightarrow> None
    | t # ts \<Rightarrow> Some (foldl max t ts))"

text \<open>The next watermark, from the fresh remarks.\<close>

definition next_watermark :: "(string \<Rightarrow> int option) \<Rightarrow> pull_request_watch \<Rightarrow> pull_request_remark list \<Rightarrow>
    (string \<times> string list) option" where
  "next_watermark millis watch fresh = (
     let through = millis (w_remarks_through watch);
         latest = latest_time (List.map_filter (\<lambda>remark. millis (active_at remark)) fresh) through;
         at_latest = filter (\<lambda>remark. millis (active_at remark) = latest) fresh
     in if latest = through
        then Some (w_remarks_through watch, w_remark_ids watch @ map rm_id at_latest)
        else (case at_latest of
            [] \<Rightarrow> None
          | first # _ \<Rightarrow> Some (active_at first, map rm_id at_latest)))"

definition own_login :: "(string \<Rightarrow> string) \<Rightarrow> watch_read \<Rightarrow> string option" where
  "own_login lower read = map_option lower (opt_or (wr_viewer read) (wr_author read))"

subsection \<open>A pass\<close>

definition is_remarks :: "watch_change \<Rightarrow> bool" where
  "is_remarks change = (case change of Change_Remarks _ \<Rightarrow> True | _ \<Rightarrow> False)"

text \<open>The state of the checks the agent was told about on the head that was read.\<close>

definition told_of :: "pull_request_watch \<Rightarrow> string option \<Rightarrow> string list \<times> bool \<times> string list" where
  "told_of watch head = (if head \<noteq> w_head_sha watch then ([], False, [])
     else (w_failed_checks watch, w_passed watch, w_passed_checks watch))"

definition fresh_remarks :: "(string \<Rightarrow> int option) \<Rightarrow> (string \<Rightarrow> string) \<Rightarrow> pull_request_watch \<Rightarrow> watch_read \<Rightarrow>
    pull_request_remark list option \<Rightarrow> pull_request_remark list" where
  "fresh_remarks millis lower watch read remarks =
     filter (is_fresh millis lower watch (own_login lower read)) (case remarks of Some rs \<Rightarrow> rs | None \<Rightarrow> [])"

definition pass_changes :: "pull_request_watch \<Rightarrow> watch_read \<Rightarrow> pull_request_remark list \<Rightarrow> watch_change list" where
  "pass_changes watch read fresh =
     fst (evaluate_checks (wr_checks read) (told_of watch (wr_head_sha read)))
     @ (if fresh \<noteq> [] then [Change_Remarks fresh] else [])
     @ (if wr_mergeability read = Merge_Conflicting \<and> \<not> w_conflicting watch
        then [Change_Conflicting] else [])"

definition comments_only :: "watch_change list \<Rightarrow> bool" where
  "comments_only changes = (changes \<noteq> [] \<and> list_all is_remarks changes)"

text \<open>The report on the changes, with the next watermark.\<close>

definition pass_report :: "pull_request_watch \<Rightarrow> watch_read \<Rightarrow> watch_change list \<Rightarrow> string \<times> string list \<Rightarrow>
    watch_report" where
  "pass_report watch read changes mark = (
     let (failed_checks, passed, passed_checks) =
           snd (evaluate_checks (wr_checks read) (told_of watch (wr_head_sha read)));
         conflicting = (case wr_mergeability read of
             Merge_Pending \<Rightarrow> w_conflicting watch
           | Merge_Unknown \<Rightarrow> w_conflicting watch
           | Merge_Conflicting \<Rightarrow> True
           | Merge_Clean \<Rightarrow> False);
         progress = wr_head_sha read \<noteq> w_head_sha watch \<or> (changes \<noteq> [] \<and> \<not> comments_only changes);
         wakes = (if progress then 0 else w_wakes watch) + (if comments_only changes then 1 else 0)
     in \<lparr>rep_changes = changes,
         rep_next = \<lparr>w_started_at = w_started_at watch, w_head_sha = wr_head_sha read,
           w_failed_checks = failed_checks, w_passed = passed, w_passed_checks = passed_checks,
           w_remarks_through = fst mark, w_remark_ids = snd mark,
           w_conflicting = conflicting, w_wakes = wakes, w_pending_wake = w_pending_wake watch\<rparr>,
         rep_exhausted = comments_only changes \<and> wakes \<ge> WAKE_LIMIT\<rparr>)"

definition evaluate :: "(string \<Rightarrow> int option) \<Rightarrow> (string \<Rightarrow> string) \<Rightarrow> pull_request_watch \<Rightarrow> watch_read \<Rightarrow>
    pull_request_remark list option \<Rightarrow> watch_report option" where
  "evaluate millis lower watch read remarks = (
     let fresh = fresh_remarks millis lower watch read remarks
     in do {
       mark \<leftarrow> next_watermark millis watch fresh;
       Some (pass_report watch read (pass_changes watch read fresh) mark) })"

text \<open>A watch over several passes: the reports in order.\<close>

primrec watch_run :: "(string \<Rightarrow> int option) \<Rightarrow> (string \<Rightarrow> string) \<Rightarrow> pull_request_watch \<Rightarrow>
    (watch_read \<times> pull_request_remark list option) list \<Rightarrow> watch_report list option" where
  "watch_run millis lower watch [] = Some []"
| "watch_run millis lower watch (pass # passes) = do {
     report \<leftarrow> evaluate millis lower watch (fst pass) (snd pass);
     reports \<leftarrow> watch_run millis lower (rep_next report) passes;
     Some (report # reports) }"

subsection \<open>The watermark\<close>

lemma foldl_max: "foldl max (t::int) ts \<in> insert t (set ts) \<and> (\<forall>x\<in>insert t (set ts). x \<le> foldl max t ts)"
proof (induction ts arbitrary: t)
  case (Cons u us)
  from Cons.IH [of "max t u"] show ?case by (auto simp: max_def split: if_splits)
qed simp

lemma latest_time_None: "latest_time ts through = None \<longleftrightarrow> ts = [] \<and> through = None"
  by (cases ts; cases through) (simp_all add: latest_time_def)

lemma latest_time_Some:
  assumes "latest_time ts through = Some m"
  shows "m \<in> set ts \<union> set_option through" and "x \<in> set ts \<union> set_option through \<Longrightarrow> x \<le> m"
proof -
  obtain t us where us: "ts @ (case through of Some t \<Rightarrow> [t] | None \<Rightarrow> []) = t # us" "m = foldl max t us"
    using assms by (auto simp: latest_time_def split: list.splits)
  have "set (ts @ (case through of Some t \<Rightarrow> [t] | None \<Rightarrow> [])) = set ts \<union> set_option through"
    by (cases through) auto
  then have "insert t (set us) = set ts \<union> set_option through" by (simp add: us(1))
  with foldl_max [of t us] us(2) show "m \<in> set ts \<union> set_option through"
    and "x \<in> set ts \<union> set_option through \<Longrightarrow> x \<le> m" by auto
qed

text \<open>
  What a watermark covers: remarks active before it, and at it those whose ids it lists. A remark
  is fresh only when the watermark does not cover it.
\<close>

definition covered :: "(string \<Rightarrow> int option) \<Rightarrow> string \<times> string list \<Rightarrow> string \<times> int option \<Rightarrow> bool" where
  "covered millis mark remark = (case (snd remark, millis (fst mark)) of
      (Some at, Some through) \<Rightarrow> at < through \<or> at = through \<and> fst remark \<in> set (snd mark)
    | _ \<Rightarrow> False)"

definition mark_of :: "pull_request_watch \<Rightarrow> string \<times> string list" where
  "mark_of watch = (w_remarks_through watch, w_remark_ids watch)"

definition remark_stamp :: "(string \<Rightarrow> int option) \<Rightarrow> pull_request_remark \<Rightarrow> string \<times> int option" where
  "remark_stamp millis remark = (rm_id remark, millis (active_at remark))"

lemma fresh_uncovered:
  "is_fresh millis lower watch own r \<Longrightarrow> \<not> covered millis (mark_of watch) (remark_stamp millis r)"
  by (auto simp: is_fresh_def covered_def mark_of_def remark_stamp_def split: option.splits)

lemma fresh_stamps:
  "is_fresh millis lower watch own r \<Longrightarrow> \<exists>t through. millis (active_at r) = Some t
     \<and> millis (w_remarks_through watch) = Some through \<and> through \<le> t"
  by (auto simp: is_fresh_def split: option.splits)

lemma in_map_filter: "x \<in> set (List.map_filter f xs) \<longleftrightarrow> (\<exists>y\<in>set xs. f y = Some x)"
  by (induction xs) (auto simp: List.map_filter_simps split: option.split)

lemma next_watermark_same:
  assumes fresh: "list_all (is_fresh millis lower watch own) fresh"
    and same: "latest_time (List.map_filter (\<lambda>r. millis (active_at r)) fresh)
      (millis (w_remarks_through watch)) = millis (w_remarks_through watch)"
  shows "\<exists>mark. next_watermark millis watch fresh = Some mark \<and> fst mark = w_remarks_through watch
    \<and> set (w_remark_ids watch) \<subseteq> set (snd mark)
    \<and> (\<forall>r\<in>set fresh. covered millis mark (remark_stamp millis r))"
proof -
  let ?through = "millis (w_remarks_through watch)"
  let ?at = "filter (\<lambda>r. millis (active_at r) = ?through) fresh"
  have at: "millis (active_at r) = ?through" if r: "r \<in> set fresh" for r
  proof -
    from fresh r have "is_fresh millis lower watch own r" by (simp add: list_all_iff)
    then obtain t u where t: "millis (active_at r) = Some t" "?through = Some u" "u \<le> t"
      using fresh_stamps by blast
    with r have "t \<in> set (List.map_filter (\<lambda>r. millis (active_at r)) fresh)"
      by (auto simp: in_map_filter)
    with t same show ?thesis
      using latest_time_Some(2) [of "List.map_filter (\<lambda>r. millis (active_at r)) fresh" ?through u t]
      by simp
  qed
  then have "covered millis (w_remarks_through watch, w_remark_ids watch @ map rm_id ?at)
      (remark_stamp millis r)" if "r \<in> set fresh" for r
    using that fresh fresh_stamps [of millis lower watch own r]
    by (fastforce simp: covered_def remark_stamp_def list_all_iff split: option.split)
  with same show ?thesis by (auto simp: next_watermark_def Let_def)
qed

lemma next_watermark_later:
  assumes fresh: "list_all (is_fresh millis lower watch own) fresh"
    and later: "latest_time (List.map_filter (\<lambda>r. millis (active_at r)) fresh)
      (millis (w_remarks_through watch)) \<noteq> millis (w_remarks_through watch)"
  shows "\<exists>mark m. next_watermark millis watch fresh = Some mark \<and> millis (fst mark) = Some m
    \<and> (\<forall>t. millis (w_remarks_through watch) = Some t \<longrightarrow> t < m)
    \<and> (\<forall>r\<in>set fresh. covered millis mark (remark_stamp millis r))"
proof -
  let ?times = "List.map_filter (\<lambda>r. millis (active_at r)) fresh"
  let ?through = "millis (w_remarks_through watch)"
  obtain m where m: "latest_time ?times ?through = Some m"
    using later by (cases "latest_time ?times ?through") (auto simp: latest_time_None)
  note le = latest_time_Some(2) [OF m]
  have "m \<in> set ?times" using latest_time_Some(1) [OF m] later m by auto
  then obtain r0 where r0: "r0 \<in> set fresh" "millis (active_at r0) = Some m"
    by (auto simp: in_map_filter)
  let ?at = "filter (\<lambda>r. millis (active_at r) = Some m) fresh"
  obtain first rest where at: "?at = first # rest" using r0 by (cases ?at) (auto simp: filter_empty_conv)
  have "first \<in> set ?at" unfolding at by simp
  then have first: "millis (active_at first) = Some m" by simp
  have mark: "next_watermark millis watch fresh = Some (active_at first, map rm_id ?at)"
    using later m at by (simp add: next_watermark_def Let_def)
  have "covered millis (active_at first, map rm_id ?at) (remark_stamp millis r)" if r: "r \<in> set fresh" for r
  proof -
    from fresh r obtain t where t: "millis (active_at r) = Some t"
      using fresh_stamps by (fastforce simp: list_all_iff)
    with r have "t \<in> set ?times" by (auto simp: in_map_filter)
    then have "t \<le> m" using le by simp
    then show ?thesis using t first r by (auto simp: covered_def remark_stamp_def)
  qed
  moreover have "t < m" if "?through = Some t" for t
    using le [of t] that later m by (cases "t = m") auto
  ultimately show ?thesis using mark first by auto
qed

lemma next_watermark_covers:
  assumes fresh: "list_all (is_fresh millis lower watch own) fresh"
  shows "\<exists>mark. next_watermark millis watch fresh = Some mark
    \<and> (\<forall>x. covered millis (mark_of watch) x \<longrightarrow> covered millis mark x)
    \<and> (\<forall>r\<in>set fresh. covered millis mark (remark_stamp millis r))
    \<and> (millis (w_remarks_through watch) = None \<longrightarrow> millis (fst mark) = None)"
proof (cases "latest_time (List.map_filter (\<lambda>r. millis (active_at r)) fresh)
      (millis (w_remarks_through watch)) = millis (w_remarks_through watch)")
  case True
  from next_watermark_same [OF fresh True] show ?thesis
    by (auto simp: covered_def mark_of_def split: option.splits)
next
  case False
  from next_watermark_later [OF fresh False] obtain mark m
    where mark: "next_watermark millis watch fresh = Some mark" "millis (fst mark) = Some m"
      "\<forall>t. millis (w_remarks_through watch) = Some t \<longrightarrow> t < m"
      "\<forall>r\<in>set fresh. covered millis mark (remark_stamp millis r)" by blast
  have "millis (w_remarks_through watch) \<noteq> None"
  proof
    assume none: "millis (w_remarks_through watch) = None"
    have "fresh = []"
    proof (rule ccontr)
      assume "fresh \<noteq> []"
      then obtain r where "r \<in> set fresh" by (meson last_in_set)
      with fresh none show False using fresh_stamps by (fastforce simp: list_all_iff)
    qed
    with False none show False by (simp add: latest_time_def List.map_filter_simps)
  qed
  then show ?thesis using mark
    by (fastforce simp: covered_def mark_of_def split: option.splits)
qed

subsection \<open>Passes\<close>

text \<open>What a report says, by its kind.\<close>

definition reported_remarks :: "watch_report \<Rightarrow> pull_request_remark list" where
  "reported_remarks report =
     concat (map (\<lambda>c. case c of Change_Remarks rs \<Rightarrow> rs | _ \<Rightarrow> []) (rep_changes report))"

definition reported_failures :: "watch_report \<Rightarrow> pull_request_check list" where
  "reported_failures report =
     concat (map (\<lambda>c. case c of Change_Checks_Failed cs \<Rightarrow> cs | _ \<Rightarrow> []) (rep_changes report))"

definition reports_pass :: "watch_report \<Rightarrow> bool" where
  "reports_pass report =
     list_ex (\<lambda>c. case c of Change_Checks_Passed _ _ \<Rightarrow> True | _ \<Rightarrow> False) (rep_changes report)"

lemma pass_report_simps [simp]:
  "rep_changes (pass_report watch read changes mark) = changes"
  "mark_of (rep_next (pass_report watch read changes mark)) = mark"
  "w_remarks_through (rep_next (pass_report watch read changes mark)) = fst mark"
  "w_remark_ids (rep_next (pass_report watch read changes mark)) = snd mark"
  "w_head_sha (rep_next (pass_report watch read changes mark)) = wr_head_sha read"
  by (simp_all add: pass_report_def mark_of_def Let_def split: prod.split)

lemma pass_report_told:
  "(w_failed_checks (rep_next (pass_report watch read changes mark)),
    w_passed (rep_next (pass_report watch read changes mark)),
    w_passed_checks (rep_next (pass_report watch read changes mark)))
   = snd (evaluate_checks (wr_checks read) (told_of watch (wr_head_sha read)))"
  by (simp add: pass_report_def Let_def split: prod.split)

lemma fresh_remarks_fresh:
  "list_all (is_fresh millis lower watch (own_login lower read)) (fresh_remarks millis lower watch read remarks)"
  by (simp add: fresh_remarks_def list_all_iff)

lemmas fresh_watermark = next_watermark_covers [OF fresh_remarks_fresh]

text \<open>A pass returns, and its watermark covers everything covered before or reported now.\<close>

lemma evaluate_report:
  "\<exists>mark. evaluate millis lower watch read remarks = Some (pass_report watch read
       (pass_changes watch read (fresh_remarks millis lower watch read remarks)) mark)
    \<and> (\<forall>x. covered millis (mark_of watch) x \<longrightarrow> covered millis mark x)
    \<and> (\<forall>r\<in>set (fresh_remarks millis lower watch read remarks). covered millis mark (remark_stamp millis r))
    \<and> (millis (w_remarks_through watch) = None \<longrightarrow> millis (fst mark) = None)"
proof -
  from fresh_watermark [of millis watch lower read remarks] obtain mark where
    "next_watermark millis watch (fresh_remarks millis lower watch read remarks) = Some mark
    \<and> (\<forall>x. covered millis (mark_of watch) x \<longrightarrow> covered millis mark x)
    \<and> (\<forall>r\<in>set (fresh_remarks millis lower watch read remarks). covered millis mark (remark_stamp millis r))
    \<and> (millis (w_remarks_through watch) = None \<longrightarrow> millis (fst mark) = None)" ..
  then show ?thesis by (intro exI [of _ mark]) (simp add: evaluate_def)
qed

lemma evaluate_SomeD:
  assumes "evaluate millis lower watch read remarks = Some report"
  shows evaluate_is_report: "report = pass_report watch read
      (pass_changes watch read (fresh_remarks millis lower watch read remarks)) (mark_of (rep_next report))"
    and evaluate_keeps_covered: "covered millis (mark_of watch) x \<Longrightarrow> covered millis (mark_of (rep_next report)) x"
    and evaluate_covers_fresh: "r \<in> set (fresh_remarks millis lower watch read remarks) \<Longrightarrow>
      covered millis (mark_of (rep_next report)) (remark_stamp millis r)"
    and evaluate_no_time: "millis (w_remarks_through watch) = None \<Longrightarrow>
      millis (w_remarks_through (rep_next report)) = None"
proof -
  obtain mark where "evaluate millis lower watch read remarks = Some (pass_report watch read
       (pass_changes watch read (fresh_remarks millis lower watch read remarks)) mark)"
    and mark: "\<forall>x. covered millis (mark_of watch) x \<longrightarrow> covered millis mark x"
      "\<forall>r\<in>set (fresh_remarks millis lower watch read remarks). covered millis mark (remark_stamp millis r)"
      "millis (w_remarks_through watch) = None \<longrightarrow> millis (fst mark) = None"
    using evaluate_report [of millis lower watch read remarks] by (elim exE conjE) (rule that)
  with assms have r: "report = pass_report watch read
       (pass_changes watch read (fresh_remarks millis lower watch read remarks)) mark" by simp
  then have m: "mark_of (rep_next report) = mark" "w_remarks_through (rep_next report) = fst mark" by simp_all
  show "report = pass_report watch read
      (pass_changes watch read (fresh_remarks millis lower watch read remarks)) (mark_of (rep_next report))"
    unfolding m(1) by (rule r)
  show "covered millis (mark_of watch) x \<Longrightarrow> covered millis (mark_of (rep_next report)) x"
    using mark(1) unfolding m by blast
  show "r \<in> set (fresh_remarks millis lower watch read remarks) \<Longrightarrow>
      covered millis (mark_of (rep_next report)) (remark_stamp millis r)"
    using mark(2) unfolding m by blast
  show "millis (w_remarks_through watch) = None \<Longrightarrow> millis (w_remarks_through (rep_next report)) = None"
    using mark(3) unfolding m by blast
qed

lemma check_changes_kinds:
  "concat (map (\<lambda>c. case c of Change_Remarks rs \<Rightarrow> rs | _ \<Rightarrow> []) (fst (evaluate_checks cs told))) = []"
  by (auto simp: evaluate_checks_def Let_def split: prod.split)

lemma reported_remarks_pass:
  "reported_remarks (pass_report watch read (pass_changes watch read fresh) mark) = fresh"
  by (simp add: reported_remarks_def pass_changes_def check_changes_kinds)

lemma reported_remarks_eq:
  assumes "evaluate millis lower watch read remarks = Some report"
  shows "reported_remarks report = fresh_remarks millis lower watch read remarks"
  using evaluate_is_report [OF assms]
  by (metis (no_types, lifting) pass_report_simps(1) reported_remarks_pass)

text \<open>A watermark that covers what a read may report leaves nothing fresh.\<close>

lemma nothing_fresh:
  assumes "evaluate millis lower watch read remarks = Some report"
  shows "fresh_remarks millis lower (rep_next report) read remarks = []"
proof -
  note up = evaluate_keeps_covered [OF assms] and fresh = evaluate_covers_fresh [OF assms]
    and none = evaluate_no_time [OF assms]
  have "\<not> is_fresh millis lower (rep_next report) (own_login lower read) r"
    if r: "r \<in> set (case remarks of Some rs \<Rightarrow> rs | None \<Rightarrow> [])" for r
  proof
    assume f: "is_fresh millis lower (rep_next report) (own_login lower read) r"
    then have nc: "\<not> covered millis (mark_of (rep_next report)) (remark_stamp millis r)"
      by (rule fresh_uncovered)
    have "\<not> is_fresh millis lower watch (own_login lower read) r"
      using fresh [of r] nc r by (auto simp: fresh_remarks_def)
    moreover have "\<not> covered millis (mark_of watch) (remark_stamp millis r)" using up nc by blast
    ultimately have "millis (w_remarks_through watch) = None"
      using f by (auto simp: is_fresh_def covered_def mark_of_def remark_stamp_def split: option.splits)
    from none [OF this] f show False by (auto simp: is_fresh_def split: option.splits)
  qed
  then show ?thesis by (auto simp: fresh_remarks_def filter_empty_conv)
qed

lemma evaluate_checks_again:
  "fst (evaluate_checks checks (snd (evaluate_checks checks told))) = []
   \<and> snd (evaluate_checks checks (snd (evaluate_checks checks told))) = snd (evaluate_checks checks told)"
proof (cases "checks = []")
  case True
  then show ?thesis by (cases told) (simp add: evaluate_checks_def)
next
  case False
  obtain a b c where told: "told = (a, b, c)" by (cases told)
  obtain g required where g: "gate checks = (g, required)" by (cases "gate checks")
  have "filter (\<lambda>check. ck_name check \<notin> ck_name ` {x \<in> set checks. check_failed (ck_status x)})
      (filter (\<lambda>check. check_failed (ck_status check)) checks) = []"
    by (auto simp: filter_empty_conv)
  with False show ?thesis
    by (auto simp: evaluate_checks_def told g Let_def list_ex_iff filter_empty_conv)
qed

lemma told_of_next: "w_head_sha watch = head \<Longrightarrow>
    told_of watch head = (w_failed_checks watch, w_passed watch, w_passed_checks watch)"
  by (simp add: told_of_def)

text \<open>
  A pass never panics and tells its news once: looking again at the same read finds nothing to
  report, spends no wake and leaves the watch as it is.
\<close>

theorem second_look_reports_nothing:
  "\<exists>report again. evaluate millis lower watch read remarks = Some report
     \<and> evaluate millis lower (rep_next report) read remarks = Some again
     \<and> rep_changes again = [] \<and> rep_next again = rep_next report \<and> \<not> rep_exhausted again"
proof -
  obtain mark where r: "evaluate millis lower watch read remarks = Some (pass_report watch read
       (pass_changes watch read (fresh_remarks millis lower watch read remarks)) mark)"
    using evaluate_report [of millis lower watch read remarks] by blast
  define report where "report = pass_report watch read
       (pass_changes watch read (fresh_remarks millis lower watch read remarks)) mark"
  let ?w = "rep_next report"
  have nf: "fresh_remarks millis lower ?w read remarks = []"
    using nothing_fresh [OF r] by (simp add: report_def)
  have w: "w_head_sha ?w = wr_head_sha read" "w_remarks_through ?w = fst mark" "w_remark_ids ?w = snd mark"
    by (simp_all add: report_def)
  have told: "(w_failed_checks ?w, w_passed ?w, w_passed_checks ?w)
      = snd (evaluate_checks (wr_checks read) (told_of watch (wr_head_sha read)))"
    unfolding report_def by (rule pass_report_told)
  have checks: "evaluate_checks (wr_checks read) (told_of ?w (wr_head_sha read))
      = ([], w_failed_checks ?w, w_passed ?w, w_passed_checks ?w)"
    using evaluate_checks_again [of "wr_checks read" "told_of watch (wr_head_sha read)"]
    unfolding told_of_next [OF w(1)] told by (simp add: prod_eq_iff)
  have conflicting: "w_conflicting ?w = (case wr_mergeability read of
      Merge_Conflicting \<Rightarrow> True | Merge_Clean \<Rightarrow> False | _ \<Rightarrow> w_conflicting watch)"
    by (simp add: report_def pass_report_def Let_def split: prod.split mergeability.split)
  have again: "evaluate millis lower ?w read remarks = Some (pass_report ?w read [] mark)"
    using w conflicting
    by (auto simp: evaluate_def nf next_watermark_def latest_time_def List.map_filter_simps
        pass_changes_def checks mark_of_def Let_def split: option.split)
  have "rep_next (pass_report ?w read [] mark) = ?w"
    using w conflicting
    by (auto simp: pass_report_def checks comments_only_def mark_of_def
        intro!: pull_request_watch.equality split: mergeability.split)
  moreover have "\<not> rep_exhausted (pass_report ?w read [] mark)"
    by (simp add: pass_report_def checks comments_only_def)
  ultimately show ?thesis using r again by (auto simp: report_def)
qed

lemma reported_failures_pass:
  "reported_failures (pass_report watch read (pass_changes watch read fresh) mark)
   = filter (\<lambda>check. check_failed (ck_status check)
       \<and> ck_name check \<notin> set (fst (told_of watch (wr_head_sha read)))) (wr_checks read)"
  by (cases "told_of watch (wr_head_sha read)")
    (auto simp: reported_failures_def pass_changes_def evaluate_checks_def Let_def conj_commute
      split: prod.split)

lemma checks_next:
  "wr_checks read \<noteq> [] \<Longrightarrow>
   w_failed_checks (rep_next (pass_report watch read changes mark))
     = map ck_name (filter (\<lambda>check. check_failed (ck_status check)) (wr_checks read))
   \<and> w_passed (rep_next (pass_report watch read changes mark)) = checks_pass (wr_checks read)"
  by (cases "told_of watch (wr_head_sha read)")
    (simp add: pass_report_def evaluate_checks_def checks_pass_def Let_def split: prod.split)

text \<open>
  No failed check goes untold. A pass reports exactly the failed checks of the read that the
  agent was not last told failed on this head, so a new head makes every failure news again; and
  when the read has checks, the watch then remembers exactly the failed ones, and that the checks
  passed exactly when they do.
\<close>

theorem every_failed_check_is_told:
  "\<exists>report. evaluate millis lower watch read remarks = Some report
     \<and> reported_failures report
       = filter (\<lambda>check. check_failed (ck_status check)
           \<and> ck_name check \<notin> (if wr_head_sha read = w_head_sha watch then set (w_failed_checks watch) else {}))
         (wr_checks read)
     \<and> (wr_checks read = []
        \<or> w_failed_checks (rep_next report)
            = map ck_name (filter (\<lambda>check. check_failed (ck_status check)) (wr_checks read))
          \<and> w_passed (rep_next report) = checks_pass (wr_checks read))"
proof -
  let ?changes = "pass_changes watch read (fresh_remarks millis lower watch read remarks)"
  obtain mark where "evaluate millis lower watch read remarks = Some (pass_report watch read ?changes mark)"
    using evaluate_report [of millis lower watch read remarks] by blast
  moreover have "set (fst (told_of watch (wr_head_sha read)))
      = (if wr_head_sha read = w_head_sha watch then set (w_failed_checks watch) else {})"
    by (simp add: told_of_def)
  ultimately show ?thesis
    using checks_next [of read watch ?changes mark]
    by (intro exI [of _ "pass_report watch read ?changes mark"]) (simp add: reported_failures_pass; blast)
qed

text \<open>Over several passes: what is covered stays covered, and nothing covered is reported.\<close>

lemma watch_run_reports:
  assumes "\<forall>pass\<in>set passes. distinct (map rm_id (case snd pass of Some rs \<Rightarrow> rs | None \<Rightarrow> []))"
  shows "\<exists>reports. watch_run millis lower watch passes = Some reports
    \<and> distinct (map (remark_stamp millis) (concat (map reported_remarks reports)))
    \<and> list_all (\<lambda>r. \<not> covered millis (mark_of watch) (remark_stamp millis r))
        (concat (map reported_remarks reports))"
  using assms
proof (induction passes arbitrary: watch)
  case Nil
  then show ?case by simp
next
  case (Cons pass passes)
  obtain read remarks where pass: "pass = (read, remarks)" by (cases pass)
  obtain report where report: "evaluate millis lower watch read remarks = Some report"
    using evaluate_report [of millis lower watch read remarks] by blast
  let ?fresh = "fresh_remarks millis lower watch read remarks"
  from Cons obtain reports where rest: "watch_run millis lower (rep_next report) passes = Some reports"
    "distinct (map (remark_stamp millis) (concat (map reported_remarks reports)))"
    "list_all (\<lambda>r. \<not> covered millis (mark_of (rep_next report)) (remark_stamp millis r))
        (concat (map reported_remarks reports))" by auto
  have new: "list_all (\<lambda>r. \<not> covered millis (mark_of watch) (remark_stamp millis r)) ?fresh"
    using fresh_uncovered by (fastforce simp: list_all_iff fresh_remarks_def)
  have "distinct (map rm_id (case remarks of Some rs \<Rightarrow> rs | None \<Rightarrow> []))"
    using Cons.prems by (simp add: pass)
  then have "distinct (map rm_id ?fresh)"
    unfolding fresh_remarks_def by (rule distinct_map_filter)
  then have "distinct (map (fst \<circ> remark_stamp millis) ?fresh)"
    by (simp add: remark_stamp_def comp_def)
  then have "distinct (map (remark_stamp millis) ?fresh)"
    by (metis distinct_map list.map_comp)
  moreover have "remark_stamp millis r \<noteq> remark_stamp millis q"
    if "r \<in> set ?fresh" "q \<in> set (concat (map reported_remarks reports))" for r q
    using evaluate_covers_fresh [OF report that(1)] rest(3) that(2) by (auto simp: list_all_iff)
  ultimately have "distinct (map (remark_stamp millis) (?fresh @ concat (map reported_remarks reports)))"
    using rest(2) by (simp only: map_append distinct_append) force
  moreover have "list_all (\<lambda>r. \<not> covered millis (mark_of watch) (remark_stamp millis r))
      (concat (map reported_remarks reports))"
    using evaluate_keeps_covered [OF report] rest(3) unfolding list_all_iff by blast
  then have "list_all (\<lambda>r. \<not> covered millis (mark_of watch) (remark_stamp millis r))
      (?fresh @ concat (map reported_remarks reports))"
    using new by simp
  ultimately show ?case
    using report rest(1) reported_remarks_eq [OF report] by (simp add: pass)
qed

text \<open>
  C11: No remark is told twice. Over any number of passes of a watch, each of a conversation whose
  remarks have ids of their own, no two reported remarks agree in id and time of activity: a remark
  wakes the agent again only when it was edited. And no pass panics.
\<close>

theorem remarks_are_told_once:
  assumes "\<forall>pass\<in>set passes. distinct (map rm_id (case snd pass of Some rs \<Rightarrow> rs | None \<Rightarrow> []))"
  shows "\<exists>reports. watch_run millis lower watch passes = Some reports
    \<and> distinct (map (remark_stamp millis) (concat (map reported_remarks reports)))"
  using watch_run_reports [OF assms] by blast

subsection \<open>Examples\<close>

text \<open>A watch started at time 5, and a bot whose remark of time 7 is read twice, then edited.\<close>

definition example_millis :: "string \<Rightarrow> int option" where
  "example_millis s = (if s = ''t5'' then Some 5 else if s = ''t7'' then Some 7 else if s = ''t9'' then Some 9
     else None)"

definition example_watch :: pull_request_watch where
  "example_watch = new_watch (\<lambda>_. ''t5'') 0"

definition example_remark :: "string option \<Rightarrow> pull_request_remark" where
  "example_remark edited = \<lparr>rm_id = ''r1'', rm_author = Some ''bot'', rm_body = ''hm'', rm_created_at = ''t7'',
     rm_edited_at = edited, rm_url = None, rm_path = None, rm_review_state = None\<rparr>"

definition example_read :: watch_read where
  "example_read = \<lparr>wr_state = PR_Open, wr_head_sha = Some ''h'', wr_base_branch = ''main'', wr_checks = [],
     wr_mergeability = Merge_Clean, wr_viewer = Some ''me'', wr_author = None\<rparr>"

definition example_passes :: "(watch_read \<times> pull_request_remark list option) list" where
  "example_passes = [(example_read, Some [example_remark None]), (example_read, Some [example_remark None]),
     (example_read, Some [example_remark (Some ''t9'')])]"

lemma example_run:
  "map_option (map (\<lambda>report. length (rep_changes report)))
     (watch_run example_millis id example_watch example_passes) = Some [1, 0, 1]"
  by code_simp

theorem remarks_are_told_once_witness:
  "\<exists>reports. watch_run example_millis id example_watch example_passes = Some reports
    \<and> map (\<lambda>report. length (rep_changes report)) reports = [1, 0, 1]
    \<and> distinct (map (remark_stamp example_millis) (concat (map reported_remarks reports)))"
proof -
  have "\<forall>pass\<in>set example_passes. distinct (map rm_id (case snd pass of Some rs \<Rightarrow> rs | None \<Rightarrow> []))"
    by (simp add: example_passes_def)
  from remarks_are_told_once [OF this, of example_millis id example_watch] show ?thesis
    using example_run by auto
qed

end
