(* ===== verification/Control_Grants.thy ===== *)
theory Control_Grants
  imports Prelude
begin

section \<open>Grants of the control surface\<close>

text \<open>
  \<^verbatim>\<open>crates/core/src/control.rs\<close>: what a thread's model may observe and operate on. A grant is a scope
  (the caller's own project, named projects, the whole host), a set of tiers and a set of privileged
  categories. A \<open>BTreeSet\<close> is a set whose iteration order is the derived order of the enumeration,
  given here as instances of \<open>linorder\<close>; a \<open>BTreeMap\<close> is a map.
\<close>

subsection \<open>Tiers and categories\<close>

datatype control_tier = Tier_Observe | Tier_Organize | Tier_Operate

definition tier_rank :: "control_tier \<Rightarrow> nat" where
  "tier_rank t = (case t of Tier_Observe \<Rightarrow> 0 | Tier_Organize \<Rightarrow> 1 | Tier_Operate \<Rightarrow> 2)"

lemma tier_rank_inj [simp]: "tier_rank a = tier_rank b \<longleftrightarrow> a = b"
  by (cases a; cases b) (simp_all add: tier_rank_def)

instantiation control_tier :: linorder
begin

definition less_eq_control_tier :: "control_tier \<Rightarrow> control_tier \<Rightarrow> bool" where
  "less_eq_control_tier a b = (tier_rank a \<le> tier_rank b)"

definition less_control_tier :: "control_tier \<Rightarrow> control_tier \<Rightarrow> bool" where
  "less_control_tier a b = (tier_rank a < tier_rank b)"

instance
proof
  fix a b :: control_tier
  show "a \<le> b \<Longrightarrow> b \<le> a \<Longrightarrow> a = b" by (simp add: less_eq_control_tier_def flip: tier_rank_inj)
qed (auto simp: less_eq_control_tier_def less_control_tier_def)

end

definition all_tiers :: "control_tier list" where
  "all_tiers = [Tier_Observe, Tier_Organize, Tier_Operate]"

definition tier_name :: "control_tier \<Rightarrow> string" where
  "tier_name t = (case t of Tier_Observe \<Rightarrow> ''observe'' | Tier_Organize \<Rightarrow> ''organize''
     | Tier_Operate \<Rightarrow> ''operate'')"

datatype control_category =
  Cat_Answer_Input | Cat_Terminal | Cat_Delete | Cat_Git_Remote | Cat_Pr_Write | Cat_History_Edit
  | Cat_Settings_Write

definition category_rank :: "control_category \<Rightarrow> nat" where
  "category_rank c = (case c of Cat_Answer_Input \<Rightarrow> 0 | Cat_Terminal \<Rightarrow> 1 | Cat_Delete \<Rightarrow> 2
     | Cat_Git_Remote \<Rightarrow> 3 | Cat_Pr_Write \<Rightarrow> 4 | Cat_History_Edit \<Rightarrow> 5 | Cat_Settings_Write \<Rightarrow> 6)"

lemma category_rank_inj [simp]: "category_rank a = category_rank b \<longleftrightarrow> a = b"
  by (cases a; cases b) (simp_all add: category_rank_def)

instantiation control_category :: linorder
begin

definition less_eq_control_category :: "control_category \<Rightarrow> control_category \<Rightarrow> bool" where
  "less_eq_control_category a b = (category_rank a \<le> category_rank b)"

definition less_control_category :: "control_category \<Rightarrow> control_category \<Rightarrow> bool" where
  "less_control_category a b = (category_rank a < category_rank b)"

instance
proof
  fix a b :: control_category
  show "a \<le> b \<Longrightarrow> b \<le> a \<Longrightarrow> a = b"
    by (simp add: less_eq_control_category_def flip: category_rank_inj)
qed (auto simp: less_eq_control_category_def less_control_category_def)

end

definition all_categories :: "control_category list" where
  "all_categories = [Cat_Answer_Input, Cat_Terminal, Cat_Delete, Cat_Git_Remote, Cat_Pr_Write,
     Cat_History_Edit, Cat_Settings_Write]"

definition category_name :: "control_category \<Rightarrow> string" where
  "category_name c = (case c of Cat_Answer_Input \<Rightarrow> ''answer_input'' | Cat_Terminal \<Rightarrow> ''terminal''
     | Cat_Delete \<Rightarrow> ''delete'' | Cat_Git_Remote \<Rightarrow> ''git_remote'' | Cat_Pr_Write \<Rightarrow> ''pr_write''
     | Cat_History_Edit \<Rightarrow> ''history_edit'' | Cat_Settings_Write \<Rightarrow> ''settings_write'')"

subsection \<open>Scopes\<close>

datatype control_scope = Scope_Project | Scope_Projects "string list" | Scope_Host

definition reaches :: "control_scope \<Rightarrow> string option \<Rightarrow> string option \<Rightarrow> bool" where
  "reaches scope caller_project target_project = (case scope of
      Scope_Host \<Rightarrow> True
    | Scope_Project \<Rightarrow> caller_project = target_project
    | Scope_Projects ids \<Rightarrow> caller_project = target_project
        \<or> (case target_project of Some p \<Rightarrow> p \<in> set ids | None \<Rightarrow> False))"

definition within :: "control_scope \<Rightarrow> control_scope \<Rightarrow> string option \<Rightarrow> bool" where
  "within scope granted caller_project = (case (scope, granted) of
      (_, Scope_Host) \<Rightarrow> True
    | (Scope_Project, _) \<Rightarrow> True
    | (Scope_Projects ids, _) \<Rightarrow> (\<forall>p\<in>set ids. reaches granted caller_project (Some p))
    | (Scope_Host, _) \<Rightarrow> False)"

definition intercalate :: "string \<Rightarrow> string list \<Rightarrow> string" where
  "intercalate sep parts = (case parts of [] \<Rightarrow> [] | p # ps \<Rightarrow> p @ concat (map (\<lambda>q. sep @ q) ps))"

definition describe_scope :: "control_scope \<Rightarrow> string" where
  "describe_scope scope = (case scope of
      Scope_Project \<Rightarrow> ''project''
    | Scope_Projects ids \<Rightarrow> ''projects '' @ intercalate '', '' ids
    | Scope_Host \<Rightarrow> ''host'')"

definition scope_ids :: "control_scope \<Rightarrow> string option \<Rightarrow> string list" where
  "scope_ids scope caller_project = (case scope of
      Scope_Projects ids \<Rightarrow> ids
    | _ \<Rightarrow> (case caller_project of Some p \<Rightarrow> [p] | None \<Rightarrow> []))"

definition join_ids :: "string list \<Rightarrow> string list \<Rightarrow> string list" where
  "join_ids joined ids = foldl (\<lambda>js p. if p \<in> set js then js else js @ [p]) joined ids"

definition widen :: "control_scope \<Rightarrow> control_scope \<Rightarrow> string option \<Rightarrow> control_scope" where
  "widen scope other caller_project = (case (scope, other) of
      (Scope_Host, _) \<Rightarrow> Scope_Host
    | (_, Scope_Host) \<Rightarrow> Scope_Host
    | (Scope_Project, Scope_Project) \<Rightarrow> Scope_Project
    | (a, b) \<Rightarrow> Scope_Projects (join_ids (scope_ids a caller_project) (scope_ids b caller_project)))"

subsection \<open>Grants\<close>

record control_grant =
  cg_scope :: control_scope
  cg_tiers :: "control_tier set"
  cg_categories :: "control_category set"

definition default_grant :: control_grant where
  "default_grant = \<lparr>cg_scope = Scope_Project, cg_tiers = set all_tiers, cg_categories = {}\<rparr>"

definition no_grant :: control_grant where
  "no_grant = \<lparr>cg_scope = Scope_Project, cg_tiers = {}, cg_categories = {}\<rparr>"

definition allows_tier :: "control_grant \<Rightarrow> control_tier \<Rightarrow> bool" where
  "allows_tier g tier = (tier \<in> cg_tiers g)"

definition allows_category :: "control_grant \<Rightarrow> control_category \<Rightarrow> bool" where
  "allows_category g category = (category \<in> cg_categories g)"

definition grant_is_empty :: "control_grant \<Rightarrow> bool" where
  "grant_is_empty g = (cg_tiers g = {} \<and> cg_categories g = {})"

definition grant_merge :: "control_grant \<Rightarrow> control_grant \<Rightarrow> string option \<Rightarrow> control_grant" where
  "grant_merge g other caller_project = \<lparr>cg_scope = widen (cg_scope g) (cg_scope other) caller_project,
     cg_tiers = cg_tiers g \<union> cg_tiers other,
     cg_categories = cg_categories g \<union> cg_categories other\<rparr>"

definition describe_grant :: "control_grant \<Rightarrow> string" where
  "describe_grant g = (
     let parts = map tier_name (sorted_list_of_set (cg_tiers g))
           @ map category_name (sorted_list_of_set (cg_categories g))
     in if parts = [] then ''nothing ('' @ describe_scope (cg_scope g) @ '')''
        else intercalate '', '' parts @ '' ('' @ describe_scope (cg_scope g) @ '')'')"

datatype grant_source = Grant_Default | Grant_Project | Grant_Thread

record grant_request =
  gq_id :: string
  gq_grant :: control_grant
  gq_reason :: string
  gq_requested_at :: u64

record control_settings =
  cs_enabled :: bool
  cs_default_grant :: control_grant
  cs_project_overrides :: "string \<rightharpoonup> control_grant"

definition control_settings_default :: control_settings where
  "control_settings_default = \<lparr>cs_enabled = True, cs_default_grant = default_grant,
     cs_project_overrides = Map.empty\<rparr>"

definition resolve_grant :: "control_settings \<Rightarrow> control_grant option \<Rightarrow> string option \<Rightarrow>
    control_grant \<times> grant_source" where
  "resolve_grant settings thread_override project_id = (case thread_override of
      Some g \<Rightarrow> (g, Grant_Thread)
    | None \<Rightarrow> (case Option.bind project_id (cs_project_overrides settings) of
          Some g \<Rightarrow> (g, Grant_Project)
        | None \<Rightarrow> (cs_default_grant settings, Grant_Default)))"

subsection \<open>The other records of the control surface\<close>

datatype settlement_automation = Automation_Off | Automation_Suggest | Automation_Explicit_Signals

datatype reference_origin = Reference_User | Reference_Model

record thread_reference =
  tr_thread_id :: string
  tr_by :: reference_origin
  tr_created_at :: u64
  tr_boundary_notice :: bool

record follow_up =
  fu_since :: u64
  fu_note :: "string option"

datatype self_settle_when = Settle_End_Of_Turn | Settle_Pr_Merged string | Settle_Pr_Closed string

record self_settle_grant =
  sg_when :: self_settle_when
  sg_consent_quote :: string
  sg_granted_at :: u64

record started_by =
  sb_thread_id :: string
  sb_request_id :: string

datatype watch_event =
  Watch_Idle | Watch_Turn_Completed | Watch_Needs_Input | Watch_Needs_Approval | Watch_Settled
  | Watch_Pr_Changed

record control_watch =
  cw_id :: string
  cw_thread_ids :: "string list"
  cw_events :: "watch_event set"
  cw_once :: bool

subsection \<open>The contract of a scope\<close>

text \<open>
  What the host relies on: a scope denotes the targets it reaches from a caller, \<open>inside\<close> compares
  two scopes by what they reach, and \<open>join\<close> reaches what either reaches.
\<close>

locale scope_contract =
  fixes reach :: "'s \<Rightarrow> 'p \<Rightarrow> 'p \<Rightarrow> bool"
    and inside :: "'s \<Rightarrow> 's \<Rightarrow> 'p \<Rightarrow> bool"
    and join :: "'s \<Rightarrow> 's \<Rightarrow> 'p \<Rightarrow> 's"
  assumes own: "reach s c c"
    and inside_reach: "inside s g c \<longleftrightarrow> {t. reach s c t} \<subseteq> {t. reach g c t}"
    and join_reach: "{t. reach (join s r c) c t} = {t. reach s c t} \<union> {t. reach r c t}"
begin

lemma inside_refl: "inside s s c"
  by (simp add: inside_reach)

lemma inside_trans: "inside s g c \<Longrightarrow> inside g h c \<Longrightarrow> inside s h c"
  by (simp add: inside_reach)

lemma insideD: "inside s g c \<Longrightarrow> reach s c t \<Longrightarrow> reach g c t"
  by (auto simp: inside_reach)

lemma inside_join: "inside s (join s r c) c" "inside r (join s r c) c"
  unfolding inside_reach join_reach by auto

lemma join_all:
  "{t. reach (foldl (\<lambda>s r. join s r c) s rs) c t} = {t. reach s c t} \<union> (\<Union>r\<in>set rs. {t. reach r c t})"
  by (induction rs arbitrary: s) (auto simp: join_reach)

end

lemma set_join_ids: "set (join_ids joined ids) = set joined \<union> set ids"
  unfolding join_ids_def by (induction ids arbitrary: joined) auto

text \<open>No list of names reaches every project: there is always another name.\<close>

lemma unlisted_project: "\<exists>p :: string. p \<notin> set ids \<and> Some p \<noteq> c"
proof -
  have "finite (set ids \<union> set_option c)" by simp
  then have "\<exists>p :: string. p \<notin> set ids \<union> set_option c"
    by (meson ex_new_if_finite infinite_UNIV_listI)
  then show ?thesis by auto
qed

lemma reaches_simps [simp]:
  "reaches Scope_Host c t"
  "reaches Scope_Project c t \<longleftrightarrow> c = t"
  "reaches (Scope_Projects ids) c t \<longleftrightarrow> c = t \<or> t \<in> Some ` set ids"
  by (auto simp: reaches_def split: option.split)

lemma within_reaches: "within s g c \<longleftrightarrow> {t. reaches s c t} \<subseteq> {t. reaches g c t}"
proof (cases "g = Scope_Host")
  case True
  then show ?thesis by (cases s) (simp_all add: within_def)
next
  case g: False
  have miss: "\<exists>t. \<not> reaches g c t"
  proof (cases g)
    case Scope_Project
    obtain p where "Some p \<noteq> c" using unlisted_project [of "[]" c] by blast
    with Scope_Project show ?thesis by (intro exI [of _ "Some p"]) auto
  next
    case (Scope_Projects ids)
    obtain p where "p \<notin> set ids" "Some p \<noteq> c" using unlisted_project [of ids c] by blast
    with Scope_Projects show ?thesis by (intro exI [of _ "Some p"]) auto
  next
    case Scope_Host
    with g show ?thesis by simp
  qed
  show ?thesis
  proof (cases s)
    case Scope_Project
    with g show ?thesis by (cases g) (auto simp: within_def)
  next
    case (Scope_Projects ids)
    with g show ?thesis by (cases g) (auto simp: within_def)
  next
    case Scope_Host
    with g miss show ?thesis by (cases g) (auto simp: within_def)
  qed
qed

lemma widen_reaches: "{t. reaches (widen s r c) c t} = {t. reaches s c t} \<union> {t. reaches r c t}"
  by (cases s; cases r; cases c) (auto simp: widen_def scope_ids_def set_join_ids)

interpretation scope: scope_contract reaches within widen
proof unfold_locales
  show "reaches s c c" for s c by (cases s) simp_all
qed (rule within_reaches widen_reaches)+

text \<open>
  \<open>within\<close> is exact. A call may ask for a scope under a grant exactly when every project (or
  absence of one) that the scope reaches from the caller is reached by the grant's scope, so no
  narrower request is refused and no wider one accepted.
\<close>

theorem within_is_exact:
  "within s granted c \<longleftrightarrow> {t. reaches s c t} \<subseteq> {t. reaches granted c t}"
  by (rule scope.inside_reach)

text \<open>The grant after the user approved requests one after another.\<close>

definition approve_all :: "control_grant \<Rightarrow> control_grant list \<Rightarrow> string option \<Rightarrow> control_grant" where
  "approve_all g requests caller_project = foldl (\<lambda>g r. grant_merge g r caller_project) g requests"

lemma approve_all_parts:
  "cg_scope (approve_all g rs c) = foldl (\<lambda>s r. widen s r c) (cg_scope g) (map cg_scope rs)
   \<and> cg_tiers (approve_all g rs c) = cg_tiers g \<union> (\<Union>r\<in>set rs. cg_tiers r)
   \<and> cg_categories (approve_all g rs c) = cg_categories g \<union> (\<Union>r\<in>set rs. cg_categories r)"
  unfolding approve_all_def
  by (induction rs arbitrary: g) (simp_all add: grant_merge_def Un_assoc)

text \<open>
  Approving any number of grant requests, in any order, leaves a grant that reaches exactly what
  the first grant and the requests reach, with exactly their tiers and exactly their categories.
  Tiers and categories are not tied to the scope they were asked with: each holds on the whole
  widened scope.
\<close>

theorem approved_requests_add_up:
  "{t. reaches (cg_scope (approve_all g rs c)) c t}
     = {t. reaches (cg_scope g) c t} \<union> (\<Union>r\<in>set rs. {t. reaches (cg_scope r) c t})
   \<and> {tier. allows_tier (approve_all g rs c) tier} = cg_tiers g \<union> (\<Union>r\<in>set rs. cg_tiers r)
   \<and> {category. allows_category (approve_all g rs c) category}
     = cg_categories g \<union> (\<Union>r\<in>set rs. cg_categories r)"
  using approve_all_parts [of g rs c] scope.join_all [of c "cg_scope g" "map cg_scope rs"]
  unfolding allows_tier_def allows_category_def by auto

end
