(* ===== verification/Session_Meta.thy ===== *)
theory Session_Meta
  imports Agent_Events Review_Drafts Control_Grants
begin

section \<open>Session metadata\<close>

text \<open>
  \<^verbatim>\<open>crates/core/src/project.rs\<close>: the index entry of a session and what the host derives from the
  entries alone. A path is the list of its components, the root directory being a first component
  of its own, as \<open>Path::components\<close> gives them; two paths are equal when their components are, and
  \<open>starts_with\<close> compares components. The hash map of a parent's children is the
  list of its (parent, child) pushes in order. \<open>SessionMeta::new\<close> needs a clock and a random id and is not modelled.
\<close>

subsection \<open>State\<close>

type_synonym path = "string list"

definition root_component :: string where
  "root_component = ''/''"

definition is_absolute :: "path \<Rightarrow> bool" where
  "is_absolute p = (case p of c # _ \<Rightarrow> c = root_component | [] \<Rightarrow> False)"

definition path_starts_with :: "path \<Rightarrow> path \<Rightarrow> bool" where
  "path_starts_with p base = (take (length base) p = base)"

text \<open>\<open>Path::ancestors\<close>: the path and its parents, ending with the root or with the empty path.\<close>

definition path_ancestors :: "path \<Rightarrow> path list" where
  "path_ancestors p = map (\<lambda>n. take n p) (rev [(if is_absolute p then 1 else 0) ..< Suc (length p)])"

record project =
  pj_id :: string
  pj_name :: string
  pj_root :: path
  pj_quick_chat :: bool
  pj_icon_path :: "path option"
  pj_permission_defaults :: "string \<rightharpoonup> string"
  pj_created_at :: u64

text \<open>\<open>rebase_path\<close>; joining components appends them.\<close>

definition rebase_path :: "path \<Rightarrow> path \<Rightarrow> path \<Rightarrow> path option" where
  "rebase_path p old_root new_root =
     (if path_starts_with p old_root then Some (new_root @ drop (length old_root) p) else None)"

record worktree_info =
  wt_root_project_path :: path
  wt_base :: string
  wt_branch :: string

datatype settled_override = Override_Settled | Override_Active

datatype agent_report = Report_None | Report_Expected | Report_Reported | Report_Unreported | Report_Failed

record child_expectation =
  ce_state :: agent_report
  ce_opened_at :: u64
  ce_delivered_item :: "string option"
  ce_reminded :: bool

definition expectation_opened :: "u64 \<Rightarrow> child_expectation" where
  "expectation_opened now_secs = \<lparr>ce_state = Report_Expected, ce_opened_at = now_secs,
     ce_delivered_item = None, ce_reminded = False\<rparr>"

record 'j session_meta =
  me_pull_requests :: "pull_request_link list"
  me_pull_request_watches_paused :: bool
  me_pull_request_reviews :: "pull_request_review_draft list"
  me_pull_request_operations :: "stack_operation list"
  me_id :: string
  me_title :: string
  me_provider :: provider_kind
  me_profile_id :: "string option"
  me_cwd :: path
  me_project_id :: "string option"
  me_model :: "string option"
  me_archived_at :: "u64 option"
  me_settled_at :: "u64 option"
  me_settled_override :: "settled_override option"
  me_unsettled_at :: "u64 option"
  me_auto_settle_disabled_at :: "u64 option"
  me_pinned_at :: "u64 option"
  me_pin_order :: "string option"
  me_active_order :: "string option"
  me_worktree :: "worktree_info option"
  me_resume_cursor :: "'j resume_cursor option"
  me_pending_fork :: bool
  me_moved_from :: "path option"
  me_imported_from :: "string option"
  me_option_selections :: "'j option_selection list"
  me_acp_agent_id :: "string option"
  me_parent_session_id :: "string option"
  me_native_subagent :: "string option"
  me_orchestrate_enabled :: bool
  me_cancelled_at :: "u64 option"
  me_result_max_chars :: "u32 option"
  me_expectation :: "child_expectation option"
  me_control_grant :: "control_grant option"
  me_control_grant_requests :: "grant_request list"
  me_references :: "thread_reference list"
  me_follow_up :: "follow_up option"
  me_parked_at :: "u64 option"
  me_settle_suggestion_dismissed_at :: "u64 option"
  me_self_settle :: "self_settle_grant option"
  me_started_by :: "started_by option"
  me_control_watches :: "control_watch list"
  me_created_at :: u64
  me_updated_at :: u64

definition report :: "'j session_meta \<Rightarrow> agent_report" where
  "report m = (case me_expectation m of None \<Rightarrow> Report_None | Some e \<Rightarrow> ce_state e)"

definition is_settled :: "'j session_meta \<Rightarrow> bool" where
  "is_settled m = (me_settled_override m = Some Override_Settled
     \<or> (me_settled_override m = None \<and> me_settled_at m \<noteq> None))"

definition is_subagent :: "'j session_meta \<Rightarrow> bool" where
  "is_subagent m = (me_parent_session_id m \<noteq> None \<or> me_native_subagent m \<noteq> None)"

definition is_dispatched :: "'j session_meta \<Rightarrow> bool" where
  "is_dispatched m = (me_parent_session_id m \<noteq> None \<and> me_native_subagent m = None)"

definition migrate_lifecycle :: "'j session_meta \<Rightarrow> 'j session_meta" where
  "migrate_lifecycle m = (if me_settled_override m = None \<and> me_settled_at m \<noteq> None
     then m\<lparr>me_settled_override := Some Override_Settled\<rparr> else m)"

subsection \<open>Sharing a worktree\<close>

definition shares_worktree_with :: "'j session_meta \<Rightarrow> 'j session_meta \<Rightarrow> bool" where
  "shares_worktree_with m other = (case me_worktree m of
      None \<Rightarrow> False
    | Some worktree \<Rightarrow> me_id other \<noteq> me_id m
        \<and> (path_starts_with (me_cwd other) (me_cwd m)
           \<or> (case me_worktree other of Some o' \<Rightarrow> wt_branch o' = wt_branch worktree | None \<Rightarrow> False)))"

record 'j worktree_sharing =
  ws_paths :: "path \<rightharpoonup> 'j session_meta list"
  ws_branches :: "string \<rightharpoonup> 'j session_meta list"

definition add_owner :: "'j session_meta \<Rightarrow> 'j session_meta list \<Rightarrow> 'j session_meta list" where
  "add_owner m owners = (if length owners < 2 \<and> list_all (\<lambda>other. me_id other \<noteq> me_id m) owners
     then owners @ [m] else owners)"

text \<open>\<open>entry(key).or_default()\<close> followed by \<open>add_owner\<close>.\<close>

definition own_key :: "'k \<Rightarrow> 'j session_meta \<Rightarrow> ('k \<rightharpoonup> 'j session_meta list) \<Rightarrow>
    ('k \<rightharpoonup> 'j session_meta list)" where
  "own_key k m owners = owners(k \<mapsto> add_owner m (case owners k of Some os \<Rightarrow> os | None \<Rightarrow> []))"

definition sharing_step :: "'j session_meta \<Rightarrow> 'j worktree_sharing \<Rightarrow> 'j worktree_sharing" where
  "sharing_step m s = \<lparr>
     ws_paths = fold (\<lambda>p. own_key p m) (path_ancestors (me_cwd m)) (ws_paths s),
     ws_branches = (case me_worktree m of
         Some worktree \<Rightarrow> own_key (wt_branch worktree) m (ws_branches s)
       | None \<Rightarrow> ws_branches s)\<rparr>"

definition sharing_new :: "'j session_meta list \<Rightarrow> 'j worktree_sharing" where
  "sharing_new sessions = fold sharing_step sessions \<lparr>ws_paths = Map.empty, ws_branches = Map.empty\<rparr>"

definition is_shared :: "'j worktree_sharing \<Rightarrow> 'j session_meta \<Rightarrow> bool" where
  "is_shared s m = (case me_worktree m of
      None \<Rightarrow> False
    | Some worktree \<Rightarrow> list_ex (shares_worktree_with m)
        ((case ws_paths s (me_cwd m) of Some os \<Rightarrow> os | None \<Rightarrow> [])
         @ (case ws_branches s (wt_branch worktree) of Some os \<Rightarrow> os | None \<Rightarrow> [])))"

subsection \<open>Descendants\<close>

definition child_pairs :: "'j session_meta list \<Rightarrow> (string \<times> string) list" where
  "child_pairs sessions = List.map_filter
     (\<lambda>m. map_option (\<lambda>parent. (parent, me_id m)) (me_parent_session_id m)) sessions"

definition children_of :: "(string \<times> string) list \<Rightarrow> string \<Rightarrow> string list" where
  "children_of pairs parent = map snd (filter (\<lambda>pc. fst pc = parent) pairs)"

text \<open>\<open>visited.insert(child)\<close> and the push that follows it.\<close>

definition visit :: "string \<Rightarrow> string set \<times> string list \<Rightarrow> string set \<times> string list" where
  "visit child s = (case s of (visited, queue) \<Rightarrow>
     if child \<in> visited then (visited, queue) else (insert child visited, queue @ [child]))"

lemma visit_pair [simp]:
  "visit child (visited, queue) =
     (if child \<in> visited then (visited, queue) else (insert child visited, queue @ [child]))"
  by (simp add: visit_def)

lemma visit_all:
  "fold visit cs (visited, queue) = (visited', queue') \<Longrightarrow>
     \<exists>new. queue' = queue @ new \<and> distinct new \<and> set new \<subseteq> set cs \<and> set new \<inter> visited = {}
       \<and> visited' = visited \<union> set new \<and> set cs \<subseteq> visited'"
proof (induction cs arbitrary: visited queue)
  case Nil
  then show ?case by simp
next
  case (Cons c cs)
  show ?case
  proof (cases "c \<in> visited")
    case True
    with Cons.prems have "fold visit cs (visited, queue) = (visited', queue')" by simp
    from Cons.IH [OF this] True show ?thesis by auto
  next
    case False
    with Cons.prems have "fold visit cs (insert c visited, queue @ [c]) = (visited', queue')"
      by simp
    from Cons.IH [OF this] obtain new where "queue' = (queue @ [c]) @ new" "distinct new"
      "set new \<subseteq> set cs" "set new \<inter> insert c visited = {}"
      "visited' = insert c visited \<union> set new" "set cs \<subseteq> visited'" by blast
    with False show ?thesis by (intro exI [of _ "c # new"]) auto
  qed
qed

function descend :: "(string \<times> string) list \<Rightarrow> string set \<Rightarrow> string list \<Rightarrow> nat \<Rightarrow> string list" where
  "descend pairs visited queue k =
     (if k < length queue then
        (case fold visit (children_of pairs (queue ! k)) (visited, queue) of
           (visited', queue') \<Rightarrow> descend pairs visited' queue' (Suc k))
      else queue)"
  by pat_completeness auto
termination
proof (relation "measure (\<lambda>(pairs, visited, queue, k).
    card (snd ` set pairs - visited) + (length queue - k))")
  fix pairs :: "(string \<times> string) list" and visited :: "string set" and queue :: "string list"
    and k :: nat and visited' queue'
  assume k: "k < length queue"
    and s: "(visited', queue') = fold visit (children_of pairs (queue ! k)) (visited, queue)"
  from visit_all [OF s [symmetric]] obtain new where new: "queue' = queue @ new" "distinct new"
    "set new \<subseteq> set (children_of pairs (queue ! k))" "set new \<inter> visited = {}"
    "visited' = visited \<union> set new" by blast
  let ?all = "snd ` set pairs"
  have sub: "set new \<subseteq> ?all - visited" using new(3,4) by (auto simp: children_of_def)
  have "?all - visited' = (?all - visited) - set new" using new(5) by auto
  then have "card (?all - visited') = card (?all - visited) - length new"
    using sub new(2) by (simp add: card_Diff_subset distinct_card)
  moreover have "length new \<le> card (?all - visited)"
    using card_mono [OF _ sub] new(2) by (simp add: distinct_card)
  ultimately show "((pairs, visited', queue', Suc k), pairs, visited, queue, k)
      \<in> measure (\<lambda>(pairs, visited, queue, k). card (snd ` set pairs - visited) + (length queue - k))"
    using k new(1) by simp
qed simp

declare descend.simps [simp del]

definition descendant_session_ids :: "'j session_meta list \<Rightarrow> string \<Rightarrow> string list" where
  "descendant_session_ids sessions root_id =
     (if list_ex (\<lambda>m. me_id m = root_id) sessions
      then descend (child_pairs sessions) {root_id} [root_id] 0 else [])"

subsection \<open>Projects of sessions\<close>

text \<open>\<open>Path::file_name\<close>, and a path written out.\<close>

definition file_name :: "path \<Rightarrow> string option" where
  "file_name p = (if p = [] \<or> last p \<in> {root_component, ''.'', ''..''} then None else Some (last p))"

definition path_display :: "path \<Rightarrow> string" where
  "path_display p = (if is_absolute p then root_component @ intercalate ''/'' (tl p) else intercalate ''/'' p)"

definition project_name_from_root :: "path \<Rightarrow> string" where
  "project_name_from_root root = (case file_name root of
      Some n \<Rightarrow> if n \<noteq> [] then n else path_display root
    | None \<Rightarrow> path_display root)"

definition from_root :: "string \<Rightarrow> u64 \<Rightarrow> path \<Rightarrow> project" where
  "from_root fresh_id now_secs root = \<lparr>pj_id = fresh_id, pj_name = project_name_from_root root,
     pj_root = root, pj_quick_chat = False, pj_icon_path = None, pj_permission_defaults = Map.empty,
     pj_created_at = now_secs\<rparr>"

record 'j index_file =
  ix_projects :: "project list"
  ix_sessions :: "'j session_meta list"

text \<open>
  The loop of \<open>migrate_index\<close>: the projects and the map from roots to their ids grow as sessions
  without a known project are met. \<open>fresh n\<close> is the id drawn for the project at index \<open>n\<close>.
\<close>

definition has_project :: "project list \<Rightarrow> 'j session_meta \<Rightarrow> bool" where
  "has_project projects s = (case me_project_id s of
      Some i \<Rightarrow> list_ex (\<lambda>p. pj_id p = i) projects | None \<Rightarrow> False)"

fun migrate_sessions :: "(nat \<Rightarrow> string) \<Rightarrow> u64 \<Rightarrow> (path \<rightharpoonup> string) \<Rightarrow> project list \<Rightarrow>
    'j session_meta list \<Rightarrow> project list \<times> 'j session_meta list" where
  "migrate_sessions fresh now roots projects [] = (projects, [])"
| "migrate_sessions fresh now roots projects (s # ss) =
     (if has_project projects s
      then (case migrate_sessions fresh now roots projects ss of (ps, moved) \<Rightarrow> (ps, s # moved))
      else (case roots (me_cwd s) of
          Some i \<Rightarrow> (case migrate_sessions fresh now roots projects ss of
              (ps, moved) \<Rightarrow> (ps, s\<lparr>me_project_id := Some i\<rparr> # moved))
        | None \<Rightarrow>
            let p = from_root (fresh (length projects)) now (me_cwd s)
            in (case migrate_sessions fresh now (roots(me_cwd s \<mapsto> pj_id p)) (projects @ [p]) ss of
                (ps, moved) \<Rightarrow> (ps, s\<lparr>me_project_id := Some (pj_id p)\<rparr> # moved))))"

definition migrate_index :: "(nat \<Rightarrow> string) \<Rightarrow> u64 \<Rightarrow> 'j index_file \<Rightarrow> 'j index_file" where
  "migrate_index fresh now file = (
     let roots = fold (\<lambda>p m. m(pj_root p \<mapsto> pj_id p)) (ix_projects file) Map.empty
     in case migrate_sessions fresh now roots (ix_projects file) (ix_sessions file) of
          (projects, sessions) \<Rightarrow> file\<lparr>ix_projects := projects, ix_sessions := sessions\<rparr>)"

subsection \<open>The sharing index is exact\<close>

text \<open>The owners of a key: at most two, of different sessions.\<close>

definition owners_ok :: "'j session_meta list \<Rightarrow> 'j session_meta set \<Rightarrow> bool" where
  "owners_ok owners users = (set owners \<subseteq> users
     \<and> (2 \<le> length owners \<or> (\<forall>u\<in>users. \<exists>o'\<in>set owners. me_id o' = me_id u))
     \<and> distinct (map me_id owners))"

lemma owners_ok_add: "owners_ok owners users \<Longrightarrow> owners_ok (add_owner m owners) (insert m users)"
  by (auto simp: owners_ok_def add_owner_def list_all_iff image_iff)

lemma owners_ok_other:
  assumes ok: "owners_ok owners users" and u: "u \<in> users" "me_id u \<noteq> n"
  shows "\<exists>o'\<in>set owners. me_id o' \<noteq> n"
proof (cases "2 \<le> length owners")
  case True
  then obtain a b rest where "owners = a # b # rest"
    by (cases owners; cases "tl owners") auto
  with ok show ?thesis by (auto simp: owners_ok_def)
next
  case False
  with ok u(1) obtain o' where "o' \<in> set owners" "me_id o' = me_id u"
    unfolding owners_ok_def by blast
  with u(2) show ?thesis by (intro bexI [of _ o']) simp_all
qed

definition looked_up :: "('k \<rightharpoonup> 'a list) \<Rightarrow> 'k \<Rightarrow> 'a list" where
  "looked_up owners k = (case owners k of Some os \<Rightarrow> os | None \<Rightarrow> [])"

lemma looked_up_own: "looked_up (own_key k m owners) k' =
    (if k' = k then add_owner m (looked_up owners k) else looked_up owners k')"
  by (simp add: own_key_def looked_up_def)

lemma add_owner_again: "add_owner m (add_owner m os) = add_owner m os"
  by (auto simp: add_owner_def list_all_iff)

lemma looked_up_own_all:
  "looked_up (fold (\<lambda>p. own_key p m) ks owners) k =
     (if k \<in> set ks then add_owner m (looked_up owners k) else looked_up owners k)"
  by (induction ks arbitrary: owners) (auto simp: looked_up_own add_owner_again)

definition path_users :: "'j session_meta list \<Rightarrow> path \<Rightarrow> 'j session_meta set" where
  "path_users sessions p = {m \<in> set sessions. p \<in> set (path_ancestors (me_cwd m))}"

definition branch_users :: "'j session_meta list \<Rightarrow> string \<Rightarrow> 'j session_meta set" where
  "branch_users sessions b = {m \<in> set sessions. map_option wt_branch (me_worktree m) = Some b}"

lemma sharing_owners_from:
  assumes "\<And>p. owners_ok (looked_up (ws_paths s) p) (path_users seen p)"
    and "\<And>b. owners_ok (looked_up (ws_branches s) b) (branch_users seen b)"
  shows "owners_ok (looked_up (ws_paths (fold sharing_step sessions s)) p) (path_users (seen @ sessions) p)
    \<and> owners_ok (looked_up (ws_branches (fold sharing_step sessions s)) b) (branch_users (seen @ sessions) b)"
  using assms
proof (induction sessions arbitrary: s seen)
  case Nil
  then show ?case by simp
next
  case (Cons m sessions)
  have pu: "path_users (seen @ [m]) p = (if p \<in> set (path_ancestors (me_cwd m))
      then insert m (path_users seen p) else path_users seen p)" for p
    by (auto simp: path_users_def)
  have bu: "branch_users (seen @ [m]) b = (if map_option wt_branch (me_worktree m) = Some b
      then insert m (branch_users seen b) else branch_users seen b)" for b
    by (auto simp: branch_users_def)
  have "owners_ok (looked_up (ws_paths (sharing_step m s)) p) (path_users (seen @ [m]) p)" for p
    using Cons.prems(1) [of p] by (simp add: sharing_step_def looked_up_own_all pu owners_ok_add)
  moreover have "owners_ok (looked_up (ws_branches (sharing_step m s)) b) (branch_users (seen @ [m]) b)" for b
    using Cons.prems(2) [of b]
    by (cases "me_worktree m") (auto simp: sharing_step_def looked_up_own bu owners_ok_add)
  ultimately show ?case using Cons.IH [of "sharing_step m s" "seen @ [m]"] by simp
qed

lemma sharing_owners:
  "owners_ok (looked_up (ws_paths (sharing_new sessions)) p) (path_users sessions p)"
  "owners_ok (looked_up (ws_branches (sharing_new sessions)) b) (branch_users sessions b)"
  using sharing_owners_from [of "\<lparr>ws_paths = Map.empty, ws_branches = Map.empty\<rparr>" "[]" sessions p b]
  by (simp_all add: sharing_new_def looked_up_def owners_ok_def path_users_def branch_users_def)

text \<open>A path is among the ancestors of another exactly when it is a non-degenerate prefix of it.\<close>

lemma path_ancestors_iff:
  assumes "p \<noteq> []"
  shows "p \<in> set (path_ancestors q) \<longleftrightarrow> path_starts_with q p"
proof
  assume "p \<in> set (path_ancestors q)"
  then show "path_starts_with q p"
    by (auto simp: path_ancestors_def path_starts_with_def min_def)
next
  assume pre: "path_starts_with q p"
  then have len: "length p \<le> length q"
    unfolding path_starts_with_def by (metis length_take min.cobounded1 min.commute)
  from assms have "Suc 0 \<le> length p" by (cases p) auto
  with len have "length p \<in> set [(if is_absolute q then 1 else 0) ..< Suc (length q)]" by auto
  moreover have "take (length p) q = p" using pre by (simp add: path_starts_with_def)
  ultimately show "p \<in> set (path_ancestors q)"
    unfolding path_ancestors_def set_map set_rev by (metis image_eqI)
qed

text \<open>
  C28: The sharing index answers exactly what comparing a worktree's owner with every session would:
  \<open>is_shared\<close> is true precisely when another session works in the worktree, although the index keeps
  at most two sessions per path and per branch. So a worktree that is reported unshared can be
  removed without taking another session's directory or branch. (A session with a worktree has a
  working directory, which is not the empty path.)
\<close>

theorem sharing_index_is_exact:
  assumes "me_cwd m \<noteq> []"
  shows "is_shared (sharing_new sessions) m \<longleftrightarrow> list_ex (shares_worktree_with m) sessions"
proof (cases "me_worktree m")
  case None
  then show ?thesis by (simp add: is_shared_def shares_worktree_with_def list_ex_iff)
next
  case (Some worktree)
  let ?ps = "looked_up (ws_paths (sharing_new sessions)) (me_cwd m)"
  let ?bs = "looked_up (ws_branches (sharing_new sessions)) (wt_branch worktree)"
  note po = sharing_owners(1) [of sessions "me_cwd m"]
  note bo = sharing_owners(2) [of sessions "wt_branch worktree"]
  have shared: "is_shared (sharing_new sessions) m \<longleftrightarrow>
      (\<exists>o'\<in>set ?ps \<union> set ?bs. shares_worktree_with m o')"
    using Some by (simp add: is_shared_def looked_up_def list_ex_iff Bex_def)
  have sub: "set ?ps \<union> set ?bs \<subseteq> set sessions"
    using po bo by (auto simp: owners_ok_def path_users_def branch_users_def)
  have by_path: "shares_worktree_with m o' \<longleftrightarrow> me_id o' \<noteq> me_id m"
    if "o' \<in> path_users sessions (me_cwd m)" for o'
    using that Some path_ancestors_iff [OF assms]
    by (auto simp: path_users_def shares_worktree_with_def)
  have by_branch: "shares_worktree_with m o' \<longleftrightarrow> me_id o' \<noteq> me_id m"
    if "o' \<in> branch_users sessions (wt_branch worktree)" for o'
    using that Some by (cases "me_worktree o'") (simp_all add: branch_users_def shares_worktree_with_def)
  show ?thesis
  proof
    assume "is_shared (sharing_new sessions) m"
    with shared sub show "list_ex (shares_worktree_with m) sessions"
      by (auto simp: list_ex_iff)
  next
    assume "list_ex (shares_worktree_with m) sessions"
    then obtain u where u: "u \<in> set sessions" "shares_worktree_with m u" by (auto simp: list_ex_iff)
    then have "me_id u \<noteq> me_id m"
      using Some by (simp add: shares_worktree_with_def)
    from u Some path_ancestors_iff [OF assms]
    have "u \<in> path_users sessions (me_cwd m) \<or> u \<in> branch_users sessions (wt_branch worktree)"
      by (cases "me_worktree u") (auto simp: shares_worktree_with_def path_users_def branch_users_def)
    then show "is_shared (sharing_new sessions) m"
    proof
      assume "u \<in> path_users sessions (me_cwd m)"
      from owners_ok_other [OF po this \<open>me_id u \<noteq> me_id m\<close>] obtain o' where
        "o' \<in> set ?ps" "me_id o' \<noteq> me_id m" by blast
      moreover from this po have "o' \<in> path_users sessions (me_cwd m)" by (auto simp: owners_ok_def)
      ultimately show ?thesis using by_path shared by blast
    next
      assume "u \<in> branch_users sessions (wt_branch worktree)"
      from owners_ok_other [OF bo this \<open>me_id u \<noteq> me_id m\<close>] obtain o' where
        "o' \<in> set ?bs" "me_id o' \<noteq> me_id m" by blast
      moreover from this bo have "o' \<in> branch_users sessions (wt_branch worktree)"
        by (auto simp: owners_ok_def)
      ultimately show ?thesis using by_branch shared by blast
    qed
  qed
qed

text \<open>A worktree its two sessions share through the branch only, and one nobody shares.\<close>

definition demo_meta :: "string \<Rightarrow> path \<Rightarrow> worktree_info option \<Rightarrow> unit session_meta" where
  "demo_meta sid cwd worktree = \<lparr>
     me_pull_requests = [], me_pull_request_watches_paused = False, me_pull_request_reviews = [],
     me_pull_request_operations = [], me_id = sid, me_title = [], me_provider = ClaudeCode,
     me_profile_id = None, me_cwd = cwd, me_project_id = None, me_model = None,
     me_archived_at = None, me_settled_at = None, me_settled_override = None,
     me_unsettled_at = None, me_auto_settle_disabled_at = None, me_pinned_at = None,
     me_pin_order = None, me_active_order = None, me_worktree = worktree,
     me_resume_cursor = None, me_pending_fork = False, me_moved_from = None,
     me_imported_from = None, me_option_selections = [], me_acp_agent_id = None,
     me_parent_session_id = None, me_native_subagent = None, me_orchestrate_enabled = False,
     me_cancelled_at = None, me_result_max_chars = None, me_expectation = None,
     me_control_grant = None, me_control_grant_requests = [], me_references = [],
     me_follow_up = None, me_parked_at = None, me_settle_suggestion_dismissed_at = None,
     me_self_settle = None, me_started_by = None, me_control_watches = [], me_created_at = 0,
     me_updated_at = 0\<rparr>"

definition demo_worktree :: "string \<Rightarrow> worktree_info" where
  "demo_worktree branch = \<lparr>wt_root_project_path = [''/'', ''p''], wt_base = ''main'', wt_branch = branch\<rparr>"

definition demo_sessions :: "unit session_meta list" where
  "demo_sessions =
     [demo_meta ''a'' [''/'', ''w'', ''one''] (Some (demo_worktree ''x'')),
      demo_meta ''b'' [''/'', ''w'', ''two''] (Some (demo_worktree ''x'')),
      demo_meta ''c'' [''/'', ''w'', ''three''] (Some (demo_worktree ''y''))]"

lemma sharing_index_is_exact_witness:
  "list_ex (shares_worktree_with (demo_sessions ! 0)) demo_sessions
   \<and> is_shared (sharing_new demo_sessions) (demo_sessions ! 0)
   \<and> \<not> is_shared (sharing_new demo_sessions) (demo_sessions ! 2)"
proof -
  have "me_cwd (demo_sessions ! 0) \<noteq> []" "me_cwd (demo_sessions ! 2) \<noteq> []"
    by (simp_all add: demo_sessions_def demo_meta_def)
  from this [THEN sharing_index_is_exact [of _ demo_sessions]] show ?thesis
    by (simp add: demo_sessions_def demo_meta_def demo_worktree_def shares_worktree_with_def
        path_starts_with_def)
qed

subsection \<open>Descendants are the threads below\<close>

definition below :: "'j session_meta list \<Rightarrow> string \<Rightarrow> string \<Rightarrow> bool" where
  "below sessions parent child = (\<exists>m\<in>set sessions. me_id m = child \<and> me_parent_session_id m = Some parent)"

lemma child_pairs_below: "c \<in> set (children_of (child_pairs sessions) p) \<longleftrightarrow> below sessions p c"
proof -
  have "set (child_pairs sessions) = {(p, c). below sessions p c}"
    unfolding child_pairs_def below_def
    by (induction sessions) (auto simp: List.map_filter_simps split: option.split)
  then show ?thesis by (force simp: children_of_def)
qed

text \<open>The invariant of the walk: everything queued is below the root, and what was expanded is closed.\<close>

definition walk_ok :: "(string \<times> string) list \<Rightarrow> string \<Rightarrow> string set \<Rightarrow> string list \<Rightarrow> nat \<Rightarrow> bool" where
  "walk_ok pairs root visited queue k = (visited = set queue \<and> distinct queue \<and> k \<le> length queue
     \<and> queue \<noteq> [] \<and> hd queue = root
     \<and> (\<forall>j<k. set (children_of pairs (queue ! j)) \<subseteq> visited)
     \<and> (\<forall>i<length queue. 0 < i \<longrightarrow> (\<exists>j<i. queue ! i \<in> set (children_of pairs (queue ! j)))))"

lemma descend_ok:
  assumes "walk_ok pairs root visited queue k"
  shows "\<exists>ds. descend pairs visited queue k = ds \<and> walk_ok pairs root (set ds) ds (length ds)"
  using assms
proof (induction pairs visited queue k rule: descend.induct)
  case (1 pairs visited queue k)
  show ?case
  proof (cases "k < length queue")
    case False
    with 1(2) have "k = length queue" "visited = set queue" by (auto simp: walk_ok_def)
    moreover from False have "descend pairs visited queue k = queue"
      by (subst descend.simps) simp
    ultimately show ?thesis using 1(2) by (intro exI [of _ queue]) simp
  next
    case True
    obtain visited' queue' where fold:
      "fold visit (children_of pairs (queue ! k)) (visited, queue) = (visited', queue')"
      by (cases "fold visit (children_of pairs (queue ! k)) (visited, queue)")
    from visit_all [OF fold] obtain new where new: "queue' = queue @ new" "distinct new"
      "set new \<subseteq> set (children_of pairs (queue ! k))" "set new \<inter> visited = {}"
      "visited' = visited \<union> set new" "set (children_of pairs (queue ! k)) \<subseteq> visited'" by blast
    have closed: "set (children_of pairs (queue' ! j)) \<subseteq> visited'" if "j < Suc k" for j
    proof (cases "j = k")
      case True
      with new \<open>k < length queue\<close> show ?thesis by (simp add: nth_append)
    next
      case False
      with that have "j < k" by simp
      with "1.prems" have "set (children_of pairs (queue ! j)) \<subseteq> visited"
        unfolding walk_ok_def by blast
      with False that new \<open>k < length queue\<close> show ?thesis by (auto simp: nth_append)
    qed
    have parents: "\<exists>j<i. queue' ! i \<in> set (children_of pairs (queue' ! j))"
      if i: "i < length queue'" "0 < i" for i
    proof (cases "i < length queue")
      case True
      with i "1.prems" obtain j where "j < i" "queue ! i \<in> set (children_of pairs (queue ! j))"
        by (auto simp: walk_ok_def)
      with True show ?thesis using new(1) by (intro exI [of _ j]) (simp add: nth_append)
    next
      case False
      then have "queue' ! i \<in> set new" using i new(1) by (auto simp: nth_append)
      with new(1,3) True False show ?thesis by (intro exI [of _ k]) (auto simp: nth_append)
    qed
    have "walk_ok pairs root visited' queue' (Suc k)"
      using "1.prems" new True closed parents unfolding walk_ok_def by auto
    from "1.IH" [OF True fold [symmetric] this] show ?thesis
      using True fold by (simp add: descend.simps [of pairs visited queue k])
  qed
qed

lemma walk_ok_reaches:
  assumes ok: "walk_ok (child_pairs sessions) root (set ds) ds (length ds)"
  shows "set ds = {x. (below sessions)\<^sup>*\<^sup>* root x}"
proof (intro set_eqI iffI CollectI)
  fix x
  assume "x \<in> set ds"
  then obtain i where i: "i < length ds" "ds ! i = x" by (auto simp: in_set_conv_nth)
  have "(below sessions)\<^sup>*\<^sup>* root (ds ! i)" if "i < length ds" for i
    using that
  proof (induction i rule: less_induct)
    case (less i)
    show ?case
    proof (cases "i = 0")
      case True
      from ok have "ds \<noteq> []" "hd ds = root" by (simp_all add: walk_ok_def)
      with True show ?thesis by (simp add: hd_conv_nth [symmetric])
    next
      case False
      with ok less.prems obtain j where "j < i" "below sessions (ds ! j) (ds ! i)"
        by (auto simp: walk_ok_def child_pairs_below)
      with less show ?thesis by (meson less_trans rtranclp.rtrancl_into_rtrancl)
    qed
  qed
  with i show "(below sessions)\<^sup>*\<^sup>* root x" by blast
next
  fix x
  assume "x \<in> {x. (below sessions)\<^sup>*\<^sup>* root x}"
  then have "(below sessions)\<^sup>*\<^sup>* root x" by simp
  then show "x \<in> set ds"
  proof (induction rule: rtranclp_induct)
    case base
    with ok show ?case by (auto simp: walk_ok_def)
  next
    case (step y z)
    then obtain j where "j < length ds" "ds ! j = y" by (auto simp: in_set_conv_nth)
    with ok step(2) show ?case by (auto simp: walk_ok_def child_pairs_below [symmetric])
  qed
qed

text \<open>
  \<open>descendant_session_ids\<close> ends even when the parent links form a cycle, and yields nothing for
  an unknown root; for a known one it yields the root and exactly the threads below it, each once,
  the root first and every other thread after its parent.
\<close>

theorem descendants_are_the_threads_below:
  "case descendant_session_ids sessions root of
     [] \<Rightarrow> root \<notin> me_id ` set sessions
   | first # rest \<Rightarrow> root \<in> me_id ` set sessions \<and> first = root \<and> distinct (first # rest)
       \<and> set (first # rest) = {x. (below sessions)\<^sup>*\<^sup>* root x}
       \<and> filter (\<lambda>i. \<not> list_ex (\<lambda>p. below sessions p (rest ! i)) (first # take i rest)) [0..<length rest] = []"
proof (cases "list_ex (\<lambda>m. me_id m = root) sessions")
  case False
  then show ?thesis by (auto simp: descendant_session_ids_def list_ex_iff)
next
  case True
  have "walk_ok (child_pairs sessions) root {root} [root] 0" by (simp add: walk_ok_def)
  from descend_ok [OF this] obtain ds where
    walk: "descend (child_pairs sessions) {root} [root] 0 = ds"
    and ok: "walk_ok (child_pairs sessions) root (set ds) ds (length ds)" by blast
  have ds: "descendant_session_ids sessions root = ds"
    unfolding descendant_session_ids_def if_P [OF True] by (rule walk)
  obtain first rest where cons: "ds = first # rest" using ok by (cases ds) (auto simp: walk_ok_def)
  have parent: "list_ex (\<lambda>p. below sessions p (rest ! i)) (first # take i rest)" if "i < length rest" for i
  proof -
    have "\<forall>i<length ds. 0 < i \<longrightarrow> (\<exists>j<i. ds ! i \<in> set (children_of (child_pairs sessions) (ds ! j)))"
      using ok unfolding walk_ok_def by blast
    from this [rule_format, of "Suc i"]
    have "\<exists>j<Suc i. ds ! Suc i \<in> set (children_of (child_pairs sessions) (ds ! j))"
      using that cons by (metis length_Cons not_less_eq zero_less_Suc)
    then obtain j where j: "j < Suc i" "below sessions ((first # rest) ! j) (rest ! i)"
      unfolding child_pairs_below cons by auto
    from j(1) that have "(first # rest) ! j \<in> set (take (Suc i) (first # rest))"
      by (auto simp: in_set_conv_nth simp del: take_Suc_Cons intro!: exI [of _ j])
    with j(2) show ?thesis unfolding list_ex_iff take_Suc_Cons by blast
  qed
  have known: "root \<in> me_id ` set sessions" using True by (auto simp: list_ex_iff)
  have "hd ds = root" "distinct ds" using ok unfolding walk_ok_def by blast+
  then have shape: "first = root" "distinct (first # rest)" unfolding cons by simp_all
  have order: "filter (\<lambda>i. \<not> list_ex (\<lambda>p. below sessions p (rest ! i)) (first # take i rest))
      [0..<length rest] = []"
    unfolding filter_empty_conv using parent by simp
  have "set (first # rest) = {x. (below sessions)\<^sup>*\<^sup>* root x}"
    using walk_ok_reaches [OF ok] cons by simp
  with known shape order show ?thesis
    unfolding ds cons list.case by (intro conjI)
qed

subsection \<open>Migrating the index\<close>

definition roots_ok :: "(path \<rightharpoonup> string) \<Rightarrow> project list \<Rightarrow> bool" where
  "roots_ok roots projects = (\<forall>r i. roots r = Some i \<longrightarrow> (\<exists>p\<in>set projects. pj_root p = r \<and> pj_id p = i))"

lemma roots_ok_all: "roots_ok (fold (\<lambda>p m. m(pj_root p \<mapsto> pj_id p)) ps m) (qs @ ps)"
  if "roots_ok m qs" for m qs
  using that
proof (induction ps arbitrary: m qs)
  case (Cons p ps)
  have "roots_ok (m(pj_root p \<mapsto> pj_id p)) (qs @ [p])"
    using Cons.prems by (auto simp: roots_ok_def)
  from Cons.IH [OF this] show ?case by simp
qed simp

text \<open>A session after the migration, given the projects after it.\<close>

definition placed :: "project list \<Rightarrow> project list \<Rightarrow> 'j session_meta \<Rightarrow> 'j session_meta \<Rightarrow> bool" where
  "placed before after s s' = ((has_project before s \<and> s' = s)
     \<or> list_ex (\<lambda>p. s' = s\<lparr>me_project_id := Some (pj_id p)\<rparr> \<and> (pj_root p = me_cwd s \<or> s' = s)) after)"

lemma has_project_append: "has_project ps s \<Longrightarrow> has_project (ps @ qs) s"
  by (auto simp: has_project_def split: option.splits)

lemma has_project_given: "p \<in> set ps \<Longrightarrow> has_project ps (s\<lparr>me_project_id := Some (pj_id p)\<rparr>)"
  by (auto simp: has_project_def list_ex_iff)

lemma placed_given: "p \<in> set ps \<Longrightarrow> pj_root p = me_cwd s \<Longrightarrow>
    placed before ps s (s\<lparr>me_project_id := Some (pj_id p)\<rparr>)"
  by (auto simp: placed_def list_ex_iff)

lemma placed_weaken:
  assumes "placed (before @ [p]) ps x y" "p \<in> set ps"
  shows "placed before ps x y"
proof (cases "has_project before x")
  case True
  with assms show ?thesis by (auto simp: placed_def has_project_append)
next
  case False
  have "x = x\<lparr>me_project_id := Some (pj_id p)\<rparr>" if "has_project (before @ [p]) x"
    using that False by (cases x) (auto simp: has_project_def split: option.splits)
  with assms show ?thesis unfolding placed_def list_ex_iff by metis
qed

lemma migrate_sessions_ok:
  assumes "roots_ok roots projects"
    and "migrate_sessions fresh now roots projects ss = (ps, moved)"
  shows "(\<exists>new. ps = projects @ new) \<and> list_all (has_project ps) moved
    \<and> list_all2 (placed projects ps) ss moved"
  using assms
proof (induction ss arbitrary: roots projects moved)
  case Nil
  then show ?case by simp
next
  case (Cons s ss)
  show ?case
  proof (cases "has_project projects s")
    case True
    with Cons.prems(2) obtain rest where
      rest: "migrate_sessions fresh now roots projects ss = (ps, rest)" "moved = s # rest"
      by (auto split: prod.splits)
    from Cons.IH [OF Cons.prems(1) rest(1)] True rest(2) show ?thesis
      by (auto simp: placed_def has_project_append)
  next
    case False
    show ?thesis
    proof (cases "roots (me_cwd s)")
      case (Some i)
      with False Cons.prems(2) obtain rest where
        rest: "migrate_sessions fresh now roots projects ss = (ps, rest)"
          "moved = s\<lparr>me_project_id := Some i\<rparr> # rest"
        by (auto split: prod.splits)
      from Cons.prems(1) Some obtain p where "p \<in> set projects" "pj_root p = me_cwd s" "pj_id p = i"
        by (auto simp: roots_ok_def)
      note p = this
      note IH = Cons.IH [OF Cons.prems(1) rest(1)]
      then have "p \<in> set ps" using p(1) by auto
      with IH p(2,3) rest(2) show ?thesis
        using placed_given [of p ps s] has_project_given [of p ps s] by auto
    next
      case None
      let ?p = "from_root (fresh (length projects)) now (me_cwd s)"
      from None False Cons.prems(2) obtain rest where
        rest: "migrate_sessions fresh now (roots(me_cwd s \<mapsto> pj_id ?p)) (projects @ [?p]) ss = (ps, rest)"
          "moved = s\<lparr>me_project_id := Some (pj_id ?p)\<rparr> # rest"
        by (auto simp: Let_def split: prod.splits)
      have "roots_ok (roots(me_cwd s \<mapsto> pj_id ?p)) (projects @ [?p])"
        using Cons.prems(1) by (auto simp: roots_ok_def from_root_def)
      note IH = Cons.IH [OF this rest(1)]
      then obtain new where new: "ps = (projects @ [?p]) @ new" by blast
      then have p: "?p \<in> set ps" "pj_root ?p = me_cwd s" by (simp_all add: from_root_def)
      have "list_all2 (placed projects ps) ss rest"
        using IH placed_weaken [OF _ p(1)] by (blast intro: list_all2_mono)
      with IH p rest(2) new show ?thesis
        by (simp add: placed_given has_project_given)
    qed
  qed
qed

lemma migrate_done: "list_all (has_project ps) ss \<Longrightarrow> migrate_sessions fresh now roots ps ss = (ps, ss)"
  by (induction ss) simp_all

text \<open>
  Migrating an index puts every session in a listed project and is idempotent. The listed projects
  stay as they are and new ones follow them; a session that had a listed project is unchanged, any
  other gets one, whose root is the session's working directory (or which it named already), and
  nothing else of it changes.
\<close>

theorem migration_places_every_session:
  "migrate_index fresh' now' (migrate_index fresh now file) = migrate_index fresh now file
   \<and> list_all (has_project (ix_projects (migrate_index fresh now file)))
       (ix_sessions (migrate_index fresh now file))
   \<and> take (length (ix_projects file)) (ix_projects (migrate_index fresh now file)) = ix_projects file
   \<and> list_all2 (placed (ix_projects file) (ix_projects (migrate_index fresh now file)))
       (ix_sessions file) (ix_sessions (migrate_index fresh now file))"
proof -
  let ?roots = "fold (\<lambda>p m. m(pj_root p \<mapsto> pj_id p)) (ix_projects file) Map.empty"
  obtain ps ss where m: "migrate_sessions fresh now ?roots (ix_projects file) (ix_sessions file) = (ps, ss)"
    by fastforce
  have "roots_ok ?roots ([] @ ix_projects file)"
    by (rule roots_ok_all) (simp add: roots_ok_def)
  then have "roots_ok ?roots (ix_projects file)" by simp
  note ok = migrate_sessions_ok [OF this m]
  have file': "migrate_index fresh now file = file\<lparr>ix_projects := ps, ix_sessions := ss\<rparr>"
    by (simp add: migrate_index_def m)
  have "migrate_index fresh' now' (migrate_index fresh now file) = migrate_index fresh now file"
    using ok unfolding file' by (simp add: migrate_index_def migrate_done)
  with ok show ?thesis unfolding file' by auto
qed

end
