(* ===== verification/Thread_Order.thy ===== *)
theory Thread_Order
  imports Session_Meta "HOL-Library.List_Lexorder" "HOL-Library.Char_ord" "HOL-Library.Product_Lexorder"
    "HOL-Library.Multiset"
begin

section \<open>The order of threads\<close>

text \<open>
  \<^verbatim>\<open>crates/core/src/thread_sort.rs\<close>: the sections of the thread list, the order inside each, and the
  keys of the threads arranged by hand. Strings compare by their bytes. An index or a subtraction of
  the code that is out of range is a panic, the value \<^const>\<open>None\<close>. The position of a spread key is
  rounded in \<open>f64\<close> by the code; that rounded product is the parameter \<open>rounded\<close>.
\<close>

subsection \<open>Sections\<close>

datatype ordering = Ord_Less | Ord_Equal | Ord_Greater

definition cmp :: "'a::linorder \<Rightarrow> 'a \<Rightarrow> ordering" where
  "cmp a b = (if a < b then Ord_Less else if a = b then Ord_Equal else Ord_Greater)"

definition then_with :: "ordering \<Rightarrow> ordering \<Rightarrow> ordering" where
  "then_with a b = (case a of Ord_Equal \<Rightarrow> b | _ \<Rightarrow> a)"

datatype thread_section = Section_Pinned | Section_Active | Section_Settled

definition section_rank :: "thread_section \<Rightarrow> nat" where
  "section_rank s = (case s of Section_Pinned \<Rightarrow> 0 | Section_Active \<Rightarrow> 1 | Section_Settled \<Rightarrow> 2)"

lemma section_rank_inj [simp]: "section_rank a = section_rank b \<longleftrightarrow> a = b"
  by (cases a; cases b) (simp_all add: section_rank_def)

instantiation thread_section :: linorder
begin

definition less_eq_thread_section :: "thread_section \<Rightarrow> thread_section \<Rightarrow> bool" where
  "less_eq_thread_section a b = (section_rank a \<le> section_rank b)"

definition less_thread_section :: "thread_section \<Rightarrow> thread_section \<Rightarrow> bool" where
  "less_thread_section a b = (section_rank a < section_rank b)"

instance
proof
  fix a b :: thread_section
  show "a \<le> b \<Longrightarrow> b \<le> a \<Longrightarrow> a = b" by (simp add: less_eq_thread_section_def flip: section_rank_inj)
qed (auto simp: less_eq_thread_section_def less_thread_section_def)

end

definition in_roster :: "'j session_meta \<Rightarrow> bool" where
  "in_roster m = (me_archived_at m = None \<and> \<not> is_subagent m)"

definition section_of :: "'j session_meta \<Rightarrow> thread_section" where
  "section_of m = (if is_settled m then Section_Settled
     else if me_pinned_at m \<noteq> None then Section_Pinned else Section_Active)"

definition settled_timestamp :: "'j session_meta \<Rightarrow> u64" where
  "settled_timestamp m = (case me_settled_at m of Some at \<Rightarrow> at | None \<Rightarrow> me_updated_at m)"

definition last_activity :: "'j session_meta \<Rightarrow> u64" where
  "last_activity m = max (me_updated_at m) (case me_unsettled_at m of Some at \<Rightarrow> at | None \<Rightarrow> 0)"

definition shown_timestamp :: "'j session_meta \<Rightarrow> u64" where
  "shown_timestamp m = (if is_settled m then settled_timestamp m else last_activity m)"

definition compare_threads :: "'j session_meta \<Rightarrow> 'j session_meta \<Rightarrow> ordering" where
  "compare_threads a b = (let sec = section_of a in
     then_with (then_with (cmp sec (section_of b))
       (case sec of
          Section_Settled \<Rightarrow> cmp (settled_timestamp b) (settled_timestamp a)
        | Section_Pinned \<Rightarrow> (case (me_pin_order a, me_pin_order b) of
              (Some x, Some y) \<Rightarrow> cmp x y
            | (Some _, None) \<Rightarrow> Ord_Less
            | (None, Some _) \<Rightarrow> Ord_Greater
            | (None, None) \<Rightarrow> cmp (me_created_at b) (me_created_at a))
        | Section_Active \<Rightarrow> (case (me_active_order a, me_active_order b) of
              (Some x, Some y) \<Rightarrow> cmp x y
            | (Some _, None) \<Rightarrow> Ord_Greater
            | (None, Some _) \<Rightarrow> Ord_Less
            | (None, None) \<Rightarrow> cmp (last_activity b) (last_activity a))))
       (cmp (me_id a) (me_id b)))"

text \<open>\<open>sort_by\<close> is stable: an element goes after those it does not compare less than.\<close>

fun insert_by :: "('a \<Rightarrow> 'a \<Rightarrow> ordering) \<Rightarrow> 'a \<Rightarrow> 'a list \<Rightarrow> 'a list" where
  "insert_by c x [] = [x]"
| "insert_by c x (y # ys) = (if c x y = Ord_Greater then y # insert_by c x ys else x # y # ys)"

definition sort_by :: "('a \<Rightarrow> 'a \<Rightarrow> ordering) \<Rightarrow> 'a list \<Rightarrow> 'a list" where
  "sort_by c xs = foldr (insert_by c) xs []"

definition sort_threads :: "'j session_meta list \<Rightarrow> 'j session_meta list" where
  "sort_threads sessions = sort_by compare_threads sessions"

record 'a thread_sections =
  ts_pinned :: "'a list"
  ts_active :: "'a list"
  ts_settled :: "'a list"

definition sections_section :: "'a thread_sections \<Rightarrow> thread_section \<Rightarrow> 'a list" where
  "sections_section s sec = (case sec of
      Section_Pinned \<Rightarrow> ts_pinned s | Section_Active \<Rightarrow> ts_active s | Section_Settled \<Rightarrow> ts_settled s)"

definition push_section :: "'j session_meta \<Rightarrow> 'j session_meta thread_sections \<Rightarrow>
    'j session_meta thread_sections" where
  "push_section m s = (case section_of m of
      Section_Pinned \<Rightarrow> s\<lparr>ts_pinned := ts_pinned s @ [m]\<rparr>
    | Section_Active \<Rightarrow> s\<lparr>ts_active := ts_active s @ [m]\<rparr>
    | Section_Settled \<Rightarrow> s\<lparr>ts_settled := ts_settled s @ [m]\<rparr>)"

definition partition_threads :: "'j session_meta list \<Rightarrow> 'j session_meta thread_sections" where
  "partition_threads sessions =
     fold push_section sessions \<lparr>ts_pinned = [], ts_active = [], ts_settled = []\<rparr>"

subsection \<open>Order keys\<close>

definition digit_char :: "nat \<Rightarrow> char option" where
  "digit_char d = (if d < 26 then Some (char_of (97 + d)) else None)"

definition char_digit :: "char \<Rightarrow> nat option" where
  "char_digit c = (if 97 \<le> (of_char c :: nat) then Some (of_char c - 97) else None)"

definition is_lower :: "char \<Rightarrow> bool" where
  "is_lower c = (97 \<le> (of_char c :: nat) \<and> (of_char c :: nat) \<le> 122)"

definition valid_order_key :: "string \<Rightarrow> bool" where
  "valid_order_key key = (key \<noteq> [] \<and> list_all is_lower key \<and> last key \<noteq> CHR ''a'')"

text \<open>The length of the common prefix; \<open>a\<close> is padded with \<open>'a'\<close>.\<close>

fun common_len :: "string \<Rightarrow> string \<Rightarrow> nat" where
  "common_len a [] = 0"
| "common_len a (y # ys) =
     (if y = (case a of x # _ \<Rightarrow> x | [] \<Rightarrow> CHR ''a'') then Suc (common_len (drop 1 a) ys) else 0)"

lemma common_len_le: "common_len a b \<le> length b"
  by (induction a b rule: common_len.induct) auto

function midpoint :: "string \<Rightarrow> string \<Rightarrow> string option" where
  "midpoint a b = (let n = common_len a b in
     if 0 < n then map_option (\<lambda>rest. take n b @ rest) (midpoint (drop n a) (drop n b))
     else do {
       digit_a \<leftarrow> (case a of [] \<Rightarrow> Some 0 | x # _ \<Rightarrow> char_digit x);
       digit_b \<leftarrow> (case b of [] \<Rightarrow> Some 26 | y # _ \<Rightarrow> char_digit y);
       (if digit_b < digit_a then None
        else if digit_b - digit_a > 1
        then map_option (\<lambda>c. [c]) (digit_char ((digit_a + digit_b + 1) div 2))
        else if 1 < length b then Some [hd b]
        else do {
          c \<leftarrow> digit_char digit_a;
          map_option (\<lambda>rest. c # rest) (midpoint (drop 1 a) []) }) })"
  by pat_completeness auto
termination
proof (relation "measure (\<lambda>(a, b). length a + length b)")
  show "wf (measure (\<lambda>(a :: string, b :: string). length a + length b))" by simp
next
  fix a b :: string and n
  assume "n = common_len a b" "0 < n"
  with common_len_le [of a b] have "length (drop n b) < length b" "length (drop n a) \<le> length a" by auto
  then show "((drop n a, drop n b), a, b) \<in> measure (\<lambda>(a, b). length a + length b)" by simp
next
  fix a b :: string and n digit_a digit_b c
  assume step: "n = common_len a b" "\<not> 0 < n" "\<not> digit_b - digit_a > 1" "\<not> digit_b < digit_a"
    "(case b of [] \<Rightarrow> Some 26 | y # _ \<Rightarrow> char_digit y) = Some digit_b"
    "(case a of [] \<Rightarrow> Some 0 | x # _ \<Rightarrow> char_digit x) = Some digit_a"
  then have "a \<noteq> [] \<or> b \<noteq> []" by auto
  then show "((drop 1 a, []), a, b) \<in> measure (\<lambda>(a, b). length a + length b)"
    by (cases a; cases b) auto
qed

declare midpoint.simps [simp del]

definition order_key_between :: "string option \<Rightarrow> string option \<Rightarrow> string option option" where
  "order_key_between before after = (
     let a = (case before of Some k \<Rightarrow> k | None \<Rightarrow> []);
         b = (case after of Some k \<Rightarrow> k | None \<Rightarrow> [])
     in if a \<noteq> [] \<and> \<not> valid_order_key a \<or> b \<noteq> [] \<and> \<not> valid_order_key b \<or> b \<noteq> [] \<and> b \<le> a
        then Some None else map_option Some (midpoint a b))"

subsection \<open>A key between two keys\<close>

lemma char_less: "c < d \<longleftrightarrow> (of_char c :: nat) < of_char d" for c d :: char
  by (simp add: less_char_def)

lemma of_char_digit: "d < 26 \<Longrightarrow> (of_char (char_of (97 + d) :: char) :: nat) = 97 + d"
  by simp

lemma digit_a: "d < (26 :: nat) \<Longrightarrow> char_of (97 + d) \<noteq> CHR ''a'' \<longleftrightarrow> 0 < d"
proof
  assume d: "d < 26" "0 < d"
  show "char_of (97 + d) \<noteq> CHR ''a''"
  proof
    assume "char_of (97 + d) = CHR ''a''"
    then have "(of_char (char_of (97 + d) :: char) :: nat) = of_char CHR ''a''" by simp
    with d show False by simp
  qed
next
  assume "char_of (97 + d) \<noteq> CHR ''a''"
  moreover have "char_of (97 :: nat) = CHR ''a''"
    using char_of_char [of "CHR ''a''"] by simp
  ultimately show "0 < d" by (cases "d = 0") simp_all
qed

lemma is_lower_digit: "is_lower c \<Longrightarrow> \<exists>d<26. char_digit c = Some d \<and> c = char_of (97 + d)"
  by (rule exI [of _ "of_char c - 97"]) (auto simp: is_lower_def char_digit_def)

lemma midpoint_same:
  assumes "y = (case a of x # _ \<Rightarrow> x | [] \<Rightarrow> CHR ''a'')"
  shows "midpoint a (y # ys) = map_option ((#) y) (midpoint (drop 1 a) ys)"
proof (cases "0 < common_len (drop 1 a) ys")
  case True
  let ?k = "common_len (drop 1 a) ys"
  have n: "common_len a (y # ys) = Suc ?k" using assms by simp
  have "midpoint (drop 1 a) ys
      = map_option (\<lambda>rest. take ?k ys @ rest) (midpoint (drop ?k (drop 1 a)) (drop ?k ys))"
    using True by (subst midpoint.simps) (simp only: Let_def if_True)
  moreover have "midpoint a (y # ys)
      = map_option (\<lambda>rest. take (Suc ?k) (y # ys) @ rest) (midpoint (drop (Suc ?k) a) (drop (Suc ?k) (y # ys)))"
    by (subst midpoint.simps) (simp only: Let_def n zero_less_Suc if_True)
  ultimately show ?thesis by (simp add: option.map_comp o_def)
next
  case False
  have "common_len a (y # ys) = Suc 0" using assms False by simp
  then show ?thesis
    by (subst midpoint.simps) (simp add: Let_def append_Cons [abs_def] del: common_len.simps)
qed

definition between :: "string \<Rightarrow> string \<Rightarrow> string \<Rightarrow> bool" where
  "between a b key = (valid_order_key key \<and> a < key \<and> (b = [] \<or> key < b))"

definition bounds_ok :: "string \<Rightarrow> string \<Rightarrow> bool" where
  "bounds_ok a b = (list_all is_lower a \<and> list_all is_lower b
     \<and> (b = [] \<or> a < b \<and> last b \<noteq> CHR ''a''))"

lemma valid_Cons: "is_lower c \<Longrightarrow> valid_order_key key \<Longrightarrow> valid_order_key (c # key)"
  by (simp add: valid_order_key_def)

lemma midpoint_shared:
  assumes "bounds_ok a (y # ys)" "y = (case a of x # _ \<Rightarrow> x | [] \<Rightarrow> CHR ''a'')"
  shows "bounds_ok (drop 1 a) ys \<and> (between (drop 1 a) ys key \<longrightarrow> between a (y # ys) (y # key))"
proof -
  have "ys \<noteq> []" using assms by (cases a) (auto simp: bounds_ok_def)
  with assms show ?thesis
    by (cases a; cases ys) (auto simp: bounds_ok_def between_def valid_Cons)
qed

text \<open>The first digits differ: the bound above starts higher.\<close>

lemma midpoint_split:
  assumes ok: "bounds_ok a b" and apart: "common_len a b = 0"
  shows "\<exists>da db. (case a of [] \<Rightarrow> Some 0 | x # _ \<Rightarrow> char_digit x) = Some da \<and> da < 26
    \<and> (case b of [] \<Rightarrow> Some 26 | y # _ \<Rightarrow> char_digit y) = Some db \<and> da < db \<and> db \<le> 26
    \<and> (a \<noteq> [] \<longrightarrow> hd a = char_of (97 + da)) \<and> (b \<noteq> [] \<longrightarrow> hd b = char_of (97 + db))
    \<and> (a = [] \<longrightarrow> da = 0)"
proof -
  have low: "is_lower x" if "x \<in> set a \<union> set b" for x
    using ok that by (auto simp: bounds_ok_def list_all_iff)
  obtain da where da: "(case a of [] \<Rightarrow> Some 0 | x # _ \<Rightarrow> char_digit x) = Some da" "da < 26"
    "a \<noteq> [] \<longrightarrow> hd a = char_of (97 + da)" "a = [] \<longrightarrow> da = 0"
    using is_lower_digit [of "hd a"] low by (cases a) auto
  obtain db where db: "(case b of [] \<Rightarrow> Some 26 | y # _ \<Rightarrow> char_digit y) = Some db" "db \<le> 26"
    "b \<noteq> [] \<longrightarrow> hd b = char_of (97 + db) \<and> db < 26" "b = [] \<longrightarrow> db = 26"
    using is_lower_digit [of "hd b"] low by (cases b) auto
  have "da < db"
  proof (cases b)
    case Nil
    with da db show ?thesis by simp
  next
    case (Cons y ys)
    with apart ok have "y \<noteq> (case a of x # _ \<Rightarrow> x | [] \<Rightarrow> CHR ''a'')" "a < y # ys"
      by (auto simp: bounds_ok_def split: if_splits)
    then have "(case a of x # _ \<Rightarrow> x | [] \<Rightarrow> CHR ''a'') < y \<or> a = [] \<and> y \<noteq> CHR ''a''"
      by (cases a) auto
    then show ?thesis
    proof
      assume "a = [] \<and> y \<noteq> CHR ''a''"
      with Cons da db have "0 < db" using digit_a [of db] by auto
      with \<open>a = [] \<and> y \<noteq> CHR ''a''\<close> da(4) show ?thesis by simp
    next
      assume "(case a of x # _ \<Rightarrow> x | [] \<Rightarrow> CHR ''a'') < y"
      with Cons da db show ?thesis by (cases a) (auto simp: char_less)
    qed
  qed
  with da db show ?thesis by blast
qed

lemma midpoint_between: "bounds_ok a b \<Longrightarrow> \<exists>key. midpoint a b = Some key \<and> between a b key"
proof (induction "length a + length b" arbitrary: a b rule: less_induct)
  case less
  show ?case
  proof (cases "common_len a b = 0")
    case False
    then obtain y ys where b: "b = y # ys" and y: "y = (case a of x # _ \<Rightarrow> x | [] \<Rightarrow> CHR ''a'')"
      by (cases b) (auto split: if_splits)
    with midpoint_shared [of a y ys] less.prems have ok: "bounds_ok (drop 1 a) ys" by simp
    have "length (drop 1 a) + length ys < length a + length b" using b by simp
    from less.hyps [OF this ok] obtain key where "midpoint (drop 1 a) ys = Some key"
      "between (drop 1 a) ys key" by blast
    with midpoint_same [OF y] midpoint_shared [of a y ys key] less.prems y show ?thesis
      unfolding b by auto
  next
    case True
    from midpoint_split [OF less.prems True] obtain da db where
      da: "(case a of [] \<Rightarrow> Some 0 | x # _ \<Rightarrow> char_digit x) = Some da" "da < 26"
        "a \<noteq> [] \<longrightarrow> hd a = char_of (97 + da)" "a = [] \<longrightarrow> da = 0"
      and db: "(case b of [] \<Rightarrow> Some 26 | y # _ \<Rightarrow> char_digit y) = Some db" "db \<le> 26"
        "b \<noteq> [] \<longrightarrow> hd b = char_of (97 + db)"
      and lt: "da < db" by blast
    have dc: "digit_char d = Some (char_of (97 + d))" if "d < 26" for d
      using that by (simp add: digit_char_def)
    have unfolded: "midpoint a b = (if db - da > 1
        then map_option (\<lambda>c. [c]) (digit_char ((da + db + 1) div 2))
        else if 1 < length b then Some [hd b]
        else map_option (\<lambda>rest. char_of (97 + da) # rest) (midpoint (drop 1 a) []))"
      using lt by (subst midpoint.simps) (simp add: True da db dc)
    consider (wide) "db - da > 1" | (long) "db = Suc da" "1 < length b"
      | (short) "db = Suc da" "length b \<le> 1" using lt by linarith
    then show ?thesis
    proof cases
      case wide
      let ?d = "(da + db + 1) div 2"
      have d: "da < ?d" "?d < db" using wide by auto
      then have "?d < 26" "0 < ?d" using db(2) by auto
      then have "char_of (97 + ?d) \<noteq> CHR ''a''" "is_lower (char_of (97 + ?d))"
        using digit_a [of ?d] by (simp_all add: is_lower_def)
      then have "between a b [char_of (97 + ?d)]"
        using d da db \<open>?d < 26\<close> unfolding between_def valid_order_key_def
        by (cases a; cases b) (auto simp: char_less)
      with wide \<open>?d < 26\<close> show ?thesis unfolding unfolded by (simp add: dc)
    next
      case long
      then obtain y z zs where b: "b = y # z # zs" by (cases b; cases "tl b") auto
      have "is_lower y" using less.prems b by (simp add: bounds_ok_def)
      with db(1) b have "db < 26" by (auto simp: char_digit_def is_lower_def split: if_splits)
      then have "y \<noteq> CHR ''a''" using digit_a [of db] db(3) b lt by simp
      then have "between a b [y]"
        using long(1) da db b less.prems unfolding between_def valid_order_key_def
        by (cases a) (auto simp: bounds_ok_def char_less)
      with long b show ?thesis unfolding unfolded by simp
    next
      case short
      have "a \<noteq> [] \<or> b \<noteq> []" using short(1) da(4) db(1) by auto
      then have "length (drop 1 a) + length ([] :: string) < length a + length b" by (cases a; cases b) auto
      moreover have "bounds_ok (drop 1 a) []"
        using less.prems by (cases a) (auto simp: bounds_ok_def)
      ultimately obtain key where key: "midpoint (drop 1 a) [] = Some key" "between (drop 1 a) [] key"
        using less.hyps by blast
      have "is_lower (char_of (97 + da))" using da(2) by (simp add: is_lower_def)
      then have "between a b (char_of (97 + da) # key)"
        using key(2) da db short lt by (cases a; cases b) (auto simp: between_def valid_Cons char_less)
      with short key(1) show ?thesis unfolding unfolded by simp
    qed
  qed
qed

text \<open>The bounds of a move: an absent or empty key is open.\<close>

definition bound :: "string option \<Rightarrow> string" where
  "bound k = (case k of Some key \<Rightarrow> key | None \<Rightarrow> [])"

definition usable :: "string option \<Rightarrow> string option \<Rightarrow> bool" where
  "usable before after = ((bound before = [] \<or> valid_order_key (bound before))
     \<and> (bound after = [] \<or> valid_order_key (bound after) \<and> bound before < bound after))"

lemma usable_bounds: "usable before after \<Longrightarrow> bounds_ok (bound before) (bound after)"
  by (auto simp: usable_def bounds_ok_def valid_order_key_def)

lemma order_key_cases:
  "order_key_between before after =
     (if usable before after then map_option Some (midpoint (bound before) (bound after)) else Some None)"
proof -
  have "\<not> usable before after \<longleftrightarrow> bound before \<noteq> [] \<and> \<not> valid_order_key (bound before)
      \<or> bound after \<noteq> [] \<and> \<not> valid_order_key (bound after)
      \<or> bound after \<noteq> [] \<and> bound after \<le> bound before"
    by (auto simp: usable_def)
  then show ?thesis
    by (cases "usable before after"; cases "bound after = []"; cases "bound before = []")
      (auto simp: order_key_between_def bound_def [symmetric] Let_def)
qed

lemma order_key_found:
  assumes "usable before after"
  obtains key where "order_key_between before after = Some (Some key)"
    "between (bound before) (bound after) key"
  using midpoint_between [OF usable_bounds [OF assms]] assms by (auto simp: order_key_cases)

lemma order_key_later:
  assumes "order_key_between before after = Some (Some key)"
  shows "bound before < key" "usable before after" "between (bound before) (bound after) key"
proof -
  show use: "usable before after" using assms by (auto simp: order_key_cases split: if_splits)
  from order_key_found [OF use] assms show b: "between (bound before) (bound after) key"
    by (metis option.inject)
  then show "bound before < key" by (simp add: between_def)
qed

text \<open>
  C12: A key between two neighbours. \<open>order_key_between\<close> never panics, whatever its bounds; it answers
  no key exactly when a bound is corrupt or the bounds are not in order, and any key it answers is
  well formed and strictly between the bounds (an absent or empty bound is open).
\<close>

theorem a_key_fits_between_neighbours:
  "case order_key_between before after of
     None \<Rightarrow> False
   | Some None \<Rightarrow> \<not> usable before after
   | Some (Some key) \<Rightarrow> usable before after \<and> valid_order_key key \<and> bound before < key
       \<and> (bound after = [] \<or> key < bound after)"
proof (cases "usable before after")
  case True
  from order_key_found [OF True] obtain key where
    "order_key_between before after = Some (Some key)" "between (bound before) (bound after) key" .
  with True show ?thesis by (simp add: between_def)
next
  case False
  then show ?thesis by (simp add: order_key_cases)
qed

subsection \<open>Planning a move\<close>

function spread_width :: "nat \<Rightarrow> nat \<Rightarrow> nat" where
  "spread_width many width =
     (if 26 ^ width \<le> (many + 1) * 2 then spread_width many (Suc width) else width)"
  by pat_completeness auto
termination
proof (relation "measure (\<lambda>(many, width). (many + 1) * 2 + 1 - 26 ^ width)")
  fix many width :: nat
  assume "26 ^ width \<le> (many + 1) * 2"
  moreover have "(26 :: nat) ^ width < 26 ^ Suc width" by simp
  ultimately show "((many, Suc width), many, width)
      \<in> measure (\<lambda>(many, width). (many + 1) * 2 + 1 - 26 ^ width)"
    by (simp only: in_measure split_conv)
qed simp

declare spread_width.simps [simp del]

primrec key_digits :: "nat \<Rightarrow> nat \<Rightarrow> string" where
  "key_digits 0 v = []"
| "key_digits (Suc w) v = key_digits w (v div 26) @ [char_of (97 + v mod 26)]"

text \<open>\<open>rounded space many index\<close> is \<open>(space / (many + 1) * index).round()\<close> in \<open>f64\<close>.\<close>

definition spread_order_keys :: "(nat \<Rightarrow> nat \<Rightarrow> nat \<Rightarrow> nat) \<Rightarrow> nat \<Rightarrow> string list" where
  "spread_order_keys rounded many = (
     let width = spread_width many 2
     in map (\<lambda>i. let v = rounded (26 ^ width) many i
          in key_digits width (if v mod 26 = 0 then v + 1 else v)) [1..<Suc many])"

text \<open>The loop that steps over keys of threads that are not listed.\<close>

function free_key :: "string list \<Rightarrow> string option \<Rightarrow> string option \<Rightarrow> string option option" where
  "free_key hidden after key = (case key of
      None \<Rightarrow> Some None
    | Some found \<Rightarrow> if found \<in> set hidden
        then (case order_key_between (Some found) after of
            None \<Rightarrow> None
          | Some next_key \<Rightarrow> free_key hidden after next_key)
        else Some (Some found))"
  by pat_completeness auto
termination
proof (relation "measure (\<lambda>(hidden, after, key). case key of
    None \<Rightarrow> 0 | Some found \<Rightarrow> Suc (card {h \<in> set hidden. found \<le> h}))")
  fix hidden :: "string list" and after key :: "string option" and found next_key
  assume step: "key = Some found" "found \<in> set hidden"
    "order_key_between (Some found) after = Some next_key"
  show "((hidden, after, next_key), hidden, after, key) \<in> measure (\<lambda>(hidden, after, key). case key of
      None \<Rightarrow> 0 | Some found \<Rightarrow> Suc (card {h \<in> set hidden. found \<le> h}))"
  proof (cases next_key)
    case None
    with step show ?thesis by simp
  next
    case (Some later)
    with step(3) order_key_later(1) [of "Some found" after later] have "found < later"
      by (simp add: bound_def)
    then have "{h \<in> set hidden. later \<le> h} \<subset> {h \<in> set hidden. found \<le> h}"
    proof (intro psubsetI subsetI notI)
      assume "{h \<in> set hidden. later \<le> h} = {h \<in> set hidden. found \<le> h}"
      moreover have "found \<in> {h \<in> set hidden. found \<le> h}" using step(2) by simp
      ultimately have "later \<le> found" by blast
      with \<open>found < later\<close> show False by simp
    qed (use \<open>found < later\<close> in auto)
    then have "card {h \<in> set hidden. later \<le> h} < card {h \<in> set hidden. found \<le> h}"
      by (intro psubset_card_mono) simp_all
    with step(1) Some show ?thesis by simp
  qed
qed simp

declare free_key.simps [simp del]

definition respread :: "(nat \<Rightarrow> nat \<Rightarrow> nat \<Rightarrow> nat) \<Rightarrow> (string \<times> string option) list \<Rightarrow> string list \<Rightarrow>
    (string \<times> string) list" where
  "respread rounded ordered hidden = (
     let keys = filter (\<lambda>k. k \<notin> set hidden)
           (spread_order_keys rounded (length ordered + card (set hidden)))
     in map (\<lambda>((thread, _), key). (thread, key))
          (filter (\<lambda>((_, current), key). current \<noteq> Some key) (zip ordered keys)))"

definition plan_reorder :: "(nat \<Rightarrow> nat \<Rightarrow> nat \<Rightarrow> nat) \<Rightarrow> (string \<times> string option) list \<Rightarrow> string list \<Rightarrow>
    string \<Rightarrow> (string \<times> string) list option" where
  "plan_reorder rounded ordered hidden moved = (case position (\<lambda>e. fst e = moved) ordered of
      None \<Rightarrow> Some []
    | Some i \<Rightarrow>
        let before = (if i = 0 then None else Some (snd (ordered ! (i - 1))));
            after = (if i + 1 < length ordered then Some (snd (ordered ! (i + 1))) else None)
        in if before \<noteq> Some None \<and> after \<noteq> Some None
           then do {
             first \<leftarrow> order_key_between (Option.bind before id) (Option.bind after id);
             key \<leftarrow> free_key hidden (Option.bind after id) first;
             Some (case key of Some k \<Rightarrow> [(moved, k)] | None \<Rightarrow> respread rounded ordered hidden) }
           else Some (respread rounded ordered hidden))"

subsection \<open>A move between keyed neighbours writes one key\<close>

lemma free_key_between:
  assumes "between lo (bound after) k" "bound after = [] \<or> valid_order_key (bound after)"
  shows "\<exists>k'. free_key hidden after (Some k) = Some (Some k') \<and> between lo (bound after) k' \<and> k' \<notin> set hidden"
proof -
  have "\<exists>k'. free_key hidden after key = Some (Some k') \<and> between lo (bound after) k' \<and> k' \<notin> set hidden"
    if "key = Some k" "between lo (bound after) k" "bound after = [] \<or> valid_order_key (bound after)"
    for key k
    using that
  proof (induction hidden after key arbitrary: k rule: free_key.induct)
    case (1 hidden after key)
    show ?case
    proof (cases "k \<in> set hidden")
      case False
      with 1 show ?thesis by (subst free_key.simps) simp
    next
      case True
      from 1 have "usable (Some k) after" by (auto simp: usable_def bound_def between_def)
      from order_key_found [OF this] obtain next_key where
        found: "order_key_between (Some k) after = Some (Some next_key)"
          "between (bound (Some k)) (bound after) next_key" .
      then have "between lo (bound after) next_key"
        using "1.prems"(2) by (auto simp: between_def bound_def)
      from "1.IH" [OF "1.prems"(1) True found(1) refl this "1.prems"(3)]
      have "\<exists>k'. free_key hidden after (Some next_key) = Some (Some k')
          \<and> between lo (bound after) k' \<and> k' \<notin> set hidden" .
      moreover have "free_key hidden after key = free_key hidden after (Some next_key)"
        using "1.prems"(1) True found(1) by (subst free_key.simps) simp
      ultimately show ?thesis by simp
    qed
  qed
  with assms show ?thesis by blast
qed

definition key_before :: "(string \<times> string option) list \<Rightarrow> nat \<Rightarrow> string option" where
  "key_before ordered i = (if i = 0 then None else snd (ordered ! (i - 1)))"

definition key_after :: "(string \<times> string option) list \<Rightarrow> nat \<Rightarrow> string option" where
  "key_after ordered i = (if i + 1 < length ordered then snd (ordered ! (i + 1)) else None)"

text \<open>
  C37: A move between neighbours that have keys, in order and well formed, writes one key to the moved
  thread alone; the key is well formed, strictly between the neighbours' keys (or past the end of
  the section) and not the key of a thread that is not listed. So the search over hidden keys ends.
\<close>

theorem a_move_writes_one_key:
  assumes "position (\<lambda>e. fst e = moved) ordered = Some i"
    and "i = 0 \<or> key_before ordered i \<noteq> None"
    and "i + 1 = length ordered \<or> key_after ordered i \<noteq> None"
    and "usable (key_before ordered i) (key_after ordered i)"
  shows "\<exists>key. plan_reorder rounded ordered hidden moved = Some [(moved, key)]
    \<and> valid_order_key key \<and> bound (key_before ordered i) < key
    \<and> (bound (key_after ordered i) = [] \<or> key < bound (key_after ordered i)) \<and> key \<notin> set hidden"
proof -
  have i: "i < length ordered" using position_less [OF assms(1)] .
  from order_key_found [OF assms(4)] obtain first where
    first: "order_key_between (key_before ordered i) (key_after ordered i) = Some (Some first)"
      "between (bound (key_before ordered i)) (bound (key_after ordered i)) first" .
  moreover have "bound (key_after ordered i) = [] \<or> valid_order_key (bound (key_after ordered i))"
    using assms(4) by (auto simp: usable_def)
  ultimately obtain key where
    key: "free_key hidden (key_after ordered i) (Some first) = Some (Some key)"
      "between (bound (key_before ordered i)) (bound (key_after ordered i)) key" "key \<notin> set hidden"
    using free_key_between by blast
  let ?before = "if i = 0 then None else Some (snd (ordered ! (i - 1)))"
  let ?after = "if i + 1 < length ordered then Some (snd (ordered ! (i + 1))) else None"
  have "?before \<noteq> Some None" "Option.bind ?before id = key_before ordered i"
    using assms(2) by (auto simp: key_before_def)
  moreover have "?after \<noteq> Some None" "Option.bind ?after id = key_after ordered i"
    using assms(3) i by (auto simp: key_after_def)
  ultimately have "plan_reorder rounded ordered hidden moved = Some [(moved, key)]"
    unfolding plan_reorder_def assms(1) Let_def option.case using first(1) key(1) by simp
  with key(2,3) show ?thesis by (auto simp: between_def)
qed

lemma a_move_writes_one_key_witness:
  "\<exists>key. plan_reorder (\<lambda>_ _ _. 0) [(''a'', Some ''f''), (''m'', None), (''b'', Some ''t'')] [''m''] ''m''
     = Some [(''m'', key)] \<and> valid_order_key key \<and> ''f'' < key \<and> key < ''t'' \<and> key \<noteq> ''m''"
  using a_move_writes_one_key [of "''m''" "[(''a'', Some ''f''), (''m'', None), (''b'', Some ''t'')]" 1
      "\<lambda>_ _ _. 0" "[''m'']"]
  by (simp add: key_before_def key_after_def usable_def bound_def valid_order_key_def is_lower_def
      less_char_def)

subsection \<open>Fresh keys for a section\<close>

text \<open>What the code relies on of the rounded positions: two apart, and inside the space.\<close>

definition spaced :: "(nat \<Rightarrow> nat \<Rightarrow> nat \<Rightarrow> nat) \<Rightarrow> nat \<Rightarrow> bool" where
  "spaced rounded many = (let space = 26 ^ spread_width many 2 in
     (\<forall>i\<in>{1..<many}. rounded space many i + 2 \<le> rounded space many (Suc i))
     \<and> (1 \<le> many \<longrightarrow> 1 \<le> rounded space many 1 \<and> rounded space many many + 1 < space))"

lemma length_key_digits [simp]: "length (key_digits w v) = w"
  by (induction w arbitrary: v) simp_all

lemma key_digits_lower: "list_all is_lower (key_digits w v)"
  by (induction w arbitrary: v) (auto simp: is_lower_def)

lemma less_append: "(ps @ xs < ps @ ys) = (xs < (ys :: string))"
  by (induction ps) simp_all

lemma append_less: "length xs = length ys \<Longrightarrow> xs < ys \<Longrightarrow> xs @ zs < ys @ (ws :: string)"
  by (induction xs ys rule: list_induct2) auto

lemma key_digits_less: "v < w \<Longrightarrow> w < 26 ^ n \<Longrightarrow> key_digits n v < key_digits n w"
proof (induction n arbitrary: v w)
  case (Suc n)
  show ?case
  proof (cases "v div 26 < w div 26")
    case True
    moreover have "w div 26 < 26 ^ n" using Suc.prems(2) by (simp add: less_mult_imp_div_less mult.commute)
    ultimately show ?thesis using Suc.IH by (simp add: append_less)
  next
    case False
    have "v div 26 \<le> w div 26" using Suc.prems(1) by (simp add: div_le_mono)
    with False have same: "v div 26 = w div 26" by simp
    then have "v mod 26 < w mod 26"
      using Suc.prems(1) by (metis div_mult_mod_eq nat_add_left_cancel_less)
    moreover have "w mod 26 < 26" by simp
    ultimately have "(char_of (97 + v mod 26) :: char) < char_of (97 + w mod 26)"
      by (simp add: char_less)
    with same show ?thesis by (simp add: less_append)
  qed
qed simp

lemma key_digits_valid: "v mod 26 \<noteq> 0 \<Longrightarrow> 0 < w \<Longrightarrow> valid_order_key (key_digits w v)"
proof (cases w)
  case (Suc n)
  assume "v mod 26 \<noteq> 0"
  with digit_a [of "v mod 26"] have "char_of (97 + v mod 26) \<noteq> CHR ''a''" by simp
  with Suc key_digits_lower [of w v] show ?thesis by (simp add: valid_order_key_def)
qed simp

lemma spread_width_ge: "w \<le> spread_width many w"
proof (induction many w rule: spread_width.induct)
  case (1 many width)
  then show ?case by (subst spread_width.simps) auto
qed

definition bumped :: "nat \<Rightarrow> nat" where
  "bumped v = (if v mod 26 = 0 then v + 1 else v)"

lemma spread_sorted:
  assumes "spaced rounded many"
  shows "sorted_wrt (<) (spread_order_keys rounded many)
    \<and> list_all valid_order_key (spread_order_keys rounded many)
    \<and> length (spread_order_keys rounded many) = many"
proof -
  let ?w = "spread_width many 2"
  let ?r = "\<lambda>i. rounded (26 ^ ?w) many i"
  have keys: "spread_order_keys rounded many = map (\<lambda>i. key_digits ?w (bumped (?r i))) [1..<Suc many]"
    by (simp add: spread_order_keys_def bumped_def Let_def)
  have gap: "?r i + 2 \<le> ?r (Suc i)" if "1 \<le> i" "i < many" for i
    using assms that by (simp add: spaced_def Let_def)
  have apart: "?r i + 2 \<le> ?r j" if "i < j" "1 \<le> i" "j \<le> many" for i j
    using that
  proof (induction j)
    case (Suc j)
    show ?case
    proof (cases "i = j")
      case True
      with gap [of i] Suc.prems show ?thesis by simp
    next
      case False
      with Suc have "?r i + 2 \<le> ?r j" by simp
      with gap [of j] Suc.prems False show ?thesis by simp
    qed
  qed simp
  have top_key: "bumped (?r j) < 26 ^ ?w" if "1 \<le> j" "j \<le> many" for j
  proof -
    have "?r j \<le> ?r many" using apart [of j many] that by (cases "j = many") auto
    moreover have "?r many + 1 < 26 ^ ?w" using assms that by (simp add: spaced_def Let_def)
    ultimately show ?thesis by (simp add: bumped_def)
  qed
  have "key_digits ?w (bumped (?r i)) < key_digits ?w (bumped (?r j))"
    if "i < j" "1 \<le> i" "j \<le> many" for i j
    using apart [OF that] top_key [of j] that by (intro key_digits_less) (auto simp: bumped_def)
  then have "sorted_wrt (<) (spread_order_keys rounded many)"
    unfolding keys sorted_wrt_map by (auto simp: sorted_wrt_iff_nth_less simp del: upt_Suc)
  moreover have "bumped v mod 26 \<noteq> 0" for v
  proof -
    have "Suc v mod 26 = 1" if "v mod 26 = 0" using that mod_Suc_eq [of v 26] by simp
    then show ?thesis by (simp add: bumped_def)
  qed
  then have "list_all valid_order_key (spread_order_keys rounded many)"
    unfolding keys using spread_width_ge [of 2 many]
    by (auto simp: list_all_iff key_digits_valid simp del: upt_Suc)
  ultimately show ?thesis by (simp add: keys del: upt_Suc)
qed

definition key_now :: "(string \<times> string) list \<Rightarrow> string \<times> string option \<Rightarrow> string option" where
  "key_now writes e = (case map_of writes (fst e) of Some key \<Rightarrow> Some key | None \<Rightarrow> snd e)"

lemma writes_apply:
  assumes "distinct (map fst ordered)" "length ordered \<le> length keys"
  shows "map (key_now (map (\<lambda>((thread, _), key). (thread, key))
      (filter (\<lambda>((_, current), key). current \<noteq> Some key) (zip ordered keys)))) ordered
    = map Some (take (length ordered) keys)"
  using assms
proof (induction ordered arbitrary: keys)
  case (Cons e ordered)
  obtain thread current where e: "e = (thread, current)" by (cases e)
  from Cons.prems(2) obtain key keys' where k: "keys = key # keys'" by (cases keys) auto
  let ?writes = "\<lambda>es ks. map (\<lambda>((thread, _), key). (thread, key))
      (filter (\<lambda>((_, current), key). current \<noteq> Some key) (zip es ks))"
  have sub: "fst ` set (?writes es ks) \<subseteq> fst ` set es" for es ks
  proof
    fix x
    assume "x \<in> fst ` set (?writes es ks)"
    then obtain c k where "((x, c), k) \<in> set (zip es ks)" by auto
    from set_zip_leftD [OF this] show "x \<in> fst ` set es" by force
  qed
  have fresh: "thread \<notin> fst ` set ordered" using Cons.prems(1) e by simp
  then have none: "map_of (?writes ordered keys') thread = None"
    using sub [of ordered keys'] unfolding map_of_eq_None_iff by blast
  have rest: "key_now (?writes (e # ordered) keys) x = key_now (?writes ordered keys') x"
    if "x \<in> set ordered" for x
    using fresh that e k by (auto simp: key_now_def)
  have "key_now (?writes (e # ordered) keys) e = Some key"
    using none e k by (simp add: key_now_def)
  with rest Cons.IH [of keys'] Cons.prems k show ?case by (simp cong: map_cong)
qed simp

lemma filter_hidden_length: "distinct xs \<Longrightarrow> length xs \<le> length (filter (\<lambda>x. x \<notin> set hs) xs) + card (set hs)"
proof -
  assume d: "distinct xs"
  have "length xs = length (filter (\<lambda>x. x \<notin> set hs) xs) + length (filter (\<lambda>x. x \<in> set hs) xs)"
    using sum_length_filter_compl [of "\<lambda>x. x \<in> set hs" xs] by simp
  moreover have "length (filter (\<lambda>x. x \<in> set hs) xs) = card (set (filter (\<lambda>x. x \<in> set hs) xs))"
    using d by (intro distinct_card [symmetric]) simp
  moreover have "card (set (filter (\<lambda>x. x \<in> set hs) xs)) \<le> card (set hs)"
    by (rule card_mono) auto
  ultimately show ?thesis by linarith
qed

text \<open>
  When a move gives the whole section fresh keys, the listed threads end up in exactly the order
  asked for: after the writes each has a well-formed key, the keys ascend strictly in that order, and
  none is the key of a thread that is not listed.
\<close>

theorem fresh_keys_put_a_section_in_order:
  assumes "spaced rounded (length ordered + card (set hidden))" and "distinct (map fst ordered)"
  shows "\<exists>keys. map (key_now (respread rounded ordered hidden)) ordered = map Some keys
    \<and> sorted_wrt (<) keys \<and> list_all valid_order_key keys \<and> set keys \<inter> set hidden = {}"
proof -
  let ?all = "spread_order_keys rounded (length ordered + card (set hidden))"
  let ?free = "filter (\<lambda>k. k \<notin> set hidden) ?all"
  let ?keys = "take (length ordered) ?free"
  note all = spread_sorted [OF assms(1)]
  then have "distinct ?all" using strict_sorted_iff by blast
  with filter_hidden_length [of ?all hidden] all have "length ordered \<le> length ?free" by linarith
  from writes_apply [OF assms(2) this]
  have "map (key_now (respread rounded ordered hidden)) ordered = map Some ?keys"
    by (simp add: respread_def Let_def)
  moreover have "sorted_wrt (<) ?keys" using all by (simp add: sorted_wrt_filter sorted_wrt_take)
  moreover have "set ?keys \<subseteq> set ?free" by (rule set_take_subset)
  ultimately show ?thesis using all by (intro exI [of _ ?keys]) (auto simp: list_all_iff)
qed

lemma fresh_keys_put_a_section_in_order_witness:
  "\<exists>keys. map (key_now (respread (\<lambda>space many i. space * i div (many + 1))
      [(''c'', None), (''a'', None)] [])) [(''c'', None), (''a'', None)] = map Some keys
    \<and> sorted_wrt (<) keys \<and> length keys = 2"
proof -
  have "spread_width 2 2 = 2" by (subst spread_width.simps) simp
  moreover have "{1..<2} = {1 :: nat}" by auto
  ultimately have "spaced (\<lambda>space many i. space * i div (many + 1)) 2"
    by (simp add: spaced_def Let_def)
  then have "spaced (\<lambda>space many i. space * i div (many + 1))
      (length [(''c'', None :: string option), (''a'', None)] + card (set ([] :: string list)))"
    by (simp add: numeral_2_eq_2)
  moreover have "distinct (map fst [(''c'', None :: string option), (''a'', None)])" by simp
  ultimately obtain keys where
    keys: "map (key_now (respread (\<lambda>space many i. space * i div (many + 1))
      [(''c'', None), (''a'', None)] [])) [(''c'', None), (''a'', None)] = map Some keys"
    "sorted_wrt (<) keys" using fresh_keys_put_a_section_in_order by blast
  from arg_cong [OF keys(1), of length] have "length keys = 2" by simp
  with keys show ?thesis by blast
qed

subsection \<open>One order for every client\<close>

text \<open>The order as a key: section, arranged or not, order key, time, id.\<close>

definition thread_key :: "'j session_meta \<Rightarrow> nat \<times> nat \<times> string \<times> int \<times> string" where
  "thread_key m = (case section_of m of
      Section_Settled \<Rightarrow> (2, 0, [], - uint (settled_timestamp m), me_id m)
    | Section_Pinned \<Rightarrow> (case me_pin_order m of
          Some key \<Rightarrow> (0, 0, key, 0, me_id m)
        | None \<Rightarrow> (0, 1, [], - uint (me_created_at m), me_id m))
    | Section_Active \<Rightarrow> (case me_active_order m of
          Some key \<Rightarrow> (1, 1, key, 0, me_id m)
        | None \<Rightarrow> (1, 0, [], - uint (last_activity m), me_id m)))"

lemma cmp_uint: "cmp (a :: u64) b = cmp (uint a) (uint b)"
  by (simp add: cmp_def word_less_alt word_uint_eq_iff)

lemma cmp_section: "cmp (a :: thread_section) b = cmp (section_rank a) (section_rank b)"
  by (simp add: cmp_def less_thread_section_def)

lemma cmp_swap: "cmp (- a :: int) (- b) = cmp b a"
  by (auto simp: cmp_def)

lemma cmp_pair: "cmp (a, b) (c, d) = then_with (cmp a c) (cmp b d)"
  by (auto simp: cmp_def then_with_def less_prod_def')

lemma cmp_same [simp]: "cmp a a = Ord_Equal"
  by (simp add: cmp_def)

lemma then_with_simps [simp]:
  "then_with Ord_Equal b = b" "then_with Ord_Less b = Ord_Less" "then_with Ord_Greater b = Ord_Greater"
  "then_with a Ord_Equal = a"
  by (simp_all add: then_with_def split: ordering.split)

lemma then_with_assoc: "then_with (then_with a b) c = then_with a (then_with b c)"
  by (cases a) simp_all

lemma compare_key: "compare_threads a b = cmp (thread_key a) (thread_key b)"
proof -
  have ranks: "cmp (0 :: nat) 1 = Ord_Less" "cmp (1 :: nat) 0 = Ord_Greater" "cmp (0 :: nat) 2 = Ord_Less"
    "cmp (2 :: nat) 0 = Ord_Greater" "cmp (1 :: nat) 2 = Ord_Less" "cmp (2 :: nat) 1 = Ord_Greater"
    by (simp_all add: cmp_def)
  show ?thesis
    by (cases "section_of a"; cases "section_of b")
      (simp_all add: compare_threads_def thread_key_def Let_def cmp_section section_rank_def cmp_pair
        then_with_assoc ranks [unfolded One_nat_def] cmp_uint cmp_swap split: option.split)
qed

lemma insert_by_key: "insert_by (\<lambda>a b. cmp (f a) (f b)) x ys = insort_key f x ys"
  by (induction ys) (auto simp: cmp_def)

lemma sort_threads_key: "sort_threads (ms :: 'a session_meta list) = sort_key thread_key ms"
proof -
  have "compare_threads = (\<lambda>a b :: 'a session_meta. cmp (thread_key a) (thread_key b))"
    by (intro ext) (rule compare_key)
  then have "insert_by compare_threads = insort_key (thread_key :: 'a session_meta \<Rightarrow> _)"
    by (elim ssubst) (intro ext, rule insert_by_key)
  then show ?thesis by (simp add: sort_threads_def sort_by_def sort_key_def)
qed

lemma thread_key_id: "thread_key a = thread_key b \<Longrightarrow> me_id a = me_id b"
  by (auto simp: thread_key_def split: thread_section.splits option.splits)

text \<open>
  C29: Every client shows the same order: lists of the same threads (with distinct ids), in whatever
  order they arrived, sort to the same list, which is a permutation of them in which no thread
  compares greater than a later one.
\<close>

theorem threads_have_one_order:
  assumes "distinct (map me_id xs)" and "mset xs = mset ys"
  shows "sort_threads xs = sort_threads ys \<and> mset (sort_threads xs) = mset xs
    \<and> sorted_wrt (\<lambda>a b. compare_threads a b \<noteq> Ord_Greater) (sort_threads xs)"
proof -
  have "inj_on thread_key (set xs)"
    using assms(1) by (auto simp: distinct_map inj_on_def dest: thread_key_id)
  then have "sort_threads xs = sort_threads ys"
    unfolding sort_threads_key using assms(2) \<open>inj_on thread_key (set xs)\<close>
    by (intro sort_key_inj_key_eq) simp_all
  moreover have "sorted_wrt (\<lambda>a b. compare_threads a b \<noteq> Ord_Greater) (sort_threads xs)"
    using sorted_sort_key [of thread_key xs]
    unfolding sort_threads_key sorted_map compare_key
    by (rule sorted_wrt_mono_rel [rotated]) (simp add: cmp_def)
  moreover have "mset (sort_threads xs) = mset xs" by (simp add: sort_threads_key)
  ultimately show ?thesis by blast
qed

lemma threads_have_one_order_witness:
  "sort_threads [demo_meta ''a'' [] None, demo_meta ''b'' [] None]
   = sort_threads [demo_meta ''b'' [] None, demo_meta ''a'' [] None]"
proof -
  have "distinct (map me_id [demo_meta ''a'' [] None, demo_meta ''b'' [] None])"
    by (simp add: demo_meta_def)
  moreover have "mset [demo_meta ''a'' [] None, demo_meta ''b'' [] None]
      = mset [demo_meta ''b'' [] None, demo_meta ''a'' [] None]"
    by (simp add: add_mset_commute)
  ultimately show ?thesis using threads_have_one_order by blast
qed

subsection \<open>Sections\<close>

lemma partition_filter:
  "partition_threads ms = \<lparr>ts_pinned = filter (\<lambda>m. section_of m = Section_Pinned) ms,
     ts_active = filter (\<lambda>m. section_of m = Section_Active) ms,
     ts_settled = filter (\<lambda>m. section_of m = Section_Settled) ms\<rparr>"
proof -
  have "fold push_section ms s = \<lparr>ts_pinned = ts_pinned s @ filter (\<lambda>m. section_of m = Section_Pinned) ms,
     ts_active = ts_active s @ filter (\<lambda>m. section_of m = Section_Active) ms,
     ts_settled = ts_settled s @ filter (\<lambda>m. section_of m = Section_Settled) ms\<rparr>" for s
    by (induction ms arbitrary: s) (auto simp: push_section_def split: thread_section.split)
  then show ?thesis by (simp add: partition_threads_def)
qed

lemma sorted_sections:
  "sorted (map (\<lambda>m. section_rank (section_of m)) ms) \<Longrightarrow>
     filter (\<lambda>m. section_of m = Section_Pinned) ms @ filter (\<lambda>m. section_of m = Section_Active) ms
       @ filter (\<lambda>m. section_of m = Section_Settled) ms = ms"
proof (induction ms)
  case (Cons m ms)
  have later: "section_rank (section_of m) \<le> section_rank (section_of x)" if "x \<in> set ms" for x
    using Cons.prems that by simp
  have "filter (\<lambda>x. section_of x = Section_Pinned) ms = []" if "section_of m \<noteq> Section_Pinned"
    unfolding filter_empty_conv using later that
    by (cases "section_of m") (force simp: section_rank_def)+
  moreover have "filter (\<lambda>x. section_of x = Section_Active) ms = []" if "section_of m = Section_Settled"
    unfolding filter_empty_conv using later that by (force simp: section_rank_def)
  ultimately show ?case
    using Cons by (cases "section_of m") simp_all
qed simp

text \<open>
  The sections follow the order: splitting the sorted threads gives the pinned, then the active,
  then the settled ones, together exactly the sorted list, and each section holds its threads in
  that order.
\<close>

theorem sections_follow_the_order:
  "let s = partition_threads (sort_threads ms) in
     ts_pinned s @ ts_active s @ ts_settled s = sort_threads ms
     \<and> sections_section s sec = filter (\<lambda>m. section_of m = sec) (sort_threads ms)"
proof -
  have rank: "section_rank (section_of m) = fst (thread_key m)" for m :: "'a session_meta"
    by (cases "section_of m") (auto simp: thread_key_def section_rank_def split: option.split)
  have "sorted (map thread_key (sort_threads ms))" by (simp add: sort_threads_key)
  then have "sorted (map (\<lambda>m. section_rank (section_of m)) (sort_threads ms))"
    unfolding sorted_map rank
    by (rule sorted_wrt_mono_rel [rotated]) (auto simp: less_eq_prod_def)
  from sorted_sections [OF this] show ?thesis
    by (cases sec) (simp_all add: partition_filter sections_section_def Let_def)
qed

end
