(* ===== verification/Settlement.thy ===== *)
theory Settlement
  imports Session_Meta Timeline
begin

section \<open>Activity and automatic settlement\<close>

text \<open>
  \<^verbatim>\<open>crates/core/src/settlement.rs\<close>: the clocks folded from the stored events of a thread, what a
  dispatched child owes its lead, and when a thread settles by itself. \<open>millis\<close> reads an RFC 3339 time
  as milliseconds that fit \<open>u64\<close> (\<open>chrono\<close>); \<open>aged\<close> adds a number of days to a time in \<open>f64\<close>, rounds
  down and converts back, as the code writes it.
\<close>

subsection \<open>Clocks\<close>

definition QUEUED_TURN_START_GRACE_MS :: u64 where
  "QUEUED_TURN_START_GRACE_MS = 120000"

record thread_activity =
  ta_last_message_at :: "u64 option"
  ta_last_human_message_at :: "u64 option"
  ta_last_run_started_at :: "u64 option"
  ta_last_run_completed_at :: "u64 option"
  ta_failed :: bool
  ta_interrupted :: bool

definition activity_default :: thread_activity where
  "activity_default = \<lparr>ta_last_message_at = None, ta_last_human_message_at = None,
     ta_last_run_started_at = None, ta_last_run_completed_at = None, ta_failed = False,
     ta_interrupted = False\<rparr>"

definition moves_clock :: "'j agent_event \<Rightarrow> bool" where
  "moves_clock e = (case e of
      ItemCompleted item \<Rightarrow> is_user_message (ti_content item)
    | SteerRequested _ _ _ \<Rightarrow> True | TurnStarted _ \<Rightarrow> True | TurnCompleted _ _ _ \<Rightarrow> True
    | ProviderStartFailed _ \<Rightarrow> True | _ \<Rightarrow> False)"

text \<open>The arm shared by a completed user message and a steer request.\<close>

definition apply_message :: "message_origin option \<Rightarrow> u64 \<Rightarrow> bool \<Rightarrow> thread_activity \<Rightarrow> thread_activity" where
  "apply_message origin ts has_parent a = (
     let a1 = a\<lparr>ta_last_message_at := max (ta_last_message_at a) (Some ts)\<rparr>;
         source = (case origin of Some x \<Rightarrow> x | None \<Rightarrow> origin_legacy has_parent)
     in if source = Human
        then a1\<lparr>ta_last_human_message_at := max (ta_last_human_message_at a1) (Some ts)\<rparr> else a1)"

definition apply_activity :: "bool \<Rightarrow> 'j stored_event \<Rightarrow> thread_activity \<Rightarrow> thread_activity" where
  "apply_activity has_parent record a = (case se_ts record of
      None \<Rightarrow> a
    | Some ts \<Rightarrow> (case se_event record of
        ItemCompleted item \<Rightarrow>
          if is_user_message (ti_content item) then apply_message (se_origin record) ts has_parent a else a
      | SteerRequested _ _ _ \<Rightarrow> apply_message (se_origin record) ts has_parent a
      | TurnStarted _ \<Rightarrow> a\<lparr>ta_last_run_started_at := max (ta_last_run_started_at a) (Some ts),
          ta_failed := False, ta_interrupted := False\<rparr>
      | TurnCompleted _ status _ \<Rightarrow> a\<lparr>ta_last_run_completed_at := max (ta_last_run_completed_at a) (Some ts),
          ta_failed := (status = TurnStatusFailed), ta_interrupted := (status = TurnStatusInterrupted)\<rparr>
      | ProviderStartFailed _ \<Rightarrow> a\<lparr>ta_last_run_completed_at := max (ta_last_run_completed_at a) (Some ts),
          ta_failed := True, ta_interrupted := False\<rparr>
      | _ \<Rightarrow> a))"

definition fold_activity :: "'j stored_event list \<Rightarrow> bool \<Rightarrow> thread_activity" where
  "fold_activity records has_parent = fold (apply_activity has_parent) records activity_default"

definition last_activity_at :: "thread_activity \<Rightarrow> u64 option" where
  "last_activity_at a =
     max (max (ta_last_message_at a) (ta_last_run_started_at a)) (ta_last_run_completed_at a)"

definition queued_turn_start :: "thread_activity \<Rightarrow> u64 \<Rightarrow> bool" where
  "queued_turn_start a now_ms = (case ta_last_message_at a of
      None \<Rightarrow> False
    | Some message_at \<Rightarrow> \<not> ta_failed a
        \<and> abs_diff now_ms message_at \<le> QUEUED_TURN_START_GRACE_MS
        \<and> list_all (\<lambda>run. case run of None \<Rightarrow> True | Some at \<Rightarrow> at < message_at)
            [ta_last_run_started_at a, ta_last_run_completed_at a])"

subsection \<open>Dispatched children\<close>

datatype agent_execution =
  Exec_Working | Exec_Waiting | Exec_Finished | Exec_Failed | Exec_Cancelled | Exec_Interrupted

definition execution_running :: "agent_execution \<Rightarrow> bool" where
  "execution_running e = (e = Exec_Working \<or> e = Exec_Waiting)"

definition report_pending :: "agent_report \<Rightarrow> bool" where
  "report_pending r = (r = Report_Expected)"

datatype agent_delivery = Delivery_Running | Awaiting_Settle | Delivery_Settled | Not_Delivered

definition delivery_of :: "'j session_meta \<Rightarrow> agent_execution \<Rightarrow> agent_delivery" where
  "delivery_of m execution =
     (if is_settled m then Delivery_Settled
      else if me_cancelled_at m \<noteq> None \<or> me_archived_at m \<noteq> None then Not_Delivered
      else case report m of
          Report_Expected \<Rightarrow> Delivery_Running
        | Report_None \<Rightarrow> if execution_running execution then Delivery_Running else Awaiting_Settle
        | _ \<Rightarrow> Awaiting_Settle)"

definition holds_parent :: "agent_delivery \<Rightarrow> bool" where
  "holds_parent d = (d = Delivery_Running \<or> d = Awaiting_Settle)"

subsection \<open>When a thread settles by itself\<close>

record settlement_blockers =
  sb_pending_approval :: bool
  sb_pending_input :: bool
  sb_live_run :: bool
  sb_background_work :: bool
  sb_unsettled_children :: bool
  sb_pull_request_watches :: bool
  sb_pending_human_message :: bool
  sb_scheduled_wake :: bool
  sb_pending_agent_message :: bool

definition any_blocker :: "settlement_blockers \<Rightarrow> bool" where
  "any_blocker b = (sb_pending_approval b \<or> sb_pending_input b \<or> sb_live_run b \<or> sb_background_work b
     \<or> sb_unsettled_children b \<or> sb_pull_request_watches b \<or> sb_pending_human_message b
     \<or> sb_scheduled_wake b \<or> sb_pending_agent_message b)"

record settlement_due =
  du_due_at :: u64
  du_activity_at :: u64

text \<open>The closure \<open>terminal\<close>: an open pull request returns from the whole function.\<close>

definition terminal_state :: "(string \<Rightarrow> u64 option) \<Rightarrow> pull_request_snapshot \<Rightarrow>
    (pull_request_state \<times> u64 option) option" where
  "terminal_state millis s = (case ps_state s of
      PR_Open \<Rightarrow> None
    | PR_Merged \<Rightarrow> Some (PR_Merged, Option.bind (ps_merged_at s) millis)
    | PR_Closed \<Rightarrow> Some (PR_Closed, Option.bind (ps_closed_at s) millis))"

fun latest_terminal :: "(string \<Rightarrow> u64 option) \<Rightarrow> pull_request_link list \<Rightarrow>
    (pull_request_state \<times> u64 option) option \<Rightarrow> (pull_request_state \<times> u64 option) option option" where
  "latest_terminal millis [] latest = Some latest"
| "latest_terminal millis (link # links) latest =
     (if \<not> visible link then latest_terminal millis links latest
      else case Option.bind (lk_snapshot link) (terminal_state millis) of
          None \<Rightarrow> None
        | Some (state, at) \<Rightarrow> latest_terminal millis links
            (if (case latest of None \<Rightarrow> True | Some (_, best) \<Rightarrow> best < at)
             then Some (state, at) else latest))"

text \<open>The first guard: a user's or a lead's decision, or a blocker.\<close>

definition kept_open :: "'j session_meta \<Rightarrow> settlement_blockers \<Rightarrow> bool" where
  "kept_open m b = (me_archived_at m \<noteq> None \<or> me_settled_override m \<noteq> None \<or> is_settled m
     \<or> me_auto_settle_disabled_at m \<noteq> None \<or> me_pinned_at m \<noteq> None \<or> me_parent_session_id m \<noteq> None
     \<or> me_follow_up m \<noteq> None \<or> me_parked_at m \<noteq> None \<or> any_blocker b)"

definition dismissed_since :: "'j session_meta \<Rightarrow> u64 option \<Rightarrow> bool" where
  "dismissed_since m last_activity = (case me_settle_suggestion_dismissed_at m of
      None \<Rightarrow> False
    | Some dismissed \<Rightarrow>
        (case last_activity of Some at \<Rightarrow> at | None \<Rightarrow> 0) \<le> sat_mul dismissed 1000)"

definition after_grace :: "u64 \<Rightarrow> u64" where
  "after_grace message_at = sat_add (sat_add message_at QUEUED_TURN_START_GRACE_MS) 1"

text \<open>The inactivity rule, after the merge rule did not apply.\<close>

definition aged_due :: "(u64 \<Rightarrow> f64 \<Rightarrow> u64) \<Rightarrow> thread_activity \<Rightarrow> u64 \<Rightarrow> f64 option \<Rightarrow> settlement_due option" where
  "aged_due aged activity now_ms days = do {
     d \<leftarrow> days;
     last_activity \<leftarrow> last_activity_at activity;
     let due_at = sat_add (aged last_activity d) 1;
     due_at' \<leftarrow> (if queued_turn_start activity now_ms
       then map_option (\<lambda>at. max due_at (after_grace at)) (ta_last_message_at activity) else Some due_at);
     Some \<lparr>du_due_at = due_at', du_activity_at = last_activity\<rparr> }"

definition automatic_settlement_due :: "(string \<Rightarrow> u64 option) \<Rightarrow> (u64 \<Rightarrow> f64 \<Rightarrow> u64) \<Rightarrow>
    'j session_meta \<Rightarrow> thread_activity \<Rightarrow> settlement_blockers \<Rightarrow> u64 \<Rightarrow> f64 option \<Rightarrow> bool \<Rightarrow>
    settlement_due option" where
  "automatic_settlement_due millis aged m activity blockers now_ms days on_merge = do {
     latest \<leftarrow> latest_terminal millis (me_pull_requests m) None;
     if kept_open m blockers then None
     else
       let last_activity = last_activity_at activity;
           created = sat_mul (me_created_at m) 1000
       in if dismissed_since m last_activity then None
       else
         let anchor = max (case ta_last_human_message_at activity of Some at \<Rightarrow> at | None \<Rightarrow> 0) created
         in (case latest of
              Some (state, Some terminal_at) \<Rightarrow>
                if (state = PR_Closed \<or> on_merge) \<and> anchor \<le> terminal_at
                then do {
                  due_at \<leftarrow> (if queued_turn_start activity now_ms
                    then map_option after_grace (ta_last_message_at activity) else Some now_ms);
                  Some \<lparr>du_due_at = due_at,
                    du_activity_at = (case last_activity of Some at \<Rightarrow> at | None \<Rightarrow> created)\<rparr> }
                else aged_due aged activity now_ms days
            | _ \<Rightarrow> aged_due aged activity now_ms days) }"

subsection \<open>What the clocks say\<close>

definition is_message :: "'j stored_event \<Rightarrow> bool" where
  "is_message r = (case se_event r of
      ItemCompleted item \<Rightarrow> is_user_message (ti_content item) | SteerRequested _ _ _ \<Rightarrow> True | _ \<Rightarrow> False)"

definition is_human_message :: "bool \<Rightarrow> 'j stored_event \<Rightarrow> bool" where
  "is_human_message has_parent r = (is_message r
     \<and> (case se_origin r of Some x \<Rightarrow> x | None \<Rightarrow> origin_legacy has_parent) = Human)"

definition is_run_start :: "'j stored_event \<Rightarrow> bool" where
  "is_run_start r = (case se_event r of TurnStarted _ \<Rightarrow> True | _ \<Rightarrow> False)"

definition is_run_end :: "'j stored_event \<Rightarrow> bool" where
  "is_run_end r = (case se_event r of
      TurnCompleted _ _ _ \<Rightarrow> True | ProviderStartFailed _ \<Rightarrow> True | _ \<Rightarrow> False)"

definition is_failure :: "'j stored_event \<Rightarrow> bool" where
  "is_failure r = (case se_event r of
      TurnCompleted _ status _ \<Rightarrow> status = TurnStatusFailed | ProviderStartFailed _ \<Rightarrow> True | _ \<Rightarrow> False)"

text \<open>The latest stamp of the records of a kind; \<^const>\<open>None\<close> is below every stamp.\<close>

definition latest_stamp :: "('j stored_event \<Rightarrow> bool) \<Rightarrow> 'j stored_event list \<Rightarrow> u64 option" where
  "latest_stamp P records = Max (insert None (se_ts ` set (filter P records)))"

lemma latest_stamp_Nil [simp]: "latest_stamp P [] = None"
  by (simp add: latest_stamp_def)

lemma latest_stamp_snoc:
  "latest_stamp P (rs @ [r]) = (if P r then max (latest_stamp P rs) (se_ts r) else latest_stamp P rs)"
proof -
  have "insert None (insert (se_ts r) (se_ts ` {x \<in> set rs. P x}))
      = insert (se_ts r) (insert None (se_ts ` {x \<in> set rs. P x}))" by auto
  moreover have "Max (insert (se_ts r) (insert None (se_ts ` {x \<in> set rs. P x})))
      = max (se_ts r) (Max (insert None (se_ts ` {x \<in> set rs. P x})))"
    by (rule Max_insert) auto
  ultimately show ?thesis by (auto simp: latest_stamp_def max.commute)
qed

lemma max_None [simp]: "max x None = (x :: u64 option)" "max None x = x"
  by (cases x; simp add: max_def)+

lemma apply_clocks:
  "ta_last_message_at (apply_activity hp r a)
     = (if is_message r then max (ta_last_message_at a) (se_ts r) else ta_last_message_at a)"
  "ta_last_human_message_at (apply_activity hp r a)
     = (if is_human_message hp r then max (ta_last_human_message_at a) (se_ts r) else ta_last_human_message_at a)"
  "ta_last_run_started_at (apply_activity hp r a)
     = (if is_run_start r then max (ta_last_run_started_at a) (se_ts r) else ta_last_run_started_at a)"
  "ta_last_run_completed_at (apply_activity hp r a)
     = (if is_run_end r then max (ta_last_run_completed_at a) (se_ts r) else ta_last_run_completed_at a)"
  "ta_failed (apply_activity hp r a)
     = (if se_ts r \<noteq> None \<and> (is_run_start r \<or> is_run_end r) then is_failure r else ta_failed a)"
  by (cases "se_ts r"; cases "se_event r";
      simp add: apply_activity_def apply_message_def Let_def is_message_def is_human_message_def
        is_run_start_def is_run_end_def is_failure_def)+

text \<open>
  The clocks are the latest stamps of their kinds of records, whatever order the records come in:
  messages, human messages, run starts and run ends (a failed start among them). A thread counts as
  failed exactly when the last stamped record of a run says so.
\<close>

theorem clocks_are_the_latest_stamps:
  "ta_last_message_at (fold_activity records hp) = latest_stamp is_message records
   \<and> ta_last_human_message_at (fold_activity records hp) = latest_stamp (is_human_message hp) records
   \<and> ta_last_run_started_at (fold_activity records hp) = latest_stamp is_run_start records
   \<and> ta_last_run_completed_at (fold_activity records hp) = latest_stamp is_run_end records
   \<and> ta_failed (fold_activity records hp)
     = (case find (\<lambda>r. se_ts r \<noteq> None \<and> (is_run_start r \<or> is_run_end r)) (rev records) of
          Some r \<Rightarrow> is_failure r | None \<Rightarrow> False)"
proof (induction records rule: rev_induct)
  case Nil
  then show ?case by (simp add: fold_activity_def activity_default_def)
next
  case (snoc r rs)
  have "fold_activity (rs @ [r]) hp = apply_activity hp r (fold_activity rs hp)"
    by (simp add: fold_activity_def)
  with snoc show ?case by (simp add: apply_clocks latest_stamp_snoc)
qed

text \<open>
  The fold passes over every record that cannot move a clock, so the activity of a thread can be
  folded from those records alone.
\<close>

theorem only_clock_records_count:
  "fold_activity records hp = fold_activity (filter (\<lambda>r. moves_clock (se_event r)) records) hp"
proof -
  have still: "apply_activity hp r a = a" if "\<not> moves_clock (se_event r)" for r :: "'a stored_event" and a
    using that by (cases "se_event r") (simp_all add: apply_activity_def moves_clock_def split: option.split)
  have "fold (apply_activity hp) records a
      = fold (apply_activity hp) (filter (\<lambda>r. moves_clock (se_event r)) records) a" for a
    by (induction records arbitrary: a) (simp_all add: still)
  then show ?thesis by (simp add: fold_activity_def)
qed

subsection \<open>A thread settles only when nothing holds it open\<close>

definition still_open :: "pull_request_link \<Rightarrow> bool" where
  "still_open l = (visible l \<and> (case lk_snapshot l of None \<Rightarrow> True | Some s \<Rightarrow> ps_state s = PR_Open))"

lemma latest_terminal_all:
  "latest_terminal millis links latest \<noteq> None \<Longrightarrow> filter still_open links = []"
proof (induction links arbitrary: latest)
  case (Cons l links)
  show ?case
  proof (cases "visible l")
    case False
    with Cons show ?thesis by (simp add: still_open_def)
  next
    case True
    with Cons.prems obtain s state at where s: "lk_snapshot l = Some s" "terminal_state millis s = Some (state, at)"
      by (auto simp: bind_eq_Some_conv split: option.splits)
    then have "\<not> still_open l"
      by (auto simp: still_open_def terminal_state_def split: pull_request_state.splits)
    moreover from True s Cons.prems have "\<exists>latest. latest_terminal millis links latest \<noteq> None"
      by (auto split: if_splits)
    ultimately show ?thesis using Cons.IH by auto
  qed
qed simp

lemma aged_due_facts:
  assumes "aged_due aged activity now_ms days = Some due"
  shows "Some (du_activity_at due) = last_activity_at activity"
    and "queued_turn_start activity now_ms \<Longrightarrow> ta_last_message_at activity = Some at \<Longrightarrow>
      after_grace at \<le> du_due_at due"
  using assms by (auto simp: aged_due_def bind_eq_Some_conv Let_def split: if_splits)

text \<open>
  C21: Automatic settlement never takes a thread that something holds open. When it names a due time,
  the thread is not archived, settled, kept active, exempt, pinned, parked, on follow-up or another
  thread's child, nothing is pending or running in it, every visible pull request of it is synced
  and no longer open, a dismissed suggestion is older than the last activity, a message that still
  waits for its run has its whole grace period, and the activity stamp is the last activity, if any.
\<close>

theorem settles_only_when_nothing_holds_it:
  assumes "automatic_settlement_due millis aged m activity blockers now_ms days on_merge = Some due"
  shows "me_archived_at m = None \<and> me_settled_override m = None \<and> \<not> is_settled m
    \<and> me_auto_settle_disabled_at m = None \<and> me_pinned_at m = None \<and> me_parent_session_id m = None
    \<and> me_follow_up m = None \<and> me_parked_at m = None \<and> \<not> any_blocker blockers
    \<and> filter still_open (me_pull_requests m) = []
    \<and> \<not> dismissed_since m (last_activity_at activity)
    \<and> (case ta_last_message_at activity of
         Some at \<Rightarrow> \<not> queued_turn_start activity now_ms \<or> after_grace at \<le> du_due_at due
       | None \<Rightarrow> True)
    \<and> (case last_activity_at activity of Some at \<Rightarrow> du_activity_at due = at
       | None \<Rightarrow> du_activity_at due = sat_mul (me_created_at m) 1000)"
proof -
  let ?created = "sat_mul (me_created_at m) 1000"
  from assms obtain latest where latest: "latest_terminal millis (me_pull_requests m) None = Some latest"
    and guards: "\<not> kept_open m blockers" "\<not> dismissed_since m (last_activity_at activity)"
    by (auto simp: automatic_settlement_due_def bind_eq_Some_conv Let_def split: if_splits)
  from assms latest guards consider
    (aged) "aged_due aged activity now_ms days = Some due"
  | (merged) due_at where "due = \<lparr>du_due_at = due_at,
        du_activity_at = (case last_activity_at activity of Some at \<Rightarrow> at | None \<Rightarrow> ?created)\<rparr>"
      "(if queued_turn_start activity now_ms
        then map_option after_grace (ta_last_message_at activity) else Some now_ms) = Some due_at"
    by (auto simp: automatic_settlement_due_def Let_def bind_eq_Some_conv
        split: option.splits if_splits prod.splits)
  then have "(case ta_last_message_at activity of
         Some at \<Rightarrow> \<not> queued_turn_start activity now_ms \<or> after_grace at \<le> du_due_at due
       | None \<Rightarrow> True)
    \<and> (case last_activity_at activity of Some at \<Rightarrow> du_activity_at due = at
       | None \<Rightarrow> du_activity_at due = ?created)"
  proof cases
    case aged
    from aged_due_facts [OF this] show ?thesis
      by (cases "last_activity_at activity"; cases "ta_last_message_at activity") auto
  next
    case merged
    then show ?thesis by (auto split: option.splits if_splits)
  qed
  with latest_terminal_all [of millis "me_pull_requests m" None] latest guards show ?thesis by (simp add: kept_open_def)
qed

definition demo_activity :: thread_activity where
  "demo_activity = activity_default\<lparr>ta_last_run_completed_at := Some 100000\<rparr>"

definition no_blockers :: settlement_blockers where
  "no_blockers = \<lparr>sb_pending_approval = False, sb_pending_input = False, sb_live_run = False,
     sb_background_work = False, sb_unsettled_children = False, sb_pull_request_watches = False,
     sb_pending_human_message = False, sb_scheduled_wake = False, sb_pending_agent_message = False\<rparr>"

lemma settles_only_when_nothing_holds_it_witness:
  "automatic_settlement_due (\<lambda>_. None) (\<lambda>at days. at + days) (demo_meta ''a'' [] None) demo_activity
     no_blockers 0 (Some 5) True = Some \<lparr>du_due_at = 100006, du_activity_at = 100000\<rparr>
   \<and> me_pinned_at (demo_meta ''a'' [] None) = None"
proof -
  have due: "automatic_settlement_due (\<lambda>_. None) (\<lambda>at days. at + days) (demo_meta ''a'' [] None)
      demo_activity no_blockers 0 (Some 5) True = Some \<lparr>du_due_at = 100006, du_activity_at = 100000\<rparr>"
    by (simp add: automatic_settlement_due_def aged_due_def kept_open_def is_settled_def any_blocker_def
        no_blockers_def demo_meta_def demo_activity_def activity_default_def dismissed_since_def
        last_activity_at_def queued_turn_start_def sat_add_def Let_def)
  from settles_only_when_nothing_holds_it [OF due] due show ?thesis by simp
qed

end
