(* ===== verification/Control_Ops.thy ===== *)
theory Control_Ops
  imports Control_Grants
begin

section \<open>Calls of the control surface\<close>

text \<open>
  The tools of \<^verbatim>\<open>crates/control-mcp\<close>: one parameter record per tool (\<^verbatim>\<open>src/params.rs\<close>), the calls, the
  table of what a grant must hold for each tool, and what a call says of itself (\<^verbatim>\<open>src/lib.rs\<close>).
  JSON values are the type variable \<open>'j\<close>, JSON objects association lists. An anchor is a thread id and
  a position separated by the last \<open>#\<close>.
\<close>

subsection \<open>Parameters\<close>

record expect =
  ex_last_activity_at :: "u64 option"
  ex_max_position :: "u64 option"
  ex_state :: "string option"

datatype thread_state = State_Active | State_Settled | State_Archived

datatype item_kind =
  Kind_User_Message | Kind_Assistant_Message | Kind_Reasoning | Kind_Command | Kind_File_Change
  | Kind_Tool_Call | Kind_Subagent | Kind_Image_Read | Kind_Web_Search | Kind_Steer | Kind_Other

record list_threads_params =
  lt_scope :: "control_scope option"
  lt_states :: "thread_state list option"
  lt_follow_up :: "bool option"
  lt_active_since :: "u64 option"
  lt_active_before :: "u64 option"
  lt_title_query :: "string option"
  lt_include_children :: "bool option"
  lt_include_worktree :: "bool option"
  lt_limit :: "u32 option"
  lt_cursor :: "string option"

record get_thread_params =
  gt_thread_id :: string

record search_params =
  sp_query :: string
  sp_scope :: "control_scope option"
  sp_thread_ids :: "string list option"
  sp_kinds :: "item_kind list option"
  sp_limit :: "u32 option"
  sp_cursor :: "string option"

record position_range =
  pr_from :: u64
  pr_to :: u64

datatype outline_level = Outline_Coarse | Outline_Turns | Outline_Segments

record outline_params =
  op_thread_id :: string
  op_level :: "outline_level option"
  op_range :: "position_range option"

record read_params =
  rp_anchors :: "string list option"
  rp_from :: "string option"
  rp_to :: "string option"
  rp_cursor :: "string option"
  rp_max_bytes :: "u64 option"

record search_in_item_params =
  si_anchor :: string
  si_query :: string
  si_context_lines :: "u32 option"

record file_history_params =
  fh_thread_id :: string
  fh_path :: string

datatype git_what = Git_What_Status | Git_What_Diff | Git_What_Branches

record get_git_params =
  gg_thread_id :: "string option"
  gg_project_id :: "string option"
  gg_what :: git_what

record get_pull_request_params =
  gp_thread_id :: string
  gp_key :: string

record get_settings_params =
  gs_keys :: "string list option"

record read_terminal_params =
  rt_terminal_id :: u64

record review_candidates_params =
  rc_scope :: "control_scope option"
  rc_since :: "u64 option"

datatype thread_op =
  Thread_Settle | Thread_Unsettle | Thread_Archive | Thread_Unarchive | Thread_Pin | Thread_Unpin
  | Thread_Rename string | Thread_Mark_Read | Thread_Mark_Unread
  | Thread_Follow_Up bool "string option" | Thread_Park bool | Thread_Keep bool

record thread_change =
  tc_thread_id :: string
  tc_op :: thread_op
  tc_expect :: "expect option"

record update_threads_params =
  ut_changes :: "thread_change list"
  ut_dry_run :: "bool option"
  ut_request_id :: "string option"

record review_item_input =
  ri_thread_id :: string
  ri_group :: string
  ri_confidence :: string
  ri_evidence :: "string list"
  ri_suggestion :: "string option"

record record_review_params =
  rr_items :: "review_item_input list"
  rr_coverage :: string
  rr_request_id :: "string option"

record settle_self_params =
  ss_when :: self_settle_when
  ss_consent_quote :: string
  ss_request_id :: "string option"

datatype workspace = Workspace_Local | Workspace_Worktree

record 'j start_thread_params =
  sth_project_id :: string
  sth_cwd :: "string option"
  sth_workspace :: "workspace option"
  sth_provider :: string
  sth_model :: "string option"
  sth_profile :: "string option"
  sth_options :: "(string \<times> 'j) list option"
  sth_title :: "string option"
  sth_message :: string
  sth_attachments :: "string list option"
  sth_request_id :: string

datatype send_mode = Send_Queue | Send_Steer | Send_Schedule u64

record send_message_params =
  sm_thread_ids :: "string list"
  sm_text :: string
  sm_mode :: send_mode
  sm_attachments :: "string list option"
  sm_request_id :: "string option"

datatype 'j run_op =
  Run_Interrupt | Run_Retry string | Run_Compact | Run_Set_Model string | Run_Set_Option string 'j
  | Run_Fork | Run_Steer_Queued u64 | Run_Drop_Queued u64

record 'j run_change =
  rn_thread_id :: string
  rn_op :: "'j run_op"

record 'j control_thread_params =
  ct_changes :: "'j run_change list"
  ct_request_id :: "string option"

datatype pull_request_op =
  Pr_Link | Pr_Unlink | Pr_Watch | Pr_Unwatch | Pr_Refresh
  | Pr_Comment string | Pr_Reply string string | Pr_Resolve string

definition pr_writes :: "pull_request_op \<Rightarrow> bool" where
  "pr_writes p = (case p of Pr_Comment _ \<Rightarrow> True | Pr_Reply _ _ \<Rightarrow> True | Pr_Resolve _ \<Rightarrow> True | _ \<Rightarrow> False)"

record pull_request_params =
  prp_thread_id :: string
  prp_key :: "string option"
  prp_reference :: "string option"
  prp_op :: pull_request_op
  prp_request_id :: "string option"

datatype git_op =
  Git_Checkout_Branch string | Git_Commit string "string list option" | Git_Push | Git_Pull
  | Git_Commit_Push string "string list option" | Git_Publish_Branch | Git_Merge_Worktree

definition git_remote :: "git_op \<Rightarrow> bool" where
  "git_remote g = (case g of Git_Checkout_Branch _ \<Rightarrow> False | Git_Commit _ _ \<Rightarrow> False | _ \<Rightarrow> True)"

record git_params =
  gi_thread_id :: string
  gi_op :: git_op
  gi_request_id :: "string option"

record create_project_params =
  cp_root :: string
  cp_request_id :: "string option"

record move_thread_params =
  mt_thread_id :: string
  mt_project_id :: string
  mt_cwd :: "string option"
  mt_request_id :: "string option"

record notify_when_params =
  nw_thread_ids :: "string list"
  nw_events :: "watch_event list"
  nw_once :: "bool option"
  nw_request_id :: "string option"

record cancel_notify_params =
  cn_ids :: "string list"

record reference_params =
  re_thread_id :: string
  re_reason :: "string option"

record 'j respond_input_params =
  rs_thread_id :: string
  rs_question_id :: "string option"
  rs_answers :: "(string \<times> 'j) list"
  rs_request_id :: "string option"

datatype terminal_op = Terminal_Open | Terminal_Input u64 string | Terminal_Close u64

record terminal_params =
  te_thread_id :: string
  te_op :: terminal_op
  te_request_id :: "string option"

record delete_threads_params =
  dt_thread_ids :: "string list"
  dt_remove_worktree :: "bool option"
  dt_dry_run :: "bool option"
  dt_request_id :: "string option"

datatype rewind_scope = Rewind_Files | Rewind_Conversation | Rewind_Files_And_Conversation

record rewind_params =
  rw_thread_id :: string
  rw_turn :: nat
  rw_mode :: rewind_scope
  rw_request_id :: "string option"

record 'j patch_settings_params =
  psp_patch :: 'j
  psp_request_id :: "string option"

record request_grant_params =
  rg_scope :: control_scope
  rg_tiers :: "control_tier list"
  rg_categories :: "control_category list"
  rg_reason :: string

subsection \<open>Calls\<close>

datatype (plugins only: code) 'j control_op =
  List_Projects | List_Threads list_threads_params | Get_Thread get_thread_params
  | Search search_params | Outline outline_params | Read read_params
  | Search_In_Item search_in_item_params | File_History file_history_params | Get_Git get_git_params
  | Get_Pull_Request get_pull_request_params | List_Providers | Get_Settings get_settings_params
  | Read_Terminal read_terminal_params | Review_Candidates review_candidates_params
  | Update_Threads update_threads_params | Record_Review record_review_params
  | Settle_Self settle_self_params | Start_Thread "'j start_thread_params"
  | Send_Message send_message_params | Control_Thread "'j control_thread_params"
  | Pull_Request pull_request_params | Git git_params | Create_Project create_project_params
  | Move_Thread move_thread_params | Notify_When notify_when_params
  | Cancel_Notify cancel_notify_params | Reference reference_params
  | Respond_Input "'j respond_input_params" | Terminal terminal_params
  | Delete_Threads delete_threads_params | Rewind rewind_params
  | Patch_Settings "'j patch_settings_params" | Request_Grant request_grant_params

datatype tool_requirement = Needs_Tier control_tier | Needs_Category control_category | Needs_Nothing

definition allowed_by :: "tool_requirement \<Rightarrow> control_grant \<Rightarrow> bool" where
  "allowed_by requirement g = (case requirement of
      Needs_Tier tier \<Rightarrow> allows_tier g tier
    | Needs_Category category \<Rightarrow> allows_category g category
    | Needs_Nothing \<Rightarrow> True)"

definition TOOLS :: "(string \<times> tool_requirement) list" where
  "TOOLS = [
     (''list_projects'', Needs_Tier Tier_Observe), (''list_threads'', Needs_Tier Tier_Observe),
     (''get_thread'', Needs_Tier Tier_Observe), (''search'', Needs_Tier Tier_Observe),
     (''outline'', Needs_Tier Tier_Observe), (''read'', Needs_Tier Tier_Observe),
     (''search_in_item'', Needs_Tier Tier_Observe), (''file_history'', Needs_Tier Tier_Observe),
     (''get_git'', Needs_Tier Tier_Observe), (''get_pull_request'', Needs_Tier Tier_Observe),
     (''list_providers'', Needs_Tier Tier_Observe), (''get_settings'', Needs_Tier Tier_Observe),
     (''read_terminal'', Needs_Tier Tier_Observe), (''review_candidates'', Needs_Tier Tier_Observe),
     (''reference'', Needs_Tier Tier_Observe), (''update_threads'', Needs_Tier Tier_Organize),
     (''record_review'', Needs_Tier Tier_Organize), (''settle_self'', Needs_Tier Tier_Organize),
     (''start_thread'', Needs_Tier Tier_Operate), (''send_message'', Needs_Tier Tier_Operate),
     (''control_thread'', Needs_Tier Tier_Operate), (''pull_request'', Needs_Tier Tier_Operate),
     (''git'', Needs_Tier Tier_Operate), (''create_project'', Needs_Tier Tier_Operate),
     (''move_thread'', Needs_Tier Tier_Operate), (''notify_when'', Needs_Tier Tier_Operate),
     (''cancel_notify'', Needs_Tier Tier_Operate),
     (''respond_input'', Needs_Category Cat_Answer_Input), (''terminal'', Needs_Category Cat_Terminal),
     (''delete_threads'', Needs_Category Cat_Delete), (''rewind'', Needs_Category Cat_History_Edit),
     (''patch_settings'', Needs_Category Cat_Settings_Write), (''request_grant'', Needs_Nothing)]"

definition tool_requirement_of :: "string \<Rightarrow> tool_requirement option" where
  "tool_requirement_of name = map_option snd (find (\<lambda>t. fst t = name) TOOLS)"

fun tool_name :: "'j control_op \<Rightarrow> string" where
  "tool_name List_Projects = ''list_projects''"
| "tool_name (List_Threads _) = ''list_threads''"
| "tool_name (Get_Thread _) = ''get_thread''"
| "tool_name (Search _) = ''search''"
| "tool_name (Outline _) = ''outline''"
| "tool_name (Read _) = ''read''"
| "tool_name (Search_In_Item _) = ''search_in_item''"
| "tool_name (File_History _) = ''file_history''"
| "tool_name (Get_Git _) = ''get_git''"
| "tool_name (Get_Pull_Request _) = ''get_pull_request''"
| "tool_name List_Providers = ''list_providers''"
| "tool_name (Get_Settings _) = ''get_settings''"
| "tool_name (Read_Terminal _) = ''read_terminal''"
| "tool_name (Review_Candidates _) = ''review_candidates''"
| "tool_name (Update_Threads _) = ''update_threads''"
| "tool_name (Record_Review _) = ''record_review''"
| "tool_name (Settle_Self _) = ''settle_self''"
| "tool_name (Start_Thread _) = ''start_thread''"
| "tool_name (Send_Message _) = ''send_message''"
| "tool_name (Control_Thread _) = ''control_thread''"
| "tool_name (Pull_Request _) = ''pull_request''"
| "tool_name (Git _) = ''git''"
| "tool_name (Create_Project _) = ''create_project''"
| "tool_name (Move_Thread _) = ''move_thread''"
| "tool_name (Notify_When _) = ''notify_when''"
| "tool_name (Cancel_Notify _) = ''cancel_notify''"
| "tool_name (Reference _) = ''reference''"
| "tool_name (Respond_Input _) = ''respond_input''"
| "tool_name (Terminal _) = ''terminal''"
| "tool_name (Delete_Threads _) = ''delete_threads''"
| "tool_name (Rewind _) = ''rewind''"
| "tool_name (Patch_Settings _) = ''patch_settings''"
| "tool_name (Request_Grant _) = ''request_grant''"

text \<open>\<open>requirement\<close>: a tool that is not listed is a panic.\<close>

definition requirement :: "'j control_op \<Rightarrow> tool_requirement option" where
  "requirement call = tool_requirement_of (tool_name call)"

definition extra_categories :: "'j control_op \<Rightarrow> control_category list" where
  "extra_categories call = (case call of
      Pull_Request p \<Rightarrow> if pr_writes (prp_op p) then [Cat_Pr_Write] else []
    | Git p \<Rightarrow> if git_remote (gi_op p) then [Cat_Git_Remote] else []
    | _ \<Rightarrow> [])"

definition requested_scope :: "'j control_op \<Rightarrow> control_scope option" where
  "requested_scope call = (case call of
      List_Threads p \<Rightarrow> lt_scope p
    | Search p \<Rightarrow> sp_scope p
    | Review_Candidates p \<Rightarrow> rc_scope p
    | _ \<Rightarrow> None)"

definition answers_per_target :: "'j control_op \<Rightarrow> bool" where
  "answers_per_target call = (case call of
      Update_Threads _ \<Rightarrow> True | Send_Message _ \<Rightarrow> True | Control_Thread _ \<Rightarrow> True
    | Delete_Threads _ \<Rightarrow> True | Notify_When _ \<Rightarrow> True | _ \<Rightarrow> False)"

definition reads_content :: "'j control_op \<Rightarrow> bool" where
  "reads_content call = (case call of
      Notify_When _ \<Rightarrow> True | Get_Thread _ \<Rightarrow> True | Search _ \<Rightarrow> True | Outline _ \<Rightarrow> True
    | Read _ \<Rightarrow> True | Search_In_Item _ \<Rightarrow> True | File_History _ \<Rightarrow> True | _ \<Rightarrow> False)"

subsection \<open>Anchors\<close>

text \<open>\<open>rsplit_once('#')\<close>.\<close>

definition rsplit_hash :: "string \<Rightarrow> (string \<times> string) option" where
  "rsplit_hash s = (case rposition (\<lambda>c. c = CHR ''#'') s of
      None \<Rightarrow> None
    | Some i \<Rightarrow> Some (take i s, drop (Suc i) s))"

definition parse_anchor :: "string \<Rightarrow> (string \<times> u64) option" where
  "parse_anchor anchor = do {
     (thread_id, at) \<leftarrow> rsplit_hash anchor;
     (if thread_id = [] then None else map_option (Pair thread_id) (parse_u64 at)) }"

definition target_thread_ids :: "'j control_op \<Rightarrow> string list" where
  "target_thread_ids call = (case call of
      Get_Thread p \<Rightarrow> [gt_thread_id p]
    | Search p \<Rightarrow> (case sp_thread_ids p of Some ids \<Rightarrow> ids | None \<Rightarrow> [])
    | Outline p \<Rightarrow> [op_thread_id p]
    | Read p \<Rightarrow>
        List.map_filter (\<lambda>anchor. map_option fst (parse_anchor anchor))
          ((case rp_anchors p of Some as \<Rightarrow> as | None \<Rightarrow> []) @ opt_list (rp_from p) @ opt_list (rp_to p))
        @ opt_list (map_option fst (Option.bind (rp_cursor p) rsplit_hash))
    | Search_In_Item p \<Rightarrow> opt_list (map_option fst (parse_anchor (si_anchor p)))
    | File_History p \<Rightarrow> [fh_thread_id p]
    | Get_Git p \<Rightarrow> opt_list (gg_thread_id p)
    | Get_Pull_Request p \<Rightarrow> [gp_thread_id p]
    | Update_Threads p \<Rightarrow> map tc_thread_id (ut_changes p)
    | Send_Message p \<Rightarrow> sm_thread_ids p
    | Control_Thread p \<Rightarrow> map rn_thread_id (ct_changes p)
    | Pull_Request p \<Rightarrow> [prp_thread_id p]
    | Git p \<Rightarrow> [gi_thread_id p]
    | Move_Thread p \<Rightarrow> [mt_thread_id p]
    | Notify_When p \<Rightarrow> nw_thread_ids p
    | Reference p \<Rightarrow> [re_thread_id p]
    | Respond_Input p \<Rightarrow> [rs_thread_id p]
    | Terminal p \<Rightarrow> [te_thread_id p]
    | Delete_Threads p \<Rightarrow> dt_thread_ids p
    | Rewind p \<Rightarrow> [rw_thread_id p]
    | _ \<Rightarrow> [])"

text \<open>Every call is a listed tool: the lookup never panics.\<close>

lemma requirement_listed: "requirement call \<noteq> None"
  by (cases call) (simp_all add: requirement_def tool_requirement_of_def TOOLS_def)

lemma requirement_nothing: "requirement call = Some Needs_Nothing \<longleftrightarrow> (\<exists>p. call = Request_Grant p)"
  by (cases call) (simp_all add: requirement_def tool_requirement_of_def TOOLS_def)

text \<open>Every anchor the host writes reads back: the id of a thread, \<open>#\<close>, a position.\<close>

definition anchor :: "string \<Rightarrow> u64 \<Rightarrow> string" where
  "anchor thread_id at = thread_id @ ''#'' @ decimal (unat at)"

lemma rsplit_hash_last:
  assumes "CHR ''#'' \<notin> set b"
  shows "rsplit_hash (a @ ''#'' @ b) = Some (a, b)"
proof -
  have "position (\<lambda>c. c = CHR ''#'') (rev b @ CHR ''#'' # rev a) = Some (length (rev b))"
    by (rule position_skip) (use assms in \<open>auto simp: list_all_iff\<close>)
  then have "rposition (\<lambda>c. c = CHR ''#'') (a @ ''#'' @ b) = Some (length a)"
    by (simp add: rposition_def)
  then show ?thesis by (simp add: rsplit_hash_def)
qed

text \<open>
  C40: Every anchor the host writes reads back as the thread and the position it was written for,
  whatever the thread's id contains (a \<open>#\<close> too) except that it is not empty, and for every 64-bit
  position.
\<close>

theorem anchor_reads_back:
  assumes "thread_id \<noteq> []"
  shows "parse_anchor (anchor thread_id at) = Some (thread_id, at)"
proof -
  have "CHR ''#'' \<notin> set (decimal (unat at))"
    using decimal_digits [of "unat at"] by (auto simp: list_all_iff is_digit_def)
  then show ?thesis
    using assms parse_u64_decimal [of at]
    by (simp add: parse_anchor_def anchor_def rsplit_hash_last [simplified])
qed

lemma anchor_reads_back_witness: "parse_anchor (anchor ''a#b'' (- 1)) = Some (''a#b'', - 1)"
  by (rule anchor_reads_back) simp

end
