(* ===== verification/Control_Access.thy ===== *)
theory Control_Access
  imports Control_Ops Session_Meta
begin

section \<open>Access of a thread to the others\<close>

text \<open>
  \<^verbatim>\<open>crates/runtime/src/app/control/mod.rs\<close>: who is calling, which threads it may reach, and the check
  every \<open>tcode_control\<close> call passes. The host's session index is a list, the resident sessions are
  association lists from thread ids to metas (only the meta of a resident session matters here).
  The JSON of a settings patch is decoded by serde, a parameter \<open>parse\<close>; the \<open>type\<close> key of that JSON
  is the parameter \<open>key_of\<close>.
\<close>

subsection \<open>The host's metas\<close>

record 'j host =
  ho_settings :: control_settings
  ho_sessions :: "'j session_meta list"
  ho_live :: "(string \<times> 'j session_meta) list"
  ho_parked :: "(string \<times> 'j session_meta) list"

definition resident :: "'j host \<Rightarrow> string \<Rightarrow> 'j session_meta option" where
  "resident host thread = (case map_of (ho_live host) thread of
      Some m \<Rightarrow> Some m
    | None \<Rightarrow> map_of (ho_parked host) thread)"

definition find_meta :: "'j host \<Rightarrow> string \<Rightarrow> 'j session_meta option" where
  "find_meta host thread = (case find (\<lambda>m. me_id m = thread) (ho_sessions host) of
      Some m \<Rightarrow> Some m
    | None \<Rightarrow> resident host thread)"

definition caller_grant :: "'j host \<Rightarrow> 'j session_meta \<Rightarrow> control_grant \<times> grant_source" where
  "caller_grant host m = resolve_grant (ho_settings host) (me_control_grant m) (me_project_id m)"

record caller =
  cl_thread_id :: string
  cl_project_id :: "string option"
  cl_grant :: control_grant
  cl_ancestors :: "string list"

subsection \<open>Ancestors\<close>

definition parent_of_id :: "'j host \<Rightarrow> string \<Rightarrow> string option" where
  "parent_of_id host thread = Option.bind (find_meta host thread) me_parent_session_id"

definition all_metas :: "'j host \<Rightarrow> 'j session_meta list" where
  "all_metas host = ho_sessions host @ map snd (ho_live host) @ map snd (ho_parked host)"

lemma find_meta_known: "find_meta host thread = Some m \<Longrightarrow> m \<in> set (all_metas host)"
  by (auto simp: find_meta_def resident_def all_metas_def find_Some_iff image_iff
      dest!: map_of_SomeD split: option.splits) force+

text \<open>The loop of \<open>caller_of\<close>: it stops at a thread without a parent and at one already listed.\<close>

function climb :: "'j host \<Rightarrow> string option \<Rightarrow> string list \<Rightarrow> string list" where
  "climb host next_id ancestors = (case next_id of
      None \<Rightarrow> ancestors
    | Some thread \<Rightarrow> if thread \<in> set ancestors then ancestors
        else climb host (parent_of_id host thread) (ancestors @ [thread]))"
  by pat_completeness auto
termination
proof (relation "measure (\<lambda>(host, next_id, ancestors).
    card ((\<Union>m\<in>set (all_metas host). set_option (me_parent_session_id m)) \<union> set_option next_id
      - set ancestors))")
  fix host :: "'j host" and next_id :: "string option" and ancestors :: "string list"
    and thread :: string
  assume step: "next_id = Some thread" "thread \<notin> set ancestors"
  let ?parents = "\<Union>m\<in>set (all_metas host). set_option (me_parent_session_id m)"
  have "set_option (parent_of_id host thread) \<subseteq> ?parents"
    by (auto simp: parent_of_id_def bind_eq_Some_conv dest!: find_meta_known)
  then have "?parents \<union> set_option (parent_of_id host thread) - set (ancestors @ [thread])
      \<subset> ?parents \<union> set_option next_id - set ancestors"
    using step by auto
  then show "((host, parent_of_id host thread, ancestors @ [thread]), host, next_id, ancestors)
      \<in> measure (\<lambda>(host, next_id, ancestors).
        card ((\<Union>m\<in>set (all_metas host). set_option (me_parent_session_id m)) \<union> set_option next_id
          - set ancestors))"
    by (simp only: in_measure split_conv) (rule psubset_card_mono; simp)
qed simp

declare climb.simps [simp del]

definition caller_of :: "'j host \<Rightarrow> 'j session_meta \<Rightarrow> caller" where
  "caller_of host m = \<lparr>cl_thread_id = me_id m, cl_project_id = me_project_id m,
     cl_grant = fst (caller_grant host m), cl_ancestors = climb host (me_parent_session_id m) []\<rparr>"

subsection \<open>Reaching a target\<close>

definition references_thread :: "'j session_meta \<Rightarrow> string \<Rightarrow> bool" where
  "references_thread m target = list_ex (\<lambda>r. tr_thread_id r = target) (me_references m)"

definition target_reachable :: "'j host \<Rightarrow> caller \<Rightarrow> control_scope \<Rightarrow> 'j session_meta \<Rightarrow> bool \<Rightarrow> bool" where
  "target_reachable host caller scope target content =
     (if me_id target \<in> set (cl_ancestors caller) then False
      else if reaches scope (cl_project_id caller) (me_project_id target) then True
      else content
        \<and> (me_id target = cl_thread_id caller
           \<or> me_parent_session_id target = Some (cl_thread_id caller)
           \<or> (case find_meta host (cl_thread_id caller) of
                 Some m \<Rightarrow> references_thread m (me_id target)
               | None \<Rightarrow> False)))"

datatype target_refusal = Target_Unknown | Target_Deleted_Reference | Target_Ancestor | Target_Outside_Scope

definition whole_call :: "target_refusal \<Rightarrow> string \<Rightarrow> control_scope \<Rightarrow> string" where
  "whole_call refusal target scope = (case refusal of
      Target_Unknown \<Rightarrow> ''unknown thread: '' @ target
    | Target_Deleted_Reference \<Rightarrow> ''referenced thread '' @ target
        @ '' was deleted; what you already read cannot be recalled''
    | Target_Ancestor \<Rightarrow> ''refused: thread '' @ target
        @ '' orchestrates this thread; a child may not read or act on its parent''
    | Target_Outside_Scope \<Rightarrow> ''refused: thread '' @ target
        @ '' is outside your grant's scope ('' @ describe_scope scope @ '')'')"

definition per_item :: "target_refusal \<Rightarrow> string \<Rightarrow> control_scope \<Rightarrow> string" where
  "per_item refusal target scope = (case refusal of
      Target_Unknown \<Rightarrow> ''unknown_thread''
    | Target_Deleted_Reference \<Rightarrow> ''deleted: referenced thread '' @ target @ '' was deleted''
    | Target_Ancestor \<Rightarrow> ''ancestor: a child may not read or act on its parent''
    | Target_Outside_Scope \<Rightarrow> ''outside_scope: your grant's scope is '' @ describe_scope scope)"

definition check_target :: "'j host \<Rightarrow> caller \<Rightarrow> control_scope \<Rightarrow> string \<Rightarrow> bool \<Rightarrow>
    target_refusal + 'j session_meta" where
  "check_target host caller scope target content = (case find_meta host target of
      None \<Rightarrow> Inl (if (case find_meta host (cl_thread_id caller) of
            Some m \<Rightarrow> references_thread m target | None \<Rightarrow> False)
          then Target_Deleted_Reference else Target_Unknown)
    | Some m \<Rightarrow>
        if target \<in> set (cl_ancestors caller) then Inl Target_Ancestor
        else if \<not> target_reachable host caller scope m content then Inl Target_Outside_Scope
        else Inr m)"

text \<open>One target of a batch: its meta, or the reason that item is skipped.\<close>

definition batch_target :: "'j host \<Rightarrow> caller \<Rightarrow> string \<Rightarrow> bool \<Rightarrow> string + 'j session_meta" where
  "batch_target host caller target content =
     map_sum (\<lambda>refusal. per_item refusal target (cg_scope (cl_grant caller))) id
       (check_target host caller (cg_scope (cl_grant caller)) target content)"

subsection \<open>Settings patches\<close>

text \<open>
  The payloads that are records of their own are kept as the JSON they are decoded from.
\<close>

datatype (plugins only:) 'j settings_patch =
  Patch_Source_Control_Host string 'j "bool option" "string option option"
  | Patch_Remove_Source_Control_Host string
  | Patch_Language "string option" | Patch_Theme_Mode 'j | Patch_Word_Wrap_Diffs bool
  | Patch_Skip_Delete_Confirmation bool | Patch_Auto_Open_Task_Panel bool
  | Patch_Live_Command_Panel_Disabled bool | Patch_Sidebar_Provider_Marks bool
  | Patch_Provider_Update_Checks_Disabled bool | Patch_Inactive_Frame_Throttle_Disabled bool
  | Patch_Abort_On_Model_Fallback bool | Patch_Resume_On_Limit_Reset bool
  | Patch_Fallback_Review_Advisor bool | Patch_Auto_Settle_After_Days "'j option"
  | Patch_Auto_Settle_On_Merge bool | Patch_Project_Settlement string "'j option"
  | Patch_Project_Merge_Method string 'j | Patch_Remove_Agent_Credits_On_Merge bool
  | Patch_Orchestrate_Decision_Models "'j list" | Patch_Orchestrate_Child_Models "'j list"
  | Patch_Orchestrate_Child_Approval 'j | Patch_Orchestrate_Child_Worktrees bool
  | Patch_Computer_Use_Enabled bool | Patch_Computer_Use_Image_Mode 'j
  | Patch_Computer_Use_Allow_Input bool | Patch_Computer_Use_Allow_Foreground_Fallback bool
  | Patch_Computer_Use_Show_Agent_Cursor bool | Patch_Browser_Enabled bool
  | Patch_Browser_Home_Url "string option" | Patch_Browser_Allow_Evaluate bool
  | Patch_Plugin_Management_Enabled bool | Patch_Plugin_Management_Provider provider_kind bool
  | Patch_Control_Enabled bool | Patch_Control_Default_Grant control_grant
  | Patch_Control_Project_Grant string "control_grant option"
  | Patch_Settlement_Automation settlement_automation
  | Patch_Title_Generation_Provider provider_kind | Patch_Title_Generation_Model string
  | Patch_Title_Generation_Profile_Id "string option"
  | Patch_Fallback_Review_Provider provider_kind | Patch_Fallback_Review_Model string
  | Patch_Fallback_Review_Profile_Id "string option" | Patch_Sidebar_Layout 'j
  | Patch_Remote_Hosting_Enabled bool | Patch_Traverse 'j | Patch_Remote_Host_Name "string option"
  | Patch_Last_Project "string option"

definition settings_patch_never_exposed :: "'j settings_patch \<Rightarrow> bool" where
  "settings_patch_never_exposed patch = (case patch of
      Patch_Language _ \<Rightarrow> False | Patch_Theme_Mode _ \<Rightarrow> False | Patch_Word_Wrap_Diffs _ \<Rightarrow> False
    | Patch_Auto_Open_Task_Panel _ \<Rightarrow> False | Patch_Live_Command_Panel_Disabled _ \<Rightarrow> False
    | Patch_Sidebar_Provider_Marks _ \<Rightarrow> False | Patch_Inactive_Frame_Throttle_Disabled _ \<Rightarrow> False
    | Patch_Fallback_Review_Advisor _ \<Rightarrow> False
    | _ \<Rightarrow> True)"

subsection \<open>The check every call passes\<close>

definition requirement_name :: "tool_requirement \<Rightarrow> string" where
  "requirement_name needed = (case needed of
      Needs_Tier tier \<Rightarrow> ''tier '' @ tier_name tier
    | Needs_Category category \<Rightarrow> ''category '' @ category_name category
    | Needs_Nothing \<Rightarrow> [])"

definition refused :: "'j control_op \<Rightarrow> control_grant \<Rightarrow> string \<Rightarrow> string" where
  "refused call g need = ''refused: `'' @ tool_name call @ ''` needs '' @ need
     @ ''; your grant: '' @ describe_grant g"

definition display_only :: string where
  "display_only = '': an agent may change only display preferences (language, theme, diff word wrap, panels, sidebar provider marks, frame throttling, the fallback review advisor)''"

text \<open>The loop over the targets stops at the first one that is closed.\<close>

fun check_targets :: "'j host \<Rightarrow> caller \<Rightarrow> string list \<Rightarrow> bool \<Rightarrow> string + unit" where
  "check_targets host caller [] content = Inr ()"
| "check_targets host caller (target # targets) content =
     (case check_target host caller (cg_scope (cl_grant caller)) target content of
        Inl refusal \<Rightarrow> Inl (whole_call refusal target (cg_scope (cl_grant caller)))
      | Inr _ \<Rightarrow> check_targets host caller targets content)"

text \<open>The two early returns in the middle: the scope the call asks for, and the settings patch.\<close>

definition scope_refusal :: "caller \<Rightarrow> 'j control_op \<Rightarrow> string option" where
  "scope_refusal caller call = (case requested_scope call of
      Some scope \<Rightarrow> if within scope (cg_scope (cl_grant caller)) (cl_project_id caller) then None
        else Some (''refused: scope '' @ describe_scope scope @ '' is wider than your grant's ''
          @ describe_scope (cg_scope (cl_grant caller)))
    | None \<Rightarrow> None)"

definition patch_refusal :: "('j \<Rightarrow> string + 'j settings_patch) \<Rightarrow> ('j \<Rightarrow> string) \<Rightarrow> 'j control_op \<Rightarrow>
    string option" where
  "patch_refusal parse key_of call = (case call of
      Patch_Settings p \<Rightarrow> (case parse (psp_patch p) of
          Inl error \<Rightarrow> Some (''invalid settings patch: '' @ error)
        | Inr patch \<Rightarrow> if settings_patch_never_exposed patch
            then Some (''refused: `patch_settings` never changes '' @ key_of (psp_patch p) @ display_only)
            else None)
    | _ \<Rightarrow> None)"

text \<open>\<open>requirement\<close> of a call that no tool answers is a panic, here \<open>None\<close>.\<close>

definition authorize_control :: "('j \<Rightarrow> string + 'j settings_patch) \<Rightarrow> ('j \<Rightarrow> string) \<Rightarrow> 'j host \<Rightarrow>
    caller \<Rightarrow> 'j control_op \<Rightarrow> (string + unit) option" where
  "authorize_control parse key_of host caller call = do {
     needed \<leftarrow> requirement call;
     Some (
       let g = cl_grant caller in
       if \<not> allowed_by needed g then Inl (refused call g (requirement_name needed))
       else case find (\<lambda>c. \<not> allows_category g c) (extra_categories call) of
         Some c \<Rightarrow> Inl (refused call g (requirement_name (Needs_Category c)))
       | None \<Rightarrow>
       (case scope_refusal caller call of
         Some refusal \<Rightarrow> Inl refusal
       | None \<Rightarrow>
       (case patch_refusal parse key_of call of
         Some refusal \<Rightarrow> Inl refusal
       | None \<Rightarrow>
         if answers_per_target call then Inr ()
         else check_targets host caller (target_thread_ids call) (reads_content call)))) }"

text \<open>
  \<open>handle_control_op\<close> up to the dispatch: the surface is off, the thread is unknown or archived, the
  call is refused, or it is dispatched for the caller.
\<close>

datatype gate = Gate_Off | Gate_Unknown_Thread | Gate_Refused string | Gate_Dispatch caller

definition control_gate :: "('j \<Rightarrow> string + 'j settings_patch) \<Rightarrow> ('j \<Rightarrow> string) \<Rightarrow> 'j host \<Rightarrow>
    string \<Rightarrow> 'j control_op \<Rightarrow> gate option" where
  "control_gate parse key_of host thread call =
     (if \<not> cs_enabled (ho_settings host) then Some Gate_Off
      else case find_meta host thread of
          None \<Rightarrow> Some Gate_Unknown_Thread
        | Some m \<Rightarrow> if me_archived_at m \<noteq> None then Some Gate_Unknown_Thread
            else map_option (\<lambda>verdict. case verdict of
                Inl refusal \<Rightarrow> Gate_Refused refusal
              | Inr _ \<Rightarrow> Gate_Dispatch (caller_of host m))
              (authorize_control parse key_of host (caller_of host m) call))"

subsection \<open>Ancestors are the transitive closure of the parent links\<close>

definition parent_link :: "'j host \<Rightarrow> string \<Rightarrow> string \<Rightarrow> bool" where
  "parent_link host child parent = (parent_of_id host child = Some parent)"

definition is_ancestor :: "'j host \<Rightarrow> 'j session_meta \<Rightarrow> string \<Rightarrow> bool" where
  "is_ancestor host m target =
     (case me_parent_session_id m of
        Some parent \<Rightarrow> (parent_link host)\<^sup>*\<^sup>* parent target | None \<Rightarrow> False)"

definition above :: "'j host \<Rightarrow> string option \<Rightarrow> string set" where
  "above host next_id = (case next_id of Some p \<Rightarrow> {t. (parent_link host)\<^sup>*\<^sup>* p t} | None \<Rightarrow> {})"

lemma above_step: "above host (Some p) = insert p (above host (parent_of_id host p))"
  by (auto simp: above_def parent_link_def elim: converse_rtranclpE
      intro: converse_rtranclp_into_rtranclp split: option.splits)

lemma above_closed:
  assumes "\<And>a. a \<in> A \<Longrightarrow> set_option (parent_of_id host a) \<subseteq> A" and "p \<in> A"
  shows "above host (Some p) \<subseteq> A"
proof
  fix t
  assume "t \<in> above host (Some p)"
  then have "(parent_link host)\<^sup>*\<^sup>* p t" by (simp add: above_def)
  then show "t \<in> A"
    by (induction rule: rtranclp_induct) (use assms in \<open>auto simp: parent_link_def\<close>)
qed

lemma climb_set:
  assumes "\<And>a. a \<in> set ancestors \<Longrightarrow>
      set_option (parent_of_id host a) \<subseteq> set ancestors \<union> set_option next_id"
  shows "set (climb host next_id ancestors) = set ancestors \<union> above host next_id"
  using assms
proof (induction host next_id ancestors rule: climb.induct)
  case (1 host next_id ancestors)
  show ?case
  proof (cases next_id)
    case None
    then show ?thesis by (subst climb.simps) (simp add: above_def)
  next
    case (Some p)
    show ?thesis
    proof (cases "p \<in> set ancestors")
      case True
      with "1.prems" Some have "above host (Some p) \<subseteq> set ancestors"
        by (intro above_closed) auto
      moreover from True Some have "climb host next_id ancestors = ancestors"
        by (subst climb.simps) simp
      ultimately show ?thesis using Some by auto
    next
      case False
      have "set (climb host (parent_of_id host p) (ancestors @ [p]))
          = set (ancestors @ [p]) \<union> above host (parent_of_id host p)"
        by (rule "1.IH" [OF Some False]) (use "1.prems" Some in force)
      moreover from False Some have "climb host next_id ancestors
          = climb host (parent_of_id host p) (ancestors @ [p])"
        by (subst climb.simps) simp
      ultimately show ?thesis using Some by (auto simp: above_step)
    qed
  qed
qed

lemma caller_ancestors: "t \<in> set (cl_ancestors (caller_of host m)) \<longleftrightarrow> is_ancestor host m t"
  using climb_set [of "[]" host "me_parent_session_id m"]
  by (simp add: caller_of_def above_def is_ancestor_def split: option.split)

subsection \<open>What an authorised call has\<close>

text \<open>
  The contract of the surface, stated without the code's lists and loops: a target is open to a
  thread when it is known, is not above the thread in the chain of parents, and is in a project the
  scope reaches or, for content, is the thread itself, its child or one it references.
\<close>

definition open_to :: "'j host \<Rightarrow> 'j session_meta \<Rightarrow> control_scope \<Rightarrow> bool \<Rightarrow> 'j session_meta \<Rightarrow> bool" where
  "open_to host m scope content target =
     (\<not> is_ancestor host m (me_id target)
      \<and> (reaches scope (me_project_id m) (me_project_id target)
         \<or> content \<and> (me_id target = me_id m \<or> me_parent_session_id target = Some (me_id m)
              \<or> list_ex (\<lambda>r. tr_thread_id r = me_id target) (me_references m))))"

definition sees_itself :: "'j host \<Rightarrow> 'j session_meta \<Rightarrow> bool" where
  "sees_itself host m = (find_meta host (me_id m) = Some m)"

lemma reachable_open:
  assumes "sees_itself host m"
  shows "target_reachable host (caller_of host m) scope target content
    \<longleftrightarrow> open_to host m scope content target"
proof -
  have "cl_thread_id (caller_of host m) = me_id m" "cl_project_id (caller_of host m) = me_project_id m"
    by (simp_all add: caller_of_def)
  with assms show ?thesis
    by (simp add: target_reachable_def open_to_def caller_ancestors sees_itself_def
        references_thread_def)
qed

definition same_ids :: "'j host \<Rightarrow> bool" where
  "same_ids host = list_all (\<lambda>e. me_id (snd e) = fst e) (ho_live host @ ho_parked host)"

lemma find_meta_id: "same_ids host \<Longrightarrow> find_meta host thread = Some m \<Longrightarrow> me_id m = thread"
proof -
  assume same: "same_ids host" and found: "find_meta host thread = Some m"
  have res: "me_id m = thread" if "resident host thread = Some m"
  proof -
    from that have "(thread, m) \<in> set (ho_live host @ ho_parked host)"
      by (auto simp: resident_def dest!: map_of_SomeD split: option.splits)
    with same have "me_id (snd (thread, m)) = fst (thread, m)"
      unfolding same_ids_def list_all_iff by (rule bspec)
    then show ?thesis by simp
  qed
  show ?thesis
  proof (cases "find (\<lambda>m. me_id m = thread) (ho_sessions host)")
    case None
    with found res show ?thesis by (simp add: find_meta_def)
  next
    case (Some a)
    with found have "a = m" by (simp add: find_meta_def)
    with Some show ?thesis by (auto simp: find_Some_iff)
  qed
qed

lemma check_target_open:
  assumes "same_ids host" "find_meta host thread = Some m"
  shows "check_target host (caller_of host m) scope target content = Inr found
    \<longleftrightarrow> find_meta host target = Some found \<and> open_to host m scope content found"
proof -
  from find_meta_id [OF assms] assms(2) have "sees_itself host m" by (simp add: sees_itself_def)
  with find_meta_id [OF assms(1)] show ?thesis
    by (auto simp: check_target_def reachable_open caller_ancestors open_to_def
        split: option.splits)
qed

lemma check_targets_open:
  assumes "same_ids host" "find_meta host thread = Some m"
  shows "check_targets host (caller_of host m) targets content = Inr ()
    \<longleftrightarrow> (\<forall>target\<in>set targets. \<exists>found. find_meta host target = Some found
          \<and> open_to host m (cg_scope (fst (caller_grant host m))) content found)"
proof (induction targets)
  case (Cons target targets)
  let ?scope = "cg_scope (fst (caller_grant host m))"
  let ?check = "check_target host (caller_of host m) ?scope target content"
  have same: "cg_scope (cl_grant (caller_of host m)) = ?scope" by (simp add: caller_of_def)
  have first: "(\<exists>found. ?check = Inr found)
      \<longleftrightarrow> (\<exists>found. find_meta host target = Some found \<and> open_to host m ?scope content found)"
    using check_target_open [OF assms, of ?scope target content] by simp
  show ?case
  proof (cases ?check)
    case (Inl refusal)
    with first show ?thesis by (simp add: same) 
  next
    case (Inr found)
    with first Cons show ?thesis by (simp add: same)
  qed
qed simp

definition entitled :: "('j \<Rightarrow> string + 'j settings_patch) \<Rightarrow> 'j host \<Rightarrow> 'j session_meta \<Rightarrow>
    'j control_op \<Rightarrow> bool" where
  "entitled parse host m call = (let g = fst (caller_grant host m) in
     (\<exists>needed. requirement call = Some needed \<and> allowed_by needed g)
     \<and> set (extra_categories call) \<subseteq> cg_categories g
     \<and> (\<forall>scope. requested_scope call = Some scope \<longrightarrow>
          {t. reaches scope (me_project_id m) t} \<subseteq> {t. reaches (cg_scope g) (me_project_id m) t})
     \<and> (\<forall>p. call = Patch_Settings p \<longrightarrow>
          (\<exists>patch. parse (psp_patch p) = Inr patch \<and> \<not> settings_patch_never_exposed patch))
     \<and> (answers_per_target call \<or> (\<forall>target\<in>set (target_thread_ids call).
          \<exists>found. find_meta host target = Some found
            \<and> open_to host m (cg_scope g) (reads_content call) found)))"

lemma scope_refusal_None: "scope_refusal caller call = None \<longleftrightarrow>
    (\<forall>scope. requested_scope call = Some scope \<longrightarrow>
      {t. reaches scope (cl_project_id caller) t} \<subseteq> {t. reaches (cg_scope (cl_grant caller)) (cl_project_id caller) t})"
  by (simp add: scope_refusal_def within_reaches split: option.split)

lemma patch_refusal_None: "patch_refusal parse key_of call = None \<longleftrightarrow>
    (\<forall>p. call = Patch_Settings p \<longrightarrow>
      (\<exists>patch. parse (psp_patch p) = Inr patch \<and> \<not> settings_patch_never_exposed patch))"
  by (cases call) (auto simp: patch_refusal_def split: sum.splits)

text \<open>
  C4: The whole check. A call of a known, unarchived thread is dispatched exactly when the surface is
  on, the thread's grant in force holds the tool's tier or category and every extra category of the
  call, the scope it asks for reaches no project the grant does not, a settings patch decodes and is
  a display preference, and, unless the call answers per target, every thread it names is known, is
  not above the caller in the chain of parents, and is reached by the grant or (for content) is the
  caller, its child or a thread it references.
\<close>

theorem calls_are_dispatched_when_entitled:
  assumes "same_ids host" and "find_meta host thread = Some m"
  shows "control_gate parse key_of host thread call = Some (Gate_Dispatch (caller_of host m))
    \<longleftrightarrow> cs_enabled (ho_settings host) \<and> me_archived_at m = None \<and> entitled parse host m call"
proof -
  let ?c = "caller_of host m"
  let ?g = "fst (caller_grant host m)"
  have g: "cl_grant ?c = ?g" "cl_project_id ?c = me_project_id m" by (simp_all add: caller_of_def)
  obtain needed where needed: "requirement call = Some needed"
    using requirement_listed [of call] by blast
  have extra: "find (\<lambda>c. \<not> allows_category ?g c) (extra_categories call) = None
      \<longleftrightarrow> set (extra_categories call) \<subseteq> cg_categories ?g"
    by (auto simp: find_None_iff allows_category_def)
  have "authorize_control parse key_of host ?c call = Some (Inr ()) \<longleftrightarrow>
      allowed_by needed ?g \<and> find (\<lambda>c. \<not> allows_category ?g c) (extra_categories call) = None
      \<and> scope_refusal ?c call = None \<and> patch_refusal parse key_of call = None
      \<and> (answers_per_target call
         \<or> check_targets host ?c (target_thread_ids call) (reads_content call) = Inr ())"
    by (simp add: authorize_control_def needed g Let_def split: option.split)
  also have "\<dots> \<longleftrightarrow> entitled parse host m call"
    unfolding extra scope_refusal_None patch_refusal_None check_targets_open [OF assms] g
    by (simp add: entitled_def Let_def needed)
  finally have "authorize_control parse key_of host ?c call = Some (Inr ()) \<longleftrightarrow> entitled parse host m call" .
  moreover have "authorize_control parse key_of host ?c call \<noteq> None"
    by (simp add: authorize_control_def needed)
  moreover have "(case verdict of Inl refusal \<Rightarrow> Gate_Refused refusal | Inr _ \<Rightarrow> Gate_Dispatch ?c)
      = Gate_Dispatch ?c \<longleftrightarrow> verdict = Inr ()" for verdict :: "string + unit"
    by (cases verdict) simp_all
  ultimately show ?thesis
    using assms(2) by (cases "authorize_control parse key_of host ?c call")
      (auto simp: control_gate_def)
qed

text \<open>A child, its parent and a sibling of the parent, under the default grant.\<close>

definition demo_host :: "unit host" where
  "demo_host = \<lparr>ho_settings = control_settings_default,
     ho_sessions = [demo_meta ''a'' [''/'', ''w''] None,
       (demo_meta ''b'' [''/'', ''w''] None)\<lparr>me_parent_session_id := Some ''a''\<rparr>,
       demo_meta ''c'' [''/'', ''w''] None],
     ho_live = [], ho_parked = []\<rparr>"

definition demo_child :: "unit session_meta" where
  "demo_child = (demo_meta ''b'' [''/'', ''w''] None)\<lparr>me_parent_session_id := Some ''a''\<rparr>"

definition demo_call :: "string \<Rightarrow> unit control_op" where
  "demo_call target = Get_Thread \<lparr>gt_thread_id = target\<rparr>"

lemma demo_above: "(parent_link demo_host)\<^sup>*\<^sup>* ''a'' t \<longleftrightarrow> t = ''a''"
proof -
  have "\<not> parent_link demo_host ''a'' p" for p
    by (simp add: parent_link_def parent_of_id_def find_meta_def demo_host_def demo_meta_def)
  then show ?thesis by (metis converse_rtranclpE rtranclp.rtrancl_refl)
qed

lemma demo_facts:
  "find_meta demo_host ''a'' = Some (demo_meta ''a'' [''/'', ''w''] None)"
  "find_meta demo_host ''c'' = Some (demo_meta ''c'' [''/'', ''w''] None)"
  "fst (caller_grant demo_host demo_child) = default_grant"
  "me_project_id demo_child = None" "me_parent_session_id demo_child = Some ''a''"
  by (simp_all add: find_meta_def demo_host_def demo_child_def demo_meta_def caller_grant_def
      resolve_grant_def control_settings_default_def)

lemma demo_ancestor: "is_ancestor demo_host demo_child t \<longleftrightarrow> t = ''a''"
  by (simp add: is_ancestor_def demo_facts demo_above)

lemma demo_entitled:
  "entitled (\<lambda>_. Inl []) demo_host demo_child (demo_call ''c'')"
  "\<not> entitled (\<lambda>_. Inl []) demo_host demo_child (demo_call ''a'')"
  by (simp_all add: entitled_def demo_facts demo_ancestor demo_call_def requirement_def tool_requirement_of_def
      TOOLS_def allowed_by_def default_grant_def all_tiers_def allows_tier_def extra_categories_def
      requested_scope_def answers_per_target_def target_thread_ids_def open_to_def demo_meta_def)

lemma calls_are_dispatched_when_entitled_witness:
  "control_gate (\<lambda>_. Inl []) (\<lambda>_. []) demo_host ''b'' (demo_call ''c'')
     = Some (Gate_Dispatch (caller_of demo_host demo_child))
   \<and> control_gate (\<lambda>_. Inl []) (\<lambda>_. []) demo_host ''b'' (demo_call ''a'')
     \<noteq> Some (Gate_Dispatch (caller_of demo_host demo_child))"
proof -
  have "same_ids demo_host" by (simp add: same_ids_def demo_host_def)
  moreover have "find_meta demo_host ''b'' = Some demo_child"
    by (simp add: find_meta_def demo_host_def demo_child_def demo_meta_def)
  moreover have "cs_enabled (ho_settings demo_host)" "me_archived_at demo_child = None"
    by (simp_all add: demo_host_def control_settings_default_def demo_child_def demo_meta_def)
  ultimately show ?thesis
    using calls_are_dispatched_when_entitled [of demo_host "''b''" demo_child "\<lambda>_. Inl []" "\<lambda>_. []"]
      demo_entitled by blast
qed

end
