(* ===== verification/Control_Store.thy ===== *)
theory Control_Store
  imports Control_Access "HOL-Library.AList"
begin

section \<open>Writing metas\<close>

text \<open>
  How a changed meta reaches the host: \<open>store_meta\<close> and \<open>audit\<close> (\<^verbatim>\<open>runtime/src/app/control/mod.rs\<close>),
  \<open>change_meta\<close> (\<^verbatim>\<open>control/organize.rs\<close>), the index and the resident copies
  (\<^verbatim>\<open>lifecycle.rs\<close>, \<^verbatim>\<open>snapshots.rs\<close>), the table of grants the connections list their tools from.
  Left out of the state are the store's write queue, revision counters and the settlement evaluation
  that a write enqueues; a recorded event is appended to a list, its fold is the session timeline.
  What is read from a clock or drawn at random is an argument.
\<close>

subsection \<open>Index and residents\<close>

fun replace_meta :: "'j session_meta \<Rightarrow> 'j session_meta list \<Rightarrow> 'j session_meta list" where
  "replace_meta m [] = [m]"
| "replace_meta m (x # xs) = (if me_id x = me_id m then m # xs else x # replace_meta m xs)"

text \<open>A stable sort by \<open>Reverse(updated_at)\<close>.\<close>

definition upsert_session :: "'j session_meta \<Rightarrow> 'j session_meta list \<Rightarrow> 'j session_meta list" where
  "upsert_session m sessions = sort_key (\<lambda>x. - uint (me_updated_at x)) (replace_meta m sessions)"

definition store_resident :: "'j session_meta \<Rightarrow> 'j host \<Rightarrow> 'j host" where
  "store_resident m host =
     (if map_of (ho_live host) (me_id m) \<noteq> None
      then host\<lparr>ho_live := AList.update (me_id m) m (ho_live host)\<rparr>
      else if map_of (ho_parked host) (me_id m) \<noteq> None
      then host\<lparr>ho_parked := AList.update (me_id m) m (ho_parked host)\<rparr>
      else host)"

definition store_meta :: "'j session_meta \<Rightarrow> 'j host \<Rightarrow> 'j host" where
  "store_meta m host = (store_resident m host)\<lparr>ho_sessions := upsert_session m (ho_sessions host)\<rparr>"

definition change_meta :: "u64 \<Rightarrow> string \<Rightarrow> ('j session_meta \<Rightarrow> 'j session_meta) \<Rightarrow> 'j host \<Rightarrow> 'j host" where
  "change_meta now_secs thread change host = (case find_meta host thread of
      None \<Rightarrow> host
    | Some before \<Rightarrow> if change before = before then host
        else store_meta ((change before)\<lparr>me_updated_at := now_secs\<rparr>) host)"

subsection \<open>The contract of a store\<close>

text \<open>
  What the operations rely on: a stored meta is found under its own id and every other lookup is
  unchanged. A view is a part of the meta that an operation may leave alone.
\<close>

locale meta_store =
  fixes lookup :: "'h \<Rightarrow> 'k \<Rightarrow> 'm option"
    and store :: "'m \<Rightarrow> 'h \<Rightarrow> 'h"
    and ident :: "'m \<Rightarrow> 'k"
    and ok :: "'h \<Rightarrow> bool"
  assumes lookup_store: "ok h \<Longrightarrow> lookup (store m h) k = (if k = ident m then Some m else lookup h k)"
    and ok_store: "ok h \<Longrightarrow> ok (store m h)"
    and lookup_ident: "ok h \<Longrightarrow> lookup h k = Some m \<Longrightarrow> ident m = k"
begin

lemma lookup_same: "ok h \<Longrightarrow> lookup (store m h) (ident m) = Some m"
  by (simp add: lookup_store)

lemma view_store:
  assumes "ok h" "lookup h k = Some before" "ident m = k" "view m = view before"
  shows "map_option view (lookup (store m h) t) = map_option view (lookup h t)"
  using assms by (simp add: lookup_store)

lemma view_fold:
  assumes "ok h" and "\<And>h m. ok h \<Longrightarrow> lookup h (ident m) = Some m \<Longrightarrow>
      ident (f m) = ident m \<and> view (f m) = view m"
  shows "ok (fold (\<lambda>k h. case lookup h k of Some m \<Rightarrow> store (f m) h | None \<Rightarrow> h) ks h)
    \<and> map_option view (lookup (fold (\<lambda>k h. case lookup h k of Some m \<Rightarrow> store (f m) h | None \<Rightarrow> h) ks h) t)
      = map_option view (lookup h t)"
  using assms(1)
proof (induction ks arbitrary: h)
  case (Cons k ks)
  show ?case
  proof (cases "lookup h k")
    case None
    with Cons show ?thesis by simp
  next
    case (Some m)
    then have m: "ident m = k" using lookup_ident [OF Cons.prems] by blast
    with Some assms(2) [OF Cons.prems, of m] have f: "ident (f m) = k" "view (f m) = view m" by auto
    from Cons.IH [OF ok_store [OF Cons.prems, of "f m"]] Some
    show ?thesis by (simp add: view_store [OF Cons.prems Some f])
  qed
qed simp

end

subsection \<open>The host keeps the contract\<close>

definition host_ok :: "'j host \<Rightarrow> bool" where
  "host_ok host = (distinct (map me_id (ho_sessions host)) \<and> same_ids host)"

lemma find_map_of: "find (\<lambda>m. me_id m = k) ms = map_of (map (\<lambda>m. (me_id m, m)) ms) k"
  by (induction ms) auto

lemma replace_meta_ids: "set (map me_id (replace_meta m ms)) = insert (me_id m) (set (map me_id ms))"
  by (induction ms) auto

lemma replace_meta_distinct: "distinct (map me_id ms) \<Longrightarrow> distinct (map me_id (replace_meta m ms))"
proof (induction ms)
  case (Cons x ms)
  from replace_meta_ids [of m ms] Cons show ?case by (auto simp: image_iff eq_commute)
qed simp

lemma replace_meta_find: "find (\<lambda>x. me_id x = k) (replace_meta m ms) =
    (if k = me_id m then Some m else find (\<lambda>x. me_id x = k) ms)"
  by (induction ms) auto

lemma sort_find:
  assumes "distinct (map me_id ms)"
  shows "find (\<lambda>x. me_id x = k) (sort_key f ms) = find (\<lambda>x. me_id x = k) ms"
proof -
  have "distinct (map me_id (sort_key f ms))"
    using assms by (metis distinct_map distinct_sort set_sort)
  with assms have "map_of (map (\<lambda>m. (me_id m, m)) (sort_key f ms)) = map_of (map (\<lambda>m. (me_id m, m)) ms)"
    by (subst map_of_inject_set) (simp_all add: o_def)
  then show ?thesis by (simp add: find_map_of)
qed

lemma upsert_find:
  assumes "distinct (map me_id ms)"
  shows "find (\<lambda>x. me_id x = k) (upsert_session m ms) =
    (if k = me_id m then Some m else find (\<lambda>x. me_id x = k) ms)"
  unfolding upsert_session_def sort_find [OF replace_meta_distinct [OF assms]] by (rule replace_meta_find)

lemma store_resident_other: "k \<noteq> me_id m \<Longrightarrow> resident (store_resident m host) k = resident host k"
  by (simp add: resident_def store_resident_def update_conv' split: option.split)

lemma find_meta_store:
  assumes "host_ok host"
  shows "find_meta (store_meta m host) k = (if k = me_id m then Some m else find_meta host k)"
proof -
  have "resident (store_meta m host) k = resident (store_resident m host) k"
    by (simp add: store_meta_def resident_def split: option.split)
  with assms store_resident_other [of k m host] show ?thesis
    by (cases "k = me_id m")
      (simp_all add: find_meta_def store_meta_def host_ok_def upsert_find split: option.split)
qed

definition keyed :: "(string \<times> 'j session_meta) list \<Rightarrow> bool" where
  "keyed es = list_all (\<lambda>e. me_id (snd e) = fst e) es"

lemma same_ids_keyed: "same_ids host \<longleftrightarrow> keyed (ho_live host) \<and> keyed (ho_parked host)"
  by (simp add: same_ids_def keyed_def)

lemma keyed_update: "keyed es \<Longrightarrow> keyed (AList.update (me_id m) m es)"
  unfolding keyed_def by (induction es) auto

lemma host_ok_store:
  assumes "host_ok host"
  shows "host_ok (store_meta m host)"
proof -
  have "distinct (map me_id (upsert_session m (ho_sessions host)))"
    using assms replace_meta_distinct unfolding host_ok_def upsert_session_def
    by (metis distinct_map distinct_sort set_sort)
  moreover have "same_ids (store_resident m host)"
    using assms by (simp add: host_ok_def same_ids_keyed store_resident_def keyed_update)
  ultimately show ?thesis
    by (simp add: host_ok_def store_meta_def same_ids_keyed)
qed

interpretation metas: meta_store find_meta store_meta me_id host_ok
proof unfold_locales
  show "me_id m = k" if "host_ok h" "find_meta h k = Some m" for h :: "'a host" and k m
    using that find_meta_id unfolding host_ok_def by blast
qed (simp_all add: find_meta_store host_ok_store)

end
