(* ===== verification/Control_Calls.thy ===== *)
theory Control_Calls
  imports Control_Store "HOL-Library.List_Lexorder" "HOL-Library.Char_ord"
begin

section \<open>Grants, references and watches of a thread\<close>

text \<open>
  The calls of \<^verbatim>\<open>control/grants.rs\<close>, \<^verbatim>\<open>control/references.rs\<close> and \<^verbatim>\<open>control/watches.rs\<close>, each with
  everything it writes: the caller's meta, the audit entries, the table of grants, the callbacks.
  The state is the host's metas with the registered threads and their table of grants, the events
  recorded in transcripts, the activity list and the callbacks delivered. Answers keep their content
  and leave its JSON out. Delivering a callback queues or steers a turn, which is not modelled.
\<close>

subsection \<open>State and audit\<close>

record activity_entry =
  ac_target_thread_id :: string
  ac_target_title :: string
  ac_at :: u64
  ac_action :: control_action

record 'j control_state =
  co_host :: "'j host"
  co_registered :: "string list"
  co_grants :: "string \<rightharpoonup> control_grant"
  co_events :: "(string \<times> control_action) list"
  co_activity :: "activity_entry list"
  co_callbacks :: "(string \<times> string) list"

definition CONTROL_ACTIVITY_LIMIT :: nat where
  "CONTROL_ACTIVITY_LIMIT = 200"

definition title_of :: "'j host \<Rightarrow> string \<Rightarrow> string" where
  "title_of host thread = (case find_meta host thread of Some m \<Rightarrow> me_title m | None \<Rightarrow> [])"

text \<open>An em dash between spaces, in UTF-8.\<close>

definition dash :: string where
  "dash = '' '' @ map char_of [226 :: nat, 128, 148] @ '' ''"

definition audit :: "u64 \<Rightarrow> string \<Rightarrow> string \<Rightarrow> string \<Rightarrow> string option \<Rightarrow>
    'j control_state \<Rightarrow> 'j control_state" where
  "audit now_ms actor target name detail st = (
     let action = \<lparr>ca_actor_thread_id = actor, ca_actor_title = title_of (co_host st) actor,
           ca_action = name, ca_detail = detail\<rparr>;
         target_title = title_of (co_host st) target;
         in_caller = action\<lparr>ca_detail := Some (case detail of
             Some d \<Rightarrow> target_title @ dash @ d | None \<Rightarrow> target_title)\<rparr>
     in st\<lparr>
       co_events := co_events st @ (target, action) # (if target \<noteq> actor then [(actor, in_caller)] else []),
       co_activity := take CONTROL_ACTIVITY_LIMIT
         (\<lparr>ac_target_thread_id = target, ac_target_title = target_title, ac_at = now_ms,
           ac_action = action\<rparr> # co_activity st)\<rparr>)"

definition write_meta :: "'j session_meta \<Rightarrow> 'j control_state \<Rightarrow> 'j control_state" where
  "write_meta m st = st\<lparr>co_host := store_meta m (co_host st)\<rparr>"

text \<open>A callback to a thread that is gone or archived is dropped.\<close>

definition deliver_callback :: "string \<Rightarrow> string \<Rightarrow> 'j control_state \<Rightarrow> 'j control_state" where
  "deliver_callback thread message st = (case find_meta (co_host st) thread of
      Some m \<Rightarrow> if me_archived_at m = None
        then st\<lparr>co_callbacks := co_callbacks st @ [(thread, message)]\<rparr> else st
    | None \<Rightarrow> st)"

text \<open>The grant a registered thread's connection lists its tools from.\<close>

definition listed_grant :: "'j host \<Rightarrow> 'j session_meta \<Rightarrow> control_grant" where
  "listed_grant host m = (if cs_enabled (ho_settings host) then fst (caller_grant host m) else no_grant)"

definition refresh_control_grants :: "'j control_state \<Rightarrow> 'j control_state" where
  "refresh_control_grants st = st\<lparr>co_grants := fold (\<lambda>thread table.
     (case find_meta (co_host st) thread of
        Some m \<Rightarrow> table(thread \<mapsto> listed_grant (co_host st) m) | None \<Rightarrow> table))
     (co_registered st) (co_grants st)\<rparr>"

subsection \<open>Asking for a grant and answering\<close>

text \<open>The answer is the pending request, already there or new.\<close>

definition op_request_grant :: "u64 \<Rightarrow> u64 \<Rightarrow> string \<Rightarrow> string \<Rightarrow> request_grant_params \<Rightarrow>
    'j control_state \<Rightarrow> (string + grant_request) \<times> 'j control_state" where
  "op_request_grant now_secs now_ms fresh_id actor params st = (case find_meta (co_host st) actor of
      None \<Rightarrow> (Inl ''unknown thread'', st)
    | Some m \<Rightarrow>
        let g = \<lparr>cg_scope = rg_scope params, cg_tiers = set (rg_tiers params),
              cg_categories = set (rg_categories params)\<rparr>;
            reason = str_trim (rg_reason params)
        in if grant_is_empty g then (Inl ''request_grant needs at least one tier or category'', st)
        else if reason = [] then (Inl ''request_grant needs a reason the user can read'', st)
        else case find (\<lambda>r. gq_grant r = g) (me_control_grant_requests m) of
            Some existing \<Rightarrow> (Inr existing, st)
          | None \<Rightarrow>
              let request = \<lparr>gq_id = fresh_id, gq_grant = g, gq_reason = reason,
                    gq_requested_at = now_secs\<rparr>;
                  m' = m\<lparr>me_control_grant_requests := me_control_grant_requests m @ [request],
                    me_updated_at := now_secs\<rparr>
              in (Inr request, audit now_ms actor actor ''request_grant'' (Some reason) (write_meta m' st)))"

datatype grant_error = Unknown_Session | Unknown_Request

definition answer_text :: "bool \<Rightarrow> control_grant \<Rightarrow> control_grant \<Rightarrow> string" where
  "answer_text approve asked now = (if approve
     then ''[control] grant approved: '' @ describe_grant asked @ ''. Your grant is now ''
       @ describe_grant now @ ''. It applies at once to the tools you already have; tools it adds appear when your provider next starts a session.''
     else ''[control] grant declined: '' @ describe_grant asked @ ''. Your grant stays ''
       @ describe_grant now @ ''.'')"

definition respond_control_grant :: "u64 \<Rightarrow> string \<Rightarrow> string \<Rightarrow> bool \<Rightarrow> 'j control_state \<Rightarrow>
    (grant_error + unit) \<times> 'j control_state" where
  "respond_control_grant now_secs session_id request_id approve st =
     (case find_meta (co_host st) session_id of
        None \<Rightarrow> (Inl Unknown_Session, st)
      | Some m \<Rightarrow>
     (case position (\<lambda>r. gq_id r = request_id) (me_control_grant_requests m) of
        None \<Rightarrow> (Inl Unknown_Request, st)
      | Some i \<Rightarrow>
          let asked = gq_grant (me_control_grant_requests m ! i);
              m1 = m\<lparr>me_control_grant_requests := remove_at i (me_control_grant_requests m)\<rparr>;
              base = (case me_control_grant m1 of
                  Some g \<Rightarrow> g | None \<Rightarrow> fst (caller_grant (co_host st) m1));
              now = (if approve then grant_merge base asked (me_project_id m1)
                else fst (caller_grant (co_host st) m1));
              m2 = (if approve then m1\<lparr>me_control_grant := Some now\<rparr> else m1)\<lparr>me_updated_at := now_secs\<rparr>
          in (Inr (), deliver_callback session_id (answer_text approve asked now)
               (refresh_control_grants (write_meta m2 st)))))"

definition set_control_grant :: "u64 \<Rightarrow> string \<Rightarrow> control_grant option \<Rightarrow> 'j control_state \<Rightarrow>
    'j control_state" where
  "set_control_grant now_secs session_id g st =
     refresh_control_grants (st\<lparr>co_host :=
       change_meta now_secs session_id (\<lambda>m. m\<lparr>me_control_grant := g\<rparr>) (co_host st)\<rparr>)"

subsection \<open>References\<close>

text \<open>The closure of \<open>add_reference\<close>, and the flag it sets.\<close>

definition adds_reference :: "'j session_meta \<Rightarrow> 'j session_meta \<Rightarrow> bool" where
  "adds_reference target m = (me_id m \<noteq> me_id target \<and> \<not> references_thread m (me_id target))"

definition with_reference :: "u64 \<Rightarrow> reference_origin \<Rightarrow> 'j session_meta \<Rightarrow> 'j session_meta \<Rightarrow> 'j session_meta" where
  "with_reference now_secs origin target m = (if adds_reference target m
     then m\<lparr>me_references := me_references m @ [\<lparr>tr_thread_id = me_id target, tr_by = origin,
       tr_created_at = now_secs,
       tr_boundary_notice = (me_project_id m \<noteq> me_project_id target \<or> me_provider m \<noteq> me_provider target)\<rparr>]\<rparr>
     else m)"

definition add_reference :: "u64 \<Rightarrow> string \<Rightarrow> 'j session_meta \<Rightarrow> reference_origin \<Rightarrow> 'j control_state \<Rightarrow>
    bool \<times> 'j control_state" where
  "add_reference now_secs session_id target origin st =
     ((case find_meta (co_host st) session_id of Some m \<Rightarrow> adds_reference target m | None \<Rightarrow> False),
      st\<lparr>co_host := change_meta now_secs session_id (with_reference now_secs origin target) (co_host st)\<rparr>)"

definition boundary_crossed :: "'j host \<Rightarrow> string \<Rightarrow> string \<Rightarrow> bool" where
  "boundary_crossed host session_id target = (case find_meta host session_id of
      Some m \<Rightarrow> (case find (\<lambda>r. tr_thread_id r = target) (me_references m) of
          Some r \<Rightarrow> tr_boundary_notice r | None \<Rightarrow> False)
    | None \<Rightarrow> False)"

text \<open>The answer: the target, its title, whether it crosses a boundary, and whether the user hears so.\<close>

definition op_reference :: "u64 \<Rightarrow> u64 \<Rightarrow> string \<Rightarrow> reference_params \<Rightarrow> 'j control_state \<Rightarrow>
    (string + string \<times> string \<times> bool \<times> bool) \<times> 'j control_state" where
  "op_reference now_secs now_ms actor params st = (case find_meta (co_host st) (re_thread_id params) of
      None \<Rightarrow> (Inl (''unknown thread: '' @ re_thread_id params), st)
    | Some target \<Rightarrow>
        if me_id target = actor
        then (Inl ''a thread always reads its own log; it needs no reference'', st)
        else (case add_reference now_secs actor target Reference_Model st of
          (added, st') \<Rightarrow>
            let crossed = boundary_crossed (co_host st') actor (me_id target)
            in (Inr (me_id target, me_title target, crossed, added \<and> crossed),
                audit now_ms actor actor ''reference'' (Some (me_title target)) st')))"

definition add_thread_reference :: "u64 \<Rightarrow> string \<Rightarrow> string \<Rightarrow> 'j control_state \<Rightarrow>
    (grant_error + bool) \<times> 'j control_state" where
  "add_thread_reference now_secs session_id thread st = (case find_meta (co_host st) thread of
      None \<Rightarrow> (Inl Unknown_Session, st)
    | Some target \<Rightarrow> (case add_reference now_secs session_id target Reference_User st of
        (added, st') \<Rightarrow> (Inr (added \<and> (case find_meta (co_host st') session_id of
            Some m \<Rightarrow> list_ex (\<lambda>r. tr_thread_id r = me_id target \<and> tr_boundary_notice r) (me_references m)
          | None \<Rightarrow> False)), st')))"

definition remove_thread_reference :: "u64 \<Rightarrow> string \<Rightarrow> string \<Rightarrow> 'j control_state \<Rightarrow> 'j control_state" where
  "remove_thread_reference now_secs session_id thread st =
     st\<lparr>co_host := change_meta now_secs session_id
       (\<lambda>m. m\<lparr>me_references := filter (\<lambda>r. tr_thread_id r \<noteq> thread) (me_references m)\<rparr>) (co_host st)\<rparr>"

subsection \<open>Watches\<close>

text \<open>An answer names the watch, if there is one, and the targets skipped with the reason.\<close>

definition op_notify_when :: "u64 \<Rightarrow> string \<Rightarrow> caller \<Rightarrow> notify_when_params \<Rightarrow> 'j control_state \<Rightarrow>
    (string + control_watch option \<times> (string \<times> string) list) \<times> 'j control_state" where
  "op_notify_when now_ms fresh_id caller params st =
     (if nw_thread_ids params = [] then (Inl ''notify_when needs at least one thread id'', st)
      else if nw_events params = [] then (Inl ''notify_when needs at least one event'', st)
      else case find_meta (co_host st) (cl_thread_id caller) of
        None \<Rightarrow> (Inl ''unknown thread'', st)
      | Some m \<Rightarrow>
     (case Option.bind (nw_request_id params)
             (\<lambda>request. find (\<lambda>w. cw_id w = request) (me_control_watches m)) of
        Some w \<Rightarrow> (Inr (Some w, []), st)
      | None \<Rightarrow>
          let ids = remdups_adj (sort (nw_thread_ids params));
              verdicts = map (\<lambda>t. (t, batch_target (co_host st) caller t True)) ids;
              skipped = List.map_filter (\<lambda>(t, v).
                case v of Inl reason \<Rightarrow> Some (t, reason) | Inr _ \<Rightarrow> None) verdicts;
              kept = List.map_filter (\<lambda>(t, v). case v of Inl _ \<Rightarrow> None | Inr _ \<Rightarrow> Some t) verdicts
          in if kept = [] then (Inr (None, skipped), st)
          else let w = \<lparr>cw_id = (case nw_request_id params of Some r \<Rightarrow> r | None \<Rightarrow> fresh_id),
                    cw_thread_ids = kept, cw_events = set (nw_events params),
                    cw_once = (case nw_once params of Some b \<Rightarrow> b | None \<Rightarrow> False)\<rparr>;
                  st' = write_meta (m\<lparr>me_control_watches := me_control_watches m @ [w]\<rparr>) st
               in (Inr (Some w, skipped),
                   fold (\<lambda>t. audit now_ms (cl_thread_id caller) t ''notify_when'' (Some (cw_id w))) kept st')))"

definition op_cancel_notify :: "u64 \<Rightarrow> string \<Rightarrow> cancel_notify_params \<Rightarrow> 'j control_state \<Rightarrow>
    (string + string list \<times> string list) \<times> 'j control_state" where
  "op_cancel_notify now_ms actor params st = (case find_meta (co_host st) actor of
      None \<Rightarrow> (Inl ''unknown thread'', st)
    | Some m \<Rightarrow>
        let known = (\<lambda>i. list_ex (\<lambda>w. cw_id w = i) (me_control_watches m));
            removed = filter known (cn_ids params);
            unknown = filter (\<lambda>i. \<not> known i) (cn_ids params)
        in (Inr (removed, unknown),
            if removed = [] then st
            else audit now_ms actor actor ''cancel_notify'' (Some (intercalate '', '' removed))
              (write_meta (m\<lparr>me_control_watches :=
                filter (\<lambda>w. cw_id w \<notin> set removed) (me_control_watches m)\<rparr>) st)))"

definition watch_fires :: "string \<Rightarrow> watch_event \<Rightarrow> control_watch \<Rightarrow> bool" where
  "watch_fires target event w = (event \<in> cw_events w \<and> list_ex (\<lambda>t. t = target) (cw_thread_ids w))"

definition watchers_of :: "string \<Rightarrow> watch_event \<Rightarrow> 'j host \<Rightarrow> string list" where
  "watchers_of target event host = map me_id (filter
     (\<lambda>m. list_ex (watch_fires target event) (me_control_watches m)) (ho_sessions host))"

text \<open>One turn of the loop over the watchers.\<close>

definition wake_watcher :: "string \<Rightarrow> 'j session_meta \<Rightarrow> watch_event \<Rightarrow> string \<Rightarrow> string \<Rightarrow>
    'j control_state \<Rightarrow> 'j control_state" where
  "wake_watcher target_id target event message watcher st = (case find_meta (co_host st) watcher of
      None \<Rightarrow> st
    | Some m \<Rightarrow>
        let caller = caller_of (co_host st) m;
            kept = filter (\<lambda>w. \<not> (cw_once w \<and> watch_fires target_id event w)) (me_control_watches m)
        in if \<not> target_reachable (co_host st) caller (cg_scope (cl_grant caller)) target True then st
        else deliver_callback watcher message
          (if length kept \<noteq> length (me_control_watches m)
           then write_meta (m\<lparr>me_control_watches := kept\<rparr>) st else st))"

text \<open>
  \<open>running\<close> says whether a turn of the target is running, \<open>message_for\<close> writes the callback (it
  quotes the title through serde).
\<close>

definition fire_control_watches :: "bool \<Rightarrow> ('j session_meta \<Rightarrow> string) \<Rightarrow> string \<Rightarrow> watch_event \<Rightarrow>
    'j control_state \<Rightarrow> 'j control_state" where
  "fire_control_watches running message_for target_id event st =
     (if \<not> cs_enabled (ho_settings (co_host st)) \<or> event = Watch_Idle \<and> running then st
      else
        let watchers = watchers_of target_id event (co_host st)
        in if watchers = [] then st
        else case find_meta (co_host st) target_id of
            None \<Rightarrow> st
          | Some target \<Rightarrow> fold (wake_watcher target_id target event (message_for target)) watchers st)"

subsection \<open>What an operation leaves alone\<close>

definition keeps :: "('j session_meta \<Rightarrow> 'v) \<Rightarrow> 'j control_state \<Rightarrow> 'j control_state \<Rightarrow> bool" where
  "keeps view st st' = (host_ok (co_host st) \<longrightarrow> host_ok (co_host st')
     \<and> ho_settings (co_host st') = ho_settings (co_host st)
     \<and> (\<forall>t. map_option view (find_meta (co_host st') t) = map_option view (find_meta (co_host st) t)))"

named_theorems keeps_intros \<open>operations that keep a view of every meta\<close>

lemma keeps_refl [keeps_intros]: "keeps view st st"
  by (simp add: keeps_def)

lemma keeps_trans: "keeps view a b \<Longrightarrow> keeps view b c \<Longrightarrow> keeps view a c"
  by (simp add: keeps_def)

lemma keeps_same_host: "keeps view a b \<Longrightarrow> co_host c = co_host b \<Longrightarrow> keeps view a c"
  by (simp add: keeps_def)

lemma store_settings [simp]: "ho_settings (store_meta m host) = ho_settings host"
  by (simp add: store_meta_def store_resident_def)

lemma audit_frame [simp]:
  "co_host (audit now a t n d st) = co_host st" "co_grants (audit now a t n d st) = co_grants st"
  "co_registered (audit now a t n d st) = co_registered st"
  "co_callbacks (audit now a t n d st) = co_callbacks st"
  by (simp_all add: audit_def Let_def)

lemma write_frame [simp]:
  "co_host (write_meta m st) = store_meta m (co_host st)" "co_grants (write_meta m st) = co_grants st"
  "co_registered (write_meta m st) = co_registered st"
  "co_callbacks (write_meta m st) = co_callbacks st"
  by (simp_all add: write_meta_def)

lemma deliver_frame [simp]:
  "co_host (deliver_callback t s st) = co_host st" "co_grants (deliver_callback t s st) = co_grants st"
  "co_registered (deliver_callback t s st) = co_registered st"
  by (simp_all add: deliver_callback_def split: option.split)

lemma refresh_frame [simp]:
  "co_host (refresh_control_grants st) = co_host st"
  "co_registered (refresh_control_grants st) = co_registered st"
  "co_callbacks (refresh_control_grants st) = co_callbacks st"
  by (simp_all add: refresh_control_grants_def)

lemma audit_all_frame [simp]:
  "co_host (fold (\<lambda>t. audit now a t n d) ts st) = co_host st"
  "co_grants (fold (\<lambda>t. audit now a t n d) ts st) = co_grants st"
  "co_registered (fold (\<lambda>t. audit now a t n d) ts st) = co_registered st"
  by (induction ts arbitrary: st) simp_all

lemma keeps_write:
  assumes "find_meta (co_host st) t = Some before" "me_id m = me_id before" "view m = view before"
  shows "keeps view st (write_meta m st)"
proof -
  have "me_id m = t" if "host_ok (co_host st)" using metas.lookup_ident [OF that assms(1)] assms(2) by simp
  with metas.view_store [OF _ assms(1) _ assms(3)] show ?thesis
    by (simp add: keeps_def host_ok_store)
qed

lemma change_meta_settings [simp]: "ho_settings (change_meta now t f host) = ho_settings host"
  by (simp add: change_meta_def split: option.split)

lemma keeps_change:
  assumes "\<And>m. me_id (f m) = me_id m" and "\<And>m u. view ((f m)\<lparr>me_updated_at := u\<rparr>) = view m"
  shows "keeps view st (st\<lparr>co_host := change_meta now t f (co_host st)\<rparr>)"
proof (cases "find_meta (co_host st) t")
  case None
  then show ?thesis by (simp add: keeps_def change_meta_def)
next
  case (Some m)
  show ?thesis
  proof (cases "f m = m")
    case True
    with Some show ?thesis by (simp add: keeps_def change_meta_def)
  next
    case False
    have "keeps view st (write_meta ((f m)\<lparr>me_updated_at := now\<rparr>) st)"
      by (rule keeps_write [OF Some]) (simp_all add: assms)
    with Some False show ?thesis by (simp add: change_meta_def write_meta_def)
  qed
qed

end
