(* ===== verification/Control_Laws.thy ===== *)
theory Control_Laws
  imports Control_Calls
begin

section \<open>What the calls of the control surface may change\<close>

text \<open>
  Agent calls and user calls as steps of one relation. Agent calls never change a grant in force; the
  table the connections list their tools from follows the grants; an approved request widens the
  grant by exactly what was asked; a watch wakes exactly the watchers that may still reach the target.
\<close>

datatype step_by = By_Agent | By_User

inductive control_step :: "step_by \<Rightarrow> 'j control_state \<Rightarrow> 'j control_state \<Rightarrow> bool" where
  ask: "control_step By_Agent st (snd (op_request_grant secs ms fresh actor p_ask st))"
| refer: "control_step By_Agent st (snd (op_reference secs ms actor p_ref st))"
| watch: "control_step By_Agent st (snd (op_notify_when ms fresh caller p_watch st))"
| unwatch: "control_step By_Agent st (snd (op_cancel_notify ms actor p_cancel st))"
| fire: "control_step By_Agent st (fire_control_watches running message_for target event st)"
| answer: "control_step By_User st (snd (respond_control_grant secs session request approve st))"
| set_grant: "control_step By_User st (set_control_grant secs session g st)"
| mention: "control_step By_User st (snd (add_thread_reference secs session thread st))"
| forget: "control_step By_User st (remove_thread_reference secs session thread st)"

inductive_cases control_stepE: "control_step who st st'"

subsection \<open>Frames of the calls\<close>

definition grant_view :: "'j session_meta \<Rightarrow> control_grant option \<times> string option" where
  "grant_view m = (me_control_grant m, me_project_id m)"

definition leaves_grants :: "'j control_state \<Rightarrow> 'j control_state \<Rightarrow> bool" where
  "leaves_grants st st' = (keeps grant_view st st' \<and> co_grants st' = co_grants st
     \<and> co_registered st' = co_registered st)"

lemma leaves_refl [simp]: "leaves_grants st st"
  by (simp add: leaves_grants_def keeps_refl)

lemma leaves_trans: "leaves_grants a b \<Longrightarrow> leaves_grants b c \<Longrightarrow> leaves_grants a c"
  unfolding leaves_grants_def using keeps_trans by metis

lemma leaves_write:
  assumes "find_meta (co_host st) t = Some before" "me_id m = me_id before" "grant_view m = grant_view before"
  shows "leaves_grants st (write_meta m st)"
  using keeps_write [OF assms] by (simp add: leaves_grants_def)

lemma leaves_then:
  assumes "leaves_grants st a" "co_host b = co_host a" "co_grants b = co_grants a"
    "co_registered b = co_registered a"
  shows "leaves_grants st b"
  using assms keeps_same_host unfolding leaves_grants_def by metis

lemma leaves_change:
  assumes "\<And>m. me_id (f m) = me_id m" and "\<And>m u. grant_view ((f m)\<lparr>me_updated_at := u\<rparr>) = grant_view m"
  shows "leaves_grants st (st\<lparr>co_host := change_meta now t f (co_host st)\<rparr>)"
  using keeps_change [of f grant_view, OF assms] by (simp add: leaves_grants_def)

lemma ask_leaves: "leaves_grants st (snd (op_request_grant secs ms fresh actor p st))"
proof (cases "find_meta (co_host st) actor")
  case None
  then show ?thesis by (simp add: op_request_grant_def)
next
  case (Some m)
  have "leaves_grants st (audit a b c d e (write_meta (m\<lparr>me_control_grant_requests := rs, me_updated_at := u\<rparr>) st))"
    for a b c d e rs u
    by (rule leaves_then [OF leaves_write [OF Some]]) (simp_all add: grant_view_def)
  with Some show ?thesis by (simp add: op_request_grant_def Let_def split: option.split)
qed

lemma with_reference_frame [simp]:
  "me_id (with_reference secs origin target m) = me_id m"
  "grant_view ((with_reference secs origin target m)\<lparr>me_updated_at := u\<rparr>) = grant_view m"
  by (simp_all add: with_reference_def grant_view_def)

lemma add_reference_leaves: "leaves_grants st (snd (add_reference secs session target origin st))"
  by (simp add: add_reference_def leaves_change)

lemma refer_leaves: "leaves_grants st (snd (op_reference secs ms actor p st))"
  by (auto simp: op_reference_def Let_def split: option.split prod.split
      intro!: leaves_then [OF add_reference_leaves]) (simp_all add: add_reference_def)

lemma mention_leaves: "leaves_grants st (snd (add_thread_reference secs session thread st))"
  using add_reference_leaves [of st secs session _ Reference_User]
  by (simp add: add_thread_reference_def case_prod_beta split: option.split)

lemma forget_leaves: "leaves_grants st (remove_thread_reference secs session thread st)"
  unfolding remove_thread_reference_def by (rule leaves_change) (simp_all add: grant_view_def)

lemma watch_leaves: "leaves_grants st (snd (op_notify_when ms fresh caller p st))"
proof (cases "find_meta (co_host st) (cl_thread_id caller)")
  case None
  then show ?thesis by (simp add: op_notify_when_def)
next
  case (Some m)
  have "leaves_grants st (fold (\<lambda>t. audit a b t c d) ts (write_meta (m\<lparr>me_control_watches := ws\<rparr>) st))"
    for a b c d ts ws
    by (rule leaves_then [OF leaves_write [OF Some]]) (simp_all add: grant_view_def)
  with Some show ?thesis by (simp add: op_notify_when_def Let_def split: option.split)
qed

lemma unwatch_leaves: "leaves_grants st (snd (op_cancel_notify ms actor p st))"
proof (cases "find_meta (co_host st) actor")
  case None
  then show ?thesis by (simp add: op_cancel_notify_def)
next
  case (Some m)
  have "leaves_grants st (audit a b c d e (write_meta (m\<lparr>me_control_watches := ws\<rparr>) st))" for a b c d e ws
    by (rule leaves_then [OF leaves_write [OF Some]]) (simp_all add: grant_view_def)
  with Some show ?thesis by (simp add: op_cancel_notify_def Let_def)
qed

lemma wake_leaves: "leaves_grants st (wake_watcher target_id target event message watcher st)"
proof (cases "find_meta (co_host st) watcher")
  case None
  then show ?thesis by (simp add: wake_watcher_def)
next
  case (Some m)
  have "leaves_grants st (deliver_callback a b (write_meta (m\<lparr>me_control_watches := ws\<rparr>) st))" for a b ws
    by (rule leaves_then [OF leaves_write [OF Some]]) (simp_all add: grant_view_def)
  moreover have "leaves_grants st (deliver_callback a b st)" for a b
    by (rule leaves_then [OF leaves_refl]) simp_all
  ultimately show ?thesis using Some by (simp add: wake_watcher_def Let_def)
qed

lemma wake_all_leaves: "leaves_grants st (fold (wake_watcher target_id target event message) ws st)"
  by (induction ws arbitrary: st) (auto intro: leaves_trans [OF wake_leaves])

lemma fire_leaves: "leaves_grants st (fire_control_watches running message_for target event st)"
  by (simp add: fire_control_watches_def Let_def wake_all_leaves split: option.split)

lemmas call_leaves = ask_leaves refer_leaves watch_leaves unwatch_leaves fire_leaves mention_leaves
  forget_leaves

lemma agent_step_leaves: "control_step By_Agent st st' \<Longrightarrow> leaves_grants st st'"
  by (erule control_stepE) (simp_all add: call_leaves)

lemma leaves_in_force:
  assumes "leaves_grants st st'" "host_ok (co_host st)"
  shows "map_option (caller_grant (co_host st')) (find_meta (co_host st') t)
    = map_option (caller_grant (co_host st)) (find_meta (co_host st) t)"
proof -
  have same: "ho_settings (co_host st') = ho_settings (co_host st)"
    "map_option grant_view (find_meta (co_host st') t) = map_option grant_view (find_meta (co_host st) t)"
    using assms by (simp_all add: leaves_grants_def keeps_def)
  have "caller_grant host m = resolve_grant (ho_settings host) (fst (grant_view m)) (snd (grant_view m))"
    for host :: "'a host" and m
    by (simp add: caller_grant_def grant_view_def)
  with same show ?thesis
    by (cases "find_meta (co_host st') t"; cases "find_meta (co_host st) t") simp_all
qed

text \<open>
  No sequence of these calls by agents changes what any agent may do: asking for a grant, referencing a
  thread, watching, cancelling and waking leave the grant in force of every thread, and the table of
  grants the connections list their tools from, as they are.
\<close>

lemma agent_calls_keep_the_grants:
  assumes "host_ok (co_host st)" and "(control_step By_Agent)\<^sup>*\<^sup>* st st'"
  shows "map_option (caller_grant (co_host st')) (find_meta (co_host st') t)
      = map_option (caller_grant (co_host st)) (find_meta (co_host st) t)
    \<and> co_grants st' = co_grants st"
proof -
  from assms(2) have "leaves_grants st st'"
    by (induction rule: rtranclp_induct) (auto intro: leaves_trans agent_step_leaves)
  with leaves_in_force [OF this assms(1)] show ?thesis by (simp add: leaves_grants_def)
qed

subsection \<open>The table of grants\<close>

definition table_current :: "'j control_state \<Rightarrow> bool" where
  "table_current st = (\<forall>t\<in>set (co_registered st). \<forall>m. find_meta (co_host st) t = Some m \<longrightarrow>
     co_grants st t = Some (listed_grant (co_host st) m))"

lemma refresh_table:
  "co_grants (refresh_control_grants st) t =
     (if t \<in> set (co_registered st) then (case find_meta (co_host st) t of
          Some m \<Rightarrow> Some (listed_grant (co_host st) m) | None \<Rightarrow> co_grants st t)
      else co_grants st t)"
proof -
  have "fold (\<lambda>thread table. case find_meta (co_host st) thread of
        Some m \<Rightarrow> table(thread \<mapsto> listed_grant (co_host st) m) | None \<Rightarrow> table) ks table t
      = (if t \<in> set ks then (case find_meta (co_host st) t of
            Some m \<Rightarrow> Some (listed_grant (co_host st) m) | None \<Rightarrow> table t) else table t)" for ks table
    by (induction ks arbitrary: table) (auto split: option.split)
  then show ?thesis by (simp add: refresh_control_grants_def)
qed

lemma table_current_refresh: "table_current (refresh_control_grants st)"
  by (simp add: table_current_def refresh_table)

lemma table_current_deliver: "table_current st \<Longrightarrow> table_current (deliver_callback t s st)"
  by (simp add: table_current_def)

lemma table_current_leaves:
  assumes "leaves_grants st st'" "host_ok (co_host st)" "table_current st"
  shows "table_current st'"
  unfolding table_current_def
proof (intro ballI allI impI)
  fix t m'
  assume t: "t \<in> set (co_registered st')" "find_meta (co_host st') t = Some m'"
  have same: "ho_settings (co_host st') = ho_settings (co_host st)"
    "co_grants st' = co_grants st" "co_registered st' = co_registered st"
    using assms(1,2) by (simp_all add: leaves_grants_def keeps_def)
  from leaves_in_force [OF assms(1,2), of t] t(2) obtain m where
    m: "find_meta (co_host st) t = Some m" "caller_grant (co_host st) m = caller_grant (co_host st') m'"
    by (cases "find_meta (co_host st) t") auto
  with assms(3) t(1) same show "co_grants st' t = Some (listed_grant (co_host st') m')"
    by (auto simp: table_current_def listed_grant_def)
qed

lemma host_ok_leaves: "leaves_grants st st' \<Longrightarrow> host_ok (co_host st) \<Longrightarrow> host_ok (co_host st')"
  by (simp add: leaves_grants_def keeps_def)

lemma host_ok_change: "host_ok host \<Longrightarrow> host_ok (change_meta now t f host)"
  by (simp add: change_meta_def host_ok_store split: option.split)

lemma host_ok_respond: "host_ok (co_host st) \<Longrightarrow>
    host_ok (co_host (snd (respond_control_grant secs session request approve st)))"
  by (simp add: respond_control_grant_def Let_def host_ok_store split: option.split)

lemma step_table_current:
  assumes "control_step who st st'" "host_ok (co_host st)" "table_current st"
  shows "host_ok (co_host st') \<and> table_current st'"
  using assms(1)
proof cases
  case (answer secs session request approve)
  have "table_current st'"
    using assms(3) unfolding answer
    by (auto simp: respond_control_grant_def Let_def split: option.split
        intro!: table_current_deliver table_current_refresh)
  with host_ok_respond [OF assms(2)] answer show ?thesis by simp
next
  case (set_grant secs session g)
  then show ?thesis
    using assms(2) by (simp add: set_control_grant_def table_current_refresh host_ok_change)
qed (use assms(2,3) in \<open>auto intro: host_ok_leaves table_current_leaves call_leaves\<close>)

text \<open>
  Through any sequence of calls of agents and users, the table a registered thread's connection
  lists its tools from shows the grant in force for that thread, or nothing while the surface is off.
\<close>

theorem listed_tools_follow_the_grants:
  assumes "host_ok (co_host st)" "table_current st"
    and "(\<lambda>s s'. \<exists>who. control_step who s s')\<^sup>*\<^sup>* st st'"
  shows "table_current st'"
proof -
  from assms(3) have "host_ok (co_host st') \<and> table_current st'"
    by (induction rule: rtranclp_induct) (use assms(1,2) step_table_current in blast)+
  then show ?thesis by blast
qed

subsection \<open>Answering a request\<close>

lemma remove_at_distinct: "distinct (map f xs) \<Longrightarrow> distinct (map f (remove_at i xs))"
  unfolding remove_at_def map_append distinct_append take_map [symmetric] drop_map [symmetric]
  by (meson distinct_drop distinct_take lessI less_imp_le_nat set_take_disj_set_drop_if_distinct)

lemma remove_at_subset: "set (remove_at i xs) \<subseteq> set xs"
  unfolding remove_at_def by (simp add: set_take_subset set_drop_subset)

text \<open>
  C34: The user's answer to a grant request. Approved, the thread's grant in force reaches exactly what
  it reached and what was asked, with exactly the tiers and categories of both; declined, it is
  unchanged. The request leaves the list, so it cannot be answered again with effect, and no other
  thread's meta changes.
\<close>

theorem answered_request_widens_by_what_was_asked:
  assumes ok: "host_ok (co_host st)" and meta: "find_meta (co_host st) thread = Some m"
    and request: "position (\<lambda>r. gq_id r = request) (me_control_grant_requests m) = Some i"
    and after: "st' = snd (respond_control_grant secs thread request approve st)"
  shows "\<exists>m'. find_meta (co_host st') thread = Some m'
    \<and> me_control_grant_requests m' = remove_at i (me_control_grant_requests m)
    \<and> (let before = fst (caller_grant (co_host st) m);
           asked = (if approve then [gq_grant (me_control_grant_requests m ! i)] else []);
           now = fst (caller_grant (co_host st') m'); c = me_project_id m
       in {t. reaches (cg_scope now) c t}
            = {t. reaches (cg_scope before) c t} \<union> (\<Union>g\<in>set asked. {t. reaches (cg_scope g) c t})
          \<and> cg_tiers now = cg_tiers before \<union> (\<Union>g\<in>set asked. cg_tiers g)
          \<and> cg_categories now = cg_categories before \<union> (\<Union>g\<in>set asked. cg_categories g))
    \<and> (\<forall>t. t = thread \<or> find_meta (co_host st') t = find_meta (co_host st) t)"
proof -
  let ?h = "co_host st"
  let ?before = "fst (caller_grant ?h m)"
  let ?asked = "gq_grant (me_control_grant_requests m ! i)"
  let ?m1 = "m\<lparr>me_control_grant_requests := remove_at i (me_control_grant_requests m)\<rparr>"
  let ?m2 = "(if approve then ?m1\<lparr>me_control_grant := Some (grant_merge ?before ?asked (me_project_id m))\<rparr>
    else ?m1)\<lparr>me_updated_at := secs\<rparr>"
  have mid: "me_id m = thread" using metas.lookup_ident [OF ok meta] .
  have base: "(case me_control_grant m of Some g \<Rightarrow> g | None \<Rightarrow> fst (caller_grant ?h ?m1)) = ?before"
    by (simp add: caller_grant_def resolve_grant_def split: option.split)
  have host: "co_host st' = store_meta ?m2 ?h"
    unfolding after using meta request base
    by (simp add: respond_control_grant_def Let_def cong: if_cong)
  have lookup: "find_meta (co_host st') t = (if t = thread then Some ?m2 else find_meta ?h t)" for t
    unfolding host find_meta_store [OF ok] by (simp add: mid)
  have now: "fst (caller_grant (co_host st') ?m2)
      = (if approve then grant_merge ?before ?asked (me_project_id m) else ?before)"
    by (simp add: host caller_grant_def resolve_grant_def cong: option.case_cong)
  show ?thesis
    by (rule exI [of _ ?m2]) (simp add: lookup now Let_def grant_merge_def widen_reaches)
qed

subsection \<open>Requests and references stay distinct\<close>

definition meta_wf :: "'j session_meta \<Rightarrow> bool" where
  "meta_wf m = (distinct (map tr_thread_id (me_references m))
     \<and> me_id m \<notin> tr_thread_id ` set (me_references m)
     \<and> distinct (map gq_grant (me_control_grant_requests m)))"

definition control_wf :: "'j control_state \<Rightarrow> bool" where
  "control_wf st = (host_ok (co_host st)
     \<and> (\<forall>t m. find_meta (co_host st) t = Some m \<or> resident (co_host st) t = Some m \<longrightarrow> meta_wf m))"

lemma resident_stored: "resident (store_meta m host) t = Some r \<Longrightarrow> r = m \<or> resident host t = Some r"
proof -
  assume "resident (store_meta m host) t = Some r"
  then have r: "resident (store_resident m host) t = Some r"
    by (simp add: store_meta_def resident_def split: option.splits)
  show ?thesis
  proof (cases "t = me_id m")
    case True
    with r show ?thesis by (auto simp: store_resident_def resident_def update_conv' split: option.splits if_splits)
  next
    case False
    with r show ?thesis by (simp add: store_resident_other)
  qed
qed

lemma wf_write: "control_wf st \<Longrightarrow> meta_wf m \<Longrightarrow> control_wf (write_meta m st)"
  by (auto simp: control_wf_def host_ok_store find_meta_store split: if_splits dest: resident_stored)

lemma wf_same_host: "control_wf a \<Longrightarrow> co_host b = co_host a \<Longrightarrow> control_wf b"
  by (simp add: control_wf_def)

lemma wf_meta: "control_wf st \<Longrightarrow> find_meta (co_host st) t = Some m \<Longrightarrow> meta_wf m"
  by (auto simp: control_wf_def)

lemma meta_wf_stamp [simp]: "meta_wf (m\<lparr>me_updated_at := u\<rparr>) = meta_wf m"
  by (simp add: meta_wf_def)

lemma meta_wf_watches [simp]: "meta_wf (m\<lparr>me_control_watches := ws\<rparr>) = meta_wf m"
  by (simp add: meta_wf_def)

lemma meta_wf_grant [simp]: "meta_wf (m\<lparr>me_control_grant := g\<rparr>) = meta_wf m"
  by (simp add: meta_wf_def)

lemma wf_change:
  assumes "control_wf st" and "\<And>m. meta_wf m \<Longrightarrow> meta_wf (f m)"
  shows "control_wf (st\<lparr>co_host := change_meta now t f (co_host st)\<rparr>)"
proof (cases "find_meta (co_host st) t")
  case None
  with assms show ?thesis by (simp add: change_meta_def)
next
  case (Some m)
  have "control_wf (write_meta ((f m)\<lparr>me_updated_at := now\<rparr>) st)"
    by (rule wf_write [OF assms(1)]) (simp add: assms(2) wf_meta [OF assms(1) Some])
  with Some assms(1) show ?thesis by (simp add: change_meta_def write_meta_def)
qed

lemma meta_wf_reference: "meta_wf m \<Longrightarrow> meta_wf (with_reference secs origin target m)"
  by (auto simp: meta_wf_def with_reference_def adds_reference_def references_thread_def list_ex_iff)

lemma meta_wf_forget: "meta_wf m \<Longrightarrow>
    meta_wf (m\<lparr>me_references := filter (\<lambda>r. tr_thread_id r \<noteq> thread) (me_references m)\<rparr>)"
  by (auto simp: meta_wf_def distinct_map_filter)

lemma meta_wf_answered: "meta_wf m \<Longrightarrow>
    meta_wf (m\<lparr>me_control_grant_requests := remove_at i (me_control_grant_requests m)\<rparr>)"
  by (simp add: meta_wf_def remove_at_distinct)

lemma meta_wf_asked: "meta_wf m \<Longrightarrow> find (\<lambda>r. gq_grant r = g) (me_control_grant_requests m) = None \<Longrightarrow>
    meta_wf (m\<lparr>me_control_grant_requests := me_control_grant_requests m
      @ [\<lparr>gq_id = i, gq_grant = g, gq_reason = s, gq_requested_at = u\<rparr>]\<rparr>)"
  by (auto simp: meta_wf_def find_None_iff)

lemma wf_frame [simp]:
  "control_wf (audit a b c d e st) = control_wf st"
  "control_wf (deliver_callback t s st) = control_wf st"
  "control_wf (refresh_control_grants st) = control_wf st"
  "control_wf (fold (\<lambda>t. audit a b t d e) ts st) = control_wf st"
  by (simp_all add: control_wf_def)

lemma ask_wf:
  assumes "control_wf st"
  shows "control_wf (snd (op_request_grant secs ms fresh actor p st))"
proof (cases "find_meta (co_host st) actor")
  case None
  with assms show ?thesis by (simp add: op_request_grant_def)
next
  case (Some m)
  let ?g = "\<lparr>cg_scope = rg_scope p, cg_tiers = set (rg_tiers p), cg_categories = set (rg_categories p)\<rparr>"
  show ?thesis
  proof (cases "find (\<lambda>r. gq_grant r = ?g) (me_control_grant_requests m)")
    case None
    from wf_write [OF assms, of "_\<lparr>me_updated_at := secs\<rparr>"] meta_wf_asked [OF wf_meta [OF assms Some] None]
    have "control_wf (write_meta (m\<lparr>me_control_grant_requests := me_control_grant_requests m
      @ [\<lparr>gq_id = i, gq_grant = ?g, gq_reason = s, gq_requested_at = u\<rparr>], me_updated_at := secs\<rparr>) st)" for i s u
      by simp
    with assms Some None show ?thesis by (simp add: op_request_grant_def Let_def)
  next
    case (Some r)
    with assms \<open>find_meta (co_host st) actor = Some m\<close> show ?thesis
      by (simp add: op_request_grant_def Let_def)
  qed
qed

lemma add_reference_wf: "control_wf st \<Longrightarrow> control_wf (snd (add_reference secs session target origin st))"
  by (simp add: add_reference_def wf_change meta_wf_reference)

lemma refer_wf: "control_wf st \<Longrightarrow> control_wf (snd (op_reference secs ms actor p st))"
  using add_reference_wf [of st secs actor _ Reference_Model]
  by (simp add: op_reference_def Let_def case_prod_beta split: option.split)

lemma mention_wf: "control_wf st \<Longrightarrow> control_wf (snd (add_thread_reference secs session thread st))"
  using add_reference_wf [of st secs session _ Reference_User]
  by (simp add: add_thread_reference_def case_prod_beta split: option.split)

lemma wf_write_watches: "control_wf st \<Longrightarrow> find_meta (co_host st) t = Some m \<Longrightarrow>
    control_wf (write_meta (m\<lparr>me_control_watches := ws\<rparr>) st)"
  by (rule wf_write) (simp_all add: wf_meta)

lemma watch_wf: "control_wf st \<Longrightarrow> control_wf (snd (op_notify_when ms fresh caller p st))"
  by (cases "find_meta (co_host st) (cl_thread_id caller)")
    (simp_all add: op_notify_when_def Let_def wf_write_watches split: option.split)

lemma unwatch_wf: "control_wf st \<Longrightarrow> control_wf (snd (op_cancel_notify ms actor p st))"
  by (cases "find_meta (co_host st) actor")
    (simp_all add: op_cancel_notify_def Let_def wf_write_watches)

lemma wake_wf: "control_wf st \<Longrightarrow> control_wf (wake_watcher target_id target event message watcher st)"
  by (cases "find_meta (co_host st) watcher")
    (simp_all add: wake_watcher_def Let_def wf_write_watches)

lemma wake_all_wf: "control_wf st \<Longrightarrow> control_wf (fold (wake_watcher target_id target event message) ws st)"
  by (induction ws arbitrary: st) (simp_all add: wake_wf)

lemma fire_wf: "control_wf st \<Longrightarrow> control_wf (fire_control_watches running message_for target event st)"
  by (simp add: fire_control_watches_def Let_def wake_all_wf split: option.split)

lemma answer_wf:
  assumes "control_wf st"
  shows "control_wf (snd (respond_control_grant secs session request approve st))"
proof (cases "find_meta (co_host st) session")
  case None
  with assms show ?thesis by (simp add: respond_control_grant_def)
next
  case (Some m)
  note wf = wf_write [OF assms] meta_wf_answered [OF wf_meta [OF assms Some]]
  show ?thesis
    using assms Some by (simp add: respond_control_grant_def Let_def wf split: option.split)
qed

lemma set_wf: "control_wf st \<Longrightarrow> control_wf (set_control_grant secs session g st)"
  unfolding set_control_grant_def by (rule wf_same_host [OF wf_change]) simp_all

lemma forget_wf: "control_wf st \<Longrightarrow> control_wf (remove_thread_reference secs session thread st)"
  unfolding remove_thread_reference_def by (rule wf_change) (simp_all add: meta_wf_forget)

lemma step_wf: "control_step who st st' \<Longrightarrow> control_wf st \<Longrightarrow> control_wf st'"
  by (erule control_stepE)
    (simp_all add: ask_wf refer_wf watch_wf unwatch_wf fire_wf answer_wf set_wf mention_wf forget_wf)

subsection \<open>Who is woken\<close>

definition unwatched :: "'j session_meta \<Rightarrow> 'j session_meta" where
  "unwatched m = m\<lparr>me_control_watches := []\<rparr>"

lemma unwatched_fields:
  assumes "unwatched a = unwatched b"
  shows "me_parent_session_id a = me_parent_session_id b" "me_references a = me_references b"
    "me_archived_at a = me_archived_at b" "me_id a = me_id b" "me_project_id a = me_project_id b"
    "me_control_grant a = me_control_grant b"
proof -
  have "f (unwatched a) = f (unwatched b)" for f :: "'a session_meta \<Rightarrow> 'b"
    using assms by simp
  note this [of me_parent_session_id] this [of me_references] this [of me_archived_at]
    this [of me_id] this [of me_project_id] this [of me_control_grant]
  then show "me_parent_session_id a = me_parent_session_id b" "me_references a = me_references b"
    "me_archived_at a = me_archived_at b" "me_id a = me_id b" "me_project_id a = me_project_id b"
    "me_control_grant a = me_control_grant b"
    by (simp_all add: unwatched_def)
qed

text \<open>Two hosts that differ in watches only.\<close>

definition same_but_watches :: "'j host \<Rightarrow> 'j host \<Rightarrow> bool" where
  "same_but_watches a b = (ho_settings a = ho_settings b
     \<and> (\<forall>t. map_option unwatched (find_meta a t) = map_option unwatched (find_meta b t)))"

lemma same_found:
  assumes "same_but_watches a b"
  shows "(find_meta a t = None \<and> find_meta b t = None)
    \<or> (\<exists>x y. find_meta a t = Some x \<and> find_meta b t = Some y \<and> unwatched x = unwatched y)"
proof -
  from assms have "map_option unwatched (find_meta a t) = map_option unwatched (find_meta b t)"
    by (simp add: same_but_watches_def)
  then show ?thesis by (cases "find_meta a t"; cases "find_meta b t") simp_all
qed

lemma same_parents: "same_but_watches a b \<Longrightarrow> parent_of_id a = parent_of_id b"
proof
  fix t
  assume "same_but_watches a b"
  from same_found [OF this, of t] unwatched_fields(1) show "parent_of_id a t = parent_of_id b t"
    by (auto simp: parent_of_id_def)
qed

lemma climb_parents: "parent_of_id a = parent_of_id b \<Longrightarrow> climb a next_id acc = climb b next_id acc"
proof (induction a next_id acc rule: climb.induct)
  case (1 a next_id acc)
  show ?case
  proof (cases next_id)
    case None
    then show ?thesis by (subst (1 2) climb.simps) simp
  next
    case (Some p)
    then show ?thesis
      using 1 by (subst (1 2) climb.simps) simp
  qed
qed

lemma same_caller:
  assumes "same_but_watches a b" "unwatched x = unwatched y"
  shows "caller_of a x = caller_of b y"
proof -
  have "ho_settings a = ho_settings b" using assms(1) by (simp add: same_but_watches_def)
  then show ?thesis
    using unwatched_fields [OF assms(2)] climb_parents [OF same_parents [OF assms(1)]]
    by (simp add: caller_of_def caller_grant_def)
qed

lemma same_reachable:
  assumes "same_but_watches a b"
  shows "target_reachable a caller scope target content = target_reachable b caller scope target content"
proof -
  have "(case find_meta a t of Some m \<Rightarrow> references_thread m k | None \<Rightarrow> False)
      = (case find_meta b t of Some m \<Rightarrow> references_thread m k | None \<Rightarrow> False)" for t k
    using same_found [OF assms, of t] by (auto simp: references_thread_def dest: unwatched_fields(2))
  then show ?thesis by (simp add: target_reachable_def)
qed

text \<open>Whether a watcher may reach the target, and whether it is there to be told.\<close>

definition may_hear :: "'j host \<Rightarrow> 'j session_meta \<Rightarrow> string \<Rightarrow> bool" where
  "may_hear host target watcher = (case find_meta host watcher of
      Some m \<Rightarrow> target_reachable host (caller_of host m) (cg_scope (cl_grant (caller_of host m))) target True
    | None \<Rightarrow> False)"

definition awake :: "'j host \<Rightarrow> string \<Rightarrow> bool" where
  "awake host watcher = (case find_meta host watcher of
      Some m \<Rightarrow> me_archived_at m = None | None \<Rightarrow> False)"

lemma same_hear:
  assumes "same_but_watches a b"
  shows "may_hear a target w = may_hear b target w" "awake a w = awake b w"
proof -
  show "may_hear a target w = may_hear b target w"
    using same_found [OF assms, of w]
    by (auto simp: may_hear_def same_reachable [OF assms] dest!: same_caller [OF assms])
  show "awake a w = awake b w"
    using same_found [OF assms, of w] by (auto simp: awake_def dest: unwatched_fields(3))
qed

definition once_left :: "string \<Rightarrow> watch_event \<Rightarrow> 'j host \<Rightarrow> string \<Rightarrow> bool" where
  "once_left target_id event host watcher = (case find_meta host watcher of
      Some m \<Rightarrow> list_ex (\<lambda>w. cw_once w \<and> watch_fires target_id event w) (me_control_watches m)
    | None \<Rightarrow> False)"

lemma length_filter_same: "length (filter P xs) = length xs \<longleftrightarrow> list_all P xs"
proof (induction xs)
  case (Cons x xs)
  have "length (filter P xs) \<noteq> Suc (length xs)" using length_filter_le [of P xs] by linarith
  with Cons show ?case by simp
qed simp

lemma wake_effect:
  assumes ok: "host_ok (co_host st)"
    and st'_def: "st' = wake_watcher target_id target event message watcher st"
  shows "same_but_watches (co_host st) (co_host st')"
    and "co_callbacks st' = co_callbacks st
      @ (if may_hear (co_host st) target watcher \<and> awake (co_host st) watcher then [(watcher, message)] else [])"
    and "once_left target_id event (co_host st') w \<longleftrightarrow> once_left target_id event (co_host st) w
      \<and> \<not> (w = watcher \<and> may_hear (co_host st) target watcher)"
    and "host_ok (co_host st')"
proof -
  consider (gone) "find_meta (co_host st) watcher = None"
    | (there) m where "find_meta (co_host st) watcher = Some m" by blast
  then have "same_but_watches (co_host st) (co_host st')
    \<and> co_callbacks st' = co_callbacks st
      @ (if may_hear (co_host st) target watcher \<and> awake (co_host st) watcher then [(watcher, message)] else [])
    \<and> (once_left target_id event (co_host st') w \<longleftrightarrow> once_left target_id event (co_host st) w
      \<and> \<not> (w = watcher \<and> may_hear (co_host st) target watcher))
    \<and> host_ok (co_host st')"
  proof cases
    case gone
    with ok show ?thesis
      by (simp add: st'_def wake_watcher_def same_but_watches_def may_hear_def)
  next
    case there
    define kept where
      "kept = filter (\<lambda>w. \<not> (cw_once w \<and> watch_fires target_id event w)) (me_control_watches m)"
    have mid: "me_id m = watcher" by (rule metas.lookup_ident [OF ok there])
    have lookup: "find_meta (store_meta (m\<lparr>me_control_watches := kept\<rparr>) (co_host st)) k
        = (if k = watcher then Some (m\<lparr>me_control_watches := kept\<rparr>) else find_meta (co_host st) k)" for k
      by (simp add: find_meta_store [OF ok] mid)
    have unchanged: "kept = me_control_watches m" if "length kept = length (me_control_watches m)"
      using that unfolding kept_def length_filter_same by (simp add: filter_id_conv list_all_iff)
    have none_left: "\<not> list_ex (\<lambda>w. cw_once w \<and> watch_fires target_id event w) kept"
      by (auto simp: kept_def list_ex_iff)
    show ?thesis
    proof (cases "may_hear (co_host st) target watcher")
      case False
      with there ok show ?thesis
        by (simp add: st'_def wake_watcher_def same_but_watches_def may_hear_def Let_def)
    next
      case True
      let ?written = "if length kept \<noteq> length (me_control_watches m)
        then write_meta (m\<lparr>me_control_watches := kept\<rparr>) st else st"
      have st': "st' = deliver_callback watcher message ?written"
        using True there by (simp add: st'_def wake_watcher_def may_hear_def Let_def kept_def)
      have found: "find_meta (co_host ?written) k
          = (if k = watcher then Some (m\<lparr>me_control_watches := kept\<rparr>) else find_meta (co_host st) k)" for k
      proof (cases "length kept = length (me_control_watches m)")
        case True
        with unchanged there show ?thesis by simp
      next
        case False
        then show ?thesis by (simp add: lookup)
      qed
      have same: "same_but_watches (co_host st) (co_host ?written)"
        unfolding same_but_watches_def found using there by (simp add: unwatched_def)
      show ?thesis
        unfolding st' using same same_hear(2) [OF same, of watcher] True there ok found none_left
        by (simp add: deliver_callback_def awake_def once_left_def host_ok_store)
    qed
  qed
  then show "same_but_watches (co_host st) (co_host st')"
    "co_callbacks st' = co_callbacks st
      @ (if may_hear (co_host st) target watcher \<and> awake (co_host st) watcher then [(watcher, message)] else [])"
    "once_left target_id event (co_host st') w \<longleftrightarrow> once_left target_id event (co_host st) w
      \<and> \<not> (w = watcher \<and> may_hear (co_host st) target watcher)"
    "host_ok (co_host st')" by blast+
qed

lemma same_trans: "same_but_watches a b \<Longrightarrow> same_but_watches b c \<Longrightarrow> same_but_watches a c"
  by (simp add: same_but_watches_def)

lemma wake_all_effect:
  assumes "host_ok (co_host st)"
    and "st' = fold (wake_watcher target_id target event message) ws st"
  shows "same_but_watches (co_host st) (co_host st')
    \<and> co_callbacks st' = co_callbacks st @ map (\<lambda>w. (w, message))
        (filter (\<lambda>w. may_hear (co_host st) target w \<and> awake (co_host st) w) ws)
    \<and> (once_left target_id event (co_host st') w \<longleftrightarrow> once_left target_id event (co_host st) w
        \<and> \<not> (w \<in> set ws \<and> may_hear (co_host st) target w))"
  using assms
proof (induction ws arbitrary: st)
  case Nil
  then show ?case by (simp add: same_but_watches_def)
next
  case (Cons x ws)
  let ?one = "wake_watcher target_id target event message x st"
  note one = wake_effect [OF Cons.prems(1) refl,
    where target_id = target_id and target = target and event = event and message = message and watcher = x]
  from Cons.IH [OF one(4)] Cons.prems(2)
  have rest: "same_but_watches (co_host ?one) (co_host st')"
    "co_callbacks st' = co_callbacks ?one @ map (\<lambda>w. (w, message))
        (filter (\<lambda>w. may_hear (co_host ?one) target w \<and> awake (co_host ?one) w) ws)"
    "once_left target_id event (co_host st') w \<longleftrightarrow> once_left target_id event (co_host ?one) w
        \<and> \<not> (w \<in> set ws \<and> may_hear (co_host ?one) target w)"
    by simp_all
  from same_trans [OF one(1) rest(1)] show ?case
    unfolding rest(2,3) one(2,3) same_hear [OF one(1), symmetric] by auto
qed

text \<open>
  C25: When an event of a thread fires while the surface is on, each thread with a matching watch hears
  it exactly once, in the order of the index, provided its grant still lets it reach the target and
  it is not archived; nobody else hears anything, and a once-watch that has fired for such a thread
  is gone, so it never fires again.
\<close>

theorem watches_wake_who_may_hear:
  assumes ok: "host_ok (co_host st)" and enabled: "cs_enabled (ho_settings (co_host st))"
    and settled: "event \<noteq> Watch_Idle \<or> \<not> running"
    and target: "find_meta (co_host st) target_id = Some target"
    and after: "st' = fire_control_watches running message_for target_id event st"
  shows "co_callbacks st' = co_callbacks st @ map (\<lambda>w. (w, message_for target))
      (filter (\<lambda>w. may_hear (co_host st) target w \<and> awake (co_host st) w)
        (watchers_of target_id event (co_host st)))
    \<and> distinct (watchers_of target_id event (co_host st))
    \<and> filter (\<lambda>w. may_hear (co_host st) target w \<and> once_left target_id event (co_host st') w)
        (watchers_of target_id event (co_host st)) = []"
proof -
  have st': "st' = fold (wake_watcher target_id target event (message_for target))
      (watchers_of target_id event (co_host st)) st"
    using enabled settled target by (auto simp: after fire_control_watches_def Let_def)
  have "distinct (watchers_of target_id event (co_host st))"
    using ok by (simp add: host_ok_def watchers_of_def distinct_map_filter)
  with wake_all_effect [OF ok st'] show ?thesis by (auto simp: filter_empty_conv)
qed

subsection \<open>An example\<close>

text \<open>
  A thread that asked for the operate tier on the whole host and watches another thread's turn once.
\<close>

definition demo_request :: grant_request where
  "demo_request = \<lparr>gq_id = ''r'', gq_grant = \<lparr>cg_scope = Scope_Host, cg_tiers = {Tier_Operate},
     cg_categories = {Cat_Terminal}\<rparr>, gq_reason = ''why'', gq_requested_at = 0\<rparr>"

definition demo_watch :: control_watch where
  "demo_watch = \<lparr>cw_id = ''w'', cw_thread_ids = [''c''], cw_events = {Watch_Idle}, cw_once = True\<rparr>"

definition demo_asker :: "unit session_meta" where
  "demo_asker = (demo_meta ''a'' [] None)\<lparr>me_control_grant_requests := [demo_request],
     me_control_watches := [demo_watch]\<rparr>"

definition demo_state :: "unit control_state" where
  "demo_state = \<lparr>co_host = \<lparr>ho_settings = control_settings_default,
       ho_sessions = [demo_asker, demo_meta ''c'' [] None], ho_live = [], ho_parked = []\<rparr>,
     co_registered = [''a''], co_grants = [''a'' \<mapsto> default_grant], co_events = [],
     co_activity = [], co_callbacks = []\<rparr>"

lemma demo_state_facts:
  "host_ok (co_host demo_state)"
  "find_meta (co_host demo_state) ''a'' = Some demo_asker"
  "find_meta (co_host demo_state) ''c'' = Some (demo_meta ''c'' [] None)"
  "find_meta (co_host demo_state) t \<noteq> None \<Longrightarrow> t = ''a'' \<or> t = ''c''"
  "caller_grant (co_host demo_state) demo_asker = (default_grant, Grant_Default)"
  "cs_enabled (ho_settings (co_host demo_state))"
  by (auto simp: host_ok_def same_ids_def find_meta_def resident_def demo_state_def demo_asker_def
      demo_meta_def caller_grant_def resolve_grant_def control_settings_default_def
      split: if_splits)

lemma demo_asker_fields:
  "me_id demo_asker = ''a''" "me_control_grant_requests demo_asker = [demo_request]"
  "me_control_watches demo_asker = [demo_watch]" "me_references demo_asker = []"
  "me_project_id demo_asker = None" "me_parent_session_id demo_asker = None"
  "me_archived_at demo_asker = None"
  by (simp_all add: demo_asker_def demo_meta_def)

definition demo_ask :: request_grant_params where
  "demo_ask = \<lparr>rg_scope = Scope_Host, rg_tiers = [], rg_categories = [Cat_Delete], rg_reason = ''x''\<rparr>"

definition demo_asked :: "unit control_state" where
  "demo_asked = snd (op_request_grant 1 1 ''s'' ''a'' demo_ask demo_state)"

lemma demo_asked_step: "control_step By_Agent demo_state demo_asked"
  unfolding demo_asked_def by (rule control_step.ask)

lemma demo_table: "table_current demo_state"
proof -
  have "co_registered demo_state = [''a'']" "co_grants demo_state = [''a'' \<mapsto> default_grant]"
    by (simp_all add: demo_state_def)
  then show ?thesis by (simp add: table_current_def demo_state_facts listed_grant_def)
qed

definition demo_answered :: "unit control_state" where
  "demo_answered = snd (respond_control_grant 2 ''a'' ''r'' True demo_state)"

lemma demo_answered_step: "\<exists>who. control_step who demo_state demo_answered"
  unfolding demo_answered_def by (blast intro: control_step.answer)

lemma listed_tools_follow_the_grants_witness: "table_current demo_answered"
  using listed_tools_follow_the_grants [OF demo_state_facts(1) demo_table
      r_into_rtranclp [of "\<lambda>s s'. \<exists>who. control_step who s s'", OF demo_answered_step]] .

lemma answered_request_widens_by_what_was_asked_witness:
  "\<exists>m'. find_meta (co_host demo_answered) ''a'' = Some m' \<and> me_control_grant_requests m' = []
    \<and> cg_categories (fst (caller_grant (co_host demo_answered) m')) = {Cat_Terminal}"
proof -
  have "position (\<lambda>r. gq_id r = ''r'') (me_control_grant_requests demo_asker) = Some 0"
    by (simp add: demo_asker_fields demo_request_def)
  from answered_request_widens_by_what_was_asked [OF demo_state_facts(1,2) this demo_answered_def]
  show ?thesis
    by (auto simp: Let_def demo_asker_fields demo_state_facts remove_at_def default_grant_def
        demo_request_def)
qed

lemma watches_wake_who_may_hear_witness:
  "co_callbacks (fire_control_watches False (\<lambda>_. ''idle'') ''c'' Watch_Idle demo_state) = [(''a'', ''idle'')]"
proof -
  have "watchers_of ''c'' Watch_Idle (co_host demo_state) = [''a'']"
    by (simp add: watchers_of_def demo_state_def demo_asker_fields watch_fires_def demo_watch_def)
      (simp add: demo_meta_def)
  moreover have "may_hear (co_host demo_state) (demo_meta ''c'' [] None) ''a''"
    by (simp add: may_hear_def demo_state_facts caller_of_def demo_asker_fields climb.simps
        target_reachable_def default_grant_def) (simp add: demo_meta_def)
  moreover have "awake (co_host demo_state) ''a''"
    by (simp add: awake_def demo_state_facts demo_asker_fields)
  moreover have "co_callbacks demo_state = []" by (simp add: demo_state_def)
  ultimately show ?thesis
    using watches_wake_who_may_hear [OF demo_state_facts(1,6) _ demo_state_facts(3) refl,
        of Watch_Idle False "\<lambda>_. ''idle''"] by simp
qed

end
