(* ===== verification/Control_Moves.thy ===== *)
theory Control_Moves
  imports Control_Calls
begin

section \<open>Moving a thread into another project\<close>

text \<open>
  \<open>op_move_thread\<close> with \<open>move_target_refusal\<close> and \<open>cwd_inside\<close> (\<^verbatim>\<open>runtime/src/app/control/operate.rs\<close>), and
  \<open>move_session_by\<close> (\<^verbatim>\<open>runtime/src/app/sessions.rs\<close>), which a client's move shares. Of a move the model
  keeps what reaches the metas, the table of grants, the audit trail and the remembered answers; that
  a provider is detached and git is looked at again is left out. What the file system says of a
  directory is an argument, and so is what the sessions say of a draft and of a thread at work.
\<close>

record move_world =
  mw_now_secs :: u64
  mw_now_ms :: u64
  mw_projects :: "project list"
  mw_within :: "path \<Rightarrow> path \<Rightarrow> bool option"
  mw_draft :: "string \<Rightarrow> bool"
  mw_busy :: "string \<Rightarrow> bool"

text \<open>The pieces of a relative path, without the empty ones and the current directory.\<close>

fun split_slash :: "string \<Rightarrow> string list" where
  "split_slash [] = [[]]"
| "split_slash (c # s) = (if c = CHR ''/'' then [] # split_slash s
     else (case split_slash s of p # ps \<Rightarrow> (c # p) # ps | [] \<Rightarrow> [[c]]))"

definition path_pieces :: "string \<Rightarrow> path" where
  "path_pieces s = filter (\<lambda>p. p \<noteq> [] \<and> p \<noteq> ''.'') (split_slash s)"

definition cwd_inside :: "move_world \<Rightarrow> path \<Rightarrow> string \<Rightarrow> string + path" where
  "cwd_inside w root cwd = (
     let outside = ''refused: cwd must be inside the project''; joined = root @ path_pieces cwd in
     if take 1 cwd = ''/'' \<or> ''..'' \<in> set (path_pieces cwd) then Inl outside
     else (case mw_within w root joined of
         None \<Rightarrow> Inl (''invalid cwd: '' @ path_display joined @ '' is not a directory on this host'')
       | Some False \<Rightarrow> Inl outside
       | Some True \<Rightarrow> Inr joined))"

text \<open>Into a project the grant reaches, or the caller itself into one that has no threads.\<close>

definition move_target_refusal :: "'j host \<Rightarrow> caller \<Rightarrow> string \<Rightarrow> project \<Rightarrow> string option" where
  "move_target_refusal host caller thread p = (
     if reaches (cg_scope (cl_grant caller)) (cl_project_id caller) (Some (pj_id p)) then None
     else if thread = cl_thread_id caller \<and> \<not> (\<exists>m\<in>set (all_metas host). me_project_id m = Some (pj_id p)) then None
     else Some (''refused: project '' @ pj_id p @ '' is outside your grant's scope ('' @ describe_scope (cg_scope (cl_grant caller))
       @ '')'' @ (if thread = cl_thread_id caller then '' and already has threads'' else '''')))"

datatype move_error = Unknown_Thread | Unknown_Project | Archived_Session | Draft_Session | Read_Only_Session
  | Worktree_Session | Invalid_Cwd path | Cwd_Outside_Project path path | Thread_Busy

definition move_error_message :: "move_error \<Rightarrow> string" where
  "move_error_message e = (case e of
     Unknown_Thread \<Rightarrow> ''This thread is no longer available on the host.''
   | Unknown_Project \<Rightarrow> ''This project is no longer available.''
   | Archived_Session \<Rightarrow> ''Unarchive this thread before moving it.''
   | Draft_Session \<Rightarrow> ''An unsent draft is not a thread yet; start it in the other project instead.''
   | Read_Only_Session \<Rightarrow> ''A native subagent's mirror cannot be moved.''
   | Worktree_Session \<Rightarrow> ''This thread runs in its own worktree; move the worktree's branch instead.''
   | Invalid_Cwd cwd \<Rightarrow> path_display cwd @ '' is not a directory on this host.''
   | Cwd_Outside_Project cwd root \<Rightarrow> path_display cwd @ '' is not inside '' @ path_display root @ ''.''
   | Thread_Busy \<Rightarrow> ''This thread is busy; wait for it to finish before moving it.'')"

definition moved_meta :: "move_world \<Rightarrow> project \<Rightarrow> path \<Rightarrow> 'j session_meta \<Rightarrow> 'j session_meta" where
  "moved_meta w p cwd m = m\<lparr>me_cwd := cwd,
     me_moved_from := (case me_moved_from m of Some old \<Rightarrow> Some old | None \<Rightarrow> Some (me_cwd m)),
     me_project_id := Some (pj_id p), me_resume_cursor := None, me_pending_fork := False, me_updated_at := mw_now_secs w\<rparr>"

text \<open>The meta a move starts from is that of the resident session where there is one.\<close>

definition meta_to_move :: "'j host \<Rightarrow> string \<Rightarrow> 'j session_meta option" where
  "meta_to_move host thread = (case resident host thread of Some m \<Rightarrow> Some m | None \<Rightarrow> find_meta host thread)"

definition move_session_by :: "move_world \<Rightarrow> string \<Rightarrow> string \<Rightarrow> path option \<Rightarrow> bool \<Rightarrow> 'j control_state \<Rightarrow>
    (move_error + unit) \<times> 'j control_state" where
  "move_session_by w thread project_id cwd by_own_turn st = (
     case meta_to_move (co_host st) thread of None \<Rightarrow> (Inl Unknown_Thread, st)
     | Some m \<Rightarrow>
     (case find (\<lambda>p. pj_id p = project_id) (mw_projects w) of None \<Rightarrow> (Inl Unknown_Project, st)
     | Some p \<Rightarrow>
       if me_archived_at m \<noteq> None then (Inl Archived_Session, st)
       else if resident (co_host st) thread \<noteq> None \<and> mw_draft w thread then (Inl Draft_Session, st)
       else if me_native_subagent m \<noteq> None then (Inl Read_Only_Session, st)
       else if me_worktree m \<noteq> None then (Inl Worktree_Session, st)
       else (let dir = (case cwd of None \<Rightarrow> pj_root p | Some c \<Rightarrow> if is_absolute c then c else pj_root p @ c) in
         case mw_within w (pj_root p) dir of
           None \<Rightarrow> (Inl (Invalid_Cwd dir), st)
         | Some False \<Rightarrow> (Inl (Cwd_Outside_Project dir (pj_root p)), st)
         | Some True \<Rightarrow>
             if me_project_id m = Some project_id \<and> me_cwd m = dir then (Inr (), st)
             else if \<not> by_own_turn \<and> mw_busy w thread then (Inl Thread_Busy, st)
             else (Inr (), refresh_control_grants (write_meta (moved_meta w p dir m) st)))))"

subsection \<open>The call of an agent\<close>

record move_answer =
  mo_thread_id :: string
  mo_project_id :: string
  mo_project_name :: string
  mo_cwd :: string

definition request_key :: "caller \<Rightarrow> string \<Rightarrow> string \<Rightarrow> string" where
  "request_key caller tool request_id = cl_thread_id caller @ ''/'' @ tool @ ''/'' @ request_id"

definition remember_answer :: "string \<Rightarrow> 'v \<Rightarrow> (string \<times> 'v) list \<Rightarrow> (string \<times> 'v) list" where
  "remember_answer key v answered = take CONTROL_ACTIVITY_LIMIT ((key, v) # answered)"

definition place_of :: "'j host \<Rightarrow> string \<Rightarrow> (string option \<times> path) option" where
  "place_of host thread = map_option (\<lambda>m. (me_project_id m, me_cwd m)) (find_meta host thread)"

definition op_move_thread :: "move_world \<Rightarrow> (move_answer \<Rightarrow> 'v) \<Rightarrow> (string \<times> 'v) list \<Rightarrow> caller \<Rightarrow> move_thread_params \<Rightarrow>
    'j control_state \<Rightarrow> (string + 'v) \<times> (string \<times> 'v) list \<times> 'j control_state" where
  "op_move_thread w to_json answered caller params st = (
     let key = map_option (request_key caller ''move_thread'') (mt_request_id params); thread = mt_thread_id params in
     case Option.bind key (map_of answered) of Some v \<Rightarrow> (Inr v, answered, st)
     | None \<Rightarrow>
     (case find (\<lambda>p. pj_id p = mt_project_id params) (mw_projects w) of
       None \<Rightarrow> (Inl (''unknown project: '' @ mt_project_id params), answered, st)
     | Some p \<Rightarrow>
     (case move_target_refusal (co_host st) caller thread p of Some refusal \<Rightarrow> (Inl refusal, answered, st)
     | None \<Rightarrow>
     (case (case mt_cwd params of None \<Rightarrow> Inr None | Some c \<Rightarrow> map_sum id Some (cwd_inside w (pj_root p) c)) of
       Inl e \<Rightarrow> (Inl e, answered, st)
     | Inr cwd \<Rightarrow>
     (case move_session_by w thread (pj_id p) cwd (thread = cl_thread_id caller) st of
       (Inl e, st1) \<Rightarrow> (Inl (''refused: '' @ move_error_message e), answered, st1)
     | (Inr _, st1) \<Rightarrow>
     (case find_meta (co_host st1) thread of
       None \<Rightarrow> (Inl ''the thread disappeared'', answered, st1)
     | Some m \<Rightarrow>
         let st2 = (if place_of (co_host st) thread \<noteq> Some (me_project_id m, me_cwd m)
               then audit (mw_now_ms w) (cl_thread_id caller) thread ''move''
                 (Some (pj_name p @ '' ('' @ path_display (pj_root p) @ '')'')) st1
               else st1);
             v = to_json \<lparr>mo_thread_id = me_id m, mo_project_id = pj_id p, mo_project_name = pj_name p,
                   mo_cwd = path_display (me_cwd m)\<rparr>
         in (Inr v, case key of Some k \<Rightarrow> remember_answer k v answered | None \<Rightarrow> answered, st2)))))))"

end
