(* ===== verification/Control_Move_Laws.thy ===== *)
theory Control_Move_Laws
  imports Control_Laws Control_Moves
begin

section \<open>What moves a grant\<close>

text \<open>
  The calls of \<open>Control_Laws\<close> together with moves of threads, by agents and by the user. The grant stored
  with a thread changes only when the user answers or sets it; the grant in force also follows the
  project of the thread, and an agent moves a thread only where its own grant reaches, or itself into
  a project without threads.
\<close>

inductive thread_step :: "step_by \<Rightarrow> 'j control_state \<Rightarrow> 'j control_state \<Rightarrow> bool" where
  call: "control_step who st st' \<Longrightarrow> thread_step who st st'"
| agent_move: "find_meta (co_host st) k = Some actor \<Longrightarrow>
    thread_step By_Agent st (snd (snd (op_move_thread w (to_json :: move_answer \<Rightarrow> 'j) answered (caller_of (co_host st) actor) p st)))"
| user_move: "thread_step By_User st (snd (move_session_by w thread project_id cwd False st))"

inductive_cases thread_stepE: "thread_step who st st'"

subsection \<open>Residents and the index\<close>

text \<open>A resident session shows the grant and the project that the index holds for it.\<close>

definition in_step :: "'j host \<Rightarrow> bool" where
  "in_step host \<longleftrightarrow> host_ok host \<and> (\<forall>t r. resident host t = Some r \<longrightarrow> map_option grant_view (find_meta host t) = Some (grant_view r))"

lemma in_step_store [simp]:
  assumes "in_step host"
  shows "in_step (store_meta m host)"
proof -
  have ok: "host_ok host" using assms by (simp add: in_step_def)
  have "map_option grant_view (find_meta (store_meta m host) t) = Some (grant_view r)"
    if r: "resident (store_meta m host) t = Some r" for t r
  proof -
    have same: "resident (store_meta m host) t = resident (store_resident m host) t"
      by (simp add: store_meta_def resident_def split: option.split)
    show ?thesis
    proof (cases "t = me_id m")
      case True
      have "resident (store_resident m host) (me_id m) = Some r" using r True unfolding same by simp
      then have "r = m"
        by (auto simp: store_resident_def resident_def update_conv' split: option.splits if_splits)
      then show ?thesis using True ok by (simp add: find_meta_store)
    next
      case False
      then show ?thesis using r same assms ok store_resident_other [OF False, of host]
        by (simp add: find_meta_store in_step_def)
    qed
  qed
  with ok show ?thesis by (simp add: in_step_def host_ok_store)
qed

lemma in_step_change [simp]: "in_step host \<Longrightarrow> in_step (change_meta now t f host)"
  by (simp add: change_meta_def split: option.split)

lemma in_step_wake: "in_step (co_host st) \<Longrightarrow> in_step (co_host (wake_watcher target_id target event message watcher st))"
  by (simp add: wake_watcher_def Let_def deliver_callback_def split: option.split)

lemma in_step_wake_all: "in_step (co_host st) \<Longrightarrow> in_step (co_host (fold (wake_watcher target_id target event message) ws st))"
  by (induction ws arbitrary: st) (simp_all add: in_step_wake)

lemma in_step_audit_all [simp]: "co_host (fold (\<lambda>t. audit a b t c d) ts st) = co_host st"
  by (induction ts arbitrary: st) simp_all

lemma in_step_ask: "in_step (co_host st) \<Longrightarrow> in_step (co_host (snd (op_request_grant secs ms fresh actor p st)))"
  by (simp add: op_request_grant_def Let_def split: option.split)

lemma in_step_refer: "in_step (co_host st) \<Longrightarrow> in_step (co_host (snd (op_reference secs ms actor p st)))"
  by (simp add: op_reference_def add_reference_def Let_def split: option.split)

lemma in_step_watch: "in_step (co_host st) \<Longrightarrow> in_step (co_host (snd (op_notify_when ms fresh caller p st)))"
  by (simp add: op_notify_when_def Let_def split: option.split)

lemma in_step_unwatch: "in_step (co_host st) \<Longrightarrow> in_step (co_host (snd (op_cancel_notify ms actor p st)))"
  by (simp add: op_cancel_notify_def Let_def split: option.split)

lemma in_step_fire: "in_step (co_host st) \<Longrightarrow> in_step (co_host (fire_control_watches running message_for target event st))"
  by (simp add: fire_control_watches_def Let_def in_step_wake_all split: option.split)

lemma in_step_answer: "in_step (co_host st) \<Longrightarrow> in_step (co_host (snd (respond_control_grant secs session request approve st)))"
  by (simp add: respond_control_grant_def Let_def split: option.split)

lemma in_step_set: "in_step (co_host st) \<Longrightarrow> in_step (co_host (set_control_grant secs session g st))"
  by (simp add: set_control_grant_def)

lemma in_step_mention: "in_step (co_host st) \<Longrightarrow> in_step (co_host (snd (add_thread_reference secs session thread st)))"
  by (simp add: add_thread_reference_def add_reference_def Let_def split: option.split)

lemma in_step_forget: "in_step (co_host st) \<Longrightarrow> in_step (co_host (remove_thread_reference secs session thread st))"
  by (simp add: remove_thread_reference_def)

lemma in_step_call: "control_step who st st' \<Longrightarrow> in_step (co_host st) \<Longrightarrow> in_step (co_host st')"
  by (erule control_stepE) (simp_all add: in_step_ask in_step_refer in_step_watch in_step_unwatch in_step_fire in_step_answer
      in_step_set in_step_mention in_step_forget)

subsection \<open>What a move does\<close>

lemma meta_to_move_id:
  assumes "host_ok host" "meta_to_move host t = Some m"
  shows "me_id m = t"
proof (cases "resident host t")
  case None
  then show ?thesis using assms metas.lookup_ident by (simp add: meta_to_move_def)
next
  case (Some r)
  then have "(t, m) \<in> set (ho_live host) \<union> set (ho_parked host)"
    using assms(2) by (auto simp: meta_to_move_def resident_def dest!: map_of_SomeD split: option.splits)
  then show ?thesis using assms(1) by (force simp: host_ok_def same_ids_def list_all_iff)
qed

definition moved_to :: "string \<Rightarrow> string \<Rightarrow> 'j control_state \<Rightarrow> 'j control_state \<Rightarrow> bool" where
  "moved_to project thread st st' \<longleftrightarrow> (\<exists>m m'. meta_to_move (co_host st) thread = Some m \<and> me_id m' = me_id m
     \<and> me_control_grant m' = me_control_grant m \<and> me_project_id m' = Some project
     \<and> co_host st' = store_meta m' (co_host st) \<and> co_registered st' = co_registered st
     \<and> co_grants st' = co_grants (refresh_control_grants (write_meta m' st)))"

definition same_place :: "'j control_state \<Rightarrow> 'j control_state \<Rightarrow> bool" where
  "same_place st st' \<longleftrightarrow> co_host st' = co_host st \<and> co_registered st' = co_registered st \<and> co_grants st' = co_grants st"

lemma refreshed_table_frame [simp]:
  "co_host (refresh_control_grants st) = co_host st" "co_registered (refresh_control_grants st) = co_registered st"
  by (simp_all add: refresh_control_grants_def)

lemma found_project: "find (\<lambda>p. pj_id p = pid) ps = Some p \<Longrightarrow> pj_id p = pid"
  by (auto simp: find_Some_iff)

lemma move_session_cases:
  assumes "move_session_by w thread pid cwd own st = (r, st')"
  shows "st' = st \<or> (\<exists>m p dir. meta_to_move (co_host st) thread = Some m \<and> find (\<lambda>p. pj_id p = pid) (mw_projects w) = Some p
      \<and> st' = refresh_control_grants (write_meta (moved_meta w p dir m) st))"
  using assms by (auto simp: move_session_by_def Let_def split: option.splits if_splits bool.splits)

lemma move_session_effect:
  assumes "move_session_by w thread pid cwd own st = (r, st')"
  shows "same_place st st' \<or> moved_to pid thread st st'"
proof -
  from move_session_cases [OF assms] consider "st' = st" | m p dir where "meta_to_move (co_host st) thread = Some m" "pj_id p = pid"
      "st' = refresh_control_grants (write_meta (moved_meta w p dir m) st)"
    using found_project by metis
  then show ?thesis
  proof cases
    case 1
    then show ?thesis by (simp add: same_place_def)
  next
    case (2 m p dir)
    then have "moved_to pid thread st st'"
      unfolding moved_to_def by (intro exI [of _ m] exI [of _ "moved_meta w p dir m"]) (simp add: moved_meta_def)
    then show ?thesis ..
  qed
qed

lemma same_place_trans: "same_place a b \<Longrightarrow> same_place b c \<Longrightarrow> same_place a c"
  by (simp add: same_place_def)

lemma moved_then: "moved_to pid thread a b \<Longrightarrow> same_place b c \<Longrightarrow> moved_to pid thread a c"
  by (simp add: moved_to_def same_place_def)

text \<open>A call that changes anything has gone through the move of the session.\<close>

lemma op_move_runs:
  assumes "snd (snd (op_move_thread w to_json answered caller params st)) = st'"
  shows "st' = st \<or> (\<exists>p cwd r st1. pj_id p = mt_project_id params
    \<and> move_target_refusal (co_host st) caller (mt_thread_id params) p = None
    \<and> move_session_by w (mt_thread_id params) (pj_id p) cwd (mt_thread_id params = cl_thread_id caller) st = (r, st1)
    \<and> same_place st1 st')"
proof (cases "st' = st")
  case False
  let ?t = "mt_thread_id params" and ?host = "co_host st"
  let ?dir = "\<lambda>p. case mt_cwd params of None \<Rightarrow> Inr None | Some c \<Rightarrow> map_sum id Some (cwd_inside w (pj_root p) c)"
  note op = op_move_thread_def Let_def option.case sum.case snd_conv simp_thms
  have new: "Option.bind (map_option (request_key caller ''move_thread'') (mt_request_id params)) (map_of answered) = None"
  proof (rule ccontr)
    assume "\<not> ?thesis"
    then show False using assms False by (cases "Option.bind (map_option (request_key caller ''move_thread'') (mt_request_id params)) (map_of answered)")
      (simp_all only: op option.case snd_conv simp_thms)
  qed
  with assms False obtain p where p: "find (\<lambda>p. pj_id p = mt_project_id params) (mw_projects w) = Some p"
    by (cases "find (\<lambda>p. pj_id p = mt_project_id params) (mw_projects w)") (simp_all only: op new)
  have free: "move_target_refusal ?host caller ?t p = None"
    using assms False by (cases "move_target_refusal ?host caller ?t p") (simp_all only: op new p)
  obtain cwd where cwd: "?dir p = Inr cwd"
    using assms False by (cases "?dir p") (simp_all only: op new p free)
  obtain r st1 where m: "move_session_by w ?t (pj_id p) cwd (?t = cl_thread_id caller) st = (r, st1)"
    by (rule prod.exhaust)
  have st': "same_place st1 st'"
    using assms unfolding op_move_thread_def Let_def new p free cwd m option.case sum.case prod.case
    by (auto simp: same_place_def split: sum.splits unit.splits option.splits if_splits)
  from found_project [OF p] free m st' show ?thesis by blast
qed simp

lemma op_move_effect:
  assumes "snd (snd (op_move_thread w to_json answered caller params st)) = st'"
  shows "same_place st st' \<or> moved_to (mt_project_id params) (mt_thread_id params) st st'
    \<and> (\<exists>p. pj_id p = mt_project_id params \<and> move_target_refusal (co_host st) caller (mt_thread_id params) p = None)"
  using op_move_runs [OF assms]
proof (elim disjE exE conjE)
  fix p cwd r st1
  assume p: "pj_id p = mt_project_id params" "move_target_refusal (co_host st) caller (mt_thread_id params) p = None"
    and m: "move_session_by w (mt_thread_id params) (pj_id p) cwd (mt_thread_id params = cl_thread_id caller) st = (r, st1)"
    and st': "same_place st1 st'"
  from move_session_effect [OF m] st' p show ?thesis by (auto intro: same_place_trans moved_then)
qed (simp add: same_place_def)

subsection \<open>Frames of moves\<close>

text \<open>What every step of an agent leaves, and what it does to the grants.\<close>

definition stored :: "'j control_state \<Rightarrow> string \<Rightarrow> control_grant option option" where
  "stored st t = map_option me_control_grant (find_meta (co_host st) t)"

definition project_in :: "'j control_state \<Rightarrow> string \<Rightarrow> string option option" where
  "project_in st t = map_option me_project_id (find_meta (co_host st) t)"

definition in_force :: "'j control_state \<Rightarrow> string \<Rightarrow> (control_grant \<times> grant_source) option" where
  "in_force st t = map_option (caller_grant (co_host st)) (find_meta (co_host st) t)"

definition keeps_stored :: "'j control_state \<Rightarrow> 'j control_state \<Rightarrow> bool" where
  "keeps_stored st st' \<longleftrightarrow> in_step (co_host st') \<and> ho_settings (co_host st') = ho_settings (co_host st)
     \<and> stored st' = stored st \<and> (table_current st \<longrightarrow> table_current st')"

lemma in_force_of:
  assumes "ho_settings (co_host st') = ho_settings (co_host st)" "stored st' t = stored st t" "project_in st' t = project_in st t"
  shows "in_force st' t = in_force st t"
  using assms by (cases "find_meta (co_host st) t"; cases "find_meta (co_host st') t")
    (simp_all add: in_force_def stored_def project_in_def caller_grant_def)

lemma same_place_keeps:
  assumes "same_place st st'" "in_step (co_host st)"
  shows "keeps_stored st st'" "project_in st' = project_in st"
  using assms by (simp_all add: same_place_def keeps_stored_def stored_def project_in_def table_current_def fun_eq_iff)

lemma moved_keeps:
  assumes moved: "moved_to pid thread st st'" and ok: "in_step (co_host st)"
  shows "keeps_stored st st'" "project_in st' t = (if t = thread then Some (Some pid) else project_in st t)"
proof -
  obtain m m' where m: "meta_to_move (co_host st) thread = Some m" "me_id m' = me_id m"
    "me_control_grant m' = me_control_grant m" "me_project_id m' = Some pid" "co_host st' = store_meta m' (co_host st)"
    "co_registered st' = co_registered st" "co_grants st' = co_grants (refresh_control_grants (write_meta m' st))"
    using moved by (auto simp: moved_to_def)
  have host: "host_ok (co_host st)" using ok by (simp add: in_step_def)
  have id: "me_id m' = thread" using meta_to_move_id [OF host m(1)] m(2) by simp
  have found: "find_meta (co_host st') u = (if u = thread then Some m' else find_meta (co_host st) u)" for u
    using find_meta_store [OF host, of m' u] m(5) id by simp
  have "map_option grant_view (find_meta (co_host st) thread) = Some (grant_view m)"
    using ok m(1) by (auto simp: in_step_def meta_to_move_def split: option.splits)
  then have "map_option me_control_grant (find_meta (co_host st) thread) = Some (me_control_grant m)"
    by (auto simp: grant_view_def)
  then have "stored st' = stored st" using found m(3) by (auto simp: stored_def fun_eq_iff)
  moreover have "table_current st'"
    using table_current_refresh [of "write_meta m' st"] m(5-7) by (simp add: table_current_def)
  ultimately show "keeps_stored st st'" using ok m(5) by (simp add: keeps_stored_def)
  show "project_in st' t = (if t = thread then Some (Some pid) else project_in st t)" using found m(4) by (simp add: project_in_def)
qed

lemma leaves_keeps:
  assumes "leaves_grants st st'" "in_step (co_host st)" "in_step (co_host st')"
  shows "keeps_stored st st'" "project_in st' = project_in st"
proof -
  have host: "host_ok (co_host st)" using assms(2) by (simp add: in_step_def)
  have view: "map_option grant_view (find_meta (co_host st') t) = map_option grant_view (find_meta (co_host st) t)" for t
    using assms(1) host by (simp add: leaves_grants_def keeps_def)
  have "stored st' t = stored st t \<and> project_in st' t = project_in st t" for t
    using view [of t] by (cases "find_meta (co_host st) t"; cases "find_meta (co_host st') t")
      (simp_all add: stored_def project_in_def grant_view_def)
  moreover have "ho_settings (co_host st') = ho_settings (co_host st)" using assms(1) host by (simp add: leaves_grants_def keeps_def)
  ultimately show "keeps_stored st st'" "project_in st' = project_in st"
    using assms host table_current_leaves [OF assms(1) host] by (auto simp: keeps_stored_def fun_eq_iff)
qed

lemma agent_step_keeps:
  assumes "thread_step By_Agent st st'" "in_step (co_host st)"
  shows "keeps_stored st st'"
  using assms(1)
proof cases
  case call
  show ?thesis by (rule leaves_keeps(1) [OF agent_step_leaves [OF call] assms(2) in_step_call [OF call assms(2)]])
next
  case (agent_move k actor w to_json answered p)
  from op_move_effect [OF agent_move(1) [symmetric]] show ?thesis
    using same_place_keeps(1) [OF _ assms(2)] moved_keeps(1) [OF _ assms(2)] by blast
qed

lemma agent_run_keeps:
  assumes "(thread_step By_Agent)\<^sup>*\<^sup>* st st'" "in_step (co_host st)"
  shows "keeps_stored st st'"
  using assms
proof (induction rule: rtranclp_induct)
  case (step b c)
  with agent_step_keeps [of b c] show ?case by (simp add: keeps_stored_def)
qed (simp add: keeps_stored_def)

text \<open>Where an agent's move may lead.\<close>

definition agent_moves :: "string \<Rightarrow> 'j control_state \<Rightarrow> 'j control_state \<Rightarrow> bool" where
  "agent_moves t st st' \<longleftrightarrow> (\<exists>w (to_json :: move_answer \<Rightarrow> 'j) answered k actor p.
     find_meta (co_host st) k = Some actor \<and> st' = snd (snd (op_move_thread w to_json answered (caller_of (co_host st) actor) p st))
   \<and> mt_thread_id p = t \<and> project_in st' t = Some (Some (mt_project_id p))
   \<and> (reaches (cg_scope (fst (caller_grant (co_host st) actor))) (me_project_id actor) (Some (mt_project_id p))
      \<or> k = t \<and> (\<forall>m\<in>set (all_metas (co_host st)). me_project_id m \<noteq> Some (mt_project_id p))))"

lemma agent_step_moves:
  assumes "thread_step By_Agent st st'" "in_step (co_host st)" "project_in st' t \<noteq> project_in st t"
  shows "agent_moves t st st'"
  using assms(1)
proof cases
  case call
  with assms(2,3) leaves_keeps(2) [OF agent_step_leaves [OF call] assms(2) in_step_call [OF call assms(2)]] show ?thesis by simp
next
  case (agent_move k actor w to_json answered p)
  note effect = op_move_effect [OF agent_move(1) [symmetric]]
  have "host_ok (co_host st)" using assms(2) by (simp add: in_step_def)
  then have "me_id actor = k" using metas.lookup_ident agent_move(2) by blast
  moreover have "moved_to (mt_project_id p) (mt_thread_id p) st st'" and free: "\<exists>q. pj_id q = mt_project_id p
      \<and> move_target_refusal (co_host st) (caller_of (co_host st) actor) (mt_thread_id p) q = None"
    using effect same_place_keeps(2) [OF _ assms(2)] assms(3) by auto
  moreover note moved_keeps(2) [OF this(1) assms(2)]
  ultimately show ?thesis using agent_move assms(3) unfolding agent_moves_def
    by (intro exI [of _ w] exI [of _ to_json] exI [of _ answered] exI [of _ k] exI [of _ actor] exI [of _ p])
      (auto simp: move_target_refusal_def caller_of_def split: if_splits)
qed

lemma stored_store:
  assumes "host_ok (co_host st)" "me_id m = t" "co_host st' = store_meta m (co_host st)"
  shows "stored st' u = (if u = t then Some (me_control_grant m) else stored st u)"
  using assms find_meta_store [OF assms(1), of m u] by (simp add: stored_def)

lemma stored_change:
  assumes "host_ok (co_host st)" "\<And>m. me_id (f m) = me_id m"
  shows "u \<noteq> t \<Longrightarrow> stored (st\<lparr>co_host := change_meta now t f (co_host st)\<rparr>) u = stored st u"
proof (cases "find_meta (co_host st) t")
  case (Some m)
  then have "me_id m = t" using assms(1) metas.lookup_ident by blast
  moreover assume "u \<noteq> t"
  ultimately show ?thesis
    using Some assms stored_store [of st "(f m)\<lparr>me_updated_at := now\<rparr>" t "st\<lparr>co_host := change_meta now t f (co_host st)\<rparr>" u]
    by (cases "f m = m") (simp_all add: change_meta_def stored_def)
qed (simp add: change_meta_def)

text \<open>What the user does to the stored grant and to the project of a thread.\<close>

definition user_grants :: "string \<Rightarrow> 'j control_state \<Rightarrow> 'j control_state \<Rightarrow> bool" where
  "user_grants t st st' \<longleftrightarrow> (\<exists>secs request. st' = snd (respond_control_grant secs t request True st))
     \<or> (\<exists>secs g. st' = set_control_grant secs t g st)"

definition user_moves :: "string \<Rightarrow> 'j control_state \<Rightarrow> 'j control_state \<Rightarrow> bool" where
  "user_moves t st st' \<longleftrightarrow> (\<exists>w project_id cwd. st' = snd (move_session_by w t project_id cwd False st))"

lemma respond_effect:
  assumes "st' = snd (respond_control_grant secs session request approve st)"
  shows "co_host st' = co_host st \<or> (\<exists>m m'. find_meta (co_host st) session = Some m \<and> me_id m' = me_id m
    \<and> me_project_id m' = me_project_id m \<and> co_host st' = store_meta m' (co_host st) \<and> (approve \<or> me_control_grant m' = me_control_grant m))"
proof (cases "find_meta (co_host st) session")
  case None
  then show ?thesis using assms by (simp add: respond_control_grant_def)
next
  case (Some m)
  show ?thesis
  proof (cases "position (\<lambda>r. gq_id r = request) (me_control_grant_requests m)")
    case None
    then show ?thesis using assms Some by (simp add: respond_control_grant_def)
  next
    case (Some i)
    have "\<exists>m'. co_host st' = store_meta m' (co_host st) \<and> me_id m' = me_id m \<and> me_project_id m' = me_project_id m
        \<and> (approve \<or> me_control_grant m' = me_control_grant m)"
      using assms Some \<open>find_meta (co_host st) session = Some m\<close>
      by (cases approve) (simp_all add: respond_control_grant_def Let_def, (rule exI, rule conjI, rule refl, simp)+)
    with \<open>find_meta (co_host st) session = Some m\<close> show ?thesis by blast
  qed
qed

lemma user_step_grants:
  assumes "thread_step By_User st st'" "in_step (co_host st)"
  shows "stored st' t = stored st t \<or> user_grants t st st'" "project_in st' t = project_in st t \<or> user_moves t st st'"
proof -
  have host: "host_ok (co_host st)" using assms(2) by (simp add: in_step_def)
  have "(stored st' t = stored st t \<or> user_grants t st st') \<and> (project_in st' t = project_in st t \<or> user_moves t st st')"
    using assms(1)
  proof cases
    case call
    note ok = in_step_call [OF call assms(2)]
    from call show ?thesis
    proof cases
      case (answer secs session request approve)
      from respond_effect [OF answer] consider "co_host st' = co_host st"
        | m m' where "find_meta (co_host st) session = Some m" "me_id m' = me_id m" "me_project_id m' = me_project_id m"
          "co_host st' = store_meta m' (co_host st)" "approve \<or> me_control_grant m' = me_control_grant m"
        by blast
      then show ?thesis
      proof cases
        case m: (2 m m')
        then have id: "me_id m' = session" using metas.lookup_ident [OF host m(1)] by simp
        have "project_in st' t = project_in st t" using find_meta_store [OF host, of m' t] id m(1,3,4) by (simp add: project_in_def)
        moreover have "stored st' t = stored st t" if "t \<noteq> session \<or> \<not> approve"
          using stored_store [OF host id m(4), of t] that m(1,5) by (auto simp: stored_def)
        moreover have "user_grants t st st'" if "t = session" approve using answer that by (auto simp: user_grants_def)
        ultimately show ?thesis by blast
      qed (simp add: stored_def project_in_def)
    next
      case (set_grant secs session g)
      have "keeps (\<lambda>m. me_project_id m) st (st\<lparr>co_host := change_meta secs session (\<lambda>m. m\<lparr>me_control_grant := g\<rparr>) (co_host st)\<rparr>)"
        by (rule keeps_change) simp_all
      then have "project_in st' t = project_in st t"
        using host set_grant by (simp add: keeps_def project_in_def set_control_grant_def)
      moreover have "stored st' t = stored st t" if "t \<noteq> session"
        using stored_change [OF host, of "\<lambda>m. m\<lparr>me_control_grant := g\<rparr>" t session secs] that set_grant
        by (simp add: set_control_grant_def stored_def)
      ultimately show ?thesis using set_grant by (auto simp: user_grants_def)
    next
      case (mention secs session thread)
      then have "leaves_grants st st'" by (simp add: mention_leaves)
      then show ?thesis using leaves_keeps [OF _ assms(2) ok] by (simp add: keeps_stored_def)
    next
      case (forget secs session thread)
      then have "leaves_grants st st'" by (simp add: forget_leaves)
      then show ?thesis using leaves_keeps [OF _ assms(2) ok] by (simp add: keeps_stored_def)
    qed
  next
    case (user_move w thread project_id cwd)
    obtain r where "move_session_by w thread project_id cwd False st = (r, st')" using user_move by (metis prod.collapse)
    moreover have "user_moves thread st st'" using user_move by (auto simp: user_moves_def)
    moreover have "same_place st st' \<or> moved_to project_id thread st st'"
      using calculation(1) by (rule move_session_effect)
    ultimately show ?thesis
    proof (elim disjE)
      assume "same_place st st'"
      then show ?thesis using same_place_keeps [OF _ assms(2)] by (simp add: keeps_stored_def)
    next
      assume "moved_to project_id thread st st'" "user_moves thread st st'"
      then show ?thesis using moved_keeps [OF _ assms(2)] by (cases "t = thread") (simp_all add: keeps_stored_def)
    qed
  qed
  then show "stored st' t = stored st t \<or> user_grants t st st'" "project_in st' t = project_in st t \<or> user_moves t st st'" by simp_all
qed

subsection \<open>Well-formed threads\<close>

lemma move_session_wf:
  assumes "control_wf st"
  shows "control_wf (snd (move_session_by w thread pid cwd own st))"
proof -
  obtain r st' where st': "move_session_by w thread pid cwd own st = (r, st')" by fastforce
  from move_session_cases [OF this] have "control_wf st'"
  proof (elim disjE exE conjE)
    fix m p dir
    assume m: "meta_to_move (co_host st) thread = Some m" "st' = refresh_control_grants (write_meta (moved_meta w p dir m) st)"
    have "meta_wf m" using m(1) assms by (auto simp: meta_to_move_def control_wf_def split: option.splits)
    then have "meta_wf (moved_meta w p dir m)" by (simp add: meta_wf_def moved_meta_def)
    then show ?thesis using m(2) assms by (simp add: wf_write)
  qed (simp add: assms)
  then show ?thesis using st' by simp
qed

lemma op_move_wf:
  assumes "control_wf st"
  shows "control_wf (snd (snd (op_move_thread w to_json answered caller p st)))"
proof -
  define st' where "st' = snd (snd (op_move_thread w to_json answered caller p st))"
  from op_move_runs [OF st'_def [symmetric]] have "control_wf st'"
  proof (elim disjE exE conjE)
    fix q cwd r st1
    assume "move_session_by w (mt_thread_id p) (pj_id q) cwd (mt_thread_id p = cl_thread_id caller) st = (r, st1)"
    then have "control_wf st1" using move_session_wf [OF assms] by (metis snd_conv)
    moreover assume "same_place st1 st'"
    ultimately show ?thesis by (auto simp: same_place_def intro: wf_same_host)
  qed (simp add: assms)
  then show ?thesis by (simp add: st'_def)
qed

lemma thread_step_wf: "thread_step who st st' \<Longrightarrow> control_wf st \<Longrightarrow> control_wf st'"
  by (erule thread_stepE) (simp_all add: step_wf op_move_wf move_session_wf)

subsection \<open>Properties\<close>

text \<open>C39: Through any sequence of requests for grants with their answers, grants set by the user,
  references made and removed, watches asked for, cancelled and fired, and moves of threads, by agents
  and by the user, the record of a thread that was well formed stays so, in the index and where it is resident: its references name each other thread at
  most once and never the thread itself, and no grant is pending twice in it, so the user is never
  asked the same thing twice at a time; and the index and the table of residents keep each thread
  under its own id.\<close>

theorem threads_stay_well_formed:
  assumes "control_wf st" and "(\<lambda>s s'. \<exists>who. thread_step who s s')\<^sup>*\<^sup>* st st'"
  shows "control_wf st'"
  using assms(2,1) by (induction rule: rtranclp_induct) (blast intro: thread_step_wf)+

text \<open>C9: What an agent does to grants, references and watches, and the moves it makes, never change the
  grant stored with a thread: asking for a grant, referencing and watching threads, being woken and
  moving threads, in any sequence, leave every stored grant and the settings; the grant in force of a thread that stays in its project is unchanged, and the table
  that connections list their tools from stays that of the grants in force. In a single step a stored
  grant changes only when the user approves a request of that thread or sets its grant. The project of
  a thread, which gives the grant in force when none is stored, changes when the user moves it or when
  an agent does: into a project its own grant reaches, or itself into one that has no threads. Other
  calls of agents (starting threads, organising them, patching settings) are not among the steps. (At
  the start a resident session shows the grant and the project that the index holds for it.)\<close>

theorem grants_move_with_the_user_or_the_project:
  assumes "in_step (co_host st)" "(thread_step By_Agent)\<^sup>*\<^sup>* st st1" "thread_step who st1 st2"
  shows "ho_settings (co_host st1) = ho_settings (co_host st) \<and> stored st1 t = stored st t
    \<and> (project_in st1 t = project_in st t \<longrightarrow> in_force st1 t = in_force st t)
    \<and> (table_current st \<longrightarrow> table_current st1)
    \<and> (stored st2 t \<noteq> stored st1 t \<longrightarrow> who = By_User \<and> user_grants t st1 st2)
    \<and> (project_in st2 t \<noteq> project_in st1 t \<longrightarrow> who = By_User \<and> user_moves t st1 st2 \<or> who = By_Agent \<and> agent_moves t st1 st2)"
proof -
  note kept = agent_run_keeps [OF assms(2,1)]
  then have ok: "in_step (co_host st1)" by (simp add: keeps_stored_def)
  have "stored st2 t = stored st1 t" "project_in st2 t = project_in st1 t \<or> agent_moves t st1 st2" if "who = By_Agent"
    using assms(3) agent_step_keeps [OF _ ok] agent_step_moves [OF _ ok] that by (auto simp: keeps_stored_def)
  moreover note user_step_grants [OF _ ok, of st2 t]
  ultimately show ?thesis using kept in_force_of [of st1 st t] assms(3) by (cases who) (auto simp: keeps_stored_def)
qed

subsection \<open>An example\<close>

text \<open>An agent without a grant of its own moves itself into a project that has no threads and for which the
  settings allow everything: it then holds that grant.\<close>

definition demo_wide :: control_grant where
  "demo_wide = \<lparr>cg_scope = Scope_Host, cg_tiers = {Tier_Operate}, cg_categories = {}\<rparr>"

definition demo_open :: "unit control_state" where
  "demo_open = demo_state\<lparr>co_host := (co_host demo_state)\<lparr>ho_settings :=
     control_settings_default\<lparr>cs_project_overrides := [''p'' \<mapsto> demo_wide]\<rparr>\<rparr>\<rparr>"

definition demo_world :: move_world where
  "demo_world = \<lparr>mw_now_secs = 1, mw_now_ms = 1000, mw_projects = [from_root ''p'' 0 [''/'', ''p'']],
     mw_within = (\<lambda>_ _. Some True), mw_draft = (\<lambda>_. False), mw_busy = (\<lambda>_. False)\<rparr>"

definition demo_move :: move_thread_params where
  "demo_move = \<lparr>mt_thread_id = ''a'', mt_project_id = ''p'', mt_cwd = None, mt_request_id = None\<rparr>"

definition demo_moved :: "unit control_state" where
  "demo_moved = snd (snd (op_move_thread demo_world (\<lambda>_. ()) [] (caller_of (co_host demo_open) demo_asker) demo_move demo_open))"

lemma demo_open_facts:
  "in_step (co_host demo_open)" "find_meta (co_host demo_open) ''a'' = Some demo_asker" "resident (co_host demo_open) t = None"
  "all_metas (co_host demo_open) = [demo_asker, demo_meta ''c'' [] None]"
  by (simp_all add: in_step_def demo_open_def demo_state_def host_ok_def same_ids_def resident_def find_meta_def all_metas_def
      demo_asker_def demo_meta_def)

lemma demo_asker_more:
  "me_worktree demo_asker = None" "me_native_subagent demo_asker = None" "me_cwd demo_asker = []" "me_control_grant demo_asker = None"
  by (simp_all add: demo_asker_def demo_meta_def)

definition demo_goal :: project where
  "demo_goal = from_root ''p'' 0 [''/'', ''p'']"

definition demo_at_goal :: "unit session_meta" where
  "demo_at_goal = moved_meta demo_world demo_goal [''/'', ''p''] demo_asker"

lemma demo_goal_facts:
  "find (\<lambda>p. pj_id p = ''p'') (mw_projects demo_world) = Some demo_goal" "pj_id demo_goal = ''p''" "pj_root demo_goal = [''/'', ''p'']"
  "mw_within demo_world r d = Some True" "\<not> mw_draft demo_world t"
  by (simp_all add: demo_world_def demo_goal_def from_root_def)

lemma demo_free: "move_target_refusal (co_host demo_open) (caller_of (co_host demo_open) demo_asker) ''a'' demo_goal = None"
  by (simp add: move_target_refusal_def caller_of_def demo_open_facts demo_asker_fields demo_goal_facts demo_meta_def)

lemma demo_session_moves:
  "move_session_by demo_world ''a'' ''p'' None True demo_open = (Inr (), refresh_control_grants (write_meta demo_at_goal demo_open))"
  by (simp add: move_session_by_def meta_to_move_def demo_open_facts demo_goal_facts demo_asker_fields demo_asker_more
      demo_at_goal_def)

lemma demo_at_goal_fields: "me_id demo_at_goal = ''a''" "me_project_id demo_at_goal = Some ''p''" "me_control_grant demo_at_goal = None"
  by (simp_all add: demo_at_goal_def moved_meta_def demo_asker_fields demo_asker_more demo_goal_facts)

lemma demo_moved_host: "co_host demo_moved = store_meta demo_at_goal (co_host demo_open)"
proof -
  have "host_ok (co_host demo_open)" using demo_open_facts(1) by (simp add: in_step_def)
  then have found: "find_meta (store_meta demo_at_goal (co_host demo_open)) ''a'' = Some demo_at_goal"
    by (simp add: find_meta_store demo_at_goal_fields)
  have "cl_thread_id (caller_of (co_host demo_open) demo_asker) = ''a''" by (simp add: caller_of_def demo_asker_fields)
  then show ?thesis
    by (simp add: demo_moved_def op_move_thread_def demo_move_def demo_goal_facts demo_free demo_session_moves found Let_def)
qed

lemma demo_moved_place: "project_in demo_moved ''a'' = Some (Some ''p'')" "project_in demo_open ''a'' = Some None"
  "in_force demo_moved ''a'' = Some (demo_wide, Grant_Project)"
proof -
  have "host_ok (co_host demo_open)" using demo_open_facts(1) by (simp add: in_step_def)
  then have found: "find_meta (co_host demo_moved) ''a'' = Some demo_at_goal"
    by (simp add: find_meta_store demo_at_goal_fields demo_moved_host)
  then show "project_in demo_moved ''a'' = Some (Some ''p'')" by (simp add: project_in_def demo_at_goal_fields)
  show "in_force demo_moved ''a'' = Some (demo_wide, Grant_Project)"
    using found by (simp add: in_force_def caller_grant_def resolve_grant_def demo_at_goal_fields demo_moved_host demo_open_def)
qed (simp add: project_in_def demo_open_facts demo_asker_fields)

lemma demo_moved_step: "thread_step By_Agent demo_open demo_moved"
  unfolding demo_moved_def by (rule agent_move [OF demo_open_facts(2)])

text \<open>The agent now holds what the settings allow threads of that project, on the whole host.\<close>

lemma moving_itself_widens_the_grant:
  "in_force demo_open ''a'' = Some (default_grant, Grant_Default)" "in_force demo_moved ''a'' = Some (demo_wide, Grant_Project)"
proof -
  have "ho_settings (co_host demo_open) = control_settings_default\<lparr>cs_project_overrides := [''p'' \<mapsto> demo_wide]\<rparr>"
    by (simp add: demo_open_def)
  then show "in_force demo_open ''a'' = Some (default_grant, Grant_Default)"
    by (simp add: in_force_def demo_open_facts caller_grant_def resolve_grant_def demo_asker_more demo_asker_fields
        control_settings_default_def)
qed (rule demo_moved_place(3))

lemma grants_move_with_the_user_or_the_project_witness:
  "stored demo_moved ''a'' = stored demo_open ''a'' \<and> project_in demo_moved ''a'' \<noteq> project_in demo_open ''a''
   \<and> agent_moves ''a'' demo_open demo_moved"
  using grants_move_with_the_user_or_the_project [OF demo_open_facts(1) rtranclp.rtrancl_refl demo_moved_step, of "''a''"]
    demo_moved_place(1,2)
  by simp

lemma demo_open_sessions: "ho_sessions (co_host demo_open) = [demo_asker, demo_meta ''c'' [] None]"
  by (simp add: demo_open_def demo_state_def)

lemma demo_open_wf: "control_wf demo_open"
proof -
  have "meta_wf demo_asker" by (simp add: meta_wf_def demo_asker_fields)
  moreover have "meta_wf (demo_meta ''c'' [] None)" by (simp add: meta_wf_def demo_meta_def)
  moreover have "m = demo_asker \<or> m = demo_meta ''c'' [] None" if "find_meta (co_host demo_open) t = Some m" for t m
    using that demo_open_facts(3) [of t]
    by (auto simp: find_meta_def demo_open_sessions split: option.splits if_splits)
  ultimately show ?thesis using demo_open_facts(1) by (auto simp: control_wf_def in_step_def demo_open_facts(3))
qed

lemma threads_stay_well_formed_witness: "control_wf demo_moved"
proof -
  have "\<exists>who. thread_step who demo_open demo_moved" using demo_moved_step by blast
  then show ?thesis
    using threads_stay_well_formed [OF demo_open_wf r_into_rtranclp [of "\<lambda>s s'. \<exists>who. thread_step who s s'"]] by blast
qed

end
