(* ===== verification/Strings.thy ===== *)
theory Strings
  imports Prelude
begin

section \<open>Text\<close>

text \<open>
  The operations of \<open>str\<close> that the messages of the host are written and read with, on the UTF-8 bytes
  of a string: searching, splitting, joining, and counting characters. A character starts at every
  byte that is not a continuation byte.
\<close>

abbreviation nl :: string where "nl \<equiv> [CHR 0x0A]"

subsection \<open>White space\<close>

text \<open>\<open>find(char::is_whitespace)\<close>, or the length when there is none.\<close>

primrec until_blank :: "string \<Rightarrow> nat" where
  "until_blank [] = 0"
| "until_blank (c # s) = (if blank_len (c # s) > 0 then 0 else Suc (until_blank s))"

definition has_blank :: "string \<Rightarrow> bool" where
  "has_blank s \<longleftrightarrow> until_blank s < length s"

lemma until_blank_le: "until_blank s \<le> length s"
  by (induction s) auto

lemma trim_start_no_blank: "blank_len (trim_start s) = 0 \<or> trim_start s = []"
proof (induction s rule: trim_start.induct)
  case (1 s)
  then show ?case by (cases "blank_len s = 0 \<or> s = []") (auto simp: trim_start.simps [of s])
qed

lemma trim_start_length: "length (trim_start s) \<le> length s"
proof (induction s rule: trim_start.induct)
  case (1 s)
  then show ?case by (cases "blank_len s = 0 \<or> s = []") (auto simp: trim_start.simps [of s])
qed

text \<open>\<open>split_whitespace\<close>.\<close>

function split_whitespace :: "string \<Rightarrow> string list" where
  "split_whitespace s = (let t = trim_start s in
     if t = [] then [] else take (until_blank t) t # split_whitespace (drop (until_blank t) t))"
  by pat_completeness auto
termination
proof (relation "measure length")
  fix s t assume t: "t = trim_start (s :: string)" "t \<noteq> []"
  from t(2) obtain c r where c: "t = c # r" by (cases t) simp_all
  then have "until_blank t > 0" using trim_start_no_blank [of s] t(1) by simp
  moreover have "length t > 0" using c by simp
  moreover have "length t \<le> length s" using trim_start_length [of s] t(1) by simp
  ultimately show "(drop (until_blank t) t, s) \<in> measure length"
    unfolding in_measure length_drop by linarith
qed simp

declare split_whitespace.simps [simp del]

text \<open>\<open>join\<close>.\<close>

fun join :: "string \<Rightarrow> string list \<Rightarrow> string" where
  "join separator [] = []"
| "join separator [x] = x"
| "join separator (x # y # xs) = x @ separator @ join separator (y # xs)"

lemma join_Cons: "join separator (x # xs) = (if xs = [] then x else x @ separator @ join separator xs)"
  by (cases xs) simp_all

subsection \<open>Searching\<close>

text \<open>\<open>find\<close> and \<open>rfind\<close> of a pattern that is not empty: where it first and last occurs.\<close>

fun find_str :: "string \<Rightarrow> string \<Rightarrow> nat option" where
  "find_str pattern [] = None"
| "find_str pattern (c # s) =
     (if starts_with (c # s) pattern then Some 0 else map_option Suc (find_str pattern s))"

fun rfind_str :: "string \<Rightarrow> string \<Rightarrow> nat option" where
  "rfind_str pattern [] = None"
| "rfind_str pattern (c # s) = (case rfind_str pattern s of
     Some i \<Rightarrow> Some (Suc i)
   | None \<Rightarrow> if starts_with (c # s) pattern then Some 0 else None)"

text \<open>\<open>split_once\<close> on one byte, and the part before the first of it.\<close>

definition split_once :: "char \<Rightarrow> string \<Rightarrow> (string \<times> string) option" where
  "split_once c s = map_option (\<lambda>i. (take i s, drop (Suc i) s)) (position (\<lambda>x. x = c) s)"

definition before_char :: "char \<Rightarrow> string \<Rightarrow> string" where
  "before_char c s = takeWhile (\<lambda>x. x \<noteq> c) s"

lemma find_str_SomeD: "find_str p s = Some i \<Longrightarrow> i < length s \<and> starts_with (drop i s) p"
  by (induction s arbitrary: i) (auto split: if_splits)

lemma find_str_None_iff: "find_str p s = None \<longleftrightarrow> (\<forall>i<length s. \<not> starts_with (drop i s) p)"
proof (induction s)
  case (Cons c s)
  then show ?case by (auto simp: less_Suc_eq_0_disj)
qed simp

lemma rfind_str_None_iff: "rfind_str p s = None \<longleftrightarrow> (\<forall>i<length s. \<not> starts_with (drop i s) p)"
proof (induction s)
  case (Cons c s)
  then show ?case by (auto simp: less_Suc_eq_0_disj split: option.splits)
qed simp

lemma find_str_eqI:
  assumes "i < length s" "starts_with (drop i s) p" "\<And>j. j < i \<Longrightarrow> \<not> starts_with (drop j s) p"
  shows "find_str p s = Some i"
  using assms
proof (induction s arbitrary: i)
  case (Cons c s)
  show ?case
  proof (cases i)
    case 0
    then show ?thesis using Cons.prems by simp
  next
    case (Suc k)
    have "\<not> starts_with (drop j s) p" if "j < k" for j
      using Cons.prems(3) [of "Suc j"] Suc that by simp
    with Suc have "find_str p s = Some k" using Cons.prems by (intro Cons.IH) simp_all
    moreover have "\<not> starts_with (c # s) p" using Cons.prems(3) [of 0] Suc by simp
    ultimately show ?thesis using Suc by simp
  qed
qed simp

lemma rfind_str_append:
  assumes "rfind_str p s = Some i"
  shows "rfind_str p (r @ s) = Some (length r + i)"
  using assms by (induction r) auto

subsection \<open>Characters\<close>

definition is_continuation :: "char \<Rightarrow> bool" where
  "is_continuation c \<longleftrightarrow> 128 \<le> (of_char c :: nat) \<and> (of_char c :: nat) < 192"

text \<open>\<open>chars().count()\<close>, and \<open>chars().take(n).collect()\<close>.\<close>

definition char_count :: "string \<Rightarrow> nat" where
  "char_count s = length (filter (\<lambda>c. \<not> is_continuation c) s)"

fun take_chars :: "nat \<Rightarrow> string \<Rightarrow> string" where
  "take_chars n [] = []"
| "take_chars n (c # s) = (if is_continuation c then c # take_chars n s
     else case n of 0 \<Rightarrow> [] | Suc k \<Rightarrow> c # take_chars k s)"

lemma char_count_append [simp]: "char_count (s @ t) = char_count s + char_count t"
  by (simp add: char_count_def)

lemma char_count_take_chars: "char_count (take_chars n s) \<le> n"
  by (induction n s rule: take_chars.induct) (auto simp: char_count_def split: nat.splits)

lemma take_chars_all: "char_count s \<le> n \<Longrightarrow> take_chars n s = s"
  by (induction n s rule: take_chars.induct) (auto simp: char_count_def split: nat.splits if_splits)

lemma take_chars_prefix: "\<exists>t. s = take_chars n s @ t"
  by (induction n s rule: take_chars.induct) (auto split: nat.splits)

end
