(* ===== verification/Provider_Caps.thy ===== *)
theory Provider_Caps
  imports Agent_Events "HOL-Library.Multiset" "HOL-Library.List_Lexorder" "HOL-Library.Char_ord"
begin

section \<open>What a provider can do\<close>

text \<open>
  The capability table of the providers, their permission controls and the context window option
  (\<^verbatim>\<open>agent/src/lib.rs\<close>, \<^verbatim>\<open>agent/src/context_window.rs\<close>), and the comparison of option selections
  (\<^verbatim>\<open>runtime/src/app/providers.rs\<close>). A JSON value is of the type variable \<open>'j\<close>; the accessors and
  constructors of \<open>serde_json\<close> that the code uses are the record \<open>json\<close>, an argument of the
  definitions that read or make one. A value is a string, a number or neither, so \<open>as_str\<close> and
  \<open>as_u64\<close> are never both present: \<open>json_ok\<close> says so and that a made string reads back.
\<close>

record 'j json =
  as_str :: "'j \<Rightarrow> string option"
  as_u64 :: "'j \<Rightarrow> u64 option"
  json_get :: "'j \<Rightarrow> string \<Rightarrow> 'j option"
  json_text :: "'j \<Rightarrow> string"
  json_string :: "string \<Rightarrow> 'j"
  json_bool :: "bool \<Rightarrow> 'j"
  json_object :: "(string \<times> 'j) list \<Rightarrow> 'j"

definition json_ok :: "'j json \<Rightarrow> bool" where
  "json_ok J \<longleftrightarrow> (\<forall>s. as_str J (json_string J s) = Some s)
     \<and> (\<forall>v. as_str J v \<noteq> None \<longrightarrow> as_u64 J v = None)"

subsection \<open>Capabilities\<close>

record goal_control =
  gc_pause :: bool
  gc_live :: bool

datatype instruction_channel =
    Channel_Session_Append
  | Channel_Developer_Context
  | Channel_Per_Prompt_System
  | Channel_Per_Prompt_User_Block
  | Channel_None

datatype live_option_push = Push_All | Push_Only "string list" | Push_None

definition push_supports :: "live_option_push \<Rightarrow> string \<Rightarrow> bool" where
  "push_supports p option_id = (case p of
      Push_All \<Rightarrow> True
    | Push_Only option_ids \<Rightarrow> option_id \<in> set option_ids
    | Push_None \<Rightarrow> False)"

datatype option_descriptors = Descriptors_Wire | Descriptors_Catalog

datatype plugin_action_kind =
  Plugin_Install | Plugin_Uninstall | Plugin_Enable | Plugin_Disable | Plugin_Update

record plugin_management =
  pm_actions :: "plugin_action_kind list"
  pm_marketplaces :: bool

definition plugin_none :: plugin_management where
  "plugin_none = \<lparr>pm_actions = [], pm_marketplaces = False\<rparr>"

definition plugin_supports :: "plugin_management \<Rightarrow> plugin_action_kind \<Rightarrow> bool" where
  "plugin_supports m action = (action \<in> set (pm_actions m))"

record caps =
  cp_supports_steering :: bool
  cp_supports_fork :: bool
  cp_native_rewind :: bool
  cp_manual_compaction :: bool
  cp_goals :: "goal_control option"
  cp_per_turn_effort :: bool
  cp_options_apply_live :: bool
  cp_live_option_push :: live_option_push
  cp_mcp_servers :: bool
  cp_native_computer_use :: bool
  cp_launch_args :: bool
  cp_option_descriptors :: option_descriptors
  cp_home_path :: bool
  cp_trust_project_extensions :: bool
  cp_plugin_management :: plugin_management
  cp_instruction_channel :: instruction_channel
  cp_account_login :: bool

definition NATIVE :: "provider_kind list" where
  "NATIVE = [ClaudeCode, Codex, Pi, OpenCode, Cursor, Grok]"

fun caps_of :: "provider_kind \<Rightarrow> caps" where
  "caps_of ClaudeCode = \<lparr>cp_supports_steering = True, cp_supports_fork = True,
     cp_native_rewind = True, cp_manual_compaction = True,
     cp_goals = Some \<lparr>gc_pause = False, gc_live = False\<rparr>,
     cp_per_turn_effort = False, cp_options_apply_live = False, cp_live_option_push = Push_None,
     cp_mcp_servers = True, cp_native_computer_use = False, cp_launch_args = True,
     cp_option_descriptors = Descriptors_Catalog, cp_home_path = True,
     cp_trust_project_extensions = False,
     cp_plugin_management = \<lparr>pm_actions = [Plugin_Install, Plugin_Uninstall, Plugin_Enable,
       Plugin_Disable, Plugin_Update], pm_marketplaces = True\<rparr>,
     cp_instruction_channel = Channel_Session_Append, cp_account_login = True\<rparr>"
| "caps_of Codex = \<lparr>cp_supports_steering = True, cp_supports_fork = True,
     cp_native_rewind = False, cp_manual_compaction = True,
     cp_goals = Some \<lparr>gc_pause = True, gc_live = True\<rparr>,
     cp_per_turn_effort = True, cp_options_apply_live = False, cp_live_option_push = Push_None,
     cp_mcp_servers = True, cp_native_computer_use = True, cp_launch_args = False,
     cp_option_descriptors = Descriptors_Catalog, cp_home_path = True,
     cp_trust_project_extensions = False,
     cp_plugin_management = \<lparr>pm_actions = [Plugin_Install, Plugin_Uninstall, Plugin_Enable,
       Plugin_Disable], pm_marketplaces = True\<rparr>,
     cp_instruction_channel = Channel_Developer_Context, cp_account_login = False\<rparr>"
| "caps_of Acp = \<lparr>cp_supports_steering = False, cp_supports_fork = False,
     cp_native_rewind = False, cp_manual_compaction = False, cp_goals = None,
     cp_per_turn_effort = False, cp_options_apply_live = True, cp_live_option_push = Push_All,
     cp_mcp_servers = True, cp_native_computer_use = False, cp_launch_args = True,
     cp_option_descriptors = Descriptors_Wire, cp_home_path = True,
     cp_trust_project_extensions = False, cp_plugin_management = plugin_none,
     cp_instruction_channel = Channel_Per_Prompt_User_Block, cp_account_login = False\<rparr>"
| "caps_of Pi = \<lparr>cp_supports_steering = True, cp_supports_fork = False,
     cp_native_rewind = False, cp_manual_compaction = True, cp_goals = None,
     cp_per_turn_effort = False, cp_options_apply_live = False,
     cp_live_option_push = Push_Only [''reasoningEffort''],
     cp_mcp_servers = False, cp_native_computer_use = False, cp_launch_args = True,
     cp_option_descriptors = Descriptors_Catalog, cp_home_path = True,
     cp_trust_project_extensions = True, cp_plugin_management = plugin_none,
     cp_instruction_channel = Channel_None, cp_account_login = False\<rparr>"
| "caps_of OpenCode = \<lparr>cp_supports_steering = False, cp_supports_fork = False,
     cp_native_rewind = False, cp_manual_compaction = False, cp_goals = None,
     cp_per_turn_effort = True, cp_options_apply_live = False, cp_live_option_push = Push_None,
     cp_mcp_servers = True, cp_native_computer_use = False, cp_launch_args = True,
     cp_option_descriptors = Descriptors_Catalog, cp_home_path = False,
     cp_trust_project_extensions = False, cp_plugin_management = plugin_none,
     cp_instruction_channel = Channel_Per_Prompt_System, cp_account_login = False\<rparr>"
| "caps_of Cursor = \<lparr>cp_supports_steering = False, cp_supports_fork = False,
     cp_native_rewind = False, cp_manual_compaction = False, cp_goals = None,
     cp_per_turn_effort = False, cp_options_apply_live = True, cp_live_option_push = Push_All,
     cp_mcp_servers = True, cp_native_computer_use = False, cp_launch_args = True,
     cp_option_descriptors = Descriptors_Wire, cp_home_path = True,
     cp_trust_project_extensions = False, cp_plugin_management = plugin_none,
     cp_instruction_channel = Channel_Per_Prompt_User_Block, cp_account_login = False\<rparr>"
| "caps_of Grok = \<lparr>cp_supports_steering = True, cp_supports_fork = True,
     cp_native_rewind = False, cp_manual_compaction = False, cp_goals = None,
     cp_per_turn_effort = False, cp_options_apply_live = True, cp_live_option_push = Push_All,
     cp_mcp_servers = True, cp_native_computer_use = False, cp_launch_args = True,
     cp_option_descriptors = Descriptors_Wire, cp_home_path = True,
     cp_trust_project_extensions = False,
     cp_plugin_management = \<lparr>pm_actions = [Plugin_Install, Plugin_Uninstall, Plugin_Update],
       pm_marketplaces = True\<rparr>,
     cp_instruction_channel = Channel_Per_Prompt_User_Block, cp_account_login = False\<rparr>"

fun display_name :: "provider_kind \<Rightarrow> string" where
  "display_name Codex = ''Codex''"
| "display_name ClaudeCode = ''Claude Code''"
| "display_name Pi = ''pi''"
| "display_name OpenCode = ''OpenCode''"
| "display_name Cursor = ''Cursor''"
| "display_name Grok = ''Grok''"
| "display_name Acp = ''ACP agent''"

subsection \<open>Permission controls\<close>

text \<open>
  \<open>permission_control\<close> matches on the provider and then makes one descriptor from what the arm
  gave: the id, when a change applies, the default, the recommended and the most permissive value,
  and the values with their labels and descriptions.
\<close>

record permission_arm =
  pa_id :: string
  pa_apply :: apply_timing
  pa_default :: string
  pa_recommended :: string
  pa_permissive :: string
  pa_values :: "(string \<times> string \<times> string) list"

fun permission_values :: "provider_kind \<Rightarrow> permission_arm option" where
  "permission_values ClaudeCode = Some \<lparr>pa_id = ''permissionMode'', pa_apply = Live,
     pa_default = ''default'', pa_recommended = ''auto'', pa_permissive = ''bypassPermissions'',
     pa_values = [
       (''default'', ''Manual'',
        ''Reads and built-in read-only commands run without asking; edits, other commands and network access ask you.''),
       (''acceptEdits'', ''Accept edits'',
        ''Reads, file edits and common filesystem commands run without asking; other commands ask.''),
       (''auto'', ''Auto'',
        ''A background safety classifier reviews each action; safe ones run, risky ones are blocked or ask. Unavailable when the account, model or organization does not support it.''),
       (''dontAsk'', ''Don't ask'',
        ''Only pre-approved tools run; anything that would ask is denied instead.''),
       (''bypassPermissions'', ''Bypass permissions'',
        ''Skips permission prompts. Deny/ask rules and protected paths still apply.'')]\<rparr>"
| "permission_values Codex = Some \<lparr>pa_id = ''permissions'', pa_apply = NextTurn,
     pa_default = ''ask'', pa_recommended = ''auto_review'', pa_permissive = ''full_access'',
     pa_values = [
       (''ask'', ''Ask for approval'',
        ''Reads, edits and commands run inside the workspace sandbox; access to the internet or files outside the workspace asks you.''),
       (''auto_review'', ''Approve for me'',
        ''Same workspace sandbox; requests that would ask are reviewed by Codex's auto-reviewer and only actions it finds risky ask you.''),
       (''read_only'', ''Read Only'',
        ''Reads run in a read-only sandbox; editing files or network access asks you.''),
       (''full_access'', ''Full Access'', ''No sandbox and no prompts.'')]\<rparr>"
| "permission_values Grok = Some \<lparr>pa_id = ''permissionMode'', pa_apply = Restart,
     pa_default = ''default'', pa_recommended = ''auto'', pa_permissive = ''bypassPermissions'',
     pa_values = [
       (''default'', ''Ask'', ''Reads run without asking; edits and commands ask you.''),
       (''acceptEdits'', ''Accept edits'', ''Edits run without asking; commands still ask.''),
       (''auto'', ''Auto'', ''A safety classifier approves routine actions; flagged ones ask you.''),
       (''bypassPermissions'', ''Always approve'', ''Every tool call runs; deny rules still apply.''),
       (''dontAsk'', ''Don't ask'', ''Only pre-approved tools run; anything that would ask is denied.'')]\<rparr>"
| "permission_values Cursor = Some \<lparr>pa_id = ''approvalMode'', pa_apply = Restart,
     pa_default = ''unrestricted'', pa_recommended = ''unrestricted'', pa_permissive = ''unrestricted'',
     pa_values = [
       (''unrestricted'', ''Run everything'', ''Every tool call runs without asking'')]\<rparr>"
| "permission_values OpenCode = Some \<lparr>pa_id = ''permission_mode'', pa_apply = Live,
     pa_default = ''normal'', pa_recommended = ''auto'', pa_permissive = ''auto'',
     pa_values = [
       (''normal'', ''Normal'',
        ''Follows your OpenCode permission rules; actions marked ask wait for you.''),
       (''auto'', ''Auto-approve'',
        ''Answers every ask with once, as OpenCode's own clients do; explicit deny rules still deny.'')]\<rparr>"
| "permission_values Pi = None"
| "permission_values Acp = None"

definition permission_control :: "provider_kind \<Rightarrow> option_descriptor option" where
  "permission_control provider = map_option (\<lambda>arm.
     SelectOption (pa_id arm) ''Permissions''
       (map (\<lambda>(v, label, description). \<lparr>so_value = v, so_label = label,
          so_description = Some description, so_unavailable = None\<rparr>) (pa_values arm))
       (Some (pa_default arm)) PermissionRole (pa_apply arm)
       (Some (pa_recommended arm)) (Some (pa_permissive arm)))
     (permission_values provider)"

fun descriptor_id :: "option_descriptor \<Rightarrow> string" where
  "descriptor_id (SelectOption i _ _ _ _ _ _ _) = i"
| "descriptor_id (BooleanOption i _ _ _ _ _ _) = i"

definition ACP_MODE_OPTION_ID :: string where
  "ACP_MODE_OPTION_ID = ''acp:mode''"

definition option_governs_approvals :: "provider_kind \<Rightarrow> string \<Rightarrow> bool" where
  "option_governs_approvals provider option_id = (option_id = ACP_MODE_OPTION_ID
     \<or> (case permission_control provider of
          Some descriptor \<Rightarrow> descriptor_id descriptor = option_id | None \<Rightarrow> False))"

definition permission_notice :: "provider_kind \<Rightarrow> string option" where
  "permission_notice provider = (if provider = Pi then Some ''No permission control'' else None)"

subsection \<open>Selections\<close>

definition find_selection :: "string \<Rightarrow> 'j option_selection list \<Rightarrow> 'j option" where
  "find_selection option_id selections =
     map_option os_value (find (\<lambda>s. os_id s = option_id) selections)"

definition effort_selection :: "'j json \<Rightarrow> 'j option_selection list \<Rightarrow> string option" where
  "effort_selection J selections =
     Option.bind (find_selection ''reasoningEffort'' selections) (as_str J)"

text \<open>
  \<open>sort_by\<close> is stable, as \<^const>\<open>sort_key\<close> is; strings are ordered by their bytes.
\<close>

definition normalized_selections :: "'j option_selection list \<Rightarrow> bool \<Rightarrow> (string \<times> 'j) list" where
  "normalized_selections selections ignore_effort = sort_key fst
     (map (\<lambda>s. (os_id s, os_value s))
       (filter (\<lambda>s. \<not> (ignore_effort \<and> os_id s = ''reasoningEffort'')) selections))"

text \<open>The order in which options were chosen makes no difference.\<close>

lemma normalized_selections_perm:
  fixes a b :: "'j option_selection list"
  assumes "mset a = mset b" "distinct (map os_id a)"
  shows "normalized_selections a ignore_effort = normalized_selections b ignore_effort"
proof -
  define f where "f = filter (\<lambda>s :: 'j option_selection. \<not> (ignore_effort \<and> os_id s = ''reasoningEffort''))"
  define g where "g = (\<lambda>s :: 'j option_selection. (os_id s, os_value s))"
  have m: "mset (map g (f a)) = mset (map g (f b))"
    using assms(1) by (simp add: f_def mset_map mset_filter)
  have "distinct (map os_id (f a))"
    using assms(2) by (simp add: f_def distinct_map_filter)
  then have "inj_on fst (set (map g (f a)))"
    by (auto simp: distinct_map g_def inj_on_def)
  moreover have "map fst (map g (f a)) = map os_id (f a)" by (simp add: g_def)
  ultimately have "sort_key fst (map g (f a)) = sort_key fst (map g (f b))"
    using m by (intro sort_key_inj_key_eq) simp_all
  then show ?thesis by (simp add: normalized_selections_def f_def g_def)
qed

subsection \<open>The context window\<close>

definition OPTION_ID :: string where "OPTION_ID = ''contextWindow''"

definition MIN_TOKENS :: u64 where "MIN_TOKENS = 100000"

definition parse_tokens :: "'j json \<Rightarrow> 'j \<Rightarrow> u64 option" where
  "parse_tokens J v = Option.bind
     (case as_str J v of
        Some s \<Rightarrow>
          (let s = to_ascii_lowercase (str_trim s)
           in case strip_last s (CHR ''k'') of
                Some digits \<Rightarrow> Option.bind (parse_u64 digits) (\<lambda>n. checked_mul n 1000)
              | None \<Rightarrow> (case strip_last s (CHR ''m'') of
                    Some digits \<Rightarrow> Option.bind (parse_u64 digits) (\<lambda>n. checked_mul n 1000000)
                  | None \<Rightarrow> Option.bind (parse_u64 s)
                      (\<lambda>n. if n < 1000 then checked_mul n 1000 else Some n)))
      | None \<Rightarrow> as_u64 J v)
     (\<lambda>tokens. if tokens \<ge> MIN_TOKENS then Some tokens else None)"

definition format_tokens :: "u64 \<Rightarrow> string" where
  "format_tokens tokens = (if tokens \<ge> 1000000 \<and> tokens mod 1000000 = 0
     then decimal (unat (tokens div 1000000)) @ ''M''
     else decimal (unat (tokens div 1000)) @ ''k'')"

definition window_descriptor :: "option_descriptor list \<Rightarrow> option_descriptor option" where
  "window_descriptor descriptors = find (\<lambda>d. case d of
     SelectOption i _ _ _ _ _ _ _ \<Rightarrow> i = OPTION_ID | BooleanOption _ _ _ _ _ _ _ \<Rightarrow> False) descriptors"

definition selected_window ::
  "'j json \<Rightarrow> option_descriptor list \<Rightarrow> 'j option_selection list \<Rightarrow> u64 option" where
  "selected_window J descriptors selections = opt_or
     (Option.bind (find_selection OPTION_ID selections) (parse_tokens J))
     (Option.bind (window_descriptor descriptors) (\<lambda>d. case d of
        SelectOption _ _ _ default_value _ _ _ _ \<Rightarrow>
          Option.bind default_value (\<lambda>s. parse_tokens J (json_string J s))
      | BooleanOption _ _ _ _ _ _ _ \<Rightarrow> None))"

definition largest_window :: "'j json \<Rightarrow> option_descriptor list \<Rightarrow> u64 option" where
  "largest_window J descriptors = Option.bind (window_descriptor descriptors) (\<lambda>d. case d of
     SelectOption _ _ options _ _ _ _ _ \<Rightarrow>
       (case List.map_filter (\<lambda>o'. parse_tokens J (json_string J (so_value o'))) options of
          [] \<Rightarrow> None
        | w # ws \<Rightarrow> Some (fold max ws w))
   | BooleanOption _ _ _ _ _ _ _ \<Rightarrow> None)"

subsection \<open>Laws\<close>

text \<open>
  Every permission control is a well-formed selector: its values are distinct, and the default, the
  recommended and the most permissive value are among them.
\<close>

fun descriptor_ok :: "option_descriptor \<Rightarrow> bool" where
  "descriptor_ok (SelectOption _ _ options default_value _ _ recommended permissive) \<longleftrightarrow>
     distinct (map so_value options)
     \<and> set (opt_list default_value @ opt_list recommended @ opt_list permissive)
       \<subseteq> so_value ` set options"
| "descriptor_ok (BooleanOption _ _ _ _ _ _ _) \<longleftrightarrow> True"

text \<open>
  The permission control of every provider is well formed: its values have distinct names, and the
  default, the recommended and the most permissive value are among them.
\<close>

lemma permission_controls_are_well_typed:
  "pred_option descriptor_ok (permission_control provider)"
  by (cases provider) (simp_all add: permission_control_def opt_list_def)

lemma governs_approvals_iff:
  "option_governs_approvals provider i \<longleftrightarrow>
     i = ''acp:mode'' \<or> (\<exists>arm. permission_values provider = Some arm \<and> pa_id arm = i)"
  by (cases "permission_values provider")
    (auto simp: option_governs_approvals_def ACP_MODE_OPTION_ID_def permission_control_def)

text \<open>Trimming and lower case leave a number with a unit alone.\<close>

lemma blank_len_plain: "c \<noteq> CHR '' '' \<Longrightarrow> 33 \<le> (of_char c :: nat) \<Longrightarrow> of_char c < (128 :: nat) \<Longrightarrow>
    blank_len (c # s) = 0"
  by (auto simp: blank_len_def split: list.splits)

lemma blank_len_le: "blank_len s \<le> 3"
  by (simp add: blank_len_def split: list.split)

lemma drop_drop_last: "0 < n \<Longrightarrow> drop (length (s @ [c]) - n) (s @ [c]) = drop (length s - (n - 1)) s @ [c]"
  by (cases n) auto

lemma blank_len_last:
  assumes "33 \<le> (of_char c :: nat)" "(of_char c :: nat) < 128"
  shows "blank_len (s @ [c]) \<noteq> Suc (length s)"
proof
  assume len: "blank_len (s @ [c]) = Suc (length s)"
  then have "length s \<le> 2" using blank_len_le [of "s @ [c]"] by simp
  then consider "s = []" | a where "s = [a]" | a b where "s = [a, b]"
    by (cases s; cases "tl s"; cases "tl (tl s)") auto
  then show False
    using len assms by cases (auto simp: blank_len_def split: if_splits)
qed

lemma trim_end_plain:
  assumes "33 \<le> (of_char c :: nat)" "(of_char c :: nat) < 128"
  shows "trim_end (s @ [c]) = s @ [c]"
proof -
  have none: "blank_len (drop (length (s @ [c]) - n) (s @ [c])) \<noteq> n" if "0 < n" "n \<le> length (s @ [c])" for n
  proof -
    from that have "length (drop (length s - (n - 1)) s) = n - 1" by auto
    with blank_len_last [OF assms, of "drop (length s - (n - 1)) s"] that show ?thesis
      unfolding drop_drop_last [OF that(1)] by simp
  qed
  have "find (\<lambda>n. n \<le> length (s @ [c]) \<and> blank_len (drop (length (s @ [c]) - n) (s @ [c])) = n) [1, 2, 3]
      = None"
    unfolding find_None_iff using none by fastforce
  then have "blank_tail (s @ [c]) = 0"
    unfolding blank_tail_def by simp
  then show ?thesis by (simp add: trim_end.simps [of "s @ [c]"])
qed

lemma str_trim_plain:
  assumes "33 \<le> (of_char b :: nat)" "(of_char b :: nat) < 128"
    and "33 \<le> (of_char c :: nat)" "(of_char c :: nat) < 128"
  shows "str_trim (b # s @ [c]) = b # s @ [c]"
proof -
  have "b \<noteq> CHR '' ''" using assms(1) by auto
  then have "blank_len (b # s @ [c]) = 0" using assms by (simp add: blank_len_plain)
  then show ?thesis using assms trim_end_plain [of c "b # s"]
    by (simp add: str_trim_def trim_start.simps [of "b # s @ [c]"])
qed

lemma ascii_lower_digit: "is_digit c \<Longrightarrow> ascii_lower c = c"
  by (simp add: ascii_lower_def is_digit_def Let_def)

lemma lower_decimal: "to_ascii_lowercase (decimal n) = decimal n"
  using decimal_digits [of n]
  by (auto simp: to_ascii_lowercase_def list_all_iff ascii_lower_digit intro: map_idI)

lemma trimmed_decimal_unit:
  assumes "33 \<le> (of_char u :: nat)" "(of_char u :: nat) < 128"
  shows "str_trim (decimal n @ [u]) = decimal n @ [u]"
proof -
  from decimal_digits [of n] obtain c cs where d: "decimal n = c # cs" "is_digit c"
    by (cases "decimal n") auto
  then show ?thesis using str_trim_plain [of c u cs] assms by (simp add: is_digit_def)
qed

lemma strip_last_snoc [simp]: "strip_last (s @ [c]) d = (if c = d then Some s else None)"
  by (simp add: strip_last_def)

lemma parse_decimal:
  assumes "n < 2 ^ 64"
  shows "parse_u64 (decimal n) = Some (of_nat n)"
proof -
  have "unat (of_nat n :: u64) = n" using assms by (simp add: unat_of_nat take_bit_nat_eq_self)
  then show ?thesis using parse_u64_decimal [of "of_nat n"] by simp
qed

lemma ascii_lower_units: "ascii_lower (CHR ''M'') = CHR ''m''" "ascii_lower (CHR ''k'') = CHR ''k''"
  by code_simp+

text \<open>
  What the interface shows for a context window reads back as that window, for every window of whole
  thousands that may be chosen.
\<close>

lemma window_reads_back:
  assumes "json_ok J" "MIN_TOKENS \<le> tokens" "tokens mod 1000 = 0"
  shows "parse_tokens J (json_string J (format_tokens tokens)) = Some tokens"
proof -
  have read: "as_str J (json_string J s) = Some s" for s using assms(1) by (simp add: json_ok_def)
  have bound: "unat tokens < 2 ^ 64" using unsigned_less [of tokens] by simp
  have again: "Option.bind (parse_u64 (decimal (unat (tokens div k)))) (\<lambda>n. checked_mul n k) = Some tokens"
    if "tokens mod k = 0" "k \<noteq> 0" for k :: u64
  proof -
    have "unat (tokens div k) * unat k = unat tokens"
      using that by (metis add.right_neutral div_mult_mod_eq unat_0 unat_div unat_mod)
    moreover have "tokens div k * k = tokens"
      using that by (metis add.right_neutral div_mult_mod_eq mult.commute)
    moreover have "parse_u64 (decimal (unat (tokens div k))) = Some (tokens div k)"
      by (rule parse_u64_decimal)
    ultimately show ?thesis using bound by (simp add: checked_mul_def)
  qed
  have shown: "to_ascii_lowercase (str_trim (decimal n @ ''M'')) = decimal n @ ''m''"
    "to_ascii_lowercase (str_trim (decimal n @ ''k'')) = decimal n @ ''k''" for n
    using lower_decimal [of n]
    by (simp_all add: trimmed_decimal_unit to_ascii_lowercase_def ascii_lower_units)
  show ?thesis
  proof (cases "1000000 \<le> tokens \<and> tokens mod 1000000 = 0")
    case True
    with again [of 1000000] assms(2) show ?thesis
      by (simp add: parse_tokens_def format_tokens_def read shown Let_def)
  next
    case False
    with again [of 1000] assms show ?thesis
      by (auto simp: parse_tokens_def format_tokens_def read shown Let_def)
  qed
qed

lemma window_is_large_enough: "parse_tokens J v = Some tokens \<Longrightarrow> MIN_TOKENS \<le> tokens"
  by (auto simp: parse_tokens_def split: bind_splits if_splits)

end
