(* ===== verification/Relay.thy ===== *)
theory Relay
  imports Strings Provider_Caps Session_Meta Timeline
begin

section \<open>The transcript of a handed-over conversation\<close>

text \<open>
  \<^verbatim>\<open>core/src/relay.rs\<close>: when a thread changes its provider or its directory, the folded timeline is
  rendered as a bounded text that the first message to the new provider session carries. Two
  formatters are arguments beside the JSON operations: \<open>show_path\<close> for \<open>Path::display\<close> and \<open>debug\<close> for
  the \<open>Debug\<close> form of a string.
\<close>

definition RELAY_TRANSCRIPT_MAX_CHARS :: nat where
  "RELAY_TRANSCRIPT_MAX_CHARS = 60000"

definition RELAY_PREAMBLE :: string where
  "RELAY_PREAMBLE = ''You are taking over an ongoing conversation another agent worked on. The transcript follows; continue seamlessly, do not re-introduce yourself or re-do completed work.''"

definition assemble_relay_prompt :: "string \<Rightarrow> string \<Rightarrow> string" where
  "assemble_relay_prompt transcript user_message =
     RELAY_PREAMBLE @ nl @ nl @ ''<conversation-transcript>'' @ nl @ str_trim transcript @ nl
     @ ''</conversation-transcript>'' @ nl @ nl @ ''<new-user-message>'' @ nl @ user_message @ nl
     @ ''</new-user-message>''"

subsection \<open>Is there anything to hand over\<close>

fun is_provider_work :: "'j entry_content \<Rightarrow> bool" where
  "is_provider_work (EntryItem (AssistantMessage t _)) = (\<not> is_blank t)"
| "is_provider_work (EntryItem (CommandExecution _ _ _ _)) = True"
| "is_provider_work (EntryItem (FileChange _ _)) = True"
| "is_provider_work (EntryItem (ToolCall _ _ _ _ _)) = True"
| "is_provider_work (EntryItem (Subagent _ _ _ _ _ _)) = True"
| "is_provider_work (EntryItem (ImageRead _ _)) = True"
| "is_provider_work (EntryItem (WebSearch _)) = True"
| "is_provider_work (EntryItem (OtherItem _ _)) = True"
| "is_provider_work (EntryItem (UserMessage _ _ _)) = False"
| "is_provider_work (EntryItem (Reasoning _)) = False"
| "is_provider_work (EntrySteer _ _ _ _) = False"
| "is_provider_work (EntryError _ _) = False"
| "is_provider_work (EntryProviderStartError _) = False"
| "is_provider_work (EntryProviderRelay _ _ _ _ _ _) = False"
| "is_provider_work (EntryContextCompacted _) = False"
| "is_provider_work (EntryContextWindowChanged _) = False"
| "is_provider_work (EntryControlAction _) = False"
| "is_provider_work (EntryModelChanged _ _ _) = False"

definition has_meaningful_history :: "'j timeline \<Rightarrow> bool" where
  "has_meaningful_history tml = list_ex (\<lambda>(i, turn).
     tm_status turn = Some TurnStatusCompleted
     \<or> list_ex (\<lambda>entry. te_turn entry = i \<and> is_provider_work (te_content entry)) (tl_entries tml))
     (enumerate 0 (tl_turns tml))"

subsection \<open>One line of activity\<close>

definition one_line :: "string \<Rightarrow> string" where
  "one_line s = join '' '' (split_whitespace s)"

text \<open>The em dash between the parts, in UTF-8.\<close>

definition em_dash :: string where
  "em_dash = map char_of [226, 128, 148 :: nat]"

definition activity :: "string \<Rightarrow> string \<Rightarrow> string \<Rightarrow> string" where
  "activity name target outcome = ''- `'' @ one_line name @ ''` '' @ em_dash @ '' ''
     @ (if target = [] then ''(no target)'' else target) @ '' '' @ em_dash @ '' ''
     @ (if outcome = [] then ''completed'' else outcome) @ nl"

definition tool_target :: "'j json \<Rightarrow> 'j \<Rightarrow> string" where
  "tool_target J input = (case find_map (\<lambda>key. Option.bind (json_get J input key) (as_str J))
       [''path'', ''file'', ''command'', ''query'', ''url'', ''target''] of
      Some v \<Rightarrow> one_line v
    | None \<Rightarrow> one_line (json_text J input))"

definition status_outcome :: "item_status \<Rightarrow> string \<Rightarrow> string" where
  "status_outcome status raw = (
     let output = one_line raw;
         labelled = (\<lambda>label. if output = [] then label else label @ '': '' @ output)
     in case status of
          Failed \<Rightarrow> labelled ''failed''
        | Interrupted \<Rightarrow> labelled ''interrupted''
        | InProgress \<Rightarrow> labelled ''in progress''
        | Completed \<Rightarrow> if output \<noteq> [] then output else ''completed''
        | Declined \<Rightarrow> labelled ''declined'')"

text \<open>\<open>i32\<close> and \<open>Option\<close> formatted for a reader, and \<open>text.get(len..)\<close>.\<close>

definition show_i32 :: "i32 \<Rightarrow> string" where
  "show_i32 w = (if sint w < 0 then ''-'' @ decimal (nat (- sint w)) else decimal (nat (sint w)))"

definition debug_option :: "('a \<Rightarrow> string) \<Rightarrow> 'a option \<Rightarrow> string" where
  "debug_option show x = (case x of None \<Rightarrow> ''None'' | Some y \<Rightarrow> ''Some('' @ show y @ '')'')"

definition text_from :: "string \<Rightarrow> nat \<Rightarrow> string option" where
  "text_from s len = (if len \<le> length s \<and> is_char_boundary s len then Some (drop len s) else None)"

definition visible_text :: "string \<Rightarrow> nat option \<Rightarrow> string" where
  "visible_text t context_len = (case Option.bind context_len (text_from t) of
     Some v \<Rightarrow> v | None \<Rightarrow> t)"

subsection \<open>Turns\<close>

definition user_block :: "string \<Rightarrow> nat option \<Rightarrow> string" where
  "user_block t context_len = (let visible = visible_text t context_len
     in if is_blank visible then [] else ''### User'' @ nl @ nl @ visible @ nl @ nl)"

definition render_entry :: "'j json \<Rightarrow> (string \<Rightarrow> string) \<Rightarrow> 'j entry_content \<Rightarrow> string" where
  "render_entry J debug content = (case content of
     EntryItem item \<Rightarrow> (case item of
         UserMessage t context_len _ \<Rightarrow> user_block t context_len
       | AssistantMessage t _ \<Rightarrow>
           if is_blank t then [] else ''### Assistant'' @ nl @ nl @ t @ nl @ nl
       | CommandExecution command output exit_code status \<Rightarrow>
           activity ''command'' (one_line command)
             (case exit_code of
                Some code \<Rightarrow> ''exit '' @ show_i32 code @ '': '' @ one_line output
              | None \<Rightarrow> status_outcome status output)
       | FileChange changes _ \<Rightarrow>
           activity ''file_change'' (join '', '' (map fc_path changes))
             (decimal (length changes) @ '' file(s) changed'')
       | ToolCall _ name input output status \<Rightarrow>
           activity name (tool_target J input)
             (status_outcome status (case output of Some t \<Rightarrow> t | None \<Rightarrow> []))
       | Subagent agent_type description status summary _ _ \<Rightarrow>
           activity agent_type (one_line description)
             (status_outcome status (case summary of Some t \<Rightarrow> t | None \<Rightarrow> []))
       | ImageRead file _ \<Rightarrow> activity ''image_view'' file (status_outcome Completed [])
       | WebSearch query \<Rightarrow>
           activity ''web_search'' (tool_target J (json_object J [(''query'', json_string J query)]))
             (status_outcome Completed [])
       | OtherItem kind summary \<Rightarrow>
           activity kind (tool_target J (json_object J [(''summary'', json_string J summary)]))
             (status_outcome Completed [])
       | Reasoning _ \<Rightarrow> [])
   | EntrySteer t _ context_len _ \<Rightarrow> user_block t context_len
   | EntryError message _ \<Rightarrow> activity ''error'' ''provider'' (one_line message)
   | EntryProviderStartError message \<Rightarrow> activity ''error'' ''provider'' (one_line message)
   | EntryProviderRelay from_provider _ to_provider _ _ _ \<Rightarrow>
       ''> Relayed from '' @ display_name from_provider @ '' to '' @ display_name to_provider @ ''.'' @ nl @ nl
   | EntryContextCompacted c \<Rightarrow> activity ''context'' ''provider''
       ((if cp_in_progress c then ''compacting'' else ''compacted'')
        @ ''; trigger='' @ debug_option debug (cp_trigger c)
        @ ''; pre_tokens='' @ debug_option (\<lambda>n. decimal (unat n)) (cp_pre_tokens c))
   | EntryContextWindowChanged window \<Rightarrow>
       activity ''context'' ''provider'' (''window set to '' @ format_tokens window)
   | EntryModelChanged _ _ _ \<Rightarrow> []
   | EntryControlAction action \<Rightarrow> activity ''control'' (ca_actor_title action)
       (case ca_detail action of
          Some detail \<Rightarrow> ca_action action @ '': '' @ detail
        | None \<Rightarrow> ca_action action))"

definition render_turn ::
  "'j json \<Rightarrow> (string \<Rightarrow> string) \<Rightarrow> nat \<Rightarrow> 'j timeline_entry list \<Rightarrow> string" where
  "render_turn J debug number entries = (
     let body = concat (map (\<lambda>e. render_entry J debug (te_content e)) entries)
     in if body = [] then [] else ''## Turn '' @ decimal number @ nl @ nl @ body)"

fun turn_note :: "turn_status option \<Rightarrow> string" where
  "turn_note (Some TurnStatusCompleted) = []"
| "turn_note (Some TurnStatusInterrupted) = ''> This turn was interrupted before it completed.'' @ nl @ nl"
| "turn_note (Some TurnStatusFailed) = ''> This turn failed before it completed.'' @ nl @ nl"
| "turn_note None =
     ''> This turn was still running when the conversation was handed over.'' @ nl @ nl"

definition turn_block :: "'j json \<Rightarrow> (string \<Rightarrow> string) \<Rightarrow> 'j timeline \<Rightarrow> nat \<Rightarrow> string" where
  "turn_block J debug tml turn = (
     let block = render_turn J debug (turn + 1) (filter (\<lambda>e. te_turn e = turn) (tl_entries tml))
     in if block = [] then [] else block @ turn_note (tm_status (tl_turns tml ! turn)))"

definition plan_block :: "'j timeline \<Rightarrow> string" where
  "plan_block tml = ''### Current todo state'' @ nl @ nl
     @ (case tl_plan_explanation tml of Some t \<Rightarrow> str_trim t @ nl @ nl | None \<Rightarrow> [])
     @ concat (map (\<lambda>step. ''- ['' @ (if ps_status step = StepCompleted then ''x'' else '' '') @ ''] ''
         @ ps_step step @ (if ps_status step = StepInProgress then '' (in progress)'' else []) @ nl)
         (tl_plan_steps tml))"

definition turn_blocks :: "'j json \<Rightarrow> (string \<Rightarrow> string) \<Rightarrow> 'j timeline \<Rightarrow> string list" where
  "turn_blocks J debug tml = (
     let parts = filter (\<lambda>b. b \<noteq> []) (map (turn_block J debug tml) [0..<length (tl_turns tml)])
     in if tl_plan_steps tml = [] then parts else update_last (\<lambda>b. b @ plan_block tml) parts)"

subsection \<open>The bounded transcript\<close>

text \<open>The loop of \<open>render_elided\<close> over the blocks from the last; what it kept is in reverse.\<close>

fun keep_blocks :: "nat \<Rightarrow> nat \<Rightarrow> string list \<Rightarrow> string list \<Rightarrow> string list" where
  "keep_blocks max_chars used kept [] = kept"
| "keep_blocks max_chars used kept (block # parts) = (
     let len = char_count block + 1
     in if used + len > max_chars \<and> kept \<noteq> [] then kept
        else if used + len > max_chars then kept @ [take_chars (max_chars - used) block]
        else keep_blocks max_chars (used + len) (kept @ [block]) parts)"

definition first_section :: "'j timeline \<Rightarrow> string" where
  "first_section tml = (let first_user = (case first_user_message tml of Some t \<Rightarrow> t | None \<Rightarrow> [])
     in if first_user = [] then [] else ''## First user message'' @ nl @ nl @ first_user @ nl @ nl)"

definition elision_marker :: "nat \<Rightarrow> string" where
  "elision_marker elided = ''[... '' @ decimal elided @ '' earlier turns elided ...]'' @ nl @ nl"

definition render_elided ::
  "'j timeline \<Rightarrow> string \<Rightarrow> string \<Rightarrow> string list \<Rightarrow> nat \<Rightarrow> string" where
  "render_elided tml header closing parts max_chars = (
     let first = first_section tml;
         kept = rev (keep_blocks max_chars
           (char_count header + char_count first + char_count closing + 64) [] (rev parts));
         elided = length parts - length kept;
         out = header @ nl @ first @ elision_marker elided @ join nl kept @ closing
     in if char_count out > max_chars then take_chars max_chars out else out)"

definition relay_closing :: string where
  "relay_closing = nl @ ''---'' @ nl @ ''This is where the previous agent left off.'' @ nl"

definition relay_header ::
  "(path \<Rightarrow> string) \<Rightarrow> 'j timeline \<Rightarrow> path \<Rightarrow> provider_kind \<Rightarrow> string option \<Rightarrow> string" where
  "relay_header show_path tml project_path original_provider original_model = (
     let completed_turns = length (filter (\<lambda>t. tm_status t = Some TurnStatusCompleted) (tl_turns tml));
         (provider, model) = (case find_map (\<lambda>entry. case te_content entry of
               EntryProviderRelay from_provider from_model _ _ _ _ \<Rightarrow> Some (from_provider, from_model)
             | _ \<Rightarrow> None) (tl_entries tml) of
           Some found \<Rightarrow> found | None \<Rightarrow> (original_provider, original_model));
         shown = (case model of Some m \<Rightarrow> m | None \<Rightarrow> ''provider default'')
     in ''# Conversation relay'' @ nl @ nl @ ''- Project: `'' @ show_path project_path @ ''`'' @ nl
        @ ''- Original provider/model: '' @ display_name provider @ '' / '' @ shown @ nl
        @ ''- Completed turns: '' @ decimal completed_turns @ nl)"

definition render_relay_transcript ::
  "'j json \<Rightarrow> (path \<Rightarrow> string) \<Rightarrow> (string \<Rightarrow> string) \<Rightarrow> 'j timeline \<Rightarrow> path \<Rightarrow> provider_kind \<Rightarrow>
     string option \<Rightarrow> nat \<Rightarrow> string" where
  "render_relay_transcript J show_path debug tml project_path original_provider original_model max_chars = (
     if \<not> has_meaningful_history tml then []
     else
       let header = relay_header show_path tml project_path original_provider original_model;
           parts = turn_blocks J debug tml;
           full = header @ nl @ join nl parts @ relay_closing
       in if char_count full \<le> max_chars then full
          else render_elided tml header relay_closing parts max_chars)"

subsection \<open>The bound and what survives it\<close>

text \<open>C38: No transcript is longer than the bound it is asked for, counted in characters.\<close>

theorem transcript_is_bounded:
  "char_count (render_relay_transcript J show_path debug tml project_path provider model max_chars)
     \<le> max_chars"
  using char_count_take_chars
  by (auto simp: render_relay_transcript_def render_elided_def Let_def char_count_def [of "[]"])

lemma char_count_nl [simp]: "char_count (CHR 0x0A # s) = Suc (char_count s)"
  by (simp add: char_count_def is_continuation_def)

lemma digit_starts_char: "is_digit c \<Longrightarrow> \<not> is_continuation c"
  by (simp add: is_digit_def is_continuation_def)

lemma length_decimal: "n < 10 ^ Suc k \<Longrightarrow> length (decimal n) \<le> Suc k"
proof (induction k arbitrary: n)
  case 0
  then show ?case by (simp add: decimal.simps [of n])
next
  case (Suc k)
  then have "n div 10 < 10 ^ Suc k" by (simp add: less_mult_imp_div_less)
  then have "length (decimal (n div 10)) \<le> Suc k" by (rule Suc.IH)
  then show ?case by (simp add: decimal.simps [of n])
qed

lemma char_count_le_length: "char_count s \<le> length s"
  by (simp add: char_count_def)

lemma marker_fits:
  assumes "n < 2 ^ 64"
  shows "char_count (elision_marker n) \<le> 63"
proof -
  have "n < 10 ^ Suc 19" using assms by simp
  then have "length (decimal n) \<le> 20" using length_decimal [of n 19] by simp
  then have "length (elision_marker n) \<le> 63" by (simp add: elision_marker_def)
  then show ?thesis using char_count_le_length [of "elision_marker n"] by linarith
qed

lemma char_count_join: "parts \<noteq> [] \<Longrightarrow>
    char_count (join nl parts) + 1 = (\<Sum>b\<leftarrow>parts. char_count b + 1)"
  by (induction parts) (auto simp: join_Cons)

lemma keep_blocks_kept:
  assumes "used \<le> max_chars" "kept \<noteq> []"
  shows "\<exists>n. keep_blocks max_chars used kept bs = kept @ take n bs
    \<and> used + (\<Sum>b\<leftarrow>take n bs. char_count b + 1) \<le> max_chars"
  using assms
proof (induction bs arbitrary: used kept)
  case Nil
  then show ?case by (intro exI [of _ 0]) simp
next
  case (Cons b bs)
  show ?case
  proof (cases "used + (char_count b + 1) > max_chars")
    case True
    then show ?thesis using Cons.prems by (intro exI [of _ 0]) simp
  next
    case False
    then obtain n where n: "keep_blocks max_chars (used + (char_count b + 1)) (kept @ [b]) bs
        = (kept @ [b]) @ take n bs"
      "used + (char_count b + 1) + (\<Sum>b\<leftarrow>take n bs. char_count b + 1) \<le> max_chars"
      using Cons.IH [of "used + (char_count b + 1)" "kept @ [b]"] by auto
    show ?thesis using False n Cons.prems by (intro exI [of _ "Suc n"]) (simp add: Let_def)
  qed
qed

lemma length_turn_blocks: "length (turn_blocks J debug tml) \<le> length (tl_turns tml)"
  using length_filter_le [of "\<lambda>b. b \<noteq> []" "map (turn_block J debug tml) [0..<length (tl_turns tml)]"]
  by (simp add: turn_blocks_def Let_def)

lemma elided_keeps_last:
  assumes "bs \<noteq> []" "length bs < 2 ^ 64"
    "char_count header + char_count (first_section tml) + char_count closing + 64
      + (char_count (last bs) + 1) \<le> max_chars"
  shows "\<exists>k pre. k < length bs \<and> render_elided tml header closing bs max_chars
      = pre @ join nl (drop k bs) @ closing
    \<and> char_count (pre @ join nl (drop k bs) @ closing) \<le> max_chars"
proof -
  define used where "used = char_count header + char_count (first_section tml) + char_count closing + 64"
  obtain rest where rev: "rev bs = last bs # rest"
    using assms(1) by (metis append_butlast_last_id rev_eq_Cons_iff rev_rev_ident)
  obtain n where n: "keep_blocks max_chars (used + (char_count (last bs) + 1)) [last bs] rest
      = [last bs] @ take n rest"
    "used + (char_count (last bs) + 1) + (\<Sum>b\<leftarrow>take n rest. char_count b + 1) \<le> max_chars"
    using keep_blocks_kept [of "used + (char_count (last bs) + 1)" max_chars "[last bs]" rest] assms(3)
    by (auto simp: used_def)
  define kept where "kept = rev (keep_blocks max_chars used [] (rev bs))"
  have same: "length (keep_blocks max_chars used [] (rev bs)) = length kept" by (simp add: kept_def)
  have rkept: "rev kept = take (Suc n) (rev bs)"
    using n(1) assms(3) by (simp add: kept_def rev used_def Let_def)
  then have kept: "kept = drop (length bs - Suc n) bs"
    by (metis length_rev rev_rev_ident rev_take)
  define k where "k = length bs - Suc n"
  have "k < length bs" using assms(1) by (simp add: k_def)
  have "kept \<noteq> []" using kept \<open>k < length bs\<close> by (simp add: k_def)
  have "(\<Sum>b\<leftarrow>kept. char_count b + 1) = (\<Sum>b\<leftarrow>rev kept. char_count b + 1)"
    by (simp add: rev_map [symmetric] sum_list_rev)
  also have "\<dots> = char_count (last bs) + 1 + (\<Sum>b\<leftarrow>take n rest. char_count b + 1)"
    by (simp add: rkept rev)
  finally have "char_count (join nl kept) + 1
      = char_count (last bs) + 1 + (\<Sum>b\<leftarrow>take n rest. char_count b + 1)"
    using char_count_join [OF \<open>kept \<noteq> []\<close>] by simp
  with n(2) have body: "used + (char_count (join nl kept) + 1) \<le> max_chars" by simp
  define pre where "pre = header @ nl @ first_section tml @ elision_marker (length bs - length kept)"
  have "char_count (elision_marker (length bs - length kept)) \<le> 63"
    using assms(2) by (intro marker_fits) linarith
  then have bound: "char_count (pre @ join nl kept @ closing) \<le> max_chars"
    using body by (simp add: pre_def used_def)
  then have "render_elided tml header closing bs max_chars = pre @ join nl kept @ closing"
    by (simp add: render_elided_def Let_def pre_def same flip: used_def kept_def)
  with bound \<open>k < length bs\<close> show ?thesis unfolding kept k_def [symmetric] by blast
qed

text \<open>
  The transcript a fresh provider session is given keeps the last turns whole and its closing line,
  whenever the last turn fits beside the header, the first message and 64 spare characters: it is some
  beginning, then the blocks of the turns from some turn on, then the closing line.
\<close>

theorem last_turns_survive_the_bound:
  assumes "has_meaningful_history tml" "turn_blocks J debug tml \<noteq> []"
    "length (tl_turns tml) < 2 ^ 64"
    "char_count (relay_header show_path tml project_path provider model)
      + char_count (first_section tml) + char_count relay_closing + 64
      + (char_count (last (turn_blocks J debug tml)) + 1) \<le> max_chars"
  shows "\<exists>k pre. k < length (turn_blocks J debug tml)
    \<and> render_relay_transcript J show_path debug tml project_path provider model max_chars
      = pre @ join nl (drop k (turn_blocks J debug tml)) @ relay_closing
    \<and> char_count (pre @ join nl (drop k (turn_blocks J debug tml)) @ relay_closing) \<le> max_chars"
proof -
  define bs where "bs = turn_blocks J debug tml"
  define header where "header = relay_header show_path tml project_path provider model"
  define full where "full = header @ nl @ join nl bs @ relay_closing"
  have render: "render_relay_transcript J show_path debug tml project_path provider model max_chars
      = (if char_count full \<le> max_chars then full
         else render_elided tml header relay_closing bs max_chars)"
    using assms(1) by (simp add: render_relay_transcript_def Let_def bs_def header_def full_def)
  have "bs \<noteq> []" using assms(2) by (simp add: bs_def)
  show ?thesis
  proof (cases "char_count full \<le> max_chars")
    case True
    with render \<open>bs \<noteq> []\<close> show ?thesis
      by (intro exI [of _ 0] exI [of _ "header @ nl"]) (simp add: full_def bs_def)
  next
    case False
    then show ?thesis
      using elided_keeps_last [of bs header tml relay_closing max_chars] render assms(3,4)
        length_turn_blocks [of J debug tml] \<open>bs \<noteq> []\<close>
      by (simp add: bs_def header_def)
  qed
qed

end
