(* ===== verification/Message_Queue.thy ===== *)
theory Message_Queue
  imports Relay
begin

section \<open>The message queue of a session\<close>

text \<open>
  \<^verbatim>\<open>runtime/src/app/active_session.rs\<close>: the host's state of one open session and every operation on
  its queue of messages, its delivery in flight and its provider. A message is submitted to the
  provider with its queue id and stays queued until the adapter confirms that id.

  The wall clock is an argument \<open>now\<close> in units since the epoch. The channel to the provider is
  outside the model: an argument \<open>accepts\<close> says whether \<open>try_send\<close> succeeds, and an operation that
  sends returns the commands it sent. Not modelled of the session: the branches shown for its
  checkout, its terminals and the handle of its event pump.
\<close>

subsection \<open>Commands to a provider\<close>

record turn_options =
  to_effort :: "string option"

datatype 'j session_command =
    Cmd_Send_Turn u64 string "turn_options option" "attachment list"
  | Cmd_Retry_Turn string
  | Cmd_Interrupt
  | Cmd_Respond_Approval string approval_decision
  | Cmd_Respond_User_Input string "(string \<times> 'j) list"
  | Cmd_Steer string string "attachment list"
  | Cmd_Set_Option string 'j
  | Cmd_Rewind string rewind_mode
  | Cmd_Compact
  | Cmd_Set_Goal "string option" "goal_status option"
  | Cmd_Clear_Goal
  | Cmd_Shutdown

subsection \<open>Messages\<close>

datatype queued_kind =
    Queued_User
  | Queued_Orchestrate_Callback
  | Queued_Pull_Request_Wake pull_request_key string

record queued_message =
  qm_id :: u64
  qm_delivery_key :: "string option"
  qm_author :: "author option"
  qm_origin :: message_origin
  qm_text :: string
  qm_relay_transcript :: "string option"
  qm_attachments :: "attachment list"
  qm_not_before :: "int option"
  qm_options :: turn_options
  qm_context_len :: "nat option"
  qm_context_window_changed :: "u64 option"
  qm_kind :: queued_kind

definition IMAGE_ONLY_MESSAGE :: string where
  "IMAGE_ONLY_MESSAGE = ''[User attached one or more images without additional text. Respond using the conversation context and the attached image(s).]''"

definition wire_text_with_placeholder :: "string \<Rightarrow> attachment list \<Rightarrow> string" where
  "wire_text_with_placeholder txt attachments =
     (if is_blank txt \<and> attachments \<noteq> [] then IMAGE_ONLY_MESSAGE else txt)"

definition native_skill_invocation :: "string \<Rightarrow> provider_command list \<Rightarrow> string" where
  "native_skill_invocation txt provider_commands = (case strip_prefix txt ''$'' of
      None \<Rightarrow> txt
    | Some rest \<Rightarrow>
        let name = take (until_blank rest) rest;
            listed = (\<lambda>kind. \<exists>c\<in>set provider_commands. pc_kind c = kind \<and> pc_name c = name)
        in if name = [] \<or> \<not> listed SkillKind \<or> \<not> listed CommandKind then txt else ''/'' @ rest)"

definition wire_text :: "provider_command list \<Rightarrow> queued_message \<Rightarrow> string" where
  "wire_text provider_commands m =
     (let txt = (case qm_relay_transcript m of
            Some transcript \<Rightarrow> assemble_relay_prompt transcript (qm_text m)
          | None \<Rightarrow> qm_text m)
      in native_skill_invocation (wire_text_with_placeholder txt (qm_attachments m)) provider_commands)"

definition attachment_paths :: "attachment list \<Rightarrow> string list" where
  "attachment_paths attachments = List.map_filter at_source_path attachments"

definition CONTROL_CALLBACK_PREFIX :: string where
  "CONTROL_CALLBACK_PREFIX = ''[control] ''"

definition is_control_callback :: "string \<Rightarrow> bool" where
  "is_control_callback txt = starts_with txt CONTROL_CALLBACK_PREFIX"

subsection \<open>The session\<close>

datatype send_routing = Route_Send | Route_Queue | Route_Steer | Route_Queue_Unsupported

datatype runtime = Run_Idle | Run_Starting u64 | Run_Live

record pending_steer =
  ps_request_id :: string
  ps_text :: string
  ps_attachments :: "attachment list"
  ps_author :: "author option"
  ps_origin :: "message_origin option"

record pending_relay =
  pr_from_provider :: provider_kind
  pr_from_model :: "string option"
  pr_from_profile :: "string option"

datatype workspace_mode = Local_Checkout | New_Worktree string

record 'j active_session =
  as_meta :: "'j session_meta"
  as_timeline :: "'j timeline"
  as_draft :: bool
  as_draft_device_id :: "string option"
  as_pending_relay :: "pending_relay option"
  as_runtime :: runtime
  as_live_model :: "string option"
  as_live_cwd :: path
  as_live_option_selections :: "'j option_selection list"
  as_confirmed_option_selections :: "'j option_selection list"
  as_pending_context_len :: "nat option"
  as_draft_workspace :: workspace_mode
  as_preparing_worktree :: bool
  as_queue :: "queued_message list"
  as_next_queue_id :: u64
  as_delivery_in_flight :: "u64 option"
  as_pending_steers :: "pending_steer list"
  as_turn_in_flight :: bool
  as_turn_woken_by_control :: bool
  as_interrupt_requested :: bool
  as_requested_command :: "'j session_command option"
  as_background_task_count :: nat
  as_mcp_servers_attached :: bool
  as_idle_since :: "int option"
  as_provider_commands :: "provider_command list"
  as_provider_options :: "option_descriptor list"

definition new_session :: "'j session_meta \<Rightarrow> bool \<Rightarrow> provider_command list \<Rightarrow> 'j active_session" where
  "new_session m draft provider_commands = \<lparr>as_meta = m, as_timeline = timeline_default,
     as_draft = draft, as_draft_device_id = None, as_pending_relay = None, as_runtime = Run_Idle,
     as_live_model = None, as_live_cwd = me_cwd m, as_live_option_selections = [],
     as_confirmed_option_selections = [], as_pending_context_len = None,
     as_draft_workspace = Local_Checkout, as_preparing_worktree = False, as_queue = [],
     as_next_queue_id = 0, as_delivery_in_flight = None, as_pending_steers = [],
     as_turn_in_flight = False, as_turn_woken_by_control = False, as_interrupt_requested = False,
     as_requested_command = None, as_background_task_count = 0, as_mcp_servers_attached = True,
     as_idle_since = None, as_provider_commands = provider_commands, as_provider_options = []\<rparr>"

definition is_live :: "'j active_session \<Rightarrow> bool" where
  "is_live s \<longleftrightarrow> as_runtime s = Run_Live"

fun is_starting :: "runtime \<Rightarrow> bool" where
  "is_starting (Run_Starting _) = True"
| "is_starting _ = False"

definition is_starting_generation :: "u64 \<Rightarrow> 'j active_session \<Rightarrow> bool" where
  "is_starting_generation generation s = (as_runtime s = Run_Starting generation)"

subsection \<open>Settings the live provider was not started with\<close>

definition model_changed_while_live :: "'j active_session \<Rightarrow> bool" where
  "model_changed_while_live s = (is_live s \<and> me_model (as_meta s) \<noteq> as_live_model s)"

definition permission_descriptor :: "'j active_session \<Rightarrow> option_descriptor option" where
  "permission_descriptor s = (case permission_control (me_provider (as_meta s)) of
      None \<Rightarrow> None
    | Some descriptor \<Rightarrow> opt_or
        (find (\<lambda>option. descriptor_id option = descriptor_id descriptor) (as_provider_options s))
        (Some descriptor))"

fun descriptor_default :: "'j json \<Rightarrow> option_descriptor \<Rightarrow> 'j option" where
  "descriptor_default J (SelectOption _ _ _ default_value _ _ _ _) =
     map_option (json_string J) default_value"
| "descriptor_default J (BooleanOption _ _ default_value _ _ _ _) =
     Some (json_bool J default_value)"

fun restarts :: "option_descriptor \<Rightarrow> bool" where
  "restarts (SelectOption _ _ _ _ _ apply _ _) = (apply = Restart)"
| "restarts (BooleanOption _ _ _ _ apply _ _) = (apply = Restart)"

definition options_changed_while_live :: "'j json \<Rightarrow> 'j active_session \<Rightarrow> bool" where
  "options_changed_while_live J s = (
     if \<not> is_live s then False
     else
       let permission = permission_descriptor s;
           permission_id = map_option descriptor_id permission;
           permission_restart = (case permission of
               None \<Rightarrow> False
             | Some descriptor \<Rightarrow>
                 let default = descriptor_default J descriptor;
                     value_of = (\<lambda>selections. opt_or (map_option os_value
                       (find (\<lambda>selection. Some (os_id selection) = permission_id) selections)) default)
                 in restarts descriptor
                    \<and> value_of (me_option_selections (as_meta s)) \<noteq> value_of (as_live_option_selections s))
       in if cp_options_apply_live (caps_of (me_provider (as_meta s))) then permission_restart
          else
            let ignore_effort = cp_per_turn_effort (caps_of (me_provider (as_meta s)));
                model_selections = (\<lambda>selections. normalized_selections
                  (filter (\<lambda>selection. Some (os_id selection) \<noteq> permission_id) selections) ignore_effort)
            in permission_restart
               \<or> model_selections (me_option_selections (as_meta s))
                 \<noteq> model_selections (as_live_option_selections s))"

definition cwd_changed_while_live :: "'j active_session \<Rightarrow> bool" where
  "cwd_changed_while_live s = (is_live s \<and> as_live_cwd s \<noteq> me_cwd (as_meta s))"

definition launch_settings_changed_while_live :: "'j json \<Rightarrow> 'j active_session \<Rightarrow> bool" where
  "launch_settings_changed_while_live J s =
     (model_changed_while_live s \<or> options_changed_while_live J s \<or> cwd_changed_while_live s)"

definition settings_restart_deferred :: "'j json \<Rightarrow> 'j active_session \<Rightarrow> bool" where
  "settings_restart_deferred J s = (launch_settings_changed_while_live J s
     \<and> (as_turn_in_flight s \<or> as_background_task_count s > 0 \<or> as_delivery_in_flight s \<noteq> None))"

subsection \<open>What the session is doing\<close>

definition fully_idle :: "'j active_session \<Rightarrow> bool" where
  "fully_idle s = (\<not> as_turn_in_flight s \<and> as_delivery_in_flight s = None \<and> as_queue s = []
     \<and> as_background_task_count s = 0)"

definition has_work :: "'j active_session \<Rightarrow> bool" where
  "has_work s = (as_turn_in_flight s \<or> as_delivery_in_flight s \<noteq> None \<or> as_queue s \<noteq> []
     \<or> as_background_task_count s > 0)"

definition is_unfinished :: "'j active_session \<Rightarrow> bool" where
  "is_unfinished s = (has_work s \<or> is_starting (as_runtime s))"

definition can_steer :: "'j active_session \<Rightarrow> bool" where
  "can_steer s = (is_live s \<and> cp_supports_steering (caps_of (me_provider (as_meta s))))"

definition route :: "bool \<Rightarrow> 'j active_session \<Rightarrow> send_routing" where
  "route steer s = (
     if \<not> as_turn_in_flight s then Route_Send
     else if \<not> steer then Route_Queue
     else if can_steer s \<and> tl_turn_retry (as_timeline s) = None then Route_Steer
     else Route_Queue_Unsupported)"

definition current_turn_options :: "'j json \<Rightarrow> 'j active_session \<Rightarrow> turn_options" where
  "current_turn_options J s = \<lparr>to_effort =
     (if cp_per_turn_effort (caps_of (me_provider (as_meta s)))
      then effort_selection J (me_option_selections (as_meta s)) else None)\<rparr>"

definition due :: "int \<Rightarrow> queued_message \<Rightarrow> bool" where
  "due now m = (case qm_not_before m of None \<Rightarrow> True | Some t \<Rightarrow> t \<le> now)"

definition next_dispatchable :: "'j json \<Rightarrow> int \<Rightarrow> 'j active_session \<Rightarrow> queued_message option" where
  "next_dispatchable J now s = (
     if as_turn_in_flight s \<or> as_delivery_in_flight s \<noteq> None \<or> settings_restart_deferred J s
        \<or> \<not> is_live s
     then None
     else find (due now) (as_queue s))"

definition moved_handoff_message ::
  "'j json \<Rightarrow> int \<Rightarrow> 'j active_session \<Rightarrow> (u64 \<times> string) option" where
  "moved_handoff_message J now s = (
     if me_moved_from (as_meta s) = None \<or> cwd_changed_while_live s then None
     else map_option (\<lambda>m. (qm_id m, qm_text m)) (next_dispatchable J now s))"

datatype conversation_destination = Thread_Destination string | Project_Draft string

definition destination_of :: "'j active_session \<Rightarrow> conversation_destination" where
  "destination_of s = (case me_project_id (as_meta s) of
      Some project_id \<Rightarrow> if as_draft s then Project_Draft project_id
        else Thread_Destination (me_id (as_meta s))
    | None \<Rightarrow> Thread_Destination (me_id (as_meta s)))"

subsection \<open>Stopping the provider\<close>

definition shutdown_to_idle ::
  "bool \<Rightarrow> 'j active_session \<Rightarrow> 'j session_command list \<times> 'j active_session" where
  "shutdown_to_idle accepts s = (if is_live s \<and> accepts then [Cmd_Shutdown] else [],
     s\<lparr>as_runtime := Run_Idle, as_delivery_in_flight := None, as_turn_in_flight := False,
       as_interrupt_requested := False, as_requested_command := None,
       as_background_task_count := 0, as_idle_since := None\<rparr>)"

definition mark_dead :: "'j active_session \<Rightarrow> 'j active_session" where
  "mark_dead s = s\<lparr>as_runtime := Run_Idle, as_delivery_in_flight := None,
     as_turn_in_flight := False, as_interrupt_requested := False, as_requested_command := None,
     as_background_task_count := 0\<rparr>"

definition resume_cursor_for_fresh_provider ::
  "bool \<Rightarrow> 'j active_session \<Rightarrow> 'j session_command list \<times> 'j active_session" where
  "resume_cursor_for_fresh_provider accepts s = (case shutdown_to_idle accepts s of (sent, s') \<Rightarrow>
     (sent, s'\<lparr>as_meta := (as_meta s')\<lparr>me_resume_cursor := None, me_pending_fork := False\<rparr>,
        as_pending_relay := None\<rparr>))"

subsection \<open>Rows of the queue\<close>

definition take_queued :: "u64 \<Rightarrow> 'j active_session \<Rightarrow> queued_message option \<times> 'j active_session" where
  "take_queued i s = (
     if as_delivery_in_flight s = Some i then (None, s)
     else (case position (\<lambda>m. qm_id m = i) (as_queue s) of
         None \<Rightarrow> (None, s)
       | Some k \<Rightarrow> (Some (as_queue s ! k), s\<lparr>as_queue := remove_at k (as_queue s)\<rparr>)))"

text \<open>\<open>Vec::insert\<close>.\<close>

definition insert_at :: "nat \<Rightarrow> 'a \<Rightarrow> 'a list \<Rightarrow> 'a list" where
  "insert_at k x xs = take k xs @ x # drop k xs"

definition move_queued :: "u64 \<Rightarrow> u64 option \<Rightarrow> 'j active_session \<Rightarrow> 'j active_session" where
  "move_queued i before s = (
     if before = Some i then s
     else (case position (\<lambda>m. qm_id m = i) (as_queue s) of
         None \<Rightarrow> s
       | Some from \<Rightarrow>
           let message = as_queue s ! from;
               rest = remove_at from (as_queue s);
               at = (case Option.bind before (\<lambda>b. position (\<lambda>m. qm_id m = b) rest) of
                   Some k \<Rightarrow> k | None \<Rightarrow> length rest)
           in s\<lparr>as_queue := insert_at at message rest\<rparr>))"

definition push_queued ::
  "'j json \<Rightarrow> string \<Rightarrow> attachment list \<Rightarrow> 'j active_session \<Rightarrow> u64 \<times> 'j active_session" where
  "push_queued J txt attachments s = (
     let i = as_next_queue_id s;
         m = \<lparr>qm_id = i, qm_delivery_key = None, qm_author = None, qm_origin = Human, qm_text = txt,
           qm_relay_transcript = None, qm_attachments = attachments, qm_not_before = None,
           qm_options = current_turn_options J s, qm_context_len = as_pending_context_len s,
           qm_context_window_changed = None, qm_kind = Queued_User\<rparr>
     in (i, s\<lparr>as_idle_since := None, as_next_queue_id := i + 1, as_pending_context_len := None,
            as_queue := as_queue s @ [m]\<rparr>))"

definition push_scheduled ::
  "'j json \<Rightarrow> string \<Rightarrow> attachment list \<Rightarrow> int \<Rightarrow> 'j active_session \<Rightarrow> u64 \<times> 'j active_session" where
  "push_scheduled J txt attachments not_before s = (case push_queued J txt attachments s of (i, s') \<Rightarrow>
     (i, s'\<lparr>as_queue := update_last (\<lambda>m. m\<lparr>qm_not_before := Some not_before\<rparr>) (as_queue s')\<rparr>))"

text \<open>The message a host-authored turn is queued as.\<close>

definition host_message ::
  "'j json \<Rightarrow> message_origin \<Rightarrow> queued_kind \<Rightarrow> string \<Rightarrow> 'j active_session \<Rightarrow> queued_message" where
  "host_message J origin kind txt s = \<lparr>qm_id = as_next_queue_id s, qm_delivery_key = None,
     qm_author = None, qm_origin = origin, qm_text = txt, qm_relay_transcript = None,
     qm_attachments = [], qm_not_before = None, qm_options = current_turn_options J s,
     qm_context_len = None, qm_context_window_changed = None, qm_kind = kind\<rparr>"

definition merges_with :: "u64 option \<Rightarrow> string \<Rightarrow> queued_message \<Rightarrow> bool" where
  "merges_with in_flight txt m = (qm_kind m = Queued_Orchestrate_Callback \<and> Some (qm_id m) \<noteq> in_flight
     \<and> is_control_callback (qm_text m) = is_control_callback txt)"

definition push_or_merge_orchestrate_callback ::
  "'j json \<Rightarrow> string \<Rightarrow> 'j active_session \<Rightarrow> u64 \<times> 'j active_session" where
  "push_or_merge_orchestrate_callback J txt s = (
     case position (merges_with (as_delivery_in_flight s) txt) (as_queue s) of
       Some k \<Rightarrow>
         let pending = as_queue s ! k
         in (qm_id pending, s\<lparr>as_idle_since := None,
              as_queue := (as_queue s)[k := pending\<lparr>qm_text := qm_text pending @ nl @ nl @ txt\<rparr>]\<rparr>)
     | None \<Rightarrow>
         (as_next_queue_id s, s\<lparr>as_idle_since := None, as_next_queue_id := as_next_queue_id s + 1,
            as_queue := as_queue s @ [host_message J Agent Queued_Orchestrate_Callback txt s]\<rparr>))"

definition push_server_message ::
  "'j json \<Rightarrow> string \<Rightarrow> queued_kind \<Rightarrow> 'j active_session \<Rightarrow> u64 \<times> 'j active_session" where
  "push_server_message J txt kind s =
     (as_next_queue_id s, s\<lparr>as_idle_since := None, as_next_queue_id := as_next_queue_id s + 1,
        as_queue := as_queue s @ [host_message J Server kind txt s]\<rparr>)"

definition stamp_context_window_change ::
  "'j json \<Rightarrow> u64 option \<Rightarrow> 'j active_session \<Rightarrow> 'j active_session" where
  "stamp_context_window_change J default_window s = (
     if \<not> is_live s then s
     else
       let window = (\<lambda>selections. opt_or (selected_window J [] selections) default_window);
           selected = window (me_option_selections (as_meta s))
       in if selected \<noteq> window (as_live_option_selections s)
          then s\<lparr>as_queue := update_last (\<lambda>m. m\<lparr>qm_context_window_changed := selected\<rparr>) (as_queue s)\<rparr>
          else s)"

subsection \<open>Delivery\<close>

definition steer_now ::
  "bool \<Rightarrow> string \<Rightarrow> string \<Rightarrow> attachment list \<Rightarrow> 'j active_session \<Rightarrow>
     (unit + unit) \<times> 'j session_command list \<times> 'j active_session" where
  "steer_now accepts request_id txt attachments s = (
     if \<not> is_live s then (Inl (), [], s)
     else
       let s' = (if is_control_callback txt then s else s\<lparr>as_turn_woken_by_control := False\<rparr>)
       in if accepts then (Inr (), [Cmd_Steer request_id txt attachments], s') else (Inl (), [], s'))"

definition dispatch_next_pending ::
  "'j json \<Rightarrow> int \<Rightarrow> bool \<Rightarrow> 'j active_session \<Rightarrow>
     (unit + bool) \<times> 'j session_command list \<times> 'j active_session" where
  "dispatch_next_pending J now accepts s = (case next_dispatchable J now s of
      None \<Rightarrow> (Inr False, [], s)
    | Some send \<Rightarrow>
        if \<not> is_live s then (Inr False, [], s)
        else if \<not> accepts then (Inl (), [], s)
        else (Inr True,
              [Cmd_Send_Turn (qm_id send) (wire_text (as_provider_commands s) send)
                 (Some (qm_options send)) (qm_attachments send)],
              s\<lparr>as_idle_since := None, as_delivery_in_flight := Some (qm_id send)\<rparr>))"

definition accept_turn_delivery ::
  "u64 \<Rightarrow> 'j active_session \<Rightarrow> queued_message option \<times> 'j active_session" where
  "accept_turn_delivery delivery_id s = (
     if as_delivery_in_flight s \<noteq> Some delivery_id then (None, s)
     else (case position (\<lambda>m. qm_id m = delivery_id) (as_queue s) of
         None \<Rightarrow> (None, s)
       | Some k \<Rightarrow>
           let message = as_queue s ! k
           in (Some message, s\<lparr>as_delivery_in_flight := None, as_turn_in_flight := True,
                as_idle_since := None, as_queue := remove_at k (as_queue s),
                as_turn_woken_by_control := (qm_kind message = Queued_Orchestrate_Callback
                  \<and> is_control_callback (qm_text message))\<rparr>)))"

end
