(* ===== verification/Message_Laws.thy ===== *)
theory Message_Laws
  imports Message_Queue "HOL-Library.Multiset"
begin

section \<open>Laws of the message queue\<close>

text \<open>
  What the host promises of the messages of a session, over the operations of \<open>Message_Queue\<close>: every
  message ever queued is committed, removed by its author or still queued, and only one of these;
  the messages that may go are delivered in the order of the queue; a message moved lands where it
  was put and the others keep their order.
\<close>

subsection \<open>Lists\<close>

lemma remove_at_split: "k < length xs \<Longrightarrow> xs = take k xs @ xs ! k # drop (Suc k) xs"
  by (rule id_take_nth_drop)

lemma map_remove_at: "map f (remove_at k xs) = remove_at k (map f xs)"
  by (simp add: remove_at_def take_map drop_map)

lemma mset_remove_at: "k < length xs \<Longrightarrow> add_mset (xs ! k) (mset (remove_at k xs)) = mset xs"
  by (metis (no_types, lifting) add_mset_add_single mset.simps(2) mset_append remove_at_def
      remove_at_split union_assoc union_mset_add_mset_right)

lemma mset_insert_at: "mset (insert_at k x xs) = add_mset x (mset xs)"
  unfolding insert_at_def
  by (metis append_take_drop_id mset.simps(2) mset_append union_mset_add_mset_right)

lemma length_remove_at [simp]: "k < length xs \<Longrightarrow> length (remove_at k xs) = length xs - 1"
  by (simp add: remove_at_def)

subsection \<open>Frames of the operations\<close>

text \<open>The settings the live provider was started with do not depend on the queue or the turn.\<close>

definition same_settings :: "'j active_session \<Rightarrow> 'j active_session \<Rightarrow> bool" where
  "same_settings s s' \<longleftrightarrow> me_provider (as_meta s') = me_provider (as_meta s)
     \<and> me_model (as_meta s') = me_model (as_meta s) \<and> me_cwd (as_meta s') = me_cwd (as_meta s)
     \<and> me_option_selections (as_meta s') = me_option_selections (as_meta s)
     \<and> as_runtime s' = as_runtime s \<and> as_live_model s' = as_live_model s \<and> as_live_cwd s' = as_live_cwd s
     \<and> as_live_option_selections s' = as_live_option_selections s
     \<and> as_provider_options s' = as_provider_options s"

lemma launch_settings_frame:
  assumes "same_settings s s'"
  shows "launch_settings_changed_while_live J s' = launch_settings_changed_while_live J s"
proof -
  have "permission_descriptor s' = permission_descriptor s"
    using assms by (simp add: permission_descriptor_def same_settings_def split: option.split)
  then have "options_changed_while_live J s' = options_changed_while_live J s"
    using assms unfolding options_changed_while_live_def is_live_def same_settings_def by presburger
  then show ?thesis
    using assms by (simp add: launch_settings_changed_while_live_def model_changed_while_live_def
        cwd_changed_while_live_def is_live_def same_settings_def)
qed

definition queue_ids :: "'j active_session \<Rightarrow> u64 list" where
  "queue_ids s = map qm_id (as_queue s)"

lemma take_queued_result:
  assumes "take_queued i s = (r, s')"
  shows "(r = None \<and> s' = s) \<or>
    (\<exists>k m. k < length (as_queue s) \<and> m = as_queue s ! k \<and> qm_id m = i \<and> r = Some m
       \<and> as_delivery_in_flight s \<noteq> Some i \<and> s' = s\<lparr>as_queue := remove_at k (as_queue s)\<rparr>)"
  using assms
  by (auto simp: take_queued_def position_Some_iff split: if_splits option.splits)

lemma accept_result:
  assumes "accept_turn_delivery i s = (r, s')"
  shows "(r = None \<and> s' = s) \<or>
    (\<exists>k m. k < length (as_queue s) \<and> m = as_queue s ! k \<and> qm_id m = i \<and> r = Some m
       \<and> as_delivery_in_flight s = Some i
       \<and> as_queue s' = remove_at k (as_queue s) \<and> as_delivery_in_flight s' = None
       \<and> as_turn_in_flight s' \<and> as_next_queue_id s' = as_next_queue_id s)"
  using assms
  by (auto simp: accept_turn_delivery_def Let_def position_Some_iff split: if_splits option.splits)

lemma dispatch_result:
  assumes "dispatch_next_pending J now accepts s = (r, sent, s')"
  shows "(sent = [] \<and> s' = s) \<or>
    (\<exists>m. m \<in> set (as_queue s) \<and> due now m \<and> r = Inr True \<and> is_live s \<and> accepts
       \<and> as_delivery_in_flight s = None \<and> \<not> as_turn_in_flight s
       \<and> sent = [Cmd_Send_Turn (qm_id m) (wire_text (as_provider_commands s) m)
            (Some (qm_options m)) (qm_attachments m)]
       \<and> s' = s\<lparr>as_idle_since := None, as_delivery_in_flight := Some (qm_id m)\<rparr>)"
proof (cases "next_dispatchable J now s")
  case None
  then show ?thesis using assms by (simp add: dispatch_next_pending_def)
next
  case (Some m)
  then have "find (due now) (as_queue s) = Some m" "\<not> as_turn_in_flight s" "is_live s"
    "as_delivery_in_flight s = None"
    by (simp_all add: next_dispatchable_def split: if_splits)
  moreover from this(1) have "m \<in> set (as_queue s) \<and> due now m"
    by (auto simp: find_Some_iff)
  ultimately show ?thesis
    using assms Some by (cases accepts) (auto simp: dispatch_next_pending_def)
qed

lemma move_queued_result:
  "mset (as_queue (move_queued i before s)) = mset (as_queue s)
   \<and> as_next_queue_id (move_queued i before s) = as_next_queue_id s
   \<and> as_delivery_in_flight (move_queued i before s) = as_delivery_in_flight s"
  by (auto simp: move_queued_def Let_def mset_insert_at mset_remove_at dest!: position_less
      split: option.splits)

text \<open>
  The three effects an operation can have on the ids of the queue: a new id at the end, the same ids
  in some order, one id removed.
\<close>

definition appends_id :: "'j active_session \<Rightarrow> 'j active_session \<Rightarrow> bool" where
  "appends_id s s' \<longleftrightarrow> queue_ids s' = queue_ids s @ [as_next_queue_id s]
     \<and> as_next_queue_id s' = as_next_queue_id s + 1
     \<and> as_delivery_in_flight s' = as_delivery_in_flight s"

definition keeps_ids :: "'j active_session \<Rightarrow> 'j active_session \<Rightarrow> bool" where
  "keeps_ids s s' \<longleftrightarrow> mset (queue_ids s') = mset (queue_ids s)
     \<and> as_next_queue_id s' = as_next_queue_id s
     \<and> as_delivery_in_flight s' \<in> {as_delivery_in_flight s, None}"

definition removes_id :: "u64 \<Rightarrow> 'j active_session \<Rightarrow> 'j active_session \<Rightarrow> bool" where
  "removes_id i s s' \<longleftrightarrow> add_mset i (mset (queue_ids s')) = mset (queue_ids s)
     \<and> as_next_queue_id s' = as_next_queue_id s
     \<and> as_delivery_in_flight s' \<in> {as_delivery_in_flight s, None}"

named_theorems queue_effect \<open>what an operation does to the ids of the queue\<close>

lemma map_update_last_same: "(\<And>x. f (g x) = f x) \<Longrightarrow> map f (update_last g xs) = map f xs"
  by (cases xs rule: rev_cases) (simp_all add: update_last_def)

lemma push_queued_appends [queue_effect]:
  "appends_id s (snd (push_queued J txt atts s))"
  by (simp add: push_queued_def appends_id_def queue_ids_def Let_def)

lemma push_scheduled_appends [queue_effect]:
  "appends_id s (snd (push_scheduled J txt atts t s))"
  using push_queued_appends [of s J "txt" atts]
  by (cases "push_queued J txt atts s")
    (simp add: push_scheduled_def appends_id_def queue_ids_def map_update_last_same)

lemma push_server_appends [queue_effect]:
  "appends_id s (snd (push_server_message J txt kind s))"
  by (simp add: push_server_message_def host_message_def appends_id_def queue_ids_def)

lemma callback_effect:
  "appends_id s (snd (push_or_merge_orchestrate_callback J txt s))
   \<or> keeps_ids s (snd (push_or_merge_orchestrate_callback J txt s))"
proof (cases "position (merges_with (as_delivery_in_flight s) txt) (as_queue s)")
  case None
  then show ?thesis
    by (simp add: push_or_merge_orchestrate_callback_def host_message_def appends_id_def queue_ids_def)
next
  case (Some k)
  then have "k < length (as_queue s)" by (rule position_less)
  then have "map qm_id ((as_queue s)[k := (as_queue s ! k)\<lparr>qm_text := t\<rparr>]) = map qm_id (as_queue s)" for t
    by (simp add: map_update list_update_same_conv)
  with Some show ?thesis
    by (simp add: push_or_merge_orchestrate_callback_def keeps_ids_def queue_ids_def Let_def)
qed

lemma stamp_keeps [queue_effect]: "keeps_ids s (stamp_context_window_change J w s)"
  by (simp add: stamp_context_window_change_def keeps_ids_def queue_ids_def map_update_last_same Let_def mset_map [symmetric] del: mset_map)

lemma move_keeps [queue_effect]: "keeps_ids s (move_queued i before s)"
  using move_queued_result [of i before s]
  by (simp add: keeps_ids_def queue_ids_def mset_map)

lemma shutdown_keeps [queue_effect]: "keeps_ids s (snd (shutdown_to_idle accepts s))"
  by (simp add: shutdown_to_idle_def keeps_ids_def queue_ids_def)

lemma dead_keeps [queue_effect]: "keeps_ids s (mark_dead s)"
  by (simp add: mark_dead_def keeps_ids_def queue_ids_def)

lemma steer_keeps [queue_effect]: "keeps_ids s (snd (snd (steer_now accepts r txt atts s)))"
  by (simp add: steer_now_def keeps_ids_def queue_ids_def Let_def)

lemma removes_id_eq:
  "removes_id i s s' \<longleftrightarrow> mset (queue_ids s) = mset (queue_ids s') + {#i#}
     \<and> as_next_queue_id s' = as_next_queue_id s
     \<and> as_delivery_in_flight s' \<in> {as_delivery_in_flight s, None}"
  by (auto simp: removes_id_def)

lemma remove_row_effect:
  assumes "k < length (as_queue s)" "as_queue s' = remove_at k (as_queue s)"
    "as_next_queue_id s' = as_next_queue_id s" "as_delivery_in_flight s' \<in> {as_delivery_in_flight s, None}"
  shows "removes_id (qm_id (as_queue s ! k)) s s'"
  using assms mset_remove_at [OF assms(1)]
  by (simp add: removes_id_def queue_ids_def mset_map flip: image_mset_add_mset)

lemma take_effect:
  assumes "take_queued i s = (r, s')"
  shows "r = None \<and> s' = s \<or> (\<exists>m. r = Some m \<and> qm_id m = i \<and> removes_id i s s'
     \<and> as_delivery_in_flight s \<noteq> Some i)"
  using take_queued_result [OF assms] remove_row_effect [of _ s s'] by fastforce

lemma accept_effect:
  assumes "accept_turn_delivery i s = (r, s')"
  shows "r = None \<and> s' = s \<or> (\<exists>m. r = Some m \<and> qm_id m = i \<and> removes_id i s s'
     \<and> as_delivery_in_flight s = Some i)"
  using accept_result [OF assms] remove_row_effect [of _ s s'] by fastforce

subsection \<open>The history of a session's messages\<close>

text \<open>
  A session with what has become of its messages: the ids submitted to a provider, committed after
  its acceptance and removed unsent. The steps are the operations with every argument; \<open>clear\<close> is the
  host emptying the queue of a blocked turn, and \<open>other\<close> any change that leaves the queue alone.
\<close>

record 'j delivery =
  dl_session :: "'j active_session"
  dl_submitted :: "u64 list"
  dl_committed :: "u64 list"
  dl_dropped :: "u64 list"

definition submitted_ids :: "'j session_command list \<Rightarrow> u64 list" where
  "submitted_ids sent = List.map_filter (\<lambda>c. case c of Cmd_Send_Turn i _ _ _ \<Rightarrow> Some i | _ \<Rightarrow> None) sent"

lemma submitted_ids_send: "submitted_ids [Cmd_Send_Turn i t opts atts] = [i]"
  by (simp add: submitted_ids_def map_filter_simps)

lemma submitted_ids_none: "submitted_ids [] = []"
  by (simp add: submitted_ids_def map_filter_simps)

definition row_id :: "queued_message option \<Rightarrow> u64 list" where
  "row_id r = map qm_id (opt_list r)"

inductive delivery_step :: "'j json \<Rightarrow> 'j delivery \<Rightarrow> 'j delivery \<Rightarrow> bool" for J where
  push: "delivery_step J d (d\<lparr>dl_session := snd (push_queued J txt atts (dl_session d))\<rparr>)"
| schedule: "delivery_step J d (d\<lparr>dl_session := snd (push_scheduled J txt atts t (dl_session d))\<rparr>)"
| server: "delivery_step J d (d\<lparr>dl_session := snd (push_server_message J txt kind (dl_session d))\<rparr>)"
| callback: "delivery_step J d
    (d\<lparr>dl_session := snd (push_or_merge_orchestrate_callback J txt (dl_session d))\<rparr>)"
| stamp: "delivery_step J d (d\<lparr>dl_session := stamp_context_window_change J w (dl_session d)\<rparr>)"
| move: "delivery_step J d (d\<lparr>dl_session := move_queued i before (dl_session d)\<rparr>)"
| steer: "delivery_step J d (d\<lparr>dl_session := snd (snd (steer_now accepts r txt atts (dl_session d)))\<rparr>)"
| shutdown: "delivery_step J d (d\<lparr>dl_session := snd (shutdown_to_idle accepts (dl_session d))\<rparr>)"
| dead: "delivery_step J d (d\<lparr>dl_session := mark_dead (dl_session d)\<rparr>)"
| take: "take_queued i (dl_session d) = (r, s') \<Longrightarrow>
    delivery_step J d (d\<lparr>dl_session := s', dl_dropped := dl_dropped d @ row_id r\<rparr>)"
| dispatch: "dispatch_next_pending J now accepts (dl_session d) = (r, sent, s') \<Longrightarrow>
    delivery_step J d (d\<lparr>dl_session := s', dl_submitted := dl_submitted d @ submitted_ids sent\<rparr>)"
| accept: "accept_turn_delivery i (dl_session d) = (r, s') \<Longrightarrow>
    delivery_step J d (d\<lparr>dl_session := s', dl_committed := dl_committed d @ row_id r\<rparr>)"
| clear: "delivery_step J d (d\<lparr>dl_session := (dl_session d)\<lparr>as_queue := []\<rparr>,
    dl_dropped := dl_dropped d @ queue_ids (dl_session d)\<rparr>)"
| other: "as_queue s' = as_queue (dl_session d) \<Longrightarrow>
    as_next_queue_id s' = as_next_queue_id (dl_session d) \<Longrightarrow>
    as_delivery_in_flight s' \<in> {as_delivery_in_flight (dl_session d), None} \<Longrightarrow>
    delivery_step J d (d\<lparr>dl_session := s'\<rparr>)"

inductive_cases delivery_stepE: "delivery_step J d d'"

inductive delivery_run :: "'j json \<Rightarrow> nat \<Rightarrow> 'j delivery \<Rightarrow> bool" for J where
  start: "delivery_run J 0 \<lparr>dl_session = new_session m draft cmds, dl_submitted = [],
    dl_committed = [], dl_dropped = []\<rparr>"
| step: "delivery_run J n d \<Longrightarrow> delivery_step J d d' \<Longrightarrow> delivery_run J (Suc n) d'"

definition accounted :: "'j delivery \<Rightarrow> u64 multiset" where
  "accounted d = mset (dl_committed d) + mset (dl_dropped d) + mset (queue_ids (dl_session d))"

lemma unat_next: "w \<noteq> - 1 \<Longrightarrow> unat (w + 1 :: u64) = Suc (unat w)"
proof -
  assume "w \<noteq> - 1"
  then have "1 + w \<noteq> 0" by (metis add_eq_0_iff)
  then show ?thesis using unatSuc [of w] by (simp add: add.commute)
qed

definition fresh_below :: "u64 \<Rightarrow> u64 multiset" where
  "fresh_below next = mset (map of_nat [0..<unat next])"

lemma fresh_below_Suc: "next \<noteq> - 1 \<Longrightarrow> fresh_below (next + 1) = add_mset next (fresh_below next)"
proof -
  assume "next \<noteq> - 1"
  then have "unat (next + 1) = Suc (unat next)" by (rule unat_next)
  then show ?thesis by (simp add: fresh_below_def)
qed

lemma count_fresh_below: "count (fresh_below next) i = (if i < next then 1 else 0)"
proof -
  have unat_back: "unat (of_nat n :: u64) = n" if "n < unat next" for n
    using that by (simp add: le_unat_uoi [of n "next"])
  have "inj_on (of_nat :: nat \<Rightarrow> u64) {0..<unat next}"
    by (rule inj_on_inverseI [where g = unat]) (simp add: unat_back)
  then have "distinct (map (of_nat :: nat \<Rightarrow> u64) [0..<unat next])"
    by (simp add: distinct_map)
  moreover have "i \<in> (of_nat :: nat \<Rightarrow> u64) ` {0..<unat next} \<longleftrightarrow> i < next"
  proof
    assume "i < next"
    then have "unat i < unat next" by (simp add: word_less_nat_alt)
    then show "i \<in> of_nat ` {0..<unat next}"
      by (intro image_eqI [of _ _ "unat i"]) auto
  next
    assume "i \<in> of_nat ` {0..<unat next}"
    then show "i < next" by (auto simp: word_less_nat_alt unat_back)
  qed
  ultimately show ?thesis
    by (simp add: fresh_below_def distinct_count_atmost_1)
qed

text \<open>Every id ever given out is accounted for, in each reachable state.\<close>

lemma accounted_step:
  assumes "delivery_step J d d'" "accounted d = fresh_below (as_next_queue_id (dl_session d))"
    "as_next_queue_id (dl_session d) \<noteq> - 1"
  shows "accounted d' = fresh_below (as_next_queue_id (dl_session d'))
    \<and> unat (as_next_queue_id (dl_session d')) \<le> Suc (unat (as_next_queue_id (dl_session d)))"
proof -
  have grow: ?thesis if "d' = d\<lparr>dl_session := s'\<rparr>" "appends_id (dl_session d) s'" for s'
    using that assms(2,3) fresh_below_Suc [OF assms(3)] unat_next [OF assms(3)]
    by (simp add: accounted_def appends_id_def)
  have keep: ?thesis if "d' = d\<lparr>dl_session := s'\<rparr>" "keeps_ids (dl_session d) s'" for s'
    using that assms(2) by (simp add: accounted_def keeps_ids_def)
  from assms(1) show ?thesis
  proof (cases rule: delivery_step.cases)
    case (callback "txt")
    then show ?thesis using callback_effect [of "dl_session d" J "txt"] grow keep by blast
  next
    case (take i r s')
    then show ?thesis using take_effect [OF take(2)] assms(2)
      by (auto simp: accounted_def row_id_def opt_list_def removes_id_eq)
  next
    case (accept i r s')
    then show ?thesis using accept_effect [OF accept(2)] assms(2)
      by (auto simp: accounted_def row_id_def opt_list_def removes_id_eq)
  next
    case (dispatch now accepts r sent s')
    then show ?thesis using dispatch_result [OF dispatch(2)] assms(2)
      by (auto simp: accounted_def queue_ids_def)
  next
    case clear
    then show ?thesis using assms(2) by (simp add: accounted_def queue_ids_def ac_simps)
  next
    case (other s')
    then show ?thesis using keep [of s'] by (simp add: keeps_ids_def queue_ids_def)
  qed ((rule grow, assumption, rule queue_effect) | (rule keep, assumption, rule queue_effect))+
qed

lemma accounted_run:
  assumes "delivery_run J n d" "n < 2 ^ 64"
  shows "accounted d = fresh_below (as_next_queue_id (dl_session d))
    \<and> unat (as_next_queue_id (dl_session d)) \<le> n"
  using assms
proof (induction rule: delivery_run.induct)
  case (start m draft cmds)
  then show ?case by (simp add: accounted_def new_session_def queue_ids_def fresh_below_def)
next
  case (step n d d')
  then have "as_next_queue_id (dl_session d) \<noteq> - 1"
    by (auto simp: unsigned_minus_1_eq_mask mask_eq_exp_minus_1)
  with accounted_step [OF step(2)] step show ?case by fastforce
qed

text \<open>
  C3: Every message ever queued in a session is committed, removed unsent or still queued: exactly one
  of the three, exactly once, after any sequence of fewer than \<open>2^64\<close> operations.
\<close>

theorem messages_are_never_lost_or_repeated:
  assumes "delivery_run J n d" "n < 2 ^ 64"
  shows "count (mset (dl_committed d)) i + count (mset (dl_dropped d)) i
      + count (mset (queue_ids (dl_session d))) i
    = (if i < as_next_queue_id (dl_session d) then 1 else 0)"
  using accounted_run [OF assms] count_fresh_below [of "as_next_queue_id (dl_session d)" i]
  by (metis accounted_def count_union)

text \<open>Nothing is committed that was not submitted.\<close>

lemma submitted_run:
  assumes "delivery_run J n d"
  shows "set (dl_committed d) \<subseteq> set (dl_submitted d)
    \<and> (\<forall>i. as_delivery_in_flight (dl_session d) = Some i \<longrightarrow> i \<in> set (dl_submitted d))"
  using assms
proof (induction rule: delivery_run.induct)
  case (start m draft cmds)
  then show ?case by (simp add: new_session_def)
next
  case (step n d d')
  have frame: ?case if "d' = d\<lparr>dl_session := s'\<rparr> \<or> d' = d\<lparr>dl_session := s', dl_dropped := x\<rparr>"
    "as_delivery_in_flight s' \<in> {as_delivery_in_flight (dl_session d), None}" for s' x
    using that step.IH by auto
  have grow: ?case if "d' = d\<lparr>dl_session := s'\<rparr>" "appends_id (dl_session d) s'" for s'
    using that by (intro frame [of s' "[]"]) (simp_all add: appends_id_def)
  have keep: ?case if "d' = d\<lparr>dl_session := s'\<rparr>" "keeps_ids (dl_session d) s'" for s'
    using that by (intro frame [of s' "[]"]) (simp_all add: keeps_ids_def)
  from step(2) show ?case
  proof (cases rule: delivery_step.cases)
    case (callback "txt")
    then show ?thesis using callback_effect [of "dl_session d" J "txt"] grow keep by blast
  next
    case (take i r s')
    then show ?thesis using take_effect [OF take(2)] frame by (auto simp: removes_id_def)
  next
    case (accept i r s')
    then show ?thesis using accept_effect [OF accept(2)] step.IH
      by (auto simp: removes_id_def row_id_def opt_list_def)
  next
    case (dispatch now accepts r sent s')
    then show ?thesis using dispatch_result [OF dispatch(2)] step.IH
      by (auto simp: submitted_ids_send submitted_ids_none)
  next
    case clear
    then show ?thesis using step.IH by simp
  next
    case (other s')
    then show ?thesis by (intro frame [of s' "[]"]) simp_all
  qed ((rule grow, assumption, rule queue_effect) | (rule keep, assumption, rule queue_effect))+
qed

subsection \<open>Delivery in order\<close>

text \<open>One message at a time: submit the next, accept it, end its turn; as often as asked.\<close>

primrec deliver_all ::
  "'j json \<Rightarrow> int \<Rightarrow> nat \<Rightarrow> 'j active_session \<Rightarrow> queued_message list \<times> 'j active_session" where
  "deliver_all J now 0 s = ([], s)"
| "deliver_all J now (Suc n) s = (case dispatch_next_pending J now True s of
     (_, [], s1) \<Rightarrow> ([], s1)
   | (_, c # _, s1) \<Rightarrow> (case c of
       Cmd_Send_Turn i _ _ _ \<Rightarrow> (case accept_turn_delivery i s1 of
           (None, s2) \<Rightarrow> ([], s2)
         | (Some m, s2) \<Rightarrow>
             (case deliver_all J now n (s2\<lparr>as_turn_in_flight := False\<rparr>) of
                (ms, s3) \<Rightarrow> (m # ms, s3)))
     | _ \<Rightarrow> ([], s1)))"

definition may_deliver :: "'j json \<Rightarrow> 'j active_session \<Rightarrow> bool" where
  "may_deliver J s \<longleftrightarrow> is_live s \<and> \<not> as_turn_in_flight s \<and> as_delivery_in_flight s = None
     \<and> \<not> launch_settings_changed_while_live J s \<and> distinct (queue_ids s)"

lemma find_split:
  "find P xs = Some x \<Longrightarrow> \<exists>ys zs. xs = ys @ x # zs \<and> P x \<and> (\<forall>y\<in>set ys. \<not> P y)"
  by (induction xs) (auto split: if_splits intro: exI [of _ "[]"], metis append_Cons set_ConsD)

lemma find_None_filter: "find P xs = None \<Longrightarrow> filter P xs = []"
  by (induction xs) (auto split: if_splits)

lemma deliver_one:
  assumes "may_deliver J s" "as_queue s = ys @ m # zs" "due now m" "\<forall>y\<in>set ys. \<not> due now y"
  obtains s2 where
    "deliver_all J now (Suc n) s = (case deliver_all J now n s2 of (ms, s3) \<Rightarrow> (m # ms, s3))"
    "may_deliver J s2" "as_queue s2 = ys @ zs"
proof -
  have "find (due now) (as_queue s) = Some m"
    using assms(3,4) unfolding assms(2) by (induction ys) auto
  then have next_m: "next_dispatchable J now s = Some m"
    using assms(1) by (simp add: next_dispatchable_def may_deliver_def settings_restart_deferred_def)
  define s1 where "s1 = s\<lparr>as_idle_since := None, as_delivery_in_flight := Some (qm_id m)\<rparr>"
  have "qm_id m \<notin> qm_id ` set ys"
    using assms(1) unfolding may_deliver_def queue_ids_def assms(2) by simp
  then have "qm_id y \<noteq> qm_id m" if "y \<in> set ys" for y
    using that by (metis image_eqI)
  then have pos: "position (\<lambda>x. qm_id x = qm_id m) (ys @ m # zs) = Some (length ys)"
    by (intro position_skip) (auto simp: list_all_iff)
  define r where "r = snd (accept_turn_delivery (qm_id m) s1)"
  define s2 where "s2 = r\<lparr>as_turn_in_flight := False\<rparr>"
  have acc: "accept_turn_delivery (qm_id m) s1 = (Some m, r)"
    using pos assms(2) by (simp add: r_def accept_turn_delivery_def s1_def Let_def nth_append)
  have "deliver_all J now (Suc n) s = (case deliver_all J now n s2 of (ms, s3) \<Rightarrow> (m # ms, s3))"
    using assms(1) acc
    by (simp add: dispatch_next_pending_def next_m may_deliver_def s1_def [symmetric] s2_def)
  moreover have queue: "as_queue s2 = ys @ zs"
    using pos assms(2)
    by (simp add: s2_def r_def accept_turn_delivery_def s1_def Let_def remove_at_def)
  moreover have "same_settings s s2"
    using pos assms(2) by (simp add: s2_def r_def accept_turn_delivery_def s1_def Let_def same_settings_def)
  then have "may_deliver J s2"
    using assms(1,2) queue pos launch_settings_frame [of s s2 J]
    by (auto simp: may_deliver_def queue_ids_def is_live_def same_settings_def s2_def r_def
        accept_turn_delivery_def s1_def Let_def)
  ultimately show thesis using that by blast
qed

lemma deliver_nothing:
  assumes "next_dispatchable J now s = None"
  shows "deliver_all J now n s = ([], s)"
  using assms by (cases n) (simp_all add: dispatch_next_pending_def)

text \<open>
  C23: On a live provider with no turn running and no setting to restart for, submitting, accepting and
  ending turns delivers exactly the queued messages whose time has come, in the order of the queue,
  and leaves the scheduled ones in theirs: no message that may go waits forever.
\<close>

theorem due_messages_are_delivered_in_order:
  assumes "may_deliver J s"
  shows "fst (deliver_all J now n s) = take n (filter (due now) (as_queue s))
    \<and> (length (filter (due now) (as_queue s)) \<le> n \<longrightarrow>
        as_queue (snd (deliver_all J now n s)) = filter (\<lambda>m. \<not> due now m) (as_queue s))"
  using assms
proof (induction n arbitrary: s)
  case 0
  then show ?case by (simp add: filter_empty_conv filter_id_conv)
next
  case (Suc n)
  show ?case
  proof (cases "find (due now) (as_queue s)")
    case None
    then have "next_dispatchable J now s = None" by (simp add: next_dispatchable_def)
    then show ?thesis using find_None_filter [OF None] deliver_nothing [of J now s "Suc n"]
      by (simp add: filter_empty_conv filter_id_conv del: deliver_all.simps)
  next
    case (Some m)
    then obtain ys zs where q: "as_queue s = ys @ m # zs" "due now m" "\<forall>y\<in>set ys. \<not> due now y"
      using find_split by metis
    obtain s2 where s2:
      "deliver_all J now (Suc n) s = (case deliver_all J now n s2 of (ms, s3) \<Rightarrow> (m # ms, s3))"
      "may_deliver J s2" "as_queue s2 = ys @ zs"
      using deliver_one [OF Suc.prems q] by metis
    have none: "filter (due now) ys = []" using q(3) by (simp add: filter_empty_conv)
    show ?thesis
      using Suc.IH [OF s2(2)] q none
      by (simp add: s2(1,3) split: prod.split del: deliver_all.simps) force
  qed
qed

subsection \<open>Moving a row\<close>

lemma distinct_others:
  "distinct (map f (ys @ x # zs)) \<Longrightarrow> \<forall>y\<in>set (ys @ zs). f y \<noteq> f x"
  by (auto simp: image_iff)

lemma remove_at_filter:
  assumes "distinct (map f xs)" "k < length xs"
  shows "remove_at k xs = filter (\<lambda>x. f x \<noteq> f (xs ! k)) xs"
proof -
  have split: "xs = take k xs @ xs ! k # drop (Suc k) xs" by (rule remove_at_split [OF assms(2)])
  have "distinct (map f (take k xs @ xs ! k # drop (Suc k) xs))"
    using assms(1) by (simp only: split [symmetric])
  then have "\<forall>x\<in>set (take k xs @ drop (Suc k) xs). f x \<noteq> f (xs ! k)" by (rule distinct_others)
  then have "filter (\<lambda>x. f x \<noteq> f (xs ! k)) (take k xs @ xs ! k # drop (Suc k) xs) = remove_at k xs"
    by (simp add: remove_at_def filter_id_conv)
  then show ?thesis by (simp only: split [symmetric])
qed

text \<open>
  A moved row lands just before the row it was dropped on, or last when it was dropped on none (or on
  one that is no longer there), and all other rows keep their order.
\<close>

theorem moved_row_lands_before:
  assumes "distinct (queue_ids s)" "i \<in> set (queue_ids s)" "before \<noteq> Some i"
  shows "\<exists>xs m ys. as_queue (move_queued i before s) = xs @ m # ys \<and> qm_id m = i
    \<and> filter (\<lambda>m. qm_id m \<noteq> i) (as_queue s) = xs @ ys
    \<and> (case before of
         Some b \<Rightarrow> if b \<in> set (queue_ids s) then \<exists>z zs. ys = z # zs \<and> qm_id z = b else ys = []
       | None \<Rightarrow> ys = [])"
proof -
  obtain k where k: "position (\<lambda>m. qm_id m = i) (as_queue s) = Some k"
    using assms(2) position_None_iff [of "\<lambda>m. qm_id m = i" "as_queue s"]
    by (cases "position (\<lambda>m. qm_id m = i) (as_queue s)") (auto simp: queue_ids_def)
  then have bounds: "k < length (as_queue s)" "qm_id (as_queue s ! k) = i"
    by (auto simp: position_Some_iff)
  define rest where "rest = remove_at k (as_queue s)"
  have rest: "rest = filter (\<lambda>m. qm_id m \<noteq> i) (as_queue s)"
    using remove_at_filter [of qm_id "as_queue s" k] assms(1) bounds by (simp add: rest_def queue_ids_def)
  define at where "at = (case Option.bind before (\<lambda>b. position (\<lambda>m. qm_id m = b) rest) of
    Some j \<Rightarrow> j | None \<Rightarrow> length rest)"
  have moved: "as_queue (move_queued i before s) = take at rest @ (as_queue s ! k) # drop at rest"
    using k assms(3) by (simp add: move_queued_def rest_def [symmetric] at_def [symmetric] insert_at_def)
  have "case before of
         Some b \<Rightarrow> if b \<in> set (queue_ids s) then \<exists>z zs. drop at rest = z # zs \<and> qm_id z = b
           else drop at rest = []
       | None \<Rightarrow> drop at rest = []"
  proof (cases before)
    case None
    then show ?thesis by (simp add: at_def)
  next
    case (Some b)
    show ?thesis
    proof (cases "position (\<lambda>m. qm_id m = b) rest")
      case None
      then have "b \<notin> set (queue_ids s)"
        using Some assms(3) unfolding position_None_iff rest queue_ids_def by auto
      with Some None show ?thesis by (simp add: at_def)
    next
      case (Some j)
      then have j: "j < length rest" "qm_id (rest ! j) = b" by (auto simp: position_Some_iff)
      then have "b \<in> set (queue_ids s)"
        using nth_mem [OF j(1)] unfolding rest queue_ids_def by auto
      with j Some \<open>before = Some b\<close> show ?thesis
        by (simp add: at_def Cons_nth_drop_Suc [symmetric])
    qed
  qed
  with moved bounds show ?thesis
    by (intro exI [of _ "take at rest"] exI [of _ "as_queue s ! k"] exI [of _ "drop at rest"])
      (simp add: rest [symmetric])
qed

subsection \<open>Callbacks and steering\<close>

lemma control_callback_append:
  "is_control_callback (t @ nl @ nl @ txt) = is_control_callback t"
proof -
  have "starts_with (t @ [CHR 0x0A] @ r) CONTROL_CALLBACK_PREFIX = starts_with t CONTROL_CALLBACK_PREFIX" for r
  proof (cases "length CONTROL_CALLBACK_PREFIX \<le> length t")
    case True
    then show ?thesis by (simp add: starts_with_def)
  next
    case False
    have "CHR 0x0A \<notin> set CONTROL_CALLBACK_PREFIX" by (simp add: CONTROL_CALLBACK_PREFIX_def)
    moreover have "CHR 0x0A \<in> set (take (length CONTROL_CALLBACK_PREFIX) (t @ [CHR 0x0A] @ r))"
      using False by (simp add: take_Cons')
    ultimately have "\<not> starts_with (t @ [CHR 0x0A] @ r) CONTROL_CALLBACK_PREFIX"
      unfolding starts_with_def by metis
    moreover have "\<not> starts_with t CONTROL_CALLBACK_PREFIX"
      using False unfolding starts_with_def by (metis length_take linorder_le_cases min.absorb_iff2)
    ultimately show ?thesis by simp
  qed
  then show ?thesis by (simp add: is_control_callback_def)
qed

text \<open>
  A callback that is pushed waits in one row of the queue, alone or as the end of the row it was merged
  into, which is not the row being delivered and which reads as the same kind of notice.
\<close>

theorem callback_waits_in_one_row:
  assumes "push_or_merge_orchestrate_callback J txt s = (i, s')" "distinct (queue_ids s)"
    "\<forall>j\<in>set (queue_ids s). j < as_next_queue_id s"
    "case as_delivery_in_flight s of Some j \<Rightarrow> j < as_next_queue_id s | None \<Rightarrow> True"
  shows "\<exists>m. filter (\<lambda>m. qm_id m = i) (as_queue s') = [m] \<and> qm_kind m = Queued_Orchestrate_Callback
    \<and> as_delivery_in_flight s' \<noteq> Some i \<and> is_control_callback (qm_text m) = is_control_callback txt
    \<and> ends_with (qm_text m) txt
    \<and> filter (\<lambda>m. qm_id m \<noteq> i) (as_queue s') = filter (\<lambda>m. qm_id m \<noteq> i) (as_queue s)"
proof (cases "position (merges_with (as_delivery_in_flight s) txt) (as_queue s)")
  case None
  define m where "m = host_message J Agent Queued_Orchestrate_Callback txt s"
  have s': "i = as_next_queue_id s" "as_queue s' = as_queue s @ [m]"
    "as_delivery_in_flight s' = as_delivery_in_flight s"
    using assms(1) None by (auto simp: push_or_merge_orchestrate_callback_def m_def)
  have "filter (\<lambda>m. qm_id m = i) (as_queue s) = []" "filter (\<lambda>m. qm_id m \<noteq> i) (as_queue s) = as_queue s"
    using assms(3) s'(1) by (auto simp: queue_ids_def filter_empty_conv filter_id_conv)
  moreover have "as_delivery_in_flight s \<noteq> Some i"
    using assms(4) s'(1) by auto
  ultimately show ?thesis
    using s' by (simp add: m_def host_message_def ends_with_def starts_with_def)
next
  case (Some k)
  define p where "p = as_queue s ! k"
  define m where "m = p\<lparr>qm_text := qm_text p @ nl @ nl @ txt\<rparr>"
  have k: "k < length (as_queue s)" "merges_with (as_delivery_in_flight s) txt p"
    using Some by (auto simp: position_Some_iff p_def)
  have s': "i = qm_id p" "as_queue s' = (as_queue s)[k := m]"
    "as_delivery_in_flight s' = as_delivery_in_flight s"
    using assms(1) Some by (auto simp: push_or_merge_orchestrate_callback_def m_def p_def Let_def)
  have split: "as_queue s = take k (as_queue s) @ p # drop (Suc k) (as_queue s)"
    unfolding p_def by (rule remove_at_split [OF k(1)])
  have split': "as_queue s' = take k (as_queue s) @ m # drop (Suc k) (as_queue s)"
    using k(1) s'(2) by (simp add: upd_conv_take_nth_drop)
  have "distinct (map qm_id (take k (as_queue s) @ p # drop (Suc k) (as_queue s)))"
    using assms(2) unfolding queue_ids_def by (simp only: split [symmetric])
  then have "\<forall>x\<in>set (take k (as_queue s) @ drop (Suc k) (as_queue s)). qm_id x \<noteq> i"
    unfolding s'(1) by (rule distinct_others)
  then have others: "filter (\<lambda>m. qm_id m = i) (take k (as_queue s)) = []"
    "filter (\<lambda>m. qm_id m = i) (drop (Suc k) (as_queue s)) = []"
    by (simp_all add: filter_empty_conv)
  have "qm_id m = i" by (simp add: m_def s'(1))
  then have "filter (\<lambda>m. qm_id m = i) (as_queue s') = [m]"
    "filter (\<lambda>m. qm_id m \<noteq> i) (as_queue s')
     = filter (\<lambda>m. qm_id m \<noteq> i) (take k (as_queue s) @ p # drop (Suc k) (as_queue s))"
    unfolding split' using others by (simp_all add: s'(1))
  moreover have "qm_kind m = Queued_Orchestrate_Callback" "as_delivery_in_flight s' \<noteq> Some i"
    "is_control_callback (qm_text m) = is_control_callback txt" "ends_with (qm_text m) txt"
    using k(2) s' control_callback_append [of "qm_text p" "txt"]
    by (auto simp: merges_with_def m_def ends_with_def starts_with_def)
  ultimately show ?thesis unfolding split [symmetric] by blast
qed

subsection \<open>A concrete session\<close>

definition demo_json :: "unit json" where
  "demo_json = \<lparr>as_str = (\<lambda>_. None), as_u64 = (\<lambda>_. None), json_get = (\<lambda>_ _. None),
     json_text = (\<lambda>_. ''{}''), json_string = (\<lambda>_. ()), json_bool = (\<lambda>_. ()), json_object = (\<lambda>_. ())\<rparr>"

definition demo_row :: "u64 \<Rightarrow> string \<Rightarrow> int option \<Rightarrow> queued_message" where
  "demo_row i t not_before = \<lparr>qm_id = i, qm_delivery_key = None, qm_author = None, qm_origin = Human,
     qm_text = t, qm_relay_transcript = None, qm_attachments = [], qm_not_before = not_before,
     qm_options = \<lparr>to_effort = None\<rparr>, qm_context_len = None, qm_context_window_changed = None,
     qm_kind = Queued_User\<rparr>"

definition demo_live :: "unit active_session" where
  "demo_live = (new_session (demo_meta ''a'' [] None) False [])\<lparr>as_runtime := Run_Live,
     as_queue := [demo_row 0 ''one'' None, demo_row 1 ''later'' (Some 10), demo_row 2 ''two'' None],
     as_next_queue_id := 3\<rparr>"

lemma demo_live_may_deliver: "may_deliver demo_json demo_live"
  by (simp add: may_deliver_def demo_live_def new_session_def is_live_def demo_meta_def queue_ids_def
      demo_row_def launch_settings_changed_while_live_def model_changed_while_live_def
      cwd_changed_while_live_def options_changed_while_live_def permission_descriptor_def
      permission_control_def opt_or_def Let_def normalized_selections_def)

lemma due_messages_are_delivered_in_order_witness:
  "map qm_text (fst (deliver_all demo_json 5 3 demo_live)) = [''one'', ''two'']
   \<and> map qm_text (as_queue (snd (deliver_all demo_json 5 3 demo_live))) = [''later'']"
  using due_messages_are_delivered_in_order [OF demo_live_may_deliver, of 5 3]
  by (simp add: demo_live_def demo_row_def due_def)

lemma moved_row_lands_before_witness:
  "map qm_id (as_queue (move_queued 2 (Some 0) demo_live)) = [2, 0, 1]"
proof -
  have "distinct (queue_ids demo_live)" "2 \<in> set (queue_ids demo_live)"
    by (simp_all add: demo_live_def queue_ids_def demo_row_def)
  from moved_row_lands_before [OF this, of "Some 0"] obtain xs m ys z zs where
    "as_queue (move_queued 2 (Some 0) demo_live) = xs @ m # ys" "qm_id m = 2"
    "filter (\<lambda>m. qm_id m \<noteq> 2) (as_queue demo_live) = xs @ ys" "ys = z # zs" "qm_id z = 0"
    by (auto simp: demo_live_def queue_ids_def demo_row_def)
  then show ?thesis
    by (cases xs; cases "tl xs") (auto simp: demo_live_def demo_row_def)
qed

lemma callback_waits_in_one_row_witness:
  "length (filter (\<lambda>m. qm_id m = 3)
     (as_queue (snd (push_or_merge_orchestrate_callback demo_json ''[control] x'' demo_live)))) = 1"
proof -
  define s' where "s' = snd (push_or_merge_orchestrate_callback demo_json ''[control] x'' demo_live)"
  have fresh: "push_or_merge_orchestrate_callback demo_json ''[control] x'' demo_live = (3, s')"
    by (simp add: s'_def push_or_merge_orchestrate_callback_def demo_live_def demo_row_def merges_with_def)
  from callback_waits_in_one_row [OF fresh] have "\<exists>m. filter (\<lambda>m. qm_id m = 3) (as_queue s') = [m]"
    by (auto simp: demo_live_def new_session_def queue_ids_def demo_row_def)
  then show ?thesis unfolding s'_def by (metis One_nat_def length_Cons list.size(3))
qed

lemma demo_live_run: "delivery_run demo_json (Suc 0) \<lparr>dl_session = snd (push_queued demo_json ''hi'' []
    (new_session (demo_meta ''a'' [] None) False [])), dl_submitted = [], dl_committed = [], dl_dropped = []\<rparr>"
  using delivery_run.step [OF delivery_run.start [of demo_json "demo_meta ''a'' [] None" False "[]"]
      delivery_step.push [of demo_json _ "''hi''" "[]"]]
  by simp

lemma messages_are_never_lost_or_repeated_witness:
  "queue_ids (snd (push_queued demo_json ''hi'' [] (new_session (demo_meta ''a'' [] None) False []))) = [0]"
  using messages_are_never_lost_or_repeated [OF demo_live_run, of 0]
  by (simp add: push_queued_def new_session_def queue_ids_def Let_def)

end
