(* ===== verification/Session_Runtime.thy ===== *)
theory Session_Runtime
  imports Message_Laws
begin

section \<open>The handlers around a session\<close>

text \<open>
  What the host does with one open session when its provider reports something, when a message is
  sent, and when a provider starts or stops: \<^verbatim>\<open>runtime/src/app/events.rs\<close>, \<^verbatim>\<open>send.rs\<close>, \<^verbatim>\<open>lifecycle.rs\<close>
  and the callback path of \<^verbatim>\<open>orchestrate.rs\<close>, as far as they change that session, its log or what is
  sent to its provider. A handler runs to its end before the next event is handled, so it is a
  function of the state; \<^const>\<open>None\<close> is a panic (of the fold, or of the generation counter).

  \<open>hosted\<close> is the session with what leaves it: the commands sent, the events appended to its log and
  folded into its timeline, the pull request wakes acknowledged and the watch events fired. The
  surroundings are the record \<open>surroundings\<close>: the clocks, whether the channel to the provider takes a
  command, the formatters, and the context window of the model's catalog. Left out: the index and
  store writes, notices to the user, titles, git, and the effects of an event on other threads.
\<close>

record 'j surroundings =
  en_json :: "'j json"
  en_show_path :: "path \<Rightarrow> string"
  en_debug :: "string \<Rightarrow> string"
  en_now :: int
  en_instant :: int
  en_now_secs :: u64
  en_now_millis :: u64
  en_accepts :: bool
  en_default_window :: "u64 option"

record sender =
  sn_delivery_key :: "string option"
  sn_author :: "author option"
  sn_origin :: "message_origin option"

definition no_sender :: sender where
  "no_sender = \<lparr>sn_delivery_key = None, sn_author = None, sn_origin = None\<rparr>"

record 'j hosted =
  hd_session :: "'j active_session"
  hd_parked :: bool
  hd_rewind :: "(string \<times> rewind_mode) option"
  hd_generation :: u64
  hd_sent :: "'j session_command list"
  hd_recorded :: "(author option \<times> message_origin option \<times> 'j agent_event) list"
  hd_acknowledged :: "(pull_request_key \<times> string \<times> string) list"
  hd_fired :: "watch_event list"

definition on_session :: "('j active_session \<Rightarrow> 'j active_session) \<Rightarrow> 'j hosted \<Rightarrow> 'j hosted" where
  "on_session f h = h\<lparr>hd_session := f (hd_session h)\<rparr>"

definition on_meta :: "('j session_meta \<Rightarrow> 'j session_meta) \<Rightarrow> 'j hosted \<Rightarrow> 'j hosted" where
  "on_meta f = on_session (\<lambda>s. s\<lparr>as_meta := f (as_meta s)\<rparr>)"

definition send_out :: "'j session_command list \<times> 'j active_session \<Rightarrow> 'j hosted \<Rightarrow> 'j hosted" where
  "send_out r h = h\<lparr>hd_session := snd r, hd_sent := hd_sent h @ fst r\<rparr>"

subsection \<open>Recording an event\<close>

text \<open>Only a user message and a steer carry their sender into the log.\<close>

fun names_sender :: "'j agent_event \<Rightarrow> bool" where
  "names_sender (ItemCompleted item) = is_user_message (ti_content item)"
| "names_sender (SteerRequested _ _ _) = True"
| "names_sender _ = False"

definition record_event ::
  "'j surroundings \<Rightarrow> sender \<Rightarrow> 'j agent_event \<Rightarrow> 'j hosted \<Rightarrow> 'j hosted option" where
  "record_event E sender event h = map_option (\<lambda>tml.
     (on_session (\<lambda>s. s\<lparr>as_timeline := tml\<rparr>) h)\<lparr>hd_recorded := hd_recorded h @
        [(if names_sender event then sn_author sender else None,
          if names_sender event then sn_origin sender else None, event)]\<rparr>)
     (apply_at (Some (en_now_millis E)) event (as_timeline (hd_session h)))"

subsection \<open>Starting a provider\<close>

definition ensure_session_started :: "'j hosted \<Rightarrow> 'j hosted option" where
  "ensure_session_started h = (
     if as_runtime (hd_session h) \<noteq> Run_Idle then Some h
     else if hd_generation h = - 1 then None
     else
       let generation = hd_generation h + 1;
           started = (\<lambda>s. s\<lparr>as_runtime := Run_Starting generation, as_mcp_servers_attached := True,
             as_idle_since := None, as_live_model := me_model (as_meta s),
             as_live_cwd := me_cwd (as_meta s),
             as_live_option_selections := me_option_selections (as_meta s),
             as_confirmed_option_selections := []\<rparr>);
           forget = (\<lambda>m. if me_moved_from m \<noteq> None
             then m\<lparr>me_resume_cursor := None, me_pending_fork := False\<rparr> else m)
       in Some (on_session started (on_meta forget (h\<lparr>hd_generation := generation\<rparr>))))"

text \<open>The permission the provider was not started with, when it can be set live.\<close>

fun descriptor_apply :: "option_descriptor \<Rightarrow> apply_timing" where
  "descriptor_apply (SelectOption _ _ _ _ _ apply _ _) = apply"
| "descriptor_apply (BooleanOption _ _ _ _ apply _ _) = apply"

definition pending_permission :: "'j active_session \<Rightarrow> 'j session_command list" where
  "pending_permission s = (case permission_descriptor s of
      None \<Rightarrow> []
    | Some descriptor \<Rightarrow>
        let named = find (\<lambda>selection. os_id selection = descriptor_id descriptor)
        in (case named (me_option_selections (as_meta s)) of
              Some selection \<Rightarrow>
                if descriptor_apply descriptor \<noteq> Restart
                   \<and> Some selection \<noteq> named (as_live_option_selections s)
                then [Cmd_Set_Option (os_id selection) (os_value selection)] else []
            | None \<Rightarrow> []))"

definition provider_started :: "'j surroundings \<Rightarrow> 'j hosted \<Rightarrow> 'j hosted" where
  "provider_started E h = (
     let s = (hd_session h)\<lparr>as_runtime := Run_Live\<rparr>
     in send_out (if en_accepts E then pending_permission s else [], s) h)"

definition provider_start_failed ::
  "'j surroundings \<Rightarrow> string \<Rightarrow> 'j hosted \<Rightarrow> 'j hosted option" where
  "provider_start_failed E message h = map_option
     (\<lambda>h. if me_parent_session_id (as_meta (hd_session h)) \<noteq> None
        then on_session (\<lambda>s. s\<lparr>as_queue := []\<rparr>) h else h)
     (record_event E no_sender (ProviderStartFailed message)
       ((on_session (\<lambda>s. s\<lparr>as_runtime := Run_Idle, as_delivery_in_flight := None,
           as_turn_in_flight := False, as_background_task_count := 0\<rparr>) h)\<lparr>hd_rewind := None\<rparr>))"

subsection \<open>Going idle\<close>

definition mark_resident_idle :: "'j surroundings \<Rightarrow> 'j hosted \<Rightarrow> 'j hosted" where
  "mark_resident_idle E h = (
     let s = hd_session h
     in if hd_rewind h = None \<and> fully_idle s
        then h\<lparr>hd_session := s\<lparr>as_idle_since := Some (case as_idle_since s of
            Some t \<Rightarrow> if is_live s then t else en_instant E | None \<Rightarrow> en_instant E)\<rparr>\<rparr>
        else h)"

subsection \<open>The end of a turn\<close>

definition shut_down :: "'j surroundings \<Rightarrow> 'j hosted \<Rightarrow> 'j hosted" where
  "shut_down E h = send_out (shutdown_to_idle (en_accepts E) (hd_session h)) h"

text \<open>
  Before the next message may go, for a session that is viewed and for a parked one: whether to
  dispatch, whether to mark the session idle after that, and the state.
\<close>

definition viewed_turn_ended ::
  "'j surroundings \<Rightarrow> 'j hosted \<Rightarrow> (bool \<times> bool \<times> 'j hosted) option" where
  "viewed_turn_ended E h0 = (
     let h = on_session (\<lambda>s. s\<lparr>as_turn_in_flight := False\<rparr>) h0;
         s = hd_session h;
         restart = (as_queue s \<noteq> [] \<and> launch_settings_changed_while_live (en_json E) s);
         restart_deferred = (restart \<and> as_background_task_count s > 0);
         moved = (cwd_changed_while_live s \<and> as_background_task_count s = 0);
         h' = (if restart_deferred then h else if restart \<or> moved then shut_down E h else h)
     in if \<not> restart then Some (True, True, h')
        else if restart_deferred then Some (False, False, h')
        else map_option (\<lambda>h. (False, False, h)) (ensure_session_started h'))"

definition parked_turn_ended ::
  "'j surroundings \<Rightarrow> 'j hosted \<Rightarrow> (bool \<times> bool \<times> 'j hosted) option" where
  "parked_turn_ended E h0 = (
     let h = on_session (\<lambda>s. s\<lparr>as_turn_in_flight := False\<rparr>) h0;
         s = hd_session h
     in if as_queue s \<noteq> [] \<and> launch_settings_changed_while_live (en_json E) s
        then (if as_background_task_count s > 0 then Some (False, False, h)
              else map_option (\<lambda>h. (False, False, h)) (ensure_session_started (shut_down E h)))
        else if as_queue s = []
        then (let h' = (if cwd_changed_while_live s \<and> as_background_task_count s = 0
                        then shut_down E h else h)
              in Some (False, as_background_task_count (hd_session h') = 0, h'))
        else Some (True, False, h))"

text \<open>\<open>on_event\<close> for \<open>TurnCompleted\<close>, up to the dispatch of the next message.\<close>

definition retry_pending :: "'j hosted \<Rightarrow> bool" where
  "retry_pending h = (case tl_turn_retry (as_timeline (hd_session h)) of
      Some retry \<Rightarrow> tr_retry_at retry \<noteq> None | None \<Rightarrow> False)"

definition touched :: "'j surroundings \<Rightarrow> 'j hosted \<Rightarrow> 'j hosted" where
  "touched E = on_meta (\<lambda>m. m\<lparr>me_updated_at := en_now_secs E\<rparr>)"

definition turn_completed_before ::
  "'j surroundings \<Rightarrow> string \<Rightarrow> turn_status \<Rightarrow> token_usage option \<Rightarrow> 'j hosted \<Rightarrow>
     (bool \<times> bool \<times> bool \<times> 'j hosted) option" where
  "turn_completed_before E turn_id status usage h = do {
     h \<leftarrow> record_event E no_sender (TurnCompleted turn_id status usage) (touched E h);
     (if retry_pending h then Some (True, False, False, h)
      else do {
        let h = on_session (\<lambda>s. s\<lparr>as_interrupt_requested := False\<rparr>) h;
        (dispatch, idle, h) \<leftarrow> (if hd_parked h then parked_turn_ended E h else viewed_turn_ended E h);
        Some (False, dispatch, idle, h) }) }"

definition turn_completed_after :: "'j hosted \<Rightarrow> 'j hosted" where
  "turn_completed_after h = (
     let woken = as_turn_woken_by_control (hd_session h);
         h = on_session (\<lambda>s. s\<lparr>as_turn_woken_by_control := False\<rparr>) h
     in if woken then h else h\<lparr>hd_fired := hd_fired h @ [Watch_Turn_Completed, Watch_Idle]\<rparr>)"
subsection \<open>Handing a conversation over\<close>

text \<open>\<open>record_relay\<close> up to the turn it closes: the transcript, the event to record, and the state.\<close>

definition begin_relay ::
  "'j surroundings \<Rightarrow> pending_relay \<Rightarrow> string \<Rightarrow> 'j hosted \<Rightarrow> string \<times> 'j agent_event \<times> 'j hosted" where
  "begin_relay E from txt h = (
     let m = as_meta (hd_session h);
         moved_from = me_moved_from m;
         dir = (case moved_from of Some d \<Rightarrow> d | None \<Rightarrow> me_cwd m);
         rendered = render_relay_transcript (en_json E) (en_show_path E) (en_debug E)
           (as_timeline (hd_session h)) dir (pr_from_provider from) (pr_from_model from)
           RELAY_TRANSCRIPT_MAX_CHARS;
         transcript = (case moved_from of
             Some from_dir \<Rightarrow> rendered @ ''The thread has since moved from `'' @ en_show_path E from_dir
               @ ''` to `'' @ en_show_path E (me_cwd m) @ ''`, the directory you now run in.'' @ nl
           | None \<Rightarrow> rendered)
     in (transcript,
         ProviderRelay (pr_from_provider from) (pr_from_model from) (me_provider m) (me_model m)
           (Some (assemble_relay_prompt transcript txt)) (map_option (en_show_path E) moved_from),
         on_meta (\<lambda>m. m\<lparr>me_moved_from := None, me_updated_at := en_now_secs E\<rparr>) h))"

text \<open>The turn that \<open>close_abandoned_turn\<close> completes: the last one, when nothing ended it.\<close>

definition abandoned_turn :: "'j timeline \<Rightarrow> string option" where
  "abandoned_turn tml = (if tl_turns tml = [] then None
     else let turn = last (tl_turns tml)
          in if tm_status turn = None \<and> tm_end_ts turn = None
             then Some (case tm_provider_turn_id turn of Some i \<Rightarrow> i | None \<Rightarrow> []) else None)"

definition same_backend :: "'j active_session \<Rightarrow> pending_relay" where
  "same_backend s = \<lparr>pr_from_provider = me_provider (as_meta s), pr_from_model = me_model (as_meta s),
     pr_from_profile = me_profile_id (as_meta s)\<rparr>"

definition set_relay_transcript :: "u64 \<Rightarrow> string \<Rightarrow> 'j active_session \<Rightarrow> 'j active_session" where
  "set_relay_transcript i transcript s = (case position (\<lambda>m. qm_id m = i) (as_queue s) of
      None \<Rightarrow> s
    | Some k \<Rightarrow> s\<lparr>as_queue := (as_queue s)[k := (as_queue s ! k)\<lparr>qm_relay_transcript := Some transcript\<rparr>]\<rparr>)"

definition send_next :: "'j surroundings \<Rightarrow> 'j hosted \<Rightarrow> (unit + bool) \<times> 'j hosted" where
  "send_next E h = (case dispatch_next_pending (en_json E) (en_now E) (en_accepts E) (hd_session h) of
     (r, sent, s) \<Rightarrow> (r, send_out (sent, s) h))"

lemma record_event_session:
  "record_event E sender event h = Some h' \<Longrightarrow>
     \<exists>tml. hd_session h' = (hd_session h)\<lparr>as_timeline := tml\<rparr>"
  by (auto simp: record_event_def on_session_def)

lemma shut_down_meta [simp]: "as_meta (hd_session (shut_down E h)) = as_meta (hd_session h)"
  by (simp add: shut_down_def send_out_def shutdown_to_idle_def)

lemma start_moved_from:
  "ensure_session_started h = Some h' \<Longrightarrow>
     me_moved_from (as_meta (hd_session h')) = me_moved_from (as_meta (hd_session h))"
  by (auto simp: ensure_session_started_def on_session_def on_meta_def Let_def split: if_splits)

lemma turn_ended_moved_from:
  "viewed_turn_ended E h = Some (d, i, h') \<Longrightarrow>
     me_moved_from (as_meta (hd_session h')) = me_moved_from (as_meta (hd_session h))"
  "parked_turn_ended E h = Some (d, i, h') \<Longrightarrow>
     me_moved_from (as_meta (hd_session h')) = me_moved_from (as_meta (hd_session h))"
  by (auto simp: viewed_turn_ended_def parked_turn_ended_def on_session_def Let_def
      dest!: start_moved_from split: if_splits)

lemma turn_completed_moved_from:
  assumes "turn_completed_before E turn_id status usage h = Some (p, d, i, h')"
  shows "me_moved_from (as_meta (hd_session h')) = me_moved_from (as_meta (hd_session h))"
proof -
  obtain h1 where h1: "record_event E no_sender (TurnCompleted turn_id status usage) (touched E h) = Some h1"
    using assms by (auto simp: turn_completed_before_def split: bind_splits)
  then have m1: "me_moved_from (as_meta (hd_session h1)) = me_moved_from (as_meta (hd_session h))"
    by (auto simp: touched_def on_meta_def on_session_def dest!: record_event_session)
  show ?thesis
    using assms h1 m1
    by (auto simp: turn_completed_before_def on_session_def Let_def dest!: turn_ended_moved_from
        split: if_splits bind_splits)
qed

declare Option.bind_cong [fundef_cong]

text \<open>
  \<open>dispatch_next_queued\<close> with \<open>hand_off_moved_conversation\<close>. Closing an abandoned turn completes it
  through \<open>on_event\<close>, which dispatches in turn; the directory the thread left has been taken by then,
  so the inner call hands nothing over.
\<close>

function dispatch_next_queued ::
  "'j surroundings \<Rightarrow> 'j hosted \<Rightarrow> ((unit + bool) \<times> 'j hosted) option" where
  "dispatch_next_queued E h = (
     if as_turn_in_flight (hd_session h) \<or> \<not> is_live (hd_session h) then Some (Inr False, h)
     else Option.bind
       (case moved_handoff_message (en_json E) (en_now E) (hd_session h) of
          None \<Rightarrow> Some h
        | Some (message_id, txt) \<Rightarrow>
            if \<not> has_meaningful_history (as_timeline (hd_session h))
            then Some (on_meta (\<lambda>m. m\<lparr>me_moved_from := None\<rparr>) h)
            else (case begin_relay E (same_backend (hd_session h)) txt h of
              (transcript, relay, h1) \<Rightarrow> Option.bind
                (case abandoned_turn (as_timeline (hd_session h1)) of
                   None \<Rightarrow> Some h1
                 | Some turn_id \<Rightarrow> Option.bind
                     (turn_completed_before E turn_id TurnStatusInterrupted None h1)
                     (\<lambda>(retry, dispatch, idle, h2).
                        if retry then Some h2
                        else Option.bind
                          (if dispatch then map_option snd (dispatch_next_queued E h2) else Some h2)
                          (\<lambda>h3. Some (turn_completed_after
                             (if idle then mark_resident_idle E h3 else h3)))))
                (\<lambda>h4. Option.bind (record_event E no_sender relay h4)
                  (\<lambda>h5. Some (on_session (set_relay_transcript message_id transcript) h5)))))
       (\<lambda>h6. Some (send_next E h6)))"
  by pat_completeness auto
termination
proof (relation "measure (\<lambda>(E, h). if me_moved_from (as_meta (hd_session h)) = None then 0 else 1 :: nat)")
  show "wf (measure (\<lambda>(E, h). if me_moved_from (as_meta (hd_session h)) = None then 0 else 1 :: nat))"
    by simp
qed (auto simp: moved_handoff_message_def begin_relay_def Let_def on_meta_def on_session_def
    dest!: turn_completed_moved_from split: if_splits)

declare dispatch_next_queued.simps [simp del]
subsection \<open>What a provider reports\<close>

definition on_turn_completed ::
  "'j surroundings \<Rightarrow> string \<Rightarrow> turn_status \<Rightarrow> token_usage option \<Rightarrow> 'j hosted \<Rightarrow> 'j hosted option" where
  "on_turn_completed E turn_id status usage h = do {
     (retry, dispatch, idle, h) \<leftarrow> turn_completed_before E turn_id status usage h;
     (if retry then Some h
      else do {
        h \<leftarrow> (if dispatch then map_option snd (dispatch_next_queued E h) else Some h);
        Some (turn_completed_after (if idle then mark_resident_idle E h else h)) }) }"

definition on_turn_started :: "'j surroundings \<Rightarrow> string \<Rightarrow> 'j hosted \<Rightarrow> 'j hosted option" where
  "on_turn_started E turn_id h = record_event E no_sender (TurnStarted turn_id)
     (on_session (\<lambda>s. s\<lparr>as_turn_in_flight := True, as_idle_since := None\<rparr>) h)"

definition retry_given_up :: "'j active_session \<Rightarrow> 'j active_session" where
  "retry_given_up s = s\<lparr>as_turn_in_flight := False, as_interrupt_requested := False\<rparr>"

definition on_turn_retry :: "'j surroundings \<Rightarrow> turn_retry option \<Rightarrow> 'j hosted \<Rightarrow> 'j hosted option" where
  "on_turn_retry E retry h = (case retry of
      Some _ \<Rightarrow> record_event E no_sender (TurnRetry retry) h
    | None \<Rightarrow> do {
        h \<leftarrow> record_event E no_sender (TurnRetry None) (on_session retry_given_up h);
        map_option snd (dispatch_next_queued E h) })"

definition on_background_tasks :: "'j surroundings \<Rightarrow> nat \<Rightarrow> 'j hosted \<Rightarrow> 'j hosted" where
  "on_background_tasks E running h0 = (
     let h = on_session (\<lambda>s. s\<lparr>as_background_task_count := running,
           as_idle_since := (if running > 0 then None else as_idle_since s)\<rparr>) h0;
         s = hd_session h
     in if running = 0 \<and> \<not> as_turn_in_flight s \<and> as_delivery_in_flight s = None \<and> as_queue s = []
        then mark_resident_idle E h else h)"

text \<open>For a parked session, also whether it is evicted: only with nothing queued.\<close>

definition on_session_closed ::
  "'j surroundings \<Rightarrow> string option \<Rightarrow> 'j hosted \<Rightarrow> (bool \<times> 'j hosted) option" where
  "on_session_closed E reason h = do {
     h \<leftarrow> record_event E no_sender (SessionClosed reason) (h\<lparr>hd_rewind := None\<rparr>);
     let h = on_session mark_dead h;
     Some (hd_parked h \<and> as_queue (hd_session h) = [], h) }"

definition local_user_id :: "string \<Rightarrow> string option \<Rightarrow> string" where
  "local_user_id uuid delivery_key =
     ''local-user-'' @ (case delivery_key of Some key \<Rightarrow> key | None \<Rightarrow> uuid)"

definition user_item :: "string \<Rightarrow> queued_message \<Rightarrow> 'j thread_item" where
  "user_item uuid m = \<lparr>ti_id = local_user_id uuid (qm_delivery_key m), ti_parent_item_id = None,
     ti_content = UserMessage (qm_text m) (qm_context_len m) (attachment_paths (qm_attachments m))\<rparr>"

definition on_turn_accepted ::
  "'j surroundings \<Rightarrow> string \<Rightarrow> u64 \<Rightarrow> 'j hosted \<Rightarrow> 'j hosted option" where
  "on_turn_accepted E uuid delivery_id h = (case accept_turn_delivery delivery_id (hd_session h) of
      (None, _) \<Rightarrow> Some h
    | (Some m, s) \<Rightarrow> do {
        h \<leftarrow> record_event E \<lparr>sn_delivery_key = None, sn_author = qm_author m, sn_origin = Some (qm_origin m)\<rparr>
               (ItemCompleted (user_item uuid m)) (h\<lparr>hd_session := s\<rparr>);
        let h = touched E h;
        let h = (case qm_kind m of
            Queued_Pull_Request_Wake key i \<Rightarrow>
              h\<lparr>hd_acknowledged := hd_acknowledged h @ [(key, i, qm_text m)]\<rparr>
          | _ \<Rightarrow> h);
        (case qm_context_window_changed m of
           Some window \<Rightarrow> record_event E no_sender (ContextWindowChanged window) h
         | None \<Rightarrow> Some h) })"

subsection \<open>Sending\<close>

definition conversation_read_only :: "'j session_meta \<Rightarrow> bool" where
  "conversation_read_only m = (me_native_subagent m \<noteq> None)"

definition relay_unconfirmed :: "'j active_session \<Rightarrow> bool" where
  "relay_unconfirmed s = (as_pending_relay s \<noteq> None \<and> has_meaningful_history (as_timeline s))"

definition reactivate :: "u64 \<Rightarrow> message_origin option \<Rightarrow> 'j session_meta \<Rightarrow> 'j session_meta" where
  "reactivate now_secs origin m = (
     let withdraws = (me_self_settle m \<noteq> None \<and> origin \<in> {None, Some Human})
     in if me_archived_at m \<noteq> None
           \<or> \<not> withdraws \<and> me_settled_override m = None \<and> me_settled_at m = None \<and> me_cancelled_at m = None
        then m
        else
          let m1 = (if withdraws then m\<lparr>me_self_settle := None\<rparr> else m);
              m2 = (if is_settled m1 then m1\<lparr>me_unsettled_at := Some now_secs\<rparr> else m1)
          in m2\<lparr>me_settled_override := None, me_settled_at := None, me_cancelled_at := None\<rparr>)"

definition stamp_sender :: "sender \<Rightarrow> 'j active_session \<Rightarrow> 'j active_session" where
  "stamp_sender sender s = s\<lparr>as_queue := update_last (\<lambda>m. m\<lparr>qm_delivery_key := sn_delivery_key sender,
     qm_author := sn_author sender,
     qm_origin := (case sn_origin sender of Some origin \<Rightarrow> origin | None \<Rightarrow> qm_origin m)\<rparr>) (as_queue s)\<rparr>"

text \<open>
  \<open>send_turn_assembled\<close>: refused for a mirror of a native subagent, deferred while a hand-over waits
  for its confirmation or a worktree must be made first, else queued and sent when it can go.
\<close>

definition send_turn_assembled ::
  "'j surroundings \<Rightarrow> sender \<Rightarrow> string \<Rightarrow> attachment list \<Rightarrow> 'j hosted \<Rightarrow> 'j hosted option" where
  "send_turn_assembled E sender txt attachments h0 = (
     let s0 = hd_session h0
     in if conversation_read_only (as_meta s0) \<or> relay_unconfirmed s0
           \<or> as_draft s0 \<and> \<not> as_preparing_worktree s0 \<and> as_draft_workspace s0 \<noteq> Local_Checkout
        then Some h0
        else
          let h1 = on_meta (reactivate (en_now_secs E) (sn_origin sender))
                 (on_session (\<lambda>s. s\<lparr>as_draft := False\<rparr>) h0);
              s2 = stamp_sender sender (stamp_context_window_change (en_json E) (en_default_window E)
                 (snd (push_queued (en_json E) txt attachments (hd_session h1))));
              h2 = h1\<lparr>hd_session := s2\<rparr>;
              restart_deferred = settings_restart_deferred (en_json E) s2;
              h3 = (if launch_settings_changed_while_live (en_json E) s2 \<and> \<not> restart_deferred
                then shut_down E h2 else h2);
              should_start = (as_runtime (hd_session h3) = Run_Idle)
          in do {
            h \<leftarrow> (if restart_deferred then Some h3 else map_option snd (dispatch_next_queued E h3));
            (if should_start then ensure_session_started h else Some h) })"

definition steer_request_id :: "string \<Rightarrow> string option \<Rightarrow> string" where
  "steer_request_id uuid delivery_key =
     ''local-steer-'' @ (case delivery_key of Some key \<Rightarrow> key | None \<Rightarrow> uuid)"

definition record_steer_request ::
  "'j surroundings \<Rightarrow> string \<Rightarrow> sender \<Rightarrow> string \<Rightarrow> attachment list \<Rightarrow> 'j hosted \<Rightarrow>
     (string \<times> 'j hosted) option" where
  "record_steer_request E uuid sender txt attachments h = (
     let request_id = steer_request_id uuid (sn_delivery_key sender)
     in map_option (Pair request_id)
          (record_event E sender (SteerRequested request_id txt (attachment_paths attachments))
            (on_meta (reactivate (en_now_secs E) (sn_origin sender)) h)))"

definition steer_into_turn ::
  "'j surroundings \<Rightarrow> string \<Rightarrow> string \<Rightarrow> attachment list \<Rightarrow> 'j hosted \<Rightarrow> (unit + unit) \<times> 'j hosted" where
  "steer_into_turn E request_id txt attachments h =
     (case steer_now (en_accepts E) request_id txt attachments (hd_session h) of
        (r, sent, s) \<Rightarrow> (r, send_out (sent, s) h))"

definition steer_assembled ::
  "'j surroundings \<Rightarrow> string \<Rightarrow> sender \<Rightarrow> string \<Rightarrow> attachment list \<Rightarrow> 'j hosted \<Rightarrow> 'j hosted option" where
  "steer_assembled E uuid sender txt attachments h = (case route True (hd_session h) of
      Route_Steer \<Rightarrow> do {
        let wire = native_skill_invocation (wire_text_with_placeholder txt attachments)
              (as_provider_commands (hd_session h));
        (request_id, h) \<leftarrow> record_steer_request E uuid sender txt attachments h;
        let pending = \<lparr>ps_request_id = request_id, ps_text = txt, ps_attachments = attachments,
              ps_author = sn_author sender, ps_origin = sn_origin sender\<rparr>;
        let h = on_session (\<lambda>s. s\<lparr>as_pending_context_len := None,
              as_pending_steers := as_pending_steers s @ [pending]\<rparr>) h;
        Some (snd (steer_into_turn E request_id wire attachments h)) }
    | _ \<Rightarrow> send_turn_assembled E sender txt attachments h)"

definition on_steer_accepted :: "'j surroundings \<Rightarrow> string \<Rightarrow> 'j hosted \<Rightarrow> 'j hosted option" where
  "on_steer_accepted E request_id h = record_event E no_sender (SteerAccepted request_id)
     (on_session (\<lambda>s. s\<lparr>as_pending_steers :=
        filter (\<lambda>p. ps_request_id p \<noteq> request_id) (as_pending_steers s)\<rparr>) h)"

definition on_steer_rejected :: "'j surroundings \<Rightarrow> string \<Rightarrow> 'j hosted \<Rightarrow> 'j hosted option" where
  "on_steer_rejected E request_id h = do {
     h \<leftarrow> record_event E no_sender (SteerRejected request_id) h;
     let steers = as_pending_steers (hd_session h);
     (case position (\<lambda>p. ps_request_id p = request_id) steers of
        None \<Rightarrow> Some h
      | Some k \<Rightarrow> send_turn_assembled E
          \<lparr>sn_delivery_key = None, sn_author = ps_author (steers ! k), sn_origin = ps_origin (steers ! k)\<rparr>
          (ps_text (steers ! k)) (ps_attachments (steers ! k))
          (on_session (\<lambda>s. s\<lparr>as_pending_steers := remove_at k steers\<rparr>) h)) }"

text \<open>A parked session that finished a turn, or is to look at its queue.\<close>

definition background_turn_completed :: "'j surroundings \<Rightarrow> 'j hosted \<Rightarrow> 'j hosted option" where
  "background_turn_completed E h = do {
     (dispatch, idle, h) \<leftarrow> parked_turn_ended E h;
     h \<leftarrow> (if dispatch then map_option snd (dispatch_next_queued E h) else Some h);
     Some (if idle then mark_resident_idle E h else h) }"

text \<open>\<open>deliver_orchestrate_callback_to_parent\<close> for a parent that is not archived and is resident.\<close>

definition queue_automatic_turn ::
  "'j surroundings \<Rightarrow> ('j active_session \<Rightarrow> 'j active_session) \<Rightarrow> 'j hosted \<Rightarrow> 'j hosted option" where
  "queue_automatic_turn E push h0 = (
     let h1 = on_session push h0;
         s1 = hd_session h1
     in if hd_parked h0
        then do {
          h \<leftarrow> (if \<not> as_turn_in_flight s1 \<and> is_live s1 then background_turn_completed E h1 else Some h1);
          (if as_runtime s1 = Run_Idle then ensure_session_started h else Some h) }
        else
          let restart_deferred = settings_restart_deferred (en_json E) s1;
              h2 = (if launch_settings_changed_while_live (en_json E) s1 \<and> \<not> restart_deferred
                then shut_down E h1 else h1);
              should_start = (as_runtime (hd_session h2) = Run_Idle)
          in do {
            h \<leftarrow> (if restart_deferred then Some h2 else map_option snd (dispatch_next_queued E h2));
            (if should_start then ensure_session_started h else Some h) })"

definition deliver_callback ::
  "'j surroundings \<Rightarrow> string \<Rightarrow> string option \<Rightarrow> string \<Rightarrow> 'j hosted \<Rightarrow> 'j hosted option" where
  "deliver_callback E uuid delivery_key txt h = (
     let sender = \<lparr>sn_delivery_key = delivery_key, sn_author = None, sn_origin = Some Agent\<rparr>
     in if as_turn_in_flight (hd_session h) \<and> can_steer (hd_session h)
        then do {
          (request_id, h) \<leftarrow> record_steer_request E uuid sender txt [] h;
          Some (snd (steer_into_turn E request_id txt [] h)) }
        else queue_automatic_turn E (\<lambda>s. snd (push_or_merge_orchestrate_callback (en_json E) txt s))
          (on_meta (reactivate (en_now_secs E) (Some Agent)) h))"

subsection \<open>Limits and blocked turns\<close>

definition RESUME_PROMPT :: string where
  "RESUME_PROMPT = ''Continue from where you left off.''"

text \<open>The wall clock counts nanoseconds since the epoch.\<close>

definition from_secs :: "u64 \<Rightarrow> int" where
  "from_secs n = int (unat n) * 1000000000"

definition schedule_resume :: "'j surroundings \<Rightarrow> u64 \<Rightarrow> 'j active_session \<Rightarrow> 'j active_session" where
  "schedule_resume E resets_at s = (
     let not_before = from_secs resets_at
     in if \<exists>m\<in>set (as_queue s). qm_not_before m = Some not_before then s
        else
          let s1 = stamp_context_window_change (en_json E) (en_default_window E)
                 (snd (push_scheduled (en_json E) RESUME_PROMPT [] not_before s))
          in s1\<lparr>as_queue := update_last (\<lambda>m. m\<lparr>qm_origin := Server\<rparr>) (as_queue s1)\<rparr>)"

definition on_usage_limit ::
  "'j surroundings \<Rightarrow> bool \<Rightarrow> u64 \<Rightarrow> 'j hosted \<Rightarrow> 'j hosted option" where
  "on_usage_limit E resume_on_limit_reset resets_at h =
     record_event E no_sender (UsageLimitReached resets_at)
       (if resume_on_limit_reset then on_session (schedule_resume E resets_at) h else h)"

subsection \<open>A provider that is ready\<close>

text \<open>
  What follows \<open>provider_started\<close>: a rewind that waits goes first, else the command asked for while
  the provider was starting, else the queue.
\<close>

definition provider_ready :: "'j surroundings \<Rightarrow> 'j hosted \<Rightarrow> 'j hosted option" where
  "provider_ready E h0 = (
     let h = provider_started E h0
     in case hd_rewind h of
          Some (checkpoint, mode) \<Rightarrow>
            Some (if en_accepts E then send_out ([Cmd_Rewind checkpoint mode], hd_session h) h
                  else h\<lparr>hd_rewind := None\<rparr>)
        | None \<Rightarrow> (case as_requested_command (hd_session h) of
            Some command \<Rightarrow> Some (send_out (if en_accepts E then [command] else [],
              (hd_session h)\<lparr>as_requested_command := None\<rparr>) h)
          | None \<Rightarrow> if hd_parked h then background_turn_completed E h
              else map_option snd (dispatch_next_queued E h)))"

end
