(* ===== verification/Dispatch_Laws.thy ===== *)
theory Dispatch_Laws
  imports Session_Runtime Timeline_Laws
begin

section \<open>Laws of a dispatch\<close>

text \<open>
  What the steps of \<open>dispatch_next_queued\<close> and of the end of a turn leave alone, and that both return.
  The locale \<open>dispatch_invariant\<close> carries a property of a session through a whole dispatch, however the
  hand-over of a moved thread nests; it is interpreted for the well-formed timeline, the settings of the
  live provider, the rows of the queue and the pending steers. The fold behind the handlers never
  panics, by the facts \<open>live\<close> of \<open>Timeline_Correct\<close>.
\<close>

subsection \<open>Recording\<close>

definition recorded ::
  "sender \<Rightarrow> 'j agent_event \<Rightarrow> 'j timeline \<Rightarrow> 'j hosted \<Rightarrow> 'j hosted" where
  "recorded sender event tml h = (on_session (\<lambda>s. s\<lparr>as_timeline := tml\<rparr>) h)\<lparr>hd_recorded := hd_recorded h @
     [(if names_sender event then sn_author sender else None,
       if names_sender event then sn_origin sender else None, event)]\<rparr>"

lemma recorded_simps [simp]:
  "hd_session (recorded sender event tml h) = (hd_session h)\<lparr>as_timeline := tml\<rparr>"
  "hd_parked (recorded sender event tml h) = hd_parked h"
  "hd_rewind (recorded sender event tml h) = hd_rewind h"
  "hd_generation (recorded sender event tml h) = hd_generation h"
  "hd_sent (recorded sender event tml h) = hd_sent h"
  "hd_acknowledged (recorded sender event tml h) = hd_acknowledged h"
  "hd_fired (recorded sender event tml h) = hd_fired h"
  "hd_recorded (recorded sender event tml h) = hd_recorded h @
     [(if names_sender event then sn_author sender else None,
       if names_sender event then sn_origin sender else None, event)]"
  by (simp_all add: recorded_def on_session_def)

lemma on_session_simps [simp]:
  "hd_session (on_session f h) = f (hd_session h)"
  "hd_parked (on_session f h) = hd_parked h"
  "hd_rewind (on_session f h) = hd_rewind h"
  "hd_generation (on_session f h) = hd_generation h"
  "hd_sent (on_session f h) = hd_sent h"
  "hd_recorded (on_session f h) = hd_recorded h"
  "hd_acknowledged (on_session f h) = hd_acknowledged h"
  "hd_fired (on_session f h) = hd_fired h"
  by (simp_all add: on_session_def)

lemma on_meta_simps [simp]:
  "hd_session (on_meta g h) = (hd_session h)\<lparr>as_meta := g (as_meta (hd_session h))\<rparr>"
  "hd_parked (on_meta g h) = hd_parked h"
  "hd_rewind (on_meta g h) = hd_rewind h"
  "hd_generation (on_meta g h) = hd_generation h"
  "hd_sent (on_meta g h) = hd_sent h"
  "hd_recorded (on_meta g h) = hd_recorded h"
  "hd_acknowledged (on_meta g h) = hd_acknowledged h"
  "hd_fired (on_meta g h) = hd_fired h"
  by (simp_all add: on_meta_def)

lemma send_out_simps [simp]:
  "hd_session (send_out r h) = snd r"
  "hd_parked (send_out r h) = hd_parked h"
  "hd_rewind (send_out r h) = hd_rewind h"
  "hd_generation (send_out r h) = hd_generation h"
  "hd_sent (send_out r h) = hd_sent h @ fst r"
  "hd_recorded (send_out r h) = hd_recorded h"
  "hd_acknowledged (send_out r h) = hd_acknowledged h"
  "hd_fired (send_out r h) = hd_fired h"
  by (simp_all add: send_out_def)

abbreviation host_ok :: "'j hosted \<Rightarrow> bool" where
  "host_ok h \<equiv> tl_ok (as_timeline (hd_session h))"

lemma record_event_eq:
  "record_event E sender event h = map_option (\<lambda>tml. recorded sender event tml h)
     (apply_at (Some (en_now_millis E)) event (as_timeline (hd_session h)))"
  by (simp add: record_event_def recorded_def)

lemma record_event_ok:
  assumes "host_ok h"
  obtains tml where "record_event E sender event h = Some (recorded sender event tml h)" "tl_ok tml"
    "apply_at (Some (en_now_millis E)) event (as_timeline (hd_session h)) = Some tml"
  using live.step_safe [OF assms, of "Some (en_now_millis E)" event] that
  by (auto simp: record_event_eq)

lemma update_turn_retry:
  "update_turn i f tml = Some tml' \<Longrightarrow> tl_turn_retry tml' = tl_turn_retry tml"
  by (auto simp: update_turn_def split: if_splits option.splits)

lemma complete_turn_retry:
  assumes "complete_turn ts status usage tml = Some tml'"
  shows "tl_turn_retry tml' = tl_turn_retry tml"
  using assms
  by (auto simp: complete_turn_def Let_def update_turn_retry split: bind_splits option.splits)

lemma turn_completed_retry:
  assumes "apply_at ts (TurnCompleted t status usage) tml = Some tml'"
  shows "tl_turn_retry tml' = tl_turn_retry tml"
  using assms
  by (auto simp: apply_at_def Let_def push_turn_def dest!: complete_turn_retry split: bind_splits if_splits)

subsection \<open>What may be sent\<close>

lemma next_dispatchable_frame:
  assumes "same_settings s s'" "as_queue s' = as_queue s" "as_turn_in_flight s' = as_turn_in_flight s"
    "as_delivery_in_flight s' = as_delivery_in_flight s"
    "as_background_task_count s' = as_background_task_count s"
  shows "next_dispatchable J now s' = next_dispatchable J now s"
proof -
  have "settings_restart_deferred J s' = settings_restart_deferred J s"
    using assms launch_settings_frame [OF assms(1)] by (simp add: settings_restart_deferred_def)
  moreover have "is_live s' = is_live s" using assms(1) by (simp add: same_settings_def is_live_def)
  ultimately show ?thesis using assms by (simp add: next_dispatchable_def)
qed

lemma next_dispatchable_row:
  assumes "next_dispatchable J now s = Some m"
  shows "m \<in> set (as_queue s)" "due now m" "is_live s" "\<not> as_turn_in_flight s"
    "as_delivery_in_flight s = None"
  using assms by (auto simp: next_dispatchable_def find_Some_iff split: if_splits)

definition submits :: "queued_message \<Rightarrow> 'j active_session \<Rightarrow> 'j session_command" where
  "submits m s = Cmd_Send_Turn (qm_id m) (wire_text (as_provider_commands s) m)
     (Some (qm_options m)) (qm_attachments m)"

lemma send_next_some:
  assumes "next_dispatchable (en_json E) (en_now E) (hd_session h) = Some m" "en_accepts E"
  shows "send_next E h = (Inr True, send_out ([submits m (hd_session h)],
     (hd_session h)\<lparr>as_idle_since := None, as_delivery_in_flight := Some (qm_id m)\<rparr>) h)"
  using assms next_dispatchable_row [OF assms(1)]
  by (simp add: send_next_def dispatch_next_pending_def submits_def)

lemma send_next_in_flight:
  assumes "as_delivery_in_flight (hd_session h) \<noteq> None"
  shows "send_next E h = (Inr False, send_out ([], hd_session h) h)"
  using assms by (simp add: send_next_def dispatch_next_pending_def next_dispatchable_def)

lemma dispatch_unmoved:
  assumes "is_live (hd_session h)" "\<not> as_turn_in_flight (hd_session h)"
    "me_moved_from (as_meta (hd_session h)) = None"
  shows "dispatch_next_queued E h = Some (send_next E h)"
  using assms by (subst dispatch_next_queued.simps) (simp add: moved_handoff_message_def)

text \<open>Completing a turn on a session that waits for nothing but its queue.\<close>

definition turn_over :: "'j active_session \<Rightarrow> 'j active_session" where
  "turn_over s = s\<lparr>as_turn_in_flight := False, as_interrupt_requested := False\<rparr>"

lemma complete_with_queue:
  assumes "host_ok h" "\<not> retry_pending h" "as_queue (hd_session h) \<noteq> []"
    "\<not> launch_settings_changed_while_live (en_json E) (hd_session h)"
  obtains tml where "tl_ok tml" "turn_completed_before E t status usage h =
     Some (False, True, \<not> hd_parked h,
       on_session turn_over (recorded no_sender (TurnCompleted t status usage) tml (touched E h)))"
proof -
  have "host_ok (touched E h)" using assms(1) by (simp add: touched_def)
  then obtain tml where rec:
    "record_event E no_sender (TurnCompleted t status usage) (touched E h)
     = Some (recorded no_sender (TurnCompleted t status usage) tml (touched E h))" "tl_ok tml"
    "apply_at (Some (en_now_millis E)) (TurnCompleted t status usage)
       (as_timeline (hd_session (touched E h))) = Some tml"
    by (rule record_event_ok)
  define h1 where "h1 = recorded no_sender (TurnCompleted t status usage) tml (touched E h)"
  define h2 where "h2 = on_session turn_over h1"
  have retry: "\<not> retry_pending h1"
    using assms(2) turn_completed_retry [OF rec(3)] by (simp add: retry_pending_def h1_def touched_def)
  have "same_settings (hd_session h) (hd_session h2)"
    by (simp add: same_settings_def h2_def h1_def touched_def turn_over_def)
  then have launch: "\<not> launch_settings_changed_while_live (en_json E) (hd_session h2)"
    using assms(4) launch_settings_frame by blast
  then have "\<not> cwd_changed_while_live (hd_session h2)"
    by (simp add: launch_settings_changed_while_live_def)
  moreover have "on_session (\<lambda>s. s\<lparr>as_turn_in_flight := False\<rparr>)
      (on_session (\<lambda>s. s\<lparr>as_interrupt_requested := False\<rparr>) h1) = h2"
    by (simp add: h2_def on_session_def turn_over_def)
  moreover have "as_queue (hd_session h2) \<noteq> []" "hd_parked h1 = hd_parked h"
    using assms(3) by (simp_all add: h2_def h1_def touched_def turn_over_def)
  ultimately have "turn_completed_before E t status usage h = Some (False, True, \<not> hd_parked h, h2)"
    using retry rec(1) launch
    by (simp add: turn_completed_before_def touched_def [symmetric] h1_def [symmetric]
        viewed_turn_ended_def parked_turn_ended_def Let_def)
  with rec(2) that show thesis unfolding h2_def h1_def by blast
qed

subsection \<open>Handing a moved thread over\<close>

abbreviation handover :: "'j surroundings \<Rightarrow> string \<Rightarrow> 'j hosted \<Rightarrow> string \<times> 'j agent_event \<times> 'j hosted" where
  "handover E txt h \<equiv> begin_relay E (same_backend (hd_session h)) txt h"

lemma begin_relay_state:
  "snd (snd (begin_relay E from txt h)) =
     on_meta (\<lambda>m. m\<lparr>me_moved_from := None, me_updated_at := en_now_secs E\<rparr>) h"
  by (simp add: begin_relay_def Let_def)

lemma moved_handoff_some:
  assumes "next_dispatchable J now s = Some m" "me_moved_from (as_meta s) \<noteq> None"
    "\<not> launch_settings_changed_while_live J s"
  shows "moved_handoff_message J now s = Some (qm_id m, qm_text m)"
  using assms by (simp add: moved_handoff_message_def launch_settings_changed_while_live_def)

lemma row_position:
  assumes "distinct (queue_ids s)" "as_queue s = ys @ m # zs"
  shows "position (\<lambda>x. qm_id x = qm_id m) (ys @ m # zs) = Some (length ys)"
    "\<forall>y\<in>set (ys @ zs). qm_id y \<noteq> qm_id m"
proof -
  have "distinct (map qm_id (ys @ m # zs))" using assms by (simp add: queue_ids_def)
  then show others: "\<forall>y\<in>set (ys @ zs). qm_id y \<noteq> qm_id m" by (rule distinct_others)
  then show "position (\<lambda>x. qm_id x = qm_id m) (ys @ m # zs) = Some (length ys)"
    by (intro position_skip) (auto simp: list_all_iff)
qed

lemma set_relay_transcript_row:
  assumes "distinct (queue_ids s)" "as_queue s = ys @ m # zs"
  shows "set_relay_transcript (qm_id m) t s =
     s\<lparr>as_queue := ys @ m\<lparr>qm_relay_transcript := Some t\<rparr> # zs\<rparr>"
  using row_position(1) [OF assms] assms(2) by (simp add: set_relay_transcript_def)

lemma find_skip:
  "\<forall>y\<in>set ys. \<not> P y \<Longrightarrow> P x \<Longrightarrow> find P (ys @ x # zs) = Some x"
  by (induction ys) auto

subsection \<open>Which provider gets a message\<close>

lemma mark_idle_frame [simp]:
  "same_settings s (hd_session (mark_resident_idle E h)) = same_settings s (hd_session h)"
  "hd_sent (mark_resident_idle E h) = hd_sent h"
  "as_turn_woken_by_control (hd_session (mark_resident_idle E h)) = as_turn_woken_by_control (hd_session h)"
  "hd_fired (mark_resident_idle E h) = hd_fired h"
  by (simp_all add: mark_resident_idle_def Let_def same_settings_def)

lemma turn_after_frame [simp]:
  "same_settings s (hd_session (turn_completed_after h)) = same_settings s (hd_session h)"
  "hd_sent (turn_completed_after h) = hd_sent h"
  by (simp_all add: turn_completed_after_def Let_def same_settings_def)

lemma same_settings_refl [simp]: "same_settings s s"
  by (simp add: same_settings_def)

lemma same_settings_trans: "same_settings s s' \<Longrightarrow> same_settings s' s'' \<Longrightarrow> same_settings s s''"
  by (simp add: same_settings_def)

lemma record_event_frame:
  assumes "record_event E sender event h = Some h'"
  shows "same_settings (hd_session h) (hd_session h')" "hd_sent h' = hd_sent h" "hd_fired h' = hd_fired h"
    "as_turn_woken_by_control (hd_session h') = as_turn_woken_by_control (hd_session h)"
    "as_queue (hd_session h') = as_queue (hd_session h)"
    "as_pending_steers (hd_session h') = as_pending_steers (hd_session h)"
  using assms by (auto simp: record_event_eq same_settings_def)

lemma send_next_frame:
  "same_settings s (hd_session (snd (send_next E h))) = same_settings s (hd_session h)"
  "as_turn_woken_by_control (hd_session (snd (send_next E h))) = as_turn_woken_by_control (hd_session h)"
  "hd_fired (snd (send_next E h)) = hd_fired h"
  "as_queue (hd_session (snd (send_next E h))) = as_queue (hd_session h)"
  by (cases "next_dispatchable (en_json E) (en_now E) (hd_session h)";
      simp add: send_next_def dispatch_next_pending_def same_settings_def)+

lemma set_relay_frame:
  "same_settings s (set_relay_transcript i t s') = same_settings s s'"
  by (simp add: set_relay_transcript_def same_settings_def split: option.split)

text \<open>With the settings of the live provider current, completing a turn neither stops nor starts one.\<close>

lemma completed_keeps_settings:
  assumes "turn_completed_before E t status usage h = Some (retry, d, i, h')"
    "\<not> launch_settings_changed_while_live (en_json E) (hd_session h)"
  shows "same_settings (hd_session h) (hd_session h')" "hd_sent h' = hd_sent h"
proof -
  obtain h1 where h1: "record_event E no_sender (TurnCompleted t status usage) (touched E h) = Some h1"
    using assms(1) by (auto simp: turn_completed_before_def touched_def split: bind_splits)
  have eq1: "same_settings (hd_session h) (hd_session h1)"
    using record_event_frame(1) [OF h1] by (simp add: same_settings_def touched_def)
  have sent1: "hd_sent h1 = hd_sent h" using record_event_frame(2) [OF h1] by (simp add: touched_def)
  define h2 where "h2 = on_session turn_over h1"
  have twice: "on_session (\<lambda>s. s\<lparr>as_turn_in_flight := False\<rparr>)
      (on_session (\<lambda>s. s\<lparr>as_interrupt_requested := False\<rparr>) h1) = h2"
    by (simp add: h2_def on_session_def turn_over_def)
  have eq2: "same_settings (hd_session h) (hd_session h2)"
    using eq1 by (simp add: same_settings_def h2_def turn_over_def)
  then have same: "\<not> launch_settings_changed_while_live (en_json E) (hd_session h2)"
    "\<not> cwd_changed_while_live (hd_session h2)"
    using assms(2) launch_settings_frame by (blast, fastforce simp: launch_settings_changed_while_live_def)
  have "h' = h1 \<or> h' = h2"
    using assms(1) h1 same twice
    by (auto simp: turn_completed_before_def touched_def [symmetric] viewed_turn_ended_def
        parked_turn_ended_def Let_def split: if_splits bind_splits)
  then show "same_settings (hd_session h) (hd_session h')" "hd_sent h' = hd_sent h"
    using eq1 eq2 sent1 by (auto simp: h2_def)
qed

lemma handover_settings:
  "same_settings s (hd_session (snd (snd (begin_relay E from txt h)))) = same_settings s (hd_session h)"
  by (simp add: begin_relay_state same_settings_def)

text \<open>
  What holds of a session and is kept by each step of a dispatch is kept by the dispatch, however the
  hand-over nests.
\<close>

locale dispatch_invariant =
  fixes E :: "'j surroundings" and P :: "'j hosted \<Rightarrow> bool"
  assumes forget: "P h \<Longrightarrow> P (on_meta (\<lambda>m. m\<lparr>me_moved_from := None\<rparr>) h)"
    and touch: "P h \<Longrightarrow> P (touched E h)"
    and log: "P h \<Longrightarrow> record_event E no_sender event h = Some h' \<Longrightarrow> P h'"
    and complete: "P h \<Longrightarrow> turn_completed_before E t status usage h = Some (retry, d, i, h') \<Longrightarrow> P h'"
    and after: "P h \<Longrightarrow> P (turn_completed_after h)"
    and idle: "P h \<Longrightarrow> P (mark_resident_idle E h)"
    and attach: "P h \<Longrightarrow> P (on_session (set_relay_transcript k transcript) h)"
    and send: "P h \<Longrightarrow> P (snd (send_next E h))"
begin

lemma start_relay:
  assumes "P h"
  shows "P (snd (snd (begin_relay E from txt h)))"
proof -
  have "snd (snd (begin_relay E from txt h)) = touched E (on_meta (\<lambda>m. m\<lparr>me_moved_from := None\<rparr>) h)"
    unfolding begin_relay_state touched_def on_meta_def on_session_def by simp
  then show ?thesis using touch [OF forget [OF assms]] by simp
qed

lemma dispatch_keeps:
  assumes "dispatch_next_queued F h = Some (r, h')" "P h" "F = E"
  shows "P h'"
  using assms
proof (induction F h arbitrary: r h' rule: dispatch_next_queued.induct)
  case (1 F h)
  note result = "1.prems"(1) [unfolded dispatch_next_queued.simps [of F h]]
  have last: "P h'" if "send_next E g = (r, h')" "P g" for g
    using send [OF that(2)] that(1) by simp
  have logged: "P h'" if "record_event E no_sender relay g = Some g'"
    "send_next E (on_session (set_relay_transcript k tr) g') = (r, h')" "P g" for relay g g' k tr
    using last [OF that(2) attach] log [OF that(3,1)] by blast
  show ?case
  proof (cases "as_turn_in_flight (hd_session h) \<or> \<not> is_live (hd_session h)")
    case True
    then show ?thesis using result "1.prems"(2) by auto
  next
    case awake: False
    show ?thesis
    proof (cases "moved_handoff_message (en_json F) (en_now F) (hd_session h)")
      case None
      then show ?thesis using result awake "1.prems" by (auto intro: last)
    next
      case (Some x)
      obtain k msg where x: "x = (k, msg)" by (cases x)
      show ?thesis
      proof (cases "has_meaningful_history (as_timeline (hd_session h))")
        case False
        then show ?thesis using result awake Some x "1.prems" by (auto intro: last forget)
      next
        case history: True
        obtain tr relay h1 where relay: "handover F msg h = (tr, relay, h1)" by (metis prod_cases3)
        have P1: "P h1"
          using start_relay [OF "1.prems"(2), of "same_backend (hd_session h)" msg] relay "1.prems"(3) by simp
        show ?thesis
        proof (cases "abandoned_turn (as_timeline (hd_session h1))")
          case None
          then show ?thesis using result awake Some x history relay P1 "1.prems"(3)
            by (auto split: bind_splits intro: logged)
        next
          case open_turn: (Some t)
          obtain retry d idle h2 where closed:
            "turn_completed_before F t TurnStatusInterrupted None h1 = Some (retry, d, idle, h2)"
            using result awake Some x history relay open_turn by (auto split: bind_splits)
          have P2: "P h2" using complete [OF P1] closed "1.prems"(3) by blast
          have inner: "P h3" if "\<not> retry" "d" "dispatch_next_queued F h2 = Some (r3, h3)" for r3 h3
            using "1.IH" [OF awake Some x [symmetric] _ relay [symmetric] refl open_turn closed refl refl refl] that P2
              history "1.prems"(3) by blast
          show ?thesis
            using result awake Some x history relay open_turn closed P2 "1.prems"(3) inner
            by (auto split: bind_splits if_splits intro: logged after idle)
        qed
      qed
    qed
  qed
qed

end

definition current_settings :: "'j surroundings \<Rightarrow> 'j active_session \<Rightarrow> 'j hosted \<Rightarrow> bool" where
  "current_settings E s h \<longleftrightarrow> \<not> launch_settings_changed_while_live (en_json E) s
     \<and> same_settings s (hd_session h)"

lemma record_event_returns:
  assumes "host_ok h"
  shows "\<exists>tml. tl_ok tml \<and> record_event E sender event h = Some (recorded sender event tml h)"
  using record_event_ok [OF assms] by metis

lemma record_event_host_ok:
  assumes "host_ok h" "record_event E sender event h = Some h'"
  shows "host_ok h'"
proof -
  obtain tml where "record_event E sender event h = Some (recorded sender event tml h)" "tl_ok tml"
    by (rule record_event_ok [OF assms(1)])
  then show ?thesis using assms(2) by simp
qed

lemma mark_idle_timeline [simp]:
  "as_timeline (hd_session (mark_resident_idle E h)) = as_timeline (hd_session h)"
  "as_queue (hd_session (mark_resident_idle E h)) = as_queue (hd_session h)"
  by (simp_all add: mark_resident_idle_def Let_def)

lemma send_next_timeline [simp]:
  "as_timeline (hd_session (snd (send_next E h))) = as_timeline (hd_session h)"
  by (cases "next_dispatchable (en_json E) (en_now E) (hd_session h)";
      simp add: send_next_def dispatch_next_pending_def)

lemma set_relay_timeline [simp]: "as_timeline (set_relay_transcript k t s) = as_timeline s"
  by (simp add: set_relay_transcript_def split: option.split)

lemma shut_down_frame [simp]:
  "as_timeline (hd_session (shut_down E h)) = as_timeline (hd_session h)"
  "as_queue (hd_session (shut_down E h)) = as_queue (hd_session h)"
  "hd_generation (shut_down E h) = hd_generation h"
  "hd_fired (shut_down E h) = hd_fired h"
  "as_turn_woken_by_control (hd_session (shut_down E h)) = as_turn_woken_by_control (hd_session h)"
  "as_pending_steers (hd_session (shut_down E h)) = as_pending_steers (hd_session h)"
  by (simp_all add: shut_down_def shutdown_to_idle_def)

lemma started_frame:
  assumes "ensure_session_started h = Some h'"
  shows "as_timeline (hd_session h') = as_timeline (hd_session h)"
    "as_queue (hd_session h') = as_queue (hd_session h)"
    "hd_fired h' = hd_fired h" "hd_sent h' = hd_sent h"
    "as_turn_woken_by_control (hd_session h') = as_turn_woken_by_control (hd_session h)"
    "as_pending_steers (hd_session h') = as_pending_steers (hd_session h)"
  using assms by (auto simp: ensure_session_started_def Let_def split: if_splits)

lemma turn_ended_frame:
  assumes "viewed_turn_ended E h = Some (d, i, h') \<or> parked_turn_ended E h = Some (d, i, h')"
  shows "as_timeline (hd_session h') = as_timeline (hd_session h)"
    "as_queue (hd_session h') = as_queue (hd_session h)" "hd_fired h' = hd_fired h"
    "as_turn_woken_by_control (hd_session h') = as_turn_woken_by_control (hd_session h)"
    "as_pending_steers (hd_session h') = as_pending_steers (hd_session h)"
  using assms
  by (auto simp: viewed_turn_ended_def parked_turn_ended_def Let_def dest: started_frame split: if_splits)

lemma completed_frame:
  assumes "turn_completed_before E t status usage h = Some (retry, d, i, h')"
  shows "as_queue (hd_session h') = as_queue (hd_session h)" "hd_fired h' = hd_fired h"
    "as_turn_woken_by_control (hd_session h') = as_turn_woken_by_control (hd_session h)"
    "as_pending_steers (hd_session h') = as_pending_steers (hd_session h)"
    "host_ok h \<Longrightarrow> host_ok h'"
proof -
  obtain h1 where h1: "record_event E no_sender (TurnCompleted t status usage) (touched E h) = Some h1"
    using assms(1) by (auto simp: turn_completed_before_def touched_def split: bind_splits)
  have "host_ok h1" if "host_ok h"
    using record_event_host_ok [OF _ h1] that by (simp add: touched_def)
  moreover note record_event_frame [OF h1]
  moreover define g where "g = on_session (\<lambda>s. s\<lparr>as_interrupt_requested := False\<rparr>) h1"
  have "h' = h1 \<or> viewed_turn_ended E g = Some (d, i, h') \<or> parked_turn_ended E g = Some (d, i, h')"
    using assms h1 by (auto simp: turn_completed_before_def touched_def [symmetric] g_def Let_def
        split: if_splits bind_splits)
  ultimately show "as_queue (hd_session h') = as_queue (hd_session h)" "hd_fired h' = hd_fired h"
    "as_turn_woken_by_control (hd_session h') = as_turn_woken_by_control (hd_session h)"
    "as_pending_steers (hd_session h') = as_pending_steers (hd_session h)"
    "host_ok h \<Longrightarrow> host_ok h'"
    using turn_ended_frame [of E g d i h'] by (auto simp: g_def touched_def)
qed

lemma after_timeline [simp]:
  "as_timeline (hd_session (turn_completed_after h)) = as_timeline (hd_session h)"
  "as_queue (hd_session (turn_completed_after h)) = as_queue (hd_session h)"
  by (simp_all add: turn_completed_after_def Let_def)

lemma touched_frame [simp]:
  "as_timeline (hd_session (touched E h)) = as_timeline (hd_session h)"
  "as_queue (hd_session (touched E h)) = as_queue (hd_session h)"
  "same_settings s (hd_session (touched E h)) = same_settings s (hd_session h)"
  by (simp_all add: touched_def same_settings_def)

interpretation sound: dispatch_invariant E host_ok for E
proof
  show "host_ok h'" if "host_ok h" "record_event E no_sender event h = Some h'" for event h h'
    by (rule record_event_host_ok [OF that])
  show "host_ok h'" if "host_ok h" "turn_completed_before E t status usage h = Some (retry, d, i, h')"
    for t status usage retry d i h h'
    by (rule completed_frame(5) [OF that(2,1)])
qed simp_all

interpretation current: dispatch_invariant E "current_settings E s" for E s
proof
  fix h h' t status usage retry d i
  assume "current_settings E s h" "turn_completed_before E t status usage h = Some (retry, d, i, h')"
  then show "current_settings E s h'"
    using completed_keeps_settings(1) launch_settings_frame same_settings_trans
    unfolding current_settings_def by metis
next
  fix h h' event
  assume "current_settings E s h" "record_event E no_sender event h = Some h'"
  then show "current_settings E s h'"
    unfolding current_settings_def using record_event_frame(1) same_settings_trans by blast
qed (simp_all add: current_settings_def set_relay_frame send_next_frame, simp add: same_settings_def)

text \<open>A dispatch moves no row: it only attaches the transcript to one.\<close>

definition row_of :: "queued_message \<Rightarrow> queued_message" where
  "row_of m = m\<lparr>qm_relay_transcript := None\<rparr>"

lemma set_relay_rows [simp]:
  "map row_of (as_queue (set_relay_transcript k t s)) = map row_of (as_queue s)"
  by (auto simp: set_relay_transcript_def map_update row_of_def list_update_same_conv dest: position_less
      split: option.split)

interpretation rows: dispatch_invariant E "\<lambda>h. map row_of (as_queue (hd_session h)) = rows" for E rows
proof
  show "map row_of (as_queue (hd_session h')) = rows"
    if "map row_of (as_queue (hd_session h)) = rows" "record_event E no_sender event h = Some h'" for event h h'
    using that record_event_frame(5) [OF that(2)] by simp
  show "map row_of (as_queue (hd_session h')) = rows"
    if "map row_of (as_queue (hd_session h)) = rows"
      "turn_completed_before E t status usage h = Some (retry, d, i, h')" for t status usage retry d i h h'
    using that completed_frame(1) [OF that(2)] by simp
qed (simp_all add: send_next_frame)

interpretation steers: dispatch_invariant E "\<lambda>h. as_pending_steers (hd_session h) = ps" for E ps
proof
  show "as_pending_steers (hd_session h') = ps"
    if "as_pending_steers (hd_session h) = ps" "record_event E no_sender event h = Some h'" for event h h'
    using that record_event_frame(6) [OF that(2)] by simp
  show "as_pending_steers (hd_session h') = ps"
    if "as_pending_steers (hd_session h) = ps"
      "turn_completed_before E t status usage h = Some (retry, d, i, h')" for t status usage retry d i h h'
    using that completed_frame(4) [OF that(2)] by simp
  show "as_pending_steers (hd_session (snd (send_next E h))) = ps"
    if "as_pending_steers (hd_session h) = ps" for h
    using that by (cases "next_dispatchable (en_json E) (en_now E) (hd_session h)";
      simp add: send_next_def dispatch_next_pending_def)
qed (auto simp: touched_def turn_completed_after_def mark_resident_idle_def set_relay_transcript_def Let_def
    split: option.split)

subsection \<open>A dispatch returns\<close>

lemma start_returns:
  assumes "hd_generation h \<noteq> - 1"
  shows "\<exists>h'. ensure_session_started h = Some h'"
  using assms by (simp add: ensure_session_started_def Let_def)

lemma turn_ended_returns:
  assumes "hd_generation h \<noteq> - 1"
  shows "\<exists>d i h'. viewed_turn_ended E h = Some (d, i, h')" "\<exists>d i h'. parked_turn_ended E h = Some (d, i, h')"
  using assms start_returns [of "shut_down E (on_session (\<lambda>s. s\<lparr>as_turn_in_flight := False\<rparr>) h)"]
  by (auto simp: viewed_turn_ended_def parked_turn_ended_def Let_def)

lemma completed_returns:
  assumes "host_ok h" "hd_generation h \<noteq> - 1"
  shows "\<exists>retry d i h'. turn_completed_before E t status usage h = Some (retry, d, i, h')"
proof -
  obtain tml where "record_event E no_sender (TurnCompleted t status usage) (touched E h)
      = Some (recorded no_sender (TurnCompleted t status usage) tml (touched E h))"
    by (rule record_event_ok [of "touched E h" E no_sender "TurnCompleted t status usage"])
      (simp add: assms(1))
  moreover define g where "g = on_session (\<lambda>s. s\<lparr>as_interrupt_requested := False\<rparr>)
      (recorded no_sender (TurnCompleted t status usage) tml (touched E h))"
  have "hd_generation g \<noteq> - 1" using assms(2) by (simp add: g_def touched_def)
  then obtain d i h' d' i' h'' where "viewed_turn_ended E g = Some (d, i, h')"
    "parked_turn_ended E g = Some (d', i', h'')"
    using turn_ended_returns by metis
  ultimately show ?thesis
    by (auto simp: turn_completed_before_def touched_def [symmetric] g_def Let_def)
qed

lemma dispatch_unmoved_returns:
  assumes "me_moved_from (as_meta (hd_session h)) = None"
  shows "\<exists>r h'. dispatch_next_queued E h = Some (r, h')"
  using assms by (subst dispatch_next_queued.simps) (simp add: moved_handoff_message_def)

lemma dispatch_returns:
  assumes "host_ok h" "hd_generation h \<noteq> - 1"
  shows "\<exists>r h'. dispatch_next_queued E h = Some (r, h')"
proof (cases "moved_handoff_message (en_json E) (en_now E) (hd_session h)")
  case None
  then show ?thesis by (subst dispatch_next_queued.simps) simp
next
  case (Some x)
  obtain k msg where x: "x = (k, msg)" by (cases x)
  obtain tr relay h1 where relay: "handover E msg h = (tr, relay, h1)" by (metis prod_cases3)
  have h1: "h1 = on_meta (\<lambda>m. m\<lparr>me_moved_from := None, me_updated_at := en_now_secs E\<rparr>) h"
    using begin_relay_state [of E "same_backend (hd_session h)" msg h] relay by simp
  have log: "\<exists>h'. record_event E no_sender relay g = Some h'" if "host_ok g" for g
    using record_event_ok [OF that] by blast
  show ?thesis
  proof (cases "abandoned_turn (as_timeline (hd_session h1))")
    case None
    then show ?thesis using Some x relay log [of h1] h1 assms(1)
      by (subst dispatch_next_queued.simps) auto
  next
    case (Some t)
    obtain retry d i h2 where closed:
      "turn_completed_before E t TurnStatusInterrupted None h1 = Some (retry, d, i, h2)"
      using completed_returns [of h1 E t TurnStatusInterrupted None] h1 assms by auto
    then have h2: "host_ok h2" "me_moved_from (as_meta (hd_session h2)) = None"
      using completed_frame(5) [OF closed] turn_completed_moved_from [OF closed] h1 assms(1) by simp_all
    then obtain r3 h3 where inner: "dispatch_next_queued E h2 = Some (r3, h3)"
      using dispatch_unmoved_returns by blast
    then have "host_ok h3" using sound.dispatch_keeps h2(1) by blast
    then have "\<exists>g. record_event E no_sender relay (turn_completed_after (if i then mark_resident_idle E g' else g')) = Some g"
      if "g' = h3 \<or> g' = h2" for g'
      using h2(1) that by (intro log) auto
    then show ?thesis
      using \<open>moved_handoff_message _ _ _ = _\<close> x relay Some closed inner log [OF h2(1)]
      by (subst dispatch_next_queued.simps) (cases retry; cases d; fastforce)
  qed
qed

end
