(* ===== verification/Runtime_Laws.thy ===== *)
theory Runtime_Laws
  imports Dispatch_Laws
begin

section \<open>Laws of the session handlers\<close>

text \<open>
  What the handlers of \<open>Session_Runtime\<close> guarantee of a session: which message goes to the provider
  and with what text, what of it reaches the log and how often, which settings the provider that gets
  it was started with, what becomes of a steer that the provider refuses, and which watches the end
  of a turn wakes. \<open>submits\<close> is the command a message goes out as.
\<close>

subsection \<open>A thread that moved to another directory\<close>

text \<open>
  C14: When no turn was left open, the first message sent after a thread moved goes out together with the
  transcript of the conversation so far; the move is then forgotten and the hand-over is on record.
\<close>

theorem moved_thread_hands_over:
  assumes "host_ok h" "next_dispatchable (en_json E) (en_now E) (hd_session h) = Some m"
    "en_accepts E" "distinct (queue_ids (hd_session h))"
    "me_moved_from (as_meta (hd_session h)) \<noteq> None"
    "\<not> launch_settings_changed_while_live (en_json E) (hd_session h)"
    "has_meaningful_history (as_timeline (hd_session h))"
    "abandoned_turn (as_timeline (hd_session h)) = None"
    "handover E (qm_text m) h = (transcript, relay, h1)"
  shows "\<exists>h'. dispatch_next_queued E h = Some (Inr True, h')
    \<and> hd_sent h' = hd_sent h @
        [submits (m\<lparr>qm_relay_transcript := Some transcript\<rparr>) (hd_session h)]
    \<and> as_delivery_in_flight (hd_session h') = Some (qm_id m)
    \<and> me_moved_from (as_meta (hd_session h')) = None
    \<and> hd_recorded h' = hd_recorded h @ [(None, None, relay)]"
proof -
  define s where "s = hd_session h"
  have row: "find (due (en_now E)) (as_queue s) = Some m" "is_live s" "\<not> as_turn_in_flight s"
    "\<not> settings_restart_deferred (en_json E) s"
    using assms(2) by (auto simp: next_dispatchable_def s_def split: if_splits)
  from find_split [OF row(1)] obtain ys zs where q: "as_queue s = ys @ m # zs" "due (en_now E) m"
    "\<forall>y\<in>set ys. \<not> due (en_now E) y" by blast
  have h1: "h1 = on_meta (\<lambda>m. m\<lparr>me_moved_from := None, me_updated_at := en_now_secs E\<rparr>) h"
    using begin_relay_state [of E "same_backend (hd_session h)" "qm_text m" h] assms(9) by simp
  then have "host_ok h1" using assms(1) by simp
  then obtain tml where rec: "record_event E no_sender relay h1 = Some (recorded no_sender relay tml h1)"
    using record_event_ok by blast
  define m' where "m' = m\<lparr>qm_relay_transcript := Some transcript\<rparr>"
  define h2 where "h2 = on_session (set_relay_transcript (qm_id m) transcript) (recorded no_sender relay tml h1)"
  have "hd_session h2 = set_relay_transcript (qm_id m) transcript
      (s\<lparr>as_meta := (as_meta s)\<lparr>me_moved_from := None, me_updated_at := en_now_secs E\<rparr>, as_timeline := tml\<rparr>)"
    by (simp add: h2_def h1 s_def)
  also have "\<dots> = s\<lparr>as_meta := (as_meta s)\<lparr>me_moved_from := None, me_updated_at := en_now_secs E\<rparr>,
      as_timeline := tml, as_queue := ys @ m' # zs\<rparr>"
    by (subst set_relay_transcript_row [of _ ys m zs])
      (use assms(4) q(1) in \<open>simp_all add: queue_ids_def s_def m'_def\<close>)
  finally have s2: "hd_session h2 = \<dots>" .
  have names: "\<not> names_sender relay"
    using assms(9) by (auto simp: begin_relay_def Let_def)
  have "same_settings s (hd_session h2)" by (simp add: same_settings_def s2)
  then have "\<not> launch_settings_changed_while_live (en_json E) (hd_session h2)"
    using assms(6) launch_settings_frame s_def by blast
  moreover have "find (due (en_now E)) (ys @ m' # zs) = Some m'"
    using q(2) by (intro find_skip [OF q(3)]) (simp add: m'_def due_def)
  ultimately have "next_dispatchable (en_json E) (en_now E) (hd_session h2) = Some m'"
    using row(2,3) next_dispatchable_row(5) [OF assms(2)]
    by (simp add: next_dispatchable_def s2 is_live_def settings_restart_deferred_def s_def)
  note sent = send_next_some [OF this assms(3)]
  have "dispatch_next_queued E h = Some (send_next E h2)"
    using row(2,3) moved_handoff_some [OF assms(2,5,6)] assms(7,8,9) rec h1
    by (subst dispatch_next_queued.simps) (simp add: s_def h2_def)
  then show ?thesis
    using sent names by (simp add: s2 h2_def [symmetric]) (simp add: h2_def h1 submits_def m'_def s_def)
qed

text \<open>
  C31: After a turn left open (the host quit while it ran, say), the first message of a moved thread goes
  out without the transcript: closing that turn completes it, and the completion dispatches the queue
  before the transcript is attached. The dispatch that was asked for then finds a delivery in flight.
\<close>

theorem open_turn_loses_the_transcript:
  assumes "host_ok h" "next_dispatchable (en_json E) (en_now E) (hd_session h) = Some m"
    "en_accepts E" "qm_relay_transcript m = None"
    "me_moved_from (as_meta (hd_session h)) \<noteq> None"
    "\<not> launch_settings_changed_while_live (en_json E) (hd_session h)"
    "has_meaningful_history (as_timeline (hd_session h))"
    "abandoned_turn (as_timeline (hd_session h)) = Some t" "\<not> retry_pending h"
  shows "\<exists>h'. dispatch_next_queued E h = Some (Inr False, h')
    \<and> hd_sent h' = hd_sent h @ [Cmd_Send_Turn (qm_id m)
        (native_skill_invocation (wire_text_with_placeholder (qm_text m) (qm_attachments m))
          (as_provider_commands (hd_session h)))
        (Some (qm_options m)) (qm_attachments m)]
    \<and> as_delivery_in_flight (hd_session h') = Some (qm_id m)
    \<and> me_moved_from (as_meta (hd_session h')) = None"
proof -
  define s where "s = hd_session h"
  obtain transcript relay h1 where relay: "handover E (qm_text m) h = (transcript, relay, h1)"
    by (metis prod_cases3)
  then have h1: "h1 = on_meta (\<lambda>m. m\<lparr>me_moved_from := None, me_updated_at := en_now_secs E\<rparr>) h"
    using begin_relay_state [of E "same_backend (hd_session h)" "qm_text m" h] by simp
  note row = next_dispatchable_row [OF assms(2)]
  have "same_settings s (hd_session h1)" by (simp add: same_settings_def h1 s_def)
  then have launch1: "\<not> launch_settings_changed_while_live (en_json E) (hd_session h1)"
    using assms(6) launch_settings_frame s_def by blast
  have "host_ok h1" "\<not> retry_pending h1" "as_queue (hd_session h1) \<noteq> []"
    using assms(1,9) row(1) by (auto simp: h1 retry_pending_def)
  from complete_with_queue [OF this launch1, of t TurnStatusInterrupted None] obtain tml where
    tml: "tl_ok tml" and completed: "turn_completed_before E t TurnStatusInterrupted None h1 =
      Some (False, True, \<not> hd_parked h1, on_session turn_over
        (recorded no_sender (TurnCompleted t TurnStatusInterrupted None) tml (touched E h1)))" .
  define h2 where "h2 = on_session turn_over
      (recorded no_sender (TurnCompleted t TurnStatusInterrupted None) tml (touched E h1))"
  have s2: "hd_session h2 = turn_over (s\<lparr>as_meta := (as_meta s)\<lparr>me_moved_from := None,
      me_updated_at := en_now_secs E\<rparr>, as_timeline := tml\<rparr>)"
    by (simp add: h2_def touched_def h1 s_def)
  have "next_dispatchable (en_json E) (en_now E) (hd_session h2) = Some m"
    using assms(2) row(4) next_dispatchable_frame [of s "hd_session h2" "en_json E" "en_now E"]
    by (simp add: s2 turn_over_def same_settings_def s_def)
  note sent = send_next_some [OF this assms(3)]
  define h3 where "h3 = snd (send_next E h2)"
  have inner: "dispatch_next_queued E h2 = Some (Inr True, h3)"
    using row(3) sent by (subst dispatch_unmoved) (simp_all add: s2 turn_over_def s_def is_live_def h3_def)
  have s3: "hd_session h3 = (hd_session h2)\<lparr>as_idle_since := None, as_delivery_in_flight := Some (qm_id m)\<rparr>"
    "hd_sent h3 = hd_sent h @ [submits m s]"
    using sent by (simp_all add: h3_def) (simp add: h2_def touched_def h1 submits_def turn_over_def s_def)
  have idle: "(if \<not> hd_parked h1 then mark_resident_idle E h3 else h3) = h3"
    using s3 by (simp add: mark_resident_idle_def fully_idle_def)
  define h4 where "h4 = turn_completed_after h3"
  have s4: "hd_session h4 = (hd_session h3)\<lparr>as_turn_woken_by_control := False\<rparr>" "hd_sent h4 = hd_sent h3"
    by (simp_all add: h4_def turn_completed_after_def Let_def on_session_def)
  have "host_ok h4" using tml by (simp add: s4 s3 s2 turn_over_def)
  then obtain tml' where rec: "record_event E no_sender relay h4 = Some (recorded no_sender relay tml' h4)"
    using record_event_ok by blast
  define h5 where "h5 = on_session (set_relay_transcript (qm_id m) transcript)
      (recorded no_sender relay tml' h4)"
  have s5: "as_delivery_in_flight (hd_session h5) = Some (qm_id m)" "hd_sent h5 = hd_sent h4"
    "me_moved_from (as_meta (hd_session h5)) = None"
    by (simp_all add: h5_def set_relay_transcript_def s4 s3 s2 turn_over_def split: option.split)
  have "abandoned_turn (as_timeline (hd_session h1)) = Some t" using assms(8) by (simp add: h1)
  then have "dispatch_next_queued E h = Some (send_next E h5)"
    using row(3,4) moved_handoff_some [OF assms(2,5,6)] assms(7) relay completed inner idle rec
    by (subst dispatch_next_queued.simps)
      (simp add: h2_def [symmetric] h4_def [symmetric] h5_def)
  then show ?thesis
    using send_next_in_flight [of h5 E] s5 s4 s3 assms(4)
    by (simp add: submits_def wire_text_def s_def)
qed

subsection \<open>A message is recorded when it is accepted\<close>

text \<open>
  C13: The provider's acceptance of the message in flight takes it off the queue, marks the turn and logs
  it once, under its own author and origin; a repeated acceptance changes nothing.
\<close>

theorem accepted_message_is_recorded_once:
  assumes "host_ok h" "as_delivery_in_flight (hd_session h) = Some (qm_id m)"
    "m \<in> set (as_queue (hd_session h))" "distinct (queue_ids (hd_session h))"
  shows "\<exists>h'. on_turn_accepted E uuid (qm_id m) h = Some h'
    \<and> hd_recorded h' = hd_recorded h @
        (qm_author m, Some (qm_origin m), ItemCompleted (user_item uuid m)) #
        (case qm_context_window_changed m of
           Some window \<Rightarrow> [(None, None, ContextWindowChanged window)] | None \<Rightarrow> [])
    \<and> as_turn_in_flight (hd_session h') \<and> as_delivery_in_flight (hd_session h') = None
    \<and> as_queue (hd_session h') = filter (\<lambda>x. qm_id x \<noteq> qm_id m) (as_queue (hd_session h))
    \<and> (\<forall>uuid'. on_turn_accepted E uuid' (qm_id m) h' = Some h')"
proof -
  define s where "s = hd_session h"
  obtain ys zs where q: "as_queue s = ys @ m # zs" using assms(3) split_list s_def by metis
  note pos = row_position(1) [OF assms(4) [folded s_def] q]
    and others = row_position(2) [OF assms(4) [folded s_def] q]
  define s1 where "s1 = snd (accept_turn_delivery (qm_id m) s)"
  have acc: "accept_turn_delivery (qm_id m) s = (Some m, s1)"
    and s1: "as_delivery_in_flight s1 = None" "as_turn_in_flight s1" "as_queue s1 = ys @ zs"
      "as_timeline s1 = as_timeline s"
    using pos q assms(2) by (simp_all add: s1_def accept_turn_delivery_def Let_def remove_at_def s_def)
  have filtered: "filter (\<lambda>x. qm_id x \<noteq> qm_id m) (as_queue s) = ys @ zs"
    using others q by (simp add: filter_id_conv)
  define sender where "sender = \<lparr>sn_delivery_key = None, sn_author = qm_author m, sn_origin = Some (qm_origin m)\<rparr>"
  define event where "event = (ItemCompleted (user_item uuid m) :: 'a agent_event)"
  have named: "names_sender event" by (simp add: event_def user_item_def is_user_message_def)
  have "host_ok (h\<lparr>hd_session := s1\<rparr>)" using assms(1) s1 by (simp add: s_def)
  then obtain tml where rec: "tl_ok tml"
    "record_event E sender event (h\<lparr>hd_session := s1\<rparr>)
     = Some (recorded sender event tml (h\<lparr>hd_session := s1\<rparr>))"
    using record_event_ok by blast
  define h2 where "h2 = touched E (recorded sender event tml (h\<lparr>hd_session := s1\<rparr>))"
  define h3 where "h3 = (case qm_kind m of
      Queued_Pull_Request_Wake key i \<Rightarrow> h2\<lparr>hd_acknowledged := hd_acknowledged h2 @ [(key, i, qm_text m)]\<rparr>
    | _ \<Rightarrow> h2)"
  have h3: "hd_session h3 = hd_session h2" "hd_recorded h3 = hd_recorded h2"
    by (simp_all add: h3_def split: queued_kind.split)
  have s2: "as_delivery_in_flight (hd_session h2) = None" "as_turn_in_flight (hd_session h2)"
    "as_queue (hd_session h2) = ys @ zs" "as_timeline (hd_session h2) = tml"
    "hd_recorded h2 = hd_recorded h @ [(qm_author m, Some (qm_origin m), event)]"
    using s1 named by (simp_all add: h2_def touched_def sender_def)
  have accepted: "on_turn_accepted E uuid (qm_id m) h = (case qm_context_window_changed m of
      Some window \<Rightarrow> record_event E no_sender (ContextWindowChanged window) h3 | None \<Rightarrow> Some h3)"
    using acc rec(2) by (simp add: on_turn_accepted_def s_def sender_def [symmetric] event_def [symmetric]
        touched_def [symmetric] h2_def [symmetric] h3_def [symmetric])
  have "host_ok h3" using rec(1) s2 h3 by simp
  then obtain h4 where h4: "on_turn_accepted E uuid (qm_id m) h = Some h4"
    "as_delivery_in_flight (hd_session h4) = None" "as_turn_in_flight (hd_session h4)"
    "as_queue (hd_session h4) = ys @ zs"
    "hd_recorded h4 = hd_recorded h @ (qm_author m, Some (qm_origin m), event) #
        (case qm_context_window_changed m of
           Some window \<Rightarrow> [(None, None, ContextWindowChanged window)] | None \<Rightarrow> [])"
  proof (cases "qm_context_window_changed m")
    case None
    then show ?thesis using that [of h3] accepted s2 h3 by simp
  next
    case (Some window)
    obtain tml' where "record_event E no_sender (ContextWindowChanged window) h3
        = Some (recorded no_sender (ContextWindowChanged window) tml' h3)"
      using record_event_ok [OF \<open>host_ok h3\<close>] by blast
    then show ?thesis
      using that [of "recorded no_sender (ContextWindowChanged window) tml' h3"] accepted s2 h3 Some by simp
  qed
  have "on_turn_accepted E uuid' (qm_id m) h4 = Some h4" for uuid'
    using h4(2) by (simp add: on_turn_accepted_def accept_turn_delivery_def)
  with h4 filtered show ?thesis unfolding event_def s_def by (intro exI [of _ h4]) simp
qed

subsection \<open>Sending a message\<close>

text \<open>\<open>send_turn_assembled\<close> and \<open>queue_automatic_turn\<close> end alike once the message is queued.\<close>

definition send_queued :: "'j surroundings \<Rightarrow> 'j hosted \<Rightarrow> 'j hosted option" where
  "send_queued E h2 = (
     let s2 = hd_session h2;
         restart_deferred = settings_restart_deferred (en_json E) s2;
         h3 = (if launch_settings_changed_while_live (en_json E) s2 \<and> \<not> restart_deferred
           then shut_down E h2 else h2);
         should_start = (as_runtime (hd_session h3) = Run_Idle)
     in do {
       h \<leftarrow> (if restart_deferred then Some h3 else map_option snd (dispatch_next_queued E h3));
       (if should_start then ensure_session_started h else Some h) })"

definition refuses_send :: "'j active_session \<Rightarrow> bool" where
  "refuses_send s \<longleftrightarrow> conversation_read_only (as_meta s) \<or> relay_unconfirmed s
     \<or> as_draft s \<and> \<not> as_preparing_worktree s \<and> as_draft_workspace s \<noteq> Local_Checkout"

definition with_message ::
  "'j surroundings \<Rightarrow> sender \<Rightarrow> string \<Rightarrow> attachment list \<Rightarrow> 'j hosted \<Rightarrow> 'j hosted" where
  "with_message E sender txt attachments h = (
     let h1 = on_meta (reactivate (en_now_secs E) (sn_origin sender)) (on_session (\<lambda>s. s\<lparr>as_draft := False\<rparr>) h)
     in h1\<lparr>hd_session := stamp_sender sender (stamp_context_window_change (en_json E) (en_default_window E)
          (snd (push_queued (en_json E) txt attachments (hd_session h1))))\<rparr>)"

lemma send_turn_eq:
  "send_turn_assembled E sender txt attachments h =
     (if refuses_send (hd_session h) then Some h else send_queued E (with_message E sender txt attachments h))"
  by (simp add: send_turn_assembled_def refuses_send_def send_queued_def with_message_def Let_def)

lemma not_live_settings: "\<not> is_live s \<Longrightarrow> \<not> launch_settings_changed_while_live J s"
  by (simp add: launch_settings_changed_while_live_def model_changed_while_live_def
      options_changed_while_live_def cwd_changed_while_live_def)

lemma shut_down_idle [simp]: "as_runtime (hd_session (shut_down E h)) = Run_Idle"
  by (simp add: shut_down_def shutdown_to_idle_def)

lemma dispatch_asleep:
  assumes "\<not> is_live (hd_session h)"
  shows "dispatch_next_queued E h = Some (Inr False, h)"
  using assms by (subst dispatch_next_queued.simps) simp

lemma send_queued_cases:
  assumes "send_queued E h2 = Some h'"
  obtains (deferred) "settings_restart_deferred (en_json E) (hd_session h2)" "h' = h2"
  | (starting) h3 where "h3 = h2 \<or> h3 = shut_down E h2" "as_runtime (hd_session h3) = Run_Idle"
      "ensure_session_started h3 = Some h'"
  | (dispatched) r where "\<not> launch_settings_changed_while_live (en_json E) (hd_session h2)"
      "dispatch_next_queued E h2 = Some (r, h')"
proof (cases "settings_restart_deferred (en_json E) (hd_session h2)")
  case True
  then have "is_live (hd_session h2)"
    using not_live_settings unfolding settings_restart_deferred_def by blast
  with True show thesis using deferred assms by (simp add: send_queued_def is_live_def)
next
  case False
  define h3 where "h3 = (if launch_settings_changed_while_live (en_json E) (hd_session h2)
    then shut_down E h2 else h2)"
  have sent: "send_queued E h2 = Option.bind (map_option snd (dispatch_next_queued E h3))
      (\<lambda>h. if as_runtime (hd_session h3) = Run_Idle then ensure_session_started h else Some h)"
    using False by (simp add: send_queued_def h3_def)
  show thesis
  proof (cases "as_runtime (hd_session h3) = Run_Idle")
    case True
    then have "dispatch_next_queued E h3 = Some (Inr False, h3)"
      by (intro dispatch_asleep) (simp add: is_live_def)
    with True show thesis using starting [of h3] assms sent by (auto simp: h3_def)
  next
    case awake: False
    then have "\<not> launch_settings_changed_while_live (en_json E) (hd_session h2)" "h3 = h2"
      by (auto simp: h3_def split: if_splits)
    with awake show thesis using dispatched assms sent by auto
  qed
qed

lemma send_queued_returns:
  assumes "host_ok h2" "hd_generation h2 \<noteq> - 1"
  shows "\<exists>h'. send_queued E h2 = Some h'"
proof -
  define h3 where "h3 = (if launch_settings_changed_while_live (en_json E) (hd_session h2)
      \<and> \<not> settings_restart_deferred (en_json E) (hd_session h2) then shut_down E h2 else h2)"
  have h3: "host_ok h3" "hd_generation h3 \<noteq> - 1" using assms by (simp_all add: h3_def)
  obtain r h4 where "dispatch_next_queued E h3 = Some (r, h4)" using dispatch_returns [OF h3] by blast
  moreover have "h4 = h3" if "as_runtime (hd_session h3) = Run_Idle"
    using calculation dispatch_asleep [of h3 E] that by (simp add: is_live_def)
  moreover have "h3 = h2" if "settings_restart_deferred (en_json E) (hd_session h2)"
    using that by (simp add: h3_def)
  moreover obtain h5 where "ensure_session_started h3 = Some h5" using start_returns [OF h3(2)] by blast
  moreover have "send_queued E h2 = Option.bind
      (if settings_restart_deferred (en_json E) (hd_session h2) then Some h3
       else map_option snd (dispatch_next_queued E h3))
      (\<lambda>h. if as_runtime (hd_session h3) = Run_Idle then ensure_session_started h else Some h)"
    unfolding send_queued_def Let_def h3_def by simp
  ultimately show ?thesis by auto
qed

lemma send_queued_keeps:
  assumes "send_queued E h2 = Some h'"
  shows "map row_of (as_queue (hd_session h')) = map row_of (as_queue (hd_session h2))"
    "as_pending_steers (hd_session h') = as_pending_steers (hd_session h2)"
proof -
  have "map row_of (as_queue (hd_session h')) = map row_of (as_queue (hd_session h2))
    \<and> as_pending_steers (hd_session h') = as_pending_steers (hd_session h2)"
    using assms
  proof (cases rule: send_queued_cases)
    case deferred
    then show ?thesis by simp
  next
    case (starting h3)
    then show ?thesis using started_frame(2,6) [OF starting(3)] by auto
  next
    case (dispatched r)
    then show ?thesis using rows.dispatch_keeps steers.dispatch_keeps by blast
  qed
  then show "map row_of (as_queue (hd_session h')) = map row_of (as_queue (hd_session h2))"
    "as_pending_steers (hd_session h') = as_pending_steers (hd_session h2)" by simp_all
qed

lemma started_not_live:
  assumes "ensure_session_started h = Some h'" "as_runtime (hd_session h) = Run_Idle"
  shows "\<not> is_live (hd_session h')"
  using assms by (auto simp: ensure_session_started_def Let_def is_live_def split: if_splits)

lemma with_message_settings: "same_settings (hd_session h) (hd_session (with_message E sender txt attachments h))"
  by (simp add: with_message_def Let_def same_settings_def stamp_sender_def stamp_context_window_change_def push_queued_def
      reactivate_def)

text \<open>
  C7: A send after a change of the thread's model, directory or launch options submits nothing: it sends
  the old provider nothing but its shutdown, after which no provider is live, or nothing at all while
  the restart has to wait. So whatever a send submits goes to a provider that was live before the send
  with the thread's current settings, and is live with them after it.
\<close>

theorem sent_messages_meet_their_settings:
  assumes "send_turn_assembled E sender txt attachments h = Some h'" "hd_sent h' = hd_sent h @ sent"
  shows "(launch_settings_changed_while_live (en_json E) (hd_session h) \<longrightarrow>
      sent = [] \<or> sent = [Cmd_Shutdown] \<and> \<not> is_live (hd_session h'))
    \<and> (Cmd_Send_Turn i t opts atts \<in> set sent \<longrightarrow>
      is_live (hd_session h) \<and> \<not> launch_settings_changed_while_live (en_json E) (hd_session h)
      \<and> is_live (hd_session h') \<and> \<not> launch_settings_changed_while_live (en_json E) (hd_session h'))"
proof (cases "refuses_send (hd_session h)")
  case True
  then show ?thesis using assms by (simp add: send_turn_eq)
next
  case False
  define h2 where "h2 = with_message E sender txt attachments h"
  have same: "hd_sent h2 = hd_sent h" by (simp add: h2_def with_message_def Let_def)
  have settings: "same_settings (hd_session h) (hd_session h2)" by (simp add: h2_def with_message_settings)
  then have as_before: "launch_settings_changed_while_live (en_json E) (hd_session h2)
      = launch_settings_changed_while_live (en_json E) (hd_session h)" "is_live (hd_session h2) = is_live (hd_session h)"
    using launch_settings_frame by (blast, simp add: same_settings_def is_live_def)
  have "send_queued E h2 = Some h'" using assms(1) False by (simp add: send_turn_eq h2_def)
  then show ?thesis
  proof (cases rule: send_queued_cases)
    case deferred
    then show ?thesis using assms(2) same by simp
  next
    case (starting h3)
    have "hd_sent h3 = hd_sent h2 \<or> hd_sent h3 = hd_sent h2 @ [Cmd_Shutdown]"
      using starting(1) by (auto simp: shut_down_def shutdown_to_idle_def)
    moreover have "\<not> is_live (hd_session h')" using started_not_live [OF starting(3,2)] .
    ultimately show ?thesis using assms(2) same started_frame(4) [OF starting(3)] by auto
  next
    case (dispatched r)
    then have "current_settings E (hd_session h2) h2" by (simp add: current_settings_def)
    then have current: "current_settings E (hd_session h2) h'"
      using current.dispatch_keeps [OF dispatched(2)] by blast
    then have "is_live (hd_session h') = is_live (hd_session h2)"
      by (simp add: current_settings_def same_settings_def is_live_def)
    moreover have "hd_sent h' = hd_sent h2" if "\<not> is_live (hd_session h2)"
      using dispatch_asleep [OF that, of E] dispatched(2) by simp
    ultimately show ?thesis
      using current launch_settings_frame dispatched(1) as_before assms(2) same by (auto simp: current_settings_def)
  qed
qed

text \<open>
  C24: A rejected steer that is among the pending ones is queued again, where the thread takes messages:
  its text and attachments become a message of the same author and origin behind what already waits,
  and it no longer counts as a steer. The thread takes messages while no hand-over waits for its
  confirmation and it is neither a draft nor a mirror of a native subagent. (The timeline is
  well-formed and the counter of session generations is not exhausted.)
\<close>

theorem rejected_steer_is_queued_again:
  assumes "host_ok h" "hd_generation h \<noteq> - 1"
    "position (\<lambda>p. ps_request_id p = rid) (as_pending_steers (hd_session h)) = Some k"
    "p = as_pending_steers (hd_session h) ! k" "as_pending_relay (hd_session h) = None"
    "\<not> as_draft (hd_session h)" "\<not> conversation_read_only (as_meta (hd_session h))"
  shows "\<exists>h' m. on_steer_rejected E rid h = Some h'
    \<and> map row_of (as_queue (hd_session h')) = map row_of (as_queue (hd_session h) @ [m])
    \<and> qm_text m = ps_text p \<and> qm_attachments m = ps_attachments p \<and> qm_author m = ps_author p
    \<and> qm_origin m = (case ps_origin p of Some origin \<Rightarrow> origin | None \<Rightarrow> Human)
    \<and> as_pending_steers (hd_session h') = remove_at k (as_pending_steers (hd_session h))"
proof -
  obtain tml where rec: "tl_ok tml"
    "record_event E no_sender (SteerRejected rid) h = Some (recorded no_sender (SteerRejected rid) tml h)"
    using record_event_ok [OF assms(1)] by blast
  define steers where "steers = as_pending_steers (hd_session h)"
  define g where "g = on_session (\<lambda>s. s\<lparr>as_pending_steers := remove_at k steers\<rparr>)
      (recorded no_sender (SteerRejected rid) tml h)"
  define sender where "sender = \<lparr>sn_delivery_key = None, sn_author = ps_author p, sn_origin = ps_origin p\<rparr>"
  define h2 where "h2 = with_message E sender (ps_text p) (ps_attachments p) g"
  have "\<not> refuses_send (hd_session g)"
    using assms(5-7) by (simp add: refuses_send_def g_def relay_unconfirmed_def)
  then have sent: "on_steer_rejected E rid h = send_queued E h2"
    using assms(3,4) rec(2) by (simp add: on_steer_rejected_def Let_def g_def steers_def sender_def h2_def send_turn_eq)
  have h2: "as_pending_steers (hd_session h2) = remove_at k steers" "hd_generation h2 = hd_generation h"
    "as_timeline (hd_session h2) = tml"
    by (simp_all add: h2_def with_message_def Let_def stamp_sender_def stamp_context_window_change_def
        push_queued_def g_def)
  have "\<exists>m. as_queue (hd_session h2) = as_queue (hd_session h) @ [m] \<and> qm_text m = ps_text p
      \<and> qm_attachments m = ps_attachments p \<and> qm_author m = ps_author p
      \<and> qm_origin m = (case ps_origin p of Some origin \<Rightarrow> origin | None \<Rightarrow> Human)"
    by (auto simp: h2_def with_message_def Let_def stamp_sender_def stamp_context_window_change_def
        push_queued_def g_def sender_def update_last_def split: option.split)
  then obtain m where m: "as_queue (hd_session h2) = as_queue (hd_session h) @ [m]" "qm_text m = ps_text p"
    "qm_attachments m = ps_attachments p" "qm_author m = ps_author p"
    "qm_origin m = (case ps_origin p of Some origin \<Rightarrow> origin | None \<Rightarrow> Human)" by blast
  obtain h' where "send_queued E h2 = Some h'"
    using send_queued_returns [of h2 E] h2 rec(1) assms(2) by auto
  then show ?thesis
    using send_queued_keeps [of E h2 h'] sent m h2(1) steers_def by auto
qed

text \<open>
  A steer that carries a callback of another thread is not kept among the pending steers, so when the
  provider rejects it nothing is queued and the callback is gone.
\<close>

theorem rejected_callback_is_dropped:
  assumes "host_ok h" "as_turn_in_flight (hd_session h)" "can_steer (hd_session h)" "en_accepts E"
    "rid = steer_request_id uuid key"
    "rid \<notin> ps_request_id ` set (as_pending_steers (hd_session h))"
  shows "\<exists>h1 h2. deliver_callback E uuid key txt h = Some h1
    \<and> hd_sent h1 = hd_sent h @ [Cmd_Steer rid txt []]
    \<and> on_steer_rejected E rid h1 = Some h2 \<and> hd_sent h2 = hd_sent h1
    \<and> as_queue (hd_session h2) = as_queue (hd_session h)
    \<and> as_pending_steers (hd_session h2) = as_pending_steers (hd_session h)"
proof -
  define sender where "sender = \<lparr>sn_delivery_key = key, sn_author = None, sn_origin = Some Agent\<rparr>"
  define g where "g = on_meta (reactivate (en_now_secs E) (Some Agent)) h"
  obtain tml where rec: "tl_ok tml" "record_event E sender (SteerRequested rid txt []) g
      = Some (recorded sender (SteerRequested rid txt []) tml g)"
    using record_event_returns [of g E sender "SteerRequested rid txt []"] assms(1) by (auto simp: g_def)
  define h1 where "h1 = snd (steer_into_turn E rid txt [] (recorded sender (SteerRequested rid txt []) tml g))"
  have live: "is_live (hd_session h)" using assms(3) by (simp add: can_steer_def)
  have "deliver_callback E uuid key txt h = Some h1"
    using assms(2,3,5) rec(2)
    by (simp add: deliver_callback_def record_steer_request_def sender_def g_def h1_def attachment_paths_def
        Let_def map_filter_simps)
  moreover have h1: "hd_sent h1 = hd_sent h @ [Cmd_Steer rid txt []]"
    "as_queue (hd_session h1) = as_queue (hd_session h)"
    "as_pending_steers (hd_session h1) = as_pending_steers (hd_session h)"
    "as_timeline (hd_session h1) = tml"
    using live assms(4) by (simp_all add: h1_def steer_into_turn_def steer_now_def g_def is_live_def Let_def)
  moreover obtain tml' where rejected: "record_event E no_sender (SteerRejected rid) h1
      = Some (recorded no_sender (SteerRejected rid) tml' h1)"
    using record_event_returns [of h1 E no_sender "SteerRejected rid"] rec(1) h1(4) by auto
  have "position (\<lambda>p. ps_request_id p = rid) (as_pending_steers (hd_session h1)) = None"
    using assms(6) by (auto simp: position_None_iff h1(3))
  then have "on_steer_rejected E rid h1 = Some (recorded no_sender (SteerRejected rid) tml' h1)"
    using rejected by (simp add: on_steer_rejected_def Let_def)
  ultimately show ?thesis using h1 by auto
qed

subsection \<open>A provider that must be restarted first\<close>

text \<open>
  When the retry of an overloaded turn is given up, the next message is submitted at once, also to a
  provider that was started with another model, directory or options than the thread now has.
\<close>

theorem cleared_retry_skips_the_restart:
  assumes "host_ok h" "is_live (hd_session h)" "as_delivery_in_flight (hd_session h) = None"
    "as_background_task_count (hd_session h) = 0" "en_accepts E"
    "me_moved_from (as_meta (hd_session h)) = None"
    "find (due (en_now E)) (as_queue (hd_session h)) = Some m"
    "launch_settings_changed_while_live (en_json E) (hd_session h)"
  shows "\<exists>h'. on_turn_retry E None h = Some h'
    \<and> hd_sent h' = hd_sent h @ [submits m (hd_session h)]
    \<and> launch_settings_changed_while_live (en_json E) (hd_session h')"
proof -
  define g where "g = on_session retry_given_up h"
  obtain tml where rec: "record_event E no_sender (TurnRetry None) g
      = Some (recorded no_sender (TurnRetry None) tml g)"
    using record_event_returns [of g E no_sender "TurnRetry None"] assms(1) by (auto simp: g_def retry_given_up_def)
  define h1 where "h1 = recorded no_sender (TurnRetry None) tml g"
  have "next_dispatchable (en_json E) (en_now E) (hd_session h1) = Some m"
    using assms(2,3,4,7)
    by (simp add: next_dispatchable_def settings_restart_deferred_def h1_def g_def retry_given_up_def is_live_def)
  note sent = send_next_some [OF this assms(5)]
  have "dispatch_next_queued E h1 = Some (send_next E h1)"
    using assms(2,6) by (intro dispatch_unmoved) (simp_all add: h1_def g_def retry_given_up_def is_live_def)
  then have "on_turn_retry E None h = Some (snd (send_next E h1))"
    using rec by (simp add: on_turn_retry_def g_def [symmetric] h1_def [symmetric] sent)
  moreover have "same_settings (hd_session h) (hd_session (snd (send_next E h1)))"
    by (simp add: send_next_frame) (simp add: h1_def g_def retry_given_up_def same_settings_def)
  then have "launch_settings_changed_while_live (en_json E) (hd_session (snd (send_next E h1)))"
    using assms(8) launch_settings_frame by blast
  ultimately show ?thesis using sent by (auto simp: h1_def g_def retry_given_up_def submits_def)
qed

text \<open>A message held back for background work is not sent, nor its provider restarted, when that work ends.\<close>

lemma background_end_sends_nothing:
  assumes "as_queue (hd_session h) \<noteq> []"
  shows "on_background_tasks E 0 h = on_session (\<lambda>s. s\<lparr>as_background_task_count := 0\<rparr>) h"
  using assms by (simp add: on_background_tasks_def Let_def on_session_def)

subsection \<open>Watches\<close>

text \<open>
  A turn that a callback of the control surface opened, with no user steer since, wakes no watch when it
  ends; any other turn wakes the watches on a completed turn and on idleness.
\<close>

theorem callback_turns_wake_no_watch:
  assumes "on_turn_completed E t status usage h = Some h'" "\<not> retry_pending h"
    "me_moved_from (as_meta (hd_session h)) = None"
  shows "hd_fired h' = hd_fired h @
    (if as_turn_woken_by_control (hd_session h) then [] else [Watch_Turn_Completed, Watch_Idle])"
proof -
  obtain retry d i h1 where completed: "turn_completed_before E t status usage h = Some (retry, d, i, h1)"
    using assms(1) by (auto simp: on_turn_completed_def split: bind_splits)
  have "\<not> retry"
  proof -
    obtain g where g: "record_event E no_sender (TurnCompleted t status usage) (touched E h) = Some g"
      using completed by (auto simp: turn_completed_before_def touched_def split: bind_splits)
    then have "tl_turn_retry (as_timeline (hd_session g)) = tl_turn_retry (as_timeline (hd_session h))"
      using turn_completed_retry by (auto simp: record_event_eq)
    then have "\<not> retry_pending g" using assms(2) by (simp add: retry_pending_def)
    then show ?thesis using completed g
      by (auto simp: turn_completed_before_def touched_def [symmetric] Let_def split: bind_splits)
  qed
  then obtain h2 where h2: "(if d then map_option snd (dispatch_next_queued E h1) else Some h1) = Some h2"
    "h' = turn_completed_after (if i then mark_resident_idle E h2 else h2)"
    using assms(1) completed by (auto simp: on_turn_completed_def split: bind_splits)
  have unmoved: "me_moved_from (as_meta (hd_session h1)) = None"
    using turn_completed_moved_from [OF completed] assms(3) by simp
  have "dispatch_next_queued E h1 = Some (Inr False, h1) \<or> dispatch_next_queued E h1 = Some (send_next E h1)"
    using unmoved by (subst (1 2) dispatch_next_queued.simps) (simp add: moved_handoff_message_def)
  then have "h2 = h1 \<or> h2 = snd (send_next E h1)" using h2(1) by (auto split: if_splits)
  then have "hd_fired h2 = hd_fired h1"
    "as_turn_woken_by_control (hd_session h2) = as_turn_woken_by_control (hd_session h1)"
    by (auto simp: send_next_frame)
  then show ?thesis
    using h2(2) completed_frame(2,3) [OF completed] by (simp add: turn_completed_after_def Let_def)
qed

lemma accepted_callback_wakes:
  assumes "as_delivery_in_flight s = Some i" "accept_turn_delivery i s = (Some m, s')"
  shows "as_turn_woken_by_control s' \<longleftrightarrow>
    qm_kind m = Queued_Orchestrate_Callback \<and> is_control_callback (qm_text m)"
  using assms by (auto simp: accept_turn_delivery_def Let_def split: option.splits)

subsection \<open>A message sent to a sleeping session\<close>

lemma reactivate_frame [simp]:
  "me_provider (reactivate t origin m) = me_provider m" "me_model (reactivate t origin m) = me_model m"
  "me_cwd (reactivate t origin m) = me_cwd m"
  "me_option_selections (reactivate t origin m) = me_option_selections m"
  "me_moved_from (reactivate t origin m) = me_moved_from m"
  by (simp_all add: reactivate_def Let_def)

definition as_started :: "'j active_session \<Rightarrow> bool" where
  "as_started s \<longleftrightarrow> as_live_model s = me_model (as_meta s) \<and> as_live_cwd s = me_cwd (as_meta s)
     \<and> as_live_option_selections s = me_option_selections (as_meta s)"

lemma as_started_current:
  assumes "as_started s"
  shows "\<not> launch_settings_changed_while_live J s"
  using assms
  by (simp add: launch_settings_changed_while_live_def model_changed_while_live_def
      options_changed_while_live_def cwd_changed_while_live_def as_started_def Let_def split: option.split)

lemma as_started_permission:
  assumes "as_started s"
  shows "pending_permission s = []"
  using assms by (simp add: pending_permission_def as_started_def Let_def split: option.split)

text \<open>A provider that has just been started is ready for the first message that is due.\<close>

lemma ready_sends:
  assumes "as_started (hd_session h)" "as_delivery_in_flight (hd_session h) = None"
    "\<not> as_turn_in_flight (hd_session h)" "as_requested_command (hd_session h) = None" "hd_rewind h = None"
    "me_moved_from (as_meta (hd_session h)) = None" "en_accepts E"
    "find (due (en_now E)) (as_queue (hd_session h)) = Some m"
  shows "\<exists>h'. provider_ready E h = Some h' \<and> hd_sent h' = hd_sent h @ [submits m (hd_session h)]
    \<and> as_delivery_in_flight (hd_session h') = Some (qm_id m)"
proof -
  define g where "g = provider_started E h"
  have g: "hd_session g = (hd_session h)\<lparr>as_runtime := Run_Live\<rparr>" "hd_sent g = hd_sent h"
    "hd_rewind g = None" "hd_parked g = hd_parked h"
    using assms(1,5) as_started_permission [of "(hd_session h)\<lparr>as_runtime := Run_Live\<rparr>"]
    by (auto simp: g_def provider_started_def Let_def as_started_def)
  have current: "\<not> launch_settings_changed_while_live (en_json E) (hd_session g)"
    using assms(1) by (intro as_started_current) (simp add: g as_started_def)
  have ready: "dispatch_next_queued E k = Some (send_next E k)" "send_next E k =
      (Inr True, send_out ([submits m (hd_session h)],
        (hd_session k)\<lparr>as_idle_since := None, as_delivery_in_flight := Some (qm_id m)\<rparr>) k)"
    if "k = g \<or> k = on_session (\<lambda>s. s\<lparr>as_turn_in_flight := False\<rparr>) g" for k
  proof -
    have "same_settings (hd_session g) (hd_session k)" using that by (auto simp: same_settings_def)
    then have "\<not> launch_settings_changed_while_live (en_json E) (hd_session k)"
      using current launch_settings_frame by blast
    then have "next_dispatchable (en_json E) (en_now E) (hd_session k) = Some m"
      using that g assms(2,3,8)
      by (auto simp: next_dispatchable_def is_live_def settings_restart_deferred_def)
    from send_next_some [OF this assms(7)]
    show "send_next E k = (Inr True, send_out ([submits m (hd_session h)],
        (hd_session k)\<lparr>as_idle_since := None, as_delivery_in_flight := Some (qm_id m)\<rparr>) k)"
      using that g by (auto simp: submits_def)
    show "dispatch_next_queued E k = Some (send_next E k)"
      using that g assms(3,6) by (intro dispatch_unmoved) (auto simp: is_live_def)
  qed
  define k where "k = on_session (\<lambda>s. s\<lparr>as_turn_in_flight := False\<rparr>) g"
  have "as_queue (hd_session k) \<noteq> []" using assms(8) g by (auto simp: k_def)
  moreover have "\<not> launch_settings_changed_while_live (en_json E) (hd_session k)"
    using current launch_settings_frame [of "hd_session g" "hd_session k"]
    by (simp add: k_def same_settings_def)
  ultimately have "background_turn_completed E g = map_option snd (dispatch_next_queued E k)"
    by (simp add: background_turn_completed_def parked_turn_ended_def Let_def k_def [symmetric])
  then show ?thesis
    using assms(4) g ready [of g] ready [of k]
    by (simp add: provider_ready_def Let_def g_def [symmetric] k_def [symmetric]) (simp add: k_def)
qed

text \<open>
  C6: A message sent to a session with no provider starts one, and the message is the one submitted when
  that provider is ready, provided nothing stands before it: the send is not refused (a mirror of a
  native subagent, a hand-over waiting for its confirmation, a worktree still to be made), nothing
  queued earlier is due, no turn or delivery is in flight, no native command was asked for and no rewind
  is pending, the thread was not moved, a generation is left, and the provider's channel accepts.
\<close>

theorem sleeping_session_delivers:
  assumes "\<not> refuses_send (hd_session h)" "as_runtime (hd_session h) = Run_Idle"
    "find (due (en_now E)) (as_queue (hd_session h)) = None" "as_delivery_in_flight (hd_session h) = None"
    "\<not> as_turn_in_flight (hd_session h)" "as_requested_command (hd_session h) = None"
    "hd_rewind h = None" "me_moved_from (as_meta (hd_session h)) = None"
    "hd_generation h \<noteq> - 1" "en_accepts E"
  shows "\<exists>h1 h2. send_turn_assembled E sender txt attachments h = Some h1
    \<and> is_starting (as_runtime (hd_session h1)) \<and> provider_ready E h1 = Some h2
    \<and> hd_sent h2 = hd_sent h @ [Cmd_Send_Turn (as_next_queue_id (hd_session h))
        (native_skill_invocation (wire_text_with_placeholder txt attachments)
          (as_provider_commands (hd_session h)))
        (Some (current_turn_options (en_json E) (hd_session h))) attachments]
    \<and> as_delivery_in_flight (hd_session h2) = Some (as_next_queue_id (hd_session h))"
proof -
  define s where "s = hd_session h"
  define g where "g = with_message E sender txt attachments h"
  define m where "m = \<lparr>qm_id = as_next_queue_id s, qm_delivery_key = sn_delivery_key sender,
    qm_author = sn_author sender,
    qm_origin = (case sn_origin sender of Some origin \<Rightarrow> origin | None \<Rightarrow> Human), qm_text = txt,
    qm_relay_transcript = None, qm_attachments = attachments, qm_not_before = None,
    qm_options = current_turn_options (en_json E) s, qm_context_len = as_pending_context_len s,
    qm_context_window_changed = None, qm_kind = Queued_User\<rparr>"
  have g: "as_queue (hd_session g) = as_queue s @ [m]" "as_runtime (hd_session g) = Run_Idle"
    "as_delivery_in_flight (hd_session g) = None" "\<not> as_turn_in_flight (hd_session g)"
    "as_requested_command (hd_session g) = None" "me_moved_from (as_meta (hd_session g)) = None"
    "hd_sent g = hd_sent h" "hd_rewind g = None" "hd_generation g \<noteq> - 1"
    "as_provider_commands (hd_session g) = as_provider_commands s"
    using assms
    by (simp_all add: g_def with_message_def Let_def stamp_sender_def stamp_context_window_change_def
        push_queued_def is_live_def m_def s_def update_last_def current_turn_options_def split: option.split)
  then obtain h1 where h1: "ensure_session_started g = Some h1" using start_returns by blast
  have sent: "send_turn_assembled E sender txt attachments h = Some h1"
    using assms(1) g(2) h1 dispatch_asleep [of g E] not_live_settings [of "hd_session g" "en_json E"]
    by (simp add: send_turn_eq g_def [symmetric] send_queued_def Let_def is_live_def settings_restart_deferred_def)
  have s1: "as_started (hd_session h1)" "is_starting (as_runtime (hd_session h1))"
    "as_queue (hd_session h1) = as_queue s @ [m]" "as_delivery_in_flight (hd_session h1) = None"
    "\<not> as_turn_in_flight (hd_session h1)" "as_requested_command (hd_session h1) = None"
    "hd_rewind h1 = None" "me_moved_from (as_meta (hd_session h1)) = None" "hd_sent h1 = hd_sent h"
    "as_provider_commands (hd_session h1) = as_provider_commands s"
    using h1 g by (auto simp: ensure_session_started_def Let_def as_started_def)
  have "due (en_now E) m" by (simp add: due_def m_def)
  moreover have "find (due (en_now E)) (as_queue s) = None" using assms(3) by (simp add: s_def)
  ultimately have "find (due (en_now E)) (as_queue (hd_session h1)) = Some m"
    using s1(3) by (simp add: find_skip find_None_iff)
  from ready_sends [OF s1(1,4,5,6,7,8) assms(10) this] obtain h2 where
    "provider_ready E h1 = Some h2" "hd_sent h2 = hd_sent h @ [submits m (hd_session h1)]"
    "as_delivery_in_flight (hd_session h2) = Some (qm_id m)" using s1(9) by auto
  with sent s1(2,10) show ?thesis by (simp add: submits_def wire_text_def m_def s_def)
qed

subsection \<open>Examples\<close>

definition demo_env :: "unit surroundings" where
  "demo_env = \<lparr>en_json = demo_json, en_show_path = concat, en_debug = id, en_now = 5, en_instant = 5,
     en_now_secs = 5, en_now_millis = 5, en_accepts = True, en_default_window = None\<rparr>"

definition demo_events :: "unit agent_event list" where
  "demo_events = [TurnStarted ''t1'', TurnCompleted ''t1'' TurnStatusCompleted None]"

definition demo_timeline :: "unit agent_event list \<Rightarrow> unit timeline option" where
  "demo_timeline events = fold_opt (apply_at (Some 5)) events timeline_default"

lemma demo_timeline_ok: "demo_timeline events = Some tml \<Longrightarrow> tl_ok tml"
  unfolding demo_timeline_def by (rule live.run_keeps [OF tl_ok_default])

text \<open>A live session of one queued message, over any timeline.\<close>

definition demo_host :: "runtime \<Rightarrow> path option \<Rightarrow> unit timeline \<Rightarrow> unit hosted" where
  "demo_host run moved tml = \<lparr>hd_session = (new_session ((demo_meta ''a'' [] None)\<lparr>me_moved_from := moved\<rparr>) False [])
       \<lparr>as_runtime := run, as_timeline := tml, as_queue := [demo_row 0 ''one'' None], as_next_queue_id := 1\<rparr>,
     hd_parked = False, hd_rewind = None, hd_generation = 0, hd_sent = [], hd_recorded = [],
     hd_acknowledged = [], hd_fired = []\<rparr>"

lemma demo_host_session [simp]:
  "as_runtime (hd_session (demo_host run moved tml)) = run"
  "as_timeline (hd_session (demo_host run moved tml)) = tml"
  "as_queue (hd_session (demo_host run moved tml)) = [demo_row 0 ''one'' None]"
  "as_delivery_in_flight (hd_session (demo_host run moved tml)) = None"
  "as_background_task_count (hd_session (demo_host run moved tml)) = 0"
  "as_turn_in_flight (hd_session (demo_host run moved tml)) = False"
  "as_turn_woken_by_control (hd_session (demo_host run moved tml)) = False"
  "as_pending_steers (hd_session (demo_host run moved tml)) = []"
  "as_pending_relay (hd_session (demo_host run moved tml)) = None"
  "as_draft (hd_session (demo_host run moved tml)) = False"
  "as_requested_command (hd_session (demo_host run moved tml)) = None"
  "as_provider_commands (hd_session (demo_host run moved tml)) = []"
  "as_next_queue_id (hd_session (demo_host run moved tml)) = 1"
  "as_meta (hd_session (demo_host run moved tml)) = (demo_meta ''a'' [] None)\<lparr>me_moved_from := moved\<rparr>"
  "hd_sent (demo_host run moved tml) = []" "hd_fired (demo_host run moved tml) = []"
  "hd_rewind (demo_host run moved tml) = None" "hd_generation (demo_host run moved tml) = 0"
  "hd_recorded (demo_host run moved tml) = []"
  by (simp_all add: demo_host_def new_session_def)

lemma demo_env_fields [simp]:
  "en_json demo_env = demo_json" "en_now demo_env = 5" "en_accepts demo_env = True"
  by (simp_all add: demo_env_def)

lemma demo_host_current: "\<not> launch_settings_changed_while_live J (hd_session (demo_host run moved tml))"
  by (rule as_started_current) (simp add: as_started_def demo_host_def new_session_def demo_meta_def)

lemma demo_host_ready:
  "next_dispatchable demo_json 5 (hd_session (demo_host Run_Live moved tml)) = Some (demo_row 0 ''one'' None)"
  using demo_host_current [of demo_json Run_Live moved tml]
  by (simp add: next_dispatchable_def settings_restart_deferred_def is_live_def due_def demo_row_def)

lemma demo_completed:
  obtains tml where "demo_timeline demo_events = Some tml" "tl_ok tml" "has_meaningful_history tml"
    "abandoned_turn tml = None" "tl_turn_retry tml = None"
proof -
  have "map_option (\<lambda>tml. (has_meaningful_history tml, abandoned_turn tml, tl_turn_retry tml))
      (demo_timeline demo_events) = Some (True, None, None)" by code_simp
  from evaluated [OF this] obtain tml where
    "demo_timeline demo_events = Some tml" "has_meaningful_history tml" "abandoned_turn tml = None"
    "tl_turn_retry tml = None" by auto
  then show thesis using that demo_timeline_ok by blast
qed

lemma demo_interrupted:
  obtains tml where "demo_timeline (demo_events @ [TurnStarted ''t2'']) = Some tml" "tl_ok tml"
    "has_meaningful_history tml" "abandoned_turn tml = Some ''t2''" "tl_turn_retry tml = None"
proof -
  have "map_option (\<lambda>tml. (has_meaningful_history tml, abandoned_turn tml, tl_turn_retry tml))
      (demo_timeline (demo_events @ [TurnStarted ''t2''])) = Some (True, Some ''t2'', None)" by code_simp
  from evaluated [OF this] obtain tml where
    "demo_timeline (demo_events @ [TurnStarted ''t2'']) = Some tml" "has_meaningful_history tml"
    "abandoned_turn tml = Some ''t2''" "tl_turn_retry tml = None" by auto
  then show thesis using that demo_timeline_ok by blast
qed

lemma moved_thread_hands_over_witness:
  "\<exists>tml h' transcript. demo_timeline demo_events = Some tml
    \<and> dispatch_next_queued demo_env (demo_host Run_Live (Some [''old'']) tml) = Some (Inr True, h')
    \<and> length (hd_sent h') = 1 \<and> me_moved_from (as_meta (hd_session h')) = None"
proof -
  obtain tml where tml: "demo_timeline demo_events = Some tml" "tl_ok tml" "has_meaningful_history tml"
    "abandoned_turn tml = None" by (rule demo_completed)
  let ?h = "demo_host Run_Live (Some [''old'']) tml"
  obtain tr relay h1 where relay: "handover demo_env (qm_text (demo_row 0 ''one'' None)) ?h = (tr, relay, h1)"
    by (metis prod_cases3)
  have "distinct (queue_ids (hd_session ?h))" by (simp add: queue_ids_def)
  then show ?thesis
    using moved_thread_hands_over [OF _ _ _ _ _ _ _ _ relay] tml demo_host_ready demo_host_current
    by fastforce
qed

lemma open_turn_loses_the_transcript_witness:
  "\<exists>tml h'. demo_timeline (demo_events @ [TurnStarted ''t2'']) = Some tml
    \<and> dispatch_next_queued demo_env (demo_host Run_Live (Some [''old'']) tml) = Some (Inr False, h')
    \<and> hd_sent h' = [Cmd_Send_Turn 0 ''one'' (Some \<lparr>to_effort = None\<rparr>) []]"
proof -
  obtain tml where tml: "demo_timeline (demo_events @ [TurnStarted ''t2'']) = Some tml" "tl_ok tml"
    "has_meaningful_history tml" "abandoned_turn tml = Some ''t2''" "tl_turn_retry tml = None"
    by (rule demo_interrupted)
  let ?h = "demo_host Run_Live (Some [''old'']) tml"
  have "\<not> retry_pending ?h" using tml(5) by (simp add: retry_pending_def)
  then obtain h' where "dispatch_next_queued demo_env ?h = Some (Inr False, h')"
    "hd_sent h' = [Cmd_Send_Turn 0 (native_skill_invocation (wire_text_with_placeholder ''one'' []) [])
      (Some \<lparr>to_effort = None\<rparr>) []]"
    using open_turn_loses_the_transcript [of ?h demo_env "demo_row 0 ''one'' None" "''t2''"] tml
      demo_host_ready [of "Some [''old'']" tml] demo_host_current [of demo_json Run_Live "Some [''old'']" tml]
    by (auto simp: demo_row_def)
  with tml(1) show ?thesis
    by (simp add: native_skill_invocation_def wire_text_with_placeholder_def strip_prefix_def is_blank_def
        starts_with_def)
qed

lemma accepted_message_is_recorded_once_witness:
  "\<exists>h'. on_turn_accepted demo_env ''u'' 0
      (on_session (\<lambda>s. s\<lparr>as_delivery_in_flight := Some 0\<rparr>) (demo_host Run_Live None timeline_default)) = Some h'
    \<and> length (hd_recorded h') = 1 \<and> as_queue (hd_session h') = []
    \<and> on_turn_accepted demo_env ''v'' 0 h' = Some h'"
proof -
  let ?h = "on_session (\<lambda>s. s\<lparr>as_delivery_in_flight := Some 0\<rparr>) (demo_host Run_Live None timeline_default)"
  have "qm_id (demo_row 0 ''one'' None) = 0" by (simp add: demo_row_def)
  then show ?thesis
    using accepted_message_is_recorded_once [of ?h "demo_row 0 ''one'' None" demo_env "''u''"]
    by (auto simp: queue_ids_def demo_row_def)
qed

lemma sent_messages_meet_their_settings_witness:
  "\<exists>h'. send_turn_assembled demo_env no_sender ''two'' [] (demo_host Run_Live None timeline_default) = Some h'
    \<and> length (hd_sent h') = 1 \<and> \<not> launch_settings_changed_while_live demo_json (hd_session h')"
proof -
  let ?h = "demo_host Run_Live None timeline_default"
  have "map_option hd_sent (send_turn_assembled demo_env no_sender ''two'' [] ?h)
    = Some [Cmd_Send_Turn 0 ''one'' (Some \<lparr>to_effort = None\<rparr>) []]" by code_simp
  from evaluated [OF this] obtain h' where
    "send_turn_assembled demo_env no_sender ''two'' [] ?h = Some h'"
    "hd_sent h' = [Cmd_Send_Turn 0 ''one'' (Some \<lparr>to_effort = None\<rparr>) []]" by auto
  with sent_messages_meet_their_settings [OF this(1), of "hd_sent h'" 0 "''one''" "Some \<lparr>to_effort = None\<rparr>" "[]"] show ?thesis by simp
qed

definition demo_steer :: pending_steer where
  "demo_steer = \<lparr>ps_request_id = ''r'', ps_text = ''look here'', ps_attachments = [],
     ps_author = None, ps_origin = Some Human\<rparr>"

lemma rejected_steer_is_queued_again_witness:
  "\<exists>h'. on_steer_rejected demo_env ''r'' (on_session (\<lambda>s. s\<lparr>as_turn_in_flight := True,
      as_pending_steers := [demo_steer]\<rparr>) (demo_host Run_Live None timeline_default)) = Some h'
    \<and> map qm_text (as_queue (hd_session h')) = [''one'', ''look here'']
    \<and> as_pending_steers (hd_session h') = []"
proof -
  let ?h = "on_session (\<lambda>s. s\<lparr>as_turn_in_flight := True, as_pending_steers := [demo_steer]\<rparr>)
    (demo_host Run_Live None timeline_default)"
  obtain h' m where h': "on_steer_rejected demo_env ''r'' ?h = Some h'"
    "map row_of (as_queue (hd_session h')) = map row_of [demo_row 0 ''one'' None, m]"
    "qm_text m = ''look here''" "as_pending_steers (hd_session h') = []"
    using rejected_steer_is_queued_again [of ?h "''r''" 0 demo_steer demo_env]
    by (auto simp: demo_steer_def conversation_read_only_def demo_meta_def remove_at_def)
  have "map qm_text (map row_of q) = map qm_text q" for q by (simp add: row_of_def)
  with h'(2) have "map qm_text (as_queue (hd_session h')) = map qm_text [demo_row 0 ''one'' None, m]" by metis
  with h' show ?thesis by (auto simp: demo_row_def)
qed

lemma rejected_callback_is_dropped_witness:
  "\<exists>h1 h2. deliver_callback demo_env ''u'' None ''[control] done''
      (on_session (\<lambda>s. s\<lparr>as_turn_in_flight := True\<rparr>) (demo_host Run_Live None timeline_default)) = Some h1
    \<and> hd_sent h1 = [Cmd_Steer ''local-steer-u'' ''[control] done'' []]
    \<and> on_steer_rejected demo_env ''local-steer-u'' h1 = Some h2
    \<and> map qm_text (as_queue (hd_session h2)) = [''one'']"
  using rejected_callback_is_dropped [of "on_session (\<lambda>s. s\<lparr>as_turn_in_flight := True\<rparr>)
      (demo_host Run_Live None timeline_default)" demo_env "''local-steer-u''" "''u''" None "''[control] done''"]
  by (auto simp: steer_request_id_def can_steer_def is_live_def demo_meta_def demo_row_def)

lemma cleared_retry_skips_the_restart_witness:
  "\<exists>h'. on_turn_retry demo_env None (on_session (\<lambda>s. s\<lparr>as_live_model := Some ''old''\<rparr>)
      (demo_host Run_Live None timeline_default)) = Some h' \<and> length (hd_sent h') = 1"
proof -
  let ?h = "on_session (\<lambda>s. s\<lparr>as_live_model := Some ''old''\<rparr>) (demo_host Run_Live None timeline_default)"
  have "launch_settings_changed_while_live demo_json (hd_session ?h)"
    by (simp add: launch_settings_changed_while_live_def model_changed_while_live_def is_live_def demo_meta_def)
  then show ?thesis
    using cleared_retry_skips_the_restart [of ?h demo_env "demo_row 0 ''one'' None"]
    by (auto simp: is_live_def due_def demo_row_def)
qed

lemma callback_turns_wake_no_watch_witness:
  "\<exists>h'. on_turn_completed demo_env ''t'' TurnStatusCompleted None (on_session
      (\<lambda>s. s\<lparr>as_turn_in_flight := True, as_turn_woken_by_control := True\<rparr>)
      (demo_host Run_Live None timeline_default)) = Some h' \<and> hd_fired h' = []"
proof -
  let ?h = "on_session (\<lambda>s. s\<lparr>as_turn_in_flight := True, as_turn_woken_by_control := True\<rparr>)
      (demo_host Run_Live None timeline_default)"
  have "map_option (\<lambda>h. hd_sent h = []) (on_turn_completed demo_env ''t'' TurnStatusCompleted None ?h)
    = Some False" by code_simp
  from evaluated [OF this] obtain h' where
    "on_turn_completed demo_env ''t'' TurnStatusCompleted None ?h = Some h'" by blast
  with callback_turns_wake_no_watch [OF this] show ?thesis
    by (simp add: retry_pending_def timeline_default_def demo_meta_def)
qed

lemma sleeping_session_delivers_witness:
  "\<exists>h1 h2. send_turn_assembled demo_env no_sender ''two'' []
      (on_session (\<lambda>s. s\<lparr>as_queue := []\<rparr>) (demo_host Run_Idle None timeline_default)) = Some h1
    \<and> provider_ready demo_env h1 = Some h2 \<and> length (hd_sent h2) = 1"
  using sleeping_session_delivers [of "on_session (\<lambda>s. s\<lparr>as_queue := []\<rparr>)
      (demo_host Run_Idle None timeline_default)" demo_env no_sender "''two''" "[]"]
  by (auto simp: refuses_send_def conversation_read_only_def relay_unconfirmed_def demo_meta_def)

end
