(* ===== verification/Session_Commands.thy ===== *)
theory Session_Commands
  imports Session_Runtime
begin

section \<open>Commands of a client on a session\<close>

text \<open>
  What a client does to an open session, beside sending and steering (\<open>Session_Runtime\<close>): the rest of
  \<^verbatim>\<open>runtime/src/app/send.rs\<close>, the choice of model and options in \<^verbatim>\<open>options.rs\<close>, and the queries of
  \<^verbatim>\<open>command_validation.rs\<close> on a session. What a choice takes from the settings (the remembered effort,
  the default permission, the cached commands of a provider, which profile ids are built in) are
  arguments. A command the host refuses answers with the reason.
\<close>

datatype refusal =
    Turn_Still_Running
  | Not_Retryable
  | Provider_Not_Running
  | Provider_Has_No_Goal
  | Channel_Closed

subsection \<open>Queries\<close>

definition native_rewind_blocked :: "'j hosted \<Rightarrow> bool" where
  "native_rewind_blocked h = (let s = hd_session h in
     \<not> cp_native_rewind (caps_of (me_provider (as_meta s))) \<or> as_turn_in_flight s
     \<or> as_delivery_in_flight s \<noteq> None \<or> as_background_task_count s > 0
     \<or> tl_turn_running (as_timeline s) \<or> as_queue s \<noteq> [] \<or> hd_rewind h \<noteq> None)"

definition checkout_blocked :: "'j active_session \<Rightarrow> bool" where
  "checkout_blocked s = as_turn_in_flight s"

fun is_wake :: "queued_kind \<Rightarrow> bool" where
  "is_wake (Queued_Pull_Request_Wake _ _) = True"
| "is_wake Queued_User = False"
| "is_wake Queued_Orchestrate_Callback = False"

definition queued_message_editable :: "'j active_session \<Rightarrow> u64 \<Rightarrow> bool" where
  "queued_message_editable s i = (as_delivery_in_flight s \<noteq> Some i
     \<and> \<not> (\<exists>m\<in>set (as_queue s). qm_id m = i \<and> is_wake (qm_kind m)))"

subsection \<open>Choosing a model\<close>

definition close_abandoned_turn :: "'j surroundings \<Rightarrow> 'j hosted \<Rightarrow> 'j hosted option" where
  "close_abandoned_turn E h = (case abandoned_turn (as_timeline (hd_session h)) of
      None \<Rightarrow> Some h
    | Some turn_id \<Rightarrow> on_turn_completed E turn_id TurnStatusInterrupted None h)"

definition persist_active :: "'j surroundings \<Rightarrow> 'j hosted \<Rightarrow> 'j hosted" where
  "persist_active E h = (if as_draft (hd_session h) then h
     else touched E h)"

record 'j model_choice =
  mc_provider :: provider_kind
  mc_model :: "string option"
  mc_profile :: "string option"
  mc_effort :: "'j option_selection option"
  mc_permission :: "'j option_selection option"
  mc_commands :: "provider_command list"

definition built_in_filter :: "(string \<Rightarrow> bool) \<Rightarrow> string option \<Rightarrow> string option" where
  "built_in_filter is_builtin profile = (case profile of
     Some p \<Rightarrow> if is_builtin p then None else Some p | None \<Rightarrow> None)"

text \<open>The permission the thread has, which a change within one provider keeps.\<close>

definition own_permission :: "provider_kind \<Rightarrow> 'j option_selection list \<Rightarrow> 'j option_selection option" where
  "own_permission provider selections = Option.bind (permission_control provider)
     (\<lambda>descriptor. find (\<lambda>selection. os_id selection = descriptor_id descriptor) selections)"

definition rebound :: "'j model_choice \<Rightarrow> 'j option_selection list \<Rightarrow> 'j session_meta \<Rightarrow> 'j session_meta" where
  "rebound c selections m = m\<lparr>me_provider := mc_provider c, me_acp_agent_id := None,
     me_profile_id := mc_profile c, me_model := mc_model c, me_option_selections := selections\<rparr>"

definition choose_draft_model :: "'j model_choice \<Rightarrow> 'j active_session \<Rightarrow> 'j active_session" where
  "choose_draft_model c s = (
     let m = as_meta s; same_provider = (me_provider m = mc_provider c)
     in if same_provider \<and> me_model m = mc_model c \<and> me_profile_id m = mc_profile c then s
        else
          let permission = (if same_provider then own_permission (mc_provider c) (me_option_selections m) else None);
              s1 = s\<lparr>as_meta := rebound c (opt_list (mc_effort c)
                     @ opt_list (opt_or permission (mc_permission c))) m,
                   as_provider_commands := mc_commands c\<rparr>
          in if same_provider then s1
             else s1\<lparr>as_provider_options := [], as_confirmed_option_selections := []\<rparr>)"

text \<open>Another backend for a thread that has begun: a hand-over to confirm, unless there is nothing to hand over.\<close>

definition relay_source :: "'j active_session \<Rightarrow> pending_relay" where
  "relay_source s = (case as_pending_relay s of Some source \<Rightarrow> source | None \<Rightarrow> same_backend s)"

definition choose_backend ::
  "'j surroundings \<Rightarrow> 'j model_choice \<Rightarrow> 'j hosted \<Rightarrow> 'j hosted option" where
  "choose_backend E c h = (
     let s = hd_session h;
         source = relay_source s;
         returns = (as_pending_relay s \<noteq> None \<and> pr_from_provider source = mc_provider c
           \<and> pr_from_profile source = mc_profile c);
         abandoned = (\<not> returns \<and> \<not> has_meaningful_history (as_timeline s));
         h1 = (if returns then on_session (\<lambda>s. s\<lparr>as_pending_relay := None\<rparr>) h
               else if \<not> abandoned then on_session (\<lambda>s. s\<lparr>as_pending_relay := Some source\<rparr>) h
               else send_out (resume_cursor_for_fresh_provider (en_accepts E) s) h);
         h2 = on_session (\<lambda>s. s\<lparr>as_meta := rebound c (opt_list (mc_effort c)
                @ opt_list (mc_permission c)) (as_meta s), as_provider_commands := mc_commands c,
                as_provider_options := [], as_confirmed_option_selections := []\<rparr>) h1
     in if as_pending_relay (hd_session h2) \<noteq> None then Some h2
        else map_option (persist_active E)
          (if abandoned then close_abandoned_turn E h2 else Some h2))"

definition choose_model ::
  "'j surroundings \<Rightarrow> 'j model_choice \<Rightarrow> 'j hosted \<Rightarrow> 'j hosted" where
  "choose_model E c h = (
     let m = as_meta (hd_session h)
     in if me_model m = mc_model c then h
        else
          let permission_id = map_option descriptor_id (permission_control (mc_provider c));
              h1 = on_meta (\<lambda>m. m\<lparr>me_model := mc_model c, me_option_selections :=
                filter (\<lambda>selection. Some (os_id selection) = permission_id) (me_option_selections m)
                @ opt_list (mc_effort c)\<rparr>) h
          in if as_pending_relay (hd_session h1) \<noteq> None then h1 else persist_active E h1)"

definition set_active_model ::
  "'j surroundings \<Rightarrow> (string \<Rightarrow> bool) \<Rightarrow> 'j model_choice \<Rightarrow> 'j hosted \<Rightarrow> 'j hosted option" where
  "set_active_model E is_builtin choice h = (
     let c = choice\<lparr>mc_profile := built_in_filter is_builtin (mc_profile choice)\<rparr>;
         m = as_meta (hd_session h)
     in if as_draft (hd_session h) then Some (on_session (choose_draft_model c) h)
        else if me_provider m \<noteq> mc_provider c \<or> me_profile_id m \<noteq> mc_profile c
        then choose_backend E c h
        else Some (choose_model E c h))"

subsection \<open>Setting an option\<close>

definition set_active_option ::
  "'j surroundings \<Rightarrow> string \<Rightarrow> 'j option \<Rightarrow> 'j hosted \<Rightarrow> 'j hosted" where
  "set_active_option E option_id value0 h = (
     let s = hd_session h;
         permission = (case permission_descriptor s of
             Some descriptor \<Rightarrow> if descriptor_id descriptor = option_id then Some descriptor else None
           | None \<Rightarrow> None);
         val = opt_or value0 (Option.bind permission (descriptor_default (en_json E)));
         selections = filter (\<lambda>x. os_id x \<noteq> option_id) (me_option_selections (as_meta s))
           @ opt_list (map_option (\<lambda>v. \<lparr>os_id = option_id, os_value = v\<rparr>) val);
         permission_push = (case permission of Some d \<Rightarrow> \<not> restarts d | None \<Rightarrow> False);
         permission_restart = (case permission of Some d \<Rightarrow> restarts d | None \<Rightarrow> False);
         s1 = s\<lparr>as_meta := (as_meta s)\<lparr>me_option_selections := selections\<rparr>\<rparr>;
         push = (permission_push \<or> \<not> permission_restart
           \<and> push_supports (cp_live_option_push (caps_of (me_provider (as_meta s)))) option_id);
         h1 = (case find (\<lambda>x. os_id x = option_id) selections of
             Some selection \<Rightarrow>
               if push \<and> is_live s
               then send_out (if en_accepts E then [Cmd_Set_Option (os_id selection) (os_value selection)] else [],
                 if permission_push then s1
                 else s1\<lparr>as_live_option_selections :=
                   filter (\<lambda>x. os_id x \<noteq> option_id) (as_live_option_selections s) @ [selection]\<rparr>) h
               else h\<lparr>hd_session := s1\<rparr>
           | None \<Rightarrow> h\<lparr>hd_session := s1\<rparr>)
     in persist_active E h1)"

subsection \<open>Scheduling\<close>

definition schedule_turn ::
  "'j surroundings \<Rightarrow> sender \<Rightarrow> string \<Rightarrow> attachment list \<Rightarrow> u64 \<Rightarrow> 'j hosted \<Rightarrow> 'j hosted option" where
  "schedule_turn E sender txt attachments fire_at h = (
     let s0 = hd_session h
     in if relay_unconfirmed s0 then Some h
        else
          let h1 = (if as_draft_workspace s0 = Local_Checkout
                then on_session (\<lambda>s. s\<lparr>as_draft := False\<rparr>) h else h);
              s2 = stamp_sender sender (stamp_context_window_change (en_json E) (en_default_window E)
                 (snd (push_scheduled (en_json E) txt attachments (from_secs fire_at) (hd_session h1))));
              should_start = (as_runtime s2 = Run_Idle
                \<and> \<not> (as_draft s2 \<and> as_draft_workspace s2 \<noteq> Local_Checkout));
              h3 = on_meta (reactivate (en_now_secs E) (sn_origin sender)) (h1\<lparr>hd_session := s2\<rparr>)
          in if should_start then ensure_session_started h3 else Some h3)"

definition scheduled_and_due :: "int \<Rightarrow> queued_message \<Rightarrow> bool" where
  "scheduled_and_due now m = (case qm_not_before m of None \<Rightarrow> False | Some t \<Rightarrow> t \<le> now)"

text \<open>\<open>fire_due_scheduled\<close>: a viewed session sends each due message anew, a parked one frees them in place.\<close>

definition message_sender :: "queued_message \<Rightarrow> sender" where
  "message_sender m = \<lparr>sn_delivery_key = qm_delivery_key m, sn_author = qm_author m,
     sn_origin = Some (qm_origin m)\<rparr>"

definition fire_one :: "'j surroundings \<Rightarrow> u64 \<Rightarrow> 'j hosted \<Rightarrow> 'j hosted option" where
  "fire_one E i h = (case take_queued i (hd_session h) of
      (None, _) \<Rightarrow> Some h
    | (Some m, s) \<Rightarrow>
        send_turn_assembled E (message_sender m) (qm_text m) (qm_attachments m) (h\<lparr>hd_session := s\<rparr>))"

definition fire_due_viewed :: "'j surroundings \<Rightarrow> 'j hosted \<Rightarrow> 'j hosted option" where
  "fire_due_viewed E h = fold_opt (fire_one E)
     (map qm_id (filter (scheduled_and_due (en_now E)) (as_queue (hd_session h)))) h"

definition fire_due_parked :: "'j surroundings \<Rightarrow> 'j hosted \<Rightarrow> 'j hosted option" where
  "fire_due_parked E h0 = (
     if \<not> (\<exists>m\<in>set (as_queue (hd_session h0)). scheduled_and_due (en_now E) m) then Some h0
     else
       let h = on_session (\<lambda>s. s\<lparr>as_queue := map (\<lambda>m. if scheduled_and_due (en_now E) m
               then m\<lparr>qm_not_before := None\<rparr> else m) (as_queue s)\<rparr>) h0;
           s = hd_session h
       in if launch_settings_changed_while_live (en_json E) s
          then (if as_background_task_count s > 0 then Some h else ensure_session_started (shut_down E h))
          else if is_live s then map_option snd (dispatch_next_queued E h)
          else if as_queue s \<noteq> [] then ensure_session_started h else Some h)"

subsection \<open>Confirming a hand-over\<close>

definition record_relay ::
  "'j surroundings \<Rightarrow> pending_relay \<Rightarrow> string \<Rightarrow> 'j hosted \<Rightarrow> (string \<times> 'j hosted) option" where
  "record_relay E from txt h = (case begin_relay E from txt h of
     (transcript, relay, h1) \<Rightarrow> do {
       h2 \<leftarrow> close_abandoned_turn E h1;
       map_option (Pair transcript) (record_event E no_sender relay h2) })"

definition confirm_relay_and_send ::
  "'j surroundings \<Rightarrow> sender \<Rightarrow> string \<Rightarrow> attachment list \<Rightarrow> 'j hosted \<Rightarrow> 'j hosted option" where
  "confirm_relay_and_send E sender txt attachments h = (case as_pending_relay (hd_session h) of
      None \<Rightarrow> send_turn_assembled E sender txt attachments h
    | Some pending \<Rightarrow> do {
        let h1 = on_meta (\<lambda>m. m\<lparr>me_resume_cursor := None, me_pending_fork := False\<rparr>)
              (shut_down E (on_session (\<lambda>s. s\<lparr>as_pending_relay := None\<rparr>) h));
        (transcript, h2) \<leftarrow> record_relay E pending txt h1;
        let s3 = stamp_sender sender (stamp_context_window_change (en_json E) (en_default_window E)
              (snd (push_queued (en_json E) txt attachments (hd_session h2))));
        let s4 = s3\<lparr>as_queue := update_last (\<lambda>m. m\<lparr>qm_relay_transcript := Some transcript\<rparr>) (as_queue s3)\<rparr>;
        h5 \<leftarrow> map_option snd (dispatch_next_queued E (h2\<lparr>hd_session := s4\<rparr>));
        ensure_session_started h5 })"

subsection \<open>Rows of the queue\<close>

definition steer_queued :: "'j surroundings \<Rightarrow> string \<Rightarrow> u64 \<Rightarrow> 'j hosted \<Rightarrow> 'j hosted option" where
  "steer_queued E uuid i h = (case take_queued i (hd_session h) of
      (None, _) \<Rightarrow> Some h
    | (Some m, s) \<Rightarrow>
        steer_assembled E uuid (message_sender m) (qm_text m) (qm_attachments m) (h\<lparr>hd_session := s\<rparr>))"

definition drop_queued :: "u64 \<Rightarrow> 'j hosted \<Rightarrow> 'j hosted" where
  "drop_queued i h = on_session (\<lambda>s. snd (take_queued i s)) h"

subsection \<open>Commands to the provider\<close>

text \<open>A command that is sent at once, and what the session records when it was taken.\<close>

definition command_now ::
  "'j surroundings \<Rightarrow> 'j session_command \<Rightarrow> ('j active_session \<Rightarrow> 'j active_session) \<Rightarrow> 'j hosted \<Rightarrow>
     (refusal + unit) \<times> 'j hosted" where
  "command_now E command taken h = (
     if \<not> is_live (hd_session h) then (Inl Provider_Not_Running, h)
     else if \<not> en_accepts E then (Inl Channel_Closed, h)
     else (Inr (), send_out ([command], taken (hd_session h)) h))"

definition retry_turn :: "'j surroundings \<Rightarrow> string \<Rightarrow> 'j hosted \<Rightarrow> (refusal + unit) \<times> 'j hosted" where
  "retry_turn E turn_id h = (
     let tml = as_timeline (hd_session h)
     in if tl_turn_running tml \<or> map_option tr_turn_id (tl_turn_retry tml) \<noteq> Some turn_id
        then (Inl Not_Retryable, h)
        else command_now E (Cmd_Retry_Turn turn_id) (\<lambda>s. s\<lparr>as_turn_in_flight := True\<rparr>) h)"

definition busy :: "'j active_session \<Rightarrow> bool" where
  "busy s = (as_turn_in_flight s \<or> as_delivery_in_flight s \<noteq> None \<or> tl_turn_running (as_timeline s))"

definition interrupt :: "'j surroundings \<Rightarrow> 'j hosted \<Rightarrow> (refusal + unit) \<times> 'j hosted" where
  "interrupt E h = (
     if \<not> busy (hd_session h) \<and> as_background_task_count (hd_session h) = 0 then (Inr (), h)
     else command_now E Cmd_Interrupt (\<lambda>s. s\<lparr>as_interrupt_requested := True\<rparr>) h)"

text \<open>A command that starts an idle provider first and waits until it is live.\<close>

definition command_when_live ::
  "'j surroundings \<Rightarrow> 'j session_command \<Rightarrow> 'j hosted \<Rightarrow> ((refusal + unit) \<times> 'j hosted) option" where
  "command_when_live E command h = (
     if is_live (hd_session h) then Some (command_now E command id h)
     else map_option (Pair (Inr ()))
       (ensure_session_started (on_session (\<lambda>s. s\<lparr>as_requested_command := Some command\<rparr>) h)))"

definition compact_context :: "'j surroundings \<Rightarrow> 'j hosted \<Rightarrow> ((refusal + unit) \<times> 'j hosted) option" where
  "compact_context E h = (if busy (hd_session h) then Some (Inl Turn_Still_Running, h)
     else command_when_live E Cmd_Compact h)"

definition change_goal ::
  "'j surroundings \<Rightarrow> 'j session_command \<Rightarrow> 'j hosted \<Rightarrow> ((refusal + unit) \<times> 'j hosted) option" where
  "change_goal E command h = (case cp_goals (caps_of (me_provider (as_meta (hd_session h)))) of
      None \<Rightarrow> Some (Inl Provider_Has_No_Goal, h)
    | Some control \<Rightarrow>
        if \<not> gc_live control \<and> busy (hd_session h) then Some (Inl Turn_Still_Running, h)
        else command_when_live E command h)"

definition respond_approval ::
  "'j surroundings \<Rightarrow> string \<Rightarrow> approval_decision \<Rightarrow> 'j hosted \<Rightarrow> (refusal + unit) \<times> 'j hosted" where
  "respond_approval E request_id decision h = command_now E (Cmd_Respond_Approval request_id decision) id h"

definition respond_user_input ::
  "'j surroundings \<Rightarrow> string \<Rightarrow> (string \<times> 'j) list \<Rightarrow> 'j hosted \<Rightarrow> (refusal + unit) \<times> 'j hosted" where
  "respond_user_input E request_id answers h = command_now E (Cmd_Respond_User_Input request_id answers) id h"

end
