(* ===== verification/Command_Laws.thy ===== *)
theory Command_Laws
  imports Runtime_Laws Session_Commands
begin

section \<open>Laws of the client's commands\<close>

text \<open>
  What choosing another provider, confirming the hand-over and the scheduler do with the messages of a
  session. A hand-over that waits for its confirmation stops every send; the theorems say what
  becomes of the messages that were queued before it.
\<close>

subsection \<open>Switching the provider and back\<close>

text \<open>
  Choosing another provider for a thread with history only asks for a hand-over, and choosing the first
  one again withdraws it: nothing was sent or stopped, and the native session is still the thread's.
\<close>

theorem switching_back_withdraws_the_handover:
  assumes "\<not> as_draft (hd_session h)" "as_pending_relay (hd_session h) = None"
    "has_meaningful_history (as_timeline (hd_session h))"
    "(mc_provider c, built_in_filter b (mc_profile c))
       \<noteq> (me_provider (as_meta (hd_session h)), me_profile_id (as_meta (hd_session h)))"
    "mc_provider c' = me_provider (as_meta (hd_session h))"
    "built_in_filter b (mc_profile c') = me_profile_id (as_meta (hd_session h))"
  shows "\<exists>h1 h2. set_active_model E b c h = Some h1 \<and> set_active_model E b c' h1 = Some h2
    \<and> as_pending_relay (hd_session h1) = Some (same_backend (hd_session h)) \<and> refuses_send (hd_session h1)
    \<and> as_pending_relay (hd_session h2) = None
    \<and> me_provider (as_meta (hd_session h2)) = me_provider (as_meta (hd_session h))
    \<and> me_profile_id (as_meta (hd_session h2)) = me_profile_id (as_meta (hd_session h))
    \<and> me_resume_cursor (as_meta (hd_session h2)) = me_resume_cursor (as_meta (hd_session h))
    \<and> as_runtime (hd_session h2) = as_runtime (hd_session h) \<and> hd_sent h2 = hd_sent h"
proof -
  define d where "d = c\<lparr>mc_profile := built_in_filter b (mc_profile c)\<rparr>"
  define d' where "d' = c'\<lparr>mc_profile := built_in_filter b (mc_profile c')\<rparr>"
  define h1 where "h1 = on_session (\<lambda>s. s\<lparr>as_meta := rebound d (opt_list (mc_effort d)
      @ opt_list (mc_permission d)) (as_meta s), as_provider_commands := mc_commands d,
      as_provider_options := [], as_confirmed_option_selections := []\<rparr>)
    (on_session (\<lambda>s. s\<lparr>as_pending_relay := Some (same_backend (hd_session h))\<rparr>) h)"
  define h2 where "h2 = persist_active E (on_session (\<lambda>s. s\<lparr>as_meta := rebound d' (opt_list (mc_effort d')
      @ opt_list (mc_permission d')) (as_meta s), as_provider_commands := mc_commands d',
      as_provider_options := [], as_confirmed_option_selections := []\<rparr>)
    (on_session (\<lambda>s. s\<lparr>as_pending_relay := None\<rparr>) h1))"
  have d: "mc_provider d = mc_provider c" "mc_profile d = built_in_filter b (mc_profile c)"
    "mc_provider d' = mc_provider c'" "mc_profile d' = built_in_filter b (mc_profile c')"
    by (simp_all add: d_def d'_def)
  have s1: "as_pending_relay (hd_session h1) = Some (same_backend (hd_session h))"
    "\<not> as_draft (hd_session h1)" "me_provider (as_meta (hd_session h1)) = mc_provider d"
    "me_profile_id (as_meta (hd_session h1)) = mc_profile d" "as_timeline (hd_session h1) = as_timeline (hd_session h)"
    using assms(1) by (simp_all add: h1_def rebound_def)
  have "choose_backend E d h = Some h1"
    using assms(2,3) by (simp add: choose_backend_def Let_def relay_source_def h1_def)
  then have one: "set_active_model E b c h = Some h1"
    using assms(1,4) d by (auto simp: set_active_model_def Let_def d_def [symmetric])
  have again: "choose_backend E d' h1 = Some h2"
    using assms(5,6) d s1 by (simp add: choose_backend_def Let_def relay_source_def same_backend_def h2_def)
  have "(mc_provider d', mc_profile d') \<noteq> (me_provider (as_meta (hd_session h1)), me_profile_id (as_meta (hd_session h1)))"
    using assms(4-6) d s1 by auto
  then have "set_active_model E b c' h1 = Some h2"
    using s1(2) again unfolding set_active_model_def Let_def d'_def [symmetric] by auto
  with one s1(1) show ?thesis
    using assms(2,3,5,6) d s1(5)
    by (simp add: refuses_send_def relay_unconfirmed_def)
      (simp add: h2_def h1_def persist_active_def rebound_def touched_def)
qed

subsection \<open>A hand-over that waits\<close>

text \<open>A session whose provider is started anew, and one that is stopped first.\<close>

lemma started_fresh:
  assumes "ensure_session_started h = Some h'" "as_runtime (hd_session h) = Run_Idle"
  shows "is_starting (as_runtime (hd_session h'))" "as_started (hd_session h')"
    "as_turn_in_flight (hd_session h') = as_turn_in_flight (hd_session h)"
    "as_delivery_in_flight (hd_session h') = as_delivery_in_flight (hd_session h)"
    "as_requested_command (hd_session h') = as_requested_command (hd_session h)"
    "as_pending_relay (hd_session h') = as_pending_relay (hd_session h)"
    "as_provider_commands (hd_session h') = as_provider_commands (hd_session h)"
    "hd_rewind h' = hd_rewind h"
    "me_moved_from (as_meta (hd_session h')) = me_moved_from (as_meta (hd_session h))"
    "me_moved_from (as_meta (hd_session h)) = None \<Longrightarrow> as_meta (hd_session h') = as_meta (hd_session h)"
  using assms by (auto simp: ensure_session_started_def Let_def as_started_def split: if_splits)

lemma shut_down_session [simp]:
  "as_turn_in_flight (hd_session (shut_down E h)) = False"
  "as_delivery_in_flight (hd_session (shut_down E h)) = None"
  "as_requested_command (hd_session (shut_down E h)) = None"
  "as_background_task_count (hd_session (shut_down E h)) = 0"
  "as_pending_relay (hd_session (shut_down E h)) = as_pending_relay (hd_session h)"
  "as_next_queue_id (hd_session (shut_down E h)) = as_next_queue_id (hd_session h)"
  "as_provider_commands (hd_session (shut_down E h)) = as_provider_commands (hd_session h)"
  "hd_rewind (shut_down E h) = hd_rewind h"
  "hd_sent (shut_down E h) = hd_sent h @ (if is_live (hd_session h) \<and> en_accepts E then [Cmd_Shutdown] else [])"
  by (simp_all add: shut_down_def shutdown_to_idle_def)

lemma take_queued_filter:
  assumes "distinct (queue_ids s)" "as_delivery_in_flight s = None"
  shows "snd (take_queued i s) = s\<lparr>as_queue := filter (\<lambda>m. qm_id m \<noteq> i) (as_queue s)\<rparr>"
proof (cases "position (\<lambda>m. qm_id m = i) (as_queue s)")
  case None
  then have "filter (\<lambda>m. qm_id m \<noteq> i) (as_queue s) = as_queue s"
    by (simp add: position_None_iff filter_id_conv)
  with None assms(2) show ?thesis by (simp add: take_queued_def)
next
  case (Some k)
  then have "k < length (as_queue s)" "qm_id (as_queue s ! k) = i" by (auto simp: position_Some_iff)
  then have "remove_at k (as_queue s) = filter (\<lambda>m. qm_id m \<noteq> i) (as_queue s)"
    using remove_at_filter [of qm_id "as_queue s" k] assms(1) by (simp add: queue_ids_def)
  with Some assms(2) show ?thesis by (simp add: take_queued_def)
qed

lemma refuses_send_queue [simp]: "refuses_send (s\<lparr>as_queue := q\<rparr>) = refuses_send s"
  by (simp add: refuses_send_def relay_unconfirmed_def)

lemma fire_one_refused:
  assumes "refuses_send (hd_session h)" "distinct (queue_ids (hd_session h))"
    "as_delivery_in_flight (hd_session h) = None"
  shows "fire_one E i h = Some (on_session (\<lambda>s. s\<lparr>as_queue := filter (\<lambda>m. qm_id m \<noteq> i) (as_queue s)\<rparr>) h)"
proof -
  obtain r s where taken: "take_queued i (hd_session h) = (r, s)" by (cases "take_queued i (hd_session h)")
  then have s: "s = (hd_session h)\<lparr>as_queue := filter (\<lambda>m. qm_id m \<noteq> i) (as_queue (hd_session h))\<rparr>"
    using take_queued_filter [OF assms(2,3), of i] by simp
  show ?thesis
  proof (cases r)
    case None
    then have "s = hd_session h"
      using take_queued_result [OF taken] by auto
    then have "(hd_session h)\<lparr>as_queue := filter (\<lambda>m. qm_id m \<noteq> i) (as_queue (hd_session h))\<rparr> = hd_session h"
      using s by simp
    then show ?thesis using None taken by (simp add: fire_one_def on_session_def)
  next
    case (Some m)
    then show ?thesis
      using taken assms(1) s by (simp add: fire_one_def send_turn_eq on_session_def)
  qed
qed

lemma fire_all_refused:
  assumes "refuses_send (hd_session h)" "distinct (queue_ids (hd_session h))"
    "as_delivery_in_flight (hd_session h) = None"
  shows "fold_opt (fire_one E) is h =
    Some (on_session (\<lambda>s. s\<lparr>as_queue := filter (\<lambda>m. qm_id m \<notin> set is) (as_queue s)\<rparr>) h)"
  using assms
proof (induction "is" arbitrary: h)
  case Nil
  then show ?case by (simp add: on_session_def)
next
  case (Cons i "is")
  define g where "g = on_session (\<lambda>s. s\<lparr>as_queue := filter (\<lambda>m. qm_id m \<noteq> i) (as_queue s)\<rparr>) h"
  have "refuses_send (hd_session g)" "distinct (queue_ids (hd_session g))"
    "as_delivery_in_flight (hd_session g) = None"
    using Cons.prems by (simp_all add: g_def queue_ids_def distinct_map_filter)
  from Cons.IH [OF this] show ?case
    using fire_one_refused [OF Cons.prems, of E i]
    by (simp add: g_def [symmetric]) (simp add: g_def on_session_def conj_commute)
qed

text \<open>
  C32: While a change of provider waits for its confirmation, a scheduled message whose time comes is taken
  from the queue and then refused as a send: it is neither submitted nor kept.
\<close>

theorem due_message_is_lost_before_the_confirmation:
  assumes "as_pending_relay (hd_session h) \<noteq> None" "has_meaningful_history (as_timeline (hd_session h))"
    "distinct (queue_ids (hd_session h))" "as_delivery_in_flight (hd_session h) = None"
  shows "\<exists>h'. fire_due_viewed E h = Some h'
    \<and> as_queue (hd_session h') = filter (\<lambda>m. \<not> scheduled_and_due (en_now E) m) (as_queue (hd_session h))
    \<and> hd_sent h' = hd_sent h \<and> hd_recorded h' = hd_recorded h
    \<and> as_delivery_in_flight (hd_session h') = None"
proof -
  have "refuses_send (hd_session h)" using assms(1,2) by (simp add: refuses_send_def relay_unconfirmed_def)
  note fired = fire_all_refused [OF this assms(3,4)]
  have "inj_on qm_id (set (as_queue (hd_session h)))"
    using assms(3) by (simp add: queue_ids_def distinct_map)
  then have "filter (\<lambda>m. qm_id m \<notin> set (map qm_id (filter (scheduled_and_due (en_now E)) (as_queue (hd_session h)))))
      (as_queue (hd_session h)) = filter (\<lambda>m. \<not> scheduled_and_due (en_now E) m) (as_queue (hd_session h))"
    by (intro filter_cong) (auto simp: inj_on_def)
  then show ?thesis using fired assms(4) by (simp add: fire_due_viewed_def)
qed

text \<open>
  C30: When a turn ends with a message queued and a change of provider not confirmed, and the thread's
  model, directory or launch options are not those its live provider was started with, no background
  task runs, no retry of the turn is pending and the thread was not moved, then the session restarts
  with the new provider at once, under the native cursor of the old one, and the hand-over still waits.
  (The timeline is well-formed and the counter of session generations is not exhausted.)
\<close>

theorem turn_end_starts_the_unconfirmed_provider:
  assumes "host_ok h" "hd_generation h \<noteq> - 1" "\<not> retry_pending h"
    "as_pending_relay (hd_session h) = Some pending"
    "launch_settings_changed_while_live (en_json E) (hd_session h)" "as_queue (hd_session h) \<noteq> []"
    "as_background_task_count (hd_session h) = 0" "me_moved_from (as_meta (hd_session h)) = None"
  shows "\<exists>h'. on_turn_completed E t status usage h = Some h' \<and> is_starting (as_runtime (hd_session h'))
    \<and> as_pending_relay (hd_session h') = Some pending
    \<and> me_provider (as_meta (hd_session h')) = me_provider (as_meta (hd_session h))
    \<and> me_resume_cursor (as_meta (hd_session h')) = me_resume_cursor (as_meta (hd_session h))"
proof -
  obtain tml where rec: "record_event E no_sender (TurnCompleted t status usage) (touched E h)
      = Some (recorded no_sender (TurnCompleted t status usage) tml (touched E h))" "tl_ok tml"
    "apply_at (Some (en_now_millis E)) (TurnCompleted t status usage)
       (as_timeline (hd_session (touched E h))) = Some tml"
    by (rule record_event_ok [of "touched E h" E no_sender "TurnCompleted t status usage"]) (simp add: assms(1))
  define h1 where "h1 = recorded no_sender (TurnCompleted t status usage) tml (touched E h)"
  have "\<not> retry_pending h1"
    using assms(3) turn_completed_retry [OF rec(3)] by (simp add: retry_pending_def h1_def touched_def)
  define h2 where "h2 = on_session turn_over h1"
  have twice: "on_session (\<lambda>s. s\<lparr>as_turn_in_flight := False\<rparr>)
      (on_session (\<lambda>s. s\<lparr>as_interrupt_requested := False\<rparr>) h1) = h2"
    by (simp add: h2_def on_session_def turn_over_def)
  have "same_settings (hd_session h) (hd_session h2)"
    by (simp add: same_settings_def h2_def h1_def touched_def turn_over_def)
  then have changed: "launch_settings_changed_while_live (en_json E) (hd_session h2)"
    using assms(5) launch_settings_frame by blast
  have s2: "as_queue (hd_session h2) \<noteq> []" "as_background_task_count (hd_session h2) = 0"
    "hd_generation h2 \<noteq> - 1" "as_pending_relay (hd_session h2) = Some pending"
    "as_meta (hd_session h2) = (as_meta (hd_session h))\<lparr>me_updated_at := en_now_secs E\<rparr>"
    using assms(2,4,6,7) by (simp_all add: h2_def h1_def touched_def turn_over_def)
  obtain h3 where h3: "ensure_session_started (shut_down E h2) = Some h3"
    using start_returns [of "shut_down E h2"] s2(3) by auto
  then have started: "is_starting (as_runtime (hd_session h3))" "as_pending_relay (hd_session h3) = Some pending"
    "as_meta (hd_session h3) = as_meta (hd_session h2)"
    using s2(4,5) assms(8) started_fresh(1,6,10) [OF h3] by simp_all
  have "turn_completed_before E t status usage h = Some (False, False, False, h3)"
    using rec(1) \<open>\<not> retry_pending h1\<close> changed s2(1,2) h3 twice
    by (simp add: turn_completed_before_def h1_def [symmetric] viewed_turn_ended_def parked_turn_ended_def Let_def)
  then have "on_turn_completed E t status usage h = Some (turn_completed_after h3)"
    by (simp add: on_turn_completed_def)
  then show ?thesis
    using started s2(5) by (simp add: turn_completed_after_def Let_def)
qed

text \<open>
  A scheduled message that comes due in a parked session whose settings changed stops the provider and
  starts it anew, also while a turn is running there, which a restart is otherwise deferred for.
\<close>

theorem due_message_stops_a_running_turn:
  assumes "is_live (hd_session h)" "en_accepts E" "hd_generation h \<noteq> - 1"
    "as_turn_in_flight (hd_session h)" "as_background_task_count (hd_session h) = 0"
    "launch_settings_changed_while_live (en_json E) (hd_session h)"
    "m \<in> set (as_queue (hd_session h))" "scheduled_and_due (en_now E) m"
  shows "settings_restart_deferred (en_json E) (hd_session h)
    \<and> (\<exists>h'. fire_due_parked E h = Some h' \<and> hd_sent h' = hd_sent h @ [Cmd_Shutdown]
      \<and> is_starting (as_runtime (hd_session h')) \<and> \<not> as_turn_in_flight (hd_session h'))"
proof -
  define g where "g = on_session (\<lambda>s. s\<lparr>as_queue := map (\<lambda>m. if scheduled_and_due (en_now E) m
      then m\<lparr>qm_not_before := None\<rparr> else m) (as_queue s)\<rparr>) h"
  have "same_settings (hd_session h) (hd_session g)" by (simp add: same_settings_def g_def)
  then have changed: "launch_settings_changed_while_live (en_json E) (hd_session g)"
    using assms(6) launch_settings_frame by blast
  obtain h' where h': "ensure_session_started (shut_down E g) = Some h'"
    using start_returns [of "shut_down E g"] assms(3) by (auto simp: g_def)
  have "fire_due_parked E h = Some h'"
    using assms(5,7,8) changed h' by (auto simp: fire_due_parked_def Let_def g_def)
  moreover have "hd_sent h' = hd_sent h @ [Cmd_Shutdown]" "is_starting (as_runtime (hd_session h'))"
    "\<not> as_turn_in_flight (hd_session h')"
    using started_fresh(1,3) [OF h'] started_frame(4) [OF h'] assms(1,2)
    by (simp_all add: g_def is_live_def)
  ultimately show ?thesis using assms(4,6) by (auto simp: settings_restart_deferred_def)
qed

subsection \<open>Confirming a hand-over\<close>

lemma rest_frame [simp]:
  "as_runtime (hd_session (mark_resident_idle E h)) = as_runtime (hd_session h)"
  "as_delivery_in_flight (hd_session (mark_resident_idle E h)) = as_delivery_in_flight (hd_session h)"
  "as_requested_command (hd_session (mark_resident_idle E h)) = as_requested_command (hd_session h)"
  "as_next_queue_id (hd_session (mark_resident_idle E h)) = as_next_queue_id (hd_session h)"
  "as_provider_commands (hd_session (mark_resident_idle E h)) = as_provider_commands (hd_session h)"
  "as_meta (hd_session (mark_resident_idle E h)) = as_meta (hd_session h)"
  "as_turn_in_flight (hd_session (mark_resident_idle E h)) = as_turn_in_flight (hd_session h)"
  "hd_generation (mark_resident_idle E h) = hd_generation h"
  "hd_rewind (mark_resident_idle E h) = hd_rewind h"
  "as_runtime (hd_session (turn_completed_after h)) = as_runtime (hd_session h)"
  "as_delivery_in_flight (hd_session (turn_completed_after h)) = as_delivery_in_flight (hd_session h)"
  "as_requested_command (hd_session (turn_completed_after h)) = as_requested_command (hd_session h)"
  "as_next_queue_id (hd_session (turn_completed_after h)) = as_next_queue_id (hd_session h)"
  "as_provider_commands (hd_session (turn_completed_after h)) = as_provider_commands (hd_session h)"
  "as_meta (hd_session (turn_completed_after h)) = as_meta (hd_session h)"
  "as_turn_in_flight (hd_session (turn_completed_after h)) = as_turn_in_flight (hd_session h)"
  "hd_generation (turn_completed_after h) = hd_generation h"
  "hd_rewind (turn_completed_after h) = hd_rewind h"
  by (simp_all add: mark_resident_idle_def turn_completed_after_def Let_def)

text \<open>Completing a turn of a session without a provider changes only its timeline and its flags.\<close>

lemma completed_asleep:
  assumes "host_ok h" "\<not> is_live (hd_session h)"
  shows "\<exists>h'. on_turn_completed E t status usage h = Some h' \<and> host_ok h'
    \<and> as_queue (hd_session h') = as_queue (hd_session h) \<and> hd_sent h' = hd_sent h
    \<and> as_runtime (hd_session h') = as_runtime (hd_session h) \<and> hd_generation h' = hd_generation h
    \<and> as_delivery_in_flight (hd_session h') = as_delivery_in_flight (hd_session h)
    \<and> as_requested_command (hd_session h') = as_requested_command (hd_session h)
    \<and> as_next_queue_id (hd_session h') = as_next_queue_id (hd_session h)
    \<and> as_provider_commands (hd_session h') = as_provider_commands (hd_session h)
    \<and> as_meta (hd_session h') = (as_meta (hd_session h))\<lparr>me_updated_at := en_now_secs E\<rparr>
    \<and> hd_rewind h' = hd_rewind h
    \<and> (as_turn_in_flight (hd_session h') \<longrightarrow> as_turn_in_flight (hd_session h))"
proof -
  obtain tml where rec: "tl_ok tml" "record_event E no_sender (TurnCompleted t status usage) (touched E h)
      = Some (recorded no_sender (TurnCompleted t status usage) tml (touched E h))"
    using record_event_returns [of "touched E h" E no_sender "TurnCompleted t status usage"] assms(1) by auto
  define h1 where "h1 = recorded no_sender (TurnCompleted t status usage) tml (touched E h)"
  define h2 where "h2 = on_session turn_over h1"
  have twice: "on_session (\<lambda>s. s\<lparr>as_turn_in_flight := False\<rparr>)
      (on_session (\<lambda>s. s\<lparr>as_interrupt_requested := False\<rparr>) h1) = h2"
    by (simp add: h2_def on_session_def turn_over_def)
  have asleep: "\<not> is_live (hd_session h1)" "\<not> is_live (hd_session h2)"
    using assms(2) by (simp_all add: h1_def h2_def touched_def turn_over_def is_live_def)
  have ended: "viewed_turn_ended E (on_session (\<lambda>s. s\<lparr>as_interrupt_requested := False\<rparr>) h1) = Some (True, True, h2)"
    "\<exists>d i. parked_turn_ended E (on_session (\<lambda>s. s\<lparr>as_interrupt_requested := False\<rparr>) h1) = Some (d, i, h2)"
    using not_live_settings [OF asleep(2), of "en_json E"] asleep(2)
    by (auto simp: viewed_turn_ended_def parked_turn_ended_def Let_def twice cwd_changed_while_live_def)
  obtain retry d i h3 where h3: "turn_completed_before E t status usage h = Some (retry, d, i, h3)"
    "retry \<and> h3 = h1 \<or> \<not> retry \<and> h3 = h2"
    using rec(2) ended
    by (cases "retry_pending h1"; cases "hd_parked h1")
      (auto simp: turn_completed_before_def h1_def [symmetric])
  define h4 where "h4 = (if retry then h3 else turn_completed_after (if i then mark_resident_idle E h3 else h3))"
  have "\<not> is_live (hd_session h3)" using h3(2) asleep by auto
  then have "on_turn_completed E t status usage h = Some h4"
    using h3(1) dispatch_asleep [of h3 E] by (simp add: on_turn_completed_def h4_def)
  moreover have "as_timeline (hd_session h4) = tml"
    using h3(2) by (auto simp: h4_def h1_def h2_def turn_over_def)
  moreover have "as_queue (hd_session h4) = as_queue (hd_session h) \<and> hd_sent h4 = hd_sent h
    \<and> as_runtime (hd_session h4) = as_runtime (hd_session h) \<and> hd_generation h4 = hd_generation h
    \<and> as_delivery_in_flight (hd_session h4) = as_delivery_in_flight (hd_session h)
    \<and> as_requested_command (hd_session h4) = as_requested_command (hd_session h)
    \<and> as_next_queue_id (hd_session h4) = as_next_queue_id (hd_session h)
    \<and> as_provider_commands (hd_session h4) = as_provider_commands (hd_session h)
    \<and> as_meta (hd_session h4) = (as_meta (hd_session h))\<lparr>me_updated_at := en_now_secs E\<rparr>
    \<and> hd_rewind h4 = hd_rewind h
    \<and> (as_turn_in_flight (hd_session h4) \<longrightarrow> as_turn_in_flight (hd_session h))"
    using h3(2) by (cases i) (auto simp: h4_def h1_def h2_def turn_over_def touched_def)
  ultimately show ?thesis using rec(1) by (intro exI [of _ h4]) simp
qed

lemma relay_of_stopped:
  "fst (begin_relay E p txt (on_meta (\<lambda>m. m\<lparr>me_resume_cursor := c, me_pending_fork := f\<rparr>) (shut_down E
     (on_session (\<lambda>s. s\<lparr>as_pending_relay := None\<rparr>) h)))) = fst (begin_relay E p txt h)"
  by (cases "me_moved_from (as_meta (hd_session h))") (simp_all add: begin_relay_def Let_def)

text \<open>What a confirmed hand-over leaves: a provider starting afresh, and the message behind the queue.\<close>

lemma confirmed:
  assumes "host_ok h" "hd_generation h \<noteq> - 1" "as_pending_relay (hd_session h) = Some pending"
  shows "\<exists>h' m. confirm_relay_and_send E sender txt attachments h = Some h'
    \<and> as_queue (hd_session h') = as_queue (hd_session h) @ [m]
    \<and> qm_id m = as_next_queue_id (hd_session h) \<and> qm_text m = txt \<and> qm_attachments m = attachments
    \<and> qm_not_before m = None
    \<and> qm_relay_transcript m = Some (fst (begin_relay E pending txt h))
    \<and> is_starting (as_runtime (hd_session h')) \<and> as_started (hd_session h')
    \<and> as_delivery_in_flight (hd_session h') = None \<and> \<not> as_turn_in_flight (hd_session h')
    \<and> as_requested_command (hd_session h') = None \<and> hd_rewind h' = hd_rewind h
    \<and> me_moved_from (as_meta (hd_session h')) = None \<and> me_resume_cursor (as_meta (hd_session h')) = None
    \<and> as_provider_commands (hd_session h') = as_provider_commands (hd_session h)
    \<and> hd_sent h' = hd_sent h @ (if is_live (hd_session h) \<and> en_accepts E then [Cmd_Shutdown] else [])"
proof -
  define h1 where "h1 = on_meta (\<lambda>m. m\<lparr>me_resume_cursor := None, me_pending_fork := False\<rparr>) (shut_down E
     (on_session (\<lambda>s. s\<lparr>as_pending_relay := None\<rparr>) h))"
  obtain tr relay g where relay: "begin_relay E pending txt h1 = (tr, relay, g)" by (metis prod_cases3)
  have tr: "tr = fst (begin_relay E pending txt h)"
    using relay_of_stopped [where E = E and p = pending and h = h and c = None and f = False] relay
    unfolding h1_def by (metis fst_conv)
  have g: "g = on_meta (\<lambda>m. m\<lparr>me_moved_from := None, me_updated_at := en_now_secs E\<rparr>) h1"
    using begin_relay_state [of E pending "txt" h1] relay by simp
  have g_state: "host_ok g" "\<not> is_live (hd_session g)"
    using assms(1) by (simp_all add: g h1_def is_live_def)
  define closed where "closed = (\<lambda>k. host_ok k \<and> as_queue (hd_session k) = as_queue (hd_session h)
    \<and> hd_sent k = hd_sent h1 \<and> as_runtime (hd_session k) = Run_Idle \<and> hd_generation k = hd_generation h
    \<and> as_delivery_in_flight (hd_session k) = None \<and> as_requested_command (hd_session k) = None
    \<and> as_next_queue_id (hd_session k) = as_next_queue_id (hd_session h)
    \<and> as_provider_commands (hd_session k) = as_provider_commands (hd_session h)
    \<and> me_moved_from (as_meta (hd_session k)) = None \<and> me_resume_cursor (as_meta (hd_session k)) = None
    \<and> hd_rewind k = hd_rewind h \<and> \<not> as_turn_in_flight (hd_session k))"
  have "closed g" using g_state by (simp add: closed_def g h1_def)
  then have "\<exists>k. close_abandoned_turn E g = Some k \<and> closed k"
    using completed_asleep [OF g_state, of E _ TurnStatusInterrupted None]
    by (fastforce simp: close_abandoned_turn_def closed_def split: option.split)
  then obtain k where k: "close_abandoned_turn E g = Some k" "closed k" by blast
  obtain tml where rec: "tl_ok tml" "record_event E no_sender relay k = Some (recorded no_sender relay tml k)"
    using record_event_returns [of k E no_sender relay] k(2) by (auto simp: closed_def)
  define h2 where "h2 = recorded no_sender relay tml k"
  define s3 where "s3 = stamp_sender sender (stamp_context_window_change (en_json E) (en_default_window E)
      (snd (push_queued (en_json E) txt attachments (hd_session h2))))"
  define m where "m = last (as_queue s3)\<lparr>qm_relay_transcript := Some tr\<rparr>"
  define h4 where "h4 = h2\<lparr>hd_session := s3\<lparr>as_queue := as_queue (hd_session h) @ [m]\<rparr>\<rparr>"
  have s3: "as_queue s3 = as_queue (hd_session h) @ [last (as_queue s3)]"
    "update_last (\<lambda>m. m\<lparr>qm_relay_transcript := Some tr\<rparr>) (as_queue s3) = as_queue (hd_session h) @ [m]"
    "qm_id (last (as_queue s3)) = as_next_queue_id (hd_session h)" "qm_text (last (as_queue s3)) = txt"
    "qm_attachments (last (as_queue s3)) = attachments" "qm_not_before (last (as_queue s3)) = None"
    using k(2)
    by (simp_all add: s3_def m_def stamp_sender_def stamp_context_window_change_def push_queued_def Let_def
        h2_def closed_def is_live_def update_last_def)
  have s4: "as_runtime (hd_session h4) = Run_Idle" "hd_generation h4 \<noteq> - 1"
    "as_delivery_in_flight (hd_session h4) = None" "\<not> as_turn_in_flight (hd_session h4)"
    "as_requested_command (hd_session h4) = None" "hd_rewind h4 = hd_rewind h"
    "me_moved_from (as_meta (hd_session h4)) = None" "me_resume_cursor (as_meta (hd_session h4)) = None"
    "as_provider_commands (hd_session h4) = as_provider_commands (hd_session h)" "hd_sent h4 = hd_sent h1"
    "as_queue (hd_session h4) = as_queue (hd_session h) @ [m]"
    using k(2) assms(2)
    by (simp_all add: h4_def s3_def stamp_sender_def stamp_context_window_change_def push_queued_def Let_def
        h2_def closed_def is_live_def)
  obtain h' where h': "ensure_session_started h4 = Some h'" using start_returns [OF s4(2)] by blast
  have "confirm_relay_and_send E sender txt attachments h = Some h'"
    using assms(3) relay k(1) rec(2) s3(2) h' dispatch_asleep [of h4 E] s4(1)
    by (simp add: confirm_relay_and_send_def Let_def h1_def [symmetric] record_relay_def h2_def [symmetric]
        s3_def [symmetric] h4_def is_live_def)
  then show ?thesis
    using started_fresh [OF h' s4(1)] started_frame(2,4) [OF h'] s4 s3(3-6) tr
    by (intro exI [of _ h'] exI [of _ m]) (simp add: m_def h1_def is_live_def)
qed

text \<open>
  C10: A confirmed hand-over starts the new provider without the old native session, and when nothing
  queued earlier is due and no rewind is pending, the message it was confirmed with is the first one
  submitted to that provider, with the transcript of the conversation so far. (What happens to a message
  queued and due earlier is \<open>earlier_message_misses_the_transcript\<close>, one of the findings.) The channels of
  the old and the new provider accept, and the counter of session generations is not exhausted.
\<close>

theorem confirmed_handover_delivers_the_transcript:
  assumes "host_ok h" "hd_generation h \<noteq> - 1" "as_pending_relay (hd_session h) = Some pending"
    "find (due (en_now E)) (as_queue (hd_session h)) = None" "hd_rewind h = None" "en_accepts E"
  shows "\<exists>h1 h2 opts. confirm_relay_and_send E sender txt attachments h = Some h1
    \<and> me_resume_cursor (as_meta (hd_session h1)) = None \<and> is_starting (as_runtime (hd_session h1))
    \<and> provider_ready E h1 = Some h2
    \<and> hd_sent h2 = hd_sent h @ (if is_live (hd_session h) then [Cmd_Shutdown] else []) @
        [Cmd_Send_Turn (as_next_queue_id (hd_session h))
          (native_skill_invocation (wire_text_with_placeholder
             (assemble_relay_prompt (fst (begin_relay E pending txt h)) txt) attachments)
            (as_provider_commands (hd_session h))) (Some opts) attachments]"
proof -
  obtain h1 m where h1: "confirm_relay_and_send E sender txt attachments h = Some h1"
    "as_queue (hd_session h1) = as_queue (hd_session h) @ [m]" "qm_id m = as_next_queue_id (hd_session h)" "qm_text m = txt"
    "qm_attachments m = attachments" "qm_not_before m = None"
    "qm_relay_transcript m = Some (fst (begin_relay E pending txt h))"
    "is_starting (as_runtime (hd_session h1))" "as_started (hd_session h1)"
    "as_delivery_in_flight (hd_session h1) = None" "\<not> as_turn_in_flight (hd_session h1)"
    "as_requested_command (hd_session h1) = None" "hd_rewind h1 = None"
    "me_moved_from (as_meta (hd_session h1)) = None" "me_resume_cursor (as_meta (hd_session h1)) = None"
    "as_provider_commands (hd_session h1) = as_provider_commands (hd_session h)"
    "hd_sent h1 = hd_sent h @ (if is_live (hd_session h) then [Cmd_Shutdown] else [])"
    using confirmed [OF assms(1-3), of E sender "txt" attachments] assms(4-6) by auto
  have "due (en_now E) m" using h1(6) by (simp add: due_def)
  then have "find (due (en_now E)) (as_queue (hd_session h1)) = Some m"
    using h1(2) assms(4) by (simp add: find_skip find_None_iff)
  from ready_sends [OF h1(9-14) assms(6) this] obtain h2 where
    "provider_ready E h1 = Some h2" "hd_sent h2 = hd_sent h1 @ [submits m (hd_session h1)]" by blast
  with h1 show ?thesis by (auto simp: submits_def wire_text_def)
qed

text \<open>
  A message that was queued before the hand-over was confirmed goes to the new provider first, without
  the transcript, which only travels with the message after it.
\<close>

theorem earlier_message_misses_the_transcript:
  assumes "host_ok h" "hd_generation h \<noteq> - 1" "as_pending_relay (hd_session h) = Some pending"
    "find (due (en_now E)) (as_queue (hd_session h)) = Some m" "qm_relay_transcript m = None"
    "hd_rewind h = None" "en_accepts E"
  shows "\<exists>h1 h2. confirm_relay_and_send E sender txt attachments h = Some h1
    \<and> me_resume_cursor (as_meta (hd_session h1)) = None \<and> provider_ready E h1 = Some h2
    \<and> hd_sent h2 = hd_sent h @ (if is_live (hd_session h) then [Cmd_Shutdown] else []) @
        [Cmd_Send_Turn (qm_id m) (native_skill_invocation (wire_text_with_placeholder (qm_text m)
           (qm_attachments m)) (as_provider_commands (hd_session h))) (Some (qm_options m)) (qm_attachments m)]"
proof -
  obtain h1 m' where h1: "confirm_relay_and_send E sender txt attachments h = Some h1"
    "as_queue (hd_session h1) = as_queue (hd_session h) @ [m']" "as_started (hd_session h1)"
    "as_delivery_in_flight (hd_session h1) = None" "\<not> as_turn_in_flight (hd_session h1)"
    "as_requested_command (hd_session h1) = None" "hd_rewind h1 = None"
    "me_moved_from (as_meta (hd_session h1)) = None" "me_resume_cursor (as_meta (hd_session h1)) = None"
    "as_provider_commands (hd_session h1) = as_provider_commands (hd_session h)"
    "hd_sent h1 = hd_sent h @ (if is_live (hd_session h) then [Cmd_Shutdown] else [])"
    using confirmed [OF assms(1-3), of E sender "txt" attachments] assms(6,7) by auto
  obtain ys zs where "as_queue (hd_session h) = ys @ m # zs" "due (en_now E) m" "\<forall>y\<in>set ys. \<not> due (en_now E) y"
    using find_split [OF assms(4)] by blast
  then have "find (due (en_now E)) (as_queue (hd_session h1)) = Some m"
    using find_skip [of ys "due (en_now E)" m "zs @ [m']"] h1(2) by simp
  from ready_sends [OF h1(3-8) assms(7) this] obtain h2 where
    "provider_ready E h1 = Some h2" "hd_sent h2 = hd_sent h1 @ [submits m (hd_session h1)]" by blast
  with h1 assms(5) show ?thesis by (auto simp: submits_def wire_text_def)
qed

subsection \<open>Examples\<close>

definition demo_choice :: "provider_kind \<Rightarrow> unit model_choice" where
  "demo_choice provider = \<lparr>mc_provider = provider, mc_model = None, mc_profile = None, mc_effort = None,
     mc_permission = None, mc_commands = []\<rparr>"

lemma switching_back_withdraws_the_handover_witness:
  "\<exists>tml h1 h2. demo_timeline demo_events = Some tml
    \<and> set_active_model demo_env (\<lambda>_. False) (demo_choice Codex) (demo_host Run_Live None tml) = Some h1
    \<and> as_pending_relay (hd_session h1) \<noteq> None
    \<and> set_active_model demo_env (\<lambda>_. False) (demo_choice ClaudeCode) h1 = Some h2
    \<and> as_pending_relay (hd_session h2) = None"
proof -
  obtain tml where tml: "demo_timeline demo_events = Some tml" "has_meaningful_history tml"
    by (rule demo_completed)
  then show ?thesis
    using switching_back_withdraws_the_handover [of "demo_host Run_Live None tml" "demo_choice Codex"
        "\<lambda>_. False" "demo_choice ClaudeCode" demo_env]
    by (auto simp: demo_choice_def built_in_filter_def demo_meta_def)
qed

definition demo_waiting :: "unit timeline \<Rightarrow> unit hosted" where
  "demo_waiting tml = on_session (\<lambda>s. s\<lparr>as_pending_relay := Some \<lparr>pr_from_provider = Codex,
     pr_from_model = None, pr_from_profile = None\<rparr>\<rparr>) (demo_host Run_Live None tml)"

lemma due_message_is_lost_before_the_confirmation_witness:
  "\<exists>tml h'. demo_timeline demo_events = Some tml
    \<and> fire_due_viewed demo_env (on_session (\<lambda>s. s\<lparr>as_queue := [demo_row 0 ''later'' (Some 3)]\<rparr>)
        (demo_waiting tml)) = Some h'
    \<and> as_queue (hd_session h') = [] \<and> hd_sent h' = []"
proof -
  obtain tml where tml: "demo_timeline demo_events = Some tml" "has_meaningful_history tml"
    by (rule demo_completed)
  then show ?thesis
    using due_message_is_lost_before_the_confirmation [of "on_session (\<lambda>s. s\<lparr>as_queue :=
        [demo_row 0 ''later'' (Some 3)]\<rparr>) (demo_waiting tml)" demo_env]
    by (auto simp: demo_waiting_def queue_ids_def scheduled_and_due_def demo_row_def)
qed

lemma turn_end_starts_the_unconfirmed_provider_witness:
  "\<exists>h'. on_turn_completed demo_env ''t'' TurnStatusCompleted None (on_session
      (\<lambda>s. s\<lparr>as_live_model := Some ''old''\<rparr>) (demo_waiting timeline_default)) = Some h'
    \<and> as_pending_relay (hd_session h') \<noteq> None \<and> is_starting (as_runtime (hd_session h'))"
proof -
  let ?h = "on_session (\<lambda>s. s\<lparr>as_live_model := Some ''old''\<rparr>) (demo_waiting timeline_default)"
  have "launch_settings_changed_while_live demo_json (hd_session ?h)"
    by (simp add: launch_settings_changed_while_live_def model_changed_while_live_def is_live_def demo_meta_def
        demo_waiting_def)
  moreover have "\<not> retry_pending ?h" by (simp add: retry_pending_def demo_waiting_def timeline_default_def)
  ultimately show ?thesis
    using turn_end_starts_the_unconfirmed_provider [of ?h _ demo_env "''t''" TurnStatusCompleted None]
    by (auto simp: demo_waiting_def demo_meta_def)
qed

lemma due_message_stops_a_running_turn_witness:
  "\<exists>h'. fire_due_parked demo_env (on_session (\<lambda>s. s\<lparr>as_live_model := Some ''old'', as_turn_in_flight := True,
      as_queue := [demo_row 0 ''later'' (Some 3)]\<rparr>) (demo_host Run_Live None timeline_default)) = Some h'
    \<and> hd_sent h' = [Cmd_Shutdown]"
proof -
  let ?h = "on_session (\<lambda>s. s\<lparr>as_live_model := Some ''old'', as_turn_in_flight := True,
      as_queue := [demo_row 0 ''later'' (Some 3)]\<rparr>) (demo_host Run_Live None timeline_default)"
  have "launch_settings_changed_while_live demo_json (hd_session ?h)"
    by (simp add: launch_settings_changed_while_live_def model_changed_while_live_def is_live_def demo_meta_def)
  then show ?thesis
    using due_message_stops_a_running_turn [of ?h demo_env "demo_row 0 ''later'' (Some 3)"]
    by (auto simp: is_live_def scheduled_and_due_def demo_row_def)
qed

lemma confirmed_handover_delivers_the_transcript_witness:
  "\<exists>tml h1 h2. demo_timeline demo_events = Some tml
    \<and> confirm_relay_and_send demo_env no_sender ''go on'' [] (on_session (\<lambda>s. s\<lparr>as_queue := []\<rparr>)
        (demo_waiting tml)) = Some h1
    \<and> provider_ready demo_env h1 = Some h2 \<and> length (hd_sent h2) = 2"
proof -
  obtain tml where tml: "demo_timeline demo_events = Some tml" "tl_ok tml" by (rule demo_completed)
  then show ?thesis
    using confirmed_handover_delivers_the_transcript [of "on_session (\<lambda>s. s\<lparr>as_queue := []\<rparr>) (demo_waiting tml)"
        _ demo_env no_sender "''go on''" "[]"]
    by (auto simp: demo_waiting_def is_live_def)
qed

lemma earlier_message_misses_the_transcript_witness:
  "\<exists>tml h1 h2. demo_timeline demo_events = Some tml
    \<and> confirm_relay_and_send demo_env no_sender ''go on'' [] (demo_waiting tml) = Some h1
    \<and> provider_ready demo_env h1 = Some h2 \<and> length (hd_sent h2) = 2"
proof -
  obtain tml where tml: "demo_timeline demo_events = Some tml" "tl_ok tml" by (rule demo_completed)
  then show ?thesis
    using earlier_message_misses_the_transcript [of "demo_waiting tml" _ demo_env "demo_row 0 ''one'' None"
        no_sender "''go on''" "[]"]
    by (auto simp: demo_waiting_def is_live_def due_def demo_row_def)
qed

end
