(* ===== verification/Json_Values.thy ===== *)
theory Json_Values
  imports Strings
begin

section \<open>JSON values and lines\<close>

text \<open>
  A \<open>serde_json::Value\<close> with the accessors the transports use on it, and what the client and the host
  read off a line before anything else does: whether it changes a subscription, and whether it is a
  write that its sender retains. The reader and the printer of \<open>serde_json\<close> are arguments, gathered in
  the record \<open>serde\<close>. A number is an unsigned 64-bit integer or, by its text, any other number.
\<close>

datatype jvalue =
    JNull
  | JBool bool
  | JUnsigned u64
  | JOther string
  | JText string
  | JList "jvalue list"
  | JObject "(string \<times> jvalue) list"

record serde =
  from_str :: "string \<Rightarrow> jvalue option"
  to_str :: "jvalue \<Rightarrow> string"

text \<open>\<open>Value::get\<close> of a key, \<open>as_u64\<close>, \<open>as_str\<close>, and the assignment \<open>value[key] = v\<close> to an object.\<close>

definition jget :: "string \<Rightarrow> jvalue \<Rightarrow> jvalue option" where
  "jget k v = (case v of JObject fs \<Rightarrow> map_of fs k | _ \<Rightarrow> None)"

definition as_u64 :: "jvalue \<Rightarrow> u64 option" where
  "as_u64 v = (case v of JUnsigned n \<Rightarrow> Some n | _ \<Rightarrow> None)"

definition as_text :: "jvalue \<Rightarrow> string option" where
  "as_text v = (case v of JText s \<Rightarrow> Some s | _ \<Rightarrow> None)"

primrec set_field :: "string \<Rightarrow> jvalue \<Rightarrow> (string \<times> jvalue) list \<Rightarrow> (string \<times> jvalue) list" where
  "set_field k v [] = [(k, v)]"
| "set_field k v (f # fs) = (if fst f = k then (k, v) # fs else f # set_field k v fs)"

definition jset :: "string \<Rightarrow> jvalue \<Rightarrow> jvalue \<Rightarrow> jvalue" where
  "jset k v j = (case j of JObject fs \<Rightarrow> JObject (set_field k v fs) | _ \<Rightarrow> j)"

lemma map_of_set_field: "map_of (set_field k v fs) = (map_of fs)(k \<mapsto> v)"
  by (induction fs) (auto simp: fun_eq_iff)

lemma jget_jset: "jget k v \<noteq> None \<Longrightarrow> jget k' (jset k x v) = (if k' = k then Some x else jget k' v)"
  by (auto simp: jget_def jset_def map_of_set_field split: jvalue.splits)

subsection \<open>What a line asks for\<close>

datatype change_kind = Subscribing | Unsubscribing

text \<open>The type of the payload and the topic of a change of subscription.\<close>

definition subscription_change :: "jvalue \<Rightarrow> (change_kind \<times> jvalue) option" where
  "subscription_change v = do {
     payload \<leftarrow> jget ''payload'' v;
     t \<leftarrow> jget ''type'' payload;
     kind \<leftarrow> as_text t;
     k \<leftarrow> (if kind = ''subscribe'' then Some Subscribing
          else if kind = ''unsubscribe'' then Some Unsubscribing else None);
     content \<leftarrow> jget ''content'' payload;
     topic \<leftarrow> jget ''topic'' content;
     Some (k, topic) }"

definition subscription_key :: "serde \<Rightarrow> string \<Rightarrow> string option" where
  "subscription_key J line = do {
     v \<leftarrow> from_str J (trim_end line);
     (k, topic) \<leftarrow> subscription_change v;
     Some (to_str J topic) }"

definition retained_write :: "serde \<Rightarrow> string \<Rightarrow> bool" where
  "retained_write J line = (case from_str J line of
     None \<Rightarrow> False
   | Some v \<Rightarrow> (case jget ''key'' v of Some (JText _) \<Rightarrow> True | _ \<Rightarrow> False))"

end
