(* ===== verification/Outgoing.thy ===== *)
theory Outgoing
  imports Json_Values
begin

section \<open>The outgoing queue of a client\<close>

text \<open>
  The queue between the user interface of a client and the task that owns its connection
  (\<^verbatim>\<open>client/src/outgoing.rs\<close>). Changes of subscription are kept apart, one per topic; everything else
  is admitted up to 256 lines and \<open>MAX_BYTES\<close> bytes, and stays charged after it was received until the
  adapter reports it sent. \<open>og_notes\<close> are the notifications waiting in the channel of capacity one. A
  subtraction below zero panics.
\<close>

definition MAX_LINES :: nat where "MAX_LINES = 256"

text \<open>\<open>MAX_LINE_BYTES\<close> of the protocol.\<close>

definition MAX_BYTES :: nat where "MAX_BYTES = 16 * 1024 * 1024"

record outgoing =
  og_lines :: "string list"
  og_subscriptions :: "(string \<times> string) list"
  og_count :: nat
  og_bytes :: nat
  og_notes :: nat
  og_closed :: bool

definition og_channel :: outgoing where
  "og_channel = \<lparr>og_lines = [], og_subscriptions = [], og_count = 0, og_bytes = 0, og_notes = 0,
     og_closed = False\<rparr>"

datatype send_error = SendClosed string | SendFull string

text \<open>\<open>let _ = self.sender.try_send(String::new())\<close> on the channel of capacity one.\<close>

definition notify :: "outgoing \<Rightarrow> outgoing" where
  "notify q = (if og_closed q \<or> og_notes q \<ge> 1 then q else q\<lparr>og_notes := Suc (og_notes q)\<rparr>)"

definition try_send :: "serde \<Rightarrow> string \<Rightarrow> outgoing \<Rightarrow> outgoing \<times> send_error option" where
  "try_send J line q = (if og_closed q then (q, Some (SendClosed line))
   else (case subscription_key J line of
     Some key \<Rightarrow>
       (notify (q\<lparr>og_subscriptions := filter (\<lambda>(topic, _). topic \<noteq> key) (og_subscriptions q) @ [(key, line)]\<rparr>), None)
   | None \<Rightarrow>
       if og_count q \<ge> MAX_LINES \<or> length line > MAX_BYTES - og_bytes q then (q, Some (SendFull line))
       else (notify (q\<lparr>og_count := Suc (og_count q), og_bytes := og_bytes q + length line,
               og_lines := og_lines q @ [line]\<rparr>), None)))"

datatype received = Received string | Waiting | Disconnected

text \<open>The loop of \<open>recv\<close>: it takes what is queued, else consumes a notification and looks again. A
  closed channel still gives its last notification.\<close>

function recv :: "outgoing \<Rightarrow> outgoing \<times> received" where
  "recv q = (case og_subscriptions q of
     (_, line) # subs \<Rightarrow> (q\<lparr>og_subscriptions := subs\<rparr>, Received line)
   | [] \<Rightarrow> (case og_lines q of
       line # ls \<Rightarrow> (q\<lparr>og_lines := ls\<rparr>, Received line)
     | [] \<Rightarrow> if og_notes q > 0 then recv (q\<lparr>og_notes := og_notes q - 1\<rparr>)
            else (q, if og_closed q then Disconnected else Waiting)))"
  by pat_completeness auto
termination by (relation "measure og_notes") auto

declare recv.simps [simp del]

definition credit :: "string \<Rightarrow> outgoing \<Rightarrow> outgoing option" where
  "credit line q = (if 1 \<le> og_count q \<and> length line \<le> og_bytes q
     then Some (q\<lparr>og_count := og_count q - 1, og_bytes := og_bytes q - length line\<rparr>) else None)"

definition sent :: "serde \<Rightarrow> string \<Rightarrow> outgoing \<Rightarrow> outgoing option" where
  "sent J line q = (if subscription_key J line = None then credit line q else Some q)"

definition discard_retained_writes ::
    "serde \<Rightarrow> string list \<Rightarrow> outgoing \<Rightarrow> (string list \<times> outgoing) option" where
  "discard_retained_writes J buffered q = do {
     q1 \<leftarrow> fold_opt (sent J) (filter (retained_write J) buffered) q;
     q2 \<leftarrow> fold_opt credit (filter (retained_write J) (og_lines q1)) q1;
     Some (filter (\<lambda>l. \<not> retained_write J l) buffered,
           q2\<lparr>og_lines := filter (\<lambda>l. \<not> retained_write J l) (og_lines q2)\<rparr>) }"

definition og_close :: "outgoing \<Rightarrow> outgoing" where
  "og_close q = q\<lparr>og_closed := True\<rparr>"

end
