(* ===== verification/Client_Link.thy ===== *)
theory Client_Link
  imports Outgoing "HOL-Library.Sublist" "HOL-Library.Multiset"
begin

section \<open>The connection of a native client\<close>

text \<open>
  The task that carries the outgoing queue of a native client over connections that come and go
  (\<open>relay_connected\<close>, \<open>connection_loop\<close> and \<open>buffer_during_backoff\<close> of \<^verbatim>\<open>traverse/src/client.rs\<close>). A
  writer task takes lines off a channel and writes them; when a write fails it keeps what it could
  not write and drops its end of the channel. \<open>lk_buffered\<close> carries the lines that were not written
  to the next connection.

  The state has six histories beside the variables of the code. Four are of lines other than changes of
  subscription: the ones that were admitted, the ones written, the ones nobody holds any more, and the
  retained writes discarded at a reconnect, which their sender still owns and submits again. Two are of
  changes of subscription: those admitted, with their topics, and those the task took off the queue.
\<close>

datatype link_phase = Down | Draining | Up | Ending

datatype writer_state = Running | Failing | Gone

record link =
  lk_out :: outgoing
  lk_phase :: link_phase
  lk_buffered :: "string list"
  lk_wire :: "string list"
  lk_writer :: writer_state
  lk_unsent :: "string list"
  lk_admitted :: "string list"
  lk_written :: "string list"
  lk_lost :: "string list"
  lk_discarded :: "string list"
  lk_changes :: "(string \<times> string) list"
  lk_taken :: "string list"

definition link_start :: link where
  "link_start = \<lparr>lk_out = og_channel, lk_phase = Down, lk_buffered = [], lk_wire = [], lk_writer = Gone,
     lk_unsent = [], lk_admitted = [], lk_written = [], lk_lost = [], lk_discarded = [],
     lk_changes = [], lk_taken = []\<rparr>"

text \<open>A line the queue charges: not a change of subscription, not the heartbeat.\<close>

definition charged :: "serde \<Rightarrow> string \<Rightarrow> string \<Rightarrow> bool" where
  "charged J ping l \<longleftrightarrow> subscription_key J l = None \<and> l \<noteq> ping"

definition admit :: "serde \<Rightarrow> string \<Rightarrow> link \<Rightarrow> link" where
  "admit J l s = (case try_send J l (lk_out s) of
     (q, Some e) \<Rightarrow> s\<lparr>lk_out := q\<rparr>
   | (q, None) \<Rightarrow> s\<lparr>lk_out := q, lk_admitted := lk_admitted s @ (if subscription_key J l = None then [l] else []),
       lk_changes := lk_changes s @ (case subscription_key J l of None \<Rightarrow> [] | Some k \<Rightarrow> [(k, l)])\<rparr>)"

text \<open>The history of what the task receives off the queue.\<close>

definition taken :: "serde \<Rightarrow> string \<Rightarrow> link \<Rightarrow> link" where
  "taken J l s = s\<lparr>lk_taken := lk_taken s @ (if subscription_key J l = None then [] else [l])\<rparr>"

text \<open>\<open>wire_tx.send(line)\<close>: the channel takes the line while the writer task holds its end; else the
  line comes back in an error that the code does not look at.\<close>

definition wire_send :: "serde \<Rightarrow> string \<Rightarrow> string \<Rightarrow> link \<Rightarrow> link" where
  "wire_send J ping l s = (if lk_writer s = Gone
     then s\<lparr>lk_lost := lk_lost s @ (if charged J ping l then [l] else [])\<rparr>
     else s\<lparr>lk_wire := lk_wire s @ [l]\<rparr>)"

definition begin_connection :: "link \<Rightarrow> link" where
  "begin_connection s = s\<lparr>lk_phase := Draining, lk_writer := Running, lk_wire := [], lk_unsent := []\<rparr>"

definition drain_one :: "serde \<Rightarrow> string \<Rightarrow> link \<Rightarrow> link" where
  "drain_one J ping s = (case lk_buffered s of
     [] \<Rightarrow> s\<lparr>lk_phase := Up\<rparr>
   | l # ls \<Rightarrow> (let s1 = s\<lparr>lk_buffered := ls\<rparr> in
       if subscription_key J l = None then wire_send J ping l s1 else s1))"

text \<open>The branch \<open>outgoing.recv()\<close> of the loop; a failed hand-over to the writer ends the connection.\<close>

definition relay_one :: "serde \<Rightarrow> string \<Rightarrow> link \<Rightarrow> link" where
  "relay_one J ping s = (case recv (lk_out s) of
     (q, Received l) \<Rightarrow>
       (let s1 = wire_send J ping l (taken J l (s\<lparr>lk_out := q\<rparr>)) in
        if lk_writer s = Gone then s1\<lparr>lk_phase := Ending\<rparr> else s1)
   | (q, Disconnected) \<Rightarrow> s\<lparr>lk_out := q, lk_phase := Ending\<rparr>
   | (q, Waiting) \<Rightarrow> s\<lparr>lk_out := q\<rparr>)"

definition heartbeat_ping :: "serde \<Rightarrow> string \<Rightarrow> link \<Rightarrow> link" where
  "heartbeat_ping J ping s = (let s1 = wire_send J ping ping s in
     if lk_writer s = Gone then s1\<lparr>lk_phase := Ending\<rparr> else s1)"

text \<open>The writer task takes the next line: a line that is written is reported to the queue.\<close>

definition write_line :: "serde \<Rightarrow> string \<Rightarrow> bool \<Rightarrow> link \<Rightarrow> link option" where
  "write_line J ping ok s = (case lk_wire s of
     [] \<Rightarrow> Some s
   | l # ls \<Rightarrow>
       if \<not> ok then Some (s\<lparr>lk_wire := ls, lk_unsent := lk_unsent s @ [l], lk_writer := Failing\<rparr>)
       else if charged J ping l then
         map_option (\<lambda>q. s\<lparr>lk_wire := ls, lk_out := q, lk_written := lk_written s @ [l]\<rparr>) (sent J l (lk_out s))
       else Some (s\<lparr>lk_wire := ls\<rparr>))"

definition writer_returns :: "link \<Rightarrow> link" where
  "writer_returns s = s\<lparr>lk_unsent := lk_unsent s @ lk_wire s, lk_wire := [], lk_writer := Gone\<rparr>"

definition finish_connection :: "serde \<Rightarrow> link \<Rightarrow> link" where
  "finish_connection J s = s\<lparr>lk_phase := Down, lk_unsent := [],
     lk_buffered := filter (\<lambda>l. subscription_key J l = None) (lk_unsent s) @ lk_buffered s\<rparr>"

definition buffer_one :: "serde \<Rightarrow> link \<Rightarrow> link" where
  "buffer_one J s = (case recv (lk_out s) of
     (q, Received l) \<Rightarrow> (taken J l s)\<lparr>lk_out := q,
        lk_buffered := lk_buffered s @ (if subscription_key J l = None then [l] else [])\<rparr>
   | (q, _) \<Rightarrow> s\<lparr>lk_out := q\<rparr>)"

text \<open>The start of a turn of \<open>connection_loop\<close>.\<close>

definition forget_retained :: "serde \<Rightarrow> link \<Rightarrow> link option" where
  "forget_retained J s = map_option (\<lambda>(buffered, q). s\<lparr>lk_buffered := buffered, lk_out := q,
       lk_discarded := lk_discarded s @ filter (retained_write J) (lk_buffered s)
         @ filter (retained_write J) (og_lines (lk_out s))\<rparr>)
     (discard_retained_writes J (lk_buffered s) (lk_out s))"

subsection \<open>Runs\<close>

text \<open>The steps of the tasks, in any order. The heartbeat has the id zero, which no request of the
  client uses: it is a query without a key.\<close>

inductive link_step :: "serde \<Rightarrow> string \<Rightarrow> link \<Rightarrow> link \<Rightarrow> bool" for J ping where
  step_admit: "l \<noteq> ping \<Longrightarrow> link_step J ping s (admit J l s)"
| step_begin: "lk_phase s = Down \<Longrightarrow> link_step J ping s (begin_connection s)"
| step_drain: "lk_phase s = Draining \<Longrightarrow> link_step J ping s (drain_one J ping s)"
| step_relay: "lk_phase s = Up \<Longrightarrow> link_step J ping s (relay_one J ping s)"
| step_ping: "lk_phase s = Up \<Longrightarrow> link_step J ping s (heartbeat_ping J ping s)"
| step_write: "lk_writer s = Running \<Longrightarrow> write_line J ping ok s = Some s' \<Longrightarrow> link_step J ping s s'"
| step_return: "lk_writer s = Failing \<or> lk_writer s = Running \<and> lk_phase s = Ending \<and> lk_wire s = [] \<Longrightarrow>
    link_step J ping s (writer_returns s)"
| step_break: "lk_phase s = Up \<Longrightarrow> link_step J ping s (s\<lparr>lk_phase := Ending\<rparr>)"
| step_finish: "lk_phase s = Ending \<Longrightarrow> lk_writer s = Gone \<Longrightarrow> link_step J ping s (finish_connection J s)"
| step_buffer: "lk_phase s = Down \<Longrightarrow> link_step J ping s (buffer_one J s)"
| step_forget: "lk_phase s = Down \<Longrightarrow> forget_retained J s = Some s' \<Longrightarrow> link_step J ping s s'"

inductive link_reach :: "serde \<Rightarrow> string \<Rightarrow> link \<Rightarrow> bool" for J ping where
  reach_start: "link_reach J ping link_start"
| reach_step: "link_reach J ping s \<Longrightarrow> link_step J ping s s' \<Longrightarrow> link_reach J ping s'"

inductive_cases link_stepE: "link_step J ping s s'"

subsection \<open>What every run keeps\<close>

text \<open>The charged lines between the queue and the wire, in the order they will be written.\<close>

definition pipeline :: "serde \<Rightarrow> string \<Rightarrow> link \<Rightarrow> string list" where
  "pipeline J ping s = filter (charged J ping) (lk_unsent s @ lk_wire s @ lk_buffered s) @ og_lines (lk_out s)"

abbreviation weight :: "string list \<Rightarrow> nat" where "weight ls \<equiv> sum_list (map length ls)"

definition ping_ok :: "serde \<Rightarrow> string \<Rightarrow> bool" where
  "ping_ok J ping \<longleftrightarrow> subscription_key J ping = None \<and> \<not> retained_write J ping"

text \<open>The books of a queue: who holds which admitted line, and that exactly the lines not yet written or
  discarded are charged. Lines are written in the order they were admitted.\<close>

definition balanced :: "string list \<Rightarrow> string list \<Rightarrow> string list \<Rightarrow> string list \<Rightarrow> string list \<Rightarrow> outgoing \<Rightarrow> bool" where
  "balanced admitted written waiting lost discarded q \<longleftrightarrow>
     mset admitted = mset written + mset waiting + mset lost + mset discarded
   \<and> subseq (written @ waiting) admitted
   \<and> og_count q = length waiting + length lost \<and> og_bytes q = weight waiting + weight lost
   \<and> og_count q \<le> MAX_LINES \<and> og_bytes q \<le> MAX_BYTES"

definition link_ok :: "serde \<Rightarrow> string \<Rightarrow> link \<Rightarrow> bool" where
  "link_ok J ping s \<longleftrightarrow>
     balanced (lk_admitted s) (lk_written s) (pipeline J ping s) (lk_lost s) (lk_discarded s) (lk_out s)
   \<and> list_all (charged J ping) (og_lines (lk_out s))
   \<and> list_all (\<lambda>(k, l). subscription_key J l = Some k) (og_subscriptions (lk_out s))
   \<and> list_all (\<lambda>l. subscription_key J l = None) (lk_buffered s)
   \<and> (lk_phase s = Up \<or> lk_phase s = Ending \<longrightarrow> lk_buffered s = [])
   \<and> (lk_phase s = Down \<longrightarrow> lk_unsent s = [] \<and> lk_writer s = Gone)
   \<and> (lk_writer s = Gone \<longrightarrow> lk_wire s = [])
   \<and> (lk_writer s = Running \<longrightarrow> lk_unsent s = [])"

lemma link_ok_start: "link_ok J ping link_start"
  by (simp add: link_ok_def balanced_def link_start_def og_channel_def pipeline_def)

text \<open>What the queue does, seen by the lines it holds.\<close>

lemma notify_fields [simp]:
  "og_lines (notify q) = og_lines q" "og_count (notify q) = og_count q" "og_bytes (notify q) = og_bytes q"
  "og_subscriptions (notify q) = og_subscriptions q" "og_closed (notify q) = og_closed q"
  by (simp_all add: notify_def)

lemma try_send_refused: "try_send J l q = (q', Some e) \<Longrightarrow> q' = q"
  by (auto simp: try_send_def split: if_splits option.splits)

lemma try_send_change:
  "try_send J l q = (q', None) \<Longrightarrow> subscription_key J l = Some k \<Longrightarrow>
     og_subscriptions q' = filter (\<lambda>(topic, _). topic \<noteq> k) (og_subscriptions q) @ [(k, l)] \<and> og_lines q' = og_lines q \<and> og_count q' = og_count q \<and> og_bytes q' = og_bytes q"
  by (auto simp: try_send_def split: if_splits)

lemma try_send_line:
  "try_send J l q = (q', None) \<Longrightarrow> subscription_key J l = None \<Longrightarrow>
     og_subscriptions q' = og_subscriptions q \<and> og_lines q' = og_lines q @ [l] \<and> og_count q' = Suc (og_count q) \<and> og_bytes q' = og_bytes q + length l
   \<and> og_count q < MAX_LINES \<and> length l \<le> MAX_BYTES - og_bytes q"
  by (auto simp: try_send_def split: if_splits)

text \<open>What is received is a change of subscription or the oldest line.\<close>

lemma recv_cases:
  "recv q = (q', r) \<Longrightarrow> og_count q' = og_count q \<and> og_bytes q' = og_bytes q \<and> og_closed q' = og_closed q
   \<and> set (og_subscriptions q') \<subseteq> set (og_subscriptions q)
   \<and> (case r of Received l \<Rightarrow> og_lines q = l # og_lines q' \<or> (\<exists>k. (k, l) \<in> set (og_subscriptions q)) \<and> og_lines q' = og_lines q
       | _ \<Rightarrow> og_lines q' = og_lines q)"
proof (induction q arbitrary: q' r rule: recv.induct)
  case (1 q)
  show ?case
  proof (cases "og_subscriptions q")
    case Nil
    note subs = this
    show ?thesis
    proof (cases "og_lines q")
      case Nil
      show ?thesis
      proof (cases "og_notes q > 0")
        case True
        have "recv (q\<lparr>og_notes := og_notes q - 1\<rparr>) = (q', r)"
          using 1(2) subs Nil True by (simp add: recv.simps [of q])
        from 1(1) [OF subs Nil True this] show ?thesis by (cases r) simp_all
      next
        case False
        then show ?thesis using 1(2) subs Nil by (auto simp: recv.simps [of q] split: if_splits)
      qed
    next
      case (Cons l ls)
      then show ?thesis using 1(2) subs by (auto simp: recv.simps [of q])
    qed
  next
    case (Cons x xs)
    then show ?thesis using 1(2) by (cases x) (auto simp: recv.simps [of q])
  qed
qed

lemma fold_credit:
  "length ls \<le> og_count q \<Longrightarrow> weight ls \<le> og_bytes q \<Longrightarrow>
     fold_opt credit ls q = Some (q\<lparr>og_count := og_count q - length ls, og_bytes := og_bytes q - weight ls\<rparr>)"
  by (induction ls arbitrary: q) (auto simp: credit_def)


lemma taken_fields [simp]:
  "lk_out (taken J l s) = lk_out s" "lk_phase (taken J l s) = lk_phase s" "lk_buffered (taken J l s) = lk_buffered s"
  "lk_wire (taken J l s) = lk_wire s" "lk_writer (taken J l s) = lk_writer s" "lk_unsent (taken J l s) = lk_unsent s"
  "lk_admitted (taken J l s) = lk_admitted s" "lk_written (taken J l s) = lk_written s" "lk_lost (taken J l s) = lk_lost s"
  "lk_discarded (taken J l s) = lk_discarded s" "lk_changes (taken J l s) = lk_changes s"
  by (simp_all add: taken_def)

subsection \<open>Each step keeps the invariant\<close>

lemma balanced_same: "balanced a w p lo d q \<Longrightarrow> og_count q' = og_count q \<Longrightarrow> og_bytes q' = og_bytes q \<Longrightarrow> balanced a w p lo d q'"
  by (simp add: balanced_def)

lemma balanced_admit:
  "balanced a w p lo d q \<Longrightarrow> og_count q < MAX_LINES \<Longrightarrow> length l \<le> MAX_BYTES - og_bytes q \<Longrightarrow>
     og_count q' = Suc (og_count q) \<Longrightarrow> og_bytes q' = og_bytes q + length l \<Longrightarrow>
     balanced (a @ [l]) w (p @ [l]) lo d q'"
  by (auto simp: balanced_def list_emb_append_mono simp flip: append_assoc)

lemma subseq_skip: "subseq (xs @ ys) (xs @ y # ys)"
  by (rule list_emb_append_mono) (auto intro: list_emb_Cons)

lemma balanced_lose: "balanced a w (xs @ l # ys) lo d q \<Longrightarrow> balanced a w (xs @ ys) (lo @ [l]) d q"
  unfolding balanced_def using subseq_order.trans [OF subseq_skip [of "w @ xs" ys l], of a] by auto

lemma balanced_write:
  "balanced a w (l # p) lo d q \<Longrightarrow>
     \<exists>q'. credit l q = Some q' \<and> og_lines q' = og_lines q \<and> og_subscriptions q' = og_subscriptions q
       \<and> balanced a (w @ [l]) p lo d q'"
  by (auto simp: balanced_def credit_def)

lemma balanced_discard:
  assumes "balanced a w p lo d q"
    and "og_count q' = og_count q - length (filter P p)" "og_bytes q' = og_bytes q - weight (filter P p)"
  shows "balanced a w (filter (\<lambda>l. \<not> P l) p) lo (d @ filter P p) q'"
proof -
  have "mset p = mset (filter P p) + mset (filter (\<lambda>l. \<not> P l) p)" by simp
  moreover have "length p = length (filter P p) + length (filter (\<lambda>l. \<not> P l) p)"
    by (rule sum_length_filter_compl [symmetric])
  moreover have "weight p = weight (filter P p) + weight (filter (\<lambda>l. \<not> P l) p)"
    by (induction p) auto
  moreover have "subseq (w @ filter (\<lambda>l. \<not> P l) p) (w @ p)" by (rule list_emb_append_mono) (simp_all add: subseq_filter_left)
  ultimately show ?thesis using assms subseq_order.trans [of "w @ filter (\<lambda>l. \<not> P l) p" "w @ p" a]
    by (simp add: balanced_def ac_simps)
qed

text \<open>The state around the books.\<close>

lemmas link_okD = link_ok_def [THEN iffD1]

lemma keeps_admit:
  assumes ok: "link_ok J ping s" and l: "l \<noteq> ping"
  shows "link_ok J ping (admit J l s)"
proof (cases "try_send J l (lk_out s)")
  case (Pair q e)
  show ?thesis
  proof (cases e)
    case (Some x)
    with Pair have "q = lk_out s" using try_send_refused by simp
    with Pair Some ok show ?thesis by (simp add: admit_def link_ok_def pipeline_def)
  next
    case e: None
    show ?thesis
    proof (cases "subscription_key J l")
      case None
      note q = try_send_line [OF Pair [unfolded e] None]
      have "balanced (lk_admitted s @ [l]) (lk_written s) (pipeline J ping s @ [l]) (lk_lost s) (lk_discarded s) q"
        using ok q balanced_admit unfolding link_ok_def by blast
      with ok l Pair e None q show ?thesis
        by (simp add: admit_def link_ok_def pipeline_def charged_def)
    next
      case (Some k)
      note q = try_send_change [OF Pair [unfolded e] Some]
      have "balanced (lk_admitted s) (lk_written s) (pipeline J ping s) (lk_lost s) (lk_discarded s) q"
        using ok q balanced_same unfolding link_ok_def by blast
      with ok Pair e Some q show ?thesis
        by (simp add: admit_def link_ok_def pipeline_def) (auto simp: list_all_iff)
    qed
  qed
qed

lemma keeps_begin:
  "link_ok J ping s \<Longrightarrow> lk_phase s = Down \<Longrightarrow> link_ok J ping (begin_connection s)"
  by (auto simp: begin_connection_def link_ok_def pipeline_def)

text \<open>Handing a line over to the writer task moves it along the pipeline, or loses it.\<close>

lemma pipeline_send:
  "lk_writer s \<noteq> Gone \<Longrightarrow> lk_buffered s = [] \<Longrightarrow>
     pipeline J ping (wire_send J ping l s)
       = filter (charged J ping) (lk_unsent s @ lk_wire s @ [l]) @ og_lines (lk_out s)"
  by (simp add: pipeline_def wire_send_def)

lemma keeps_drain:
  assumes ok: "link_ok J ping s" and phase: "lk_phase s = Draining"
  shows "link_ok J ping (drain_one J ping s)"
proof (cases "lk_buffered s")
  case Nil
  with ok phase show ?thesis by (simp add: drain_one_def link_ok_def pipeline_def)
next
  case (Cons l ls)
  with ok have l: "subscription_key J l = None" by (simp add: link_ok_def)
  show ?thesis
  proof (cases "lk_writer s = Gone \<and> charged J ping l")
    case True
    then have "balanced (lk_admitted s) (lk_written s)
        (filter (charged J ping) (lk_unsent s) @ l # (filter (charged J ping) ls @ og_lines (lk_out s)))
        (lk_lost s) (lk_discarded s) (lk_out s)"
      using ok Cons by (auto simp: link_ok_def pipeline_def)
    from balanced_lose [OF this] show ?thesis
      using ok phase Cons l True by (auto simp: drain_one_def wire_send_def link_ok_def pipeline_def Let_def)
  next
    case False
    with ok phase Cons l show ?thesis
      by (auto simp: drain_one_def wire_send_def link_ok_def pipeline_def Let_def)
  qed
qed

lemma recv_keeps_subs:
  "recv q = (q', r) \<Longrightarrow> list_all P (og_subscriptions q) \<Longrightarrow> list_all P (og_subscriptions q')"
  using recv_cases by (fastforce simp: list_all_iff)

lemma recv_line:
  assumes "link_ok J ping s" "recv (lk_out s) = (q, Received l)"
  obtains (line) "og_lines (lk_out s) = l # og_lines q" "charged J ping l"
  | (change) k where "og_lines q = og_lines (lk_out s)" "subscription_key J l = Some k" "\<not> charged J ping l"
  using recv_cases [OF assms(2)] assms(1) by (fastforce simp: link_ok_def list_all_iff charged_def)

lemma keeps_relay:
  assumes ok: "link_ok J ping s" and phase: "lk_phase s = Up"
  shows "link_ok J ping (relay_one J ping s)"
proof (cases "recv (lk_out s)")
  case (Pair q r)
  note keep = recv_cases [OF Pair]
  have subs: "list_all (\<lambda>(k, l). subscription_key J l = Some k) (og_subscriptions q)"
    using recv_keeps_subs [OF Pair] ok by (simp add: link_ok_def)
  have buffered: "lk_buffered s = []" using ok phase by (simp add: link_ok_def)
  show ?thesis
  proof (cases r)
    case (Received l)
    from ok Pair [unfolded Received] show ?thesis
    proof (cases rule: recv_line)
      case line
      then have pipe: "pipeline J ping s = filter (charged J ping) (lk_unsent s @ lk_wire s) @ l # og_lines q"
        using buffered by (simp add: pipeline_def)
      have books: "balanced (lk_admitted s) (lk_written s)
          (filter (charged J ping) (lk_unsent s @ lk_wire s) @ l # og_lines q) (lk_lost s) (lk_discarded s) q"
        using ok keep pipe balanced_same unfolding link_ok_def by metis
      show ?thesis
      proof (cases "lk_writer s = Gone")
        case True
        from balanced_lose [OF books] show ?thesis
          using ok line subs buffered True Pair Received
          by (auto simp: relay_one_def wire_send_def link_ok_def pipeline_def Let_def)
      next
        case False
        with books show ?thesis using ok line subs buffered Pair Received phase
          by (auto simp: relay_one_def wire_send_def link_ok_def pipeline_def Let_def)
      qed
    next
      case (change k)
      have "balanced (lk_admitted s) (lk_written s) (pipeline J ping s) (lk_lost s) (lk_discarded s) q"
        using ok keep balanced_same unfolding link_ok_def by metis
      then show ?thesis using ok change subs buffered Pair Received phase
        by (auto simp: relay_one_def wire_send_def link_ok_def pipeline_def Let_def)
    qed
  next
    case Waiting
    with keep have "og_lines q = og_lines (lk_out s)" by simp
    moreover have "balanced (lk_admitted s) (lk_written s) (pipeline J ping s) (lk_lost s) (lk_discarded s) q"
      using ok keep balanced_same unfolding link_ok_def by metis
    ultimately show ?thesis using ok subs Pair Waiting by (simp add: relay_one_def link_ok_def pipeline_def)
  next
    case Disconnected
    with keep have "og_lines q = og_lines (lk_out s)" by simp
    moreover have "balanced (lk_admitted s) (lk_written s) (pipeline J ping s) (lk_lost s) (lk_discarded s) q"
      using ok keep balanced_same unfolding link_ok_def by metis
    ultimately show ?thesis using ok subs Pair Disconnected buffered by (simp add: relay_one_def link_ok_def pipeline_def)
  qed
qed

lemma keeps_ping:
  assumes "link_ok J ping s" "lk_phase s = Up"
  shows "link_ok J ping (heartbeat_ping J ping s)"
proof -
  have "\<not> charged J ping ping" by (simp add: charged_def)
  then show ?thesis using assms
    by (auto simp: heartbeat_ping_def wire_send_def link_ok_def pipeline_def Let_def)
qed

text \<open>A line that was written is credited without a panic.\<close>

lemma write_credits:
  assumes ok: "link_ok J ping s" and running: "lk_writer s = Running"
  shows "\<exists>s'. write_line J ping w s = Some s' \<and> link_ok J ping s'"
proof (cases "lk_wire s")
  case Nil
  then show ?thesis using ok by (simp add: write_line_def)
next
  case (Cons l ls)
  have unsent: "lk_unsent s = []" using ok running by (simp add: link_ok_def)
  show ?thesis
  proof (cases "w \<and> charged J ping l")
    case True
    then have "balanced (lk_admitted s) (lk_written s)
        (l # (filter (charged J ping) (ls @ lk_buffered s) @ og_lines (lk_out s))) (lk_lost s) (lk_discarded s) (lk_out s)"
      using ok Cons unsent by (simp add: link_ok_def pipeline_def)
    from balanced_write [OF this] obtain q where
      "credit l (lk_out s) = Some q" "og_lines q = og_lines (lk_out s)" "og_subscriptions q = og_subscriptions (lk_out s)"
      "balanced (lk_admitted s) (lk_written s @ [l]) (filter (charged J ping) (ls @ lk_buffered s) @ og_lines (lk_out s))
        (lk_lost s) (lk_discarded s) q" by blast
    then show ?thesis using ok Cons unsent running True
      by (auto simp: write_line_def sent_def charged_def link_ok_def pipeline_def)
  next
    case False
    then show ?thesis using ok Cons unsent running
      by (auto simp: write_line_def link_ok_def pipeline_def)
  qed
qed

lemma keeps_return:
  assumes "link_ok J ping s"
    and "lk_writer s = Failing \<or> lk_writer s = Running \<and> lk_phase s = Ending \<and> lk_wire s = []"
  shows "link_ok J ping (writer_returns s)"
  using assms by (auto simp: writer_returns_def link_ok_def pipeline_def)

lemma keeps_break: "link_ok J ping s \<Longrightarrow> lk_phase s = Up \<Longrightarrow> link_ok J ping (s\<lparr>lk_phase := Ending\<rparr>)"
  by (auto simp: link_ok_def pipeline_def)

lemma filter_charged_change: "filter (charged J ping) (filter (\<lambda>l. subscription_key J l = None) ls) = filter (charged J ping) ls"
  by (induction ls) (auto simp: charged_def)

lemma keeps_finish:
  "link_ok J ping s \<Longrightarrow> lk_phase s = Ending \<Longrightarrow> lk_writer s = Gone \<Longrightarrow> link_ok J ping (finish_connection J s)"
  by (auto simp: finish_connection_def link_ok_def pipeline_def filter_charged_change list_all_iff
      simp del: filter_filter)

lemma keeps_buffer:
  assumes ok: "link_ok J ping s" and phase: "lk_phase s = Down"
  shows "link_ok J ping (buffer_one J s)"
proof (cases "recv (lk_out s)")
  case (Pair q r)
  note keep = recv_cases [OF Pair]
  have subs: "list_all (\<lambda>(k, l). subscription_key J l = Some k) (og_subscriptions q)"
    using recv_keeps_subs [OF Pair] ok by (simp add: link_ok_def)
  have books: "balanced (lk_admitted s) (lk_written s) (pipeline J ping s) (lk_lost s) (lk_discarded s) q"
    using ok keep balanced_same unfolding link_ok_def by metis
  have down: "lk_unsent s = []" "lk_wire s = []" using ok phase by (simp_all add: link_ok_def)
  show ?thesis
  proof (cases r)
    case (Received l)
    from ok Pair [unfolded Received] show ?thesis
    proof (cases rule: recv_line)
      case line
      with books ok subs down Pair Received phase show ?thesis
        by (auto simp: buffer_one_def link_ok_def pipeline_def charged_def)
    next
      case (change k)
      with books ok subs down Pair Received phase show ?thesis
        by (auto simp: buffer_one_def link_ok_def pipeline_def)
    qed
  qed (use books ok subs down keep Pair phase in \<open>auto simp: buffer_one_def link_ok_def pipeline_def\<close>)
qed

text \<open>Discarding the retained writes credits exactly their lines.\<close>

lemma fold_sent:
  "list_all (\<lambda>l. subscription_key J l = None) ls \<Longrightarrow> fold_opt (sent J) ls q = fold_opt credit ls q"
  by (induction ls arbitrary: q) (auto simp: sent_def split: bind_splits)

lemma filter_retained_charged:
  assumes "ping_ok J ping" "list_all (\<lambda>l. subscription_key J l = None) ls"
  shows "filter (retained_write J) (filter (charged J ping) ls) = filter (retained_write J) ls"
    and "filter (\<lambda>l. \<not> retained_write J l) (filter (charged J ping) ls)
       = filter (charged J ping) (filter (\<lambda>l. \<not> retained_write J l) ls)"
  using assms by (induction ls) (auto simp: ping_ok_def charged_def)

lemma weight_filter: "weight (filter P ls) \<le> weight ls"
  by (induction ls) auto

lemma forget_credits:
  assumes ok: "link_ok J ping s" and phase: "lk_phase s = Down" and ping: "ping_ok J ping"
  shows "\<exists>s'. forget_retained J s = Some s' \<and> link_ok J ping s'"
proof -
  let ?q = "lk_out s" and ?bs = "lk_buffered s"
  let ?r1 = "filter (retained_write J) ?bs" and ?r2 = "filter (retained_write J) (og_lines ?q)"
  have down: "lk_unsent s = []" "lk_wire s = []" and bs: "list_all (\<lambda>l. subscription_key J l = None) ?bs"
    using ok phase by (simp_all add: link_ok_def)
  note charged_bs = filter_retained_charged [OF ping bs]
  have pipe: "filter (retained_write J) (pipeline J ping s) = ?r1 @ ?r2"
    "filter (\<lambda>l. \<not> retained_write J l) (pipeline J ping s)
       = filter (charged J ping) (filter (\<lambda>l. \<not> retained_write J l) ?bs) @ filter (\<lambda>l. \<not> retained_write J l) (og_lines ?q)"
    using down charged_bs by (simp_all add: pipeline_def del: filter_filter)
  have books: "balanced (lk_admitted s) (lk_written s) (pipeline J ping s) (lk_lost s) (lk_discarded s) ?q"
    using ok by (simp add: link_ok_def)
  have "length (?r1 @ ?r2) \<le> length (pipeline J ping s)" unfolding pipe(1) [symmetric] by simp
  moreover have "weight (?r1 @ ?r2) \<le> weight (pipeline J ping s)"
    unfolding pipe(1) [symmetric] by (rule weight_filter)
  ultimately have room: "length ?r1 + length ?r2 \<le> og_count ?q" "weight ?r1 + weight ?r2 \<le> og_bytes ?q"
    using books by (simp_all add: balanced_def)
  define q1 where "q1 = ?q\<lparr>og_count := og_count ?q - length ?r1, og_bytes := og_bytes ?q - weight ?r1\<rparr>"
  define q2 where "q2 = q1\<lparr>og_count := og_count q1 - length ?r2, og_bytes := og_bytes q1 - weight ?r2\<rparr>"
  have "list_all (\<lambda>l. subscription_key J l = None) ?r1" using bs by (simp add: list_all_iff)
  then have "fold_opt (sent J) ?r1 ?q = Some q1"
    using room fold_credit [of ?r1 ?q] by (simp add: fold_sent q1_def)
  moreover have "fold_opt credit (filter (retained_write J) (og_lines q1)) q1 = Some q2"
    using room fold_credit [of ?r2 q1] by (simp add: q1_def q2_def)
  ultimately have discard: "discard_retained_writes J ?bs ?q
      = Some (filter (\<lambda>l. \<not> retained_write J l) ?bs, q2\<lparr>og_lines := filter (\<lambda>l. \<not> retained_write J l) (og_lines ?q)\<rparr>)"
    by (simp add: discard_retained_writes_def q1_def q2_def)
  have "balanced (lk_admitted s) (lk_written s) (filter (\<lambda>l. \<not> retained_write J l) (pipeline J ping s)) (lk_lost s)
      (lk_discarded s @ filter (retained_write J) (pipeline J ping s)) (q2\<lparr>og_lines := filter (\<lambda>l. \<not> retained_write J l) (og_lines ?q)\<rparr>)"
    by (rule balanced_discard [OF books]) (simp_all add: pipe(1) q1_def q2_def)
  then show ?thesis
    using ok phase down discard unfolding pipe
    by (auto simp: forget_retained_def link_ok_def pipeline_def list_all_iff q1_def q2_def simp del: filter_filter)
qed

lemma step_keeps_link:
  assumes "link_step J ping s s'" "link_ok J ping s" "ping_ok J ping"
  shows "link_ok J ping s'"
  using assms
proof cases
  case (step_write ok)
  with assms(2) show ?thesis using write_credits [of J ping s ok] by auto
next
  case step_forget
  with assms(2,3) show ?thesis using forget_credits [of J ping s] by auto
qed (simp_all add: assms(2) keeps_admit keeps_begin keeps_drain keeps_relay keeps_ping keeps_return keeps_break
    keeps_finish keeps_buffer)

lemma reach_link_ok: "link_reach J ping s \<Longrightarrow> ping_ok J ping \<Longrightarrow> link_ok J ping s"
  by (induction rule: link_reach.induct) (auto intro: link_ok_start step_keeps_link)


subsection \<open>Changes of subscription\<close>

text \<open>Of the changes admitted, the latest of each topic, in the order of their admission.\<close>

definition newest :: "(string \<times> string) list \<Rightarrow> (string \<times> string) list" where
  "newest changes = foldl (\<lambda>acc (k, l). filter (\<lambda>(topic, _). topic \<noteq> k) acc @ [(k, l)]) [] changes"

lemma newest_snoc [simp]: "newest (changes @ [(k, l)]) = filter (\<lambda>(topic, _). topic \<noteq> k) (newest changes) @ [(k, l)]"
  by (simp add: newest_def)

lemma newest_is_newest:
  "distinct (map fst (newest changes)) \<and> map_of (newest changes) = map_of (rev changes)"
proof (induction changes rule: rev_induct)
  case (snoc c changes)
  obtain k l where c: "c = (k, l)" by fastforce
  have "distinct (map fst (filter P (newest changes)))" for P using snoc by (simp add: distinct_map_filter)
  moreover have "map_of (filter (\<lambda>(topic, _). topic \<noteq> k) cs @ [(k, l)]) = (map_of cs)(k \<mapsto> l)" for cs :: "(string \<times> string) list"
    by (induction cs) (auto simp: fun_eq_iff)
  ultimately show ?case using snoc by (auto simp: c)
qed (simp add: newest_def)

definition changes_ok :: "link \<Rightarrow> bool" where
  "changes_ok s \<longleftrightarrow> (\<exists>received. newest (lk_changes s) = received @ og_subscriptions (lk_out s)
     \<and> snd ` set received \<subseteq> set (lk_taken s))"

lemma recv_change:
  "recv q = (q', r) \<Longrightarrow> (case og_subscriptions q of
     (k, l) # subs \<Rightarrow> r = Received l \<and> og_subscriptions q' = subs
   | [] \<Rightarrow> og_subscriptions q' = [])"
proof (induction q arbitrary: q' r rule: recv.induct)
  case (1 q)
  show ?case
  proof (cases "og_subscriptions q = [] \<and> og_lines q = [] \<and> og_notes q > 0")
    case True
    then have "recv (q\<lparr>og_notes := og_notes q - 1\<rparr>) = (q', r)" using 1(2) by (simp add: recv.simps [of q])
    with 1(1) True show ?thesis by simp
  next
    case False
    then show ?thesis using 1(2) by (auto simp: recv.simps [of q] split: list.splits if_splits)
  qed
qed

lemma changes_frame:
  "changes_ok s \<Longrightarrow> lk_changes s' = lk_changes s \<Longrightarrow> lk_taken s' = lk_taken s \<Longrightarrow>
     og_subscriptions (lk_out s') = og_subscriptions (lk_out s) \<Longrightarrow> changes_ok s'"
  by (simp add: changes_ok_def)

lemma changes_admit:
  assumes "changes_ok s"
  shows "changes_ok (admit J l s)"
proof (cases "try_send J l (lk_out s)")
  case (Pair q e)
  show ?thesis
  proof (cases e)
    case (Some x)
    with Pair have "q = lk_out s" using try_send_refused by simp
    with Pair Some assms show ?thesis by (simp add: admit_def)
  next
    case e: None
    show ?thesis
    proof (cases "subscription_key J l")
      case None
      with assms Pair e try_send_line [OF Pair [unfolded e] None] show ?thesis by (simp add: admit_def changes_ok_def)
    next
      case (Some k)
      from assms obtain received where r: "newest (lk_changes s) = received @ og_subscriptions (lk_out s)"
        "snd ` set received \<subseteq> set (lk_taken s)" by (auto simp: changes_ok_def)
      then show ?thesis using Pair e Some try_send_change [OF Pair [unfolded e] Some]
        by (auto simp: admit_def changes_ok_def intro!: exI [of _ "filter (\<lambda>(topic, _). topic \<noteq> k) received"])
    qed
  qed
qed

lemma changes_recv:
  assumes "changes_ok s" "recv (lk_out s) = (q, r)"
    and "\<forall>(k, l)\<in>set (og_subscriptions (lk_out s)). subscription_key J l = Some k"
    and "lk_changes s' = lk_changes s" "lk_out s' = q"
    and "lk_taken s' = (case r of Received l \<Rightarrow> lk_taken (taken J l s) | _ \<Rightarrow> lk_taken s)"
  shows "changes_ok s'"
proof -
  from assms(1) obtain received where r: "newest (lk_changes s) = received @ og_subscriptions (lk_out s)"
    "snd ` set received \<subseteq> set (lk_taken s)" by (auto simp: changes_ok_def)
  have grows: "set (lk_taken s) \<subseteq> set (lk_taken s')" using assms(6) by (cases r) (auto simp: taken_def)
  show ?thesis
  proof (cases "og_subscriptions (lk_out s)")
    case Nil
    then show ?thesis using r grows recv_change [OF assms(2)] assms(4,5) by (auto simp: changes_ok_def)
  next
    case (Cons c subs)
    obtain k l where c: "c = (k, l)" by fastforce
    then have "r = Received l" "og_subscriptions q = subs" "subscription_key J l = Some k"
      using recv_change [OF assms(2)] Cons assms(3) by simp_all
    then show ?thesis using r grows Cons c assms(4-6)
      by (auto simp: changes_ok_def taken_def intro!: exI [of _ "received @ [(k, l)]"])
  qed
qed

lemma wire_send_changes [simp]:
  "lk_changes (wire_send J ping l s) = lk_changes s" "lk_taken (wire_send J ping l s) = lk_taken s"
  "lk_out (wire_send J ping l s) = lk_out s"
  by (simp_all add: wire_send_def)

lemma credit_subscriptions: "credit l q = Some q' \<Longrightarrow> og_subscriptions q' = og_subscriptions q"
  by (auto simp: credit_def split: if_splits)

lemma sent_subscriptions: "sent J l q = Some q' \<Longrightarrow> og_subscriptions q' = og_subscriptions q"
  by (auto simp: sent_def dest: credit_subscriptions split: if_splits)

lemma fold_subscriptions:
  assumes "\<And>l q q'. f l q = Some q' \<Longrightarrow> og_subscriptions q' = og_subscriptions q"
  shows "fold_opt f ls q = Some q' \<Longrightarrow> og_subscriptions q' = og_subscriptions q"
  by (induction ls arbitrary: q) (auto dest: assms split: option.splits bind_splits)

lemma forget_changes:
  assumes "forget_retained J s = Some s'"
  shows "lk_changes s' = lk_changes s \<and> lk_taken s' = lk_taken s
    \<and> og_subscriptions (lk_out s') = og_subscriptions (lk_out s)"
proof -
  note folds = fold_subscriptions [where f = "sent J", OF sent_subscriptions] fold_subscriptions [where f = credit, OF credit_subscriptions]
  show ?thesis using assms folds
    by (auto simp: forget_retained_def discard_retained_writes_def bind_eq_Some_conv)
qed

lemma step_keeps_changes:
  assumes "link_step J ping s s'" "changes_ok s"
    and subs: "\<forall>(k, l)\<in>set (og_subscriptions (lk_out s)). subscription_key J l = Some k"
  shows "changes_ok s'"
  using assms(1)
proof cases
  case (step_admit l)
  then show ?thesis using changes_admit [OF assms(2)] by simp
next
  case step_relay
  obtain q r where "recv (lk_out s) = (q, r)" by fastforce
  from changes_recv [OF assms(2) this subs] this show ?thesis
    unfolding step_relay by (cases r) (simp_all add: relay_one_def Let_def taken_def)
next
  case step_buffer
  obtain q r where "recv (lk_out s) = (q, r)" by fastforce
  from changes_recv [OF assms(2) this subs] this show ?thesis
    unfolding step_buffer by (cases r) (simp_all add: buffer_one_def taken_def)
next
  case (step_write ok)
  then show ?thesis using assms(2)
    by (auto simp: write_line_def elim!: changes_frame dest!: sent_subscriptions split: list.splits if_splits)
next
  case step_forget
  then show ?thesis using assms(2) forget_changes changes_frame by blast
qed (auto intro!: changes_frame [OF assms(2)] simp: begin_connection_def drain_one_def heartbeat_ping_def writer_returns_def
    finish_connection_def Let_def split: list.split)

lemma reach_changes_ok: "link_reach J ping s \<Longrightarrow> ping_ok J ping \<Longrightarrow> changes_ok s"
proof (induction rule: link_reach.induct)
  case reach_start
  then show ?case by (simp add: changes_ok_def link_start_def newest_def og_channel_def)
next
  case (reach_step s s')
  then have "link_ok J ping s" by (simp add: reach_link_ok)
  then show ?case using reach_step step_keeps_changes by (fastforce simp: link_ok_def list_all_iff)
qed

lemma queued_changes:
  assumes "changes_ok s"
  shows "distinct (map fst (og_subscriptions (lk_out s)))"
    "(k, l) \<in> set (og_subscriptions (lk_out s)) \<Longrightarrow> map_of (rev (lk_changes s)) k = Some l"
    "map_of (rev (lk_changes s)) k = Some l \<Longrightarrow> (k, l) \<in> set (og_subscriptions (lk_out s)) \<or> l \<in> set (lk_taken s)"
proof -
  from assms obtain received where r: "newest (lk_changes s) = received @ og_subscriptions (lk_out s)"
    "snd ` set received \<subseteq> set (lk_taken s)" by (auto simp: changes_ok_def)
  note new = newest_is_newest [of "lk_changes s"]
  show "distinct (map fst (og_subscriptions (lk_out s)))" using new r(1) by simp
  show "map_of (rev (lk_changes s)) k = Some l" if "(k, l) \<in> set (og_subscriptions (lk_out s))"
  proof -
    have "(k, l) \<in> set (newest (lk_changes s))" using that r(1) by simp
    then show ?thesis using new map_of_is_SomeI by metis
  qed
  show "(k, l) \<in> set (og_subscriptions (lk_out s)) \<or> l \<in> set (lk_taken s)" if "map_of (rev (lk_changes s)) k = Some l"
  proof -
    have "(k, l) \<in> set (newest (lk_changes s))" using that new map_of_SomeD by metis
    then show ?thesis using r by force
  qed
qed

subsection \<open>Properties\<close>


text \<open>A client whose first write fails after the next request was taken off the queue.\<close>

lemma run_to_failure:
  assumes "subscription_key J k = None" "k \<noteq> ping" "subscription_key J l = None" "l \<noteq> ping"
    and "length k + length l \<le> MAX_BYTES"
  shows "\<exists>s. link_reach J ping s \<and> lk_phase s = Ending \<and> lk_writer s = Gone \<and> lk_written s = [] \<and> lk_wire s = []
    \<and> lk_unsent s = [k] \<and> lk_buffered s = [] \<and> og_lines (lk_out s) = [] \<and> lk_admitted s = [k, l] \<and> lk_lost s = [l]
    \<and> og_count (lk_out s) = 2 \<and> lk_discarded s = []"
proof -
  let ?s1 = "admit J k link_start"
  let ?s3 = "drain_one J ping (begin_connection ?s1)"
  let ?s4 = "relay_one J ping ?s3"
  let ?s5 = "the (write_line J ping False ?s4)"
  let ?s7 = "admit J l (writer_returns ?s5)"
  have d: "lk_phase (begin_connection ?s1) = Draining" "lk_phase ?s1 = Down" "lk_phase ?s3 = Up"
    "lk_wire ?s4 = [k]" "lk_writer ?s4 = Running" "write_line J ping False ?s4 = Some ?s5" "lk_writer ?s5 = Failing"
    "lk_phase ?s7 = Up"
    using assms
    by (simp_all add: admit_def try_send_def link_start_def og_channel_def MAX_LINES_def begin_connection_def drain_one_def
        relay_one_def recv.simps notify_def wire_send_def write_line_def writer_returns_def Let_def)
  have "link_reach J ping ?s1" by (rule reach_step [OF reach_start step_admit]) (rule assms(2))
  then have "link_reach J ping (begin_connection ?s1)" by (rule reach_step) (rule step_begin [OF d(2)])
  then have "link_reach J ping ?s3" by (rule reach_step) (rule step_drain [OF d(1)])
  then have "link_reach J ping ?s4" by (rule reach_step) (rule step_relay [OF d(3)])
  then have "link_reach J ping ?s5" by (rule reach_step) (rule step_write [OF d(5,6)])
  then have "link_reach J ping (writer_returns ?s5)" by (rule reach_step) (rule step_return, simp add: d(7))
  then have "link_reach J ping ?s7" by (rule reach_step) (rule step_admit [OF assms(4)])
  then have "link_reach J ping (relay_one J ping ?s7)" by (rule reach_step) (rule step_relay [OF d(8)])
  moreover have "lk_phase (relay_one J ping ?s7) = Ending \<and> lk_writer (relay_one J ping ?s7) = Gone"
    using assms
    by (simp add: admit_def try_send_def link_start_def og_channel_def MAX_LINES_def begin_connection_def drain_one_def
        relay_one_def recv.simps notify_def wire_send_def write_line_def writer_returns_def Let_def charged_def)
  ultimately show ?thesis
    using assms
    apply (intro exI [of _ "relay_one J ping ?s7"])
    by (simp add: admit_def try_send_def link_start_def og_channel_def MAX_LINES_def begin_connection_def drain_one_def
        relay_one_def recv.simps notify_def wire_send_def write_line_def writer_returns_def Let_def charged_def)
qed

text \<open>C20: A connection whose write fails loses a request: the writer task has given up its end of the
  channel, the request taken off the queue next comes back in an error the loop drops, and it is in
  neither the buffer for the next connection nor the queue. Its charge is never given back: two lines
  are charged and one is held.\<close>

theorem failed_write_loses_the_next_request:
  assumes "subscription_key J k = None" "k \<noteq> ping" "subscription_key J l = None" "l \<noteq> ping"
    and "length k + length l \<le> MAX_BYTES"
  shows "\<exists>s. link_reach J ping s \<and> lk_phase s = Down \<and> lk_admitted s = [k, l] \<and> lk_written s = []
    \<and> lk_buffered s = [k] \<and> og_lines (lk_out s) = [] \<and> lk_lost s = [l] \<and> og_count (lk_out s) = 2"
proof -
  obtain s where s: "link_reach J ping s" "lk_phase s = Ending" "lk_writer s = Gone" "lk_written s = []"
    "lk_unsent s = [k]" "lk_buffered s = []" "og_lines (lk_out s) = []" "lk_admitted s = [k, l]" "lk_lost s = [l]"
    "og_count (lk_out s) = 2"
    using run_to_failure [OF assms] by blast
  have "link_reach J ping (finish_connection J s)" by (rule reach_step [OF s(1) step_finish [OF s(2,3)]])
  then show ?thesis using s assms(1) by (intro exI [of _ "finish_connection J s"]) (simp add: finish_connection_def)
qed

subsection \<open>Witnesses\<close>

definition plain_lines :: serde where
  "plain_lines = \<lparr>from_str = (\<lambda>_. None), to_str = (\<lambda>_. [])\<rparr>"

lemma plain_lines_key [simp]: "subscription_key plain_lines l = None" "\<not> retained_write plain_lines l"
  by (simp_all add: subscription_key_def plain_lines_def retained_write_def)

text \<open>A topic subscribed twice before a request.\<close>

definition two_changes :: serde where
  "two_changes = \<lparr>from_str = (\<lambda>l. if l = ''s'' \<or> l = ''t''
       then Some (JObject [(''payload'', JObject [(''type'', JText ''subscribe''), (''content'', JObject [(''topic'', JNull)])])])
       else None), to_str = (\<lambda>_. ''top'')\<rparr>"

lemma two_changes_key:
  "subscription_key two_changes ''s'' = Some ''top''" "subscription_key two_changes ''t'' = Some ''top''"
  "subscription_key two_changes ''a'' = None" "ping_ok two_changes ''ping''"
  by code_simp+


theorem failed_write_loses_the_next_request_witness:
  "\<exists>s. link_reach plain_lines ''ping'' s \<and> lk_buffered s = [''a''] \<and> lk_lost s = [''b''] \<and> og_count (lk_out s) = 2"
  using failed_write_loses_the_next_request [of plain_lines "''a''" "''ping''" "''b''"]
  by (auto simp: MAX_BYTES_def)

end
