(* ===== verification/Commands.thy ===== *)
theory Commands
  imports Agent_Events
begin

section \<open>Commands of a client\<close>

text \<open>
  The commands a client sends to the host (\<^verbatim>\<open>protocol/src/command.rs\<close>). The enum has 122 variants;
  it is split here into groups, one datatype each, which the type \<open>command\<close> joins, and nothing else is
  changed: a constructor has the fields of its variant in their order. Payloads that no modelled
  function looks into (patches, review edits, grants, selections, JSON answers) are of type \<open>'j\<close>; a
  path is the string of its bytes, an \<open>f32\<close> its bit pattern.
\<close>

datatype (plugins only: code) 'j terminal_command =
    TerminalInput u64 string
  | ResizeTerminal u64 "16 word" "16 word" "16 word" "16 word"
  | ClearTerminal u64
  | SetTerminalHeight string "32 word"
  | ToggleTerminalPanel string
  | CloseTerminalPanel string
  | RestartTerminal string
  | NewTerminal string
  | SplitTerminal string 'j
  | ActivateTerminal string u64
  | CloseTerminal string u64
  | CaptureTerminalSelection string u64 "'j option"
  | RemoveTerminalContext string u64

datatype (plugins only: code) 'j host_command =
    PreviewReply u64 'j
  | ApplyPendingRelaunch
  | OpenLatestSession
  | ShutdownAllAndFlush
  | ReloadProvider
  | SetHostToken string "string option" "string option"
  | RefreshHostCredentials
  | SetSidebarCollapsed bool
  | ResetSettings
  | WriteRelaunchMarker string string
  | ClearRelaunchMarker
  | PatchSettings 'j
  | ToggleFavoriteModel string

datatype (plugins only: code) 'j pull_request_command =
    LinkPullRequest string string
  | UnlinkPullRequest string 'j
  | WatchPullRequest string 'j bool
  | SetPullRequestWatchesPaused string bool
  | RefreshPullRequest string 'j
  | SetPullRequestFilesViewed string 'j "string list" bool
  | RunPullRequestAction string 'j 'j
  | EditPullRequestReviewDraft string 'j 'j
  | AddReviewComment string 'j
  | RemoveReviewComment string nat

datatype (plugins only: code) 'j profile_command =
    SetProfileSecret string string "string option"
  | UpdateProfileSettings string 'j
  | CreateThirdPartyProfile string string "string option" string bool
  | CreateAccountProfile provider_kind string bool
  | DeleteProfile string
  | StartProviderLogin string
  | SubmitProviderLoginCode string string
  | CancelProviderLogin string
  | LogoutProvider string
  | RefreshProviderStatus
  | RefreshProviderUsage
  | CheckProviderVersions
  | UpdateProviders "provider_kind list"

datatype (plugins only: code) 'j agent_command =
    RefreshAcpRegistry
  | InstallAcpAgent string
  | RemoveAcpAgent string
  | AddCustomAcpAgent string string "string list" "(string \<times> string) list"
  | UpdateAcpAgent string 'j
  | SetActiveAcpAgent string string
  | RefreshProviderPlugins string "string option"
  | InstallProviderPlugin string string 'j "string option"
  | UninstallProviderPlugin string string 'j "string option"
  | SetProviderPluginEnabled string string 'j bool "string option"
  | UpdateProviderPlugin string string 'j "string option"
  | AddProviderMarketplace string string "string option"
  | RemoveProviderMarketplace string string "string option"
  | ResolvePluginChallenge 'j bool

datatype (plugins only: code) 'j project_command =
    CycleProjectSort
  | SetProjectIcon string "string option"
  | CreateProject string
  | CreateNewProject string
  | SetProjectRoot string string bool
  | StartExternalImport string "'j list"
  | ToggleProjectCollapsed string
  | DeleteProject string
  | StartDraft string string
  | StartScratchDraft

datatype (plugins only: code) 'j thread_command =
    SettleChildren string
  | SettleSession string
  | SetControlGrant string "'j option"
  | RespondControlGrant string string bool
  | AddThreadReference string string
  | RemoveThreadReference string string
  | SetFollowUp string "'j option"
  | SetParked string bool
  | DismissSettleSuggestion string
  | RevokeSelfSettle string
  | CancelAgent string
  | SetAutoSettle string bool
  | UnsettleSession string

datatype (plugins only: code) 'j index_command =
    PinSession string "string option"
  | UnpinSession string
  | ReorderPinned string string
  | ReorderActive string string
  | ArchiveSession string
  | UnarchiveSession string
  | RenameSession string string
  | RegenerateSessionTitle string
  | ForkThread string
  | MoveSession string string "string option"
  | DeleteSession string bool
  | MergeWorktree string
  | MarkSessionUnread string
  | MarkSessionRead string u64
  | SetDraftWorkspace string 'j

datatype (plugins only: code) 'j turn_command =
    OrchestrateTurn string string "string list"
  | SendTurn string string "string list"
  | ScheduleTurn string string "string list" u64
  | ConfirmRelayAndSend string string "string list"
  | Steer string string "string list"
  | SteerQueued string u64
  | DropQueued string u64
  | MoveQueued string u64 "(u64) option"
  | RetryTurn string string
  | Interrupt string
  | CompactContext string
  | SetGoal string "string option" "(goal_status) option"
  | ClearGoal string
  | RespondApproval string string approval_decision
  | RespondUserInput string string 'j

datatype (plugins only: code) 'j option_command =
    SetActiveModel string provider_kind "string option" "string option"
  | SetActiveOption string string "'j option"
  | LoadBranches string
  | CheckoutBranch string string
  | RunGitAction string 'j "string option" "(string list) option" "string option"
  | RewindTurn string nat rewind_mode

datatype (plugins only: code) 'j command =
    TerminalCommand "'j terminal_command"
  | HostCommand "'j host_command"
  | PullRequestCommand "'j pull_request_command"
  | ProfileCommand "'j profile_command"
  | AgentCommand "'j agent_command"
  | ProjectCommand "'j project_command"
  | ThreadCommand "'j thread_command"
  | IndexCommand "'j index_command"
  | TurnCommand "'j turn_command"
  | OptionCommand "'j option_command"

subsection \<open>The thread a command addresses\<close>

fun terminal_session :: "'j terminal_command \<Rightarrow> string option" where
  "terminal_session (SetTerminalHeight s _) = Some s"
| "terminal_session (ToggleTerminalPanel s) = Some s"
| "terminal_session (CloseTerminalPanel s) = Some s"
| "terminal_session (RestartTerminal s) = Some s"
| "terminal_session (NewTerminal s) = Some s"
| "terminal_session (SplitTerminal s _) = Some s"
| "terminal_session (ActivateTerminal s _) = Some s"
| "terminal_session (CloseTerminal s _) = Some s"
| "terminal_session (CaptureTerminalSelection s _ _) = Some s"
| "terminal_session (RemoveTerminalContext s _) = Some s"
| "terminal_session _ = None"

fun pull_request_session :: "'j pull_request_command \<Rightarrow> string option" where
  "pull_request_session (LinkPullRequest s _) = Some s"
| "pull_request_session (UnlinkPullRequest s _) = Some s"
| "pull_request_session (WatchPullRequest s _ _) = Some s"
| "pull_request_session (SetPullRequestWatchesPaused s _) = Some s"
| "pull_request_session (RefreshPullRequest s _) = Some s"
| "pull_request_session (SetPullRequestFilesViewed s _ _ _) = Some s"
| "pull_request_session (RunPullRequestAction s _ _) = Some s"
| "pull_request_session (EditPullRequestReviewDraft s _ _) = Some s"
| "pull_request_session (AddReviewComment s _) = Some s"
| "pull_request_session (RemoveReviewComment s _) = Some s"

fun agent_session :: "'j agent_command \<Rightarrow> string option" where
  "agent_session (SetActiveAcpAgent s _) = Some s"
| "agent_session _ = None"

fun thread_session :: "'j thread_command \<Rightarrow> string option" where
  "thread_session (SettleChildren s) = Some s"
| "thread_session (SettleSession s) = Some s"
| "thread_session (SetControlGrant s _) = Some s"
| "thread_session (RespondControlGrant s _ _) = Some s"
| "thread_session (AddThreadReference s _) = Some s"
| "thread_session (RemoveThreadReference s _) = Some s"
| "thread_session (SetFollowUp s _) = Some s"
| "thread_session (SetParked s _) = Some s"
| "thread_session (DismissSettleSuggestion s) = Some s"
| "thread_session (RevokeSelfSettle s) = Some s"
| "thread_session (CancelAgent s) = Some s"
| "thread_session (SetAutoSettle s _) = Some s"
| "thread_session (UnsettleSession s) = Some s"

fun index_session :: "'j index_command \<Rightarrow> string option" where
  "index_session (PinSession s _) = Some s"
| "index_session (UnpinSession s) = Some s"
| "index_session (ReorderPinned s _) = Some s"
| "index_session (ReorderActive s _) = Some s"
| "index_session (ArchiveSession s) = Some s"
| "index_session (UnarchiveSession s) = Some s"
| "index_session (RenameSession s _) = Some s"
| "index_session (RegenerateSessionTitle s) = Some s"
| "index_session (ForkThread s) = Some s"
| "index_session (MoveSession s _ _) = Some s"
| "index_session (DeleteSession s _) = Some s"
| "index_session (MergeWorktree s) = Some s"
| "index_session (MarkSessionUnread s) = Some s"
| "index_session (MarkSessionRead s _) = Some s"
| "index_session (SetDraftWorkspace s _) = Some s"

fun turn_session :: "'j turn_command \<Rightarrow> string option" where
  "turn_session (OrchestrateTurn s _ _) = Some s"
| "turn_session (SendTurn s _ _) = Some s"
| "turn_session (ScheduleTurn s _ _ _) = Some s"
| "turn_session (ConfirmRelayAndSend s _ _) = Some s"
| "turn_session (Steer s _ _) = Some s"
| "turn_session (SteerQueued s _) = Some s"
| "turn_session (DropQueued s _) = Some s"
| "turn_session (MoveQueued s _ _) = Some s"
| "turn_session (RetryTurn s _) = Some s"
| "turn_session (Interrupt s) = Some s"
| "turn_session (CompactContext s) = Some s"
| "turn_session (SetGoal s _ _) = Some s"
| "turn_session (ClearGoal s) = Some s"
| "turn_session (RespondApproval s _ _) = Some s"
| "turn_session (RespondUserInput s _ _) = Some s"

fun option_session :: "'j option_command \<Rightarrow> string option" where
  "option_session (SetActiveModel s _ _ _) = Some s"
| "option_session (SetActiveOption s _ _) = Some s"
| "option_session (LoadBranches s) = Some s"
| "option_session (CheckoutBranch s _) = Some s"
| "option_session (RunGitAction s _ _ _ _) = Some s"
| "option_session (RewindTurn s _ _) = Some s"

definition command_session :: "'j command \<Rightarrow> string option" where
  "command_session k = (case k of
     TerminalCommand c \<Rightarrow> terminal_session c
   | PullRequestCommand c \<Rightarrow> pull_request_session c
   | AgentCommand c \<Rightarrow> agent_session c
   | ThreadCommand c \<Rightarrow> thread_session c
   | IndexCommand c \<Rightarrow> index_session c
   | TurnCommand c \<Rightarrow> turn_session c
   | OptionCommand c \<Rightarrow> option_session c
   | _ \<Rightarrow> None)"

definition contains_secret :: "'j command \<Rightarrow> bool" where
  "contains_secret k = (case k of
     HostCommand (SetHostToken _ _ _) \<Rightarrow> True
   | ProfileCommand (SetProfileSecret _ _ _) \<Rightarrow> True
   | ProfileCommand (CreateThirdPartyProfile _ _ _ _ _) \<Rightarrow> True
   | ProfileCommand (SubmitProviderLoginCode _ _) \<Rightarrow> True
   | _ \<Rightarrow> False)"

definition requires_delivery_key :: "'j command \<Rightarrow> bool" where
  "requires_delivery_key k = (case k of
     TerminalCommand (ResizeTerminal _ _ _ _ _) \<Rightarrow> False
   | HostCommand (PreviewReply _ _) \<Rightarrow> False
   | HostCommand (ShutdownAllAndFlush) \<Rightarrow> False
   | HostCommand (OpenLatestSession) \<Rightarrow> False
   | HostCommand (RefreshHostCredentials) \<Rightarrow> False
   | PullRequestCommand (RunPullRequestAction _ _ _) \<Rightarrow> False
   | ProfileCommand (RefreshProviderStatus) \<Rightarrow> False
   | ProfileCommand (RefreshProviderUsage) \<Rightarrow> False
   | ProfileCommand (CheckProviderVersions) \<Rightarrow> False
   | AgentCommand (RefreshAcpRegistry) \<Rightarrow> False
   | AgentCommand (RefreshProviderPlugins _ _) \<Rightarrow> False
   | OptionCommand (LoadBranches _) \<Rightarrow> False
   | _ \<Rightarrow> True)"

end
