(* ===== verification/Delivery.thy ===== *)
theory Delivery
  imports Commands
begin

section \<open>Writes a client retains\<close>

text \<open>
  The ordered outbox of a client (\<^verbatim>\<open>client/src/lib.rs\<close>, \<^verbatim>\<open>outbox.rs\<close>). A write is kept, also on disk, until
  the host acknowledges it; it is sent in order without waiting for answers, and after a reconnect the
  whole queue is sent again under the same keys. The queue holds at most 256 writes and 8 MiB; the
  oldest writes make room for a new one and are reported as failed.

  Arguments of the model are the line a write is encoded as, the length of a line and of the stored
  snapshot (\<open>serde\<close>), whether the storage takes a snapshot, and the queue the lines go to. What is sent
  to the waiters of requests is collected in \<open>hl_replies\<close>.
\<close>

definition MAX_ITEMS :: nat where "MAX_ITEMS = 256"

definition OUTBOX_BYTES :: nat where "OUTBOX_BYTES = 8 * 1024 * 1024"

record 'j entry =
  ob_key :: string
  ob_command :: "'j command"

record 'j pending_write =
  pw_id :: u64
  pw_entry :: "'j entry"
  pw_sent :: "nat option"
  pw_adopted :: bool

record protocol_error =
  pe_code :: string
  pe_message :: string

record waiter =
  wt_query :: bool
  wt_retained :: bool

datatype connection_state = Connected | Syncing | Reconnecting | Offline

record ('j, 'l, 'q) link_env =
  le_encode :: "u64 \<Rightarrow> string \<Rightarrow> 'j command \<Rightarrow> 'l option"
  le_length :: "'l \<Rightarrow> nat"
  le_stored :: "'j entry list \<Rightarrow> nat"
  le_saves :: "'j entry list \<Rightarrow> bool"
  le_send :: "'l \<Rightarrow> 'q \<Rightarrow> 'q option"

record ('j, 'q) host_link =
  hl_writes :: "'j pending_write list"
  hl_stored :: "'j entry list option"
  hl_failed :: "('j entry \<times> protocol_error) list"
  hl_acknowledged :: "'j entry list"
  hl_pending :: "(u64 \<times> waiter) list"
  hl_replies :: "(u64 \<times> protocol_error option) list"
  hl_connection :: connection_state
  hl_queue :: 'q

definition link_up :: "('j, 'q) host_link \<Rightarrow> bool" where
  "link_up h \<longleftrightarrow> hl_connection h = Connected \<or> hl_connection h = Syncing"

subsection \<open>Sending\<close>

text \<open>The loop of \<open>flush_outbox\<close> over the writes that follow the sent ones.\<close>

primrec flush_from ::
    "('j, 'l, 'q) link_env \<Rightarrow> nat \<Rightarrow> 'j pending_write list \<Rightarrow> 'q \<Rightarrow> 'j pending_write list \<times> 'q" where
  "flush_from E now [] q = ([], q)"
| "flush_from E now (w # ws) q =
     (case le_encode E (pw_id w) (ob_key (pw_entry w)) (ob_command (pw_entry w)) of
        None \<Rightarrow> (w # ws, q)
      | Some line \<Rightarrow> (case le_send E line q of
          None \<Rightarrow> (w # ws, q)
        | Some q1 \<Rightarrow> (let (ws1, q2) = flush_from E now ws q1 in (w\<lparr>pw_sent := Some now\<rparr> # ws1, q2))))"

definition was_sent :: "'j pending_write \<Rightarrow> bool" where
  "was_sent w \<longleftrightarrow> pw_sent w \<noteq> None"

definition flush_outbox :: "('j, 'l, 'q) link_env \<Rightarrow> nat \<Rightarrow> ('j, 'q) host_link \<Rightarrow> ('j, 'q) host_link" where
  "flush_outbox E now h = (if \<not> link_up h then h
   else (let (ws, q) = flush_from E now (dropWhile was_sent (hl_writes h)) (hl_queue h) in
     h\<lparr>hl_writes := takeWhile was_sent (hl_writes h) @ ws, hl_queue := q\<rparr>))"

subsection \<open>Submitting a write\<close>

definition link_snapshot :: "'j pending_write list \<Rightarrow> 'j entry list" where
  "link_snapshot ws = map pw_entry (filter (\<lambda>w. \<not> contains_secret (ob_command (pw_entry w))) ws)"

text \<open>The bytes of the stored snapshot or of the lines on the wire, whichever is more; a write that cannot
  be encoded is an error.\<close>

primrec wire_bytes :: "('j, 'l, 'q) link_env \<Rightarrow> 'j pending_write list \<Rightarrow> nat option" where
  "wire_bytes E [] = Some 0"
| "wire_bytes E (w # ws) = do {
     line \<leftarrow> le_encode E (pw_id w) (ob_key (pw_entry w)) (ob_command (pw_entry w));
     n \<leftarrow> wire_bytes E ws;
     Some (le_length E line + n) }"

definition snapshot_bytes :: "('j, 'l, 'q) link_env \<Rightarrow> 'j pending_write list \<Rightarrow> nat option" where
  "snapshot_bytes E ws = map_option (max (le_stored E (link_snapshot ws))) (wire_bytes E ws)"

text \<open>The loop that makes room: what it evicts and what stays, or that the size could not be told. An
  empty outbox that is still too large is a panic.\<close>

datatype 'j eviction = Evicted "'j pending_write list" "'j pending_write list" | Unsized "'j pending_write list" | EvictPanic

primrec evict :: "('j, 'l, 'q) link_env \<Rightarrow> 'j pending_write list \<Rightarrow> 'j eviction" where
  "evict E [] = (case snapshot_bytes E [] of
     None \<Rightarrow> Unsized []
   | Some n \<Rightarrow> if n > OUTBOX_BYTES then EvictPanic else Evicted [] [])"
| "evict E (w # ws) =
     (if length (w # ws) > MAX_ITEMS then
        (case evict E ws of Evicted out stay \<Rightarrow> Evicted (w # out) stay | r \<Rightarrow> r)
      else (case snapshot_bytes E (w # ws) of
        None \<Rightarrow> Unsized (w # ws)
      | Some n \<Rightarrow> if n > OUTBOX_BYTES
          then (case evict E ws of Evicted out stay \<Rightarrow> Evicted (w # out) stay | r \<Rightarrow> r)
          else Evicted [] (w # ws)))"

text \<open>\<open>persist\<close>: nothing to do without a storage; \<^const>\<open>None\<close> is a failure.\<close>

definition persist :: "('j, 'l, 'q) link_env \<Rightarrow> ('j, 'q) host_link \<Rightarrow> ('j, 'q) host_link option" where
  "persist E h = (if hl_stored h = None then Some h
   else if le_saves E (link_snapshot (hl_writes h)) then Some (h\<lparr>hl_stored := Some (link_snapshot (hl_writes h))\<rparr>)
   else None)"

definition last_items :: "nat \<Rightarrow> 'a list \<Rightarrow> 'a list" where
  "last_items n xs = drop (length xs - n) xs"

definition outbox_full :: protocol_error where
  "outbox_full = \<lparr>pe_code = ''outbox_full'',
     pe_message = ''The oldest pending write exceeded the outbox limit''\<rparr>"

text \<open>Answering the waiter of a request, when it still has one.\<close>

definition answer :: "u64 \<Rightarrow> protocol_error option \<Rightarrow> ('j, 'q) host_link \<Rightarrow> ('j, 'q) host_link" where
  "answer i e h = (if map_of (hl_pending h) i = None then h
   else h\<lparr>hl_pending := filter (\<lambda>(j, _). j \<noteq> i) (hl_pending h), hl_replies := hl_replies h @ [(i, e)]\<rparr>)"

definition enqueue :: "('j, 'l, 'q) link_env \<Rightarrow> nat \<Rightarrow> u64 \<Rightarrow> string \<Rightarrow> 'j command \<Rightarrow> ('j, 'q) host_link
    \<Rightarrow> (('j, 'q) host_link \<times> protocol_error option) option" where
  "enqueue E now i uuid command h = (
     let w = \<lparr>pw_id = i, pw_entry = \<lparr>ob_key = uuid, ob_command = command\<rparr>, pw_sent = None, pw_adopted = False\<rparr> in
     if contains_secret command \<and> \<not> link_up h then
       Some (h, Some \<lparr>pe_code = ''disconnected'', pe_message = ''Saving a secret requires a connection''\<rparr>)
     else if le_encode E i uuid command = None then
       Some (h, Some \<lparr>pe_code = ''serialize'', pe_message = []\<rparr>)
     else (case evict E (hl_writes h @ [w]) of
       EvictPanic \<Rightarrow> None
     | Unsized ws \<Rightarrow> Some (h\<lparr>hl_writes := ws\<rparr>, Some \<lparr>pe_code = ''serialize'', pe_message = []\<rparr>)
     | Evicted out stay \<Rightarrow> (case persist E (h\<lparr>hl_writes := stay\<rparr>) of
         None \<Rightarrow> (let e = \<lparr>pe_code = ''outbox_storage'', pe_message = []\<rparr> in
           Some (h\<lparr>hl_writes := filter (\<lambda>v. pw_id v \<noteq> i) out @ filter (\<lambda>v. pw_id v \<noteq> i) stay,
             hl_failed := hl_failed h @ opt_list (map_option (\<lambda>v. (pw_entry v, e)) (find (\<lambda>v. pw_id v = i) (stay @ out)))\<rparr>,
             Some e))
       | Some h1 \<Rightarrow>
           (let h2 = h1\<lparr>hl_failed := last_items MAX_ITEMS (hl_failed h1 @ map (\<lambda>v. (pw_entry v, outbox_full)) out)\<rparr>;
                h3 = fold (\<lambda>v. answer (pw_id v) (Some outbox_full)) out h2
            in Some (flush_outbox E now h3, if \<exists>v\<in>set out. pw_id v = i
                 then Some \<lparr>pe_code = ''outbox_full'', pe_message = ''Write exceeds the outbox byte limit''\<rparr> else None)))))"

subsection \<open>Answers of the host\<close>

text \<open>The commands whose text a client shows until the thread's own record of it arrives.\<close>

definition adopts_record :: "'j command \<Rightarrow> bool" where
  "adopts_record k = (case k of
     TurnCommand (SendTurn _ _ _) \<Rightarrow> True
   | TurnCommand (ScheduleTurn _ _ _ _) \<Rightarrow> True
   | TurnCommand (Steer _ _ _) \<Rightarrow> True
   | TurnCommand (ConfirmRelayAndSend _ _ _) \<Rightarrow> True
   | TurnCommand (OrchestrateTurn _ _ _) \<Rightarrow> True
   | _ \<Rightarrow> False)"

text \<open>The acknowledged messages are bounded by number and by their size as JSON.\<close>

primrec trim_acknowledged :: "('j, 'l, 'q) link_env \<Rightarrow> 'j entry list \<Rightarrow> 'j entry list" where
  "trim_acknowledged E [] = []"
| "trim_acknowledged E (x # xs) =
     (if length (x # xs) > MAX_ITEMS \<or> le_stored E (x # xs) > OUTBOX_BYTES then trim_acknowledged E xs else x # xs)"

definition remove_write :: "nat \<Rightarrow> 'j pending_write list \<Rightarrow> 'j pending_write list" where
  "remove_write k ws = take k ws @ drop (Suc k) ws"

text \<open>An acknowledgement, with the error of the host if there is one: the write is no longer retained. A
  storage that fails is only logged.\<close>

definition settle_write :: "('j, 'l, 'q) link_env \<Rightarrow> u64 \<Rightarrow> protocol_error option \<Rightarrow> ('j, 'q) host_link \<Rightarrow> ('j, 'q) host_link" where
  "settle_write E i e h = (case position (\<lambda>w. pw_id w = i) (hl_writes h) of
     None \<Rightarrow> h
   | Some k \<Rightarrow>
       (let w = hl_writes h ! k;
            h1 = h\<lparr>hl_writes := remove_write k (hl_writes h)\<rparr>;
            h2 = (case e of
                Some err \<Rightarrow> h1\<lparr>hl_failed := last_items MAX_ITEMS (hl_failed h1 @ [(pw_entry w, err)])\<rparr>
              | None \<Rightarrow> if \<not> pw_adopted w \<and> adopts_record (ob_command (pw_entry w))
                  then h1\<lparr>hl_acknowledged := trim_acknowledged E (hl_acknowledged h1 @ [pw_entry w])\<rparr> else h1)
        in (case persist E h2 of Some h3 \<Rightarrow> h3 | None \<Rightarrow> h2)))"

definition on_ack :: "('j, 'l, 'q) link_env \<Rightarrow> nat \<Rightarrow> u64 \<Rightarrow> protocol_error option \<Rightarrow> ('j, 'q) host_link \<Rightarrow> ('j, 'q) host_link" where
  "on_ack E now i e h = flush_outbox E now (answer i e (settle_write E i e h))"

definition on_query_result :: "('j, 'l, 'q) link_env \<Rightarrow> nat \<Rightarrow> u64 \<Rightarrow> protocol_error option \<Rightarrow> ('j, 'q) host_link \<Rightarrow> ('j, 'q) host_link" where
  "on_query_result E now i e h = flush_outbox E now (answer i e h)"

text \<open>The client's own record of a message arrived before or after its acknowledgement.\<close>

definition retire_acknowledged_message :: "string \<Rightarrow> ('j, 'q) host_link \<Rightarrow> ('j, 'q) host_link" where
  "retire_acknowledged_message key h = h\<lparr>
     hl_acknowledged := filter (\<lambda>x. ob_key x \<noteq> key) (hl_acknowledged h),
     hl_writes := map (\<lambda>w. if ob_key (pw_entry w) = key then w\<lparr>pw_adopted := True\<rparr> else w) (hl_writes h)\<rparr>"

definition discard_failed :: "string \<Rightarrow> ('j, 'q) host_link \<Rightarrow> ('j, 'q) host_link" where
  "discard_failed key h = h\<lparr>hl_failed := filter (\<lambda>(x, _). ob_key x \<noteq> key) (hl_failed h)\<rparr>"

definition retry_failed :: "('j, 'l, 'q) link_env \<Rightarrow> nat \<Rightarrow> u64 \<Rightarrow> string \<Rightarrow> string \<Rightarrow> ('j, 'q) host_link
    \<Rightarrow> (('j, 'q) host_link \<times> protocol_error option) option" where
  "retry_failed E now i uuid key h = (case find (\<lambda>(x, _). ob_key x = key) (hl_failed h) of
     None \<Rightarrow> Some (h, None)
   | Some (x, _) \<Rightarrow> (case enqueue E now i uuid (ob_command x) h of
       None \<Rightarrow> None
     | Some (h1, Some e) \<Rightarrow> Some (h1, Some e)
     | Some (h1, None) \<Rightarrow> Some (discard_failed key h1, None)))"

subsection \<open>Connections\<close>

text \<open>A lost connection answers every waiter but those of retained writes, and forgets what was sent.\<close>

definition lost_answer :: "waiter \<Rightarrow> protocol_error" where
  "lost_answer w = (if wt_query w
     then \<lparr>pe_code = ''disconnected'', pe_message = ''Connection lost; retry this read after syncing''\<rparr>
     else \<lparr>pe_code = ''disconnected'', pe_message = ''Connection lost before acknowledgement''\<rparr>)"

definition keeps_waiting :: "waiter \<Rightarrow> bool" where
  "keeps_waiting w \<longleftrightarrow> \<not> wt_query w \<and> wt_retained w"

definition set_connection_state ::
    "('j, 'l, 'q) link_env \<Rightarrow> nat \<Rightarrow> connection_state \<Rightarrow> ('j, 'q) host_link \<Rightarrow> ('j, 'q) host_link" where
  "set_connection_state E now state h = (
     let h1 = h\<lparr>hl_connection := state\<rparr>;
         h2 = (if state = Reconnecting \<or> state = Offline
           then h1\<lparr>hl_pending := filter (\<lambda>(_, w). keeps_waiting w) (hl_pending h1),
                   hl_replies := hl_replies h1 @ map (\<lambda>(i, w). (i, Some (lost_answer w)))
                     (filter (\<lambda>(_, w). \<not> keeps_waiting w) (hl_pending h1)),
                   hl_writes := map (\<lambda>w. w\<lparr>pw_sent := None\<rparr>) (hl_writes h1)\<rparr>
           else h1)
     in flush_outbox E now h2)"

text \<open>\<open>restore_outbox\<close>: the writes of the last run, under fresh ids.\<close>

definition restore_outbox :: "('j, 'l, 'q) link_env \<Rightarrow> u64 list \<Rightarrow> 'j entry list \<Rightarrow> ('j, 'q) host_link
    \<Rightarrow> ('j, 'q) host_link option" where
  "restore_outbox E ids entries h = (if length entries > MAX_ITEMS \<or> le_stored E entries > OUTBOX_BYTES then None
   else Some (h\<lparr>hl_stored := Some entries,
     hl_writes := hl_writes h @ map2 (\<lambda>i x. \<lparr>pw_id = i, pw_entry = x, pw_sent = None, pw_adopted = False\<rparr>) ids entries\<rparr>))"

end
