(* ===== verification/Keyed_Commands.thy ===== *)
theory Keyed_Commands
  imports Commands Strings "HOL-Library.AList"
begin

section \<open>Commands with a delivery key\<close>

text \<open>
  How the host answers a command of a client (\<^verbatim>\<open>runtime/src/pipe.rs\<close>). A retained write carries a key
  \<open>device:uuid\<close>; the results of the last 512 keys of each device are kept, and a command whose key is
  among them is answered from there instead of being run. Running a command is an argument of the
  model: it gives the host's new state and an outcome, the result or a task that finishes later (a
  barrier of the store is such a task, whose answer is never kept). It is given the command and the
  state, not the key and the author that the code shows it beside them.
\<close>

datatype 'r outcome = Immediate 'r | Pending | StoreBarrier

record ('r, 'h) front =
  fr_app :: 'h
  fr_completed :: "(string \<times> (string \<times> 'r) list) list"
  fr_running :: "(u64 \<times> (string \<times> string) option) list"
  fr_acks :: "(u64 \<times> 'r) list"

definition COMPLETED_LIMIT :: nat where "COMPLETED_LIMIT = 512"

text \<open>\<open>key.split_once(':').unwrap_or(("local", &key))\<close>, for a command that needs a key.\<close>

definition scoped_key :: "'j command \<Rightarrow> string option \<Rightarrow> (string \<times> string) option" where
  "scoped_key command key = (case key of
     None \<Rightarrow> None
   | Some k \<Rightarrow> if requires_delivery_key command
       then Some (case split_once (CHR '':'') k of Some dk \<Rightarrow> dk | None \<Rightarrow> (''local'', k)) else None)"

definition cache_of :: "string \<Rightarrow> ('r, 'h) front \<Rightarrow> (string \<times> 'r) list" where
  "cache_of device f = (case map_of (fr_completed f) device of None \<Rightarrow> [] | Some c \<Rightarrow> c)"

definition ack :: "u64 \<Rightarrow> 'r \<Rightarrow> ('r, 'h) front \<Rightarrow> ('r, 'h) front" where
  "ack i r f = f\<lparr>fr_acks := fr_acks f @ [(i, r)]\<rparr>"

text \<open>A key that completed before: its entry becomes the newest.\<close>

definition replay :: "(string \<times> string) option \<Rightarrow> u64 \<Rightarrow> ('r, 'h) front \<Rightarrow> ('r, 'h) front option" where
  "replay scope i f = (case scope of
     None \<Rightarrow> None
   | Some (device, key) \<Rightarrow> (case position (\<lambda>c. fst c = key) (cache_of device f) of
       None \<Rightarrow> None
     | Some k \<Rightarrow>
         (let cache = cache_of device f; cached = cache ! k in
          Some (ack i (snd cached) (f\<lparr>fr_completed :=
            AList.update device (take k cache @ drop (Suc k) cache @ [cached]) (fr_completed f)\<rparr>)))))"

definition complete_command :: "u64 \<Rightarrow> (string \<times> string) option \<Rightarrow> 'r \<Rightarrow> ('r, 'h) front \<Rightarrow> ('r, 'h) front" where
  "complete_command i scope r f = ack i r (case scope of
     None \<Rightarrow> f
   | Some (device, key) \<Rightarrow>
       (let cache = cache_of device f @ [(key, r)] in
        f\<lparr>fr_completed := AList.update device (drop (length cache - COMPLETED_LIMIT) cache) (fr_completed f)\<rparr>))"

text \<open>The branch of \<open>handle_client_message\<close> for a command that is authorised.\<close>

definition handle_command ::
    "('j command \<Rightarrow> 'h \<Rightarrow> 'h \<times> 'r outcome) \<Rightarrow> u64 \<Rightarrow> string option \<Rightarrow> 'j command \<Rightarrow> ('r, 'h) front \<Rightarrow> ('r, 'h) front" where
  "handle_command run i key command f = (
     let scope = scoped_key command key in
     case replay scope i f of
       Some f1 \<Rightarrow> f1
     | None \<Rightarrow> (case run command (fr_app f) of
         (app, Immediate r) \<Rightarrow> complete_command i scope r (f\<lparr>fr_app := app\<rparr>)
       | (app, Pending) \<Rightarrow> f\<lparr>fr_app := app, fr_running := fr_running f @ [(i, scope)]\<rparr>
       | (app, StoreBarrier) \<Rightarrow> f\<lparr>fr_app := app, fr_running := fr_running f @ [(i, None)]\<rparr>))"

text \<open>A task finishes.\<close>

definition finish_command :: "nat \<Rightarrow> 'r \<Rightarrow> ('r, 'h) front \<Rightarrow> ('r, 'h) front" where
  "finish_command n r f = (case index (fr_running f) n of
     None \<Rightarrow> f
   | Some (i, scope) \<Rightarrow>
       complete_command i scope r (f\<lparr>fr_running := take n (fr_running f) @ drop (Suc n) (fr_running f)\<rparr>))"

subsection \<open>The cache of a device\<close>

lemma cache_of_update [simp]:
  "cache_of d (f\<lparr>fr_completed := AList.update device c m\<rparr>)
     = (if d = device then c else (case map_of m d of None \<Rightarrow> [] | Some c \<Rightarrow> c))"
  by (simp add: cache_of_def AList.update_conv')

lemma cache_of_other [simp]:
  "cache_of d (f\<lparr>fr_app := a\<rparr>) = cache_of d f" "cache_of d (f\<lparr>fr_running := q\<rparr>) = cache_of d f"
  "cache_of d (ack i r f) = cache_of d f"
  by (simp_all add: cache_of_def ack_def)

lemma replay_None:
  "replay (Some (device, key)) i f = None \<longleftrightarrow> key \<notin> fst ` set (cache_of device f)"
proof -
  have "position (\<lambda>c. fst c = key) (cache_of device f) = None \<longleftrightarrow> key \<notin> fst ` set (cache_of device f)"
    by (auto simp: position_None_iff)
  then show ?thesis by (auto simp: replay_def Let_def split: option.splits)
qed

text \<open>A replay answers with the stored result and only reorders the cache.\<close>

lemma replay_Some:
  assumes "replay (Some (device, key)) i f = Some f'"
  obtains r pre post where "cache_of device f = pre @ (key, r) # post" "key \<notin> fst ` set pre"
    "cache_of device f' = pre @ post @ [(key, r)]" "fr_app f' = fr_app f" "fr_acks f' = fr_acks f @ [(i, r)]"
    "fr_running f' = fr_running f"
proof -
  let ?c = "cache_of device f"
  from assms obtain k where k: "position (\<lambda>c. fst c = key) ?c = Some k"
    and f': "f' = ack i (snd (?c ! k)) (f\<lparr>fr_completed :=
        AList.update device (take k ?c @ drop (Suc k) ?c @ [?c ! k]) (fr_completed f)\<rparr>)"
    by (auto simp: replay_def Let_def split: option.splits)
  from k have len: "k < length ?c" and key: "fst (?c ! k) = key" and first: "\<forall>j<k. fst (?c ! j) \<noteq> key"
    by (auto simp: position_Some_iff)
  have "?c = take k ?c @ (key, snd (?c ! k)) # drop (Suc k) ?c"
    using id_take_nth_drop [OF len] key by (metis prod.collapse)
  moreover have "key \<notin> fst ` set (take k ?c)"
    using first by (fastforce simp: in_set_conv_nth image_iff)
  moreover have "?c ! k = (key, snd (?c ! k))" using key by (metis prod.collapse)
  ultimately show ?thesis using that [of "take k ?c" "snd (?c ! k)" "drop (Suc k) ?c"] f'
    by (simp add: ack_def) (simp add: cache_of_def AList.update_conv')
qed

lemma complete_fields [simp]:
  "fr_app (complete_command i scope r f) = fr_app f"
  "fr_acks (complete_command i scope r f) = fr_acks f @ [(i, r)]"
  "fr_running (complete_command i scope r f) = fr_running f"
  by (auto simp: complete_command_def ack_def Let_def split: option.splits)

lemma complete_cache:
  "cache_of device (complete_command i (Some (device, key)) r f)
     = (let c = cache_of device f @ [(key, r)] in drop (length c - COMPLETED_LIMIT) c)"
  by (simp add: complete_command_def Let_def)

subsection \<open>A write that is still running\<close>

lemma running_keeps_cache: "replay scope i (f\<lparr>fr_app := a, fr_running := r\<rparr>) = None \<longleftrightarrow> replay scope i f = None"
  by (cases scope) (auto simp: replay_def cache_of_def Let_def split: option.splits)

lemma replay_other_id: "replay scope i f = None \<longleftrightarrow> replay scope j f = None"
  by (cases scope) (auto simp: replay_def Let_def split: option.splits)

text \<open>C19: A keyed command whose work goes on in a task is run a second time when the client sends it again
  before the task has finished: only results are kept under a key, so the second delivery finds nothing,
  dispatches the command on the state the first one left, and a second task with the same key runs beside
  the first.\<close>

theorem pending_write_runs_twice:
  assumes "scoped_key command key = scope" "replay scope i f = None"
    and "run command (fr_app f) = (app1, Pending)" "run command app1 = (app2, Pending)"
  shows "let again = handle_command run j key command (handle_command run i key command f) in
    fr_app again = app2 \<and> fr_running again = fr_running f @ [(i, scope), (j, scope)] \<and> fr_acks again = fr_acks f"
proof -
  let ?f = "f\<lparr>fr_app := app1, fr_running := fr_running f @ [(i, scope)]\<rparr>"
  have "handle_command run i key command f = ?f" using assms by (simp add: handle_command_def Let_def)
  moreover have "replay scope j ?f = None" using assms(2) replay_other_id [of scope i f j] by (simp add: running_keeps_cache)
  ultimately show ?thesis using assms(1,4) by (simp add: handle_command_def Let_def)
qed

text \<open>A new project is created twice when the connection breaks after the first delivery.\<close>

theorem pending_write_runs_twice_witness:
  "let run = (\<lambda>c n. (Suc n, Pending)) :: unit command \<Rightarrow> nat \<Rightarrow> nat \<times> string outcome;
       create = ProjectCommand (CreateNewProject ''app'');
       f = \<lparr>fr_app = 0, fr_completed = [(''laptop'', [(''u0'', ''ok'')])], fr_running = [], fr_acks = []\<rparr>;
       again = handle_command run 8 (Some ''laptop:u1'') create (handle_command run 7 (Some ''laptop:u1'') create f)
   in fr_app again = 2 \<and> map fst (fr_running again) = [7, 8] \<and> fr_acks again = []"
proof -
  let ?run = "(\<lambda>c n. (Suc n, Pending)) :: unit command \<Rightarrow> nat \<Rightarrow> nat \<times> string outcome"
  let ?create = "ProjectCommand (CreateNewProject ''app'') :: unit command"
  let ?f = "\<lparr>fr_app = 0, fr_completed = [(''laptop'', [(''u0'', ''ok'')])], fr_running = [], fr_acks = []\<rparr>"
  have scope: "scoped_key ?create (Some ''laptop:u1'') = Some (''laptop'', ''u1'')"
    by (simp add: scoped_key_def requires_delivery_key_def split_once_def)
  have fresh: "replay (Some (''laptop'', ''u1'')) 7 ?f = None" by (simp add: replay_None cache_of_def)
  have runs: "?run ?create (fr_app ?f) = (1, Pending)" "?run ?create 1 = (2, Pending)" by simp_all
  show ?thesis
    using pending_write_runs_twice [OF scope fresh runs, of 8] by (simp add: Let_def)
qed

end
