(* ===== verification/Exactly_Once.thy ===== *)
theory Exactly_Once
  imports Delivery Keyed_Commands "HOL-Library.Sublist"
begin

section \<open>A write runs once\<close>

text \<open>
  The outbox of a client (\<open>Delivery\<close>) and the host that answers it (\<open>Keyed_Commands\<close>) over a line that
  keeps the order of what it carries and loses everything in flight when the connection breaks. The
  client submits writes under fresh ids and keys, the host takes the oldest line, the client takes the
  oldest answer, and connections come and go. Beside the two states a run records the writes the
  client accepted, those the host ran with their results, and the answers that came back.

  The transport adds the device to a key before the host sees it, here the argument \<open>device\<close>.
\<close>

type_synonym 'j message = "u64 \<times> string \<times> 'j command"

definition line_env :: "nat \<Rightarrow> ('j message \<Rightarrow> nat) \<Rightarrow> ('j entry list \<Rightarrow> nat) \<Rightarrow> ('j entry list \<Rightarrow> bool)
    \<Rightarrow> ('j, 'j message, 'j message list) link_env" where
  "line_env room len stored saves = \<lparr>le_encode = (\<lambda>i k c. Some (i, k, c)), le_length = len, le_stored = stored,
     le_saves = saves, le_send = (\<lambda>l q. if length q < room then Some (q @ [l]) else None)\<rparr>"

record ('j, 'r, 'h) session_line =
  sl_link :: "('j, 'j message list) host_link"
  sl_front :: "('r, 'h) front"
  sl_log :: "'j message list"
  sl_runs :: "('j message \<times> 'r) list"
  sl_reported :: "(u64 \<times> 'r) list"

definition line_start :: "'h \<Rightarrow> ('j, 'r, 'h) session_line" where
  "line_start app = \<lparr>
     sl_link = \<lparr>hl_writes = [], hl_stored = None, hl_failed = [], hl_acknowledged = [], hl_pending = [], hl_replies = [],
       hl_connection = Offline, hl_queue = []\<rparr>,
     sl_front = \<lparr>fr_app = app, fr_completed = [], fr_running = [], fr_acks = []\<rparr>,
     sl_log = [], sl_runs = [], sl_reported = []\<rparr>"

text \<open>Running a command whose result is there at once.\<close>

definition at_once :: "('j command \<Rightarrow> 'h \<Rightarrow> 'h \<times> 'r) \<Rightarrow> 'j command \<Rightarrow> 'h \<Rightarrow> 'h \<times> 'r outcome" where
  "at_once D c app = (fst (D c app), Immediate (snd (D c app)))"

inductive line_step ::
    "string \<Rightarrow> ('j command \<Rightarrow> 'h \<Rightarrow> 'h \<times> 'r) \<Rightarrow> ('r \<Rightarrow> protocol_error option)
     \<Rightarrow> ('j, 'r, 'h) session_line \<Rightarrow> ('j, 'r, 'h) session_line \<Rightarrow> bool" for device D err where
  submit: "requires_delivery_key c \<Longrightarrow> i \<notin> fst ` set (sl_log s) \<Longrightarrow> k \<notin> (fst \<circ> snd) ` set (sl_log s) \<Longrightarrow>
    enqueue (line_env room len stored saves) now i k c (sl_link s) = Some (h, e) \<Longrightarrow>
    line_step device D err s (s\<lparr>sl_link := h, sl_log := sl_log s @ (if e = None then [(i, k, c)] else [])\<rparr>)"
| flush: "line_step device D err s (s\<lparr>sl_link := flush_outbox (line_env room len stored saves) now (sl_link s)\<rparr>)"
| deliver: "hl_queue (sl_link s) = (i, k, c) # q \<Longrightarrow>
    f = handle_command (at_once D) i (Some (device @ '':'' @ k)) c (sl_front s) \<Longrightarrow>
    line_step device D err s (s\<lparr>sl_link := (sl_link s)\<lparr>hl_queue := q\<rparr>, sl_front := f,
      sl_runs := sl_runs s @ (if replay (scoped_key c (Some (device @ '':'' @ k))) i (sl_front s) = None
        then [((i, k, c), snd (D c (fr_app (sl_front s))))] else [])\<rparr>)"
| answered: "fr_acks (sl_front s) = (i, r) # as \<Longrightarrow>
    line_step device D err s (s\<lparr>sl_link := on_ack (line_env room len stored saves) now i (err r) (sl_link s),
      sl_front := (sl_front s)\<lparr>fr_acks := as\<rparr>, sl_reported := sl_reported s @ [(i, r)]\<rparr>)"
| disconnect: "state = Reconnecting \<or> state = Offline \<Longrightarrow>
    line_step device D err s (s\<lparr>
      sl_link := set_connection_state (line_env room len stored saves) now state ((sl_link s)\<lparr>hl_queue := []\<rparr>),
      sl_front := (sl_front s)\<lparr>fr_acks := []\<rparr>\<rparr>)"
| connect: "state = Syncing \<or> state = Connected \<Longrightarrow>
    line_step device D err s (s\<lparr>sl_link := set_connection_state (line_env room len stored saves) now state (sl_link s)\<rparr>)"

inductive line_reach ::
    "string \<Rightarrow> ('j command \<Rightarrow> 'h \<Rightarrow> 'h \<times> 'r) \<Rightarrow> ('r \<Rightarrow> protocol_error option) \<Rightarrow> 'h
     \<Rightarrow> ('j, 'r, 'h) session_line \<Rightarrow> bool" for device D err app where
  line_reach_start: "line_reach device D err app (line_start app)"
| line_reach_step: "line_reach device D err app s \<Longrightarrow> line_step device D err s s' \<Longrightarrow> line_reach device D err app s'"

subsection \<open>The writes of a client\<close>

definition message_of :: "'j pending_write \<Rightarrow> 'j message" where
  "message_of w = (pw_id w, ob_key (pw_entry w), ob_command (pw_entry w))"

text \<open>The outbox as the part of the log that starts at \<open>lo\<close>, of which the first \<open>n\<close> writes were sent.\<close>

definition outbox_is :: "'j message list \<Rightarrow> nat \<Rightarrow> nat \<Rightarrow> ('j, 'q) host_link \<Rightarrow> bool" where
  "outbox_is log lo n h \<longleftrightarrow> lo \<le> length log \<and> map message_of (hl_writes h) = drop lo log
     \<and> length (hl_writes h) \<le> MAX_ITEMS \<and> n \<le> length (hl_writes h)
     \<and> (\<forall>k<length (hl_writes h). was_sent (hl_writes h ! k) \<longleftrightarrow> k < n)"

lemma line_env_fields [simp]:
  "le_encode (line_env room len stored saves) i k c = Some (i, k, c)"
  "le_send (line_env room len stored saves) l q = (if length q < room then Some (q @ [l]) else None)"
  by (simp_all add: line_env_def)

text \<open>A flush sends a prefix of what it is given.\<close>

lemma flush_from_prefix:
  assumes "flush_from (line_env room len stored saves) now ws q = (ws', q')"
  shows "\<exists>m\<le>length ws. q' = q @ map message_of (take m ws) \<and> map message_of ws' = map message_of ws
     \<and> (\<forall>k<length ws. k < m \<longrightarrow> was_sent (ws' ! k)) \<and> (\<forall>k<length ws. m \<le> k \<longrightarrow> ws' ! k = ws ! k)"
  using assms
proof (induction ws arbitrary: q ws' q')
  case Nil
  then show ?case by simp
next
  case (Cons w ws)
  show ?case
  proof (cases "length q < room")
    case False
    with Cons.prems show ?thesis by (intro exI [of _ 0]) auto
  next
    case True
    obtain ws1 q1 where rec: "flush_from (line_env room len stored saves) now ws (q @ [message_of w]) = (ws1, q1)"
      by fastforce
    from Cons.IH [OF rec] obtain m where m: "m \<le> length ws" "q1 = (q @ [message_of w]) @ map message_of (take m ws)"
      "map message_of ws1 = map message_of ws" "\<forall>k<length ws. k < m \<longrightarrow> was_sent (ws1 ! k)"
      "\<forall>k<length ws. m \<le> k \<longrightarrow> ws1 ! k = ws ! k" by blast
    have out: "ws' = w\<lparr>pw_sent := Some now\<rparr> # ws1" "q' = q1"
      using Cons.prems True rec by (simp_all add: message_of_def)
    have same: "message_of (w\<lparr>pw_sent := Some now\<rparr>) = message_of w" "was_sent (w\<lparr>pw_sent := Some now\<rparr>)"
      by (simp_all add: message_of_def was_sent_def)
    show ?thesis
      using m out same by (intro exI [of _ "Suc m"]) (auto simp: nth_Cons split: nat.splits)
  qed
qed

lemma prefix_of_sent:
  assumes "n \<le> length ws" "\<forall>k<length ws. was_sent (ws ! k) \<longleftrightarrow> k < n"
  shows "takeWhile was_sent ws = take n ws" "dropWhile was_sent ws = drop n ws"
proof -
  show tw: "takeWhile was_sent ws = take n ws"
    using assms by (intro takeWhile_eq_take_P_nth) auto
  show "dropWhile was_sent ws = drop n ws"
    using tw by (metis append_same_eq append_take_drop_id takeWhile_dropWhile_id same_append_eq)
qed

lemma flush_outbox_is:
  fixes room len stored saves now
  assumes ob: "outbox_is log lo n h"
  defines "h' \<equiv> flush_outbox (line_env room len stored saves) now h"
  shows "\<exists>n'\<ge>n. outbox_is log lo n' h' \<and> hl_queue h' = hl_queue h @ map ((!) log) [lo + n..<lo + n']
    \<and> hl_connection h' = hl_connection h"
proof (cases "link_up h")
  case False
  then show ?thesis using ob by (intro exI [of _ n]) (simp add: h'_def flush_outbox_def)
next
  case True
  let ?ws = "hl_writes h"
  from ob have n: "n \<le> length ?ws" "\<forall>k<length ?ws. was_sent (?ws ! k) \<longleftrightarrow> k < n" and lo: "lo \<le> length log"
    and log: "map message_of ?ws = drop lo log" and items: "length ?ws \<le> MAX_ITEMS"
    by (auto simp: outbox_is_def)
  obtain ws' q' where out: "flush_from (line_env room len stored saves) now (drop n ?ws) (hl_queue h) = (ws', q')"
    by fastforce
  from flush_from_prefix [OF out] obtain m where m: "m \<le> length (drop n ?ws)"
    "q' = hl_queue h @ map message_of (take m (drop n ?ws))" "map message_of ws' = map message_of (drop n ?ws)"
    "\<forall>k<length (drop n ?ws). k < m \<longrightarrow> was_sent (ws' ! k)"
    "\<forall>k<length (drop n ?ws). m \<le> k \<longrightarrow> ws' ! k = drop n ?ws ! k" by blast
  have len: "length ws' = length ?ws - n" using arg_cong [OF m(3), of length] by simp
  have h': "h' = h\<lparr>hl_writes := take n ?ws @ ws', hl_queue := q'\<rparr>"
    using True out prefix_of_sent [OF n] by (simp add: h'_def flush_outbox_def)
  have "map message_of (take n ?ws @ ws') = drop lo log"
    using m(3) log by (metis append_take_drop_id map_append)
  moreover have "was_sent ((take n ?ws @ ws') ! k) \<longleftrightarrow> k < n + m" if "k < length (take n ?ws @ ws')" for k
  proof (cases "k < n")
    case True
    then show ?thesis using n that len by (simp add: nth_append)
  next
    case False
    have tl: "length (take n ?ws) = n" using n by simp
    have "k < n + (length ?ws - n)" using that unfolding length_append tl len .
    then have "k - n < length (drop n ?ws)" using False by simp
    moreover have "(take n ?ws @ ws') ! k = ws' ! (k - n)" using False n(1) by (simp add: nth_append min_absorb2)
    ultimately show ?thesis using m(4,5) n(2) False by (cases "k - n < m") auto
  qed
  moreover have "map message_of (take m (drop n ?ws)) = map ((!) log) [lo + n..<lo + (n + m)]"
  proof -
    have "map message_of (take m (drop n ?ws)) = take m (drop (lo + n) log)"
      by (simp add: take_map [symmetric] drop_map [symmetric] log add.commute del: take_map drop_map)
    also have "\<dots> = map ((!) log) [lo + n..<lo + (n + m)]"
      using m(1) arg_cong [OF log, of length] n(1) by (intro nth_equalityI) auto
    finally show ?thesis .
  qed
  ultimately show ?thesis using h' lo items n(1) m(1,2) len
    by (intro exI [of _ "n + m"]) (auto simp: outbox_is_def)
qed

lemma evict_suffix: "evict E ws = Evicted out stay \<Longrightarrow> ws = out @ stay \<and> length stay \<le> MAX_ITEMS"
  by (induction ws arbitrary: out) (auto split: option.splits if_splits eviction.splits)

lemma wire_bytes_line_env: "\<exists>n. wire_bytes (line_env room len stored saves) ws = Some n"
  by (induction ws) auto

lemma evict_line_env: "evict (line_env room len stored saves) ws \<noteq> Unsized vs"
proof (induction ws)
  case Nil
  then show ?case by (auto simp: snapshot_bytes_def split: option.splits)
next
  case (Cons w ws)
  then show ?case using wire_bytes_line_env [of room len stored saves "w # ws"]
    by (auto simp: snapshot_bytes_def split: option.splits eviction.splits)
qed

lemma outbox_evicts:
  assumes "map message_of (out @ hl_writes h) = drop lo log" "lo \<le> length log" "n \<le> length (out @ hl_writes h)"
    and "\<forall>j<length (out @ hl_writes h). was_sent ((out @ hl_writes h) ! j) \<longleftrightarrow> j < n" "length (hl_writes h) \<le> MAX_ITEMS"
  shows "outbox_is log (lo + length out) (n - length out) h"
proof -
  have log: "map message_of out @ map message_of (hl_writes h) = drop lo log" using assms(1) by simp
  have "map message_of (hl_writes h) = drop (length out) (drop lo log)" by (simp flip: log)
  moreover have "lo + length out \<le> length log" using arg_cong [OF log, of length] assms(2) by simp
  moreover have "was_sent (hl_writes h ! j) \<longleftrightarrow> j < n - length out" if "j < length (hl_writes h)" for j
    using assms(4) [rule_format, of "length out + j"] that by (auto simp: nth_append)
  ultimately show ?thesis using assms(3,5) by (simp add: outbox_is_def add.commute)
qed

lemma answer_fields [simp]:
  "hl_writes (answer i e h) = hl_writes h" "hl_queue (answer i e h) = hl_queue h"
  "hl_connection (answer i e h) = hl_connection h"
  by (simp_all add: answer_def)

lemma fold_answer_fields [simp]:
  "hl_writes (fold (\<lambda>v. answer (pw_id v) e) out h) = hl_writes h \<and> hl_queue (fold (\<lambda>v. answer (pw_id v) e) out h) = hl_queue h"
  by (induction out arbitrary: h) simp_all

lemma persist_fields: "persist E h = Some h' \<Longrightarrow> hl_writes h' = hl_writes h \<and> hl_queue h' = hl_queue h"
  by (auto simp: persist_def split: if_splits)

lemma outbox_is_cong: "hl_writes h' = hl_writes h \<Longrightarrow> outbox_is log lo n h' \<longleftrightarrow> outbox_is log lo n h"
  by (simp add: outbox_is_def)

lemma outbox_unchanged:
  assumes "outbox_is log lo n h" "hl_writes h' = hl_writes h" "hl_queue h' = hl_queue h"
  shows "\<exists>lo'\<ge>lo. \<exists>n'. outbox_is log lo' n' h' \<and> max lo' (lo + n) \<le> lo' + n'
    \<and> hl_queue h' = hl_queue h @ map ((!) log) [max lo' (lo + n)..<lo' + n']"
  using assms by (intro exI [of _ lo] exI [of _ n]) (auto simp: outbox_is_def)

text \<open>Submitting a write adds it to the log or leaves the outbox as it was, but for the oldest writes that
  make room and for what a flush sends.\<close>

lemma enqueue_is:
  assumes ob: "outbox_is log lo n h" and fresh: "i \<notin> fst ` set log"
    and eq: "enqueue (line_env room len stored saves) now i k c h = Some (h', e)"
  defines "log' \<equiv> log @ (if e = None then [(i, k, c)] else [])"
  shows "\<exists>lo'\<ge>lo. \<exists>n'. outbox_is log' lo' n' h' \<and> max lo' (lo + n) \<le> lo' + n'
    \<and> hl_queue h' = hl_queue h @ map ((!) log') [max lo' (lo + n)..<lo' + n']"
proof -
  let ?E = "line_env room len stored saves"
  let ?w = "\<lparr>pw_id = i, pw_entry = \<lparr>ob_key = k, ob_command = c\<rparr>, pw_sent = None, pw_adopted = False\<rparr>"
  have ids: "pw_id v \<noteq> i" if "v \<in> set (hl_writes h)" for v
  proof -
    have "message_of v \<in> set (map message_of (hl_writes h))" using that by simp
    then have "message_of v \<in> set (drop lo log)" using ob by (simp only: outbox_is_def)
    then show ?thesis using fresh by (force simp: message_of_def dest: in_set_dropD)
  qed
  show ?thesis
  proof (cases "contains_secret c \<and> \<not> link_up h")
    case True
    have x: "hl_writes h' = hl_writes h" "hl_queue h' = hl_queue h" "e \<noteq> None"
      using eq True by (auto simp: enqueue_def Let_def)
    show ?thesis using outbox_unchanged [OF ob x(1,2)] unfolding log'_def by (simp only: x(3) if_False append_Nil2)
  next
    case False
    obtain out stay where ev: "evict ?E (hl_writes h @ [?w]) = Evicted out stay"
      using eq False evict_line_env [of room len stored saves "hl_writes h @ [?w]"]
      by (cases "evict ?E (hl_writes h @ [?w])") (auto simp: enqueue_def Let_def split: if_splits)
    note stay = evict_suffix [OF ev]
    show ?thesis
    proof (cases "persist ?E (h\<lparr>hl_writes := stay\<rparr>)")
      case None
      have "filter (\<lambda>v. pw_id v \<noteq> i) (hl_writes h @ [?w]) = hl_writes h"
        using ids by (simp add: filter_id_conv)
      then have "filter (\<lambda>v. pw_id v \<noteq> i) out @ filter (\<lambda>v. pw_id v \<noteq> i) stay = hl_writes h"
        using stay by (metis filter_append)
      then have x: "hl_writes h' = hl_writes h" "hl_queue h' = hl_queue h" "e \<noteq> None"
        using eq False ev None by (auto simp: enqueue_def Let_def)
      show ?thesis using outbox_unchanged [OF ob x(1,2)] unfolding log'_def by (simp only: x(3) if_False append_Nil2)
    next
      case (Some h1)
      note h1 = persist_fields [OF Some]
      define h3 where "h3 = fold (\<lambda>v. answer (pw_id v) (Some outbox_full)) out
        (h1\<lparr>hl_failed := last_items MAX_ITEMS (hl_failed h1 @ map (\<lambda>v. (pw_entry v, outbox_full)) out)\<rparr>)"
      have h3: "hl_writes h3 = stay" "hl_queue h3 = hl_queue h" using h1 by (simp_all add: h3_def)
      have h': "h' = flush_outbox ?E now h3" and e: "e = None \<longleftrightarrow> (\<forall>v\<in>set out. pw_id v \<noteq> i)"
        using eq False ev Some by (auto simp: enqueue_def h3_def Let_def split: if_splits)
      from ob have lo: "lo \<le> length log" and W: "map message_of (hl_writes h) = drop lo log"
        and n: "n \<le> length (hl_writes h)" and sent: "\<forall>j<length (hl_writes h). was_sent (hl_writes h ! j) \<longleftrightarrow> j < n"
        by (simp_all add: outbox_is_def)
      have lon: "lo + n \<le> length log" using n lo arg_cong [OF W, of length] by simp
      show ?thesis
      proof (cases e)
        case None
        have "outbox_is log' (lo + length out) (n - length out) h3"
        proof (rule outbox_evicts)
          have "map message_of (out @ stay) = map message_of (hl_writes h @ [?w])" using stay by metis
          then show "map message_of (out @ hl_writes h3) = drop lo log'"
            using W lo None unfolding h3 log'_def by (simp add: message_of_def)
          show "\<forall>j<length (out @ hl_writes h3). was_sent ((out @ hl_writes h3) ! j) \<longleftrightarrow> j < n"
            unfolding h3 conjunct1 [OF stay, symmetric]
            using sent n by (auto simp: nth_append was_sent_def less_Suc_eq)
          show "n \<le> length (out @ hl_writes h3)" unfolding h3 conjunct1 [OF stay, symmetric] using n by simp
        qed (use lo h3 stay in \<open>simp_all add: log'_def\<close>)
        from flush_outbox_is [OF this, of room len stored saves now] obtain n' where n': "n' \<ge> n - length out"
          "outbox_is log' (lo + length out) n' h'"
          "hl_queue h' = hl_queue h @ map ((!) log') [lo + length out + (n - length out)..<lo + length out + n']"
          unfolding h' h3 by blast
        have "lo + length out + (n - length out) = max (lo + length out) (lo + n)" by simp
        with n' show ?thesis by (intro exI [of _ "lo + length out"] conjI exI [of _ n']) auto
      next
        case (Some x)
        with e obtain v where v: "v \<in> set out" "pw_id v = i" by auto
        have "stay = []"
        proof (rule ccontr)
          assume "stay \<noteq> []"
          then have "butlast (out @ stay) = out @ butlast stay" by (simp add: butlast_append)
          moreover have "butlast (out @ stay) = hl_writes h" using stay by (metis butlast_snoc)
          ultimately show False using v ids by auto
        qed
        then have "outbox_is log' (length log) 0 h3" using Some h3 by (simp add: log'_def outbox_is_def)
        from flush_outbox_is [OF this, of room len stored saves now] obtain n' where
          n': "outbox_is log' (length log) n' h'" "hl_queue h' = hl_queue h @ map ((!) log') [length log..<length log + n']"
          unfolding h' h3 by auto
        moreover have "n' = 0" using n'(1) Some by (auto simp: outbox_is_def log'_def)
        ultimately show ?thesis using lo lon by (intro exI [of _ "length log"] conjI exI [of _ n']) auto
      qed
    qed
  qed
qed

lemma saved_fields:
  "hl_writes (case persist E g of None \<Rightarrow> g | Some g' \<Rightarrow> g') = hl_writes g"
  "hl_queue (case persist E g of None \<Rightarrow> g | Some g' \<Rightarrow> g') = hl_queue g"
  by (cases "persist E g"; simp add: persist_fields)+

lemma settle_fields:
  "hl_queue (settle_write E i e h) = hl_queue h"
  "hl_writes (settle_write E i e h) = (case position (\<lambda>w. pw_id w = i) (hl_writes h) of
     None \<Rightarrow> hl_writes h | Some k \<Rightarrow> remove_write k (hl_writes h))"
  by (simp_all add: settle_write_def Let_def saved_fields split: option.split)

text \<open>An answer to the oldest write takes it out of the outbox; an answer to a write that was evicted
  changes nothing.\<close>

lemma on_ack_is:
  fixes room len stored saves now e
  assumes ob: "outbox_is log lo n h" and dist: "distinct (map fst log)" and a: "a < length log" "i = fst (log ! a)"
    and oldest: "a < lo \<or> a = lo \<and> 1 \<le> n"
  defines "h' \<equiv> on_ack (line_env room len stored saves) now i e h" and "lo' \<equiv> if a = lo then Suc lo else lo"
  shows "\<exists>n'. outbox_is log lo' n' h' \<and> lo + n \<le> lo' + n'
    \<and> hl_queue h' = hl_queue h @ map ((!) log) [lo + n..<lo' + n']"
proof -
  let ?E = "line_env room len stored saves"
  let ?g = "settle_write ?E i e h"
  from ob have lo: "lo \<le> length log" and W: "map message_of (hl_writes h) = drop lo log"
    by (simp_all add: outbox_is_def)
  have len: "length (hl_writes h) = length log - lo" using arg_cong [OF W, of length] by simp
  have ids: "pw_id (hl_writes h ! k) = fst (log ! (lo + k))" if "k < length (hl_writes h)" for k
  proof -
    have "message_of (hl_writes h ! k) = log ! (lo + k)"
      using that lo arg_cong [OF W, of "\<lambda>l. l ! k"] by simp
    then show ?thesis by (metis fst_conv message_of_def)
  qed
  have same: "pw_id (hl_writes h ! k) = i \<longleftrightarrow> lo + k = a" if "k < length (hl_writes h)" for k
    using ids [OF that] a that len nth_eq_iff_index_eq [OF dist, of "lo + k" a] by auto
  have "outbox_is log lo' (if a = lo then n - 1 else n) ?g"
  proof (cases "a = lo")
    case True
    then have first: "0 < length (hl_writes h)" using a len by simp
    then have "position (\<lambda>w. pw_id w = i) (hl_writes h) = Some 0"
      using same [of 0] True by (simp add: position_Some_iff)
    then have "hl_writes ?g = tl (hl_writes h)"
      using first by (simp add: settle_fields remove_write_def drop_Suc)
    moreover obtain w ws where "hl_writes h = w # ws" using first by (cases "hl_writes h") auto
    ultimately show ?thesis using outbox_evicts [of "[w]" ?g lo log n] ob True oldest
      by (simp add: outbox_is_def lo'_def)
  next
    case False
    with oldest have "a < lo" by simp
    then have "position (\<lambda>w. pw_id w = i) (hl_writes h) = None"
      using same by (fastforce simp: position_None_iff in_set_conv_nth)
    then show ?thesis using ob False by (simp add: settle_fields outbox_is_def lo'_def)
  qed
  then have "outbox_is log lo' (if a = lo then n - 1 else n) (answer i e ?g)" by (simp add: outbox_is_def)
  from flush_outbox_is [OF this, of room len stored saves now] oldest show ?thesis
    by (auto simp: h'_def on_ack_def settle_fields lo'_def)
qed

lemma disconnect_is:
  assumes "outbox_is log lo n h" "state = Reconnecting \<or> state = Offline"
  shows "outbox_is log lo 0 (set_connection_state E now state h) \<and> hl_queue (set_connection_state E now state h) = hl_queue h"
proof -
  have "message_of (w\<lparr>pw_sent := None\<rparr>) = message_of w" for w :: "'a pending_write"
    by (simp add: message_of_def)
  then have "map message_of (map (\<lambda>w. w\<lparr>pw_sent := None\<rparr>) (hl_writes h)) = map message_of (hl_writes h)" by simp
  then show ?thesis using assms
    by (auto simp: set_connection_state_def flush_outbox_def link_up_def outbox_is_def Let_def was_sent_def simp del: map_map)
qed

lemma connect_is:
  fixes room len stored saves now
  assumes "outbox_is log lo n h" "state = Syncing \<or> state = Connected"
  defines "h' \<equiv> set_connection_state (line_env room len stored saves) now state h"
  shows "\<exists>n'\<ge>n. outbox_is log lo n' h' \<and> hl_queue h' = hl_queue h @ map ((!) log) [lo + n..<lo + n']"
proof -
  have "outbox_is log lo n (h\<lparr>hl_connection := state\<rparr>)" using assms by (simp add: outbox_is_def)
  from flush_outbox_is [OF this, of room len stored saves now] assms(2) show ?thesis
    by (auto simp: h'_def set_connection_state_def Let_def)
qed

subsection \<open>What is in flight\<close>

text \<open>Writes by their place in the log: \<open>C\<close> are on their way to the host, \<open>R\<close> were handled by it since the
  connection came up, \<open>A\<close> of them are answers on their way back.\<close>

definition in_flight :: "nat \<Rightarrow> nat \<Rightarrow> nat list \<Rightarrow> nat list \<Rightarrow> nat list \<Rightarrow> bool" where
  "in_flight lo n C A R \<longleftrightarrow> sorted_wrt (<) (R @ C) \<and> (\<forall>i\<in>set (R @ C). i < lo + n)
     \<and> {lo..<lo + n} \<subseteq> set C \<union> set A \<and> suffix A R"

text \<open>\<open>X\<close> are the writes that ran, \<open>ks\<close> the keys of the host's cache, oldest first.\<close>

definition have_run :: "(nat \<Rightarrow> string) \<Rightarrow> nat \<Rightarrow> nat list \<Rightarrow> nat list \<Rightarrow> nat list \<Rightarrow> string list \<Rightarrow> bool" where
  "have_run key lo C R X ks \<longleftrightarrow> sorted_wrt (<) X \<and> set R \<subseteq> set X
     \<and> (\<forall>i\<in>set C. if i \<in> set X then key i \<in> set ks else (\<forall>x\<in>set X. x < i))
     \<and> (\<forall>x\<in>set X. \<forall>j\<in>{lo..x}. j \<in> set X \<and> key j \<in> set ks)
     \<and> suffix (map key (filter ((\<le>) lo) R)) ks"

lemma in_flight_moves:
  assumes "in_flight lo n C A R" "lo \<le> lo'" "suffix A' A" "\<forall>i\<in>set A. lo' \<le> i \<longrightarrow> i \<in> set A'"
    and "lo + n \<le> m" "lo' \<le> m" "m \<le> lo' + n'"
  shows "in_flight lo' n' (C @ [max lo' (lo + n)..<lo' + n']) A' R"
proof -
  have "j \<in> set C \<union> set A' \<union> {max lo' (lo + n)..<lo' + n'}" if "lo' \<le> j" "j < lo' + n'" for j
  proof (cases "j < lo + n")
    case True
    then have "j \<in> {lo..<lo + n}" using assms(2) that by simp
    then have "j \<in> set C \<union> set A" using assms(1) unfolding in_flight_def by blast
    then show ?thesis using assms(4) that by auto
  qed (use that in simp)
  then have "{lo'..<lo' + n'} \<subseteq> set (C @ [max lo' (lo + n)..<lo' + n']) \<union> set A'"
    by (intro subsetI) (simp only: atLeastLessThan_iff set_append set_upt Un_iff, blast)
  moreover have "suffix A' R" using assms(1,3) by (auto simp: in_flight_def intro: suffix_order.trans)
  moreover have old: "sorted_wrt (<) (R @ C)" "\<forall>i\<in>set (R @ C). i < lo + n"
    using assms(1) by (simp_all add: in_flight_def)
  have "sorted_wrt (<) ((R @ C) @ [max lo' (lo + n)..<lo' + n'])"
    unfolding sorted_wrt_append [of _ "R @ C"]
  proof (intro conjI ballI)
    fix x y assume "x \<in> set (R @ C)" "y \<in> set [max lo' (lo + n)..<lo' + n']"
    then have "x < lo + n" "lo + n \<le> y" using old(2) by simp_all
    then show "x < y" by simp
  qed (use old(1) in simp_all)
  moreover have "\<forall>i\<in>set (R @ C @ [max lo' (lo + n)..<lo' + n']). i < lo' + n'"
  proof
    fix i assume "i \<in> set (R @ C @ [max lo' (lo + n)..<lo' + n'])"
    then have "i < lo + n \<or> i < lo' + n'" using old(2) by auto
    then show "i < lo' + n'" using assms(5,7) by auto
  qed
  ultimately show ?thesis by (simp add: in_flight_def)
qed

lemma filter_from_suffix:
  assumes "sorted_wrt (<) (R :: nat list)" "lo \<le> lo'"
  shows "suffix (filter ((\<le>) lo') R) (filter ((\<le>) lo) R)"
  using assms
proof (induction R)
  case (Cons x R)
  show ?case
  proof (cases "lo' \<le> x")
    case True
    with Cons.prems have "filter ((\<le>) lo') (x # R) = x # R" "filter ((\<le>) lo) (x # R) = x # R"
      by (auto simp: filter_id_conv)
    then show ?thesis by (simp del: filter.simps)
  qed (use Cons in \<open>auto intro: suffix_ConsI\<close>)
qed simp

lemma have_run_moves:
  assumes "have_run key lo C R X ks" "sorted_wrt (<) R" "lo \<le> lo'" "\<forall>i\<in>set new. lo' \<le> i"
  shows "have_run key lo' (C @ new) R X ks"
proof -
  have "if i \<in> set X then key i \<in> set ks else (\<forall>x\<in>set X. x < i)" if "i \<in> set new" for i
  proof -
    have "lo \<le> i" using assms(3,4) that by auto
    then have *: "\<forall>x\<in>set X. i \<le> x \<longrightarrow> i \<in> set X \<and> key i \<in> set ks"
      using assms(1) by (auto simp: have_run_def)
    then show ?thesis by (auto simp: not_le [symmetric])
  qed
  moreover have "suffix (map key (filter ((\<le>) lo') R)) (map key (filter ((\<le>) lo) R))"
    using filter_from_suffix [OF assms(2,3)] by (rule map_mono_suffix)
  ultimately show ?thesis using assms(1,3)
    by (auto simp: have_run_def intro: suffix_order.trans)
qed

lemma have_run_cong:
  assumes "have_run key lo C R X ks" "\<forall>i\<in>set X. key' i = key i"
  shows "have_run key' lo C R X ks"
proof -
  have "map key' (filter ((\<le>) lo) R) = map key (filter ((\<le>) lo) R)"
    using assms by (auto simp: have_run_def)
  then have "suffix (map key' (filter ((\<le>) lo) R)) ks" using assms(1) by (simp add: have_run_def del: map_eq_conv)
  then show ?thesis using assms unfolding have_run_def by auto
qed

lemma in_flight_handled: "in_flight lo n (i # C) A R \<Longrightarrow> in_flight lo n C (A @ [i]) (R @ [i])"
  by (auto simp: in_flight_def suffix_def)

lemma have_run_replayed:
  assumes run: "have_run key lo (i # C) R X (pre @ key i # post)" and i: "i \<in> set X" "\<forall>x\<in>set R. x < i"
    and inj: "inj_on key (set X)"
  shows "have_run key lo C (R @ [i]) X (pre @ post @ [key i])"
proof -
  let ?R = "map key (filter ((\<le>) lo) R)"
  have "set R \<subseteq> set X" "suffix ?R (pre @ key i # post)" using run by (auto simp: have_run_def)
  moreover have "key i \<notin> set ?R" using i inj calculation(1) by (auto simp: inj_on_def)
  ultimately have "suffix ?R post"
    by (metis list.set_intros(1) suffix_append suffix_Cons suffixE in_set_conv_decomp self_append_conv2 set_mono_suffix subsetD)
  then have "suffix (map key (filter ((\<le>) lo) (R @ [i]))) (pre @ post @ [key i])"
  proof (cases "lo \<le> i")
    case False
    with i(2) have "filter ((\<le>) lo) R = []" by (auto simp: filter_empty_conv)
    with False show ?thesis by simp
  qed (auto simp: suffix_def)
  then show ?thesis using run i by (auto simp: have_run_def)
qed

lemma have_run_new:
  assumes fl: "in_flight lo n (i # C) A R" and run: "have_run key lo (i # C) R X ks" and i: "i \<notin> set X"
    and few: "n \<le> COMPLETED_LIMIT"
  shows "have_run key lo C (R @ [i]) (X @ [i]) (drop (length (ks @ [key i]) - COMPLETED_LIMIT) (ks @ [key i]))"
proof -
  let ?ks = "drop (length (ks @ [key i]) - COMPLETED_LIMIT) (ks @ [key i])"
  let ?R = "filter ((\<le>) lo) R"
  from fl have sorted: "sorted_wrt (<) (R @ i # C)" and upto: "\<forall>j\<in>set (R @ i # C). j < lo + n"
    and flying: "{lo..<lo + n} \<subseteq> set (i # C) \<union> set A" and AR: "suffix A R"
    by (simp_all add: in_flight_def)
  have after: "\<forall>x\<in>set X. x < i" using run i by (auto simp: have_run_def split: if_splits)
  have fresh: "j \<notin> set (X @ [i])" if "j \<in> set C" for j
    using that sorted after by (force simp: sorted_wrt_append)
  have "distinct ?R" using sorted by (simp add: sorted_wrt_append strict_sorted_iff)
  moreover have "set ?R \<subseteq> {lo..<i}" using sorted by (auto simp: sorted_wrt_append)
  ultimately have "length ?R \<le> i - lo" by (metis card_atLeastLessThan card_mono distinct_card finite_atLeastLessThan)
  moreover have "i < lo + n" using upto by simp
  ultimately have len: "length (?R @ [i]) \<le> COMPLETED_LIMIT \<or> ?R = []" using few by (cases "lo \<le> i") auto
  have "suffix (map key ?R) ks" using run by (simp add: have_run_def)
  then obtain us where us: "ks @ [key i] = us @ map key (?R @ [i])" by (auto simp: suffix_def)
  have "length ?ks \<ge> length (?R @ [i])" using len us by (auto simp: COMPLETED_LIMIT_def)
  moreover have "suffix ?ks (ks @ [key i])" by (rule suffix_drop)
  ultimately have tail: "suffix (map key (?R @ [i])) ?ks"
    using us by (metis length_map suffixI suffix_length_suffix)
  have keys: "key j \<in> set ?ks" if "j \<in> set ?R \<or> j = i" for j
    using set_mono_suffix [OF tail] that by auto
  have window: "j \<in> set (X @ [i]) \<and> key j \<in> set ?ks" if "lo \<le> j" "j \<le> i" for j
  proof (cases "j = i")
    case False
    have "j \<in> {lo..<lo + n}" using that \<open>i < lo + n\<close> by simp
    then have "j \<in> set C \<union> set A" using flying False by auto
    moreover have "j \<notin> set C" using False that sorted by (auto simp: sorted_wrt_append)
    ultimately have "j \<in> set R" using set_mono_suffix [OF AR] by auto
    then show ?thesis using run keys that by (auto simp: have_run_def)
  qed (use keys in simp)
  have "suffix (map key (filter ((\<le>) lo) (R @ [i]))) ?ks"
  proof (cases "lo \<le> i")
    case False
    then have "?R = []" using \<open>set ?R \<subseteq> {lo..<i}\<close> by (cases ?R) auto
    with False show ?thesis by simp
  qed (use tail in simp)
  moreover have "\<forall>x\<in>set (X @ [i]). \<forall>j\<in>{lo..x}. j \<in> set (X @ [i]) \<and> key j \<in> set ?ks"
    using window after by fastforce
  moreover have "\<forall>j\<in>set C. \<forall>x\<in>set (X @ [i]). x < j" using sorted after by (force simp: sorted_wrt_append)
  moreover have "sorted_wrt (<) (X @ [i])" "set (R @ [i]) \<subseteq> set (X @ [i])"
    using run after by (auto simp: have_run_def sorted_wrt_append)
  ultimately show ?thesis unfolding have_run_def using fresh by simp
qed

subsection \<open>The invariant of the line\<close>

text \<open>What running a list of writes answers, and the state it leaves.\<close>

primrec play :: "('j command \<Rightarrow> 'h \<Rightarrow> 'h \<times> 'r) \<Rightarrow> 'j message list \<Rightarrow> 'h \<Rightarrow> 'r list \<times> 'h" where
  "play D [] app = ([], app)"
| "play D (m # ms) app = (let (app1, r) = D (snd (snd m)) app; (rs, app2) = play D ms app1 in (r # rs, app2))"

lemma play_snoc:
  "play D (ms @ [m]) app = (let (rs, app1) = play D ms app in (rs @ [snd (D (snd (snd m)) app1)], fst (D (snd (snd m)) app1)))"
  by (induction ms arbitrary: app) (auto simp: Let_def split: prod.splits)

definition write_key :: "string \<Rightarrow> 'j message list \<Rightarrow> nat \<Rightarrow> string" where
  "write_key p log i = p @ fst (snd (log ! i))"

definition log_ok :: "'j message list \<Rightarrow> bool" where
  "log_ok log \<longleftrightarrow> distinct (map fst log) \<and> distinct (map (fst \<circ> snd) log) \<and> (\<forall>m\<in>set log. requires_delivery_key (snd (snd m)))"

text \<open>Every result the host keeps or is sending is the one of a run.\<close>

definition results_of :: "'j message list \<Rightarrow> ('j message \<times> 'r) list \<Rightarrow> nat list \<Rightarrow> (u64 \<times> 'r) list \<Rightarrow> bool" where
  "results_of log runs A acks \<longleftrightarrow> list_all2 (\<lambda>i (j, r). j = fst (log ! i) \<and> (log ! i, r) \<in> set runs) A acks"

definition cache_holds :: "string \<Rightarrow> 'j message list \<Rightarrow> ('j message \<times> 'r) list \<Rightarrow> nat list \<Rightarrow> (string \<times> 'r) list \<Rightarrow> bool" where
  "cache_holds p log runs X cache \<longleftrightarrow> (\<forall>(k, r)\<in>set cache. \<exists>i\<in>set X. k = write_key p log i \<and> (log ! i, r) \<in> set runs)"

definition line_ok :: "string \<Rightarrow> string \<Rightarrow> ('j command \<Rightarrow> 'h \<Rightarrow> 'h \<times> 'r) \<Rightarrow> 'h \<Rightarrow> ('j, 'r, 'h) session_line
    \<Rightarrow> nat \<Rightarrow> nat \<Rightarrow> nat list \<Rightarrow> nat list \<Rightarrow> nat list \<Rightarrow> nat list \<Rightarrow> bool" where
  "line_ok d p D app s lo n C A R X \<longleftrightarrow> log_ok (sl_log s) \<and> outbox_is (sl_log s) lo n (sl_link s)
     \<and> hl_queue (sl_link s) = map ((!) (sl_log s)) C \<and> in_flight lo n C A R
     \<and> have_run (write_key p (sl_log s)) lo C R X (map fst (cache_of d (sl_front s)))
     \<and> map fst (sl_runs s) = map ((!) (sl_log s)) X \<and> (\<forall>x\<in>set X. x < length (sl_log s))
     \<and> cache_holds p (sl_log s) (sl_runs s) X (cache_of d (sl_front s))
     \<and> results_of (sl_log s) (sl_runs s) A (fr_acks (sl_front s))
     \<and> play D (map fst (sl_runs s)) app = (map snd (sl_runs s), fr_app (sl_front s))
     \<and> (\<forall>(i, r)\<in>set (sl_reported s). \<exists>m. fst m = i \<and> (m, r) \<in> set (sl_runs s))"

lemma write_key_inj:
  assumes "log_ok log"
  shows "inj_on (write_key p log) {..<length log}"
proof (rule inj_onI)
  fix i j assume "i \<in> {..<length log}" "j \<in> {..<length log}" "write_key p log i = write_key p log j"
  then have "i < length log" "j < length log" "map (fst \<circ> snd) log ! i = map (fst \<circ> snd) log ! j"
    by (simp_all add: write_key_def)
  then show "i = j" using assms nth_eq_iff_index_eq [of "map (fst \<circ> snd) log" i j] unfolding log_ok_def by simp
qed

text \<open>Steps of the client: the log may grow at its end, the outbox moves on, and some answers are taken.\<close>

lemma client_step_ok:
  assumes ok: "line_ok d p D app s lo n C A R X"
    and log: "sl_log s' = sl_log s @ ext" "log_ok (sl_log s')"
    and ob: "outbox_is (sl_log s') lo' n' (sl_link s')" "lo \<le> lo'" "max lo' (lo + n) \<le> lo' + n'"
    and q: "hl_queue (sl_link s') = hl_queue (sl_link s) @ map ((!) (sl_log s')) [max lo' (lo + n)..<lo' + n']"
    and A: "suffix A' A" "\<forall>i\<in>set A. lo' \<le> i \<longrightarrow> i \<in> set A'"
    and front: "cache_of d (sl_front s') = cache_of d (sl_front s)" "fr_app (sl_front s') = fr_app (sl_front s)"
      "sl_runs s' = sl_runs s"
    and acks: "results_of (sl_log s) (sl_runs s) A' (fr_acks (sl_front s'))"
    and rep: "\<forall>(i, r)\<in>set (sl_reported s'). \<exists>m. fst m = i \<and> (m, r) \<in> set (sl_runs s')"
  shows "line_ok d p D app s' lo' n' (C @ [max lo' (lo + n)..<lo' + n']) A' R X"
proof -
  let ?new = "[max lo' (lo + n)..<lo' + n']"
  have fl: "in_flight lo n C A R" and lon: "lo + n \<le> length (sl_log s)" and XL: "\<forall>x\<in>set X. x < length (sl_log s)"
    and run: "have_run (write_key p (sl_log s)) lo C R X (map fst (cache_of d (sl_front s)))"
    using ok by (auto simp: line_ok_def outbox_is_def dest!: arg_cong [of "map message_of _" _ length])
  have same: "sl_log s' ! i = sl_log s ! i" if "i < length (sl_log s)" for i
    using that log(1) by (simp add: nth_append)
  then have key: "write_key p (sl_log s') i = write_key p (sl_log s) i" if "i < length (sl_log s)" for i
    using that by (simp add: write_key_def)
  have "i < length (sl_log s)" if "i \<in> set (R @ C)" for i
    using fl lon that unfolding in_flight_def by (meson less_le_trans)
  then have C: "\<forall>i\<in>set C. i < length (sl_log s)" "\<forall>i\<in>set R. i < length (sl_log s)" and sortR: "sorted_wrt (<) R"
    using fl by (simp_all add: in_flight_def sorted_wrt_append)
  have A': "\<forall>i\<in>set A'. i < length (sl_log s)"
    using C(2) fl set_mono_suffix [OF A(1)] by (auto simp: in_flight_def dest!: set_mono_suffix)
  have "in_flight lo' n' (C @ ?new) A' R"
    using in_flight_moves [OF fl ob(2) A, of "max lo' (lo + n)" n'] ob(3) by simp
  moreover have "have_run (write_key p (sl_log s')) lo' (C @ ?new) R X (map fst (cache_of d (sl_front s)))"
    using have_run_cong [OF have_run_moves [OF run sortR ob(2)]] key XL by auto
  moreover have "map ((!) (sl_log s')) C = map ((!) (sl_log s)) C" "map ((!) (sl_log s')) X = map ((!) (sl_log s)) X"
    using C XL same by auto
  moreover have "cache_holds p (sl_log s') (sl_runs s) X (cache_of d (sl_front s))"
    using ok XL same key by (fastforce simp: line_ok_def cache_holds_def)
  moreover have "results_of (sl_log s') (sl_runs s) A' (fr_acks (sl_front s'))"
    using acks A' same unfolding results_of_def by (auto elim!: list.rel_mono_strong)
  ultimately show ?thesis using ok log(2) ob(1) q front rep XL log(1)
    unfolding line_ok_def by auto
qed

subsection \<open>Steps of the host\<close>

lemma handle_at_once:
  assumes "scoped_key c key = scope"
  shows "handle_command (at_once D) j key c f = (case replay scope j f of
     Some f1 \<Rightarrow> f1
   | None \<Rightarrow> complete_command j scope (snd (D c (fr_app f))) (f\<lparr>fr_app := fst (D c (fr_app f))\<rparr>))"
  using assms by (simp add: handle_command_def at_once_def Let_def split: option.split)

lemma results_of_snoc:
  "results_of log runs A acks \<Longrightarrow> (log ! i, r) \<in> set runs \<Longrightarrow> j = fst (log ! i)
     \<Longrightarrow> results_of log runs (A @ [i]) (acks @ [(j, r)])"
  by (simp add: results_of_def list_all2_appendI)

lemma results_of_mono: "results_of log runs A acks \<Longrightarrow> set runs \<subseteq> set runs' \<Longrightarrow> results_of log runs' A acks"
  unfolding results_of_def by (erule list.rel_mono_strong) auto

lemma deliver_ok:
  assumes ok: "line_ok d p D app s lo n (i # C) A R X"
    and m: "sl_log s ! i = (j, k, c)" and scope: "scoped_key c key = Some (d, p @ k)"
    and q: "hl_queue (sl_link s) = (j, k, c) # q"
    and f: "f = handle_command (at_once D) j key c (sl_front s)"
    and runs: "runs = sl_runs s @ (if replay (Some (d, p @ k)) j (sl_front s) = None
        then [((j, k, c), snd (D c (fr_app (sl_front s))))] else [])"
  shows "\<exists>A' R' X'. line_ok d p D app (s\<lparr>sl_link := (sl_link s)\<lparr>hl_queue := q\<rparr>, sl_front := f, sl_runs := runs\<rparr>)
    lo n C A' R' X'"
proof -
  let ?log = "sl_log s" and ?key = "write_key p (sl_log s)" and ?cache = "cache_of d (sl_front s)"
  have fl: "in_flight lo n (i # C) A R" and run: "have_run ?key lo (i # C) R X (map fst ?cache)"
    and log: "log_ok ?log" and XL: "\<forall>x\<in>set X. x < length ?log" and ob: "outbox_is ?log lo n (sl_link s)"
    and holds: "cache_holds p ?log (sl_runs s) X ?cache" and acks: "results_of ?log (sl_runs s) A (fr_acks (sl_front s))"
    and played: "play D (map fst (sl_runs s)) app = (map snd (sl_runs s), fr_app (sl_front s))"
    and rep: "\<forall>(i, r)\<in>set (sl_reported s). \<exists>m. fst m = i \<and> (m, r) \<in> set (sl_runs s)"
    and rx: "map fst (sl_runs s) = map ((!) ?log) X"
    using ok unfolding line_ok_def by blast+
  have q': "q = map ((!) ?log) C" using ok q by (simp add: line_ok_def)
  have ob': "outbox_is ?log lo n ((sl_link s)\<lparr>hl_queue := q\<rparr>)" using ob by (simp add: outbox_is_def)
  have few: "n \<le> COMPLETED_LIMIT" using ob by (simp add: outbox_is_def MAX_ITEMS_def COMPLETED_LIMIT_def)
  have below: "\<forall>x\<in>set R. x < i" using fl by (simp add: in_flight_def sorted_wrt_append)
  have "i < lo + n" using fl by (simp add: in_flight_def)
  moreover have "lo + n \<le> length ?log"
    using ob by (auto simp: outbox_is_def dest!: arg_cong [of "map message_of _" _ length])
  ultimately have iL: "i < length ?log" by simp
  have key_i: "?key i = p @ k" using m by (simp add: write_key_def)
  have same: "x = i" if "x \<in> set X" "?key x = p @ k" for x
    using inj_onD [OF write_key_inj [OF log], of p x i] that XL iL key_i by simp
  show ?thesis
  proof (cases "replay (Some (d, p @ k)) j (sl_front s)")
    case (Some f1)
    from replay_Some [OF Some] obtain r pre post where r: "?cache = pre @ (p @ k, r) # post" "p @ k \<notin> fst ` set pre"
      "cache_of d f1 = pre @ post @ [(p @ k, r)]" "fr_app f1 = fr_app (sl_front s)"
      "fr_acks f1 = fr_acks (sl_front s) @ [(j, r)]" "fr_running f1 = fr_running (sl_front s)" .
    have f1: "f = f1" "runs = sl_runs s" using f runs Some by (simp_all add: handle_at_once [OF scope])
    have "(p @ k, r) \<in> set ?cache" using r(1) by simp
    then obtain x where x: "x \<in> set X" "p @ k = ?key x" "(?log ! x, r) \<in> set (sl_runs s)"
      using holds unfolding cache_holds_def by fastforce
    with same have i: "i \<in> set X" "(?log ! i, r) \<in> set (sl_runs s)" by auto
    have "have_run ?key lo C (R @ [i]) X (map fst pre @ map fst post @ [?key i])"
      by (rule have_run_replayed)
        (use run r(1) key_i i below inj_on_subset [OF write_key_inj [OF log], of "set X" p] XL in auto)
    moreover have "cache_holds p ?log (sl_runs s) X (cache_of d f1)"
      using holds r(1,3) by (auto simp: cache_holds_def)
    ultimately show ?thesis
      using in_flight_handled [OF fl] results_of_snoc [OF acks i(2)] m log ob' q' rx XL played rep r(3-5) f1 key_i
      by (intro exI [of _ "A @ [i]"] exI [of _ "R @ [i]"] exI [of _ X]) (simp add: line_ok_def)
  next
    case None
    let ?r = "snd (D c (fr_app (sl_front s)))"
    have f1: "f = complete_command j (Some (d, p @ k)) ?r ((sl_front s)\<lparr>fr_app := fst (D c (fr_app (sl_front s)))\<rparr>)"
      "runs = sl_runs s @ [((j, k, c), ?r)]" using f runs None by (simp_all add: handle_at_once [OF scope])
    have i: "i \<notin> set X" using None run key_i unfolding replay_None have_run_def by auto
    have "have_run ?key lo C (R @ [i]) (X @ [i]) (map fst (cache_of d f))"
      using have_run_new [OF fl run i few] by (simp add: f1(1) complete_cache Let_def drop_map [symmetric] key_i del: drop_map)
    moreover have "cache_holds p ?log runs (X @ [i]) (cache_of d f)"
      unfolding cache_holds_def
    proof
      fix y assume "y \<in> set (cache_of d f)"
      then have "y \<in> set ?cache \<or> y = (p @ k, ?r)" by (auto simp: f1(1) complete_cache Let_def dest: in_set_dropD)
      then show "case y of (a, b) \<Rightarrow> \<exists>x\<in>set (X @ [i]). a = ?key x \<and> (?log ! x, b) \<in> set runs"
        using holds key_i m by (fastforce simp: cache_holds_def f1(2))
    qed
    moreover have "results_of ?log runs (A @ [i]) (fr_acks f)"
    proof -
      have "set (sl_runs s) \<subseteq> set runs" "(?log ! i, ?r) \<in> set runs" "j = fst (?log ! i)"
        unfolding f1(2) using m by auto
      moreover have "fr_acks f = fr_acks (sl_front s) @ [(j, ?r)]" unfolding f1(1) by simp
      ultimately show ?thesis using results_of_snoc [OF results_of_mono [OF acks]] by metis
    qed
    moreover have "play D (map fst runs) app = (map snd runs, fr_app f)"
      using played by (simp add: f1 play_snoc)
    moreover have "map fst runs = map ((!) ?log) (X @ [i])" "\<forall>x\<in>set (X @ [i]). x < length ?log"
      using rx m XL iL by (simp_all add: f1(2))
    moreover have "\<forall>(i, r)\<in>set (sl_reported s). \<exists>m. fst m = i \<and> (m, r) \<in> set runs"
      using rep unfolding f1(2) by fastforce
    moreover define s' where "s' = s\<lparr>sl_link := (sl_link s)\<lparr>hl_queue := q\<rparr>, sl_front := f, sl_runs := runs\<rparr>"
    then have s': "sl_link s' = (sl_link s)\<lparr>hl_queue := q\<rparr>" "hl_queue (sl_link s') = q" "sl_front s' = f" "sl_runs s' = runs"
      "sl_log s' = ?log" "sl_reported s' = sl_reported s" by simp_all
    ultimately have "line_ok d p D app s' lo n C (A @ [i]) (R @ [i]) (X @ [i])"
      unfolding line_ok_def s' using in_flight_handled [OF fl] log ob' q' by blast
    then show ?thesis unfolding s'_def by blast
  qed
qed

lemma scoped_key_of_device:
  "\<exists>d p. \<forall>c k. requires_delivery_key c \<longrightarrow> scoped_key c (Some (device @ '':'' @ k)) = Some (d, p @ k)"
proof -
  have "\<exists>d p. \<forall>k. split_once (CHR '':'') (device @ '':'' @ k) = Some (d, p @ k)"
  proof (induction device)
    case Nil
    then show ?case by (simp add: split_once_def)
  next
    case (Cons x device)
    then obtain d p where dp: "\<forall>k. split_once (CHR '':'') (device @ '':'' @ k) = Some (d, p @ k)" by blast
    show ?case
    proof (cases "x = CHR '':''")
      case True
      then show ?thesis by (intro exI [of _ "[]"] exI [of _ "device @ '':''"]) (simp add: split_once_def)
    next
      case False
      then show ?thesis using dp
        by (intro exI [of _ "x # d"] exI [of _ p]) (auto simp: split_once_def map_option_case split: option.splits)
    qed
  qed
  then show ?thesis by (fastforce simp: scoped_key_def)
qed

lemma oldest_answer:
  assumes "in_flight lo n C (a # A) R"
  shows "a < lo \<or> a = lo \<and> 1 \<le> n" "\<forall>i\<in>set (a # A). (if a = lo then Suc lo else lo) \<le> i \<longrightarrow> i \<in> set A"
proof -
  from assms obtain pre where R: "R = pre @ a # A" by (auto simp: in_flight_def suffix_def)
  have sorted: "sorted_wrt (<) (R @ C)" and upto: "\<forall>i\<in>set (R @ C). i < lo + n"
    and fly: "{lo..<lo + n} \<subseteq> set C \<union> set (a # A)" using assms by (simp_all add: in_flight_def)
  have "a < lo + n" using upto R by simp
  moreover have "\<not> lo < a"
  proof
    assume "lo < a"
    then have "lo \<in> set C \<union> set (a # A)" using fly \<open>a < lo + n\<close> by (intro subsetD [OF fly]) simp
    moreover have "\<forall>x\<in>set C. a < x" "\<forall>x\<in>set (a # A). a \<le> x"
      using sorted unfolding R by (auto simp: sorted_wrt_append intro: less_imp_le)
    ultimately have "a \<le> lo" by (meson Un_iff less_imp_le)
    then show False using \<open>lo < a\<close> by simp
  qed
  ultimately show a: "a < lo \<or> a = lo \<and> 1 \<le> n" by auto
  then show "\<forall>i\<in>set (a # A). (if a = lo then Suc lo else lo) \<le> i \<longrightarrow> i \<in> set A" by auto
qed

lemma line_step_ok:
  fixes D :: "'j command \<Rightarrow> 'h \<Rightarrow> 'h \<times> 'r"
  assumes ok: "line_ok d p D app s lo n C A R X" and step: "line_step device D err s s'"
    and scope: "\<forall>(c :: 'j command) k. requires_delivery_key c \<longrightarrow> scoped_key c (Some (device @ '':'' @ k)) = Some (d, p @ k)"
  shows "\<exists>lo n C A R X. line_ok d p D app s' lo n C A R X"
  using step
proof cases
  case (submit c i k room len stored saves now h e)
  let ?log = "sl_log s @ (if e = None then [(i, k, c)] else [])"
  have ob: "outbox_is (sl_log s) lo n (sl_link s)" using ok by (simp add: line_ok_def)
  from enqueue_is [OF ob submit(3,5)] obtain lo' n' where m: "lo \<le> lo'" "outbox_is ?log lo' n' h"
    "max lo' (lo + n) \<le> lo' + n'" "hl_queue h = hl_queue (sl_link s) @ map ((!) ?log) [max lo' (lo + n)..<lo' + n']"
    by blast
  have "log_ok ?log" using ok submit(2-4) by (auto simp: line_ok_def log_ok_def)
  then have "line_ok d p D app s' lo' n' (C @ [max lo' (lo + n)..<lo' + n']) A R X"
    by (intro client_step_ok [OF ok]) (use m ok in \<open>simp_all add: submit(1) line_ok_def\<close>)
  then show ?thesis by blast
next
  case (flush room len stored saves now)
  have ob: "outbox_is (sl_log s) lo n (sl_link s)" using ok by (simp add: line_ok_def)
  from flush_outbox_is [OF ob, of room len stored saves now] obtain n' where "n \<le> n'"
    "outbox_is (sl_log s) lo n' (sl_link s')"
    "hl_queue (sl_link s') = hl_queue (sl_link s) @ map ((!) (sl_log s)) [max lo (lo + n)..<lo + n']"
    unfolding flush by auto
  then have "line_ok d p D app s' lo n' (C @ [max lo (lo + n)..<lo + n']) A R X"
    by (intro client_step_ok [OF ok, where ext = "[]"]) (use ok in \<open>simp_all add: flush line_ok_def\<close>)
  then show ?thesis by blast
next
  case (deliver i k c q f)
  from ok deliver(2) obtain x C' where C: "C = x # C'" "sl_log s ! x = (i, k, c)"
    by (auto simp: line_ok_def Cons_eq_map_conv)
  have "in_flight lo n C A R" "outbox_is (sl_log s) lo n (sl_link s)" "log_ok (sl_log s)" using ok by (simp_all add: line_ok_def)
  then have "x < length (sl_log s)" "\<forall>m\<in>set (sl_log s). requires_delivery_key (snd (snd m))"
    using C by (auto simp: in_flight_def outbox_is_def log_ok_def dest!: arg_cong [of "map message_of _" _ length])
  then have "requires_delivery_key c" using C(2) nth_mem [of x "sl_log s"] by fastforce
  with scope have sc: "scoped_key c (Some (device @ '':'' @ k)) = Some (d, p @ k)" by blast
  show ?thesis
    using deliver_ok [OF ok [unfolded C(1)] C(2) sc deliver(2,3) refl] unfolding deliver(1) sc by blast
next
  case (answered i r as room len stored saves now)
  have res: "results_of (sl_log s) (sl_runs s) A (fr_acks (sl_front s))" using ok by (simp add: line_ok_def)
  from res obtain a A' where A: "A = a # A'" and a: "i = fst (sl_log s ! a)" "(sl_log s ! a, r) \<in> set (sl_runs s)"
    and res': "results_of (sl_log s) (sl_runs s) A' as"
    unfolding results_of_def answered(2) by (auto simp: list_all2_Cons2)
  have fl: "in_flight lo n C (a # A') R" and ob: "outbox_is (sl_log s) lo n (sl_link s)"
    and dist: "distinct (map fst (sl_log s))" and rep: "\<forall>(i, r)\<in>set (sl_reported s). \<exists>m. fst m = i \<and> (m, r) \<in> set (sl_runs s)"
    using ok by (auto simp: line_ok_def A log_ok_def)
  note old = oldest_answer [OF fl]
  have "a < length (sl_log s)" using old ob
    by (auto simp: outbox_is_def dest!: arg_cong [of "map message_of _" _ length])
  from on_ack_is [OF ob dist this a(1) old(1), of room len stored saves now "err r"]
  obtain lo' n' where lo': "lo' = (if a = lo then Suc lo else lo)" and m: "outbox_is (sl_log s) lo' n' (sl_link s')"
    "lo + n \<le> lo' + n'" "hl_queue (sl_link s') = hl_queue (sl_link s) @ map ((!) (sl_log s)) [lo + n..<lo' + n']"
    unfolding answered(1) by auto
  have mx: "max lo' (lo + n) = lo + n" using old(1) lo' by auto
  have "line_ok d p D app s' lo' n' (C @ [max lo' (lo + n)..<lo' + n']) A' R X"
  proof (rule client_step_ok [OF ok, where ext = "[]"])
    show "\<forall>i\<in>set A. lo' \<le> i \<longrightarrow> i \<in> set A'" using old(2) lo' A by simp
    show "suffix A' A" by (simp add: A suffix_ConsI)
    show "\<forall>(i, r)\<in>set (sl_reported s'). \<exists>m. fst m = i \<and> (m, r) \<in> set (sl_runs s')"
      using rep a by (cases "sl_log s ! a") (auto simp: answered(1))
    show "log_ok (sl_log s')" using ok by (simp add: answered(1) line_ok_def)
  qed (use m mx res' lo' in \<open>simp_all add: answered(1) cache_of_def\<close>)
  then show ?thesis by blast
next
  case (disconnect state room len stored saves now)
  have "outbox_is (sl_log s) lo n ((sl_link s)\<lparr>hl_queue := []\<rparr>)" using ok by (simp add: line_ok_def outbox_is_def)
  note down = disconnect_is [OF this disconnect(2), of "line_env room len stored saves" now]
  have "in_flight lo 0 [] [] []" by (simp add: in_flight_def)
  moreover have "have_run (write_key p (sl_log s)) lo [] [] X (map fst (cache_of d (sl_front s)))"
    using ok by (auto simp: line_ok_def have_run_def)
  moreover have "results_of (sl_log s) (sl_runs s) [] []" by (simp add: results_of_def)
  moreover have s': "sl_log s' = sl_log s" "sl_runs s' = sl_runs s" "sl_reported s' = sl_reported s"
    "fr_app (sl_front s') = fr_app (sl_front s)" "fr_acks (sl_front s') = []" "cache_of d (sl_front s') = cache_of d (sl_front s)"
    and "outbox_is (sl_log s) lo 0 (sl_link s')" "hl_queue (sl_link s') = map ((!) (sl_log s)) []"
    using down by (simp_all add: disconnect(1) cache_of_def)
  ultimately have "line_ok d p D app s' lo 0 [] [] [] X"
    using ok unfolding line_ok_def s' by blast
  then show ?thesis by blast
next
  case (connect state room len stored saves now)
  have ob: "outbox_is (sl_log s) lo n (sl_link s)" using ok by (simp add: line_ok_def)
  from connect_is [OF ob connect(2), of room len stored saves now] obtain n' where "n \<le> n'"
    "outbox_is (sl_log s) lo n' (sl_link s')"
    "hl_queue (sl_link s') = hl_queue (sl_link s) @ map ((!) (sl_log s)) [max lo (lo + n)..<lo + n']"
    unfolding connect(1) by auto
  then have "line_ok d p D app s' lo n' (C @ [max lo (lo + n)..<lo + n']) A R X"
    by (intro client_step_ok [OF ok, where ext = "[]"]) (use ok in \<open>simp_all add: connect(1) line_ok_def\<close>)
  then show ?thesis by blast
qed

lemma line_reach_ok:
  fixes D :: "'j command \<Rightarrow> 'h \<Rightarrow> 'h \<times> 'r"
  assumes "line_reach device D err app s"
  shows "\<exists>d p lo n C A R X. line_ok d p D app s lo n C A R X"
proof -
  obtain d p where scope: "\<forall>c k. requires_delivery_key c \<longrightarrow> scoped_key (c :: 'j command) (Some (device @ '':'' @ k)) = Some (d, p @ k)"
    using scoped_key_of_device [of device] by blast
  from assms have "\<exists>lo n C A R X. line_ok d p D app s lo n C A R X"
  proof induction
    case line_reach_start
    have "line_ok d p D app (line_start app) 0 0 [] [] [] []"
      by (simp add: line_ok_def line_start_def log_ok_def outbox_is_def in_flight_def have_run_def cache_holds_def
        results_of_def MAX_ITEMS_def cache_of_def)
    then show ?case by blast
  next
    case (line_reach_step s s')
    then show ?case using line_step_ok [OF _ line_reach_step.hyps(2) scope] by blast
  qed
  then show ?thesis by blast
qed

subsection \<open>Every write runs once\<close>

lemma subseq_of_indices:
  assumes "sorted_wrt (<) X" "\<forall>x\<in>set X. x < length xs"
  shows "subseq (map ((!) xs) X) xs"
  using assms
proof (induction xs arbitrary: X rule: rev_induct)
  case (snoc y xs)
  show ?case
  proof (cases "X \<noteq> [] \<and> last X = length xs")
    case True
    then obtain Y where Y: "X = Y @ [length xs]" by (metis append_butlast_last_id)
    then have "subseq (map ((!) xs) Y) xs" using snoc by (simp add: sorted_wrt_append)
    moreover have "map ((!) (xs @ [y])) Y = map ((!) xs) Y"
      using snoc.prems(1) by (simp add: Y sorted_wrt_append nth_append)
    ultimately show ?thesis by (simp add: Y list_emb_append_mono del: map_eq_conv)
  next
    case False
    have "x < length xs" if "x \<in> set X" for x
    proof -
      obtain Y z where X: "X = Y @ [z]" using \<open>x \<in> set X\<close> by (cases X rule: rev_cases) auto
      then show ?thesis using snoc.prems False that by (auto simp: sorted_wrt_append less_Suc_eq)
    qed
    moreover from this have "map ((!) (xs @ [y])) X = map ((!) xs) X" by (simp add: nth_append)
    ultimately show ?thesis using snoc
      by (metis prefixI prefix_imp_subseq subseq_order.trans)
  qed
qed simp

lemma subseq_distinct_map: "subseq xs ys \<Longrightarrow> distinct (map f ys) \<Longrightarrow> distinct (map f xs)"
  by (induction rule: list_emb.induct) (auto dest: list_emb_set)

text \<open>C1: Whatever connections break and come back, the writes of a client that have a result at once run
  at most once each and in the order the client submitted them: what the host ran is a subsequence of
  the accepted writes, no key twice, its state is the one those runs leave in that order, and every
  answer a client was given is the result of the one run of its write. Redelivery, the cache of 512
  results and the eviction of the oldest writes are all part of the run.\<close>

theorem writes_run_once_in_order:
  assumes "line_reach device D err app s"
  shows "subseq (map fst (sl_runs s)) (sl_log s) \<and> distinct (map (fst \<circ> snd) (map fst (sl_runs s)))
    \<and> play D (map fst (sl_runs s)) app = (map snd (sl_runs s), fr_app (sl_front s))
    \<and> (\<forall>(i, r)\<in>set (sl_reported s). \<exists>m. fst m = i \<and> (m, r) \<in> set (sl_runs s))"
proof -
  from line_reach_ok [OF assms] obtain d p lo n C A R X where ok: "line_ok d p D app s lo n C A R X" by blast
  have X: "sorted_wrt (<) X" "\<forall>x\<in>set X. x < length (sl_log s)" and runs: "map fst (sl_runs s) = map ((!) (sl_log s)) X"
    and log: "log_ok (sl_log s)" using ok by (simp_all add: line_ok_def have_run_def)
  have sub: "subseq (map fst (sl_runs s)) (sl_log s)" unfolding runs using X by (rule subseq_of_indices)
  moreover have "distinct (map (fst \<circ> snd) (map fst (sl_runs s)))"
    by (rule subseq_distinct_map [OF sub]) (use log in \<open>simp add: log_ok_def\<close>)
  ultimately show ?thesis using ok unfolding line_ok_def by blast
qed

text \<open>Two writes: the answer to the first is lost with the connection, the second is submitted while there
  is none, and both are sent after the reconnect.\<close>

definition demo_write :: "u64 \<Rightarrow> nat option \<Rightarrow> unit pending_write" where
  "demo_write i sent = \<lparr>pw_id = i, pw_entry = \<lparr>ob_key = if i = 1 then ''u1'' else ''u2'', ob_command = ProjectCommand CycleProjectSort\<rparr>,
     pw_sent = sent, pw_adopted = False\<rparr>"

definition demo_link :: "unit pending_write list \<Rightarrow> connection_state \<Rightarrow> unit message list \<Rightarrow> (unit, unit message list) host_link" where
  "demo_link ws state q = \<lparr>hl_writes = ws, hl_stored = None, hl_failed = [], hl_acknowledged = [], hl_pending = [], hl_replies = [],
     hl_connection = state, hl_queue = q\<rparr>"

definition demo_front :: "nat \<Rightarrow> (string \<times> nat) list \<Rightarrow> (u64 \<times> nat) list \<Rightarrow> (nat, nat) front" where
  "demo_front n cache acks = \<lparr>fr_app = n, fr_completed = (if cache = [] then [] else [(''laptop'', cache)]), fr_running = [], fr_acks = acks\<rparr>"

definition demo_line where
  "demo_line link front log runs rep = \<lparr>sl_link = link, sl_front = front, sl_log = map message_of log, sl_runs = runs, sl_reported = rep\<rparr>"

definition count_up :: "unit command \<Rightarrow> nat \<Rightarrow> nat \<times> nat" where
  "count_up c n = (Suc n, 10 + n)"

abbreviation demo_env where "demo_env \<equiv> line_env 8 (\<lambda>_. 1) (\<lambda>_. 1) (\<lambda>_. True)"

lemmas demo_defs = demo_write_def demo_link_def demo_front_def demo_line_def message_of_def count_up_def at_once_def

lemma demo_flush:
  "flush_outbox demo_env 5 (demo_link [demo_write 1 None, demo_write 2 None] Connected [])
     = demo_link [demo_write 1 (Some 5), demo_write 2 (Some 5)] Connected (map message_of [demo_write 1 None, demo_write 2 None])"
  by (simp add: flush_outbox_def demo_defs link_up_def was_sent_def line_env_def Let_def)

lemma demo_enqueue:
  "enqueue demo_env 5 1 ''u1'' (ProjectCommand CycleProjectSort) (demo_link [] Connected [])
    = Some (demo_link [demo_write 1 (Some 5)] Connected [message_of (demo_write 1 None)], None)"
  "enqueue demo_env 5 2 ''u2'' (ProjectCommand CycleProjectSort) (demo_link [demo_write 1 None] Reconnecting [])
    = Some (demo_link [demo_write 1 None, demo_write 2 None] Reconnecting [], None)"
  by (simp_all add: enqueue_def Let_def demo_defs snapshot_bytes_def line_env_def MAX_ITEMS_def OUTBOX_BYTES_def
      persist_def last_items_def flush_outbox_def link_up_def was_sent_def contains_secret_def)

lemma demo_handle:
  "handle_command (at_once count_up) 1 (Some ''laptop:u1'') (ProjectCommand CycleProjectSort) (demo_front 0 [] [])
     = demo_front 1 [(''u1'', 10)] [(1, 10)]"
  "replay (scoped_key (ProjectCommand CycleProjectSort :: unit command) (Some ''laptop:u1'')) 1 (demo_front 0 [] []) = None"
  "handle_command (at_once count_up) 1 (Some ''laptop:u1'') (ProjectCommand CycleProjectSort) (demo_front 1 [(''u1'', 10)] [])
     = demo_front 1 [(''u1'', 10)] [(1, 10)]"
  "replay (scoped_key (ProjectCommand CycleProjectSort :: unit command) (Some ''laptop:u1'')) 1 (demo_front 1 [(''u1'', 10)] []) \<noteq> None"
  "handle_command (at_once count_up) 2 (Some ''laptop:u2'') (ProjectCommand CycleProjectSort) (demo_front 1 [(''u1'', 10)] [(1, 10)])
     = demo_front 2 [(''u1'', 10), (''u2'', 11)] [(1, 10), (2, 11)]"
  "replay (scoped_key (ProjectCommand CycleProjectSort :: unit command) (Some ''laptop:u2'')) 2 (demo_front 1 [(''u1'', 10)] [(1, 10)]) = None"
  by (simp_all add: handle_command_def scoped_key_def requires_delivery_key_def split_once_def replay_def cache_of_def
      complete_command_def ack_def COMPLETED_LIMIT_def demo_defs Let_def)

lemma demo_deliver:
  assumes reach: "line_reach ''laptop'' count_up err 0 (demo_line (demo_link ws st (message_of (demo_write i None) # q)) f log runs rep)"
    and f': "handle_command (at_once count_up) i (Some (''laptop'' @ '':'' @ k)) (ProjectCommand CycleProjectSort) f = f'"
    and new: "replay (scoped_key (ProjectCommand CycleProjectSort :: unit command) (Some (''laptop'' @ '':'' @ k))) i f = None \<longleftrightarrow> new"
    and k: "k = (if i = 1 then ''u1'' else ''u2'')"
  shows "line_reach ''laptop'' count_up err 0 (demo_line (demo_link ws st q) f' log
    (runs @ (if new then [(message_of (demo_write i None), 10 + fr_app f)] else [])) rep)"
proof -
  let ?s = "demo_line (demo_link ws st (message_of (demo_write i None) # q)) f log runs rep"
  have m: "message_of (demo_write i None) = (i, k, ProjectCommand CycleProjectSort)" by (simp add: demo_defs k)
  have "hl_queue (sl_link ?s) = (i, k, ProjectCommand CycleProjectSort) # q" unfolding m by (simp add: demo_line_def demo_link_def)
  from line_reach_step [OF reach line_step.deliver [OF this refl]] show ?thesis
    by (cases new) (simp_all add: demo_line_def demo_link_def m count_up_def f' [simplified] new [simplified])
qed

lemma demo_answered:
  assumes reach: "line_reach ''laptop'' count_up (\<lambda>_. None) 0 (demo_line link (demo_front n cache ((i, r) # acks)) log runs rep)"
    and link': "on_ack demo_env 5 i None link = link'"
  shows "line_reach ''laptop'' count_up (\<lambda>_. None) 0 (demo_line link' (demo_front n cache acks) log runs (rep @ [(i, r)]))"
proof -
  let ?s = "demo_line link (demo_front n cache ((i, r) # acks)) log runs rep"
  have "fr_acks (sl_front ?s) = (i, r) # acks" by (simp add: demo_line_def demo_front_def)
  from line_reach_step [OF reach line_step.answered [OF this, where room = 8 and len = "\<lambda>_. 1" and
      stored = "\<lambda>_. 1" and saves = "\<lambda>_. True" and now = 5]] show ?thesis
    by (simp add: demo_line_def demo_front_def link' [symmetric])
qed

lemma demo_ack:
  "on_ack demo_env 5 1 None (demo_link [demo_write 1 (Some 5), demo_write 2 (Some 5)] Connected []) = demo_link [demo_write 2 (Some 5)] Connected []"
  "on_ack demo_env 5 2 None (demo_link [demo_write 2 (Some 5)] Connected []) = demo_link [] Connected []"
  by (simp_all add: on_ack_def settle_write_def demo_defs flush_outbox_def link_up_def was_sent_def answer_def
      remove_write_def persist_def adopts_record_def Let_def)

theorem writes_run_once_in_order_witness:
  "\<exists>s. line_reach ''laptop'' count_up (\<lambda>_. None) 0 s \<and> map snd (sl_runs s) = [10, 11] \<and> sl_reported s = [(1, 10), (2, 11)]
    \<and> subseq (map fst (sl_runs s)) (sl_log s) \<and> play count_up (map fst (sl_runs s)) 0 = ([10, 11], 2)"
proof -
  let ?reach = "line_reach ''laptop'' count_up (\<lambda>_. None) 0"
  let ?w1 = "demo_write 1 None" and ?w2 = "demo_write 2 None"
  let ?v1 = "demo_write 1 (Some 5)" and ?v2 = "demo_write 2 (Some 5)"
  let ?m1 = "message_of ?w1" and ?m2 = "message_of ?w2"
  note step = line_reach_step [where device = "''laptop''" and D = count_up and app = 0 and err = "\<lambda>_. None"]
  note connect = line_step.connect [where room = 8 and len = "\<lambda>_. 1" and stored = "\<lambda>_. 1" and saves = "\<lambda>_. True" and now = 5]
  note submit = line_step.submit [where room = 8 and len = "\<lambda>_. 1" and stored = "\<lambda>_. 1" and saves = "\<lambda>_. True" and now = 5
    and c = "ProjectCommand CycleProjectSort"]
  note disconnect = line_step.disconnect [where room = 8 and len = "\<lambda>_. 1" and stored = "\<lambda>_. 1" and saves = "\<lambda>_. True" and now = 5
    and state = Reconnecting]
  have s0: "?reach (demo_line (demo_link [] Offline []) (demo_front 0 [] []) [] [] [])"
    using line_reach_start [of "''laptop''" count_up "\<lambda>_. None" 0] by (simp add: line_start_def demo_defs)
  have s1: "?reach (demo_line (demo_link [] Connected []) (demo_front 0 [] []) [] [] [])"
    using step [OF s0 connect [where state = Connected]]
    by (simp add: set_connection_state_def flush_outbox_def demo_defs link_up_def Let_def)
  have s2: "?reach (demo_line (demo_link [?v1] Connected [?m1]) (demo_front 0 [] []) [?w1] [] [])"
    using step [OF s1 submit [where i = 1 and k = "''u1''" and e = None and h = "demo_link [?v1] Connected [?m1]"]] demo_enqueue(1)
    by (simp add: demo_line_def requires_delivery_key_def) (simp add: demo_defs)
  have s3: "?reach (demo_line (demo_link [?v1] Connected []) (demo_front 1 [(''u1'', 10)] [(1, 10)]) [?w1] [(?m1, 10)] [])"
    using demo_deliver [OF s2 _ _ refl, of _ True] demo_handle(1,2) by (simp add: demo_front_def)
  have s4: "?reach (demo_line (demo_link [?w1] Reconnecting []) (demo_front 1 [(''u1'', 10)] []) [?w1] [(?m1, 10)] [])"
    using step [OF s3 disconnect] by (simp add: set_connection_state_def flush_outbox_def demo_defs link_up_def Let_def)
  have s5: "?reach (demo_line (demo_link [?w1, ?w2] Reconnecting []) (demo_front 1 [(''u1'', 10)] []) [?w1, ?w2] [(?m1, 10)] [])"
    using step [OF s4 submit [where i = 2 and k = "''u2''" and e = None and h = "demo_link [?w1, ?w2] Reconnecting []"]] demo_enqueue(2)
    by (simp add: demo_line_def requires_delivery_key_def) (simp add: demo_defs)
  have s6: "?reach (demo_line (demo_link [?v1, ?v2] Connected [?m1, ?m2]) (demo_front 1 [(''u1'', 10)] []) [?w1, ?w2] [(?m1, 10)] [])"
    using step [OF s5 connect [where state = Connected]] demo_flush
    by (simp add: set_connection_state_def demo_line_def Let_def) (simp add: demo_link_def)
  have s7: "?reach (demo_line (demo_link [?v1, ?v2] Connected [?m2]) (demo_front 1 [(''u1'', 10)] [(1, 10)]) [?w1, ?w2] [(?m1, 10)] [])"
    using demo_deliver [OF s6 _ _ refl, of _ False] demo_handle(3,4) by simp
  have s8: "?reach (demo_line (demo_link [?v1, ?v2] Connected []) (demo_front 2 [(''u1'', 10), (''u2'', 11)] [(1, 10), (2, 11)])
      [?w1, ?w2] [(?m1, 10), (?m2, 11)] [])"
    using demo_deliver [OF s7 _ _ refl, of _ True] demo_handle(5,6) by (simp add: demo_front_def)
  let ?s = "demo_line (demo_link [] Connected []) (demo_front 2 [(''u1'', 10), (''u2'', 11)] []) [?w1, ?w2] [(?m1, 10), (?m2, 11)] [(1, 10), (2, 11)]"
  have s9: "?reach ?s"
    using demo_answered [OF demo_answered [OF s8 demo_ack(1)] demo_ack(2)] by simp
  show ?thesis
    by (rule exI [of _ ?s]) (use s9 writes_run_once_in_order [OF s9] in \<open>simp add: demo_line_def demo_front_def\<close>)
qed

end
