(* ===== verification/Terminal_Frames.thy ===== *)
theory Terminal_Frames
  imports Prelude "HOL-Library.Sublist"
begin

section \<open>Frames of a terminal\<close>

text \<open>
  The replicated screen of a terminal (\<^verbatim>\<open>protocol/src/terminal/mod.rs\<close>). A frame holds the rows on the
  screen and the retained scrollback; a cell names its style by its place in the table of the message
  that carries it. A delta brings a frame up to date, on the host and on every client alike: its
  styles are merged into the table of the frame and the rows it carries are renumbered.
\<close>

type_synonym u16 = "16 word"

record terminal_modes =
  tm_mode :: u32
  tm_keyboard :: "8 word"
  tm_modify_other_keys :: "8 word option"

datatype cursor_shape = Block | Underline | Beam | Hidden

record terminal_cursor =
  tcu_row :: u16
  tcu_col :: u16
  tcu_shape :: cursor_shape
  tcu_blinking :: bool

datatype terminal_color = Foreground | Background | Cursor | Indexed "8 word" | Rgb "8 word" "8 word" "8 word"

record terminal_style =
  st_fg :: terminal_color
  st_bg :: terminal_color
  st_underline_color :: "terminal_color option"
  st_flags :: u16

definition default_style :: terminal_style where
  "default_style = \<lparr>st_fg = Foreground, st_bg = Background, st_underline_color = None, st_flags = 0\<rparr>"

datatype cell_width = Narrow | Wide | Spacer

record terminal_link =
  lk_uri :: string
  lk_id :: "string option"

record terminal_cell =
  ce_text :: string
  ce_width :: cell_width
  ce_style :: u16
  ce_link :: "terminal_link option"

definition default_cell :: terminal_cell where
  "default_cell = \<lparr>ce_text = [], ce_width = Narrow, ce_style = 0, ce_link = None\<rparr>"

record terminal_row =
  ro_cells :: "terminal_cell list"
  ro_wrapped :: bool

definition default_row :: terminal_row where
  "default_row = \<lparr>ro_cells = [], ro_wrapped = False\<rparr>"

record terminal_row_update =
  ru_index :: u16
  ru_row :: terminal_row

datatype terminal_history_update = Appended "terminal_row list" | Replaced "terminal_row list"

record terminal_exit =
  ex_exited :: bool
  ex_code :: "i32 option"

record terminal_clipboard =
  cb_selection :: bool
  cb_text :: string

record terminal_frame =
  tf_cols :: u16
  tf_rows :: u16
  tf_modes :: terminal_modes
  tf_cursor :: "terminal_cursor option"
  tf_styles :: "terminal_style list"
  tf_visible :: "terminal_row list"
  tf_history :: "terminal_row list"
  tf_lines_evicted :: u64
  tf_title :: string
  tf_working_directory :: "string option"
  tf_exited :: bool
  tf_exit_code :: "i32 option"

record terminal_delta =
  td_cols :: u16
  td_rows :: u16
  td_modes :: terminal_modes
  td_cursor :: "terminal_cursor option"
  td_lines_evicted :: u64
  td_styles :: "terminal_style list"
  td_rows_replaced :: "terminal_row_update list"
  td_history :: "terminal_history_update option"
  td_title :: "string option"
  td_working_directory :: "string option"
  td_exit :: "terminal_exit option"
  td_bell :: bool
  td_clipboard :: "terminal_clipboard option"

definition no_modes :: terminal_modes where
  "no_modes = \<lparr>tm_mode = 0, tm_keyboard = 0, tm_modify_other_keys = None\<rparr>"

definition default_frame :: terminal_frame where
  "default_frame = \<lparr>tf_cols = 0, tf_rows = 0, tf_modes = no_modes, tf_cursor = None, tf_styles = [], tf_visible = [],
     tf_history = [], tf_lines_evicted = 0, tf_title = [], tf_working_directory = None, tf_exited = False,
     tf_exit_code = None\<rparr>"

definition HISTORY_LIMIT :: nat where "HISTORY_LIMIT = 1000"

subsection \<open>Applying a delta\<close>

text \<open>\<open>remap_styles\<close>: the loop over the styles of the message, and the table it starts from. An index is
  cast to \<open>u16\<close>.\<close>

primrec remap_each :: "terminal_style list \<Rightarrow> terminal_style list \<Rightarrow> terminal_style list \<times> u16 list" where
  "remap_each table [] = (table, [])"
| "remap_each table (s # ss) =
     (case position (\<lambda>x. x = s) table of
        Some i \<Rightarrow> (let (table1, ids) = remap_each table ss in (table1, word_of_nat i # ids))
      | None \<Rightarrow> (let (table1, ids) = remap_each (table @ [s]) ss in (table1, word_of_nat (length table) # ids)))"

definition remap_styles :: "terminal_style list \<Rightarrow> terminal_style list \<Rightarrow> terminal_style list \<times> u16 list" where
  "remap_styles table local_styles = remap_each (if table = [] then [default_style] else table) local_styles"

definition restyle_row :: "terminal_row \<Rightarrow> u16 list \<Rightarrow> terminal_row" where
  "restyle_row row ids = row\<lparr>ro_cells := map (\<lambda>c. c\<lparr>ce_style :=
     if unat (ce_style c) < length ids then ids ! unat (ce_style c) else 0\<rparr>) (ro_cells row)\<rparr>"

definition resize_rows :: "nat \<Rightarrow> terminal_row list \<Rightarrow> terminal_row list" where
  "resize_rows n rows = take n rows @ replicate (n - length rows) default_row"

definition replace_row :: "u16 list \<Rightarrow> terminal_row_update \<Rightarrow> terminal_row list \<Rightarrow> terminal_row list" where
  "replace_row ids u rows = (if unat (ru_index u) < length rows
     then rows[unat (ru_index u) := restyle_row (ru_row u) ids] else rows)"

definition frame_apply :: "terminal_delta \<Rightarrow> terminal_frame \<Rightarrow> terminal_frame" where
  "frame_apply d f = (
     let (styles, ids) = remap_styles (tf_styles f) (td_styles d);
         visible = fold (replace_row ids) (td_rows_replaced d) (resize_rows (unat (td_rows d)) (tf_visible f));
         history = (case td_history d of
             Some (Appended rows) \<Rightarrow>
               (let h = tf_history f @ map (\<lambda>r. restyle_row r ids) rows in drop (length h - HISTORY_LIMIT) h)
           | Some (Replaced rows) \<Rightarrow> map (\<lambda>r. restyle_row r ids) rows
           | None \<Rightarrow> tf_history f)
     in \<lparr>tf_cols = td_cols d, tf_rows = td_rows d, tf_modes = td_modes d, tf_cursor = td_cursor d, tf_styles = styles,
         tf_visible = visible, tf_history = history, tf_lines_evicted = td_lines_evicted d,
         tf_title = (case td_title d of Some t \<Rightarrow> t | None \<Rightarrow> tf_title f),
         tf_working_directory = (case td_working_directory d of Some w \<Rightarrow> Some w | None \<Rightarrow> tf_working_directory f),
         tf_exited = (case td_exit d of Some e \<Rightarrow> ex_exited e | None \<Rightarrow> tf_exited f),
         tf_exit_code = (case td_exit d of Some e \<Rightarrow> ex_code e | None \<Rightarrow> tf_exit_code f)\<rparr>)"

text \<open>\<open>TerminalFrame::style\<close>: the style a cell resolves to.\<close>

definition style_at :: "terminal_style list \<Rightarrow> u16 \<Rightarrow> terminal_style" where
  "style_at table i = (if unat i < length table then table ! unat i else default_style)"

definition frame_style :: "terminal_frame \<Rightarrow> terminal_cell \<Rightarrow> terminal_style" where
  "frame_style f c = style_at (tf_styles f) (ce_style c)"

subsection \<open>Rows without a table\<close>

text \<open>What a reader sees of a row: its cells with their styles resolved.\<close>

type_synonym plain_cell = "string \<times> cell_width \<times> terminal_style \<times> terminal_link option"
type_synonym plain_row = "plain_cell list \<times> bool"

definition plain_row :: "terminal_style list \<Rightarrow> terminal_row \<Rightarrow> plain_row" where
  "plain_row table row = (map (\<lambda>c. (ce_text c, ce_width c, style_at table (ce_style c), ce_link c)) (ro_cells row), ro_wrapped row)"

definition row_styled :: "terminal_style list \<Rightarrow> terminal_row \<Rightarrow> bool" where
  "row_styled table row \<longleftrightarrow> (\<forall>c\<in>set (ro_cells row). unat (ce_style c) < length table)"

definition frame_ok :: "terminal_frame \<Rightarrow> bool" where
  "frame_ok f \<longleftrightarrow> (\<forall>r\<in>set (tf_visible f) \<union> set (tf_history f). row_styled (tf_styles f) r)"

definition delta_rows :: "terminal_delta \<Rightarrow> terminal_row list" where
  "delta_rows d = map ru_row (td_rows_replaced d) @ (case td_history d of
     Some (Appended rows) \<Rightarrow> rows | Some (Replaced rows) \<Rightarrow> rows | None \<Rightarrow> [])"

definition delta_ok :: "terminal_delta \<Rightarrow> bool" where
  "delta_ok d \<longleftrightarrow> (\<forall>r\<in>set (delta_rows d). row_styled (td_styles d) r)"

text \<open>The tables stay within what a \<open>u16\<close> can address.\<close>

definition styles_fit :: "terminal_frame \<Rightarrow> terminal_delta \<Rightarrow> bool" where
  "styles_fit f d \<longleftrightarrow> Suc (length (tf_styles f)) + length (td_styles d) \<le> 2 ^ 16"

lemma remap_each_table: "remap_each table ss = (table1, ids) \<Longrightarrow> prefix table table1 \<and> length ids = length ss
  \<and> length table1 \<le> length table + length ss"
proof (induction ss arbitrary: table table1 ids)
  case (Cons s ss)
  show ?case
  proof (cases "position (\<lambda>x. x = s) table")
    case None
    with Cons.prems obtain ids1 where "remap_each (table @ [s]) ss = (table1, ids1)" "ids = word_of_nat (length table) # ids1"
      by (auto split: prod.splits)
    with Cons.IH [OF this(1)] show ?thesis by (auto dest: append_prefixD)
  next
    case (Some i)
    with Cons.prems obtain ids1 where "remap_each table ss = (table1, ids1)" "ids = word_of_nat i # ids1"
      by (auto split: prod.splits)
    with Cons.IH [OF this(1)] show ?thesis by auto
  qed
qed simp

lemma prefix_nth: "prefix xs ys \<Longrightarrow> i < length xs \<Longrightarrow> ys ! i = xs ! i"
  by (auto simp: prefix_def nth_append)

lemma remap_each_ids:
  assumes "remap_each table ss = (table1, ids)" "length table + length ss \<le> 2 ^ 16" "j < length ss"
  shows "unat (ids ! j) < length table1 \<and> table1 ! unat (ids ! j) = ss ! j"
  using assms
proof (induction ss arbitrary: table ids j)
  case (Cons s ss)
  have id: "unat (word_of_nat i :: u16) = i" if "i < 2 ^ 16" for i
    using that by (simp add: unat_of_nat)
  show ?case
  proof (cases "position (\<lambda>x. x = s) table")
    case None
    with Cons.prems obtain ids1 where r: "remap_each (table @ [s]) ss = (table1, ids1)" "ids = word_of_nat (length table) # ids1"
      by (auto split: prod.splits)
    have "prefix (table @ [s]) table1" using remap_each_table [OF r(1)] by simp
    then have "length table < length table1" "table1 ! length table = s"
      by (auto simp: prefix_def nth_append)
    moreover have "length table < 2 ^ 16" using Cons.prems(2) by simp
    ultimately show ?thesis using Cons.IH [OF r(1)] Cons.prems r(2) id by (cases j) auto
  next
    case (Some i)
    with Cons.prems obtain ids1 where r: "remap_each table ss = (table1, ids1)" "ids = word_of_nat i # ids1"
      by (auto split: prod.splits)
    from Some have i: "i < length table" "table ! i = s" by (auto simp: position_Some_iff)
    have pre: "prefix table table1" using remap_each_table [OF r(1)] by simp
    then have "i < length table1" "table1 ! i = s"
      using i prefix_nth [OF pre i(1)] by (auto dest: prefix_length_le)
    moreover have "i < 2 ^ 16" using i Cons.prems(2) by simp
    ultimately show ?thesis using Cons.IH [OF r(1)] Cons.prems r(2) id by (cases j) auto
  qed
qed simp

lemma remap_styles_ok:
  assumes "remap_styles table ss = (table1, ids)" "Suc (length table) + length ss \<le> 2 ^ 16"
  shows "prefix table table1 \<and> length ids = length ss \<and> table1 \<noteq> []
    \<and> (\<forall>j<length ss. unat (ids ! j) < length table1 \<and> table1 ! unat (ids ! j) = ss ! j)"
proof -
  let ?t = "if table = [] then [default_style] else table"
  have r: "remap_each ?t ss = (table1, ids)" using assms(1) by (simp add: remap_styles_def)
  moreover have "length ?t + length ss \<le> 2 ^ 16" using assms(2) by simp
  ultimately show ?thesis using remap_each_table [OF r] remap_each_ids [OF r] by (cases table) auto
qed

text \<open>Renumbering keeps what a row shows, and a longer table what the rows of the frame show.\<close>

lemma restyle_row_plain:
  assumes "row_styled ss r" "length ids = length ss"
    and "\<forall>j<length ss. unat (ids ! j) < length table1 \<and> table1 ! unat (ids ! j) = ss ! j"
  shows "plain_row table1 (restyle_row r ids) = plain_row ss r" "row_styled table1 (restyle_row r ids)"
  using assms by (auto simp: plain_row_def restyle_row_def row_styled_def style_at_def)

lemma plain_row_prefix:
  assumes "row_styled table r" "prefix table table1"
  shows "plain_row table1 r = plain_row table r" "row_styled table1 r"
proof -
  have "length table \<le> length table1" using assms(2) by (rule prefix_length_le)
  then show "plain_row table1 r = plain_row table r" "row_styled table1 r"
    using assms by (auto simp: plain_row_def row_styled_def style_at_def prefix_nth)
qed

subsection \<open>What a delta shows\<close>

definition shown_rows :: "terminal_frame \<Rightarrow> plain_row list" where
  "shown_rows f = map (plain_row (tf_styles f)) (tf_visible f)"

definition shown_history :: "terminal_frame \<Rightarrow> plain_row list" where
  "shown_history f = map (plain_row (tf_styles f)) (tf_history f)"

definition plain_resize :: "nat \<Rightarrow> plain_row list \<Rightarrow> plain_row list" where
  "plain_resize n rows = take n rows @ replicate (n - length rows) ([], False)"

definition plain_replace :: "nat \<times> plain_row \<Rightarrow> plain_row list \<Rightarrow> plain_row list" where
  "plain_replace u rows = (if fst u < length rows then rows[fst u := snd u] else rows)"

definition shown_updates :: "terminal_delta \<Rightarrow> (nat \<times> plain_row) list" where
  "shown_updates d = map (\<lambda>u. (unat (ru_index u), plain_row (td_styles d) (ru_row u))) (td_rows_replaced d)"

definition keep_history :: "'a list \<Rightarrow> 'a list" where
  "keep_history h = drop (length h - HISTORY_LIMIT) h"

definition history_after :: "terminal_delta \<Rightarrow> plain_row list \<Rightarrow> plain_row list" where
  "history_after d h = (case td_history d of
     Some (Appended rows) \<Rightarrow> keep_history (h @ map (plain_row (td_styles d)) rows)
   | Some (Replaced rows) \<Rightarrow> map (plain_row (td_styles d)) rows
   | None \<Rightarrow> h)"

lemma plain_default_row [simp]: "plain_row table default_row = ([], False)" "row_styled table default_row"
  by (simp_all add: plain_row_def default_row_def row_styled_def)

lemma replace_rows_plain:
  assumes "\<forall>u\<in>set us. plain_row table (restyle_row (ru_row u) ids) = plain_row ss (ru_row u)
      \<and> row_styled table (restyle_row (ru_row u) ids)"
    and "\<forall>r\<in>set rows. row_styled table r"
  shows "map (plain_row table) (fold (replace_row ids) us rows)
      = fold plain_replace (map (\<lambda>u. (unat (ru_index u), plain_row ss (ru_row u))) us) (map (plain_row table) rows)
    \<and> (\<forall>r\<in>set (fold (replace_row ids) us rows). row_styled table r)"
  using assms
proof (induction us arbitrary: rows)
  case (Cons u us)
  have "map (plain_row table) (replace_row ids u rows)
      = plain_replace (unat (ru_index u), plain_row ss (ru_row u)) (map (plain_row table) rows)"
    using Cons.prems(1) by (simp add: replace_row_def plain_replace_def map_update)
  moreover have "\<forall>r\<in>set (replace_row ids u rows). row_styled table r"
    using Cons.prems set_update_subset_insert [of rows] by (auto simp: replace_row_def split: if_splits)
  ultimately show ?case using Cons.IH [of "replace_row ids u rows"] Cons.prems(1) by simp
qed simp

lemma frame_apply_fields [simp]:
  "tf_cols (frame_apply d f) = td_cols d" "tf_rows (frame_apply d f) = td_rows d"
  "tf_modes (frame_apply d f) = td_modes d" "tf_cursor (frame_apply d f) = td_cursor d"
  "tf_lines_evicted (frame_apply d f) = td_lines_evicted d"
  "tf_title (frame_apply d f) = (case td_title d of Some t \<Rightarrow> t | None \<Rightarrow> tf_title f)"
  "tf_working_directory (frame_apply d f) = (case td_working_directory d of Some w \<Rightarrow> Some w | None \<Rightarrow> tf_working_directory f)"
  "tf_exited (frame_apply d f) = (case td_exit d of Some e \<Rightarrow> ex_exited e | None \<Rightarrow> tf_exited f)"
  "tf_exit_code (frame_apply d f) = (case td_exit d of Some e \<Rightarrow> ex_code e | None \<Rightarrow> tf_exit_code f)"
  by (simp_all add: frame_apply_def Let_def split: prod.split)

lemma frame_apply_shows:
  assumes ok: "frame_ok f" and d: "delta_ok d" and fit: "styles_fit f d"
  shows "shown_rows (frame_apply d f) = fold plain_replace (shown_updates d) (plain_resize (unat (td_rows d)) (shown_rows f))"
    and "shown_history (frame_apply d f) = history_after d (shown_history f)"
    and "frame_ok (frame_apply d f)" and "tf_styles (frame_apply d f) \<noteq> []"
proof -
  obtain table ids where r: "remap_styles (tf_styles f) (td_styles d) = (table, ids)" by fastforce
  note r_ok = remap_styles_ok [OF r fit [unfolded styles_fit_def]]
  then have pre: "prefix (tf_styles f) table" and len: "length ids = length (td_styles d)"
    and ids: "\<forall>j<length (td_styles d). unat (ids ! j) < length table \<and> table ! unat (ids ! j) = td_styles d ! j"
    by simp_all
  note new = restyle_row_plain [OF _ len ids] and old = plain_row_prefix [OF _ pre]
  let ?resized = "resize_rows (unat (td_rows d)) (tf_visible f)"
  have vis: "\<forall>r\<in>set (tf_visible f). row_styled (tf_styles f) r" and his: "\<forall>r\<in>set (tf_history f). row_styled (tf_styles f) r"
    using ok by (auto simp: frame_ok_def)
  have upd: "\<forall>u\<in>set (td_rows_replaced d). row_styled (td_styles d) (ru_row u)"
    using d by (auto simp: delta_ok_def delta_rows_def)
  have "map (plain_row table) ?resized = plain_resize (unat (td_rows d)) (shown_rows f)"
  proof -
    have "map (plain_row table) (tf_visible f) = map (plain_row (tf_styles f)) (tf_visible f)" using vis old by simp
    then show ?thesis by (simp add: resize_rows_def plain_resize_def shown_rows_def take_map [symmetric] del: map_eq_conv take_map)
  qed
  moreover have sized: "\<forall>r\<in>set ?resized. row_styled table r"
    using vis old by (auto simp: resize_rows_def dest: in_set_takeD)
  moreover have "\<forall>u\<in>set (td_rows_replaced d). plain_row table (restyle_row (ru_row u) ids) = plain_row (td_styles d) (ru_row u)
      \<and> row_styled table (restyle_row (ru_row u) ids)" using upd new by blast
  note rows = replace_rows_plain [OF this sized]
  ultimately show "shown_rows (frame_apply d f) = fold plain_replace (shown_updates d) (plain_resize (unat (td_rows d)) (shown_rows f))"
    using r by (simp add: shown_rows_def frame_apply_def Let_def shown_updates_def)
  have h_old: "map (plain_row table) (tf_history f) = shown_history f"
    using his old by (simp add: shown_history_def)
  have h_new: "map (plain_row table \<circ> (\<lambda>r. restyle_row r ids)) rs = map (plain_row (td_styles d)) rs"
      "\<forall>r\<in>set rs. row_styled table (restyle_row r ids)"
    if "\<forall>r\<in>set rs. row_styled (td_styles d) r" for rs using that new by simp_all
  have hd: "\<forall>r\<in>set rs. row_styled (td_styles d) r" if "td_history d = Some (Appended rs) \<or> td_history d = Some (Replaced rs)" for rs
    using d that by (auto simp: delta_ok_def delta_rows_def)
  show "shown_history (frame_apply d f) = history_after d (shown_history f)"
    using r h_old h_new(1) hd
    by (auto simp: shown_history_def frame_apply_def history_after_def keep_history_def Let_def drop_map [symmetric]
        split: option.split terminal_history_update.split simp del: drop_map map_eq_conv)
  show "frame_ok (frame_apply d f)"
    using r rows old(2) his h_new(2) hd
    by (auto simp: frame_ok_def frame_apply_def Let_def dest!: in_set_dropD
        split: option.splits terminal_history_update.splits)
  show "tf_styles (frame_apply d f) \<noteq> []" using r r_ok by (simp add: frame_apply_def Let_def)
qed

end
