(* ===== verification/Terminal_Projection.thy ===== *)
theory Terminal_Projection
  imports Terminal_Frames
begin

section \<open>The projection of a terminal\<close>

text \<open>
  How the host keeps the frame of a terminal up to date (\<^verbatim>\<open>runtime/src/terminal/projection.rs\<close>) from what
  it reads of the emulator (\<^verbatim>\<open>term/src/grid_emulator.rs\<close>, \<^verbatim>\<open>project.rs\<close>), and what it sends its subscribers. The
  cells of the emulator are those of a library: a square here holds what its accessors give, the
  text, the width, the style in wire form and the link. Line counters are natural numbers; instants
  are milliseconds. The emulator is read twice in an update, its line counter and width first.
\<close>

record square =
  sq_text :: string
  sq_width :: cell_width
  sq_style :: terminal_style
  sq_link :: "terminal_link option"
  sq_wrapline :: bool

record grid =
  gr_cols :: nat
  gr_screen :: "square list list"
  gr_history :: "square list list"
  gr_lines_evicted :: nat
  gr_damage :: "bool list"
  gr_cursor :: "terminal_cursor option"
  gr_modes :: terminal_modes
  gr_title :: string
  gr_exited :: bool
  gr_exit_code :: "i32 option"

record snapshot =
  sp_cols :: nat
  sp_screen_lines :: nat
  sp_visible_rows :: "square list list"
  sp_history_rows :: "square list list"
  sp_history_size :: nat
  sp_lines_evicted :: nat
  sp_row_damage :: "bool list"
  sp_cursor :: "terminal_cursor option"
  sp_modes :: terminal_modes
  sp_title :: string
  sp_exited :: bool
  sp_exit_code :: "i32 option"

text \<open>\<open>scrolled_lines\<close> and \<open>snapshot_since\<close>.\<close>

definition scrolled_lines :: "grid \<Rightarrow> nat" where
  "scrolled_lines g = gr_lines_evicted g + length (gr_history g)"

definition snapshot_since :: "nat \<Rightarrow> nat \<Rightarrow> grid \<Rightarrow> snapshot" where
  "snapshot_since scrolled_before budget g = (
     let history = min (scrolled_lines g - scrolled_before) budget; size = length (gr_history g) in
     \<lparr>sp_cols = gr_cols g, sp_screen_lines = length (gr_screen g), sp_visible_rows = gr_screen g,
      sp_history_rows = drop (size - min history size) (gr_history g), sp_history_size = size,
      sp_lines_evicted = gr_lines_evicted g, sp_row_damage = gr_damage g, sp_cursor = gr_cursor g, sp_modes = gr_modes g,
      sp_title = gr_title g, sp_exited = gr_exited g, sp_exit_code = gr_exit_code g\<rparr>)"

subsection \<open>The projector\<close>

record projector =
  pj_styles :: "terminal_style list"
  pj_index :: "(terminal_style \<times> u16) list"

definition new_projector :: projector where
  "new_projector = \<lparr>pj_styles = [default_style], pj_index = [(default_style, 0)]\<rparr>"

definition intern :: "terminal_style \<Rightarrow> projector \<Rightarrow> u16 \<times> projector" where
  "intern s p = (case map_of (pj_index p) s of
     Some i \<Rightarrow> (i, p)
   | None \<Rightarrow>
       (let i = (if length (pj_styles p) \<le> 65535 then word_of_nat (length (pj_styles p)) else 65535) in
        (i, \<lparr>pj_styles = pj_styles p @ [s], pj_index = (s, i) # pj_index p\<rparr>)))"

definition project_cell :: "square \<Rightarrow> projector \<Rightarrow> terminal_cell \<times> projector" where
  "project_cell q p = (let (i, p1) = intern (sq_style q) p in
     (\<lparr>ce_text = sq_text q, ce_width = sq_width q, ce_style = i, ce_link = sq_link q\<rparr>, p1))"

primrec project_cells :: "square list \<Rightarrow> projector \<Rightarrow> terminal_cell list \<times> projector" where
  "project_cells [] p = ([], p)"
| "project_cells (q # qs) p = (let (c, p1) = project_cell q p; (cs, p2) = project_cells qs p1 in (c # cs, p2))"

definition strip_end :: "'a \<Rightarrow> 'a list \<Rightarrow> 'a list" where
  "strip_end x xs = rev (dropWhile (\<lambda>y. y = x) (rev xs))"

definition project_row :: "nat \<Rightarrow> square list \<Rightarrow> projector \<Rightarrow> terminal_row \<times> projector" where
  "project_row cols qs p = (let (cs, p1) = project_cells (take cols qs) p in
     (\<lparr>ro_cells = strip_end default_cell cs,
       ro_wrapped = (case index qs (cols - 1) of Some q \<Rightarrow> sq_wrapline q | None \<Rightarrow> False)\<rparr>, p1))"

definition visible_row :: "snapshot \<Rightarrow> nat \<Rightarrow> projector \<Rightarrow> terminal_row \<times> projector" where
  "visible_row s row p = (case index (sp_visible_rows s) row of
     Some qs \<Rightarrow> project_row (sp_cols s) qs p | None \<Rightarrow> (default_row, p))"

text \<open>Rows of the scrollback, in order.\<close>

primrec project_rows :: "nat \<Rightarrow> square list list \<Rightarrow> projector \<Rightarrow> terminal_row list \<times> projector" where
  "project_rows cols [] p = ([], p)"
| "project_rows cols (qs # rows) p = (let (r, p1) = project_row cols qs p; (rs, p2) = project_rows cols rows p1 in (r # rs, p2))"

primrec visible_from :: "snapshot \<Rightarrow> nat list \<Rightarrow> projector \<Rightarrow> terminal_row list \<times> projector" where
  "visible_from s [] p = ([], p)"
| "visible_from s (i # is) p = (let (r, p1) = visible_row s i p; (rs, p2) = visible_from s is p1 in (r # rs, p2))"

subsection \<open>The projection\<close>

definition HISTORY_STREAM_BUDGET :: nat where "HISTORY_STREAM_BUDGET = 256"

definition HISTORY_QUIET_INTERVAL :: nat where "HISTORY_QUIET_INTERVAL = 100"

definition STYLE_TABLE_LIMIT :: nat where "STYLE_TABLE_LIMIT = 4096"

definition CWD_INTERVAL :: nat where "CWD_INTERVAL = 1000"

datatype terminal_update = Frame terminal_frame | Delta terminal_delta

record projection =
  pn_frame :: terminal_frame
  pn_scrolled :: nat
  pn_history_deadline :: "nat option"
  pn_last_projected :: nat
  pn_last_cwd :: nat
  pn_bell :: bool
  pn_clipboard :: "terminal_clipboard option"

text \<open>What an update reads: the counter and the width first, then the grid.\<close>

record terminal_reads =
  tr_scrolled :: nat
  tr_cols :: nat
  tr_grid :: grid
  tr_cwd :: string
  tr_now :: nat

definition as_u16 :: "nat \<Rightarrow> u16" where
  "as_u16 n = word_of_nat (min n 65535)"

definition reset_projection :: "terminal_reads \<Rightarrow> projection \<Rightarrow> projection" where
  "reset_projection t p = (
     let s = snapshot_since 0 HISTORY_LIMIT (tr_grid t);
         (visible, j1) = visible_from s [0..<sp_screen_lines s] new_projector;
         (history, j2) = project_rows (sp_cols s) (sp_history_rows s) j1
     in p\<lparr>pn_frame := \<lparr>tf_cols = as_u16 (sp_cols s), tf_rows = as_u16 (sp_screen_lines s), tf_modes = sp_modes s,
            tf_cursor = sp_cursor s, tf_styles = pj_styles j2, tf_visible = visible, tf_history = history,
            tf_lines_evicted = word_of_nat (sp_lines_evicted s), tf_title = sp_title s,
            tf_working_directory = Some (tr_cwd t), tf_exited = sp_exited s, tf_exit_code = sp_exit_code s\<rparr>,
          pn_scrolled := sp_lines_evicted s + sp_history_size s, pn_history_deadline := None, pn_last_cwd := tr_now t\<rparr>)"

text \<open>Two rows whose styles come from different tables.\<close>

definition table_get :: "terminal_style list \<Rightarrow> u16 \<Rightarrow> terminal_style option" where
  "table_get table i = index table (unat i)"

definition same_row :: "terminal_row \<Rightarrow> terminal_style list \<Rightarrow> terminal_row \<Rightarrow> terminal_style list \<Rightarrow> bool" where
  "same_row current current_styles projected projected_styles \<longleftrightarrow>
     ro_wrapped current = ro_wrapped projected \<and> length (ro_cells current) = length (ro_cells projected)
     \<and> (\<forall>(a, b)\<in>set (zip (ro_cells current) (ro_cells projected)). ce_text a = ce_text b \<and> ce_width a = ce_width b
          \<and> ce_link a = ce_link b
          \<and> table_get current_styles (ce_style a) = table_get projected_styles (ce_style b))"

text \<open>The loop over the rows of the screen.\<close>

primrec changed_rows :: "terminal_frame \<Rightarrow> bool \<Rightarrow> snapshot \<Rightarrow> nat list \<Rightarrow> projector \<Rightarrow> terminal_row_update list \<times> projector" where
  "changed_rows f resized s [] p = ([], p)"
| "changed_rows f resized s (i # is) p =
     (if \<not> resized \<and> \<not> (case index (sp_row_damage s) i of Some d \<Rightarrow> d | None \<Rightarrow> True) then changed_rows f resized s is p
      else (let (r, p1) = visible_row s i p;
                unchanged = (case index (tf_visible f) i of Some c \<Rightarrow> same_row c (tf_styles f) r (pj_styles p1) | None \<Rightarrow> False);
                (us, p2) = changed_rows f resized s is p1
            in (if unchanged then us else \<lparr>ru_index = word_of_nat i, ru_row = r\<rparr> # us, p2)))"

definition refresh_cwd :: "terminal_reads \<Rightarrow> projection \<Rightarrow> string option \<times> projection" where
  "refresh_cwd t p = (if tr_now t - pn_last_cwd p < CWD_INTERVAL then (None, p)
     else (if Some (tr_cwd t) \<noteq> tf_working_directory (pn_frame p) then Some (tr_cwd t) else None, p\<lparr>pn_last_cwd := tr_now t\<rparr>))"

definition republishes :: "terminal_reads \<Rightarrow> projection \<Rightarrow> bool" where
  "republishes t p \<longleftrightarrow> tr_scrolled t < pn_scrolled p
     \<or> as_u16 (tr_cols t) \<noteq> tf_cols (pn_frame p) \<and> tf_history (pn_frame p) \<noteq> []
     \<or> tr_scrolled t - pn_scrolled p = 0 \<and> (case pn_history_deadline p of Some d \<Rightarrow> d \<le> pn_last_projected p | None \<Rightarrow> False)"

text \<open>What goes out of the scrollback, and until when the rest is owed.\<close>

definition history_update ::
    "bool \<Rightarrow> snapshot \<Rightarrow> projection \<Rightarrow> projector \<Rightarrow> (terminal_history_update option \<times> nat option) \<times> projector" where
  "history_update republish s p j = (
     let appended = sp_lines_evicted s + sp_history_size s - pn_scrolled p; rows = sp_history_rows s in
     if republish then (let (h, j1) = project_rows (sp_cols s) rows j in ((Some (Replaced h), None), j1))
     else if appended = 0 then ((None, pn_history_deadline p), j)
     else if pn_history_deadline p = None \<and> appended \<le> length rows then
       (let (h, j1) = project_rows (sp_cols s) (drop (length rows - appended) rows) j in ((Some (Appended h), None), j1))
     else ((None, Some (pn_last_projected p + HISTORY_QUIET_INTERVAL)), j))"

definition delta_changes :: "terminal_delta \<Rightarrow> terminal_frame \<Rightarrow> bool \<Rightarrow> bool" where
  "delta_changes d f resized \<longleftrightarrow> resized \<or> td_rows_replaced d \<noteq> [] \<or> td_history d \<noteq> None \<or> td_title d \<noteq> None
     \<or> td_working_directory d \<noteq> None \<or> td_exit d \<noteq> None \<or> td_bell d \<or> td_clipboard d \<noteq> None
     \<or> td_cursor d \<noteq> tf_cursor f \<or> td_modes d \<noteq> tf_modes f \<or> td_lines_evicted d \<noteq> tf_lines_evicted f"

definition update_projection :: "terminal_reads \<Rightarrow> projection \<Rightarrow> terminal_delta option \<times> projection" where
  "update_projection t p = (
     let republish = republishes t p;
         s = (if republish then snapshot_since 0 HISTORY_LIMIT (tr_grid t)
              else snapshot_since (pn_scrolled p) HISTORY_STREAM_BUDGET (tr_grid t));
         f = pn_frame p;
         resized = ((as_u16 (sp_cols s), as_u16 (sp_screen_lines s)) \<noteq> (tf_cols f, tf_rows f));
         (rows, j1) = changed_rows f resized s [0..<sp_screen_lines s] new_projector;
         ((history, deadline), j2) = history_update republish s p j1;
         (cwd, p1) = refresh_cwd t (p\<lparr>pn_scrolled := sp_lines_evicted s + sp_history_size s, pn_history_deadline := deadline\<rparr>);
         d = \<lparr>td_cols = as_u16 (sp_cols s), td_rows = as_u16 (sp_screen_lines s), td_modes = sp_modes s, td_cursor = sp_cursor s,
              td_lines_evicted = word_of_nat (sp_lines_evicted s), td_styles = pj_styles j2, td_rows_replaced = rows,
              td_history = history, td_title = (if sp_title s \<noteq> tf_title f then Some (sp_title s) else None),
              td_working_directory = cwd,
              td_exit = (if sp_exited s \<noteq> tf_exited f \<or> sp_exit_code s \<noteq> tf_exit_code f
                then Some \<lparr>ex_exited = sp_exited s, ex_code = sp_exit_code s\<rparr> else None),
              td_bell = pn_bell p, td_clipboard = pn_clipboard p\<rparr>;
         p2 = p1\<lparr>pn_bell := False, pn_clipboard := None\<rparr>
     in if delta_changes d f resized then (Some d, p2\<lparr>pn_frame := frame_apply d f\<rparr>) else (None, p2))"

definition styles_exhausted :: "projection \<Rightarrow> bool" where
  "styles_exhausted p \<longleftrightarrow> STYLE_TABLE_LIMIT < length (tf_styles (pn_frame p))"

definition owes_history :: "projection \<Rightarrow> bool" where
  "owes_history p \<longleftrightarrow> pn_history_deadline p \<noteq> None"

text \<open>\<open>project_terminal\<close>, for a terminal with a subscriber: what is sent, and whether another look is due.\<close>

definition project_terminal :: "terminal_reads \<Rightarrow> projection \<Rightarrow> (terminal_update option \<times> bool) \<times> projection" where
  "project_terminal t p = (
     let p1 = p\<lparr>pn_last_projected := tr_now t\<rparr>;
         (update, p2) = (if styles_exhausted p1
           then (let q = reset_projection t p1 in (Some (Frame (pn_frame q)), q))
           else (let (d, q) = update_projection t p1 in (map_option Delta d, q)))
     in ((update, owes_history p2), p2))"

end
