(* ===== verification/Terminal_Replica.thy ===== *)
theory Terminal_Replica
  imports Terminal_Projection
begin

section \<open>A client sees the terminal of the host\<close>

text \<open>
  The frame a projection keeps shows what the emulator shows, and a subscriber that applies what is sent
  keeps the same frame. What the emulator may do between two looks is a relation here: damage marks
  every row that changed, and the scrollback grows at its end, or its counter goes back, or the
  width changes.
\<close>

subsection \<open>Projecting squares\<close>

definition square_plain :: "square \<Rightarrow> plain_cell" where
  "square_plain q = (sq_text q, sq_width q, sq_style q, sq_link q)"

definition blank_cell :: plain_cell where
  "blank_cell = ([], Narrow, default_style, None)"

definition squares_row :: "nat \<Rightarrow> square list \<Rightarrow> plain_row" where
  "squares_row cols qs = (strip_end blank_cell (map square_plain (take cols qs)),
     case index qs (cols - 1) of Some q \<Rightarrow> sq_wrapline q | None \<Rightarrow> False)"

text \<open>A projector whose styles are among \<open>S\<close>: the index finds a style where the table has it.\<close>

definition projector_ok :: "terminal_style set \<Rightarrow> projector \<Rightarrow> bool" where
  "projector_ok S p \<longleftrightarrow> pj_styles p \<noteq> [] \<and> hd (pj_styles p) = default_style \<and> distinct (pj_styles p)
     \<and> set (pj_styles p) \<subseteq> insert default_style S
     \<and> (\<forall>s. map_of (pj_index p) s = map_option word_of_nat (position (\<lambda>x. x = s) (pj_styles p)))"

definition few_styles :: "terminal_style set \<Rightarrow> bool" where
  "few_styles S \<longleftrightarrow> finite S \<and> card S \<le> 60000"

lemma new_projector_ok [simp]: "projector_ok S new_projector"
  by (auto simp: projector_ok_def new_projector_def)

lemma projector_length:
  assumes "projector_ok S p" "few_styles S"
  shows "length (pj_styles p) \<le> Suc (card S)"
proof -
  have "length (pj_styles p) = card (set (pj_styles p))"
    using assms(1) by (simp add: projector_ok_def distinct_card)
  also have "\<dots> \<le> card (insert default_style S)"
    using assms by (intro card_mono) (auto simp: projector_ok_def few_styles_def)
  also have "\<dots> \<le> Suc (card S)" by (rule card_insert_le_m1) simp_all
  finally show ?thesis .
qed

lemma word_of_index: "n \<le> 60001 \<Longrightarrow> unat (word_of_nat n :: u16) = n"
  by (simp add: unat_of_nat)

lemma intern_ok:
  assumes ok: "projector_ok S p" and few: "few_styles S" and s: "s \<in> S" and eq: "intern s p = (i, p')"
  shows "projector_ok S p' \<and> prefix (pj_styles p) (pj_styles p') \<and> unat i < length (pj_styles p')
    \<and> pj_styles p' ! unat i = s"
proof (cases "position (\<lambda>x. x = s) (pj_styles p)")
  case None
  have len: "length (pj_styles p) \<le> 60001" using projector_length [OF ok few] few by (simp add: few_styles_def)
  from None ok eq have p': "p' = \<lparr>pj_styles = pj_styles p @ [s], pj_index = (s, i) # pj_index p\<rparr>"
    and i: "i = word_of_nat (length (pj_styles p))"
    using len by (auto simp: projector_ok_def intern_def Let_def)
  have new: "s \<notin> set (pj_styles p)" using None by (auto simp: position_None_iff)
  have "map_of (pj_index p') t = map_option word_of_nat (position (\<lambda>x. x = t) (pj_styles p'))" for t
    using ok None i by (auto simp: p' projector_ok_def position_append split: option.split)
  then have "projector_ok S p'" using ok new s by (auto simp: projector_ok_def p')
  then show ?thesis using i word_of_index [OF len] by (simp add: p')
next
  case (Some k)
  then have k: "k < length (pj_styles p)" "pj_styles p ! k = s" by (auto simp: position_Some_iff)
  moreover have "length (pj_styles p) \<le> 60001" using projector_length [OF ok few] few by (simp add: few_styles_def)
  ultimately have "unat (word_of_nat k :: u16) = k" by (intro word_of_index) simp
  moreover have "i = word_of_nat k" "p' = p" using Some ok eq by (auto simp: projector_ok_def intern_def)
  ultimately show ?thesis using k ok by simp
qed

text \<open>The cell of a square.\<close>

definition cell_of :: "terminal_style list \<Rightarrow> terminal_cell \<Rightarrow> square \<Rightarrow> bool" where
  "cell_of table c q \<longleftrightarrow> unat (ce_style c) < length table \<and> table ! unat (ce_style c) = sq_style q
     \<and> ce_text c = sq_text q \<and> ce_width c = sq_width q \<and> ce_link c = sq_link q"

lemma cell_of_prefix: "cell_of table c q \<Longrightarrow> prefix table table1 \<Longrightarrow> cell_of table1 c q"
  by (auto simp: cell_of_def prefix_nth dest: prefix_length_le)

lemma project_cells_ok:
  assumes "projector_ok S p" "few_styles S" "sq_style ` set qs \<subseteq> S" "project_cells qs p = (cs, p')"
  shows "projector_ok S p' \<and> prefix (pj_styles p) (pj_styles p') \<and> list_all2 (cell_of (pj_styles p')) cs qs"
  using assms
proof (induction qs arbitrary: p cs)
  case (Cons q qs)
  obtain i p1 where i: "intern (sq_style q) p = (i, p1)" by fastforce
  obtain cs1 where cs: "project_cells qs p1 = (cs1, p')"
    "cs = \<lparr>ce_text = sq_text q, ce_width = sq_width q, ce_style = i, ce_link = sq_link q\<rparr> # cs1"
    using Cons.prems(4) i by (auto simp: project_cell_def split: prod.splits)
  note one = intern_ok [OF Cons.prems(1,2) _ i]
  with Cons.prems(3) have one: "projector_ok S p1" "prefix (pj_styles p) (pj_styles p1)"
    "unat i < length (pj_styles p1)" "pj_styles p1 ! unat i = sq_style q" by auto
  note rest = Cons.IH [OF one(1) Cons.prems(2) _ cs(1)]
  with Cons.prems(3) have rest: "projector_ok S p'" "prefix (pj_styles p1) (pj_styles p')"
    "list_all2 (cell_of (pj_styles p')) cs1 qs" by auto
  have "cell_of (pj_styles p1) (hd cs) q" using one by (simp add: cs(2) cell_of_def)
  then show ?case using one rest cs(2) cell_of_prefix by (auto intro: prefix_order.trans)
qed simp

lemma cell_of_plain: "cell_of table c q \<Longrightarrow> (ce_text c, ce_width c, style_at table (ce_style c), ce_link c) = square_plain q"
  by (simp add: cell_of_def style_at_def square_plain_def)

lemma cell_of_blank:
  assumes "cell_of table c q" "table \<noteq> []" "hd table = default_style" "distinct table"
  shows "c = default_cell \<longleftrightarrow> square_plain q = blank_cell"
proof -
  have "table ! unat (ce_style c) = default_style \<longleftrightarrow> unat (ce_style c) = 0"
    using assms nth_eq_iff_index_eq [of table "unat (ce_style c)" 0] by (auto simp: cell_of_def hd_conv_nth)
  then have "sq_style q = default_style \<longleftrightarrow> ce_style c = 0"
    using assms(1) by (simp add: cell_of_def unat_eq_0)
  then show ?thesis using assms(1)
    by (cases c) (auto simp: cell_of_def square_plain_def blank_cell_def default_cell_def)
qed

lemma map_all2_eq: "list_all2 R xs ys \<Longrightarrow> (\<And>x y. R x y \<Longrightarrow> f x = g y) \<Longrightarrow> map f xs = map g ys"
  by (induction xs ys rule: list_all2_induct) auto

lemma strip_end_map:
  assumes "list_all2 R xs ys" "\<And>x y. R x y \<Longrightarrow> f x = g y" "\<And>x y. R x y \<Longrightarrow> x = a \<longleftrightarrow> g y = b"
  shows "map f (strip_end a xs) = strip_end b (map g ys)"
proof -
  have "map f (dropWhile (\<lambda>y. y = a) us) = dropWhile (\<lambda>y. y = b) (map g vs)" if "list_all2 R us vs" for us vs
    using that
  proof (induction us vs rule: list_all2_induct)
    case (Cons x xs y ys)
    then show ?case using assms(2,3) [OF Cons(1)] assms(2) by (auto intro!: map_all2_eq)
  qed simp
  from this [of "rev xs" "rev ys"] show ?thesis using assms(1) by (simp add: strip_end_def rev_map [symmetric])
qed

definition row_styles :: "square list \<Rightarrow> terminal_style set" where
  "row_styles qs = sq_style ` set qs"

lemma project_row_ok:
  assumes "projector_ok S p" "few_styles S" "row_styles qs \<subseteq> S" "project_row cols qs p = (r, p')"
  shows "projector_ok S p'" "prefix (pj_styles p) (pj_styles p')" "row_styled (pj_styles p') r"
    "plain_row (pj_styles p') r = squares_row cols qs"
proof -
  obtain cs where cs: "project_cells (take cols qs) p = (cs, p')"
    and r: "r = \<lparr>ro_cells = strip_end default_cell cs,
       ro_wrapped = (case index qs (cols - 1) of Some q \<Rightarrow> sq_wrapline q | None \<Rightarrow> False)\<rparr>"
    using assms(4) by (auto simp: project_row_def split: prod.splits)
  have "sq_style ` set (take cols qs) \<subseteq> S" using assms(3) by (auto simp: row_styles_def dest: in_set_takeD)
  note cells = project_cells_ok [OF assms(1,2) this cs]
  then show ok: "projector_ok S p'" and "prefix (pj_styles p) (pj_styles p')" by simp_all
  have all: "list_all2 (cell_of (pj_styles p')) cs (take cols qs)" using cells by simp
  have table: "pj_styles p' \<noteq> []" "hd (pj_styles p') = default_style" "distinct (pj_styles p')"
    using ok by (simp_all add: projector_ok_def)
  have "map (\<lambda>c. (ce_text c, ce_width c, style_at (pj_styles p') (ce_style c), ce_link c)) (strip_end default_cell cs)
    = strip_end blank_cell (map square_plain (take cols qs))"
    by (rule strip_end_map [OF all]) (use cell_of_plain cell_of_blank table in auto)
  then show "plain_row (pj_styles p') r = squares_row cols qs" by (simp add: r plain_row_def squares_row_def)
  have "unat (ce_style c) < length (pj_styles p')" if "c \<in> set cs" for c
    using all that by (auto simp: list_all2_conv_all_nth cell_of_def in_set_conv_nth)
  then show "row_styled (pj_styles p') r"
    by (auto simp: r row_styled_def strip_end_def dest: set_dropWhileD)
qed

lemma project_rows_ok:
  assumes "projector_ok S p" "few_styles S" "\<Union> (row_styles ` set rows) \<subseteq> S" "project_rows cols rows p = (rs, p')"
  shows "projector_ok S p' \<and> prefix (pj_styles p) (pj_styles p') \<and> (\<forall>r\<in>set rs. row_styled (pj_styles p') r)
    \<and> map (plain_row (pj_styles p')) rs = map (squares_row cols) rows"
  using assms
proof (induction rows arbitrary: p rs)
  case (Cons qs rows)
  obtain r p1 rs1 where r: "project_row cols qs p = (r, p1)" and rs: "project_rows cols rows p1 = (rs1, p')" "rs = r # rs1"
    using Cons.prems(4) by (auto split: prod.splits)
  have "row_styles qs \<subseteq> S" using Cons.prems(3) by auto
  note one = project_row_ok [OF Cons.prems(1,2) this r]
  have rest: "projector_ok S p'" "prefix (pj_styles p1) (pj_styles p')" "\<forall>r\<in>set rs1. row_styled (pj_styles p') r"
    "map (plain_row (pj_styles p')) rs1 = map (squares_row cols) rows"
    using Cons.IH [OF one(1) Cons.prems(2) _ rs(1)] Cons.prems(3) by auto
  show ?case using one rest rs(2) plain_row_prefix [OF one(3) rest(2)] by (auto intro: prefix_order.trans)
qed simp

text \<open>The rows of the screen. A row beyond the screen is not looked at.\<close>

definition screen_row :: "grid \<Rightarrow> nat \<Rightarrow> plain_row" where
  "screen_row g i = squares_row (gr_cols g) (gr_screen g ! i)"

definition grid_styles :: "grid \<Rightarrow> terminal_style set" where
  "grid_styles g = \<Union> (row_styles ` (set (gr_screen g) \<union> set (gr_history g)))"

definition of_grid :: "grid \<Rightarrow> snapshot \<Rightarrow> bool" where
  "of_grid g s \<longleftrightarrow> sp_cols s = gr_cols g \<and> sp_screen_lines s = length (gr_screen g) \<and> sp_visible_rows s = gr_screen g
     \<and> sp_row_damage s = gr_damage g"

lemma of_grid_snapshot [simp]: "of_grid g (snapshot_since a b g)"
  by (simp add: of_grid_def snapshot_since_def Let_def)

lemma visible_row_ok:
  assumes "projector_ok S p" "few_styles S" "grid_styles g \<subseteq> S" "of_grid g s" "i < length (gr_screen g)" "visible_row s i p = (r, p')"
  shows "projector_ok S p'" "prefix (pj_styles p) (pj_styles p')" "row_styled (pj_styles p') r"
    "plain_row (pj_styles p') r = screen_row g i"
proof -
  have "gr_screen g ! i \<in> set (gr_screen g)" using assms(5) by simp
  then have "row_styles (gr_screen g ! i) \<subseteq> S" using assms(3) by (auto simp: grid_styles_def)
  moreover have "project_row (gr_cols g) (gr_screen g ! i) p = (r, p')"
    using assms(4-6) by (simp add: visible_row_def of_grid_def index_def)
  ultimately show "projector_ok S p'" "prefix (pj_styles p) (pj_styles p')" "row_styled (pj_styles p') r"
    "plain_row (pj_styles p') r = screen_row g i"
    using project_row_ok [OF assms(1,2)] by (simp_all add: screen_row_def)
qed

lemma visible_from_ok:
  assumes "projector_ok S p" "few_styles S" "grid_styles g \<subseteq> S" "of_grid g s" "\<forall>i\<in>set is. i < length (gr_screen g)"
    and "visible_from s is p = (rs, p')"
  shows "projector_ok S p' \<and> prefix (pj_styles p) (pj_styles p') \<and> (\<forall>r\<in>set rs. row_styled (pj_styles p') r)
    \<and> map (plain_row (pj_styles p')) rs = map (screen_row g) is"
  using assms(1,5,6)
proof (induction "is" arbitrary: p rs)
  case (Cons i "is")
  obtain r p1 rs1 where r: "visible_row s i p = (r, p1)" and rs: "visible_from s is p1 = (rs1, p')" "rs = r # rs1"
    using Cons.prems(3) by (auto split: prod.splits)
  have "i < length (gr_screen g)" using Cons.prems(2) by simp
  note one = visible_row_ok [OF Cons.prems(1) assms(2-4) this r]
  have rest: "projector_ok S p'" "prefix (pj_styles p1) (pj_styles p')" "\<forall>r\<in>set rs1. row_styled (pj_styles p') r"
    "map (plain_row (pj_styles p')) rs1 = map (screen_row g) is"
    using Cons.IH [OF one(1) _ rs(1)] Cons.prems(2) by auto
  show ?case using one rest rs(2) plain_row_prefix [OF one(3) rest(2)] by (auto intro: prefix_order.trans)
qed simp

text \<open>Two rows are the same when they show the same.\<close>

lemma same_row_plain:
  assumes "row_styled ta a" "row_styled tb b"
  shows "same_row a ta b tb \<longleftrightarrow> plain_row ta a = plain_row tb b"
proof -
  have get: "table_get t (ce_style c) = Some (style_at t (ce_style c))" if "row_styled t r" "c \<in> set (ro_cells r)" for t r c
    using that by (auto simp: table_get_def index_def style_at_def row_styled_def)
  have "(\<forall>(x, y)\<in>set (zip as bs). ce_text x = ce_text y \<and> ce_width x = ce_width y \<and> ce_link x = ce_link y
      \<and> table_get ta (ce_style x) = table_get tb (ce_style y)) \<longleftrightarrow>
    map (\<lambda>c. (ce_text c, ce_width c, style_at ta (ce_style c), ce_link c)) as
      = map (\<lambda>c. (ce_text c, ce_width c, style_at tb (ce_style c), ce_link c)) bs"
    if "length as = length bs" "set as \<subseteq> set (ro_cells a)" "set bs \<subseteq> set (ro_cells b)" for as bs
    using that by (induction as bs rule: list_induct2) (auto simp: get [OF assms(1)] get [OF assms(2)])
  note cells = this [of "ro_cells a" "ro_cells b"]
  show ?thesis
  proof (cases "length (ro_cells a) = length (ro_cells b)")
    case True
    with cells show ?thesis unfolding same_row_def plain_row_def by auto
  next
    case False
    then show ?thesis by (auto simp: same_row_def plain_row_def dest: map_eq_imp_length_eq)
  qed
qed

subsection \<open>The changed rows\<close>

text \<open>Every row of the screen is sent, or is one the frame shows already.\<close>

lemma changed_rows_ok:
  assumes "projector_ok S p" "few_styles S" "grid_styles g \<subseteq> S" "of_grid g s" "frame_ok f"
    and "\<forall>i\<in>set is. i < length (gr_screen g) \<and> i < 65536" "changed_rows f resized s is p = (us, p')"
  shows "projector_ok S p' \<and> prefix (pj_styles p) (pj_styles p') \<and> (\<forall>u\<in>set us. row_styled (pj_styles p') (ru_row u))
    \<and> (\<forall>u\<in>set us. unat (ru_index u) \<in> set is \<and> plain_row (pj_styles p') (ru_row u) = screen_row g (unat (ru_index u)))
    \<and> (\<forall>i\<in>set is. i \<in> (\<lambda>u. unat (ru_index u)) ` set us
        \<or> \<not> resized \<and> index (gr_damage g) i = Some False
        \<or> i < length (tf_visible f) \<and> shown_rows f ! i = screen_row g i)"
  using assms(1,6,7)
proof (induction "is" arbitrary: p us)
  case (Cons i "is")
  have i: "i < length (gr_screen g)" "i < 65536" using Cons.prems(2) by simp_all
  show ?case
  proof (cases "\<not> resized \<and> index (gr_damage g) i = Some False")
    case True
    then have "changed_rows f resized s is p = (us, p')" using Cons.prems(3) assms(4) by (simp add: of_grid_def)
    from Cons.IH [OF Cons.prems(1) _ this] Cons.prems(2) True show ?thesis by auto
  next
    case False
    obtain r p1 where r: "visible_row s i p = (r, p1)" by fastforce
    obtain us1 where us1: "changed_rows f resized s is p1 = (us1, p')" using Cons.prems(3) r False assms(4)
      by (auto simp: of_grid_def Let_def split: prod.splits if_splits option.splits)
    define unchanged where "unchanged \<longleftrightarrow> (case index (tf_visible f) i of
      Some c \<Rightarrow> same_row c (tf_styles f) r (pj_styles p1) | None \<Rightarrow> False)"
    have us: "us = (if unchanged then us1 else \<lparr>ru_index = word_of_nat i, ru_row = r\<rparr> # us1)"
      using Cons.prems(3) r us1 False assms(4)
      by (auto simp: of_grid_def Let_def unchanged_def split: if_splits option.splits)
    note one = visible_row_ok [OF Cons.prems(1) assms(2-4) i(1) r]
    have rest: "projector_ok S p'" "prefix (pj_styles p1) (pj_styles p')" "\<forall>u\<in>set us1. row_styled (pj_styles p') (ru_row u)"
      "\<forall>u\<in>set us1. unat (ru_index u) \<in> set is \<and> plain_row (pj_styles p') (ru_row u) = screen_row g (unat (ru_index u))"
      "\<forall>i\<in>set is. i \<in> (\<lambda>u. unat (ru_index u)) ` set us1 \<or> \<not> resized \<and> index (gr_damage g) i = Some False
        \<or> i < length (tf_visible f) \<and> shown_rows f ! i = screen_row g i"
      using Cons.IH [OF one(1) _ us1] Cons.prems(2) by auto
    have idx: "unat (word_of_nat i :: u16) = i" using i(2) by (simp add: unat_of_nat)
    have shown: "i < length (tf_visible f) \<and> shown_rows f ! i = screen_row g i" if unchanged
    proof -
      have len: "i < length (tf_visible f)" and same: "same_row (tf_visible f ! i) (tf_styles f) r (pj_styles p1)"
        using that by (auto simp: unchanged_def index_def split: if_splits)
      have "row_styled (tf_styles f) (tf_visible f ! i)" using assms(5) len by (simp add: frame_ok_def)
      from same_row_plain [OF this one(3)] same len one(4) show ?thesis by (simp add: shown_rows_def)
    qed
    have new: "row_styled (pj_styles p') r" "plain_row (pj_styles p') r = screen_row g i"
      using plain_row_prefix [OF one(3) rest(2)] one(4) by simp_all
    have "prefix (pj_styles p) (pj_styles p')" using one(2) rest(2) by (rule prefix_order.trans)
    moreover have "\<forall>u\<in>set us. row_styled (pj_styles p') (ru_row u)" using rest(3) new us by auto
    moreover have "\<forall>u\<in>set us. unat (ru_index u) \<in> set (i # is) \<and> plain_row (pj_styles p') (ru_row u) = screen_row g (unat (ru_index u))"
      using rest(4) new us idx by auto
    moreover have "\<forall>j\<in>set (i # is). j \<in> (\<lambda>u. unat (ru_index u)) ` set us \<or> \<not> resized \<and> index (gr_damage g) j = Some False
        \<or> j < length (tf_visible f) \<and> shown_rows f ! j = screen_row g j"
      using rest(5) us idx shown by (cases unchanged) auto
    ultimately show ?thesis using rest(1) by blast
  qed
qed simp

text \<open>The effect of updates that agree on what each row becomes.\<close>

lemma plain_replaces:
  assumes "\<forall>u\<in>set us. snd u = e (fst u)"
  shows "length (fold plain_replace us rows) = length rows"
    and "i < length rows \<Longrightarrow> fold plain_replace us rows ! i = (if i \<in> fst ` set us then e i else rows ! i)"
proof -
  show "length (fold plain_replace us rows) = length rows" for rows
    by (induction us arbitrary: rows) (simp_all add: plain_replace_def)
  show "i < length rows \<Longrightarrow> fold plain_replace us rows ! i = (if i \<in> fst ` set us then e i else rows ! i)"
    using assms
  proof (induction us arbitrary: rows)
    case (Cons u us)
    then show ?case by (auto simp: plain_replace_def nth_list_update)
  qed simp
qed

subsection \<open>What the emulator may do\<close>

definition grid_history :: "grid \<Rightarrow> plain_row list" where
  "grid_history g = map (squares_row (gr_cols g)) (gr_history g)"

definition grid_fits :: "grid \<Rightarrow> bool" where
  "grid_fits g \<longleftrightarrow> gr_cols g \<le> 65535 \<and> length (gr_screen g) \<le> 65535 \<and> length (gr_history g) \<le> HISTORY_LIMIT
     \<and> few_styles (grid_styles g)"

definition damage_marks :: "grid \<Rightarrow> grid \<Rightarrow> bool" where
  "damage_marks g g' \<longleftrightarrow> (gr_cols g' = gr_cols g \<and> length (gr_screen g') = length (gr_screen g) \<longrightarrow>
     (\<forall>i<length (gr_screen g). index (gr_damage g') i = Some False \<longrightarrow> gr_screen g' ! i = gr_screen g ! i))"

definition history_grows :: "grid \<Rightarrow> grid \<Rightarrow> bool" where
  "history_grows g g' \<longleftrightarrow> scrolled_lines g' < scrolled_lines g \<or> gr_cols g' \<noteq> gr_cols g \<and> gr_history g \<noteq> []
     \<or> (\<exists>new. gr_history g' = keep_history (gr_history g @ new) \<and> scrolled_lines g' = scrolled_lines g + length new)"

definition grid_moves :: "grid \<Rightarrow> grid \<Rightarrow> bool" where
  "grid_moves g g' \<longleftrightarrow> grid_fits g' \<and> damage_marks g g' \<and> history_grows g g'"

text \<open>The frame of a projection shows the grid, and its scrollback too unless some of it is owed.\<close>

definition shows_grid :: "terminal_frame \<Rightarrow> grid \<Rightarrow> bool" where
  "shows_grid f g \<longleftrightarrow> tf_cols f = as_u16 (gr_cols g) \<and> tf_rows f = as_u16 (length (gr_screen g))
     \<and> shown_rows f = map (squares_row (gr_cols g)) (gr_screen g) \<and> tf_cursor f = gr_cursor g \<and> tf_modes f = gr_modes g
     \<and> tf_lines_evicted f = word_of_nat (gr_lines_evicted g) \<and> tf_title f = gr_title g \<and> tf_exited f = gr_exited g
     \<and> tf_exit_code f = gr_exit_code g"

definition tracks :: "projection \<Rightarrow> grid \<Rightarrow> bool" where
  "tracks p g \<longleftrightarrow> grid_fits g \<and> frame_ok (pn_frame p) \<and> shows_grid (pn_frame p) g \<and> pn_scrolled p = scrolled_lines g
     \<and> (\<not> owes_history p \<longrightarrow> shown_history (pn_frame p) = grid_history g)"

lemma as_u16_eq: "m \<le> 65535 \<Longrightarrow> n \<le> 65535 \<Longrightarrow> as_u16 m = as_u16 n \<longleftrightarrow> m = n"
proof -
  assume "m \<le> 65535" "n \<le> 65535"
  then have "unat (as_u16 m) = m" "unat (as_u16 n) = n" by (simp_all add: as_u16_def unat_of_nat)
  then show ?thesis by metis
qed

lemma unat_as_u16: "n \<le> 65535 \<Longrightarrow> unat (as_u16 n) = n"
  by (simp add: as_u16_def unat_of_nat)

lemma snapshot_history:
  "length (gr_history g) \<le> HISTORY_LIMIT \<Longrightarrow> sp_history_rows (snapshot_since 0 HISTORY_LIMIT g) = gr_history g"
  by (simp add: snapshot_since_def Let_def scrolled_lines_def HISTORY_LIMIT_def)

lemma snapshot_scrolled [simp]:
  "sp_lines_evicted (snapshot_since a b g) + sp_history_size (snapshot_since a b g) = scrolled_lines g"
  by (simp add: snapshot_since_def Let_def scrolled_lines_def)

text \<open>Rows appended to the scrollback: those a snapshot carries are the new ones, if it carries as many.\<close>

lemma snapshot_appended:
  assumes "gr_history g' = keep_history (gr_history g @ new)" "scrolled_lines g' = scrolled_lines g + length new"
    and "length new \<le> length (sp_history_rows (snapshot_since (scrolled_lines g) b g'))"
  shows "drop (length (sp_history_rows (snapshot_since (scrolled_lines g) b g')) - length new)
      (sp_history_rows (snapshot_since (scrolled_lines g) b g')) = new"
proof -
  let ?h = "gr_history g'"
  let ?n = "min (min (length new) b) (length ?h)"
  have rows: "sp_history_rows (snapshot_since (scrolled_lines g) b g') = drop (length ?h - ?n) ?h"
    using assms(2) by (simp add: snapshot_since_def Let_def)
  with assms(3) have "?n = length new" by simp
  moreover have "drop (length ?h - length new) ?h = new"
  proof -
    have "suffix ?h (gr_history g @ new)" unfolding assms(1) keep_history_def by (rule suffix_drop)
    moreover have "suffix new (gr_history g @ new)" by (rule suffixI) (rule refl)
    moreover have "length new \<le> length ?h" using \<open>?n = length new\<close> by simp
    ultimately have "suffix new ?h" by (metis suffix_length_suffix)
    then show ?thesis by (auto simp: suffix_def)
  qed
  ultimately show ?thesis using rows by simp
qed

subsection \<open>One look at the terminal\<close>

text \<open>Between the two reads of an update lines may scroll off, but the width does not change and the
  counter does not go back.\<close>

definition reads_agree :: "terminal_reads \<Rightarrow> bool" where
  "reads_agree t \<longleftrightarrow> tr_scrolled t \<le> scrolled_lines (tr_grid t) \<and> tr_cols t = gr_cols (tr_grid t)"

lemma reset_tracks:
  assumes "grid_fits (tr_grid t)"
  shows "tracks (reset_projection t p) (tr_grid t)" "\<not> owes_history (reset_projection t p)"
proof -
  let ?g = "tr_grid t" and ?s = "snapshot_since 0 HISTORY_LIMIT (tr_grid t)" and ?S = "grid_styles (tr_grid t)"
  have few: "few_styles ?S" and size: "length (gr_screen ?g) \<le> 65535" "length (gr_history ?g) \<le> HISTORY_LIMIT"
    using assms by (simp_all add: grid_fits_def)
  have lines: "sp_screen_lines ?s = length (gr_screen ?g)" "sp_cols ?s = gr_cols ?g"
    using of_grid_snapshot [of ?g 0 HISTORY_LIMIT] by (simp_all add: of_grid_def)
  obtain vis j1 where v: "visible_from ?s [0..<length (gr_screen ?g)] new_projector = (vis, j1)" by fastforce
  obtain his j2 where h: "project_rows (gr_cols ?g) (gr_history ?g) j1 = (his, j2)" by fastforce
  have vis: "projector_ok ?S j1" "\<forall>r\<in>set vis. row_styled (pj_styles j1) r"
    "map (plain_row (pj_styles j1)) vis = map (screen_row ?g) [0..<length (gr_screen ?g)]"
    using visible_from_ok [OF new_projector_ok few order_refl of_grid_snapshot _ v] by simp_all
  have "\<Union> (row_styles ` set (gr_history ?g)) \<subseteq> ?S" by (auto simp: grid_styles_def)
  note his = project_rows_ok [OF vis(1) few this h]
  then have pre: "prefix (pj_styles j1) (pj_styles j2)" by simp
  have vis2: "row_styled (pj_styles j2) r" "plain_row (pj_styles j2) r = plain_row (pj_styles j1) r" if "r \<in> set vis" for r
    using plain_row_prefix [OF _ pre] vis(2) that by simp_all
  have screen: "map (screen_row ?g) [0..<length (gr_screen ?g)] = map (squares_row (gr_cols ?g)) (gr_screen ?g)"
    by (intro nth_equalityI) (simp_all add: screen_row_def)
  let ?f = "pn_frame (reset_projection t p)"
  have f: "tf_styles ?f = pj_styles j2" "tf_visible ?f = vis" "tf_history ?f = his"
    using v h by (simp_all add: reset_projection_def Let_def lines snapshot_history [OF size(2)])
  have "shown_rows ?f = map (plain_row (pj_styles j1)) vis" using vis2 by (simp add: shown_rows_def f)
  then have "shown_rows ?f = map (squares_row (gr_cols ?g)) (gr_screen ?g)" using vis(3) screen by simp
  moreover have "shown_history ?f = grid_history ?g" using his by (simp add: shown_history_def f grid_history_def)
  moreover have "frame_ok ?f" using vis2 his by (auto simp: frame_ok_def f)
  moreover have "tf_cols ?f = as_u16 (gr_cols ?g)" "tf_rows ?f = as_u16 (length (gr_screen ?g))" "tf_cursor ?f = gr_cursor ?g"
    "tf_modes ?f = gr_modes ?g" "tf_lines_evicted ?f = word_of_nat (gr_lines_evicted ?g)" "tf_title ?f = gr_title ?g"
    "tf_exited ?f = gr_exited ?g" "tf_exit_code ?f = gr_exit_code ?g" "pn_scrolled (reset_projection t p) = scrolled_lines ?g"
    by (simp_all add: reset_projection_def Let_def snapshot_since_def scrolled_lines_def split: prod.split)
  ultimately show "tracks (reset_projection t p) ?g" using assms by (simp add: tracks_def shows_grid_def)
  show "\<not> owes_history (reset_projection t p)"
    by (simp add: owes_history_def reset_projection_def Let_def split: prod.split)
qed

text \<open>What is sent of the scrollback brings it up to date, unless some is owed.\<close>

definition history_plain :: "terminal_style list \<Rightarrow> terminal_history_update option \<Rightarrow> plain_row list \<Rightarrow> plain_row list" where
  "history_plain table u h = (case u of
     Some (Appended rows) \<Rightarrow> keep_history (h @ map (plain_row table) rows)
   | Some (Replaced rows) \<Rightarrow> map (plain_row table) rows
   | None \<Rightarrow> h)"

definition history_styled :: "terminal_style list \<Rightarrow> terminal_history_update option \<Rightarrow> bool" where
  "history_styled table u \<longleftrightarrow> (case u of Some (Appended rows) \<Rightarrow> \<forall>r\<in>set rows. row_styled table r
     | Some (Replaced rows) \<Rightarrow> \<forall>r\<in>set rows. row_styled table r | None \<Rightarrow> True)"

lemma keep_history_map: "map f (keep_history xs) = keep_history (map f xs)"
  by (simp add: keep_history_def drop_map)

lemma history_update_ok:
  assumes tr: "tracks p g" and mv: "grid_moves g g'" and g': "tr_grid t = g'" and agree: "reads_agree t"
    and j: "projector_ok (grid_styles g') j"
    and s: "s = (if republishes t p then snapshot_since 0 HISTORY_LIMIT g' else snapshot_since (pn_scrolled p) HISTORY_STREAM_BUDGET g')"
    and u: "history_update (republishes t p) s p j = ((u, deadline), j')"
  shows "projector_ok (grid_styles g') j' \<and> prefix (pj_styles j) (pj_styles j') \<and> history_styled (pj_styles j') u
    \<and> (deadline = None \<longrightarrow> history_plain (pj_styles j') u (shown_history (pn_frame p)) = grid_history g')"
proof -
  have few: "few_styles (grid_styles g')" and size: "length (gr_history g') \<le> HISTORY_LIMIT"
    using mv by (simp_all add: grid_moves_def grid_fits_def)
  have cols: "sp_cols s = gr_cols g'" and scr: "sp_lines_evicted s + sp_history_size s = scrolled_lines g'"
    using s by (auto simp: snapshot_since_def Let_def scrolled_lines_def)
  have sub: "\<Union> (row_styles ` set rows) \<subseteq> grid_styles g'" if "set rows \<subseteq> set (gr_history g')" for rows
    using that by (auto simp: grid_styles_def)
  show ?thesis
  proof (cases "republishes t p")
    case True
    then have rows: "sp_history_rows s = gr_history g'" using s snapshot_history [OF size] by simp
    obtain h where h: "project_rows (gr_cols g') (gr_history g') j = (h, j')" "u = Some (Replaced h)"
      using u True by (auto simp: history_update_def Let_def rows cols split: prod.splits)
    from project_rows_ok [OF j few sub h(1)] h(2) show ?thesis
      by (auto simp: history_styled_def history_plain_def grid_history_def)
  next
    case False
    note not_republished = this
    then have "\<not> scrolled_lines g' < pn_scrolled p" using agree g' by (auto simp: republishes_def reads_agree_def)
    then have counter: "pn_scrolled p = scrolled_lines g" "\<not> scrolled_lines g' < scrolled_lines g"
      using tr by (simp_all add: tracks_def)
    show ?thesis
    proof (cases "pn_history_deadline p = None")
      case False
      then obtain y where y: "pn_history_deadline p = Some y" by blast
      have "u = None" "deadline \<noteq> None" "j' = j"
        using u not_republished by (auto simp: history_update_def Let_def y split: if_splits)
      with j show ?thesis by (auto simp: history_styled_def)
    next
      case True
      then have shown: "shown_history (pn_frame p) = grid_history g" using tr by (simp add: tracks_def owes_history_def)
      have same_cols: "gr_cols g' = gr_cols g \<or> gr_history g = []"
      proof (rule ccontr)
        assume "\<not> ?thesis"
        moreover have "gr_cols g \<le> 65535" "gr_cols g' \<le> 65535" "tf_cols (pn_frame p) = as_u16 (gr_cols g)"
          using tr mv by (simp_all add: tracks_def grid_fits_def grid_moves_def shows_grid_def)
        moreover have "tf_history (pn_frame p) \<noteq> []" using calculation(1) shown by (auto simp: shown_history_def grid_history_def)
        ultimately show False using not_republished agree g' as_u16_eq [of "gr_cols g'" "gr_cols g"]
          by (simp add: republishes_def reads_agree_def)
      qed
      with mv counter(2) obtain new where new: "gr_history g' = keep_history (gr_history g @ new)"
        "scrolled_lines g' = scrolled_lines g + length new" unfolding grid_moves_def history_grows_def by blast
      have old: "map (squares_row (gr_cols g')) (gr_history g) = grid_history g"
        using same_cols by (auto simp: grid_history_def)
      have after: "grid_history g' = keep_history (grid_history g @ map (squares_row (gr_cols g')) new)"
        by (simp add: grid_history_def [of g'] new(1) keep_history_map old)
      show ?thesis
      proof (cases "new = []")
        case True
        then have "u = None" "j' = j" using u not_republished new(2) counter(1) scr
          by (auto simp: history_update_def Let_def split: if_splits)
        moreover have "length (gr_history g) \<le> HISTORY_LIMIT" using tr by (simp add: tracks_def grid_fits_def)
        ultimately show ?thesis using j after True shown
          by (simp add: history_styled_def history_plain_def keep_history_def grid_history_def)
      next
        case False
        show ?thesis
        proof (cases "length new \<le> length (sp_history_rows s)")
          case False
          then have "u = None" "deadline \<noteq> None" "j' = j"
            using u not_republished new(2) counter(1) scr \<open>new \<noteq> []\<close> by (auto simp: history_update_def Let_def split: if_splits)
          with j show ?thesis by (auto simp: history_styled_def)
        next
          case True
          have rows: "drop (length (sp_history_rows s) - length new) (sp_history_rows s) = new"
            using snapshot_appended [OF new, of HISTORY_STREAM_BUDGET] True s not_republished counter(1) by simp
          obtain h where h: "project_rows (gr_cols g') new j = (h, j')" "u = Some (Appended h)"
            using u not_republished new(2) counter(1) scr \<open>new \<noteq> []\<close> True rows cols \<open>pn_history_deadline p = None\<close>
            by (auto simp: history_update_def Let_def split: if_splits prod.splits)
          have "set (sp_history_rows s) \<subseteq> set (gr_history g')"
            using s by (auto simp: snapshot_since_def Let_def dest: in_set_dropD)
          then have "set new \<subseteq> set (gr_history g')" using rows set_drop_subset by (metis subset_trans)
          from project_rows_ok [OF j few sub [OF this] h(1)] h(2) after shown show ?thesis
            by (auto simp: history_styled_def history_plain_def)
        qed
      qed
    qed
  qed
qed

text \<open>An update brings the frame from one grid to the next, whether it is sent or not.\<close>

lemma update_tracks:
  assumes tr: "tracks p g" and mv: "grid_moves g (tr_grid t)" and agree: "reads_agree t"
    and few: "length (tf_styles (pn_frame p)) \<le> STYLE_TABLE_LIMIT" and eq: "update_projection t p = (d, p')"
  shows "tracks p' (tr_grid t)" and "pn_frame p' = (case d of Some d \<Rightarrow> frame_apply d (pn_frame p) | None \<Rightarrow> pn_frame p)"
proof -
  let ?g = "tr_grid t" and ?f = "pn_frame p" and ?S = "grid_styles (tr_grid t)"
  define s where "s = (if republishes t p then snapshot_since 0 HISTORY_LIMIT ?g
    else snapshot_since (pn_scrolled p) HISTORY_STREAM_BUDGET ?g)"
  have s_of: "of_grid ?g s" by (simp add: s_def)
  have s_fields: "sp_cols s = gr_cols ?g" "sp_screen_lines s = length (gr_screen ?g)" "sp_cursor s = gr_cursor ?g"
    "sp_modes s = gr_modes ?g" "sp_lines_evicted s = gr_lines_evicted ?g" "sp_title s = gr_title ?g" "sp_exited s = gr_exited ?g"
    "sp_exit_code s = gr_exit_code ?g" "gr_lines_evicted ?g + sp_history_size s = scrolled_lines ?g"
    by (auto simp: s_def snapshot_since_def Let_def scrolled_lines_def)
  define resized where "resized \<longleftrightarrow> (as_u16 (gr_cols ?g), as_u16 (length (gr_screen ?g))) \<noteq> (tf_cols ?f, tf_rows ?f)"
  obtain rows j1 where rows: "changed_rows ?f resized s [0..<length (gr_screen ?g)] new_projector = (rows, j1)" by fastforce
  obtain u deadline j2 where u: "history_update (republishes t p) s p j1 = ((u, deadline), j2)" by (metis prod.exhaust)
  obtain cwd p1 where cwd: "refresh_cwd t (p\<lparr>pn_scrolled := scrolled_lines ?g, pn_history_deadline := deadline\<rparr>) = (cwd, p1)" by fastforce
  define dl where "dl = \<lparr>td_cols = as_u16 (gr_cols ?g), td_rows = as_u16 (length (gr_screen ?g)), td_modes = gr_modes ?g,
    td_cursor = gr_cursor ?g, td_lines_evicted = word_of_nat (gr_lines_evicted ?g), td_styles = pj_styles j2, td_rows_replaced = rows,
    td_history = u, td_title = (if gr_title ?g \<noteq> tf_title ?f then Some (gr_title ?g) else None), td_working_directory = cwd,
    td_exit = (if gr_exited ?g \<noteq> tf_exited ?f \<or> gr_exit_code ?g \<noteq> tf_exit_code ?f
      then Some \<lparr>ex_exited = gr_exited ?g, ex_code = gr_exit_code ?g\<rparr> else None),
    td_bell = pn_bell p, td_clipboard = pn_clipboard p\<rparr>"
  let ?p2 = "p1\<lparr>pn_bell := False, pn_clipboard := None\<rparr>"
  have dl: "td_styles dl = pj_styles j2" "td_rows_replaced dl = rows" "td_history dl = u" "td_cols dl = as_u16 (gr_cols ?g)"
    "td_rows dl = as_u16 (length (gr_screen ?g))" "td_modes dl = gr_modes ?g" "td_cursor dl = gr_cursor ?g"
    "td_lines_evicted dl = word_of_nat (gr_lines_evicted ?g)" by (simp_all add: dl_def)
  have out: "update_projection t p = (if delta_changes dl ?f resized then (Some dl, ?p2\<lparr>pn_frame := frame_apply dl ?f\<rparr>) else (None, ?p2))"
    unfolding update_projection_def Let_def s_def [symmetric] s_fields resized_def [symmetric] rows u prod.case cwd dl_def [symmetric] ..
  have p1: "pn_frame p1 = ?f" "pn_scrolled p1 = scrolled_lines ?g" "pn_history_deadline p1 = deadline"
    using cwd by (auto simp: refresh_cwd_def split: if_splits)
  have fits: "grid_fits ?g" and damage: "damage_marks g ?g" using mv by (simp_all add: grid_moves_def)
  have few': "few_styles ?S" and lines: "length (gr_screen ?g) \<le> 65535" and cols: "gr_cols ?g \<le> 65535"
    using fits by (simp_all add: grid_fits_def)
  have f_ok: "frame_ok ?f" and f_shows: "shows_grid ?f g" and g_fits: "grid_fits g" using tr by (simp_all add: tracks_def)
  note ch = changed_rows_ok [OF new_projector_ok few' order_refl s_of f_ok _ rows]
  then have j1: "projector_ok ?S j1" and styled: "\<forall>u\<in>set rows. row_styled (pj_styles j1) (ru_row u)"
    and plain: "\<forall>u\<in>set rows. plain_row (pj_styles j1) (ru_row u) = screen_row ?g (unat (ru_index u))"
    and covered: "\<forall>i<length (gr_screen ?g). i \<in> (\<lambda>u. unat (ru_index u)) ` set rows
        \<or> \<not> resized \<and> index (gr_damage ?g) i = Some False \<or> i < length (tf_visible ?f) \<and> shown_rows ?f ! i = screen_row ?g i"
    using lines by auto
  have hist: "projector_ok ?S j2" "prefix (pj_styles j1) (pj_styles j2)" "history_styled (pj_styles j2) u"
    "deadline = None \<longrightarrow> history_plain (pj_styles j2) u (shown_history ?f) = grid_history ?g"
    using history_update_ok [OF tr mv refl agree j1 _ u] by (simp_all add: s_def)
  show "pn_frame p' = (case d of Some d \<Rightarrow> frame_apply d ?f | None \<Rightarrow> ?f)"
    using eq out p1 by (auto split: if_splits)
  have f_g: "tf_cols ?f = as_u16 (gr_cols g)" "tf_rows ?f = as_u16 (length (gr_screen g))"
    "shown_rows ?f = map (squares_row (gr_cols g)) (gr_screen g)" using f_shows by (simp_all add: shows_grid_def)
  have same_size: "gr_cols ?g = gr_cols g \<and> length (gr_screen ?g) = length (gr_screen g)" if "\<not> resized"
    using that g_fits cols lines by (simp add: resized_def f_g grid_fits_def as_u16_eq)
  let ?base = "plain_resize (length (gr_screen ?g)) (shown_rows ?f)"
  have base_len: "length ?base = length (gr_screen ?g)" by (simp add: plain_resize_def)
  have base_at: "?base ! i = shown_rows ?f ! i" if "i < length (shown_rows ?f)" "i < length (gr_screen ?g)" for i
    using that by (simp add: plain_resize_def nth_append)
  define ups where "ups = map (\<lambda>u. (unat (ru_index u), plain_row (pj_styles j2) (ru_row u))) rows"
  have styled2: "\<forall>u\<in>set rows. row_styled (pj_styles j2) (ru_row u)"
    and plain2: "\<forall>u\<in>set rows. plain_row (pj_styles j2) (ru_row u) = screen_row ?g (unat (ru_index u))"
    using plain_row_prefix [OF _ hist(2)] styled plain by auto
  have screen: "fold plain_replace ups ?base = map (squares_row (gr_cols ?g)) (gr_screen ?g)"
  proof (rule nth_equalityI)
    have e: "\<forall>u\<in>set ups. snd u = screen_row ?g (fst u)" using plain2 by (auto simp: ups_def)
    show "length (fold plain_replace ups ?base) = length (map (squares_row (gr_cols ?g)) (gr_screen ?g))"
      using plain_replaces(1) [OF e] base_len by simp
    fix i assume "i < length (fold plain_replace ups ?base)"
    then have i: "i < length (gr_screen ?g)" using plain_replaces(1) [OF e] base_len by simp
    have "?base ! i = screen_row ?g i" if "i \<notin> fst ` set ups"
    proof -
      have "i \<notin> (\<lambda>u. unat (ru_index u)) ` set rows" using that by (auto simp: ups_def image_image)
      then consider "\<not> resized" "index (gr_damage ?g) i = Some False"
        | "i < length (tf_visible ?f)" "shown_rows ?f ! i = screen_row ?g i" using covered i by blast
      then show ?thesis
      proof cases
        case 1
        then have size: "gr_cols ?g = gr_cols g" "length (gr_screen ?g) = length (gr_screen g)" using same_size by simp_all
        then have "gr_screen ?g ! i = gr_screen g ! i" using damage 1(2) i by (simp add: damage_marks_def)
        then show ?thesis using base_at [of i] i size by (simp add: f_g screen_row_def)
      next
        case 2
        then show ?thesis using base_at [of i] i by (simp add: shown_rows_def)
      qed
    qed
    then have "fold plain_replace ups ?base ! i = screen_row ?g i"
      using plain_replaces(2) [OF e, of i ?base] i base_len by auto
    then show "fold plain_replace ups ?base ! i = map (squares_row (gr_cols ?g)) (gr_screen ?g) ! i"
      using i by (simp add: screen_row_def)
  qed
  show "tracks p' ?g"
  proof (cases "delta_changes dl ?f resized")
    case True
    then have p': "pn_frame p' = frame_apply dl ?f" "pn_scrolled p' = scrolled_lines ?g" "pn_history_deadline p' = deadline"
      using eq out p1 by auto
    have dl_ok: "delta_ok dl" using styled2 hist(3)
      by (auto simp: delta_ok_def delta_rows_def dl history_styled_def split: option.splits terminal_history_update.splits)
    have "length (pj_styles j2) \<le> 60001" using projector_length [OF hist(1) few'] few' by (simp add: few_styles_def)
    then have fit: "styles_fit ?f dl" using few by (simp add: styles_fit_def dl STYLE_TABLE_LIMIT_def)
    note ap = frame_apply_shows [OF f_ok dl_ok fit]
    have "shown_updates dl = ups" "unat (td_rows dl) = length (gr_screen ?g)"
      using lines by (simp_all add: shown_updates_def dl ups_def unat_as_u16)
    then have "shown_rows (pn_frame p') = map (squares_row (gr_cols ?g)) (gr_screen ?g)" using ap(1) screen p' by simp
    moreover have "history_after dl h = history_plain (pj_styles j2) u h" for h
      unfolding history_after_def history_plain_def dl ..
    then have "\<not> owes_history p' \<longrightarrow> shown_history (pn_frame p') = grid_history ?g"
      using ap(2) hist(4) p' by (simp add: owes_history_def)
    moreover have "tf_exited (pn_frame p') = gr_exited ?g" "tf_exit_code (pn_frame p') = gr_exit_code ?g"
      "tf_title (pn_frame p') = gr_title ?g" by (auto simp: p' dl_def)
    ultimately show ?thesis using fits ap(3) p' by (simp add: tracks_def shows_grid_def dl)
  next
    case False
    then have p': "pn_frame p' = ?f" "pn_scrolled p' = scrolled_lines ?g" "pn_history_deadline p' = deadline"
      using eq out p1 by auto
    have same: "\<not> resized" "rows = []" "u = None" "gr_title ?g = tf_title ?f" "gr_exited ?g = tf_exited ?f"
      "gr_exit_code ?g = tf_exit_code ?f" "gr_cursor ?g = tf_cursor ?f" "gr_modes ?g = tf_modes ?f"
      "word_of_nat (gr_lines_evicted ?g) = tf_lines_evicted ?f"
      using False by (auto simp: delta_changes_def dl_def split: if_splits)
    have "?base = shown_rows ?f" using same_size [OF same(1)] by (simp add: plain_resize_def f_g)
    then have "shown_rows ?f = map (squares_row (gr_cols ?g)) (gr_screen ?g)" using screen same(2) by (simp add: ups_def)
    moreover have "\<not> owes_history p' \<longrightarrow> shown_history ?f = grid_history ?g"
      using hist(4) p' same(3) by (simp add: owes_history_def history_plain_def)
    ultimately show ?thesis using fits f_ok p' same same_size [OF same(1)] f_g
      by (simp add: tracks_def shows_grid_def)
  qed
qed

subsection \<open>Every client sees the terminal\<close>

text \<open>What a subscriber does with what it is sent.\<close>

definition receive :: "terminal_update option \<Rightarrow> terminal_frame \<Rightarrow> terminal_frame" where
  "receive u f = (case u of None \<Rightarrow> f | Some (Frame f1) \<Rightarrow> f1 | Some (Delta d) \<Rightarrow> frame_apply d f)"

lemma tracks_last_projected [simp]: "tracks (p\<lparr>pn_last_projected := n\<rparr>) g \<longleftrightarrow> tracks p g"
  by (simp add: tracks_def owes_history_def)

lemma project_terminal_tracks:
  assumes "tracks p g" "grid_moves g (tr_grid t)" "reads_agree t" "project_terminal t p = ((u, again), p')"
  shows "tracks p' (tr_grid t)" "pn_frame p' = receive u (pn_frame p)" "again \<longleftrightarrow> owes_history p'"
proof -
  let ?p = "p\<lparr>pn_last_projected := tr_now t\<rparr>"
  have fits: "grid_fits (tr_grid t)" using assms(2) by (simp add: grid_moves_def)
  show "again \<longleftrightarrow> owes_history p'" using assms(4) by (auto simp: project_terminal_def Let_def split: if_splits prod.splits)
  have "tracks p' (tr_grid t) \<and> pn_frame p' = receive u (pn_frame p)"
  proof (cases "styles_exhausted ?p")
    case True
    then have "p' = reset_projection t ?p" "u = Some (Frame (pn_frame p'))"
      using assms(4) by (auto simp: project_terminal_def Let_def)
    then show ?thesis using reset_tracks(1) [OF fits, of ?p] by (simp add: receive_def)
  next
    case False
    then obtain d where d: "update_projection t ?p = (d, p')" "u = map_option Delta d"
      using assms(4) by (auto simp: project_terminal_def Let_def split: prod.splits)
    have "length (tf_styles (pn_frame ?p)) \<le> STYLE_TABLE_LIMIT" using False by (simp add: styles_exhausted_def)
    from update_tracks [OF _ assms(2,3) this d(1)] assms(1) d(2)
    show ?thesis by (auto simp: receive_def split: option.splits)
  qed
  then show "tracks p' (tr_grid t)" "pn_frame p' = receive u (pn_frame p)" by simp_all
qed

lemma refresh_cwd_deadline [simp]: "pn_history_deadline (snd (refresh_cwd t q)) = pn_history_deadline q"
  by (simp add: refresh_cwd_def)

lemma republish_settles: "republishes t p \<Longrightarrow> pn_history_deadline (snd (update_projection t p)) = None"
  unfolding update_projection_def Let_def case_prod_beta
  by (simp add: history_update_def Let_def case_prod_beta if_distrib [of snd] if_distrib [of pn_history_deadline])

primrec look_all :: "terminal_reads list \<Rightarrow> projection \<Rightarrow> terminal_update option list \<times> projection" where
  "look_all [] p = ([], p)"
| "look_all (t # ts) p = (let ((u, again), p1) = project_terminal t p; (us, p2) = look_all ts p1 in (u # us, p2))"

primrec moves_along :: "grid \<Rightarrow> terminal_reads list \<Rightarrow> bool" where
  "moves_along g [] = True"
| "moves_along g (t # ts) = (grid_moves g (tr_grid t) \<and> reads_agree t \<and> moves_along (tr_grid t) ts)"

lemma look_all_tracks:
  assumes "tracks p (tr_grid t)" "moves_along (tr_grid t) ts" "look_all ts p = (us, p')"
  shows "tracks p' (tr_grid (last (t # ts))) \<and> pn_frame p' = fold receive us (pn_frame p)"
  using assms
proof (induction ts arbitrary: t p us)
  case (Cons t1 ts)
  obtain u again p1 where one: "project_terminal t1 p = ((u, again), p1)" by (metis prod.exhaust)
  obtain us1 where us: "look_all ts p1 = (us1, p')" "us = u # us1"
    using Cons.prems(3) one by (auto split: prod.splits)
  note step = project_terminal_tracks [OF Cons.prems(1) _ _ one]
  with Cons.prems(2) have step: "tracks p1 (tr_grid t1)" "pn_frame p1 = receive u (pn_frame p)" by simp_all
  from Cons.IH [OF step(1) _ us(1)] Cons.prems(2) us(2) step(2) show ?case by simp
qed simp

text \<open>C16: A client that takes the frame of a terminal and applies whatever it is sent afterwards shows the
  terminal of the host at every look, as long as the emulator moves as the projection assumes: the
  frame is the host's, its screen with every cell and resolved style, cursor, modes, title and exit are
  those of the emulator, and so is the scrollback unless the host says that it still owes some. Assumed
  of the emulator are at most 65535 columns and rows, 1000 lines of scrollback and 60000 styles; that
  every row that changed is marked as damaged unless the size changed; that from one look to the next
  the scrollback only grows at its end, or the count of scrolled lines goes back, or the width changes;
  and that between the two reads of one look the width stays and the count does not go back. A
  scrollback that is cleared and grows past its old count between two looks is outside these, and goes
  wrong (\<open>regrown_scrollback_keeps_stale_rows\<close>). Output between the reads, style tables that are merged
  and renumbered, resizes, reflows, swapped screens and rebuilt frames are all on the way.\<close>

theorem clients_see_the_terminal:
  assumes "grid_fits (tr_grid t)" "moves_along (tr_grid t) ts" "look_all ts (reset_projection t p) = (us, p')"
  shows "let f = fold receive us (pn_frame (reset_projection t p)); g = tr_grid (last (t # ts)) in
    f = pn_frame p' \<and> shows_grid f g \<and> (owes_history p' \<or> shown_history f = grid_history g)"
  using look_all_tracks [OF reset_tracks(1) [OF assms(1)] assms(2,3)]
  by (auto simp: Let_def tracks_def)

text \<open>C18: Scrollback that a burst deferred is sent: at the first look after the quiet interval during which
  nothing scrolled, the client's scrollback is the host's again.\<close>

theorem owed_scrollback_is_sent:
  assumes "tracks p g" "grid_moves g (tr_grid t)" "reads_agree t" "project_terminal t p = ((u, again), p')"
    and "pn_history_deadline p = Some deadline" "deadline \<le> tr_now t" "scrolled_lines (tr_grid t) = scrolled_lines g"
  shows "\<not> again \<and> shown_history (receive u (pn_frame p)) = grid_history (tr_grid t)"
proof -
  let ?p = "p\<lparr>pn_last_projected := tr_now t\<rparr>"
  note step = project_terminal_tracks [OF assms(1-4)]
  have "\<not> owes_history p'"
  proof (cases "styles_exhausted ?p")
    case True
    then have "p' = reset_projection t ?p" using assms(4) by (auto simp: project_terminal_def Let_def)
    then show ?thesis using reset_tracks(2) assms(2) by (simp add: grid_moves_def)
  next
    case False
    then have "snd (update_projection t ?p) = p'"
      using assms(4) by (auto simp: project_terminal_def Let_def split: prod.splits)
    moreover have "republishes t ?p"
      using assms(1,3,5-7) by (simp add: republishes_def reads_agree_def tracks_def)
    ultimately show ?thesis using republish_settles by (auto simp: owes_history_def)
  qed
  then show ?thesis using step by (simp add: tracks_def)
qed

subsection \<open>A small terminal\<close>

definition demo_square :: "string \<Rightarrow> u16 \<Rightarrow> square" where
  "demo_square c flags = \<lparr>sq_text = c, sq_width = Narrow, sq_style = default_style\<lparr>st_flags := flags\<rparr>, sq_link = None, sq_wrapline = False\<rparr>"

definition demo_grid :: "square list list \<Rightarrow> square list list \<Rightarrow> grid" where
  "demo_grid screen history = \<lparr>gr_cols = 2, gr_screen = screen, gr_history = history, gr_lines_evicted = 0,
     gr_damage = map (\<lambda>_. True) screen, gr_cursor = None, gr_modes = no_modes, gr_title = ''sh'', gr_exited = False, gr_exit_code = None\<rparr>"

definition demo_reads :: "grid \<Rightarrow> nat \<Rightarrow> terminal_reads" where
  "demo_reads g now = \<lparr>tr_scrolled = scrolled_lines g, tr_cols = gr_cols g, tr_grid = g, tr_cwd = ''/home'', tr_now = now\<rparr>"

definition demo_projection :: projection where
  "demo_projection = \<lparr>pn_frame = default_frame, pn_scrolled = 0, pn_history_deadline = None, pn_last_projected = 0, pn_last_cwd = 0,
     pn_bell = False, pn_clipboard = None\<rparr>"

lemmas demo_terminal = demo_square_def demo_grid_def demo_reads_def demo_projection_def

lemma demo_fits:
  "length screen \<le> 5 \<Longrightarrow> length history \<le> 5 \<Longrightarrow> finite (grid_styles (demo_grid screen history))
     \<Longrightarrow> card (grid_styles (demo_grid screen history)) \<le> 60000 \<Longrightarrow> grid_fits (demo_grid screen history)"
  by (simp add: grid_fits_def few_styles_def HISTORY_LIMIT_def) (simp add: demo_grid_def)

lemma demo_reads_fields [simp]:
  "tr_grid (demo_reads g n) = g" "tr_now (demo_reads g n) = n" "reads_agree (demo_reads g n)"
  by (simp_all add: demo_reads_def reads_agree_def)

theorem clients_see_the_terminal_witness:
  "let g0 = demo_grid [[demo_square ''a'' 0]] []; g1 = demo_grid [[demo_square ''b'' 2]] [[demo_square ''a'' 0]];
       p0 = reset_projection (demo_reads g0 0) demo_projection; (us, p1) = look_all [demo_reads g1 20] p0;
       f = fold receive us (pn_frame p0)
   in length us = 1 \<and> f = pn_frame p1 \<and> shown_rows f = [([(''b'', Narrow, default_style\<lparr>st_flags := 2\<rparr>, None)], False)]"
proof -
  let ?g0 = "demo_grid [[demo_square ''a'' 0]] []" and ?g1 = "demo_grid [[demo_square ''b'' 2]] [[demo_square ''a'' 0]]"
  let ?p0 = "reset_projection (demo_reads ?g0 0) demo_projection"
  have fits: "grid_fits ?g0" "grid_fits ?g1"
    by (rule demo_fits; simp add: grid_styles_def row_styles_def; simp add: demo_grid_def card_insert_if)+
  have "history_grows ?g0 ?g1"
    unfolding history_grows_def
    by (intro disjI2 exI [of _ "[[demo_square ''a'' 0]]"]) (simp add: demo_grid_def keep_history_def HISTORY_LIMIT_def scrolled_lines_def)
  moreover have "damage_marks ?g0 ?g1" by (simp add: damage_marks_def demo_grid_def index_def)
  ultimately have "grid_moves ?g0 ?g1" using fits(2) by (simp add: grid_moves_def)
  then have along: "moves_along (tr_grid (demo_reads ?g0 0)) [demo_reads ?g1 20]" by simp
  obtain us p1 where look: "look_all [demo_reads ?g1 20] ?p0 = (us, p1)" by fastforce
  have one: "length us = 1" using look by (auto simp: Let_def split: prod.splits)
  have "grid_fits (tr_grid (demo_reads ?g0 0))" using fits(1) by simp
  from clients_see_the_terminal [OF this along look] have "fold receive us (pn_frame ?p0) = pn_frame p1"
    "shows_grid (pn_frame p1) ?g1"
    by (auto simp: Let_def)
  moreover have "map (squares_row (gr_cols ?g1)) (gr_screen ?g1) = [([(''b'', Narrow, default_style\<lparr>st_flags := 2\<rparr>, None)], False)]"
    by (simp add: squares_row_def strip_end_def demo_terminal square_plain_def blank_cell_def index_def)
  ultimately show ?thesis using one look by (simp add: shows_grid_def Let_def)
qed

theorem owed_scrollback_is_sent_witness:
  "let g = demo_grid [[demo_square ''b'' 0]] [[demo_square ''a'' 0]];
       p = (reset_projection (demo_reads g 0) demo_projection)\<lparr>pn_history_deadline := Some 50\<rparr>;
       ((u, again), p1) = project_terminal (demo_reads g 100) p
   in \<not> again \<and> shown_history (receive u (pn_frame p)) = [([(''a'', Narrow, default_style, None)], False)]"
proof -
  let ?g = "demo_grid [[demo_square ''b'' 0]] [[demo_square ''a'' 0]]"
  let ?p = "(reset_projection (demo_reads ?g 0) demo_projection)\<lparr>pn_history_deadline := Some 50\<rparr>"
  have fits: "grid_fits ?g"
    by (rule demo_fits; simp add: grid_styles_def row_styles_def; simp add: demo_grid_def card_insert_if)
  then have moves: "grid_moves ?g (tr_grid (demo_reads ?g 100))"
    by (auto simp: grid_moves_def damage_marks_def history_grows_def keep_history_def HISTORY_LIMIT_def)
      (auto simp: demo_grid_def)
  have "tracks ?p ?g" using reset_tracks(1) [of "demo_reads ?g 0" demo_projection] fits by (simp add: tracks_def owes_history_def)
  moreover obtain u again p1 where look: "project_terminal (demo_reads ?g 100) ?p = ((u, again), p1)" by (metis prod.exhaust)
  ultimately have "\<not> again \<and> shown_history (receive u (pn_frame ?p)) = grid_history ?g"
    using owed_scrollback_is_sent [OF _ moves _ look, of 50] by simp
  moreover have "grid_history ?g = [([(''a'', Narrow, default_style, None)], False)]"
    by (simp add: grid_history_def squares_row_def strip_end_def demo_terminal square_plain_def blank_cell_def index_def default_style_def)
  ultimately show ?thesis using look by (simp add: Let_def)
qed

text \<open>The host tells appended rows from a replaced ring by its counter alone. A ring that was emptied and has
  grown past the old count before the next look passes for the old one: the rows that are gone stay and
  the first new ones are missing.\<close>

lemma regrown_scrollback_keeps_stale_rows:
  "let old = demo_grid [[]] [[demo_square ''x'' 0]]; new = demo_grid [[]] [[demo_square ''a'' 0], [demo_square ''b'' 0]];
       p1 = snd (project_terminal (demo_reads new 20) (reset_projection (demo_reads old 0) demo_projection))
   in grid_history new = [([(''a'', Narrow, default_style, None)], False), ([(''b'', Narrow, default_style, None)], False)]
     \<and> shown_history (pn_frame p1) = [([(''x'', Narrow, default_style, None)], False), ([(''b'', Narrow, default_style, None)], False)]
     \<and> \<not> owes_history p1"
proof -
  let ?old = "demo_grid [[]] [[demo_square ''x'' 0]]" and ?new = "demo_grid [[]] [[demo_square ''a'' 0], [demo_square ''b'' 0]]"
  have [simp]: "default_style\<lparr>st_flags := 0\<rparr> = default_style" by (simp add: default_style_def)
  define cell where "cell t = \<lparr>ce_text = t, ce_width = Narrow, ce_style = 0, ce_link = None\<rparr>" for t
  define row where "row t = \<lparr>ro_cells = [cell t], ro_wrapped = False\<rparr>" for t
  have reset: "reset_projection (demo_reads ?old 0) demo_projection = demo_projection\<lparr>
      pn_frame := default_frame\<lparr>tf_cols := as_u16 2, tf_rows := as_u16 1, tf_styles := [default_style],
        tf_visible := [default_row], tf_history := [row ''x''], tf_title := ''sh'', tf_working_directory := Some ''/home''\<rparr>,
      pn_scrolled := 1\<rparr>"
    by (simp add: reset_projection_def snapshot_since_def scrolled_lines_def Let_def demo_terminal HISTORY_LIMIT_def
      visible_row_def index_def project_row_def project_cell_def intern_def new_projector_def strip_end_def default_cell_def
      default_frame_def default_row_def row_def cell_def)
  define P where "P = (reset_projection (demo_reads ?old 0) demo_projection)\<lparr>pn_last_projected := 20\<rparr>"
  define s where "s = snapshot_since 1 HISTORY_STREAM_BUDGET ?new"
  let ?f = "pn_frame P"
  have f: "tf_cols ?f = as_u16 2" "tf_rows ?f = as_u16 1" "tf_styles ?f = [default_style]" "tf_visible ?f = [default_row]"
    "tf_history ?f = [row ''x'']" "pn_scrolled P = 1" "pn_history_deadline P = None" "pn_last_cwd P = 0"
    by (simp_all add: P_def reset) (simp add: demo_projection_def)+
  have s: "sp_cols s = 2" "sp_screen_lines s = 1" "sp_visible_rows s = [[]]" "sp_history_rows s = [[demo_square ''b'' 0]]"
    "sp_lines_evicted s = 0" "sp_history_size s = 2" "sp_row_damage s = [True]"
    by (simp_all add: s_def snapshot_since_def scrolled_lines_def demo_grid_def HISTORY_STREAM_BUDGET_def Let_def)
  have rep: "republishes (demo_reads ?new 20) P = False"
  proof -
    have "tr_scrolled (demo_reads ?new 20) = 2" "tr_cols (demo_reads ?new 20) = 2"
      by (simp_all add: demo_reads_def demo_grid_def scrolled_lines_def)
    then show ?thesis using f by (simp add: republishes_def)
  qed
  have project: "project_row 2 [] new_projector = (default_row, new_projector)"
    "project_row 2 [demo_square ''b'' 0] new_projector = (row ''b'', new_projector)"
    by (simp_all add: project_row_def project_cell_def intern_def new_projector_def strip_end_def default_cell_def index_def
      default_row_def row_def cell_def demo_square_def)
  have rows: "changed_rows ?f False s [0..<1] new_projector = ([], new_projector)"
    by (simp add: f s visible_row_def index_def project same_row_def default_row_def)
  have hist: "history_update False s P new_projector = ((Some (Appended [row ''b'']), None), new_projector)"
    by (simp add: history_update_def f s project Let_def)
  have resized: "((as_u16 (sp_cols s), as_u16 (sp_screen_lines s)) \<noteq> (tf_cols ?f, tf_rows ?f)) = False" by (simp add: f s)
  have rows': "changed_rows ?f False s [0..<sp_screen_lines s] new_projector = ([], new_projector)" using rows s by simp
  obtain cwd p1 where cwd: "refresh_cwd (demo_reads ?new 20) (P\<lparr>pn_scrolled := sp_lines_evicted s + sp_history_size s,
      pn_history_deadline := None\<rparr>) = (cwd, p1)" by fastforce
  then have p1: "pn_history_deadline p1 = None" by (auto simp: refresh_cwd_def split: if_splits)
  define d where "d = \<lparr>td_cols = as_u16 (sp_cols s), td_rows = as_u16 (sp_screen_lines s), td_modes = sp_modes s, td_cursor = sp_cursor s,
    td_lines_evicted = word_of_nat (sp_lines_evicted s), td_styles = pj_styles new_projector, td_rows_replaced = [],
    td_history = Some (Appended [row ''b'']), td_title = (if sp_title s \<noteq> tf_title ?f then Some (sp_title s) else None),
    td_working_directory = cwd, td_exit = (if sp_exited s \<noteq> tf_exited ?f \<or> sp_exit_code s \<noteq> tf_exit_code ?f
      then Some \<lparr>ex_exited = sp_exited s, ex_code = sp_exit_code s\<rparr> else None),
    td_bell = pn_bell P, td_clipboard = pn_clipboard P\<rparr>"
  then have d: "td_history d = Some (Appended [row ''b''])" "td_rows_replaced d = []" "td_styles d = [default_style]"
    by (simp_all add: new_projector_def)
  have out: "pn_frame (snd (update_projection (demo_reads ?new 20) P)) = frame_apply d ?f"
    "pn_history_deadline (snd (update_projection (demo_reads ?new 20) P)) = None"
    unfolding update_projection_def rep if_False f(6) demo_reads_fields s_def [symmetric] Let_def resized rows' prod.case hist cwd d_def [symmetric]
    using d(1) by (simp_all add: delta_changes_def p1)
  have ok: "frame_ok ?f" "delta_ok d" "styles_fit ?f d"
    by (simp_all add: frame_ok_def delta_ok_def delta_rows_def styles_fit_def f d row_styled_def row_def cell_def default_row_def)
  have plain: "plain_row [default_style] (row t) = ([(t, Narrow, default_style, None)], False)" for t
    by (simp add: plain_row_def row_def cell_def style_at_def)
  have "shown_history (frame_apply d ?f) = [([(''x'', Narrow, default_style, None)], False), ([(''b'', Narrow, default_style, None)], False)]"
    unfolding frame_apply_shows(2) [OF ok] by (simp add: history_after_def d shown_history_def f plain keep_history_def HISTORY_LIMIT_def)
  moreover have "snd (project_terminal (demo_reads ?new 20) (reset_projection (demo_reads ?old 0) demo_projection))
    = snd (update_projection (demo_reads ?new 20) P)"
    using f(3) by (simp add: P_def project_terminal_def Let_def styles_exhausted_def STYLE_TABLE_LIMIT_def split: prod.split)
  moreover have "grid_history ?new = [([(''a'', Narrow, default_style, None)], False), ([(''b'', Narrow, default_style, None)], False)]"
    by (simp add: grid_history_def squares_row_def strip_end_def demo_terminal square_plain_def blank_cell_def index_def)
  ultimately show ?thesis using out by (simp add: Let_def owes_history_def)
qed

end
