(* ===== verification/Mux_Outbox.thy ===== *)
theory Mux_Outbox
  imports Terminal_Frames "HOL-Library.AList"
begin

section \<open>The outbox of an attachment\<close>

text \<open>
  Lines on their way to one client (\<^verbatim>\<open>traverse/src/mux/outbox.rs\<close>, the limits in \<^verbatim>\<open>client/src/attachment.rs\<close>). A line
  that carries the whole of something may take the place of an earlier line of the same kind, but
  never across a line that is not replaceable. Updates of a terminal are replaced by its whole frame,
  which the outbox keeps beside the lines. An attachment whose limits are exceeded is closed.

  Lines are kept as the messages they encode, with the length of the encoding as an argument; the two
  forms of a replacement key, of a terminal and of an event, are a datatype.
\<close>

datatype replace_key = Terminal_Key u64 | Event_Key string

datatype terminal_event = Screen u64 terminal_frame | Change u64 terminal_delta

datatype 'x message = Reply 'x | Terminal "u64 option" terminal_event

datatype queue_policy = Unbounded | Disconnect nat nat nat

record 'x queued_line =
  li_text :: "'x message"
  li_replace :: "replace_key option"

record 'x out_box =
  mo_lines :: "'x queued_line list"
  mo_bytes :: nat
  mo_closed :: bool
  mo_terminals :: "(u64 \<times> terminal_frame) list"
  mo_input_closed :: bool
  mo_sending :: "'x queued_line list"

definition new_box :: "'x out_box" where
  "new_box = \<lparr>mo_lines = [], mo_bytes = 0, mo_closed = False, mo_terminals = [], mo_input_closed = False, mo_sending = []\<rparr>"

definition close_box :: "'x out_box \<Rightarrow> 'x out_box" where
  "close_box b = b\<lparr>mo_closed := True, mo_lines := [], mo_terminals := [], mo_bytes := 0, mo_input_closed := True\<rparr>"

definition forget_terminal :: "u64 \<Rightarrow> 'x out_box \<Rightarrow> 'x out_box" where
  "forget_terminal i b = b\<lparr>mo_terminals := AList.delete i (mo_terminals b)\<rparr>"

text \<open>The line a replacement takes the place of: the last of its key, with only replaceable lines after it.\<close>

definition replaced_line :: "replace_key \<Rightarrow> 'x queued_line list \<Rightarrow> nat option" where
  "replaced_line key lines = (case rposition (\<lambda>l. li_replace l = None \<or> li_replace l = Some key) lines of
     None \<Rightarrow> None
   | Some i \<Rightarrow> if li_replace (lines ! i) = Some key then Some i else None)"

definition over_limits :: "queue_policy \<Rightarrow> nat \<Rightarrow> nat \<Rightarrow> nat \<Rightarrow> bool" where
  "over_limits policy n bytes lines \<longleftrightarrow> (case policy of
     Unbounded \<Rightarrow> False
   | Disconnect max_line_bytes max_queued_bytes max_queued_messages \<Rightarrow>
       max_line_bytes < n \<or> max_queued_bytes < bytes + n \<or> max_queued_messages \<le> lines)"

definition send_line :: "('x message \<Rightarrow> nat) \<Rightarrow> queue_policy \<Rightarrow> 'x message \<Rightarrow> replace_key option \<Rightarrow> 'x out_box \<Rightarrow> 'x out_box" where
  "send_line len policy m r b = (if mo_closed b \<or> mo_input_closed b then b
   else (let b1 = (case r of
             None \<Rightarrow> b
           | Some key \<Rightarrow> (case replaced_line key (mo_lines b) of
               None \<Rightarrow> b
             | Some i \<Rightarrow> b\<lparr>mo_lines := take i (mo_lines b) @ drop (Suc i) (mo_lines b),
                 mo_bytes := mo_bytes b - len (li_text (mo_lines b ! i))\<rparr>))
     in if over_limits policy (len m) (mo_bytes b1) (length (mo_lines b1)) then close_box b1
        else b1\<lparr>mo_bytes := mo_bytes b1 + len m, mo_lines := mo_lines b1 @ [\<lparr>li_text = m, li_replace = r\<rparr>]\<rparr>))"

definition terminal_of :: "terminal_event \<Rightarrow> u64" where
  "terminal_of e = (case e of Screen i _ \<Rightarrow> i | Change i _ \<Rightarrow> i)"

text \<open>A bell or a clipboard must arrive in order.\<close>

definition ordered_event :: "terminal_event \<Rightarrow> bool" where
  "ordered_event e \<longleftrightarrow> (case e of Screen _ _ \<Rightarrow> False | Change _ d \<Rightarrow> td_bell d \<or> td_clipboard d \<noteq> None)"

definition note_terminal :: "terminal_event \<Rightarrow> (u64 \<times> terminal_frame) list \<Rightarrow> (u64 \<times> terminal_frame) list" where
  "note_terminal e ts = (case e of
     Screen i f \<Rightarrow> AList.update i f ts
   | Change i d \<Rightarrow> (case map_of ts i of Some f \<Rightarrow> AList.update i (frame_apply d f) ts | None \<Rightarrow> ts))"

definition terminal_key :: "u64 option \<Rightarrow> terminal_event \<Rightarrow> (u64 \<times> terminal_frame) list \<Rightarrow> replace_key option" where
  "terminal_key request e ts = (if request = None \<and> \<not> ordered_event e \<and> map_of ts (terminal_of e) \<noteq> None
     then Some (Terminal_Key (terminal_of e)) else None)"

definition waits_replaceable :: "replace_key \<Rightarrow> 'x queued_line list \<Rightarrow> bool" where
  "waits_replaceable key lines \<longleftrightarrow> (\<exists>l\<in>set (takeWhile (\<lambda>l. li_replace l \<noteq> None) (rev lines)). li_replace l = Some key)"

definition send_terminal ::
    "('x message \<Rightarrow> nat) \<Rightarrow> queue_policy \<Rightarrow> u64 option \<Rightarrow> terminal_event \<Rightarrow> 'x out_box \<Rightarrow> 'x out_box" where
  "send_terminal len policy request e b = (if mo_closed b then b
   else (let ts = note_terminal e (mo_terminals b);
             r = terminal_key request e ts;
             e1 = (case r of
                 Some key \<Rightarrow> if waits_replaceable key (mo_lines b) then Screen (terminal_of e) (the (map_of ts (terminal_of e))) else e
               | None \<Rightarrow> e)
     in send_line len policy (Terminal request e1) r (b\<lparr>mo_terminals := ts\<rparr>)))"

text \<open>The forwarding task takes the oldest line; it counts until the one-slot channel to the client has taken it. An outbox
  that is closed forwards nothing more.\<close>

definition take_line :: "'x out_box \<Rightarrow> 'x out_box" where
  "take_line b = (case mo_lines b of
     l # ls \<Rightarrow> if mo_closed b \<or> mo_sending b \<noteq> [] then b else b\<lparr>mo_lines := ls, mo_sending := [l]\<rparr>
   | [] \<Rightarrow> b)"

definition line_taken :: "('x message \<Rightarrow> nat) \<Rightarrow> 'x out_box \<Rightarrow> 'x out_box" where
  "line_taken len b = (case mo_sending b of
     l # ls \<Rightarrow> b\<lparr>mo_sending := ls, mo_bytes := if mo_closed b then mo_bytes b else mo_bytes b - len (li_text l)\<rparr>
   | [] \<Rightarrow> b)"

subsection \<open>What a client has seen\<close>

text \<open>A client keeps a frame for each terminal and the last value of each replaceable event; of every other
  message it notes the state in which it arrived.\<close>

record 'x view =
  vw_terminals :: "u64 \<Rightarrow> terminal_frame option"
  vw_values :: "string \<Rightarrow> 'x option"
  vw_seen :: "('x message \<times> (u64 \<Rightarrow> terminal_frame option) \<times> (string \<Rightarrow> 'x option)) list"

definition blank_view :: "'x view" where
  "blank_view = \<lparr>vw_terminals = (\<lambda>_. None), vw_values = (\<lambda>_. None), vw_seen = []\<rparr>"

definition show_terminal :: "terminal_event \<Rightarrow> (u64 \<Rightarrow> terminal_frame option) \<Rightarrow> u64 \<Rightarrow> terminal_frame option" where
  "show_terminal e ts = (case e of Screen i f \<Rightarrow> ts(i := Some f) | Change i d \<Rightarrow> ts(i := map_option (frame_apply d) (ts i)))"

definition see :: "'x message \<times> replace_key option \<Rightarrow> 'x view \<Rightarrow> 'x view" where
  "see l v = (
     let v1 = (case fst l of
         Terminal _ e \<Rightarrow> v\<lparr>vw_terminals := show_terminal e (vw_terminals v)\<rparr>
       | Reply x \<Rightarrow> (case snd l of Some (Event_Key k) \<Rightarrow> v\<lparr>vw_values := (vw_values v)(k := Some x)\<rparr> | _ \<Rightarrow> v))
     in (if snd l = None then v1\<lparr>vw_seen := vw_seen v1 @ [(fst l, vw_terminals v1, vw_values v1)]\<rparr> else v1))"

definition see_all :: "('x message \<times> replace_key option) list \<Rightarrow> 'x view \<Rightarrow> 'x view" where
  "see_all ls v = fold see ls v"

definition line_pair :: "'x queued_line \<Rightarrow> 'x message \<times> replace_key option" where
  "line_pair l = (li_text l, li_replace l)"

subsection \<open>Runs of an outbox\<close>

text \<open>Beside the outbox: what was offered to it, as it was offered, and what the client took.\<close>

datatype 'x box_input = Send 'x "string option" | Send_Terminal "u64 option" terminal_event | Forget u64
  | Forward | Taken | Input_Closed

record 'x box_run =
  br_box :: "'x out_box"
  br_offered :: "('x message \<times> replace_key option) list"
  br_got :: "('x message \<times> replace_key option) list"

definition box_start :: "'x box_run" where
  "box_start = \<lparr>br_box = new_box, br_offered = [], br_got = []\<rparr>"

definition box_step :: "('x message \<Rightarrow> nat) \<Rightarrow> queue_policy \<Rightarrow> 'x box_input \<Rightarrow> 'x box_run \<Rightarrow> 'x box_run" where
  "box_step len policy i s = (case i of
     Send x k \<Rightarrow> s\<lparr>br_box := send_line len policy (Reply x) (map_option Event_Key k) (br_box s),
       br_offered := br_offered s @ [(Reply x, map_option Event_Key k)]\<rparr>
   | Send_Terminal request e \<Rightarrow> s\<lparr>br_box := send_terminal len policy request e (br_box s),
       br_offered := br_offered s @ [(Terminal request e, terminal_key request e (note_terminal e (mo_terminals (br_box s))))]\<rparr>
   | Forget t \<Rightarrow> s\<lparr>br_box := forget_terminal t (br_box s)\<rparr>
   | Forward \<Rightarrow> s\<lparr>br_box := take_line (br_box s)\<rparr>
   | Taken \<Rightarrow> s\<lparr>br_box := line_taken len (br_box s), br_got := br_got s @ map line_pair (take 1 (mo_sending (br_box s)))\<rparr>
   | Input_Closed \<Rightarrow> s\<lparr>br_box := (br_box s)\<lparr>mo_input_closed := True\<rparr>\<rparr>)"

definition box_run :: "('x message \<Rightarrow> nat) \<Rightarrow> queue_policy \<Rightarrow> 'x box_input list \<Rightarrow> 'x box_run" where
  "box_run len policy is = fold (box_step len policy) is box_start"

text \<open>What is still to be taken.\<close>

definition to_come :: "'x out_box \<Rightarrow> ('x message \<times> replace_key option) list" where
  "to_come b = map line_pair (mo_sending b @ mo_lines b)"

end
