(* ===== verification/Mux_Laws.thy ===== *)
theory Mux_Laws
  imports Mux_Outbox
begin

section \<open>Replacing lines is invisible\<close>

text \<open>
  A client that takes the lines of an outbox that merged some of them ends in the state it would be in
  had it taken every line offered, and each line that is not replaceable reaches it in order and in
  the same state as without merging. The limits hold of what waits.
\<close>

lemma rposition_Some:
  assumes "rposition P xs = Some i"
  shows "xs = take i xs @ xs ! i # drop (Suc i) xs" "P (xs ! i)" "\<forall>x\<in>set (drop (Suc i) xs). \<not> P x"
proof -
  from assms obtain j where j: "position P (rev xs) = Some j" "i = length xs - 1 - j" by (auto simp: rposition_def)
  then have len: "j < length xs" and at: "P (rev xs ! j)" and before: "\<forall>k<j. \<not> P (rev xs ! k)"
    by (auto simp: position_Some_iff)
  then show "xs = take i xs @ xs ! i # drop (Suc i) xs" using j(2) by (intro id_take_nth_drop) simp
  show "P (xs ! i)" using at len j(2) by (simp add: rev_nth)
  show "\<forall>x\<in>set (drop (Suc i) xs). \<not> P x"
  proof
    fix x assume "x \<in> set (drop (Suc i) xs)"
    then obtain n where n: "n < length xs - Suc i" "x = xs ! (Suc i + n)" by (auto simp: in_set_conv_nth)
    define k where "k = length xs - 1 - (Suc i + n)"
    have "k < j" "k < length xs" "length xs - Suc k = Suc i + n" using n(1) j(2) len by (auto simp: k_def)
    then have "rev xs ! k = x" using n(2) by (simp add: rev_nth)
    then show "\<not> P x" using before \<open>k < j\<close> by auto
  qed
qed

lemma rposition_None: "rposition P xs = None \<longleftrightarrow> (\<forall>x\<in>set xs. \<not> P x)"
  by (simp add: rposition_def position_None_iff)

lemma replaced_line_Some:
  assumes "replaced_line key lines = Some i"
  shows "lines = take i lines @ lines ! i # drop (Suc i) lines" "li_replace (lines ! i) = Some key"
    and "\<forall>l\<in>set (drop (Suc i) lines). li_replace l \<noteq> None"
proof -
  let ?P = "\<lambda>l. li_replace l = None \<or> li_replace l = Some key"
  from assms have i: "rposition ?P lines = Some i" and key: "li_replace (lines ! i) = Some key"
    by (auto simp: replaced_line_def split: option.splits if_splits)
  show "lines = take i lines @ lines ! i # drop (Suc i) lines" using rposition_Some(1) [OF i] .
  show "li_replace (lines ! i) = Some key" by fact
  show "\<forall>l\<in>set (drop (Suc i) lines). li_replace l \<noteq> None" using rposition_Some(3) [OF i] by auto
qed

lemma takeWhile_rev_split:
  assumes "\<forall>x\<in>set ys. P x"
  shows "takeWhile P (rev (xs @ x # ys)) = rev ys @ (if P x then x # takeWhile P (rev xs) else [])"
proof -
  have "takeWhile P (rev ys @ zs) = rev ys @ takeWhile P zs" for zs using assms by (intro takeWhile_append2) simp
  then show ?thesis by simp
qed

lemma waits_replaceable_iff: "waits_replaceable key lines \<longleftrightarrow> replaced_line key lines \<noteq> None"
proof -
  let ?P = "\<lambda>l. li_replace l = None \<or> li_replace l = Some key"
  show ?thesis
  proof (cases "rposition ?P lines")
    case None
    then have "\<not> waits_replaceable key lines"
      by (auto simp: rposition_None waits_replaceable_def dest: set_takeWhileD)
    with None show ?thesis by (simp add: replaced_line_def)
  next
    case (Some i)
    note split = rposition_Some [OF Some]
    have rest: "\<forall>l\<in>set (drop (Suc i) lines). li_replace l \<noteq> None \<and> li_replace l \<noteq> Some key" using split(3) by auto
    have "takeWhile (\<lambda>l. li_replace l \<noteq> None) (rev lines) = rev (drop (Suc i) lines)
        @ (if li_replace (lines ! i) \<noteq> None then lines ! i # takeWhile (\<lambda>l. li_replace l \<noteq> None) (rev (take i lines)) else [])"
      by (subst split(1), rule takeWhile_rev_split) (use rest in blast)
    then have "waits_replaceable key lines \<longleftrightarrow> li_replace (lines ! i) = Some key"
      using split(2) rest by (auto simp: waits_replaceable_def)
    with Some show ?thesis by (simp add: replaced_line_def)
  qed
qed

subsection \<open>States that differ in one key\<close>

definition agree :: "replace_key \<Rightarrow> 'x view \<Rightarrow> 'x view \<Rightarrow> bool" where
  "agree key v w \<longleftrightarrow> vw_seen v = vw_seen w \<and> (case key of
     Terminal_Key t \<Rightarrow> vw_values v = vw_values w \<and> (\<forall>u. u \<noteq> t \<longrightarrow> vw_terminals v u = vw_terminals w u)
   | Event_Key k \<Rightarrow> vw_terminals v = vw_terminals w \<and> (\<forall>j. j \<noteq> k \<longrightarrow> vw_values v j = vw_values w j))"

definition key_fits :: "'x message \<times> replace_key option \<Rightarrow> bool" where
  "key_fits l \<longleftrightarrow> (case snd l of
     None \<Rightarrow> True
   | Some (Terminal_Key t) \<Rightarrow> (\<exists>request e. fst l = Terminal request e \<and> terminal_of e = t)
   | Some (Event_Key k) \<Rightarrow> (\<exists>x. fst l = Reply x))"

text \<open>A message that says all there is of its key.\<close>

definition overwrites :: "'x message \<times> replace_key option \<Rightarrow> bool" where
  "overwrites l \<longleftrightarrow> (case snd l of
     Some (Terminal_Key t) \<Rightarrow> (\<exists>request f. fst l = Terminal request (Screen t f))
   | Some (Event_Key k) \<Rightarrow> (\<exists>x. fst l = Reply x)
   | None \<Rightarrow> False)"

lemma agree_see:
  assumes "agree key v w" "snd l \<noteq> None"
  shows "agree key (see l v) (see l w)"
proof (cases "fst l")
  case (Reply x)
  then show ?thesis using assms by (auto simp: agree_def see_def Let_def split: replace_key.splits option.splits)
next
  case (Terminal request e)
  then show ?thesis using assms
    by (auto simp: agree_def see_def Let_def show_terminal_def split: replace_key.splits terminal_event.splits)
qed

lemma agree_see_all: "agree key v w \<Longrightarrow> \<forall>l\<in>set ls. snd l \<noteq> None \<Longrightarrow> agree key (see_all ls v) (see_all ls w)"
  unfolding see_all_def by (induction ls arbitrary: v w) (simp_all add: agree_see)

lemma agree_drop: "key_fits (m, Some key) \<Longrightarrow> agree key (see (m, Some key) v) v"
proof (cases key)
  case (Terminal_Key t)
  moreover assume "key_fits (m, Some key)"
  ultimately obtain request e where "m = Terminal request e" "terminal_of e = t" by (auto simp: key_fits_def)
  then show ?thesis using Terminal_Key
    by (cases e) (simp_all add: agree_def see_def Let_def show_terminal_def terminal_of_def)
next
  case (Event_Key k)
  moreover assume "key_fits (m, Some key)"
  ultimately obtain x where "m = Reply x" by (auto simp: key_fits_def)
  then show ?thesis using Event_Key by (simp add: agree_def see_def Let_def)
qed

lemma overwrite_agrees:
  assumes "agree key v w" "overwrites (m, Some key)"
  shows "see (m, Some key) v = see (m, Some key) w"
proof (cases key)
  case (Terminal_Key t)
  with assms obtain request f where "m = Terminal request (Screen t f)" by (auto simp: overwrites_def)
  moreover have "(vw_terminals v)(t := Some f) = (vw_terminals w)(t := Some f)"
    using assms(1) by (auto simp: Terminal_Key agree_def)
  ultimately show ?thesis using assms(1) by (simp add: see_def Let_def Terminal_Key agree_def show_terminal_def)
next
  case (Event_Key k)
  with assms obtain x where "m = Reply x" by (auto simp: overwrites_def)
  moreover have "(vw_values v)(k := Some x) = (vw_values w)(k := Some x)"
    using assms(1) by (auto simp: Event_Key agree_def)
  ultimately show ?thesis using assms(1) by (simp add: see_def Let_def Event_Key agree_def)
qed

lemma see_all_append: "see_all (xs @ ys) v = see_all ys (see_all xs v)"
  by (simp add: see_all_def)

text \<open>Taking a line out and adding one that overwrites it at the end.\<close>

lemma replacing_is_invisible:
  assumes "key_fits (old, Some key)" "overwrites (m, Some key)" "\<forall>l\<in>set rest. snd l \<noteq> None"
  shows "see_all (before @ rest @ [(m, Some key)]) v = see_all (before @ (old, Some key) # rest @ [(m, Some key)]) v"
proof -
  let ?v = "see_all before v"
  have "agree key (see_all rest (see (old, Some key) ?v)) (see_all rest ?v)"
    by (rule agree_see_all [OF agree_drop [OF assms(1)] assms(3)])
  from overwrite_agrees [OF this assms(2)] show ?thesis by (simp add: see_all_append) (simp add: see_all_def)
qed

subsection \<open>The invariant of a run\<close>

definition queued_bytes :: "('x message \<Rightarrow> nat) \<Rightarrow> 'x queued_line list \<Rightarrow> nat" where
  "queued_bytes len ls = sum_list (map (\<lambda>l. len (li_text l)) ls)"

definition within_limits :: "queue_policy \<Rightarrow> 'x out_box \<Rightarrow> bool" where
  "within_limits policy b \<longleftrightarrow> (case policy of Unbounded \<Rightarrow> True
     | Disconnect line_bytes bytes messages \<Rightarrow> mo_bytes b \<le> bytes \<and> length (mo_lines b) \<le> messages)"

definition dead :: "'x out_box \<Rightarrow> bool" where
  "dead b \<longleftrightarrow> mo_closed b \<or> mo_input_closed b"

definition box_ok :: "('x message \<Rightarrow> nat) \<Rightarrow> queue_policy \<Rightarrow> 'x box_run \<Rightarrow> bool" where
  "box_ok len policy s \<longleftrightarrow> (let b = br_box s; now = see_all (br_offered s) blank_view in
     see_all (br_got s @ to_come b) blank_view = now
     \<and> (\<forall>t f. map_of (mo_terminals b) t = Some f \<longrightarrow> vw_terminals now t = Some f)
     \<and> (\<forall>l\<in>set (mo_lines b). key_fits (line_pair l))
     \<and> mo_bytes b = queued_bytes len (mo_sending b @ mo_lines b)
     \<and> within_limits policy b)"

lemma dead_stays: "dead (br_box s) \<Longrightarrow> dead (br_box (box_step len policy i s))"
  by (cases i) (auto simp: box_step_def dead_def send_line_def send_terminal_def forget_terminal_def take_line_def line_taken_def
      Let_def split: list.split)

text \<open>Sending one line: \<open>m0\<close> is what was offered, \<open>m\<close> what is queued. If a line is replaced, what is queued must
  say all there is of its key.\<close>

lemma send_line_ok:
  assumes live: "\<not> dead b"
    and view: "see_all (got @ to_come b) blank_view = now0" and same: "see (m, r) now0 = see (m0, r) now0"
    and fits: "\<forall>l\<in>set (mo_lines b). key_fits (line_pair l)" "key_fits (m, r)"
    and over: "\<And>key i. r = Some key \<Longrightarrow> replaced_line key (mo_lines b) = Some i \<Longrightarrow> overwrites (m, r)"
    and bytes: "mo_bytes b = queued_bytes len (mo_sending b @ mo_lines b)" and lim: "within_limits policy b"
  defines "b' \<equiv> send_line len policy m r b"
  shows "dead b' \<or> see_all (got @ to_come b') blank_view = see (m0, r) now0 \<and> (\<forall>l\<in>set (mo_lines b'). key_fits (line_pair l))
    \<and> mo_bytes b' = queued_bytes len (mo_sending b' @ mo_lines b') \<and> within_limits policy b' \<and> mo_terminals b' = mo_terminals b"
proof -
  define b1 where "b1 = (case r of
             None \<Rightarrow> b
           | Some key \<Rightarrow> (case replaced_line key (mo_lines b) of
               None \<Rightarrow> b
             | Some i \<Rightarrow> b\<lparr>mo_lines := take i (mo_lines b) @ drop (Suc i) (mo_lines b),
                 mo_bytes := mo_bytes b - len (li_text (mo_lines b ! i))\<rparr>))"
  have b': "b' = (if over_limits policy (len m) (mo_bytes b1) (length (mo_lines b1)) then close_box b1
        else b1\<lparr>mo_bytes := mo_bytes b1 + len m, mo_lines := mo_lines b1 @ [\<lparr>li_text = m, li_replace = r\<rparr>]\<rparr>)"
    using live by (simp add: b'_def send_line_def b1_def dead_def Let_def)
  have added: "see_all ((got @ to_come b) @ [(m, r)]) blank_view = see (m0, r) now0"
    unfolding see_all_append [of "got @ to_come b"] view using same by (simp add: see_all_def)
  have one: "see_all ((got @ to_come b1) @ [(m, r)]) blank_view = see (m0, r) now0
    \<and> set (mo_lines b1) \<subseteq> set (mo_lines b) \<and> mo_bytes b1 = queued_bytes len (mo_sending b1 @ mo_lines b1)
    \<and> mo_terminals b1 = mo_terminals b"
  proof (cases "\<exists>key i. r = Some key \<and> replaced_line key (mo_lines b) = Some i")
    case False
    then have "b1 = b" by (auto simp: b1_def split: option.splits)
    then show ?thesis using added bytes by simp
  next
    case True
    then obtain key i where key: "r = Some key" "replaced_line key (mo_lines b) = Some i" by blast
    note split = replaced_line_Some [OF key(2)]
    let ?old = "mo_lines b ! i" and ?A = "take i (mo_lines b)" and ?B = "drop (Suc i) (mo_lines b)"
    have b1: "b1 = b\<lparr>mo_lines := ?A @ ?B, mo_bytes := mo_bytes b - len (li_text ?old)\<rparr>" using key by (simp add: b1_def)
    have old: "line_pair ?old = (li_text ?old, Some key)" using split(2) by (simp add: line_pair_def)
    have come: "to_come b = map line_pair (mo_sending b @ ?A) @ line_pair ?old # map line_pair ?B"
      unfolding to_come_def by (subst split(1)) simp
    have "?old \<in> set (mo_lines b)" by (subst split(1)) simp
    then have "key_fits (li_text ?old, Some key)" using fits(1) old by auto
    moreover have "overwrites (m, Some key)" using over [OF key] key(1) by simp
    moreover have "\<forall>l\<in>set (map line_pair ?B). snd l \<noteq> None" using split(3) by (auto simp: line_pair_def)
    ultimately have "see_all ((got @ map line_pair (mo_sending b @ ?A)) @ map line_pair ?B @ [(m, Some key)]) blank_view
      = see_all ((got @ map line_pair (mo_sending b @ ?A)) @ (li_text ?old, Some key) # map line_pair ?B @ [(m, Some key)]) blank_view"
      by (rule replacing_is_invisible)
    also have "\<dots> = see_all ((got @ to_come b) @ [(m, r)]) blank_view" by (simp add: come old key(1))
    also have "\<dots> = see (m0, r) now0" by (rule added)
    finally have "see_all ((got @ to_come b1) @ [(m, r)]) blank_view = see (m0, r) now0"
      by (simp add: b1 to_come_def key(1))
    moreover have "queued_bytes len (mo_lines b) = queued_bytes len (?A @ ?B) + len (li_text ?old)"
      by (subst split(1)) (simp add: queued_bytes_def)
    then have "mo_bytes b1 = queued_bytes len (mo_sending b1 @ mo_lines b1)"
      using bytes by (simp add: b1 queued_bytes_def)
    ultimately show ?thesis by (auto simp: b1 dest: in_set_takeD in_set_dropD)
  qed
  show ?thesis
  proof (cases "over_limits policy (len m) (mo_bytes b1) (length (mo_lines b1))")
    case True
    then show ?thesis by (simp add: b' dead_def close_box_def)
  next
    case False
    then have "b' = b1\<lparr>mo_bytes := mo_bytes b1 + len m, mo_lines := mo_lines b1 @ [\<lparr>li_text = m, li_replace = r\<rparr>]\<rparr>" by (simp add: b')
    moreover have "within_limits policy (b1\<lparr>mo_bytes := mo_bytes b1 + len m, mo_lines := mo_lines b1 @ [\<lparr>li_text = m, li_replace = r\<rparr>]\<rparr>)"
      using False by (auto simp: over_limits_def within_limits_def split: queue_policy.splits)
    ultimately show ?thesis using one fits
      by (auto simp: to_come_def queued_bytes_def line_pair_def)
  qed
qed

lemma note_terminal_seen:
  assumes "\<forall>t f. map_of ts t = Some f \<longrightarrow> shown t = Some f" "map_of (note_terminal e ts) t = Some f"
  shows "show_terminal e shown t = Some f"
  using assms by (cases e) (auto simp: note_terminal_def show_terminal_def AList.update_conv' split: option.splits if_splits)

lemma vw_terminals_see [simp]:
  "vw_terminals (see (Terminal request e, r) v) = show_terminal e (vw_terminals v)"
  "vw_terminals (see (Reply x, r) v) = vw_terminals v"
  by (simp_all add: see_def Let_def split: option.split replace_key.split)

lemma see_same_terminal:
  assumes "show_terminal e1 (vw_terminals v) = show_terminal e (vw_terminals v)" "r \<noteq> None"
  shows "see (Terminal request e1, r) v = see (Terminal request e, r) v"
  using assms by (auto simp: see_def Let_def)

lemma box_step_ok:
  assumes ok: "box_ok len policy s" and live: "\<not> dead (br_box s)"
  shows "dead (br_box (box_step len policy i s)) \<or> box_ok len policy (box_step len policy i s)"
proof -
  let ?b = "br_box s" and ?now = "see_all (br_offered s) blank_view"
  have view: "see_all (br_got s @ to_come ?b) blank_view = ?now"
    and noted: "\<forall>t f. map_of (mo_terminals ?b) t = Some f \<longrightarrow> vw_terminals ?now t = Some f"
    and fits: "\<forall>l\<in>set (mo_lines ?b). key_fits (line_pair l)"
    and bytes: "mo_bytes ?b = queued_bytes len (mo_sending ?b @ mo_lines ?b)" and lim: "within_limits policy ?b"
    using ok by (simp_all add: box_ok_def Let_def)
  show ?thesis
  proof (cases i)
    case (Send x k)
    have fits': "key_fits (Reply x, map_option Event_Key k)" by (cases k) (simp_all add: key_fits_def)
    have over: "overwrites (Reply x, map_option Event_Key k)" if "map_option Event_Key k = Some key" for key
      using that by (auto simp: overwrites_def)
    note step = send_line_ok [OF live view refl fits fits' over bytes lim]
    then show ?thesis using noted
      by (auto simp: Send box_step_def box_ok_def Let_def see_all_append see_all_def [of "[_]"] overwrites_def)
  next
    case (Send_Terminal request e)
    define ts where "ts = note_terminal e (mo_terminals ?b)"
    define r where "r = terminal_key request e ts"
    let ?t = "terminal_of e"
    define e1 where "e1 = (case r of Some key \<Rightarrow> if waits_replaceable key (mo_lines ?b) then Screen ?t (the (map_of ts ?t)) else e | None \<Rightarrow> e)"
    let ?b1 = "?b\<lparr>mo_terminals := ts\<rparr>"
    have sent: "send_terminal len policy request e ?b = send_line len policy (Terminal request e1) r ?b1"
      unfolding send_terminal_def Let_def e1_def r_def ts_def using live by (simp add: dead_def)
    have key: "r = Some (Terminal_Key ?t) \<and> map_of ts ?t \<noteq> None" if "r \<noteq> None"
      using that by (auto simp: r_def terminal_key_def split: if_splits)
    have noted': "\<forall>t f. map_of ts t = Some f \<longrightarrow> show_terminal e (vw_terminals ?now) t = Some f"
      using note_terminal_seen [OF noted] by (simp add: ts_def)
    have same: "see (Terminal request e1, r) ?now = see (Terminal request e, r) ?now"
    proof (cases "e1 = e")
      case False
      then have r: "r \<noteq> None" and e1: "e1 = Screen ?t (the (map_of ts ?t))"
        by (auto simp: e1_def split: option.splits if_splits)
      then obtain f where f: "map_of ts ?t = Some f" using key by auto
      then have "show_terminal e (vw_terminals ?now) ?t = Some f" using noted' by blast
      then have "show_terminal e (vw_terminals ?now) = (vw_terminals ?now)(?t := Some f)"
        by (cases e) (auto simp: show_terminal_def terminal_of_def)
      then have "show_terminal e1 (vw_terminals ?now) = show_terminal e (vw_terminals ?now)"
        by (simp add: e1 f) (simp add: show_terminal_def)
      with r show ?thesis by (rule see_same_terminal [rotated])
    qed simp
    have fits': "key_fits (Terminal request e1, r)"
    proof (cases "r = None")
      case False
      with key have "r = Some (Terminal_Key ?t)" by simp
      moreover have "terminal_of e1 = ?t" by (auto simp: e1_def terminal_of_def split: option.splits)
      ultimately show ?thesis by (simp add: key_fits_def)
    qed (simp add: key_fits_def)
    have over: "overwrites (Terminal request e1, r)" if "r = Some k" "replaced_line k (mo_lines ?b1) = Some j" for k j
    proof -
      have "waits_replaceable k (mo_lines ?b)" using that(2) by (simp add: waits_replaceable_iff)
      then have "e1 = Screen ?t (the (map_of ts ?t))" by (simp add: e1_def that(1))
      then show ?thesis using key that(1) by (simp add: overwrites_def)
    qed
    have come: "to_come ?b1 = to_come ?b" by (simp add: to_come_def)
    have "within_limits policy ?b1" using lim by (simp add: within_limits_def split: queue_policy.splits)
    note step = send_line_ok [where b = ?b1, OF _ _ same _ fits' over _ this, unfolded come, OF _ view]
    have "dead (br_box (box_step len policy i s)) \<or> (see_all (br_got s @ to_come (send_line len policy (Terminal request e1) r ?b1)) blank_view
        = see (Terminal request e, r) ?now \<and> (\<forall>l\<in>set (mo_lines (send_line len policy (Terminal request e1) r ?b1)). key_fits (line_pair l))
      \<and> mo_bytes (send_line len policy (Terminal request e1) r ?b1) = queued_bytes len (mo_sending (send_line len policy (Terminal request e1) r ?b1)
          @ mo_lines (send_line len policy (Terminal request e1) r ?b1)) \<and> within_limits policy (send_line len policy (Terminal request e1) r ?b1)
      \<and> mo_terminals (send_line len policy (Terminal request e1) r ?b1) = ts)"
      using step live fits bytes by (simp add: dead_def Send_Terminal box_step_def sent)
    then show ?thesis using noted' sent
      by (auto simp: Send_Terminal box_step_def box_ok_def Let_def see_all_append see_all_def [of "[_]"] r_def ts_def)
  next
    case (Forget t)
    have "map_of (AList.delete t (mo_terminals ?b)) u = Some f \<Longrightarrow> map_of (mo_terminals ?b) u = Some f" for u f
      by (simp add: AList.delete_conv' split: if_splits)
    then show ?thesis using ok by (auto simp: Forget box_step_def box_ok_def Let_def forget_terminal_def to_come_def within_limits_def
        split: queue_policy.splits)
  next
    case Forward
    show ?thesis
    proof (cases "mo_lines ?b = [] \<or> mo_sending ?b \<noteq> []")
      case True
      then show ?thesis using ok by (auto simp: Forward box_step_def take_line_def split: list.splits)
    next
      case False
      then obtain l ls where l: "mo_lines ?b = l # ls" "mo_sending ?b = []" by (cases "mo_lines ?b") auto
      then have "take_line ?b = ?b\<lparr>mo_lines := ls, mo_sending := [l]\<rparr>" using live by (simp add: take_line_def dead_def)
      then show ?thesis using view noted fits bytes lim l
        by (auto simp: Forward box_step_def box_ok_def Let_def to_come_def within_limits_def queued_bytes_def split: queue_policy.splits)
    qed
  next
    case Taken
    show ?thesis
    proof (cases "mo_sending ?b")
      case Nil
      then show ?thesis using ok by (simp add: Taken box_step_def line_taken_def)
    next
      case (Cons l ls)
      then have "line_taken len ?b = ?b\<lparr>mo_sending := ls, mo_bytes := mo_bytes ?b - len (li_text l)\<rparr>"
        using live by (simp add: line_taken_def dead_def)
      then show ?thesis using view noted fits bytes lim Cons
        by (auto simp: Taken box_step_def box_ok_def Let_def to_come_def within_limits_def queued_bytes_def split: queue_policy.splits)
    qed
  next
    case Input_Closed
    then show ?thesis by (simp add: box_step_def dead_def)
  qed
qed

lemma box_run_ok: "dead (br_box (box_run len policy is)) \<or> box_ok len policy (box_run len policy is)"
proof (induction "is" rule: rev_induct)
  case Nil
  then show ?case
    by (simp add: box_run_def box_start_def new_box_def box_ok_def to_come_def queued_bytes_def within_limits_def split: queue_policy.split)
next
  case (snoc i "is")
  have "box_run len policy (is @ [i]) = box_step len policy i (box_run len policy is)" by (simp add: box_run_def)
  then show ?case using snoc box_step_ok dead_stays by metis
qed

text \<open>C17: Merging is invisible. Whatever is offered to the outbox of an attachment that is still open and
  however its forwarding task keeps up, the lines the client took and those still to come leave it with
  the terminals, the values and the notes it would have had from every line as it was offered: each
  reply and each bell arrives, in order, in the same state. The bytes accounted for are those of the
  lines that wait, and they and their number respect the limits.\<close>

theorem merging_lines_is_invisible:
  "let s = box_run len policy is; b = br_box s in
     mo_closed b \<or> mo_input_closed b \<or>
     (see_all (br_got s @ to_come b) blank_view = see_all (br_offered s) blank_view
      \<and> mo_bytes b = sum_list (map (\<lambda>l. len (li_text l)) (mo_sending b @ mo_lines b))
      \<and> (case policy of Unbounded \<Rightarrow> True
          | Disconnect line_bytes bytes messages \<Rightarrow> mo_bytes b \<le> bytes \<and> length (mo_lines b) \<le> messages))"
  using box_run_ok [of len policy "is"]
  by (auto simp: box_ok_def dead_def Let_def queued_bytes_def within_limits_def)

text \<open>Two updates of one terminal wait as one frame, a bell in between keeps its place.\<close>

definition demo_change :: "string \<Rightarrow> bool \<Rightarrow> terminal_delta" where
  "demo_change title bell = \<lparr>td_cols = 2, td_rows = 0, td_modes = no_modes, td_cursor = None, td_lines_evicted = 0, td_styles = [],
     td_rows_replaced = [], td_history = None, td_title = Some title, td_working_directory = None, td_exit = None,
     td_bell = bell, td_clipboard = None\<rparr>"

lemma updates_wait_as_one_frame:
  "map line_pair (mo_lines (br_box (box_run (\<lambda>_ :: unit message. 1) Unbounded
     [Send_Terminal (Some 3) (Screen 7 default_frame), Send_Terminal None (Change 7 (demo_change ''a'' False)),
      Send_Terminal None (Change 7 (demo_change ''b'' False)), Send_Terminal None (Change 7 (demo_change ''c'' True))])))
   = (let f = frame_apply (demo_change ''b'' False) (frame_apply (demo_change ''a'' False) default_frame) in
      [(Terminal (Some 3) (Screen 7 default_frame), None), (Terminal None (Screen 7 f), Some (Terminal_Key 7)),
       (Terminal None (Change 7 (demo_change ''c'' True)), None)])"
  by code_simp

end
