(* ===== verification/Spec2Isabelle.thy ===== *)
theory Spec2Isabelle
  imports Prelude Agent_Events Tool_Clock Turn_Boundaries Git_Actions Timeline Entry_Index
    Timeline_Correct Timeline_Laws Turn_Snapshots Snapshot_Drops Session_Log Pull_Requests
    PR_Groups Review_Drafts PR_Watch
    Session_Meta Thread_Order Settlement
    Control_Grants Control_Ops Control_Access Control_Store Control_Calls Control_Laws
    Control_Moves Control_Move_Laws
    Strings Provider_Caps Relay Message_Queue Message_Laws Session_Runtime Dispatch_Laws Runtime_Laws
    Session_Commands Command_Laws
    Json_Values Outgoing Client_Link Commands Delivery Keyed_Commands Exactly_Once
    Terminal_Frames Terminal_Projection Terminal_Replica Mux_Outbox Mux_Laws
begin

text \<open>
  Tcode is a desktop client for coding agents. A host (\<^verbatim>\<open>crates/runtime\<close>) drives agent processes
  through provider adapters (\<^verbatim>\<open>crates/agent\<close>), stores what they report as an append-only log of events
  per session, folds the log into timelines that clients render (\<^verbatim>\<open>crates/core\<close>), and offers the
  models a control surface over the host's threads (\<^verbatim>\<open>crates/control-mcp\<close>). This development models
  the state these parts share and the functions that change it: the event vocabulary, the fold and
  what is derived beside it, the queue and the handlers of an open session, pull requests of a thread,
  metadata of threads, their order and settlement, and the grants and calls of the control surface. Files below are under \<^verbatim>\<open>src/crates/\<close>.

  \<^bold>\<open>How to read the model.\<close> A struct is a record whose fields carry a short prefix, an enum a
  datatype, a method a function that takes the state and returns the new one. A \<open>u64\<close> or \<open>u32\<close> is a
  word of that width, saturating and wrapping where the code is; an index or length of the standard
  library is a natural number. A string is the list of its UTF-8 bytes. A panic (an index out of
  range, an \<open>expect\<close>, a subtraction below zero) is the value \<^const>\<open>None\<close> of an option; an error the
  code returns is \<open>Inl\<close> of a sum. \<open>serde_json::Value\<close> is the type variable \<open>'j\<close>. A hash map is a map,
  or an association list where the model needs it finite. What is read from a clock or drawn at
  random is an argument, and so is code outside the repository: the RFC 3339 parser of \<open>chrono\<close>,
  the serde decoder, the Unicode lower case of a login, arithmetic in \<open>f64\<close>.

  \<^bold>\<open>The session.\<close>
  \<^item> \<open>Prelude\<close>: machine integers, slices, decimal numbers, white space, partial folds.
  \<^item> \<open>Agent_Events\<close> (\<^verbatim>\<open>agent/src/lib.rs\<close>): \<open>AgentEvent\<close> and everything an event carries.
  \<^item> \<open>Turn_Boundaries\<close> (\<^verbatim>\<open>core/src/session/boundaries.rs\<close>): which turn a record belongs to. Its locale
    \<open>turn_policy\<close> is what the fold and the appending path rely on.
  \<^item> \<open>Tool_Clock\<close> (\<^verbatim>\<open>core/src/session.rs\<close>): the time of a turn spent in tools, equal to the size of the
    union of the intervals in which a tool ran, from the first event of the turn to its completion; and
    exactly when it is withheld.
  \<^item> \<open>Git_Actions\<close> (\<^verbatim>\<open>core/src/git.rs\<close>): merging file changes by path; which git action is offered.
  \<^item> \<open>Timeline\<close>, \<open>Entry_Index\<close>, \<open>Timeline_Correct\<close>, \<open>Timeline_Laws\<close> (\<^verbatim>\<open>core/src/session.rs\<close>): \<open>apply_at\<close>
    and every function it calls; the lookup cache equals a linear search; the invariant, that no log
    makes the fold panic, and that the appending path and the fold agree; laws of single operations.
  \<^item> \<open>Turn_Snapshots\<close>, \<open>Snapshot_Drops\<close> (\<^verbatim>\<open>core/src/session/superseded.rs\<close>): which recorded diff a later
    one supersedes; a log whose superseded diffs were dropped folds to the same timeline.
  \<^item> \<open>Session_Log\<close> (\<^verbatim>\<open>runtime/src/app/history.rs\<close>): the resident log refines the fold of its records.

  \<^bold>\<open>The host around a session.\<close>
  \<^item> \<open>Strings\<close>: the operations of \<open>str\<close> that messages are written with, on UTF-8 bytes.
  \<^item> \<open>Provider_Caps\<close> (\<^verbatim>\<open>agent/src/lib.rs\<close>, \<^verbatim>\<open>context_window.rs\<close>): what each provider can do, its permission
    control, the context window option; the accessors of a JSON value are the record \<open>json\<close>.
  \<^item> \<open>Relay\<close> (\<^verbatim>\<open>core/src/relay.rs\<close>): the transcript a fresh provider session gets, and its bound.
  \<^item> \<open>Message_Queue\<close>, \<open>Message_Laws\<close> (\<^verbatim>\<open>runtime/src/app/active_session.rs\<close>): the state of an open session
    and every operation on its queue; over any history of them each message is committed, dropped or
    still queued, exactly one of the three, and due messages are delivered in order.
  \<^item> \<open>Session_Runtime\<close> (\<^verbatim>\<open>runtime/src/app/events.rs\<close>, \<^verbatim>\<open>send.rs\<close>, \<^verbatim>\<open>lifecycle.rs\<close>, \<^verbatim>\<open>orchestrate.rs\<close>): the handlers of
    the host on a session together with what leaves it (\<open>hosted\<close>).
  \<^item> \<open>Dispatch_Laws\<close>, \<open>Runtime_Laws\<close>: the locale \<open>dispatch_invariant\<close> carries a property through a
    dispatch, however it nests; with nothing due before it and nothing that refuses or defers it, a message
    sent to a sleeping session is delivered; it goes to a provider with the thread's settings and is
    logged once; a rejected steer of an open conversation is queued again.
  \<^item> \<open>Session_Commands\<close>, \<open>Command_Laws\<close> (\<^verbatim>\<open>send.rs\<close>, \<^verbatim>\<open>options.rs\<close>, \<^verbatim>\<open>command_validation.rs\<close>): what a client
    does to a session; the hand-over to another provider. Several laws of these two groups say
    where the code loses a message, a transcript or a turn; they are the findings of the development.

  \<^bold>\<open>Pull requests of a thread.\<close>
  \<^item> \<open>Pull_Requests\<close>, \<open>PR_Groups\<close>, \<open>Review_Drafts\<close> (\<^verbatim>\<open>core/src/pull_request.rs\<close>): links and native
    stacks, with what a sync of a stack does to the links (\<^verbatim>\<open>runtime/src/app/pull_requests.rs\<close>); the groups a thread shows, which place every visible link; drafts of reviews.
  \<^item> \<open>PR_Watch\<close> (\<^verbatim>\<open>core/src/pull_request_watch.rs\<close>): what a look at a pull request tells its agent, and
    that nothing is told twice.

  \<^bold>\<open>Threads.\<close>
  \<^item> \<open>Session_Meta\<close> (\<^verbatim>\<open>core/src/project.rs\<close>): the index entry of a thread; the sharing index answers
    what a scan of all threads would; descendants; the migration that gives every thread a project.
  \<^item> \<open>Thread_Order\<close> (\<^verbatim>\<open>core/src/thread_sort.rs\<close>): one total order of threads; a key strictly between
    any two ordered keys; what a move writes.
  \<^item> \<open>Settlement\<close> (\<^verbatim>\<open>core/src/settlement.rs\<close>): the activity clocks and when a thread settles by itself.

  \<^bold>\<open>The control surface.\<close>
  \<^item> \<open>Control_Grants\<close> (\<^verbatim>\<open>core/src/control.rs\<close>): scopes, tiers, categories. The locale \<open>scope_contract\<close> is
    what the host relies on of a scope, interpreted on \<open>reaches\<close>, \<open>within\<close> and \<open>widen\<close>.
  \<^item> \<open>Control_Ops\<close> (\<^verbatim>\<open>control-mcp/src/params.rs\<close>, \<^verbatim>\<open>lib.rs\<close>): the 33 tools, their parameters and what each
    needs.
  \<^item> \<open>Control_Access\<close> (\<^verbatim>\<open>runtime/src/app/control/mod.rs\<close>, \<^verbatim>\<open>privileged.rs\<close>): the check every call passes
    before it is dispatched, equal to an abstract statement of who is entitled to what.
  \<^item> \<open>Control_Store\<close>: how a changed meta is written. The locale \<open>meta_store\<close> is what the calls rely on of
    it, interpreted on \<open>find_meta\<close> and \<open>store_meta\<close>.
  \<^item> \<open>Control_Calls\<close>, \<open>Control_Laws\<close> (\<^verbatim>\<open>control/grants.rs\<close>, \<^verbatim>\<open>references.rs\<close>, \<^verbatim>\<open>watches.rs\<close>): the calls with
    all they write; a step relation over them with its invariants.
  \<^item> \<open>Control_Moves\<close>, \<open>Control_Move_Laws\<close> (\<^verbatim>\<open>control/operate.rs\<close>, \<^verbatim>\<open>sessions.rs\<close>): moving a thread into another
    project, by an agent or by the user; what can change a stored grant and the project that stands in
    for one, and how an agent gains a grant by moving itself.

  \<^bold>\<open>Between a client and its host.\<close>
  \<^item> \<open>Commands\<close> (\<^verbatim>\<open>protocol/src/command.rs\<close>): the commands a client sends, in groups.
  \<^item> \<open>Delivery\<close> (\<^verbatim>\<open>client/src/lib.rs\<close>, \<^verbatim>\<open>outbox.rs\<close>): the writes a client keeps until they are acknowledged.
  \<^item> \<open>Keyed_Commands\<close> (\<^verbatim>\<open>runtime/src/pipe.rs\<close>): how the host answers a command that carries a key.
  \<^item> \<open>Exactly_Once\<close>: the two over a line that breaks; every write whose result is there at once runs at
    most once and in order. A write that finishes later may run twice.
  \<^item> \<open>Json_Values\<close>, \<open>Outgoing\<close>, \<open>Client_Link\<close> (\<^verbatim>\<open>client/src/outgoing.rs\<close>, \<^verbatim>\<open>traverse/src/client.rs\<close>): the bounded
    queue of lines and the loop that relays it over one connection after another. The bytes charged to
    the queue are those of the lines it still answers for, but for one that a failed write loses; changes
    of subscription are kept apart, the last of each topic, at no charge.

  \<^bold>\<open>Terminals.\<close>
  \<^item> \<open>Terminal_Frames\<close> (\<^verbatim>\<open>protocol/src/terminal/mod.rs\<close>): the replicated screen and scrollback of a terminal,
    the deltas that bring it up to date, and what a reader sees of both.
  \<^item> \<open>Terminal_Projection\<close> (\<^verbatim>\<open>runtime/src/terminal/projection.rs\<close>, \<^verbatim>\<open>term/src/project.rs\<close>): how the host keeps the
    frame from what it reads of the emulator. A cell holds what the accessors of the emulator give.
  \<^item> \<open>Terminal_Replica\<close>: a client that applies what it is sent shows the emulator's grid, as long as that
    moves as documented: undamaged rows stay, rows scroll off in order, a table of at most 60000
    styles. Deferred scrollback is sent once the terminal is quiet.
  \<^item> \<open>Mux_Outbox\<close>, \<open>Mux_Laws\<close> (\<^verbatim>\<open>traverse/src/mux/outbox.rs\<close>): the lines that wait for one attached client;
    replacing a waiting line never changes what the client ends up with.

  \<^bold>\<open>How the parts meet.\<close> Adapters emit events; the host appends them (\<open>Turn_Boundaries\<close>,
  \<open>Turn_Snapshots\<close>) and folds them (\<open>Timeline\<close>), and \<open>append_and_fold_agree\<close> says that the two see the same
  turns. The activity fold of \<open>Settlement\<close> reads the same records. The metadata of \<open>Session_Meta\<close> holds
  the links of \<open>Pull_Requests\<close> and the grants of \<open>Control_Grants\<close>; \<open>Settlement\<close>, \<open>Thread_Order\<close> and
  \<open>Control_Access\<close> read it, \<open>Control_Calls\<close> changes it. A handler of \<open>Session_Runtime\<close> folds what a
  provider reports into the timeline of the session, by the fold of \<open>Timeline\<close> whose facts \<open>live\<close> say
  that it returns, and moves the queue on; the callbacks and fired watches of \<open>Control_Calls\<close> are the
  callbacks that \<open>deliver_callback\<close> brings to a session and the watch events a turn's end fires.

  \<^bold>\<open>Loops.\<close> No definition has fuel. Loops that are not structural have a measure: the walk up the
  parents and the walk down the children by the threads not met yet, a derived stack by the keys not
  placed, the search for an unused id by the ids in use, the midpoint of two keys by their lengths,
  the step over hidden keys by the hidden keys above the one found, the nested dispatch of a moved
  thread by whether it still has a move to hand over. The queue's 64-bit ids do not repeat within
  \<open>2^64\<close> operations, which the law on lost messages assumes.

  \<^bold>\<open>Not modelled.\<close> The provider adapters, the actors and sockets of the host, the store, the terminal emulator,
  the HTTP clients, the MCP servers and the user interfaces: they are dominated by input and output,
  by schemas of others or by rendering. Of the modelled files: parsers of git output, the wording of
  wakes and callbacks, host vocabularies and URLs of pull requests, reading a log from disk, the
  control calls that read logs or drive sessions other than by moving them, native rewinds and subagents, the approvals the host
  keeps, and the effects of a session's events on other threads. Of the
  host's state around a written meta, the write queue, revision counters and the settlement check it
  schedules are left out.
\<close>

end
